(* ===== verification/Prelude.thy ===== *)
theory Prelude
  imports Complex_Main "HOL-Library.AList"
begin

text \<open>
  Shared vocabulary of the development.

  \<^item> Code that may raise and that changes state: \<open>('s, 'a) act\<close>, a function from the state to
    the result (\<open>Inl\<close> an exception, \<open>Inr\<close> a value) and the state it leaves. An exception does
    not roll the state back, as in Python.
  \<^item> \<open>keeps P m\<close>: the action \<open>m\<close> preserves the predicate \<open>P\<close> of the state, however it ends;
    the rules in \<open>keeps_intro\<close> follow the combinators.
  \<^item> \<open>retrying\<close>, the shape of the retry loops of the code, and the lemmas about it.
\<close>

named_theorems act_simps \<open>equations that run the exception and state combinators\<close>
named_theorems keeps_intro \<open>rules that show an action keeps a predicate of the state\<close>

section \<open>Exceptions\<close>

text \<open>
  The exceptions the modelled code raises or lets through. \<open>OutOfFuel\<close> is not a Python
  exception: it marks a run that did not finish within the fuel given to the model, and no
  \<open>except\<close> clause catches it.
\<close>

datatype exn =
    ValueError string
  | TypeError string
  | KeyError string
  | IndexError
  | AttributeError string
  | RuntimeError string
  | FatalError string
  | RequestException string
  | HTTPError int
  | TaskValidationError string
  | TaskNotFoundError string
  | TaskConflictError string
  | ResultValidationError string
  | ZeroDivisionError
  | OutOfFuel

type_synonym ('s, 'a) act = "'s \<Rightarrow> (exn + 'a) \<times> 's"

definition ret :: "'a \<Rightarrow> ('s, 'a) act" where
  "ret x = (\<lambda>s. (Inr x, s))"

definition throw :: "exn \<Rightarrow> ('s, 'a) act" where
  "throw e = (\<lambda>s. (Inl e, s))"

definition andthen :: "('s, 'a) act \<Rightarrow> ('a \<Rightarrow> ('s, 'b) act) \<Rightarrow> ('s, 'b) act" where
  "andthen m k = (\<lambda>s. case m s of (Inl e, s') \<Rightarrow> (Inl e, s') | (Inr x, s') \<Rightarrow> k x s')"

text \<open>\<open>try: m except Exception as e: h(e)\<close>\<close>

definition catch :: "('s, 'a) act \<Rightarrow> (exn \<Rightarrow> ('s, 'a) act) \<Rightarrow> ('s, 'a) act" where
  "catch m h = (\<lambda>s. case m s of
      (Inl e, s') \<Rightarrow> if e = OutOfFuel then (Inl e, s') else h e s'
    | (Inr x, s') \<Rightarrow> (Inr x, s'))"

definition gets :: "('s \<Rightarrow> 'a) \<Rightarrow> ('s, 'a) act" where
  "gets f = (\<lambda>s. (Inr (f s), s))"

definition modify :: "('s \<Rightarrow> 's) \<Rightarrow> ('s, unit) act" where
  "modify f = (\<lambda>s. (Inr (), f s))"

text \<open>A pure computation that may raise, run inside an action.\<close>

definition lift :: "exn + 'a \<Rightarrow> ('s, 'a) act" where
  "lift r = (\<lambda>s. (r, s))"

text \<open>Sequencing of pure computations that may raise.\<close>

definition chain :: "exn + 'a \<Rightarrow> ('a \<Rightarrow> exn + 'b) \<Rightarrow> exn + 'b" where
  "chain r k = (case r of Inl e \<Rightarrow> Inl e | Inr x \<Rightarrow> k x)"

text \<open>\<open>for x in xs: acc = body(x, acc)\<close>, stopping at the first exception.\<close>

fun for_each :: "'x list \<Rightarrow> ('x \<Rightarrow> 'a \<Rightarrow> ('s, 'a) act) \<Rightarrow> 'a \<Rightarrow> ('s, 'a) act" where
  "for_each [] body acc = ret acc"
| "for_each (x # xs) body acc = andthen (body x acc) (for_each xs body)"

lemma chain_simps [simp]:
  "chain (Inl e) k = Inl e"
  "chain (Inr x) k = k x"
  by (simp_all add: chain_def)

lemma chain_eq_Inr: "chain r k = Inr y \<longleftrightarrow> (\<exists>x. r = Inr x \<and> k x = Inr y)"
  by (cases r) auto

lemma run_ret [act_simps]: "ret x s = (Inr x, s)"
  by (simp add: ret_def)

lemma run_throw [act_simps]: "throw e s = (Inl e, s)"
  by (simp add: throw_def)

lemma run_gets [act_simps]: "gets f s = (Inr (f s), s)"
  by (simp add: gets_def)

lemma run_modify [act_simps]: "modify f s = (Inr (), f s)"
  by (simp add: modify_def)

lemma run_lift [act_simps]: "lift r s = (r, s)"
  by (simp add: lift_def)

lemma run_andthen [act_simps]:
  "andthen m k s = (case m s of (Inl e, s') \<Rightarrow> (Inl e, s') | (Inr x, s') \<Rightarrow> k x s')"
  by (simp add: andthen_def)

lemma run_catch [act_simps]:
  "catch m h s = (case m s of
      (Inl e, s') \<Rightarrow> if e = OutOfFuel then (Inl e, s') else h e s'
    | (Inr x, s') \<Rightarrow> (Inr x, s'))"
  by (simp add: catch_def)

lemma andthen_Inr: "m s = (Inr x, s') \<Longrightarrow> andthen m k s = k x s'"
  by (simp add: act_simps)

lemma andthen_Inl: "m s = (Inl e, s') \<Longrightarrow> andthen m k s = (Inl e, s')"
  by (simp add: act_simps)

lemma catch_Inr: "m s = (Inr x, s') \<Longrightarrow> catch m h s = (Inr x, s')"
  by (simp add: act_simps)

lemma catch_Inl: "m s = (Inl e, s') \<Longrightarrow> e \<noteq> OutOfFuel \<Longrightarrow> catch m h s = h e s'"
  by (simp add: act_simps)

subsection \<open>Actions that keep a predicate of the state\<close>

definition keeps :: "('s \<Rightarrow> bool) \<Rightarrow> ('s, 'a) act \<Rightarrow> bool" where
  "keeps P m \<longleftrightarrow> (\<forall>s. P s \<longrightarrow> P (snd (m s)))"

lemma keepsI: "(\<And>s. P s \<Longrightarrow> P (snd (m s))) \<Longrightarrow> keeps P m"
  by (simp add: keeps_def)

lemma keepsD: "keeps P m \<Longrightarrow> P s \<Longrightarrow> P (snd (m s))"
  by (simp add: keeps_def)

lemma keeps_run: "keeps P m \<Longrightarrow> P s \<Longrightarrow> m s = (r, s') \<Longrightarrow> P s'"
  by (metis keepsD snd_conv)

lemma keeps_ret [keeps_intro]: "keeps P (ret x)"
  by (simp add: keeps_def act_simps)

lemma keeps_throw [keeps_intro]: "keeps P (throw e)"
  by (simp add: keeps_def act_simps)

lemma keeps_gets [keeps_intro]: "keeps P (gets f)"
  by (simp add: keeps_def act_simps)

lemma keeps_lift [keeps_intro]: "keeps P (lift r)"
  by (simp add: keeps_def act_simps)

lemma keeps_modify: "(\<And>s. P s \<Longrightarrow> P (f s)) \<Longrightarrow> keeps P (modify f)"
  by (simp add: keeps_def act_simps)

lemma keeps_andthen [keeps_intro]:
  "keeps P m \<Longrightarrow> (\<And>x. keeps P (k x)) \<Longrightarrow> keeps P (andthen m k)"
  by (fastforce simp: keeps_def act_simps split: prod.splits sum.splits)

lemma keeps_catch [keeps_intro]:
  "keeps P m \<Longrightarrow> (\<And>e. keeps P (h e)) \<Longrightarrow> keeps P (catch m h)"
  by (fastforce simp: keeps_def act_simps split: prod.splits sum.splits)

lemma keeps_for_each [keeps_intro]:
  "(\<And>x a. x \<in> set xs \<Longrightarrow> keeps P (body x a)) \<Longrightarrow> keeps P (for_each xs body acc)"
  by (induction xs arbitrary: acc) (auto intro!: keeps_ret keeps_andthen)

lemma keeps_if [keeps_intro]:
  "(b \<Longrightarrow> keeps P m) \<Longrightarrow> (\<not> b \<Longrightarrow> keeps P m') \<Longrightarrow> keeps P (if b then m else m')"
  by simp

lemma keeps_let [keeps_intro]: "keeps P (f x) \<Longrightarrow> keeps P (let y = x in f y)"
  by simp

lemma keeps_sum [keeps_intro]:
  "(\<And>y. x = Inl y \<Longrightarrow> keeps P (f y)) \<Longrightarrow> (\<And>y. x = Inr y \<Longrightarrow> keeps P (g y))
    \<Longrightarrow> keeps P (case x of Inl y \<Rightarrow> f y | Inr y \<Rightarrow> g y)"
  by (cases x) auto

lemma keeps_option [keeps_intro]:
  "(x = None \<Longrightarrow> keeps P m) \<Longrightarrow> (\<And>y. x = Some y \<Longrightarrow> keeps P (f y))
    \<Longrightarrow> keeps P (case x of None \<Rightarrow> m | Some y \<Rightarrow> f y)"
  by (cases x) auto

section \<open>Retry loops\<close>

text \<open>
  \<open>for attempt in range(n + 1): try: return op(x) except ...: x = next(attempt, x)\<close>,
  raising the last exception when every attempt failed. \<open>ok\<close> tells which exceptions the
  loop catches; \<open>x\<close> is what the loop changes between attempts (the target that is resolved
  again), \<open>next\<close> the code between two attempts (back-off, re-resolution).
\<close>

fun retrying ::
  "(exn \<Rightarrow> bool) \<Rightarrow> (nat \<Rightarrow> 'x \<Rightarrow> ('s, 'x) act) \<Rightarrow> ('x \<Rightarrow> ('s, 'a) act) \<Rightarrow> nat \<Rightarrow> nat \<Rightarrow> 'x
    \<Rightarrow> ('s, 'a) act" where
  "retrying ok nxt op 0 i x = op x"
| "retrying ok nxt op (Suc n) i x = (\<lambda>s. case op x s of
      (Inr v, s') \<Rightarrow> (Inr v, s')
    | (Inl e, s') \<Rightarrow>
        if ok e then andthen (nxt i x) (retrying ok nxt op n (Suc i)) s' else (Inl e, s'))"

lemma retrying_first: "op x s = (Inr v, s') \<Longrightarrow> retrying ok nxt op n i x s = (Inr v, s')"
  by (cases n) auto

lemma keeps_retrying [keeps_intro]:
  assumes op: "\<And>x. keeps P (op x)" and nxt: "\<And>i x. keeps P (nxt i x)"
  shows "keeps P (retrying ok nxt op n i x)"
proof (induction n arbitrary: i x)
  case 0
  show ?case by (simp add: op)
next
  case (Suc n)
  have rest: "keeps P (andthen (nxt i x) (retrying ok nxt op n (Suc i)))"
    by (intro keeps_andthen nxt Suc.IH)
  show ?case
  proof (rule keepsI)
    fix s assume "P s"
    then have P': "P (snd (op x s))" by (rule keepsD [OF op])
    obtain r s' where run: "op x s = (r, s')" by fastforce
    with P' have "P s'" by simp
    then have "P (snd (andthen (nxt i x) (retrying ok nxt op n (Suc i)) s'))"
      by (rule keepsD [OF rest])
    with run \<open>P s'\<close> show "P (snd (retrying ok nxt op (Suc n) i x s))"
      by (cases r) auto
  qed
qed

end
