(* ===== verification/Python.thy ===== *)
theory Python
  imports Prelude "HOL-Library.Sublist" "HOL-Library.List_Lexorder" "HOL-Library.Char_ord"
begin

text \<open>
  The values and library operations of Python the code uses: JSON values, dictionaries with
  string keys, strings, integers read from text, the clock and its ISO format.
\<close>

section \<open>JSON values\<close>

datatype json =
    JNull
  | JBool bool
  | JInt int
  | JFloat rat
  | JStr string
  | JList "json list"
  | JObj "(string \<times> json) list"

text \<open>
  A dictionary is the list of its items in their order. What Flask's \<open>jsonify\<close> makes of a value: the
  keys of all dictionaries are sorted. Python takes dictionaries that differ only in their order
  for equal.
\<close>

fun sorted_json :: "json \<Rightarrow> json" where
  "sorted_json (JList xs) = JList (List.map sorted_json xs)"
| "sorted_json (JObj d) = JObj (sort_key fst (List.map (\<lambda>p. (fst p, sorted_json (snd p))) d))"
| "sorted_json v = v"

definition same_json :: "json \<Rightarrow> json \<Rightarrow> bool" where
  "same_json v w \<longleftrightarrow> sorted_json v = sorted_json w"

lemma same_json_refl [simp]: "same_json v v"
  by (simp add: same_json_def)

type_synonym 'v dict = "(string \<times> 'v) list"
type_synonym jdict = "json dict"

text \<open>\<open>bool(v)\<close>\<close>

fun truthy :: "json \<Rightarrow> bool" where
  "truthy JNull = False"
| "truthy (JBool b) = b"
| "truthy (JInt n) = (n \<noteq> 0)"
| "truthy (JFloat q) = (q \<noteq> 0)"
| "truthy (JStr s) = (s \<noteq> [])"
| "truthy (JList xs) = (xs \<noteq> [])"
| "truthy (JObj d) = (d \<noteq> [])"

text \<open>The number a value stands for in a comparison: \<open>True == 1 == 1.0\<close>.\<close>

fun num_of :: "json \<Rightarrow> rat option" where
  "num_of (JBool b) = Some (if b then 1 else 0)"
| "num_of (JInt n) = Some (of_int n)"
| "num_of (JFloat q) = Some q"
| "num_of _ = None"

definition eq_int :: "json \<Rightarrow> int \<Rightarrow> bool" where
  "eq_int v n \<longleftrightarrow> num_of v = Some (of_int n)"

text \<open>\<open>isinstance(v, int)\<close>: a \<open>bool\<close> is an \<open>int\<close>.\<close>

fun is_int :: "json \<Rightarrow> bool" where
  "is_int (JInt _) = True"
| "is_int (JBool _) = True"
| "is_int _ = False"

fun is_dict :: "json \<Rightarrow> bool" where
  "is_dict (JObj _) = True"
| "is_dict _ = False"

fun is_list :: "json \<Rightarrow> bool" where
  "is_list (JList _) = True"
| "is_list _ = False"

text \<open>\<open>v in S\<close> for a set of strings: lists and dictionaries cannot be hashed.\<close>

fun in_str_set :: "json \<Rightarrow> string list \<Rightarrow> exn + bool" where
  "in_str_set (JStr s) S = Inr (s \<in> set S)"
| "in_str_set (JList _) S = Inl (TypeError ''unhashable type: list'')"
| "in_str_set (JObj _) S = Inl (TypeError ''unhashable type: dict'')"
| "in_str_set _ S = Inr False"

lemma in_str_set_True: "in_str_set v S = Inr True \<longleftrightarrow> (\<exists>s \<in> set S. v = JStr s)"
  by (cases v) auto

section \<open>Dictionaries\<close>

text \<open>\<open>d[k] = v\<close>, \<open>d.pop(k, None)\<close>, \<open>d.get(k)\<close>, \<open>d.get(k, default)\<close>, \<open>d.update(items)\<close>.\<close>

abbreviation dset :: "string \<Rightarrow> 'v \<Rightarrow> 'v dict \<Rightarrow> 'v dict" where
  "dset k v d \<equiv> AList.update k v d"

abbreviation ddel :: "string \<Rightarrow> 'v dict \<Rightarrow> 'v dict" where
  "ddel k d \<equiv> AList.delete k d"

definition dget_or :: "json \<Rightarrow> jdict \<Rightarrow> string \<Rightarrow> json" where
  "dget_or dflt d k = (case map_of d k of None \<Rightarrow> dflt | Some v \<Rightarrow> v)"

abbreviation dget :: "jdict \<Rightarrow> string \<Rightarrow> json" where
  "dget d k \<equiv> dget_or JNull d k"

definition dupdate :: "'v dict \<Rightarrow> 'v dict \<Rightarrow> 'v dict" where
  "dupdate d items = fold (\<lambda>(k, v). AList.update k v) items d"

text \<open>\<open>d[k]\<close>, which raises when the key is missing.\<close>

definition dindex :: "jdict \<Rightarrow> string \<Rightarrow> exn + json" where
  "dindex d k = (case map_of d k of None \<Rightarrow> Inl (KeyError k) | Some v \<Rightarrow> Inr v)"

definition dkeys :: "'v dict \<Rightarrow> string list" where
  "dkeys d = List.map fst d"

definition wf_dict :: "'v dict \<Rightarrow> bool" where
  "wf_dict d \<longleftrightarrow> distinct (dkeys d)"

lemma map_of_dset [simp]: "map_of (dset k v d) = (map_of d)(k \<mapsto> v)"
  by (rule update_conv')

lemma map_of_ddel [simp]: "map_of (ddel k d) = (map_of d)(k := None)"
  by (rule delete_conv')

lemma map_of_dupdate:
  "map_of (dupdate d items) k =
     (case map_of (rev items) k of None \<Rightarrow> map_of d k | Some v \<Rightarrow> Some v)"
proof (induction items arbitrary: d)
  case Nil
  show ?case by (simp add: dupdate_def)
next
  case (Cons p items)
  obtain k' v' where p: "p = (k', v')" by fastforce
  have "map_of (dupdate d (p # items)) k = map_of (dupdate (dset k' v' d) items) k"
    by (simp add: dupdate_def p)
  then show ?case
    by (simp add: Cons.IH p map_add_def split: option.splits)
qed

lemma map_of_rev_distinct: "distinct (List.map fst xs) \<Longrightarrow> map_of (rev xs) = map_of xs"
  by (rule map_of_eqI) (auto simp: rev_map [symmetric] distinct_rev)

lemma map_of_dupdate_wf:
  "wf_dict items \<Longrightarrow> map_of (dupdate d items) = map_of d ++ map_of items"
  by (rule ext)
    (simp add: map_of_dupdate map_of_rev_distinct wf_dict_def dkeys_def map_add_def)

lemma wf_dict_dset [simp]: "wf_dict d \<Longrightarrow> wf_dict (dset k v d)"
  by (simp add: wf_dict_def dkeys_def distinct_update)

lemma wf_dict_ddel [simp]: "wf_dict d \<Longrightarrow> wf_dict (ddel k d)"
  by (simp add: wf_dict_def dkeys_def distinct_delete)

lemma wf_dict_Nil [simp]: "wf_dict []"
  by (simp add: wf_dict_def dkeys_def)

lemma wf_dict_dupdate [simp]: "wf_dict d \<Longrightarrow> wf_dict (dupdate d items)"
proof (induction items arbitrary: d)
  case Nil
  then show ?case by (simp add: dupdate_def)
next
  case (Cons p items)
  then have "wf_dict (dupdate (dset (fst p) (snd p) d) items)" by simp
  then show ?case by (simp add: dupdate_def case_prod_beta)
qed

lemma dget_or_dset [simp]:
  "dget_or dflt (dset k v d) k' = (if k' = k then v else dget_or dflt d k')"
  by (simp add: dget_or_def)

lemma dget_or_Cons:
  "dget_or dflt ((k, v) # d) k' = (if k' = k then v else dget_or dflt d k')"
  by (simp add: dget_or_def)

lemma dget_or_Nil [simp]: "dget_or dflt [] k = dflt"
  by (simp add: dget_or_def)

section \<open>Strings\<close>

text \<open>\<open>str(n)\<close> for an integer.\<close>

definition digit :: "nat \<Rightarrow> char" where
  "digit n = char_of (48 + n)"

fun show_nat :: "nat \<Rightarrow> string" where
  "show_nat n = (if n < 10 then [digit n] else show_nat (n div 10) @ [digit (n mod 10)])"

declare show_nat.simps [simp del]

definition show_int :: "int \<Rightarrow> string" where
  "show_int n = (if n < 0 then CHR ''-'' # show_nat (nat (- n)) else show_nat (nat n))"

lemma digit_inj: "m < 10 \<Longrightarrow> n < 10 \<Longrightarrow> digit m = digit n \<Longrightarrow> m = n"
proof -
  assume "m < 10" "n < 10" "digit m = digit n"
  then have "(of_char (char_of (48 + m)) :: nat) = of_char (char_of (48 + n))" by (simp add: digit_def)
  with \<open>m < 10\<close> \<open>n < 10\<close> show "m = n" by simp
qed

lemma show_nat_nonempty: "show_nat n \<noteq> []"
  by (simp add: show_nat.simps [of n])

lemma show_nat_inj: "show_nat m = show_nat n \<Longrightarrow> m = n"
proof (induction m arbitrary: n rule: show_nat.induct)
  case (1 m)
  have eq: "(if m < 10 then [digit m] else show_nat (m div 10) @ [digit (m mod 10)]) =
      (if n < 10 then [digit n] else show_nat (n div 10) @ [digit (n mod 10)])"
    by (rule trans [OF show_nat.simps [of m, symmetric] trans [OF "1.prems" show_nat.simps [of n]]])
  show ?case
  proof (cases "m < 10 \<or> n < 10")
    case True
    then show ?thesis
      using eq digit_inj [of m n] show_nat_nonempty [of "m div 10"] show_nat_nonempty [of "n div 10"]
      by (auto split: if_splits)
  next
    case False
    with eq have "show_nat (m div 10) = show_nat (n div 10)" "digit (m mod 10) = digit (n mod 10)"
      by simp_all
    then have "m div 10 = n div 10" "m mod 10 = n mod 10"
      using "1.IH" [of "n div 10"] digit_inj [of "m mod 10" "n mod 10"] False by auto
    then show ?thesis by (metis div_mult_mod_eq)
  qed
qed

text \<open>\<open>str.strip()\<close>: the characters that \<open>str.isspace\<close> accepts among the first 256 code points.\<close>

definition is_space :: "char \<Rightarrow> bool" where
  "is_space c \<longleftrightarrow> (let n = of_char c :: nat in (9 \<le> n \<and> n \<le> 13) \<or> (28 \<le> n \<and> n \<le> 32) \<or> n = 133 \<or> n = 160)"

definition strip :: "string \<Rightarrow> string" where
  "strip s = rev (dropWhile is_space (rev (dropWhile is_space s)))"

abbreviation startswith :: "string \<Rightarrow> string \<Rightarrow> bool" where
  "startswith s p \<equiv> prefix p s"

text \<open>\<open>s.split(sep, 1)[1]\<close>: what follows the first occurrence of the separator.\<close>

fun after_first :: "string \<Rightarrow> string \<Rightarrow> exn + string" where
  "after_first sep [] = Inl IndexError"
| "after_first sep (c # cs) =
     (if prefix sep (c # cs) then Inr (drop (length sep) (c # cs)) else after_first sep cs)"

lemma after_first_prefix: "sep \<noteq> [] \<Longrightarrow> after_first sep (sep @ s) = Inr s"
  by (cases sep) auto

lemma hd_dropWhile_not: "dropWhile P xs \<noteq> [] \<Longrightarrow> \<not> P (hd (dropWhile P xs))"
  by (rule hd_dropWhile)

lemma dropWhile_hd: "xs = [] \<or> \<not> P (hd xs) \<Longrightarrow> dropWhile P xs = xs"
  by (cases xs) auto

lemma rev_dropWhile_rev_hd:
  assumes "xs = [] \<or> \<not> P (hd xs)"
  shows "rev (dropWhile P (rev xs)) = [] \<or> \<not> P (hd (rev (dropWhile P (rev xs))))"
proof (cases "dropWhile P (rev xs) = []")
  case False
  have "suffix (dropWhile P (rev xs)) (rev xs)" by (rule suffix_dropWhile)
  then obtain ys where "rev xs = ys @ dropWhile P (rev xs)" by (auto simp: suffix_def)
  then have "xs = rev (dropWhile P (rev xs)) @ rev ys"
    by (metis rev_append rev_rev_ident)
  with False have "hd xs = hd (rev (dropWhile P (rev xs)))" and "xs \<noteq> []"
    by (metis hd_append rev_is_Nil_conv, auto)
  with assms show ?thesis by simp
qed simp

lemma strip_strip [simp]: "strip (strip s) = strip s"
proof -
  have "dropWhile is_space s = [] \<or> \<not> is_space (hd (dropWhile is_space s))"
    using hd_dropWhile by blast
  then have "strip s = [] \<or> \<not> is_space (hd (strip s))"
    unfolding strip_def by (rule rev_dropWhile_rev_hd)
  then have "dropWhile is_space (strip s) = strip s" by (rule dropWhile_hd)
  moreover have "dropWhile is_space (rev (strip s)) = rev (strip s)"
    by (simp add: strip_def)
  ultimately show ?thesis
    by (simp add: strip_def [of "strip s"])
qed

text \<open>\<open>int(text)\<close>: blanks around it, a sign, digits with single underscores between them.\<close>

definition digit_value :: "char \<Rightarrow> nat option" where
  "digit_value c = (let n = of_char c :: nat in if 48 \<le> n \<and> n \<le> 57 then Some (n - 48) else None)"

fun digits_value :: "nat \<Rightarrow> string \<Rightarrow> nat option" where
  "digits_value acc [] = Some acc"
| "digits_value acc (c # cs) =
     (case digit_value c of
        Some d \<Rightarrow> digits_value (10 * acc + d) cs
      | None \<Rightarrow>
          (if c = CHR ''_'' then
             (case cs of
                [] \<Rightarrow> None
              | c' # cs' \<Rightarrow>
                  (case digit_value c' of
                     Some d \<Rightarrow> digits_value (10 * acc + d) cs'
                   | None \<Rightarrow> None))
           else None))"

fun unsigned_value :: "string \<Rightarrow> nat option" where
  "unsigned_value [] = None"
| "unsigned_value (c # cs) =
     (case digit_value c of None \<Rightarrow> None | Some d \<Rightarrow> digits_value d cs)"

definition int_of_string :: "string \<Rightarrow> exn + int" where
  "int_of_string text =
     (let s = strip text;
          r = (case s of
                 CHR ''-'' # cs \<Rightarrow> map_option (\<lambda>n. - int n) (unsigned_value cs)
               | CHR ''+'' # cs \<Rightarrow> map_option int (unsigned_value cs)
               | _ \<Rightarrow> map_option int (unsigned_value s))
      in case r of Some n \<Rightarrow> Inr n | None \<Rightarrow> Inl (ValueError ''invalid literal for int()''))"

text \<open>\<open>int(v)\<close>: a float is truncated towards zero.\<close>

definition trunc :: "rat \<Rightarrow> int" where
  "trunc q = (if q < 0 then - floor (- q) else floor q)"

fun py_int :: "json \<Rightarrow> exn + int" where
  "py_int (JInt n) = Inr n"
| "py_int (JBool b) = Inr (if b then 1 else 0)"
| "py_int (JFloat q) = Inr (trunc q)"
| "py_int (JStr s) = int_of_string s"
| "py_int _ = Inl (TypeError ''int() argument must be a string or a number'')"

section \<open>The clock\<close>

text \<open>
  The clock is the number of microseconds since the epoch. \<open>time.time()\<close> is that number of
  seconds; \<open>datetime.now(timezone.utc).isoformat().replace('+00:00', 'Z')\<close> prints it, with
  the fraction left out when it is zero. The civil date is computed from the day number by
  counting 400-year eras that start in March.
\<close>

definition seconds :: "int \<Rightarrow> rat" where
  "seconds us = of_int us / 1000000"

definition pad :: "nat \<Rightarrow> int \<Rightarrow> string" where
  "pad w n = (let s = show_int n in replicate (w - length s) (CHR ''0'') @ s)"

definition civil_of_days :: "int \<Rightarrow> int \<times> int \<times> int" where
  "civil_of_days z0 =
     (let z = z0 + 719468;
          era = z div 146097;
          doe = z mod 146097;
          yoe = (doe - doe div 1460 + doe div 36524 - doe div 146096) div 365;
          doy = doe - (365 * yoe + yoe div 4 - yoe div 100);
          mp = (5 * doy + 2) div 153;
          d = doy - (153 * mp + 2) div 5 + 1;
          m = (if mp < 10 then mp + 3 else mp - 9);
          y = yoe + era * 400
      in ((if m \<le> 2 then y + 1 else y), m, d))"

definition iso_utc :: "int \<Rightarrow> string" where
  "iso_utc us =
     (let (y, m, d) = civil_of_days (us div 86400000000);
          t = us mod 86400000000;
          h = t div 3600000000;
          mi = t div 60000000 mod 60;
          sec = t div 1000000 mod 60;
          f = t mod 1000000
      in pad 4 y @ ''-'' @ pad 2 m @ ''-'' @ pad 2 d @ ''T'' @ pad 2 h @ '':'' @ pad 2 mi
         @ '':'' @ pad 2 sec @ (if f = 0 then [] else ''.'' @ pad 6 f) @ ''Z'')"

section \<open>Comparison, addition, membership and text\<close>

text \<open>\<open>a >= b\<close>\<close>

fun py_ge :: "json \<Rightarrow> json \<Rightarrow> exn + bool" where
  "py_ge (JStr a) (JStr b) = Inr (b \<le> a)"
| "py_ge a b =
     (case (num_of a, num_of b) of
        (Some x, Some y) \<Rightarrow> Inr (y \<le> x)
      | _ \<Rightarrow> Inl (TypeError ''comparison not supported''))"

text \<open>\<open>a + 1\<close>\<close>

fun py_add1 :: "json \<Rightarrow> exn + json" where
  "py_add1 (JInt n) = Inr (JInt (n + 1))"
| "py_add1 (JBool b) = Inr (JInt (if b then 2 else 1))"
| "py_add1 (JFloat q) = Inr (JFloat (q + 1))"
| "py_add1 _ = Inl (TypeError ''unsupported operand'')"

text \<open>\<open>s in v\<close> for a string: an item, a part of the text, or a key.\<close>

fun py_in :: "string \<Rightarrow> json \<Rightarrow> exn + bool" where
  "py_in s (JList xs) = Inr (JStr s \<in> set xs)"
| "py_in s (JStr t) = Inr (sublist s t)"
| "py_in s (JObj d) = Inr (s \<in> set (dkeys d))"
| "py_in s _ = Inl (TypeError ''argument is not iterable'')"

text \<open>The text of a number in an f-string; a fraction with up to sixteen digits.\<close>

definition fraction_digits :: "rat \<Rightarrow> string" where
  "fraction_digits q =
     (let ds = pad 16 (floor ((q - of_int (floor q)) * 10 ^ 16));
          r = rev (dropWhile (\<lambda>c. c = CHR ''0'') (rev ds))
      in if r = [] then ''0'' else r)"

fun show_value :: "json \<Rightarrow> string" where
  "show_value (JInt n) = show_int n"
| "show_value (JBool b) = (if b then ''True'' else ''False'')"
| "show_value JNull = ''None''"
| "show_value (JStr s) = s"
| "show_value (JFloat q) = (if q < 0 then ''-'' else []) @ show_int (floor (abs q)) @ ''.'' @ fraction_digits (abs q)"
| "show_value _ = ''...''"

text \<open>\<open>f"{t:.0f}"\<close>: the nearest integer, ties to even.\<close>

definition round_half_even :: "rat \<Rightarrow> int" where
  "round_half_even q =
     (let f = floor q; r = q - of_int f in
      if r < 1 / 2 then f else if 1 / 2 < r then f + 1 else if even f then f else f + 1)"

text \<open>\<open>float(v)\<close>, of the values with which a thread can sleep: a decimal with an optional exponent.\<close>

definition fraction_value :: "string \<Rightarrow> rat option" where
  "fraction_value ds =
     (case unsigned_value ds of
        Some n \<Rightarrow> Some (of_nat n / 10 ^ length (filter (\<lambda>c. digit_value c \<noteq> None) ds))
      | None \<Rightarrow> if ds = [] then Some 0 else None)"

definition mantissa_value :: "string \<Rightarrow> rat option" where
  "mantissa_value s =
     (let whole = takeWhile (\<lambda>c. c \<noteq> CHR ''.'') s; rest = drop (length whole) s in
      if rest = [] then map_option of_nat (unsigned_value whole)
      else if whole = [] \<and> tl rest = [] then None
      else case (if whole = [] then Some 0 else unsigned_value whole, fraction_value (tl rest)) of
             (Some n, Some q) \<Rightarrow> Some (of_nat n + q)
           | _ \<Rightarrow> None)"

fun signed :: "(string \<Rightarrow> 'a :: ab_group_add option) \<Rightarrow> string \<Rightarrow> 'a option" where
  "signed f (CHR ''-'' # cs) = map_option uminus (f cs)"
| "signed f (CHR ''+'' # cs) = f cs"
| "signed f cs = f cs"

definition float_text :: "string \<Rightarrow> rat option" where
  "float_text text =
     (let s = strip text; m = takeWhile (\<lambda>c. c \<noteq> CHR ''e'' \<and> c \<noteq> CHR ''E'') s; e = drop (length m) s in
      case signed mantissa_value m of
        None \<Rightarrow> None
      | Some q \<Rightarrow>
          if e = [] then Some q
          else (case signed (\<lambda>ds. map_option int (unsigned_value ds)) (tl e) of
                  Some k \<Rightarrow> Some (if 0 \<le> k then q * 10 ^ nat k else q / 10 ^ nat (- k))
                | None \<Rightarrow> None))"

definition py_float :: "json \<Rightarrow> exn + rat" where
  "py_float v =
     (case num_of v of
        Some q \<Rightarrow> Inr q
      | None \<Rightarrow>
          (case v of
             JStr s \<Rightarrow> (case float_text s of Some q \<Rightarrow> Inr q | None \<Rightarrow> Inl (ValueError ''could not convert string to float''))
           | _ \<Rightarrow> Inl (TypeError ''float() argument'')))"

end
