(* ===== verification/Sha1.thy ===== *)
theory Sha1
  imports Python "HOL-Library.Word"
begin

unbundle bit_operations_syntax

text \<open>
  \<open>hashlib.sha1(key.encode()).hexdigest()\<close> read as an integer, following FIPS 180-4: the
  message is padded to blocks of 64 bytes, each block is expanded to 80 words, and 80 rounds
  update five 32-bit words. It is what \<open>sha1_id\<close> of \<open>chord/node.py\<close> hashes keys with.
\<close>

type_synonym w32 = "32 word"
type_synonym hash5 = "w32 \<times> w32 \<times> w32 \<times> w32 \<times> w32"

definition byte_of :: "int \<Rightarrow> nat \<Rightarrow> w32" where
  "byte_of n i = of_int (n div 256 ^ i mod 256)"

definition sha1_pad :: "string \<Rightarrow> w32 list" where
  "sha1_pad key =
     (let n = length key;
          zeros = (119 - n mod 64) mod 64
      in List.map (\<lambda>c. of_int (of_char c)) key @ [128] @ replicate zeros 0
         @ List.map (byte_of (8 * int n)) [7, 6, 5, 4, 3, 2, 1, 0])"

fun words_of :: "w32 list \<Rightarrow> w32 list" where
  "words_of (a # b # c # d # rest) =
     (push_bit 24 a OR push_bit 16 b OR push_bit 8 c OR d) # words_of rest"
| "words_of _ = []"

text \<open>The schedule, newest word first: \<open>w t = rotl 1 (w(t-3) XOR w(t-8) XOR w(t-14) XOR w(t-16))\<close>.\<close>

fun sha1_expand :: "nat \<Rightarrow> w32 list \<Rightarrow> w32 list" where
  "sha1_expand 0 ws = ws"
| "sha1_expand (Suc n) ws =
     sha1_expand n (word_rotl 1 (ws ! 2 XOR ws ! 7 XOR ws ! 13 XOR ws ! 15) # ws)"

definition sha1_f :: "nat \<Rightarrow> w32 \<Rightarrow> w32 \<Rightarrow> w32 \<Rightarrow> w32" where
  "sha1_f t b c d =
     (if t < 20 then (b AND c) OR ((NOT b) AND d)
      else if t < 40 then b XOR c XOR d
      else if t < 60 then (b AND c) OR (b AND d) OR (c AND d)
      else b XOR c XOR d)"

definition sha1_k :: "nat \<Rightarrow> w32" where
  "sha1_k t =
     (if t < 20 then 0x5A827999 else if t < 40 then 0x6ED9EBA1
      else if t < 60 then 0x8F1BBCDC else 0xCA62C1D6)"

fun sha1_rounds :: "nat \<Rightarrow> w32 list \<Rightarrow> hash5 \<Rightarrow> hash5" where
  "sha1_rounds t [] h = h"
| "sha1_rounds t (w # ws) (a, b, c, d, e) =
     sha1_rounds (Suc t) ws
       (word_rotl 5 a + sha1_f t b c d + e + sha1_k t + w, a, word_rotl 30 b, c, d)"

definition sha1_block :: "w32 list \<Rightarrow> hash5 \<Rightarrow> hash5" where
  "sha1_block ws h =
     (let (a, b, c, d, e) = h;
          (a', b', c', d', e') = sha1_rounds 0 (rev (sha1_expand 64 (rev ws))) h
      in (a + a', b + b', c + c', d + d', e + e'))"

function sha1_blocks :: "w32 list \<Rightarrow> hash5 \<Rightarrow> hash5" where
  "sha1_blocks ws h =
     (if length ws < 16 then h else sha1_blocks (drop 16 ws) (sha1_block (take 16 ws) h))"
  by pat_completeness auto
termination
  by (relation "measure (\<lambda>(ws, h). length ws)") auto

declare sha1_blocks.simps [simp del]

definition sha1 :: "string \<Rightarrow> hash5" where
  "sha1 key = sha1_blocks (words_of (sha1_pad key))
     (0x67452301, 0xEFCDAB89, 0x98BADCFE, 0x10325476, 0xC3D2E1F0)"

definition sha1_int :: "string \<Rightarrow> int" where
  "sha1_int key =
     (let (a, b, c, d, e) = sha1 key
      in uint a * 2 ^ 128 + uint b * 2 ^ 96 + uint c * 2 ^ 64 + uint d * 2 ^ 32 + uint e)"

end
