(* ===== verification/Ring.thy ===== *)
theory Ring
  imports Sha1
begin

text \<open>
  The identifier ring of \<open>chord/node.py\<close>: the number of bits \<open>M\<close>, the hash \<open>sha1_id\<close> and
  the interval test \<open>in_range\<close>, with the two distances the proofs measure the ring by:
  \<open>cw a x\<close>, the number of identifiers strictly between \<open>a\<close> and \<open>x\<close> going clockwise (so that
  \<open>a\<close> itself is the farthest point from \<open>a\<close>), and \<open>dist k x\<close>, the number of clockwise steps
  from \<open>k\<close> to \<open>x\<close> (so that \<open>k\<close> itself is the nearest point to \<open>k\<close>). Everything but the
  equation of \<open>M\<close> holds for any number of bits.
\<close>

definition M :: nat where
  "M = 8"

lemma M_pos [simp]: "0 < M" "M \<noteq> 0"
  by (simp_all add: M_def)

definition ring_size :: int where
  "ring_size = 2 ^ M"

lemma ring_size_pos [simp]: "0 < ring_size"
  by (simp add: ring_size_def)

lemma ring_size_gt_1 [simp]: "1 < ring_size"
  by (simp add: ring_size_def)

definition sha1_id :: "string \<Rightarrow> int" where
  "sha1_id key = sha1_int key mod (2 ^ M)"

definition in_range :: "int \<Rightarrow> int \<Rightarrow> int \<Rightarrow> bool \<Rightarrow> bool" where
  "in_range x a b inclusive_b =
     (if a = b then True
      else if a < b then (if inclusive_b then a < x \<and> x \<le> b else a < x \<and> x < b)
      else (if inclusive_b then x > a \<or> x \<le> b else x > a \<or> x < b))"

text \<open>A ring identifier.\<close>

definition is_id :: "int \<Rightarrow> bool" where
  "is_id x \<longleftrightarrow> 0 \<le> x \<and> x < ring_size"

lemma sha1_id_is_id [simp]: "is_id (sha1_id key)"
  by (simp add: is_id_def sha1_id_def ring_size_def)

lemma mod_ring_is_id [simp]: "is_id (x mod ring_size)"
  by (simp add: is_id_def)

section \<open>Clockwise distances\<close>

definition cw :: "int \<Rightarrow> int \<Rightarrow> int" where
  "cw a x = (x - a - 1) mod ring_size"

definition dist :: "int \<Rightarrow> int \<Rightarrow> int" where
  "dist k x = (x - k) mod ring_size"

lemma cw_nonneg [simp]: "0 \<le> cw a x" and cw_less [simp]: "cw a x < ring_size"
  by (simp_all add: cw_def)

lemma dist_nonneg [simp]: "0 \<le> dist k x" and dist_less [simp]: "dist k x < ring_size"
  by (simp_all add: dist_def)

lemma mod_ring_small:
  "- ring_size \<le> d \<Longrightarrow> d < ring_size \<Longrightarrow> d mod ring_size = (if d < 0 then d + ring_size else d)"
proof (cases "d < 0")
  case True
  assume "- ring_size \<le> d"
  have "d mod ring_size = (d + ring_size) mod ring_size" by simp
  also have "\<dots> = d + ring_size"
    using True \<open>- ring_size \<le> d\<close> by (intro mod_pos_pos_trivial) auto
  finally show ?thesis using True by simp
qed (simp add: mod_pos_pos_trivial)

lemma cw_eq:
  "is_id a \<Longrightarrow> is_id x \<Longrightarrow> cw a x = (if a < x then x - a - 1 else x - a - 1 + ring_size)"
  by (auto simp: cw_def is_id_def mod_ring_small)

lemma dist_eq:
  "is_id k \<Longrightarrow> is_id x \<Longrightarrow> dist k x = (if k \<le> x then x - k else x - k + ring_size)"
  by (auto simp: dist_def is_id_def mod_ring_small)

lemma cw_self: "is_id a \<Longrightarrow> cw a a = ring_size - 1"
  by (simp add: cw_eq)

lemma dist_self [simp]: "dist k k = 0"
  by (simp add: dist_def)

lemma dist_0_iff: "is_id k \<Longrightarrow> is_id x \<Longrightarrow> dist k x = 0 \<longleftrightarrow> x = k"
  by (auto simp: dist_eq is_id_def)

lemma cw_dist: "is_id a \<Longrightarrow> is_id x \<Longrightarrow> x \<noteq> a \<Longrightarrow> cw a x = dist a x - 1"
  by (auto simp: cw_eq dist_eq)

lemma cw_inj: "is_id a \<Longrightarrow> is_id x \<Longrightarrow> is_id y \<Longrightarrow> cw a x = cw a y \<Longrightarrow> x = y"
  by (auto simp: cw_eq is_id_def split: if_splits)

lemma dist_inj: "is_id a \<Longrightarrow> is_id x \<Longrightarrow> is_id y \<Longrightarrow> dist a x = dist a y \<Longrightarrow> x = y"
  by (auto simp: dist_eq is_id_def split: if_splits)

text \<open>
  What \<open>in_range\<close> tests. With the right end included it is exactly "clockwise from \<open>a\<close>, \<open>x\<close>
  comes no later than \<open>b\<close>". With the right end excluded it is "strictly before \<open>b\<close>", except
  that a degenerate interval \<open>(a, a)\<close> also holds \<open>a\<close> itself.
\<close>

lemma in_range_inclusive:
  "is_id x \<Longrightarrow> is_id a \<Longrightarrow> is_id b \<Longrightarrow> in_range x a b True \<longleftrightarrow> cw a x \<le> cw a b"
  by (auto simp: in_range_def cw_eq is_id_def)

lemma in_range_exclusive:
  "is_id x \<Longrightarrow> is_id a \<Longrightarrow> is_id b \<Longrightarrow>
     in_range x a b False \<longleftrightarrow> cw a x < cw a b \<or> (x = a \<and> a = b)"
  by (auto simp: in_range_def cw_eq is_id_def)

text \<open>
  Moving the origin: from a point \<open>b\<close> that is not after \<open>x\<close>, the distance to \<open>x\<close> is what is
  left of the distance from \<open>a\<close>.
\<close>

lemma dist_shift:
  "is_id a \<Longrightarrow> is_id k \<Longrightarrow> is_id x \<Longrightarrow> cw a k \<le> cw a x \<Longrightarrow> dist k x = cw a x - cw a k"
  by (auto simp: cw_eq dist_eq is_id_def split: if_splits)

lemma cw_shift:
  "is_id a \<Longrightarrow> is_id b \<Longrightarrow> is_id x \<Longrightarrow> cw a b < cw a x \<Longrightarrow> cw b x = cw a x - cw a b - 1"
  by (auto simp: cw_eq is_id_def split: if_splits)

lemma cw_shift_le:
  "is_id a \<Longrightarrow> is_id b \<Longrightarrow> is_id x \<Longrightarrow> cw a x \<le> cw a b \<Longrightarrow>
     cw b x = ring_size - 1 - (cw a b - cw a x)"
  by (auto simp: cw_eq is_id_def split: if_splits)

section \<open>Who comes next, who owns a key\<close>

text \<open>
  In a set \<open>S\<close> of identifiers, \<open>next_of S n j\<close>: \<open>j\<close> is the first member met clockwise after
  \<open>n\<close> (\<open>n\<close> itself when \<open>S\<close> has no other member); \<open>owner_of S k j\<close>: \<open>j\<close> is the first member
  at or after \<open>k\<close>, the node consistent hashing makes responsible for the key \<open>k\<close>.
\<close>

definition next_of :: "int set \<Rightarrow> int \<Rightarrow> int \<Rightarrow> bool" where
  "next_of S n j \<longleftrightarrow> j \<in> S \<and> (\<forall>i \<in> S. cw n j \<le> cw n i)"

definition owner_of :: "int set \<Rightarrow> int \<Rightarrow> int \<Rightarrow> bool" where
  "owner_of S k j \<longleftrightarrow> j \<in> S \<and> (\<forall>i \<in> S. dist k j \<le> dist k i)"

definition ids_set :: "int set \<Rightarrow> bool" where
  "ids_set S \<longleftrightarrow> (\<forall>x \<in> S. is_id x)"

lemma next_ofD: "next_of S n j \<Longrightarrow> j \<in> S" "next_of S n j \<Longrightarrow> i \<in> S \<Longrightarrow> cw n j \<le> cw n i"
  by (simp_all add: next_of_def)

lemma owner_ofD: "owner_of S k j \<Longrightarrow> j \<in> S" "owner_of S k j \<Longrightarrow> i \<in> S \<Longrightarrow> dist k j \<le> dist k i"
  by (simp_all add: owner_of_def)

lemma next_of_unique:
  "ids_set S \<Longrightarrow> is_id n \<Longrightarrow> next_of S n i \<Longrightarrow> next_of S n j \<Longrightarrow> i = j"
  by (metis cw_inj dual_order.antisym ids_set_def next_ofD)

lemma owner_of_unique:
  "ids_set S \<Longrightarrow> is_id k \<Longrightarrow> owner_of S k i \<Longrightarrow> owner_of S k j \<Longrightarrow> i = j"
  by (metis dist_inj dual_order.antisym ids_set_def owner_ofD)

lemma owner_of_member: "k \<in> S \<Longrightarrow> owner_of S k k"
  by (simp add: owner_of_def)

text \<open>The successor of \<open>n\<close> owns every key from just after \<open>n\<close> up to itself.\<close>

lemma next_of_owner:
  assumes "ids_set S" and "is_id n" and "is_id k" and "next_of S n j" and "cw n k \<le> cw n j"
  shows "owner_of S k j"
proof -
  have "dist k j \<le> dist k i" if "i \<in> S" for i
  proof -
    have ids: "is_id i" "is_id j"
      using assms that by (auto simp: ids_set_def dest: next_ofD)
    have le: "cw n j \<le> cw n i" using assms(4) that by (rule next_ofD)
    have "dist k j = cw n j - cw n k" using assms ids by (intro dist_shift) auto
    moreover have "dist k i = cw n i - cw n k" using assms ids le by (intro dist_shift) auto
    ultimately show ?thesis using le by simp
  qed
  with assms(4) show ?thesis by (simp add: owner_of_def next_of_def)
qed

text \<open>The first member at or after \<open>n + 1\<close> is the successor of \<open>n\<close>.\<close>

lemma owner_of_Suc_next: "owner_of S ((n + 1) mod ring_size) j \<longleftrightarrow> next_of S n j"
proof -
  have "dist ((n + 1) mod ring_size) x = cw n x" for x
    by (simp add: dist_def cw_def mod_diff_right_eq diff_diff_eq)
  then show ?thesis by (simp add: owner_of_def next_of_def)
qed

text \<open>A finite set of identifiers has a successor and an owner for every point.\<close>

lemma next_of_exists:
  assumes "finite S" and "S \<noteq> {}"
  shows "\<exists>j. next_of S n j"
  using ex_min_if_finite [of "cw n ` S"] assms
  by (fastforce simp: next_of_def not_less)

lemma owner_of_exists:
  assumes "finite S" and "S \<noteq> {}"
  shows "\<exists>j. owner_of S k j"
  using ex_min_if_finite [of "dist k ` S"] assms
  by (fastforce simp: owner_of_def not_less)

lemma ids_set_finite: "ids_set S \<Longrightarrow> finite S"
  by (rule finite_subset [of S "{0 ..< ring_size}"]) (auto simp: ids_set_def is_id_def)

end
