(* ===== verification/Node.thy ===== *)
theory Node
  imports Ring
begin

text \<open>
  \<open>ChordNode\<close> of \<open>chord/node.py\<close> as seen from its own process: its state, the construction,
  the snapshot on disk, the finger table, \<open>notify\<close>, and the local store. The operations that
  call other nodes are in Lookup and Maintenance.
\<close>

section \<open>State\<close>

text \<open>
  A reference to a node, the dictionary \<open>{"id": .., "address": ..}\<close>; a finger. Every finger
  is given a node when the table is built and each later assignment stores an integer id, so
  the tests \<open>f.node_id is not None\<close> of the code are always true and a finger has no missing
  node here.
\<close>

record nref =
  ref_id :: int
  ref_addr :: string

record finger_entry =
  start :: int
  finger_id :: int
  finger_addr :: string

text \<open>The snapshot file of a node: absent, not readable as JSON, or a dictionary.\<close>

datatype disk_file = Missing | Unreadable | Contents jdict

text \<open>
  \<open>persist\<close> says whether \<open>_persist_path\<close> is set, \<open>writable\<close> whether writing the file
  succeeds. \<open>pred_fail_count\<close> is the attribute \<open>_pred_fail_count\<close>, read as 0 before it is set.
\<close>

record chord_node =
  address :: string
  node_id :: int
  predecessor :: "nref option"
  fingers :: "finger_entry list"
  data_store :: jdict
  jobs_completed :: int
  jobs_failed :: int
  pred_fail_count :: nat
  persist :: bool
  writable :: bool
  disk :: disk_file

definition self_ref :: "chord_node \<Rightarrow> nref" where
  "self_ref nd = \<lparr>ref_id = node_id nd, ref_addr = address nd\<rparr>"

section \<open>Construction and the snapshot on disk\<close>

definition init_fingers :: "int \<Rightarrow> string \<Rightarrow> finger_entry list" where
  "init_fingers nid addr =
     List.map (\<lambda>i. \<lparr>start = (nid + 2 ^ i) mod (2 ^ M), finger_id = nid, finger_addr = addr\<rparr>) [0..<M]"

definition load_from_disk :: "chord_node \<Rightarrow> chord_node" where
  "load_from_disk nd =
     (if \<not> persist nd then nd
      else case disk nd of
        Missing \<Rightarrow> nd
      | Unreadable \<Rightarrow> nd
      | Contents d \<Rightarrow> nd\<lparr>data_store := d\<rparr>)"

definition save_to_disk :: "chord_node \<Rightarrow> chord_node" where
  "save_to_disk nd =
     (if \<not> persist nd then nd
      else if writable nd then nd\<lparr>disk := Contents (data_store nd)\<rparr>
      else nd)"

definition init_node :: "string \<Rightarrow> int option \<Rightarrow> bool \<Rightarrow> bool \<Rightarrow> disk_file \<Rightarrow> chord_node" where
  "init_node addr nid per wr file =
     (let i = (case nid of Some n \<Rightarrow> n | None \<Rightarrow> sha1_id addr)
      in load_from_disk
           \<lparr>address = addr, node_id = i, predecessor = None, fingers = init_fingers i addr,
            data_store = [], jobs_completed = 0, jobs_failed = 0, pred_fail_count = 0,
            persist = per, writable = wr, disk = file\<rparr>)"

section \<open>Successor and finger table\<close>

definition finger_ref :: "finger_entry \<Rightarrow> nref" where
  "finger_ref f = \<lparr>ref_id = finger_id f, ref_addr = finger_addr f\<rparr>"

definition successor :: "chord_node \<Rightarrow> nref" where
  "successor nd = finger_ref (hd (fingers nd))"

definition set_finger :: "nat \<Rightarrow> nref \<Rightarrow> chord_node \<Rightarrow> chord_node" where
  "set_finger i r nd =
     nd\<lparr>fingers := (fingers nd)[i := ((fingers nd) ! i)\<lparr>finger_id := ref_id r, finger_addr := ref_addr r\<rparr>]\<rparr>"

definition set_successor :: "nref \<Rightarrow> chord_node \<Rightarrow> chord_node" where
  "set_successor r nd = set_finger 0 r nd"

text \<open>\<open>_closest_preceding_node\<close>: the first finger, from the last one down, that lies before the key.\<close>

definition closest_preceding_node :: "chord_node \<Rightarrow> int \<Rightarrow> nref" where
  "closest_preceding_node nd key_id =
     (case List.find (\<lambda>f. in_range (finger_id f) (node_id nd) key_id False) (rev (fingers nd)) of
        Some f \<Rightarrow> finger_ref f
      | None \<Rightarrow> self_ref nd)"

definition notify :: "nref \<Rightarrow> chord_node \<Rightarrow> chord_node" where
  "notify candidate nd =
     (case predecessor nd of
        None \<Rightarrow> nd\<lparr>predecessor := Some candidate\<rparr>
      | Some p \<Rightarrow>
          if in_range (ref_id candidate) (ref_id p) (node_id nd) False
          then nd\<lparr>predecessor := Some candidate\<rparr> else nd)"

section \<open>The local store\<close>

definition put :: "string \<Rightarrow> json \<Rightarrow> chord_node \<Rightarrow> bool \<times> chord_node" where
  "put key val nd = (True, save_to_disk (nd\<lparr>data_store := dset key val (data_store nd)\<rparr>))"

text \<open>\<open>data_store.get(key)\<close>: a stored \<open>None\<close> and a missing key are the same answer.\<close>

definition get :: "string \<Rightarrow> chord_node \<Rightarrow> json option" where
  "get key nd = (case map_of (data_store nd) key of
      None \<Rightarrow> None | Some v \<Rightarrow> if v = JNull then None else Some v)"

definition delete :: "string \<Rightarrow> chord_node \<Rightarrow> bool \<times> chord_node" where
  "delete key nd =
     (let removed = (get key nd \<noteq> None);
          nd' = nd\<lparr>data_store := ddel key (data_store nd)\<rparr>
      in if removed then (True, save_to_disk nd') else (False, nd'))"

definition bulk_put :: "jdict \<Rightarrow> chord_node \<Rightarrow> chord_node" where
  "bulk_put items nd = save_to_disk (nd\<lparr>data_store := dupdate (data_store nd) items\<rparr>)"

section \<open>Metrics and introspection\<close>

record node_metrics =
  m_node_id :: int
  m_address :: string
  m_queue_depth :: int
  m_jobs_completed :: int
  m_jobs_failed :: int

fun is_active_job :: "json \<Rightarrow> bool" where
  "is_active_job (JObj d) \<longleftrightarrow>
     dget d ''status'' \<in> {JStr ''pending'', JStr ''claimed'', JStr ''running''}"
| "is_active_job _ \<longleftrightarrow> False"

definition metrics :: "chord_node \<Rightarrow> node_metrics" where
  "metrics nd =
     \<lparr>m_node_id = node_id nd, m_address = address nd,
      m_queue_depth = int (length (filter is_active_job (List.map snd (data_store nd)))),
      m_jobs_completed = jobs_completed nd, m_jobs_failed = jobs_failed nd\<rparr>"

record node_state =
  st_node_id :: int
  st_address :: string
  st_successor :: nref
  st_predecessor :: "nref option"
  st_fingers :: "finger_entry list"
  st_data_keys :: "string list"

definition state :: "chord_node \<Rightarrow> node_state" where
  "state nd =
     \<lparr>st_node_id = node_id nd, st_address = address nd, st_successor = successor nd,
      st_predecessor = predecessor nd, st_fingers = fingers nd,
      st_data_keys = dkeys (data_store nd)\<rparr>"

section \<open>Lemmas\<close>

lemma save_to_disk_sel [simp]:
  "address (save_to_disk nd) = address nd" "node_id (save_to_disk nd) = node_id nd"
  "predecessor (save_to_disk nd) = predecessor nd" "fingers (save_to_disk nd) = fingers nd"
  "data_store (save_to_disk nd) = data_store nd" "persist (save_to_disk nd) = persist nd"
  "writable (save_to_disk nd) = writable nd" "jobs_failed (save_to_disk nd) = jobs_failed nd"
  "jobs_completed (save_to_disk nd) = jobs_completed nd"
  "pred_fail_count (save_to_disk nd) = pred_fail_count nd"
  by (simp_all add: save_to_disk_def)

lemma length_init_fingers [simp]: "length (init_fingers i a) = M"
  by (simp add: init_fingers_def)

lemma nth_init_fingers:
  "i < M \<Longrightarrow> init_fingers n a ! i = \<lparr>start = (n + 2 ^ i) mod (2 ^ M), finger_id = n, finger_addr = a\<rparr>"
  by (simp add: init_fingers_def)

lemma set_finger_sel [simp]:
  "address (set_finger i r nd) = address nd" "node_id (set_finger i r nd) = node_id nd"
  "predecessor (set_finger i r nd) = predecessor nd"
  "data_store (set_finger i r nd) = data_store nd"
  "length (fingers (set_finger i r nd)) = length (fingers nd)"
  "persist (set_finger i r nd) = persist nd" "writable (set_finger i r nd) = writable nd"
  "disk (set_finger i r nd) = disk nd" "pred_fail_count (set_finger i r nd) = pred_fail_count nd"
  by (simp_all add: set_finger_def)

lemma set_successor_sel [simp]:
  "address (set_successor r nd) = address nd" "node_id (set_successor r nd) = node_id nd"
  "predecessor (set_successor r nd) = predecessor nd"
  "data_store (set_successor r nd) = data_store nd"
  "length (fingers (set_successor r nd)) = length (fingers nd)"
  "pred_fail_count (set_successor r nd) = pred_fail_count nd"
  by (simp_all add: set_successor_def)

lemma successor_set_successor [simp]:
  "fingers nd \<noteq> [] \<Longrightarrow> successor (set_successor r nd) = r"
  by (cases "fingers nd")
    (simp_all add: successor_def set_successor_def set_finger_def finger_ref_def)

lemma successor_nth: "fingers nd \<noteq> [] \<Longrightarrow> successor nd = finger_ref (fingers nd ! 0)"
  by (simp add: successor_def hd_conv_nth)

lemma finger_ref_sel [simp]:
  "ref_id (finger_ref f) = finger_id f" "ref_addr (finger_ref f) = finger_addr f"
  by (simp_all add: finger_ref_def)

lemma self_ref_sel [simp]:
  "ref_id (self_ref nd) = node_id nd" "ref_addr (self_ref nd) = address nd"
  by (simp_all add: self_ref_def)

lemma notify_sel [simp]:
  "address (notify c nd) = address nd" "node_id (notify c nd) = node_id nd"
  "fingers (notify c nd) = fingers nd" "data_store (notify c nd) = data_store nd"
  "successor (notify c nd) = successor nd"
  by (simp_all add: notify_def successor_def split: option.split)

lemma closest_preceding_cases:
  obtains
    (finger) f where "f \<in> set (fingers nd)"
      "in_range (finger_id f) (node_id nd) key False"
      "closest_preceding_node nd key = finger_ref f"
  | (none) "\<forall>f \<in> set (fingers nd). \<not> in_range (finger_id f) (node_id nd) key False"
      "closest_preceding_node nd key = self_ref nd"
proof (cases "List.find (\<lambda>f. in_range (finger_id f) (node_id nd) key False) (rev (fingers nd))")
  case None
  then have "closest_preceding_node nd key = self_ref nd"
    by (simp add: closest_preceding_node_def)
  moreover have "\<forall>f \<in> set (fingers nd). \<not> in_range (finger_id f) (node_id nd) key False"
    using None by (auto simp: find_None_iff)
  ultimately show thesis by (intro none)
next
  case (Some f)
  then have "f \<in> set (fingers nd)" "in_range (finger_id f) (node_id nd) key False"
    by (metis (mono_tags, lifting) find_Some_iff nth_mem set_rev, auto simp: find_Some_iff)
  with Some show thesis
    by (intro finger [of f]) (simp_all add: closest_preceding_node_def)
qed

text \<open>The chosen finger is the last one that qualifies.\<close>

lemma closest_preceding_last:
  assumes "i < length (fingers nd)"
    and "in_range (finger_id (fingers nd ! i)) (node_id nd) key False"
  obtains j where "i \<le> j" "j < length (fingers nd)"
    "in_range (finger_id (fingers nd ! j)) (node_id nd) key False"
    "closest_preceding_node nd key = finger_ref (fingers nd ! j)"
proof -
  let ?P = "\<lambda>f. in_range (finger_id f) (node_id nd) key False"
  let ?n = "length (fingers nd)"
  have "fingers nd ! i \<in> set (rev (fingers nd))" using assms(1) by simp
  with assms(2) obtain f where f: "List.find ?P (rev (fingers nd)) = Some f"
    by (metis find_None_iff not_None_eq)
  then obtain m where m: "m < ?n" "?P (rev (fingers nd) ! m)" "f = rev (fingers nd) ! m"
      "\<forall>l < m. \<not> ?P (rev (fingers nd) ! l)"
    by (auto simp: find_Some_iff)
  let ?j = "?n - Suc m"
  have f_j: "f = fingers nd ! ?j" using m by (simp add: rev_nth)
  have "i \<le> ?j"
  proof (rule ccontr)
    assume "\<not> i \<le> ?j"
    then have "?n - Suc i < m" using assms(1) m(1) by arith
    moreover have "rev (fingers nd) ! (?n - Suc i) = fingers nd ! i"
      using assms(1) by (simp add: rev_nth)
    ultimately show False using m(4) assms(2) by auto
  qed
  moreover have "?j < ?n" using m(1) by arith
  moreover have "closest_preceding_node nd key = finger_ref (fingers nd ! ?j)"
    using f f_j by (simp add: closest_preceding_node_def)
  moreover have "?P (fingers nd ! ?j)" using m f_j by simp
  ultimately show thesis by (intro that) auto
qed

end
