(* ===== verification/Network.thy ===== *)
theory Network
  imports Node
begin

text \<open>
  The processes of the ring and the HTTP calls between them: \<open>chord/transport.py\<close> and the
  handlers of \<open>chord/server.py\<close> that serve one node's state.

  A \<open>net\<close> holds the running processes by address, the clock, and the fate of every HTTP
  attempt: attempt number \<open>n\<close>, sent to address \<open>a\<close>, is delivered, lost before the handler
  runs, or answered with the reply lost (so the handler has run although the caller sees a
  failure). The schedule is arbitrary; a theorem that needs a network without faults says so.
  A call runs its handler to the end before the caller goes on: the model interleaves
  operations of different processes, not the instructions inside one.
  Path parameters and JSON bodies arrive as they were sent. For a path parameter this is so when
  a URL carries it as it is; the code does not quote keys, and one with \<open>?\<close>, \<open>#\<close> or \<open>/\<close> in it
  would not arrive. A reply keeps the order of the keys of a dictionary, which Flask sorts: what is
  read is the value up to that order, and no operation of the storage layers looks at it; where a
  text is made of a dictionary the theorems compare values with \<open>same_json\<close>.
\<close>

section \<open>State\<close>

datatype delivery = Delivered | RequestLost | ReplyLost

record net =
  nodes :: "string \<Rightarrow> chord_node option"
  fault :: "nat \<Rightarrow> string \<Rightarrow> delivery"
  sent :: nat
  clock :: int

definition set_node :: "string \<Rightarrow> chord_node \<Rightarrow> 'z net_scheme \<Rightarrow> 'z net_scheme" where
  "set_node a nd s = s\<lparr>nodes := (nodes s)(a \<mapsto> nd)\<rparr>"

text \<open>Code of the process at \<open>a\<close> that reads or changes its own node.\<close>

definition on_node :: "string \<Rightarrow> (chord_node \<Rightarrow> 'b \<times> chord_node) \<Rightarrow> ('z net_scheme, 'b) act" where
  "on_node a f = (\<lambda>s. case nodes s a of
      None \<Rightarrow> (Inl (RuntimeError ''no process at this address''), s)
    | Some nd \<Rightarrow> (Inr (fst (f nd)), set_node a (snd (f nd)) s))"

definition read_node :: "string \<Rightarrow> (chord_node \<Rightarrow> 'b) \<Rightarrow> ('z net_scheme, 'b) act" where
  "read_node a f = on_node a (\<lambda>nd. (f nd, nd))"

definition change_node :: "string \<Rightarrow> (chord_node \<Rightarrow> chord_node) \<Rightarrow> ('z net_scheme, unit) act" where
  "change_node a f = on_node a (\<lambda>nd. ((), f nd))"

text \<open>\<open>time.sleep\<close>, in microseconds.\<close>

definition sleep :: "int \<Rightarrow> ('z net_scheme, unit) act" where
  "sleep us = modify (\<lambda>s. s\<lparr>clock := clock s + us\<rparr>)"

section \<open>HTTP\<close>

text \<open>A reply with a success status and its body, or an error status.\<close>

datatype 'b reply = Ok 'b | Status int

text \<open>An unhandled exception of a handler becomes the status 500.\<close>

definition serve :: "('s, 'b reply) act \<Rightarrow> ('s, 'b reply) act" where
  "serve h = catch h (\<lambda>e. ret (Status 500))"

text \<open>\<open>requests.request(method, url)\<close>: one attempt.\<close>

definition http_attempt ::
  "string \<Rightarrow> ('z net_scheme, 'b reply) act \<Rightarrow> ('z net_scheme, 'b reply) act" where
  "http_attempt a h = (\<lambda>s.
     let s1 = s\<lparr>sent := Suc (sent s)\<rparr> in
     if nodes s a = None then (Inl (RequestException ''connection refused''), s1)
     else case fault s (sent s) a of
       Delivered \<Rightarrow> serve h s1
     | RequestLost \<Rightarrow> (Inl (RequestException ''timed out''), s1)
     | ReplyLost \<Rightarrow> andthen (serve h) (\<lambda>_. throw (RequestException ''timed out'')) s1)"

definition RPC_RETRIES :: nat where
  "RPC_RETRIES = 3"

definition RPC_RETRY_DELAY :: int where
  "RPC_RETRY_DELAY = 100000"

fun is_request_exception :: "exn \<Rightarrow> bool" where
  "is_request_exception (RequestException _) = True"
| "is_request_exception _ = False"

text \<open>\<open>_request\<close>: up to \<open>RPC_RETRIES + 1\<close> attempts with a delay that doubles.\<close>

definition request ::
  "string \<Rightarrow> ('z net_scheme, 'b reply) act \<Rightarrow> ('z net_scheme, 'b reply) act" where
  "request a h =
     retrying is_request_exception (\<lambda>attempt _. sleep (RPC_RETRY_DELAY * 2 ^ attempt))
       (\<lambda>_. http_attempt a h) RPC_RETRIES 0 ()"

definition raise_for_status :: "'b reply \<Rightarrow> exn + 'b" where
  "raise_for_status r = (case r of Ok b \<Rightarrow> Inr b | Status c \<Rightarrow> Inl (HTTPError c))"

text \<open>The common shape of the methods of \<open>HttpTransport\<close>: request, status check, body.\<close>

definition rpc :: "string \<Rightarrow> ('z net_scheme, 'b reply) act \<Rightarrow> ('z net_scheme, 'b) act" where
  "rpc a h = andthen (request a h) (\<lambda>r. lift (raise_for_status r))"

text \<open>The same with the status 404 read as \<open>None\<close>.\<close>

definition rpc_opt :: "string \<Rightarrow> ('z net_scheme, 'b reply) act \<Rightarrow> ('z net_scheme, 'b option) act" where
  "rpc_opt a h = andthen (request a h) (\<lambda>r.
     if r = Status 404 then ret None else lift (chain (raise_for_status r) (\<lambda>b. Inr (Some b))))"

section \<open>Handlers of one node and the calls that reach them\<close>

definition h_get_predecessor :: "string \<Rightarrow> ('z net_scheme, nref option reply) act" where
  "h_get_predecessor a = read_node a (\<lambda>nd. Ok (predecessor nd))"

definition h_notify :: "string \<Rightarrow> nref \<Rightarrow> ('z net_scheme, unit reply) act" where
  "h_notify a candidate = on_node a (\<lambda>nd. (Ok (), notify candidate nd))"

definition h_update_predecessor :: "string \<Rightarrow> nref \<Rightarrow> ('z net_scheme, unit reply) act" where
  "h_update_predecessor a new_pred = on_node a (\<lambda>nd. (Ok (), nd\<lparr>predecessor := Some new_pred\<rparr>))"

definition h_update_successor :: "string \<Rightarrow> nref \<Rightarrow> ('z net_scheme, unit reply) act" where
  "h_update_successor a new_succ = on_node a (\<lambda>nd. (Ok (), set_successor new_succ nd))"

definition h_bulk_put :: "string \<Rightarrow> jdict \<Rightarrow> ('z net_scheme, unit reply) act" where
  "h_bulk_put a items = on_node a (\<lambda>nd. (Ok (), bulk_put items nd))"

definition h_ping :: "string \<Rightarrow> ('z net_scheme, unit reply) act" where
  "h_ping a = read_node a (\<lambda>nd. Ok ())"

definition h_state :: "string \<Rightarrow> ('z net_scheme, node_state reply) act" where
  "h_state a = read_node a (\<lambda>nd. Ok (state nd))"

definition h_metrics :: "string \<Rightarrow> ('z net_scheme, node_metrics reply) act" where
  "h_metrics a = read_node a (\<lambda>nd. Ok (metrics nd))"

definition h_data_put :: "string \<Rightarrow> string \<Rightarrow> json \<Rightarrow> ('z net_scheme, unit reply) act" where
  "h_data_put a key val = on_node a (\<lambda>nd. (Ok (), snd (put key val nd)))"

definition h_data_get :: "string \<Rightarrow> string \<Rightarrow> ('z net_scheme, json reply) act" where
  "h_data_get a key = read_node a (\<lambda>nd. case get key nd of None \<Rightarrow> Status 404 | Some v \<Rightarrow> Ok v)"

definition h_data_delete :: "string \<Rightarrow> string \<Rightarrow> ('z net_scheme, bool reply) act" where
  "h_data_delete a key = on_node a (\<lambda>nd. (Ok (fst (delete key nd)), snd (delete key nd)))"

definition t_get_predecessor :: "string \<Rightarrow> ('z net_scheme, nref option) act" where
  "t_get_predecessor a = rpc a (h_get_predecessor a)"

definition t_notify :: "string \<Rightarrow> nref \<Rightarrow> ('z net_scheme, unit) act" where
  "t_notify a candidate = rpc a (h_notify a candidate)"

definition t_ping :: "string \<Rightarrow> ('z net_scheme, unit) act" where
  "t_ping a = rpc a (h_ping a)"

definition t_update_predecessor :: "string \<Rightarrow> nref \<Rightarrow> ('z net_scheme, unit) act" where
  "t_update_predecessor a r = rpc a (h_update_predecessor a r)"

definition t_update_successor :: "string \<Rightarrow> nref \<Rightarrow> ('z net_scheme, unit) act" where
  "t_update_successor a r = rpc a (h_update_successor a r)"

definition t_bulk_put :: "string \<Rightarrow> jdict \<Rightarrow> ('z net_scheme, unit) act" where
  "t_bulk_put a items = rpc a (h_bulk_put a items)"

definition t_get_state :: "string \<Rightarrow> ('z net_scheme, node_state) act" where
  "t_get_state a = rpc a (h_state a)"

definition t_get_metrics :: "string \<Rightarrow> ('z net_scheme, node_metrics) act" where
  "t_get_metrics a = rpc a (h_metrics a)"

definition t_put :: "string \<Rightarrow> string \<Rightarrow> json \<Rightarrow> ('z net_scheme, unit) act" where
  "t_put a key val = rpc a (h_data_put a key val)"

definition t_get :: "string \<Rightarrow> string \<Rightarrow> ('z net_scheme, json option) act" where
  "t_get a key = rpc_opt a (h_data_get a key)"

definition t_delete :: "string \<Rightarrow> string \<Rightarrow> ('z net_scheme, bool) act" where
  "t_delete a key = rpc a (h_data_delete a key)"

end
