(* ===== verification/Lookup.thy ===== *)
theory Lookup
  imports Network
begin

text \<open>
  \<open>ChordNode.find_successor\<close> over the network: the recursion goes through HTTP, from one
  process to the next, so the definition takes fuel, the number of nested calls allowed. A
  run that needs more ends with \<open>OutOfFuel\<close>, which nothing catches. The theorems show how
  much is enough: in a stable ring the clockwise distance to the key, and \<open>M\<close> when the
  finger tables are right.
\<close>

section \<open>The lookup\<close>

text \<open>The body of \<open>find_successor\<close>, with the remote call as an argument.\<close>

definition find_successor_via ::
  "(string \<Rightarrow> ('z net_scheme, nref) act) \<Rightarrow> string \<Rightarrow> int \<Rightarrow> ('z net_scheme, nref) act" where
  "find_successor_via remote me key_id =
     andthen (read_node me (\<lambda>nd. nd)) (\<lambda>nd.
       if in_range key_id (node_id nd) (ref_id (successor nd)) True then ret (successor nd)
       else
         let n' = closest_preceding_node nd key_id in
         if ref_id n' = node_id nd then ret (successor nd)
         else catch (remote (ref_addr n')) (\<lambda>_. read_node me successor))"

text \<open>The handler \<open>/chord/find_successor\<close>, with the local lookup as an argument.\<close>

definition h_find_successor ::
  "(string \<Rightarrow> int \<Rightarrow> ('z net_scheme, nref) act) \<Rightarrow> string \<Rightarrow> int \<Rightarrow> ('z net_scheme, nref reply) act" where
  "h_find_successor lookup a key_id = andthen (lookup a key_id) (\<lambda>r. ret (Ok r))"

primrec find_successor :: "nat \<Rightarrow> string \<Rightarrow> int \<Rightarrow> ('z net_scheme, nref) act" where
  "find_successor 0 me key_id = find_successor_via (\<lambda>a. throw OutOfFuel) me key_id"
| "find_successor (Suc fuel) me key_id =
     find_successor_via (\<lambda>a. rpc a (h_find_successor (find_successor fuel) a key_id)) me key_id"

definition t_find_successor :: "nat \<Rightarrow> string \<Rightarrow> int \<Rightarrow> ('z net_scheme, nref) act" where
  "t_find_successor fuel a key_id = rpc a (h_find_successor (find_successor fuel) a key_id)"

section \<open>Networks that lose requests\<close>

text \<open>
  The same network after \<open>m\<close> more attempts and \<open>c\<close> more microseconds.
\<close>

definition later :: "nat \<Rightarrow> int \<Rightarrow> 'z net_scheme \<Rightarrow> 'z net_scheme" where
  "later m c s = s\<lparr>sent := sent s + m, clock := clock s + c\<rparr>"

text \<open>
  No reply is lost, and of four attempts in a row to one address at least one arrives.
\<close>

definition lossy :: "'z net_scheme \<Rightarrow> bool" where
  "lossy s \<longleftrightarrow> (\<forall>n a. fault s n a \<noteq> ReplyLost) \<and>
     (\<forall>n a. \<exists>i \<le> RPC_RETRIES. fault s (n + i) a = Delivered)"

lemma later_sel [simp]:
  "nodes (later m c s) = nodes s" "fault (later m c s) = fault s"
  "sent (later m c s) = sent s + m" "clock (later m c s) = clock s + c"
  by (simp_all add: later_def)

lemma later_later [simp]: "later m c (later m' c' s) = later (m' + m) (c' + c) s"
  by (simp add: later_def add.assoc)

lemma later_0 [simp]: "later 0 0 s = s"
  by (simp add: later_def)

lemma lossy_later [simp]: "lossy (later m c s) = lossy s"
  by (simp add: lossy_def)

lemma lossy_set_node [simp]: "lossy (set_node a nd s) = lossy s"
  by (simp add: lossy_def set_node_def)

lemma run_read_node [act_simps]:
  "nodes s a = Some nd \<Longrightarrow> read_node a f s = (Inr (f nd), s)"
  by (simp add: read_node_def on_node_def set_node_def fun_upd_idem)

lemma run_on_node [act_simps]:
  "nodes s a = Some nd \<Longrightarrow> on_node a f s = (Inr (fst (f nd)), set_node a (snd (f nd)) s)"
  by (simp add: on_node_def)

lemma run_change_node [act_simps]:
  "nodes s a = Some nd \<Longrightarrow> change_node a f s = (Inr (), set_node a (f nd) s)"
  by (simp add: change_node_def act_simps)

lemma serve_Inr: "h s = (Inr x, s') \<Longrightarrow> serve h s = (Inr x, s')"
  by (simp add: serve_def catch_Inr)

text \<open>A call whose attempts run into one that is delivered behaves as the handler does.\<close>

lemma request_from:
  fixes s :: "'z net_scheme"
  assumes alive: "nodes s a \<noteq> None"
    and lost: "\<forall>j < i. fault s (sent s + j) a = RequestLost"
    and deliv: "fault s (sent s + i) a = Delivered" and "i \<le> n"
  shows "\<exists>c. retrying is_request_exception (\<lambda>k _. sleep (RPC_RETRY_DELAY * 2 ^ k))
            (\<lambda>_. http_attempt a h) n k () s = serve h (later (Suc i) c s)"
  using assms
proof (induction n arbitrary: i k s)
  case 0
  then have "http_attempt a h s = serve h (later 1 0 s)"
    by (auto simp: http_attempt_def Let_def later_def)
  then show ?case using 0 by auto
next
  case (Suc n)
  show ?case
  proof (cases i)
    case 0
    with Suc.prems have run: "http_attempt a h s = serve h (later 1 0 s)"
      by (auto simp: http_attempt_def Let_def later_def)
    show ?thesis
    proof (cases "serve h (later 1 0 s)")
      case (Pair r s')
      have "\<not> is_request_exception e" if "r = Inl e" for e
        using Pair that by (auto simp: serve_def act_simps split: prod.splits sum.splits if_splits)
      with run Pair 0 show ?thesis by (cases r) (auto intro!: exI [of _ 0])
    qed
  next
    case (Suc i')
    let ?d = "RPC_RETRY_DELAY * 2 ^ k"
    have run: "http_attempt a h s = (Inl (RequestException ''timed out''), later 1 0 s)"
      using Suc.prems Suc by (auto simp: http_attempt_def Let_def later_def)
    have "\<exists>c. retrying is_request_exception (\<lambda>k _. sleep (RPC_RETRY_DELAY * 2 ^ k))
            (\<lambda>_. http_attempt a h) n (Suc k) () (later 1 ?d s) =
          serve h (later (Suc i') c (later 1 ?d s))"
      using Suc.prems Suc by (intro Suc.IH) auto
    then obtain c where
      "retrying is_request_exception (\<lambda>k _. sleep (RPC_RETRY_DELAY * 2 ^ k))
            (\<lambda>_. http_attempt a h) n (Suc k) () (later 1 ?d s) =
          serve h (later (Suc i) (?d + c) s)"
      using Suc by auto
    moreover have "later 1 ?d s = (later 1 0 s)\<lparr>clock := clock s + ?d\<rparr>"
      by (simp add: later_def)
    ultimately have "retrying is_request_exception (\<lambda>k _. sleep (RPC_RETRY_DELAY * 2 ^ k))
            (\<lambda>_. http_attempt a h) (Suc n) k () s = serve h (later (Suc i) (?d + c) s)"
      using run by (simp add: act_simps sleep_def later_def)
    then show ?thesis by blast
  qed
qed

lemma request_lossy:
  assumes "lossy s" and "nodes s a \<noteq> None"
  obtains m c where "1 \<le> m" "m \<le> 4" "request a h s = serve h (later m c s)"
proof -
  let ?P = "\<lambda>i. fault s (sent s + i) a = Delivered"
  from assms(1) obtain i where "i \<le> RPC_RETRIES" "?P i"
    unfolding lossy_def by blast
  then have le: "(LEAST i. ?P i) \<le> RPC_RETRIES" and P: "?P (LEAST i. ?P i)"
    using Least_le [of ?P i] LeastI [of ?P i] by auto
  have "fault s (sent s + j) a = RequestLost" if "j < (LEAST i. ?P i)" for j
    using not_less_Least [OF that] assms(1) by (auto simp: lossy_def intro: delivery.exhaust)
  from request_from [OF assms(2) _ P le, of h 0] this
  obtain c where "request a h s = serve h (later (Suc (LEAST i. ?P i)) c s)"
    by (auto simp: request_def)
  with le show thesis
    by (intro that [of "Suc (LEAST i. ?P i)" c]) (auto simp: RPC_RETRIES_def)
qed

lemma rpc_lossy:
  assumes "lossy s" and "nodes s a \<noteq> None"
  obtains m c where "1 \<le> m" "m \<le> 4"
    "rpc a h s = andthen (serve h) (\<lambda>r. lift (raise_for_status r)) (later m c s)"
proof -
  from assms obtain m c where "1 \<le> m" "m \<le> 4" "request a h s = serve h (later m c s)"
    by (rule request_lossy)
  then show thesis by (intro that [of m c]) (simp_all add: rpc_def act_simps)
qed

section \<open>Stable rings\<close>

text \<open>
  A ring is formed by the running processes at a set \<open>A\<close> of addresses; \<open>UNIV\<close> when every
  running process is a member.
\<close>

definition member :: "string set \<Rightarrow> 'z net_scheme \<Rightarrow> string \<Rightarrow> chord_node \<Rightarrow> bool" where
  "member A s a nd \<longleftrightarrow> a \<in> A \<and> nodes s a = Some nd"

lemma memberD: "member A s a nd \<Longrightarrow> nodes s a = Some nd" "member A s a nd \<Longrightarrow> a \<in> A"
  by (simp_all add: member_def)

lemma member_inj: "member A s a nd \<Longrightarrow> member A s a nd' \<Longrightarrow> nd = nd'"
  by (simp add: member_def)

lemma member_later [simp]: "member A (later m c s) = member A s"
  by (simp add: member_def fun_eq_iff)

text \<open>\<open>r\<close> names a member by its address and its identifier.\<close>

definition refers :: "string set \<Rightarrow> 'z net_scheme \<Rightarrow> nref \<Rightarrow> bool" where
  "refers A s r \<longleftrightarrow> (\<exists>nd. member A s (ref_addr r) nd \<and> node_id nd = ref_id r)"

definition ring_ids :: "string set \<Rightarrow> 'z net_scheme \<Rightarrow> int set" where
  "ring_ids A s = {node_id nd | a nd. member A s a nd}"

text \<open>
  A node is well placed when its own data and every finger name running processes, and its
  successor is the next process of the ring. \<open>stable\<close>: every node is, and no two processes
  share an identifier.
\<close>

definition well_placed :: "string set \<Rightarrow> 'z net_scheme \<Rightarrow> string \<Rightarrow> chord_node \<Rightarrow> bool" where
  "well_placed A s a nd \<longleftrightarrow> address nd = a \<and> length (fingers nd) = M \<and>
     (\<forall>f \<in> set (fingers nd). refers A s (finger_ref f)) \<and>
     next_of (ring_ids A s) (node_id nd) (ref_id (successor nd))"

definition stable :: "string set \<Rightarrow> 'z net_scheme \<Rightarrow> bool" where
  "stable A s \<longleftrightarrow> ids_set (ring_ids A s) \<and>
     (\<forall>a nd. member A s a nd \<longrightarrow> well_placed A s a nd) \<and>
     (\<forall>a b nd nd'. member A s a nd \<longrightarrow> member A s b nd' \<longrightarrow> node_id nd = node_id nd' \<longrightarrow> a = b)"

text \<open>\<open>r\<close> is the process responsible for the key \<open>k\<close>.\<close>

definition responsible :: "string set \<Rightarrow> 'z net_scheme \<Rightarrow> int \<Rightarrow> nref \<Rightarrow> bool" where
  "responsible A s k r \<longleftrightarrow> refers A s r \<and> owner_of (ring_ids A s) k (ref_id r)"

lemma refers_later [simp]: "refers A (later m c s) r = refers A s r"
  by (simp add: refers_def)

lemma ring_ids_later [simp]: "ring_ids A (later m c s) = ring_ids A s"
  by (simp add: ring_ids_def)

lemma well_placed_later [simp]: "well_placed A (later m c s) = well_placed A s"
  by (simp add: well_placed_def fun_eq_iff)

lemma stable_later [simp]: "stable A (later m c s) = stable A s"
  by (simp add: stable_def)

lemma responsible_later [simp]: "responsible A (later m c s) k r = responsible A s k r"
  by (simp add: responsible_def)

lemma ring_idsI: "member A s a nd \<Longrightarrow> node_id nd \<in> ring_ids A s"
  by (auto simp: ring_ids_def)

lemma refers_ring_ids: "refers A s r \<Longrightarrow> ref_id r \<in> ring_ids A s"
  by (force simp: refers_def ring_ids_def)

lemma stable_node:
  assumes "stable A s" and "member A s a nd"
  shows "is_id (node_id nd)" "address nd = a" "length (fingers nd) = M" "fingers nd \<noteq> []"
    "f \<in> set (fingers nd) \<Longrightarrow> refers A s (finger_ref f)"
    "refers A s (successor nd)"
    "next_of (ring_ids A s) (node_id nd) (ref_id (successor nd))"
proof -
  from assms have wp: "well_placed A s a nd" and "ids_set (ring_ids A s)"
    by (auto simp: stable_def)
  with assms(2) show "is_id (node_id nd)" by (auto simp: ids_set_def dest: ring_idsI)
  from wp show "address nd = a" and len: "length (fingers nd) = M"
    and "next_of (ring_ids A s) (node_id nd) (ref_id (successor nd))"
    and all: "f \<in> set (fingers nd) \<Longrightarrow> refers A s (finger_ref f)" for f
    by (auto simp: well_placed_def)
  from len show ne: "fingers nd \<noteq> []" by auto
  then show "refers A s (successor nd)" by (simp add: successor_def all)
qed

lemma stable_is_id: "stable A s \<Longrightarrow> refers A s r \<Longrightarrow> is_id (ref_id r)"
  by (meson ids_set_def refers_ring_ids stable_def)

text \<open>In a stable ring a reference is determined by its identifier.\<close>

lemma stable_refers_inj:
  "stable A s \<Longrightarrow> refers A s r \<Longrightarrow> refers A s r' \<Longrightarrow> ref_id r = ref_id r' \<Longrightarrow> r = r'"
  by (fastforce simp: stable_def refers_def intro: nref.equality)

lemma responsible_unique:
  "stable A s \<Longrightarrow> is_id k \<Longrightarrow> responsible A s k r \<Longrightarrow> responsible A s k r' \<Longrightarrow> r = r'"
  by (metis owner_of_unique responsible_def stable_def stable_refers_inj)

text \<open>
  One step of a lookup in a stable ring: the answer is at hand, or the lookup goes to a node
  that lies strictly between this one and the key, so nearer to the key.
\<close>

lemma closest_preceding_between:
  assumes st: "stable A s" and nd: "member A s me nd" and key: "is_id key" "key \<noteq> node_id nd"
    and far: "\<not> in_range key (node_id nd) (ref_id (successor nd)) True"
  obtains f where "f \<in> set (fingers nd)" "closest_preceding_node nd key = finger_ref f"
    "cw (node_id nd) (finger_id f) < cw (node_id nd) key"
    "refers A s (finger_ref f)" "finger_id f \<noteq> node_id nd" "finger_id f \<noteq> key"
proof -
  note n = stable_node [OF st nd]
  have succ: "is_id (ref_id (successor nd))" using n(6) by (rule stable_is_id [OF st])
  have lt: "cw (node_id nd) (ref_id (successor nd)) < cw (node_id nd) key"
    using far in_range_inclusive [of key "node_id nd" "ref_id (successor nd)"] key succ n by simp
  have "in_range (finger_id (hd (fingers nd))) (node_id nd) key False"
    using lt key succ n in_range_exclusive [of "ref_id (successor nd)" "node_id nd" key]
    by (simp add: successor_def)
  then obtain f where f: "f \<in> set (fingers nd)" "in_range (finger_id f) (node_id nd) key False"
      "closest_preceding_node nd key = finger_ref f"
    using n(4) by (cases rule: closest_preceding_cases [of nd key]) (auto simp: hd_in_set)
  have r: "refers A s (finger_ref f)" using f(1) n(5) by blast
  then have "is_id (finger_id f)" using stable_is_id [OF st] by fastforce
  with f(2) key n have less: "cw (node_id nd) (finger_id f) < cw (node_id nd) key"
    by (simp add: in_range_exclusive)
  moreover have "finger_id f \<noteq> node_id nd"
    using less cw_less [of "node_id nd" key] cw_self [OF n(1)] by (metis linorder_not_less zle_diff1_eq)
  ultimately show thesis using f r by (intro that) auto
qed

text \<open>A lookup that ends at this node.\<close>

lemma responsible_here:
  assumes "stable A s" and "member A s me nd" and "is_id key"
    and "in_range key (node_id nd) (ref_id (successor nd)) True"
  shows "responsible A s key (successor nd)"
proof -
  note n = stable_node [OF assms(1,2)]
  have "is_id (ref_id (successor nd))" using n(6) by (rule stable_is_id [OF assms(1)])
  with assms n have "cw (node_id nd) key \<le> cw (node_id nd) (ref_id (successor nd))"
    by (simp add: in_range_inclusive)
  moreover have "ids_set (ring_ids A s)" using assms(1) by (simp add: stable_def)
  ultimately show ?thesis
    using n assms(3) by (auto simp: responsible_def intro: next_of_owner)
qed

lemma find_successor_here:
  assumes "member A s me nd" and "in_range key (node_id nd) (ref_id (successor nd)) True"
  shows "find_successor fuel me key s = (Inr (successor nd), s)"
  using assms memberD(1) [OF assms(1)]
  by (cases fuel) (simp_all add: find_successor_via_def act_simps)

text \<open>A lookup that goes to another node.\<close>

lemma find_successor_forward:
  fixes s :: "'z net_scheme"
  assumes "lossy s" and "member A s me nd"
    and "\<not> in_range key (node_id nd) (ref_id (successor nd)) True"
    and "closest_preceding_node nd key = r" "ref_id r \<noteq> node_id nd" "nodes s (ref_addr r) \<noteq> None"
    and next_hop: "\<And>m c. \<exists>m' c'. m' \<le> k \<and>
        find_successor fuel (ref_addr r) key (later m c s) = (Inr x, later m' c' (later m c s))"
  shows "\<exists>m c. m \<le> 4 + k \<and> find_successor (Suc fuel) me key s = (Inr x, later m c s)"
proof -
  let ?h = "h_find_successor (find_successor fuel) (ref_addr r) key :: ('z net_scheme, nref reply) act"
  obtain m c where m: "m \<le> 4" and
    run: "rpc (ref_addr r) ?h s = andthen (serve ?h) (\<lambda>r. lift (raise_for_status r)) (later m c s)"
    by (rule rpc_lossy [OF assms(1,6)])
  obtain m' c' where m': "m' \<le> k" and
    hop: "find_successor fuel (ref_addr r) key (later m c s) = (Inr x, later m' c' (later m c s))"
    using next_hop by blast
  from hop have "serve ?h (later m c s) = (Inr (Ok x), later m' c' (later m c s))"
    by (intro serve_Inr) (simp add: h_find_successor_def act_simps)
  then have "rpc (ref_addr r) ?h s = (Inr x, later (m + m') (c + c') s)"
    by (simp add: run act_simps raise_for_status_def)
  then have "find_successor (Suc fuel) me key s = (Inr x, later (m + m') (c + c') s)"
    using assms memberD(1) [OF assms(2)] by (simp add: find_successor_via_def act_simps)
  with m m' show ?thesis by (intro exI [of _ "m + m'"] exI [of _ "c + c'"]) auto
qed

section \<open>Correctness\<close>

text \<open>
  Whatever the finger tables hold, as long as they name running nodes: the clockwise distance
  to the key is fuel enough, and the answer is the node responsible for the key.
\<close>

lemma find_successor_by_distance:
  fixes s :: "'z net_scheme"
  assumes "stable A s" and "lossy s" and "member A s me nd"
    and "is_id key" and "key \<noteq> node_id nd" and "cw (node_id nd) key \<le> int fuel"
  shows "\<exists>r m c. m \<le> 4 * fuel \<and> find_successor fuel me key s = (Inr r, later m c s) \<and>
           responsible A s key r"
  using assms
proof (induction fuel arbitrary: me nd s)
  case (0 me nd s)
  then have "in_range key (node_id nd) (ref_id (successor nd)) True"
    using stable_node [OF 0(1,3)] stable_is_id [OF 0(1)] cw_nonneg [of "node_id nd"]
    by (simp add: in_range_inclusive order_trans)
  with 0 show ?case
    by (intro exI [of _ "successor nd"] exI [of _ 0])
      (simp del: find_successor.simps add: find_successor_here responsible_here)
next
  case (Suc fuel me nd s)
  show ?case
  proof (cases "in_range key (node_id nd) (ref_id (successor nd)) True")
    case True
    with Suc.prems show ?thesis
      by (intro exI [of _ "successor nd"] exI [of _ 0]) (simp del: find_successor.simps add: find_successor_here responsible_here)
  next
    case False
    obtain f where f: "closest_preceding_node nd key = finger_ref f"
        "cw (node_id nd) (finger_id f) < cw (node_id nd) key"
        "refers A s (finger_ref f)" "finger_id f \<noteq> node_id nd" "finger_id f \<noteq> key"
      by (rule closest_preceding_between [OF Suc.prems(1,3,4,5) False])
    then obtain nd' where nd': "member A s (finger_addr f) nd'" "node_id nd' = finger_id f"
      by (auto simp: refers_def)
    have "cw (node_id nd') key \<le> int fuel"
      using f nd' Suc.prems stable_node(1) [OF Suc.prems(1)]
      by (simp add: cw_shift [of "node_id nd" "finger_id f" key])
        (smt (verit) cw_shift cw_nonneg of_nat_Suc)
    have hop: "\<exists>r m' c'. m' \<le> 4 * fuel \<and>
        find_successor fuel (finger_addr f) key (later m c s) = (Inr r, later m' c' (later m c s)) \<and>
        responsible A s key r" for m c
      using Suc.IH [of "later m c s" "finger_addr f" nd'] Suc.prems nd' f
        \<open>cw (node_id nd') key \<le> int fuel\<close> by simp
    then obtain r where r: "responsible A s key r" by blast
    have "\<exists>m' c'. m' \<le> 4 * fuel \<and>
        find_successor fuel (ref_addr (finger_ref f)) key (later m c s) = (Inr r, later m' c' (later m c s))"
      for m c
      using hop [of m c] responsible_unique [OF Suc.prems(1,4) r] by auto
    from find_successor_forward [OF Suc.prems(2,3) False f(1) _ _ this] f nd' memberD(1) [OF nd'(1)]
    show ?thesis using r by force
  qed
qed

section \<open>The logarithmic bound\<close>

text \<open>Every finger names the node responsible for its start point.\<close>

definition fingers_exact :: "string set \<Rightarrow> 'z net_scheme \<Rightarrow> bool" where
  "fingers_exact A s \<longleftrightarrow> (\<forall>a nd. member A s a nd \<longrightarrow>
     (\<forall>i < M. owner_of (ring_ids A s) ((node_id nd + 2 ^ i) mod ring_size) (finger_id (fingers nd ! i))))"

lemma fingers_exact_later [simp]: "fingers_exact A (later m c s) = fingers_exact A s"
  by (simp add: fingers_exact_def)

lemma power_less_ring: "i < M \<Longrightarrow> (2::int) ^ i < ring_size"
  by (simp add: ring_size_def)

lemma dist_start:
  assumes "is_id n" and "is_id x" and "i < M"
  shows "dist ((n + 2 ^ i) mod ring_size) x =
    (if 2 ^ i \<le> dist n x then dist n x - 2 ^ i else dist n x - 2 ^ i + ring_size)"
proof -
  have "dist ((n + 2 ^ i) mod ring_size) x = (dist n x - 2 ^ i) mod ring_size"
    by (simp add: dist_def mod_diff_right_eq mod_diff_left_eq diff_diff_eq)
  moreover have "- ring_size \<le> dist n x - 2 ^ i" "dist n x - 2 ^ i < ring_size"
    using power_less_ring [OF assms(3)] dist_nonneg [of n x] dist_less [of n x]
      zero_less_power [of "2::int" i] by (smt (verit))+
  ultimately show ?thesis by (simp add: mod_ring_small)
qed

text \<open>
  The owner \<open>j\<close> of \<open>n + 2^i\<close> is \<open>n\<close> itself or lies at least \<open>2^i\<close> steps after \<open>n\<close>, and no
  member lies between.
\<close>

lemma owner_start:
  assumes "ids_set S" and "n \<in> S" and "i < M" and own: "owner_of S ((n + 2 ^ i) mod ring_size) j"
  shows "j = n \<or> 2 ^ i \<le> dist n j"
    and "x \<in> S \<Longrightarrow> 2 ^ i \<le> dist n x \<Longrightarrow> 2 ^ i \<le> dist n j \<and> dist n j \<le> dist n x"
proof -
  let ?t = "(n + 2 ^ i) mod ring_size"
  have ids: "is_id x" if "x \<in> S" for x using that assms(1) by (simp add: ids_set_def)
  have j: "j \<in> S" and least: "\<And>x. x \<in> S \<Longrightarrow> dist ?t j \<le> dist ?t x"
    using own by (auto dest: owner_ofD)
  note d = dist_start [OF ids [OF assms(2)] _ assms(3)]
  have "dist ?t n = ring_size - 2 ^ i" using d [OF ids [OF assms(2)]] by simp
  with least [OF assms(2)] d [OF ids [OF j]] show "j = n \<or> 2 ^ i \<le> dist n j"
    using dist_0_iff [OF ids [OF assms(2)] ids [OF j]] dist_nonneg [of n j]
    by (smt (verit))
  show "2 ^ i \<le> dist n j \<and> dist n j \<le> dist n x" if x: "x \<in> S" "2 ^ i \<le> dist n x"
    using least [OF x(1)] d [OF ids [OF j]] d [OF ids [OF x(1)]] x(2)
      dist_nonneg [of n j] dist_less [of n x] by (smt (verit))
qed

text \<open>Seen from a node \<open>f\<close> between \<open>n\<close> and the key, what lies before the key lies between too.\<close>

lemma hop_between:
  assumes "is_id n" and "is_id f" and "is_id key" and "is_id x"
    and "cw n f < cw n key" and "cw f x < cw f key" and "f \<noteq> n"
  shows "cw n x < cw n key" and "dist f x = dist n x - dist n f"
proof -
  have key: "cw f key = cw n key - cw n f - 1" using assms by (intro cw_shift)
  have x: "cw n f < cw n x"
  proof (rule ccontr)
    assume "\<not> ?thesis"
    then have "cw f x = ring_size - 1 - (cw n f - cw n x)" using assms by (intro cw_shift_le) auto
    then show False using assms(6) key cw_less [of n key] cw_nonneg [of n x] by linarith
  qed
  then have sh: "cw f x = cw n x - cw n f - 1" using assms by (intro cw_shift)
  with key assms(6) show lt: "cw n x < cw n key" by linarith
  have "x \<noteq> n" using lt cw_self [OF assms(1)] cw_less [of n key] by (smt (verit))
  moreover have "x \<noteq> f" using x by auto
  ultimately show "dist f x = dist n x - dist n f"
    using sh assms by (simp add: cw_dist)
qed

text \<open>
  If every node strictly between this one and the key is less than \<open>2^i\<close> steps away, \<open>i\<close>
  hops are enough.
\<close>

lemma find_successor_hops:
  fixes s :: "'z net_scheme"
  assumes "stable A s" and "lossy s" and "fingers_exact A s" and "member A s me nd"
    and "is_id key" and "key \<noteq> node_id nd" and "i \<le> M" and "i \<le> fuel"
    and "\<forall>x \<in> ring_ids A s. cw (node_id nd) x < cw (node_id nd) key \<longrightarrow> dist (node_id nd) x < 2 ^ i"
  shows "\<exists>r m c. m \<le> 4 * i \<and> find_successor fuel me key s = (Inr r, later m c s) \<and>
           responsible A s key r"
  using assms
proof (induction i arbitrary: fuel me nd s)
  case (0 fuel me nd s)
  note n = stable_node [OF 0(1,4)]
  have succ: "is_id (ref_id (successor nd))" using n(6) by (rule stable_is_id [OF 0(1)])
  have "cw (node_id nd) key \<le> cw (node_id nd) (ref_id (successor nd))"
  proof (rule ccontr)
    assume *: "\<not> ?thesis"
    then have "dist (node_id nd) (ref_id (successor nd)) < 1"
      using 0 refers_ring_ids [OF n(6)] by simp
    then have "ref_id (successor nd) = node_id nd"
      using dist_nonneg [of "node_id nd"] dist_0_iff [OF n(1) succ] by (smt (verit))
    with * cw_self [OF n(1)] show False using cw_less [of "node_id nd" key] by (smt (verit))
  qed
  then have "in_range key (node_id nd) (ref_id (successor nd)) True"
    using 0 n succ by (simp add: in_range_inclusive)
  with 0 show ?case
    by (intro exI [of _ "successor nd"] exI [of _ 0]) (simp del: find_successor.simps add: find_successor_here responsible_here)
next
  case (Suc i fuel me nd s)
  let ?n = "node_id nd" and ?S = "ring_ids A s"
  note n = stable_node [OF Suc.prems(1,4)]
  have ids: "ids_set ?S" using Suc.prems(1) by (simp add: stable_def)
  have nS: "?n \<in> ?S" using Suc.prems(4) by (rule ring_idsI)
  show ?case
  proof (cases "in_range key ?n (ref_id (successor nd)) True")
    case True
    with Suc.prems show ?thesis
      by (intro exI [of _ "successor nd"] exI [of _ 0]) (simp del: find_successor.simps add: find_successor_here responsible_here)
  next
    case False
    have iM: "i < M" and exact: "\<And>j. j < M \<Longrightarrow> owner_of ?S ((?n + 2 ^ j) mod ring_size) (finger_id (fingers nd ! j))"
      using Suc.prems by (auto simp: fingers_exact_def)
    let ?fi = "finger_id (fingers nd ! i)"
    show ?thesis
    proof (cases "cw ?n ?fi < cw ?n key")
      case near: False
      have "dist ?n x < 2 ^ i" if x: "x \<in> ?S" "cw ?n x < cw ?n key" for x
      proof (rule ccontr)
        assume "\<not> ?thesis"
        then have *: "2 ^ i \<le> dist ?n ?fi" "dist ?n ?fi \<le> dist ?n x"
          using owner_start(2) [OF ids nS iM exact [OF iM] x(1)] by auto
        then have "0 < dist ?n ?fi" "0 < dist ?n x"
          using zero_less_power [of "2::int" i] by linarith+
        then have "?fi \<noteq> ?n" "x \<noteq> ?n" by auto
        then have "cw ?n ?fi \<le> cw ?n x"
          using * ids x(1) n(1) owner_ofD(1) [OF exact [OF iM]] by (simp add: cw_dist ids_set_def)
        with near x(2) show False by simp
      qed
      then obtain r m c where "m \<le> 4 * i" "find_successor fuel me key s = (Inr r, later m c s)"
          "responsible A s key r"
        using Suc.IH [OF Suc.prems(1-6), of fuel] Suc.prems by auto
      then show ?thesis by (intro exI [of _ r] exI [of _ m] exI [of _ c]) simp
    next
      case True
      have "in_range ?fi ?n key False"
        using True Suc.prems n(1) owner_ofD(1) [OF exact [OF iM]] ids
        by (simp add: in_range_exclusive ids_set_def)
      then obtain j where j: "i \<le> j" "j < M" "in_range (finger_id (fingers nd ! j)) ?n key False"
          "closest_preceding_node nd key = finger_ref (fingers nd ! j)"
        using closest_preceding_last [of i nd key] iM n(3) by auto
      let ?f = "fingers nd ! j"
      have f: "refers A s (finger_ref ?f)" using j(2) n(3,5) by simp
      then have fS: "finger_id ?f \<in> ?S" and fid: "is_id (finger_id ?f)"
        using refers_ring_ids [OF f] stable_is_id [OF Suc.prems(1) f] by simp_all
      have less: "cw ?n (finger_id ?f) < cw ?n key"
        using j(3) Suc.prems(5,6) n(1) fid by (simp add: in_range_exclusive)
      then have fn: "finger_id ?f \<noteq> ?n" and fk: "finger_id ?f \<noteq> key"
        using cw_self [OF n(1)] cw_less [of ?n key] by (smt (verit))+
      have "2 ^ j \<le> dist ?n (finger_id ?f)"
        using owner_start(1) [OF ids nS j(2) exact [OF j(2)]] fn by simp
      moreover have "(2::int) ^ i \<le> 2 ^ j" using j(1) by simp
      ultimately have far: "2 ^ i \<le> dist ?n (finger_id ?f)" by linarith
      obtain nd' where nd': "member A s (finger_addr ?f) nd'" "node_id nd' = finger_id ?f"
        using f by (auto simp: refers_def)
      have rest: "\<forall>x \<in> ?S. cw (node_id nd') x < cw (node_id nd') key \<longrightarrow> dist (node_id nd') x < 2 ^ i"
      proof (intro ballI impI)
        fix x assume x: "x \<in> ?S" and lt: "cw (node_id nd') x < cw (node_id nd') key"
        have "dist ?n x < 2 ^ Suc i \<and> dist (finger_id ?f) x = dist ?n x - dist ?n (finger_id ?f)"
          using hop_between [OF n(1) fid Suc.prems(5)] less lt x nd' ids Suc.prems(9) fn
          by (auto simp: ids_set_def)
        with far nd'(2) show "dist (node_id nd') x < 2 ^ i" by simp
      qed
      obtain fuel' where fuel': "fuel = Suc fuel'" "i \<le> fuel'"
        using Suc.prems(8) by (cases fuel) auto
      have hop: "\<exists>r m' c'. m' \<le> 4 * i \<and>
          find_successor fuel' (finger_addr ?f) key (later m c s) = (Inr r, later m' c' (later m c s)) \<and>
          responsible A s key r" for m c
        using Suc.IH [of "later m c s" "finger_addr ?f" nd' fuel'] Suc.prems nd' fk iM fuel'(2) rest
        by simp
      then obtain r where r: "responsible A s key r" by blast
      have "\<exists>m' c'. m' \<le> 4 * i \<and>
          find_successor fuel' (ref_addr (finger_ref ?f)) key (later m c s)
            = (Inr r, later m' c' (later m c s))" for m c
        using hop [of m c] responsible_unique [OF Suc.prems(1,5) r] by auto
      from find_successor_forward [OF Suc.prems(2,4) False j(4) _ _ this] fn nd' memberD(1) [OF nd'(1)] fuel'
      show ?thesis using r by force
    qed
  qed
qed

section \<open>A ring to try things on\<close>

text \<open>
  Two nodes, 10 and 100, with exact finger tables and a network without faults. The last
  finger of node 10 starts at 138, whose owner is node 10 itself.
\<close>

definition demo_fingers :: "int \<Rightarrow> nref list \<Rightarrow> finger_entry list" where
  "demo_fingers n rs = List.map (\<lambda>(i, r). \<lparr>start = (n + 2 ^ i) mod (2 ^ M), finger_id = ref_id r,
      finger_addr = ref_addr r\<rparr>) (zip [0..<M] rs)"

definition demo_node :: "string \<Rightarrow> int \<Rightarrow> nref option \<Rightarrow> nref list \<Rightarrow> jdict \<Rightarrow> chord_node" where
  "demo_node a n p rs d =
     \<lparr>address = a, node_id = n, predecessor = p, fingers = demo_fingers n rs, data_store = d,
      jobs_completed = 0, jobs_failed = 0, pred_fail_count = 0, persist = False, writable = False,
      disk = Missing\<rparr>"

definition ref10 :: nref where "ref10 = \<lparr>ref_id = 10, ref_addr = ''a''\<rparr>"
definition ref100 :: nref where "ref100 = \<lparr>ref_id = 100, ref_addr = ''b''\<rparr>"

definition demo10 :: chord_node where
  "demo10 = demo_node ''a'' 10 (Some ref100)
     [ref100, ref100, ref100, ref100, ref100, ref100, ref100, ref10] []"

definition demo100 :: chord_node where
  "demo100 = demo_node ''b'' 100 (Some ref10)
     [ref10, ref10, ref10, ref10, ref10, ref10, ref10, ref10] []"

definition demo_net :: net where
  "demo_net = \<lparr>nodes = [''a'' \<mapsto> demo10, ''b'' \<mapsto> demo100], fault = (\<lambda>n a. Delivered), sent = 0, clock = 0\<rparr>"

lemma demo_node_sel [simp]:
  "address (demo_node a n p rs d) = a" "node_id (demo_node a n p rs d) = n"
  "predecessor (demo_node a n p rs d) = p" "data_store (demo_node a n p rs d) = d"
  "fingers (demo_node a n p rs d) = demo_fingers n rs"
  by (simp_all add: demo_node_def)

lemma upt_M: "[0..<M] = [0, 1, 2, 3, 4, 5, 6, 7]"
  by (simp add: M_def upt_rec)

lemma ring_size_256: "ring_size = 256"
  by (simp add: ring_size_def M_def)

lemmas demo_refs = ref10_def ref100_def finger_ref_def

lemma demo_fingers_refs: "length rs = M \<Longrightarrow> List.map finger_ref (demo_fingers n rs) = rs"
  by (auto simp: demo_fingers_def finger_ref_def intro!: nth_equalityI)

lemma demo_fingers_length [simp]: "length (demo_fingers n rs) = min M (length rs)"
  by (simp add: demo_fingers_def)

lemma demo_fingers_nth:
  "length rs = M \<Longrightarrow> i < M \<Longrightarrow> finger_id (demo_fingers n rs ! i) = ref_id (rs ! i)"
  by (simp add: demo_fingers_def)

lemma demo_fingers_set:
  "length rs = M \<Longrightarrow> f \<in> set (demo_fingers n rs) \<Longrightarrow> finger_ref f \<in> set rs"
  by (metis demo_fingers_refs image_eqI list.set_map)

lemma demo_net_nodes:
  "member UNIV demo_net a nd \<longleftrightarrow> a = ''a'' \<and> nd = demo10 \<or> a = ''b'' \<and> nd = demo100"
  by (auto simp: member_def demo_net_def)

lemma demo_net_ids: "ring_ids UNIV demo_net = {10, 100}"
proof -
  have "node_id demo10 = 10" "node_id demo100 = 100" by (simp_all add: demo10_def demo100_def)
  then show ?thesis by (auto simp: ring_ids_def demo_net_nodes) metis+
qed

lemma demo_net_lossy: "lossy demo_net"
  by (auto simp: lossy_def demo_net_def)

lemma demo_net_refers: "refers UNIV demo_net ref10" "refers UNIV demo_net ref100"
  by (simp_all add: refers_def demo_net_nodes demo_refs demo10_def demo100_def)

lemma demo_net_successors: "successor demo10 = ref100" "successor demo100 = ref10"
  by (simp_all add: successor_def demo10_def demo100_def demo_fingers_def upt_M demo_refs)

lemma demo_net_stable: "stable UNIV demo_net"
proof -
  have len: "length [ref100, ref100, ref100, ref100, ref100, ref100, ref100, ref10] = M"
    "length [ref10, ref10, ref10, ref10, ref10, ref10, ref10, ref10] = M"
    by (simp_all add: M_def)
  have "well_placed UNIV demo_net ''a'' demo10"
    using demo_fingers_set [OF len(1)] demo_net_refers len(1) demo_net_successors
    by (fastforce simp: well_placed_def demo10_def demo_net_ids next_of_def cw_def ring_size_256 demo_refs)
  moreover have "well_placed UNIV demo_net ''b'' demo100"
    using demo_fingers_set [OF len(2)] demo_net_refers len(2) demo_net_successors
    by (fastforce simp: well_placed_def demo100_def demo_net_ids next_of_def cw_def ring_size_256 demo_refs)
  moreover have "ids_set {10, 100}" by (auto simp: ids_set_def is_id_def ring_size_256)
  ultimately show ?thesis
    by (auto simp: stable_def demo_net_ids demo_net_nodes demo10_def demo100_def)
qed

lemma less_M_cases: "i < M \<longleftrightarrow> i = 0 \<or> i = 1 \<or> i = 2 \<or> i = 3 \<or> i = 4 \<or> i = 5 \<or> i = 6 \<or> i = 7"
  by (auto simp: M_def)

lemma demo_net_exact: "fingers_exact UNIV demo_net"
  unfolding fingers_exact_def demo_net_nodes
  by (auto simp: less_M_cases demo_net_ids owner_of_def dist_def ring_size_256
      demo10_def demo100_def demo_fingers_def upt_M demo_refs)

section \<open>Properties\<close>

text \<open>
  C1. In a stable ring, over a network that loses requests (never four in a row to one address,
  and no replies), \<open>find_successor\<close> returns, from any node and for any key other than that
  node's own identifier, the node responsible for the key; it changes no node. Fuel 255 is
  enough whatever the finger tables are.
\<close>

theorem find_successor_correct:
  assumes "stable A s" and "lossy s" and "member A s me nd"
    and "is_id key" and "key \<noteq> node_id nd" and "255 \<le> fuel"
  shows "\<exists>r s'. find_successor fuel me key s = (Inr r, s') \<and> responsible A s key r \<and> nodes s' = nodes s"
proof -
  have "cw (node_id nd) key \<le> int fuel"
    using assms(6) cw_less [of "node_id nd" key] by (simp add: ring_size_256)
  from find_successor_by_distance [OF assms(1-5) this] show ?thesis by force
qed

theorem find_successor_correct_witness:
  "\<exists>r s'. find_successor 255 ''a'' 50 demo_net = (Inr r, s') \<and> responsible UNIV demo_net 50 r \<and>
     nodes s' = nodes demo_net"
  by (rule find_successor_correct [of UNIV demo_net "''a''" demo10])
    (simp_all add: demo_net_stable demo_net_lossy demo_net_nodes demo10_def is_id_def ring_size_256)

text \<open>
  C5. When every finger names the node responsible for its start, a lookup nests at most
  \<open>M = 8\<close> remote calls and makes at most \<open>4 * M\<close> HTTP attempts in all, however many nodes the
  ring has.
\<close>

theorem find_successor_log_hops:
  assumes "stable A s" and "lossy s" and "fingers_exact A s" and "member A s me nd"
    and "is_id key" and "key \<noteq> node_id nd" and "M \<le> fuel"
  shows "\<exists>r s'. find_successor fuel me key s = (Inr r, s') \<and> responsible A s key r \<and>
           sent s' \<le> sent s + 4 * M \<and> nodes s' = nodes s"
proof -
  have "\<forall>x \<in> ring_ids A s. cw (node_id nd) x < cw (node_id nd) key \<longrightarrow> dist (node_id nd) x < 2 ^ M"
    using dist_less by (simp add: ring_size_def)
  from find_successor_hops [OF assms(1-6) order_refl assms(7) this] show ?thesis by force
qed

theorem find_successor_log_hops_witness:
  "\<exists>r s'. find_successor 8 ''b'' 50 demo_net = (Inr r, s') \<and> responsible UNIV demo_net 50 r \<and>
     sent s' \<le> sent demo_net + 4 * M \<and> nodes s' = nodes demo_net"
  by (rule find_successor_log_hops [of UNIV demo_net "''b''" demo100])
    (simp_all add: demo_net_stable demo_net_lossy demo_net_exact demo_net_nodes demo100_def
      is_id_def ring_size_256 M_def)

text \<open>
  A node asked for its own identifier, in a stable ring with another node, answers wrongly
  as soon as its last finger names itself: it returns its successor, although the node
  responsible for its identifier is itself. The interval \<open>(n, n)\<close> of \<open>_closest_preceding_node\<close>
  holds every identifier, so the last finger is always the one chosen.
\<close>

theorem find_successor_own_id_wrong:
  assumes st: "stable A s" and nd: "member A s me nd" and other: "ref_id (successor nd) \<noteq> node_id nd"
    and last: "finger_id (fingers nd ! (M - 1)) = node_id nd"
  shows "find_successor fuel me (node_id nd) s = (Inr (successor nd), s) \<and>
    \<not> responsible A s (node_id nd) (successor nd) \<and> responsible A s (node_id nd) (self_ref nd)"
proof (intro conjI)
  note n = stable_node [OF st nd]
  let ?succ = "ref_id (successor nd)"
  have ids: "is_id ?succ" using n(6) by (rule stable_is_id [OF st])
  have "cw (node_id nd) ?succ < cw (node_id nd) (node_id nd)"
    using cw_inj [OF n(1) ids n(1)] other cw_self [OF n(1)] cw_less [of "node_id nd" ?succ]
    by (smt (verit))
  then have far: "\<not> in_range (node_id nd) (node_id nd) ?succ True"
    using n ids by (simp add: in_range_inclusive)
  have "M - 1 < length (fingers nd)" by (simp add: n(3))
  then obtain j where "M - 1 \<le> j" "j < length (fingers nd)"
      "closest_preceding_node nd (node_id nd) = finger_ref (fingers nd ! j)"
    by (rule closest_preceding_last [of _ nd "node_id nd"]) (auto simp: in_range_def)
  moreover from this n(3) have "j = M - 1" by simp
  ultimately have "ref_id (closest_preceding_node nd (node_id nd)) = node_id nd"
    using last by simp
  then show "find_successor fuel me (node_id nd) s = (Inr (successor nd), s)"
    using far memberD(1) [OF nd] by (cases fuel) (simp_all add: find_successor_via_def act_simps Let_def)
  show self: "responsible A s (node_id nd) (self_ref nd)"
    using nd n(2) by (auto simp: responsible_def refers_def intro: owner_of_member ring_idsI)
  show "\<not> responsible A s (node_id nd) (successor nd)"
    using responsible_unique [OF st n(1) self] other by (metis self_ref_sel(1))
qed

theorem find_successor_own_id_wrong_witness:
  "find_successor 5 ''a'' 10 demo_net = (Inr ref100, demo_net) \<and>
     \<not> responsible UNIV demo_net 10 ref100 \<and> responsible UNIV demo_net 10 ref10"
proof -
  have "finger_id (fingers demo10 ! (M - 1)) = node_id demo10"
    by (simp add: demo10_def demo_fingers_def upt_M demo_refs M_def)
  moreover have "node_id demo10 = 10" "self_ref demo10 = ref10" "ref_id ref100 = 100"
    by (simp_all add: demo10_def self_ref_def demo_refs)
  ultimately show ?thesis
    using find_successor_own_id_wrong [of UNIV demo_net "''a''" demo10 5]
    by (simp del: find_successor.simps
        add: demo_net_stable demo_net_nodes demo_net_successors)
qed

end
