(* ===== verification/Maintenance.thy ===== *)
theory Maintenance
  imports Lookup
begin

text \<open>
  The protocol that keeps the ring together: \<open>join\<close>, \<open>stabilize\<close>, \<open>fix_fingers\<close>,
  \<open>check_predecessor\<close>, \<open>leave\<close> of \<open>ChordNode\<close>, and one round of the maintenance thread of
  \<open>chord/server.py\<close>. The random finger index of \<open>fix_fingers\<close> is an argument.
\<close>

section \<open>Operations\<close>

definition join :: "nat \<Rightarrow> string \<Rightarrow> string option \<Rightarrow> ('z net_scheme, unit) act" where
  "join fuel me known_address =
     (case known_address of
        None \<Rightarrow> change_node me (\<lambda>nd. set_successor (self_ref nd) (nd\<lparr>predecessor := None\<rparr>))
      | Some known \<Rightarrow>
          andthen (change_node me (\<lambda>nd. nd\<lparr>predecessor := None\<rparr>)) (\<lambda>_.
          andthen (read_node me node_id) (\<lambda>nid.
          andthen (t_find_successor fuel known nid) (\<lambda>succ.
          change_node me (set_successor succ)))))"

text \<open>The fallback of \<open>stabilize\<close>: the first finger, from the last one down, that answers.\<close>

definition fallback_candidates :: "chord_node \<Rightarrow> nref list" where
  "fallback_candidates nd =
     filter (\<lambda>r. ref_id r \<noteq> node_id nd)
       (List.map (\<lambda>i. finger_ref (fingers nd ! i)) (rev [1..<M]))"

fun fall_back :: "string \<Rightarrow> nref list \<Rightarrow> ('z net_scheme, unit) act" where
  "fall_back me [] = ret ()"
| "fall_back me (c # cs) =
     andthen (catch (andthen (t_ping (ref_addr c)) (\<lambda>_.
                     andthen (change_node me (set_successor c)) (\<lambda>_. ret True)))
                    (\<lambda>_. ret False))
       (\<lambda>done. if done then ret () else fall_back me cs)"

definition stabilize :: "string \<Rightarrow> ('z net_scheme, unit) act" where
  "stabilize me =
     andthen (read_node me (\<lambda>nd. nd)) (\<lambda>nd.
       if ref_id (successor nd) = node_id nd then
         (case predecessor nd of
            None \<Rightarrow> ret ()
          | Some p \<Rightarrow> if ref_id p \<noteq> node_id nd then change_node me (set_successor p) else ret ())
       else
         catch
           (andthen (t_get_predecessor (ref_addr (successor nd))) (\<lambda>x.
            andthen (read_node me successor) (\<lambda>current_succ.
            andthen (case x of
                None \<Rightarrow> ret ()
              | Some r \<Rightarrow> if in_range (ref_id r) (node_id nd) (ref_id current_succ) False
                          then change_node me (set_successor r) else ret ()) (\<lambda>_.
            andthen (read_node me (\<lambda>nd. ref_addr (successor nd))) (\<lambda>notify_addr.
            t_notify notify_addr (self_ref nd))))))
           (\<lambda>_. andthen (read_node me fallback_candidates) (fall_back me)))"

definition fix_fingers :: "nat \<Rightarrow> nat \<Rightarrow> string \<Rightarrow> ('z net_scheme, unit) act" where
  "fix_fingers fuel i me =
     andthen (read_node me (\<lambda>nd. start (fingers nd ! i))) (\<lambda>target.
     andthen (catch (andthen (find_successor fuel me target) (\<lambda>r. ret (Some r))) (\<lambda>_. ret None)) (\<lambda>result.
     case result of None \<Rightarrow> ret () | Some r \<Rightarrow> change_node me (set_finger i r)))"

definition clear_predecessor :: "nref \<Rightarrow> chord_node \<Rightarrow> chord_node" where
  "clear_predecessor pred nd =
     (case predecessor nd of
        Some p \<Rightarrow> if ref_id p = ref_id pred then nd\<lparr>predecessor := None\<rparr> else nd
      | None \<Rightarrow> nd)"

definition check_predecessor :: "string \<Rightarrow> ('z net_scheme, unit) act" where
  "check_predecessor me =
     andthen (read_node me predecessor) (\<lambda>pred.
       case pred of
         None \<Rightarrow> ret ()
       | Some p \<Rightarrow>
           catch
             (andthen (t_ping (ref_addr p)) (\<lambda>_. change_node me (\<lambda>nd. nd\<lparr>pred_fail_count := 0\<rparr>)))
             (\<lambda>_. change_node me (\<lambda>nd.
                let c = pred_fail_count nd + 1 in
                if c < 2 then nd\<lparr>pred_fail_count := c\<rparr>
                else (clear_predecessor p nd)\<lparr>pred_fail_count := 0\<rparr>)))"

text \<open>\<open>try: m except Exception: pass\<close> (the code logs)\<close>

definition ignoring :: "('s, unit) act \<Rightarrow> ('s, unit) act" where
  "ignoring m = catch m (\<lambda>_. ret ())"

definition leave :: "string \<Rightarrow> ('z net_scheme, unit) act" where
  "leave me =
     andthen (read_node me (\<lambda>nd. nd)) (\<lambda>nd.
       let succ = successor nd; pred = predecessor nd in
       if ref_id succ = node_id nd then ret ()
       else
         andthen (if data_store nd \<noteq> [] then ignoring (t_bulk_put (ref_addr succ) (data_store nd)) else ret ()) (\<lambda>_.
         andthen (case pred of Some p \<Rightarrow> ignoring (t_update_predecessor (ref_addr succ) p) | None \<Rightarrow> ret ()) (\<lambda>_.
         case pred of Some p \<Rightarrow> ignoring (t_update_successor (ref_addr p) succ) | None \<Rightarrow> ret ())))"

text \<open>One round of the maintenance thread; an exception ends the round.\<close>

definition maintenance_round :: "nat \<Rightarrow> nat \<Rightarrow> string \<Rightarrow> ('z net_scheme, unit) act" where
  "maintenance_round fuel i me =
     ignoring (andthen (stabilize me) (\<lambda>_. andthen (fix_fingers fuel i me) (\<lambda>_. check_predecessor me)))"

section \<open>Calls that reach a running node\<close>

lemma rpc_on_node:
  assumes "lossy s" and "nodes s a = Some nd" and "f nd = (Ok b, nd')"
  obtains m c where "rpc a (on_node a f) s = (Inr b, set_node a nd' (later m c s))"
proof -
  obtain m c where "rpc a (on_node a f) s
      = andthen (serve (on_node a f)) (\<lambda>r. lift (raise_for_status r)) (later m c s)"
    by (rule rpc_lossy [of s a "on_node a f"]) (use assms in auto)
  moreover have "serve (on_node a f) (later m c s) = (Inr (Ok b), set_node a nd' (later m c s))"
    using assms by (intro serve_Inr) (simp add: act_simps)
  ultimately show thesis
    by (intro that [of m c]) (simp add: act_simps raise_for_status_def)
qed

lemma set_node_same [simp]: "nodes s a = Some nd \<Longrightarrow> set_node a nd s = s"
  by (simp add: set_node_def fun_upd_idem)

lemma nodes_set_node [simp]: "nodes (set_node a nd s) = (nodes s)(a \<mapsto> nd)"
  by (simp add: set_node_def)

lemma fault_set_node [simp]: "fault (set_node a nd s) = fault s"
  by (simp add: set_node_def)

lemma set_node_set_node [simp]: "set_node a nd (set_node a nd' s) = set_node a nd s"
  by (simp add: set_node_def)

lemma later_set_node: "later m c (set_node a nd s) = set_node a nd (later m c s)"
  by (simp add: set_node_def later_def)

lemma rpc_read_node:
  assumes "lossy s" and "nodes s a = Some nd" and "f nd = Ok b"
  obtains m c where "rpc a (read_node a f) s = (Inr b, later m c s)"
proof -
  obtain m c where "rpc a (read_node a f) s = (Inr b, set_node a nd (later m c s))"
    unfolding read_node_def by (rule rpc_on_node [of s a nd "\<lambda>nd. (f nd, nd)" b nd]) (use assms in auto)
  then show thesis using assms(2) by (intro that) simp
qed

lemmas rpc_defs = t_get_predecessor_def h_get_predecessor_def t_notify_def h_notify_def
  t_ping_def h_ping_def t_update_predecessor_def h_update_predecessor_def
  t_update_successor_def h_update_successor_def t_bulk_put_def h_bulk_put_def

text \<open>
  A process that does not run, or that none of the four attempts reaches: every attempt fails,
  and the delays add up to 0.7 s.
\<close>

definition unreachable :: "'z net_scheme \<Rightarrow> string \<Rightarrow> bool" where
  "unreachable s a \<longleftrightarrow> nodes s a = None \<or> (\<forall>j < 4. fault s (sent s + j) a = RequestLost)"

lemma request_unreachable:
  assumes "unreachable s a"
  obtains msg where "request a h s = (Inl (RequestException msg), later 4 700000 s)"
proof -
  have less4: "j < 4 \<longleftrightarrow> j = 0 \<or> j = Suc 0 \<or> j = Suc (Suc 0) \<or> j = Suc (Suc (Suc 0))" for j :: nat
    by auto
  have defs: "request a h s = (Inl (RequestException msg), later 4 700000 s)"
    if "\<And>j c. j < 4 \<Longrightarrow> http_attempt a h (later j c s) = (Inl (RequestException msg), later (Suc j) c s)" for msg
    using that [of 0 0] that [of 1 100000] that [of 2 300000] that [of 3 700000]
    by (simp add: request_def RPC_RETRIES_def RPC_RETRY_DELAY_def eval_nat_numeral act_simps
        sleep_def later_def algebra_simps)
  show thesis
  proof (cases "nodes s a")
    case None
    then show thesis
      by (intro that [of "''connection refused''"] defs) (simp add: http_attempt_def later_def Let_def)
  next
    case (Some nd)
    with assms have "\<And>j. j < 4 \<Longrightarrow> fault s (sent s + j) a = RequestLost"
      by (simp add: unreachable_def)
    with Some show thesis
      by (intro that [of "''timed out''"] defs) (simp add: http_attempt_def later_def Let_def)
  qed
qed

lemma rpc_unreachable:
  assumes "unreachable s a"
  obtains msg where "rpc a h s = (Inl (RequestException msg), later 4 700000 s)"
proof -
  obtain msg where "request a h s = (Inl (RequestException msg), later 4 700000 s)"
    by (rule request_unreachable [OF assms])
  then show thesis by (intro that [of msg]) (simp add: rpc_def act_simps)
qed

section \<open>Placement of a ring\<close>

text \<open>What the lookup depends on: the address, the identifier and the fingers of every node.\<close>

definition same_place :: "chord_node \<Rightarrow> chord_node \<Rightarrow> bool" where
  "same_place nd nd' \<longleftrightarrow> address nd' = address nd \<and> node_id nd' = node_id nd \<and> fingers nd' = fingers nd"

lemma member_set_node:
  "member A (set_node a nd' s) b nd \<longleftrightarrow> (if b = a then a \<in> A \<and> nd = nd' else member A s b nd)"
  by (auto simp: member_def)

lemma refers_set_node:
  assumes "member A s a nd" and "node_id nd' = node_id nd"
  shows "refers A (set_node a nd' s) r = refers A s r"
  using assms by (auto simp: refers_def member_set_node member_def)

lemma ring_ids_set_node:
  assumes "member A s a nd" and "node_id nd' = node_id nd"
  shows "ring_ids A (set_node a nd' s) = ring_ids A s"
proof
  show "ring_ids A (set_node a nd' s) \<subseteq> ring_ids A s"
    using assms by (auto simp: ring_ids_def member_set_node split: if_splits)
  show "ring_ids A s \<subseteq> ring_ids A (set_node a nd' s)"
  proof
    fix x assume "x \<in> ring_ids A s"
    then obtain b nb where b: "member A s b nb" "node_id nb = x" by (auto simp: ring_ids_def)
    show "x \<in> ring_ids A (set_node a nd' s)"
    proof (cases "b = a")
      case True
      then have "nb = nd" using b(1) assms(1) by (simp add: member_def)
      then have "member A (set_node a nd' s) a nd'" "node_id nd' = x"
        using assms b by (auto simp: member_set_node member_def)
      then show ?thesis using ring_idsI by force
    next
      case False
      then have "member A (set_node a nd' s) b nb" using b by (simp add: member_set_node)
      then show ?thesis using b(2) ring_idsI by force
    qed
  qed
qed

lemma stable_set_node:
  assumes "stable A s" and "member A s a nd" and "same_place nd nd'"
  shows "stable A (set_node a nd' s)"
proof -
  have id: "node_id nd' = node_id nd" using assms(3) by (simp add: same_place_def)
  note ring = ring_ids_set_node [OF assms(2) id] refers_set_node [OF assms(2) id]
  have "well_placed A s a nd" using assms(1,2) by (simp add: stable_def)
  then have wp: "well_placed A (set_node a nd' s) b nb" if "member A (set_node a nd' s) b nb" for b nb
    using that assms by (auto simp: well_placed_def ring stable_def member_set_node same_place_def
        successor_def split: if_splits)
  have "b = c" if "member A (set_node a nd' s) b nb" "member A (set_node a nd' s) c nc"
    "node_id nb = node_id nc" for b c nb nc
    using that assms id unfolding stable_def member_set_node by (metis)
  with wp show ?thesis using assms(1) by (auto simp: stable_def ring)
qed

section \<open>Stabilization in a stable ring\<close>

text \<open>
  \<open>preds_known\<close>: every predecessor pointer is unset or names a member; \<open>pred_of\<close>: \<open>p\<close> is the
  node whose successor is the node at \<open>a\<close>.
\<close>

definition preds_known :: "string set \<Rightarrow> 'z net_scheme \<Rightarrow> bool" where
  "preds_known A s \<longleftrightarrow> (\<forall>a nd p. member A s a nd \<longrightarrow> predecessor nd = Some p \<longrightarrow> refers A s p)"

text \<open>Two members with the same successor are the same.\<close>

lemma next_of_inj:
  assumes "ids_set S" and "a \<in> S" and "b \<in> S" and "next_of S a j" and "next_of S b j"
  shows "a = b"
proof (rule ccontr)
  assume "a \<noteq> b"
  have "is_id a" "is_id b" "is_id j"
    using assms by (auto simp: ids_set_def dest: next_ofD)
  moreover have "cw a j \<le> cw a b" "cw b j \<le> cw b a" "cw a j \<le> cw a a" "cw b j \<le> cw b b"
    using assms by (auto dest: next_ofD)
  ultimately show False using \<open>a \<noteq> b\<close> by (auto simp: cw_eq is_id_def split: if_splits)
qed

text \<open>A member lies in the open interval between another member and the latter's successor never.\<close>

lemma next_of_gap:
  "next_of S n j \<Longrightarrow> x \<in> S \<Longrightarrow> ids_set S \<Longrightarrow> is_id n \<Longrightarrow> j \<noteq> n \<Longrightarrow> \<not> in_range x n j False"
  using in_range_exclusive [of x n j] next_ofD [of S n j] by (auto simp: ids_set_def not_less)

text \<open>The true predecessor \<open>n\<close> of \<open>j\<close> lies between any other member and \<open>j\<close>.\<close>

lemma next_of_candidate:
  assumes "next_of S n j" and "n \<in> S" and "p \<in> S" and "ids_set S" and "j \<noteq> n" and "p \<noteq> n"
  shows "in_range n p j False"
proof -
  have ids: "is_id n" "is_id j" "is_id p" using assms by (auto simp: ids_set_def dest: next_ofD)
  have "cw n j \<le> cw n p" using assms by (auto dest: next_ofD)
  with ids assms(5,6) show ?thesis
    by (auto simp: in_range_def cw_eq is_id_def split: if_splits)
qed

text \<open>
  In a stable ring with known predecessors, one run of \<open>stabilize\<close> changes one field of one
  node: the predecessor of the successor becomes the node that ran it.
\<close>

lemma stabilize_run:
  fixes s :: "'z net_scheme"
  assumes st: "stable A s" and lossy: "lossy s" and known: "preds_known A s"
    and me: "member A s me nd" and other: "ref_id (successor nd) \<noteq> node_id nd"
  obtains m c ns where "member A s (ref_addr (successor nd)) ns" "node_id ns = ref_id (successor nd)"
    "stabilize me s = (Inr (), set_node (ref_addr (successor nd))
       (ns\<lparr>predecessor := Some (self_ref nd)\<rparr>) (later m c s))"
proof -
  note n = stable_node [OF st me]
  let ?q = "ref_addr (successor nd)" and ?S = "ring_ids A s"
  have ids: "ids_set ?S" using st by (simp add: stable_def)
  obtain ns where ns: "member A s ?q ns" "node_id ns = ref_id (successor nd)"
    using n(6) by (auto simp: refers_def)
  have nodes: "nodes s me = Some nd" "nodes s ?q = Some ns" using me ns by (auto dest: memberD)
  have "?q \<noteq> me" using me ns other by (auto dest: member_inj)
  obtain m c where pred: "t_get_predecessor ?q s = (Inr (predecessor ns), later m c s)"
    unfolding rpc_defs by (rule rpc_read_node [OF lossy nodes(2) refl])
  have skip: "\<not> in_range (ref_id p) (node_id nd) (ref_id (successor nd)) False"
    if "predecessor ns = Some p" for p
  proof -
    have "refers A s p" using known ns(1) that by (auto simp: preds_known_def)
    then show ?thesis using next_of_gap [OF n(7) _ ids n(1) other] refers_ring_ids by blast
  qed
  have notify: "notify (self_ref nd) ns = ns\<lparr>predecessor := Some (self_ref nd)\<rparr>"
  proof (cases "predecessor ns")
    case (Some p)
    then have p: "refers A s p" using known ns(1) by (auto simp: preds_known_def)
    show ?thesis
    proof (cases "ref_id p = node_id nd")
      case True
      moreover have "refers A s (self_ref nd)" using me n(2) by (auto simp: refers_def)
      ultimately have "p = self_ref nd" using stable_refers_inj [OF st p] by simp
      with Some show ?thesis by (simp add: notify_def)
    next
      case False
      then have "in_range (node_id nd) (ref_id p) (ref_id (successor nd)) False"
        using next_of_candidate [OF n(7) ring_idsI [OF me] refers_ring_ids [OF p] ids other] by simp
      with Some ns(2) show ?thesis by (simp add: notify_def)
    qed
  qed (simp add: notify_def)
  obtain m' c' where ntf: "t_notify ?q (self_ref nd) (later m c s)
      = (Inr (), set_node ?q (ns\<lparr>predecessor := Some (self_ref nd)\<rparr>) (later m' c' (later m c s)))"
    unfolding rpc_defs
    by (rule rpc_on_node [of "later m c s" ?q ns "\<lambda>nd'. (Ok (), notify (self_ref nd) nd')" "()"
          "ns\<lparr>predecessor := Some (self_ref nd)\<rparr>"])
      (use lossy nodes notify in auto)
  have "stabilize me s = (Inr (), set_node ?q (ns\<lparr>predecessor := Some (self_ref nd)\<rparr>)
      (later (m + m') (c + c') s))"
    using other nodes skip
    by (cases "predecessor ns") (simp_all add: stabilize_def act_simps pred ntf)
  with ns show thesis by (intro that)
qed

lemma same_place_pred [simp]: "same_place nd (nd\<lparr>predecessor := p\<rparr>)"
  by (simp add: same_place_def)

lemma preds_known_set:
  assumes "preds_known A s" and "member A s a nd" and "\<And>p. p' = Some p \<Longrightarrow> refers A s p"
  shows "preds_known A (set_node a (nd\<lparr>predecessor := p'\<rparr>) s)"
  using assms refers_set_node [OF assms(2), of "nd\<lparr>predecessor := p'\<rparr>"]
  by (auto simp: preds_known_def member_set_node split: if_splits)

lemma preds_known_later [simp]: "preds_known A (later m c s) = preds_known A s"
  by (simp add: preds_known_def)

text \<open>
  C4. Stabilization keeps a stable ring stable: on a network that loses requests, \<open>stabilize\<close>
  run by a member whose successor is another node ends without an exception, changes no
  successor, finger or stored key, and leaves the successor with this member as predecessor,
  whatever (known) predecessor it had before.
\<close>

theorem stabilize_stable:
  assumes "stable A s" and "lossy s" and "preds_known A s" and "member A s me nd"
    and "ref_id (successor nd) \<noteq> node_id nd"
  shows "\<exists>s' ns. stabilize me s = (Inr (), s') \<and> stable A s' \<and> preds_known A s' \<and> lossy s' \<and>
    nodes s (ref_addr (successor nd)) = Some ns \<and>
    nodes s' = (nodes s)(ref_addr (successor nd) \<mapsto> ns\<lparr>predecessor := Some (self_ref nd)\<rparr>)"
proof -
  obtain m c ns where r: "member A s (ref_addr (successor nd)) ns"
    "stabilize me s = (Inr (), set_node (ref_addr (successor nd))
       (ns\<lparr>predecessor := Some (self_ref nd)\<rparr>) (later m c s))"
    by (rule stabilize_run [OF assms])
  have "refers A s (self_ref nd)"
    using assms(4) stable_node(2) [OF assms(1,4)] by (auto simp: refers_def)
  with assms r(1) have "preds_known A (set_node (ref_addr (successor nd))
       (ns\<lparr>predecessor := Some (self_ref nd)\<rparr>) (later m c s))"
    by (intro preds_known_set) auto
  moreover have "stable A (set_node (ref_addr (successor nd))
       (ns\<lparr>predecessor := Some (self_ref nd)\<rparr>) (later m c s))"
    using assms r(1) by (intro stable_set_node [of _ _ _ ns]) auto
  ultimately show ?thesis using r assms(2) by (auto dest: memberD)
qed

theorem stabilize_stable_witness:
  "\<exists>s' ns. stabilize ''a'' demo_net = (Inr (), s') \<and> stable UNIV s' \<and> preds_known UNIV s' \<and> lossy s' \<and>
    nodes demo_net ''b'' = Some ns \<and> nodes s' = (nodes demo_net)(''b'' \<mapsto> ns\<lparr>predecessor := Some ref10\<rparr>)"
proof -
  have "preds_known UNIV demo_net"
    using demo_net_refers by (auto simp: preds_known_def demo_net_nodes demo10_def demo100_def)
  moreover have "ref_addr ref100 = ''b''" "self_ref demo10 = ref10" "ref_id ref100 = 100" "node_id demo10 = 10"
    by (simp_all add: demo_refs demo10_def self_ref_def)
  ultimately show ?thesis
    using stabilize_stable [of UNIV demo_net "''a''" demo10]
    by (simp add: demo_net_stable demo_net_lossy demo_net_nodes demo_net_successors)
qed

end
