(* ===== verification/Churn.thy ===== *)
theory Churn
  imports Maintenance
begin

text \<open>
  Membership changes: a node that joins a stable ring and the stabilizations that integrate
  it, a node that leaves, and the predecessor check that notices a failed neighbour.
\<close>

section \<open>A new identifier in a ring\<close>

text \<open>\<open>p\<close> is a member, \<open>q\<close> its successor, and the new identifier \<open>n\<close> is owned by \<open>q\<close>.\<close>

lemma insert_between:
  assumes S: "ids_set S" and n: "is_id n" "n \<notin> S" and p: "p \<in> S" "next_of S p q" and own: "owner_of S n q"
  shows "cw p n < cw p q" and "next_of (insert n S) p n" and "next_of (insert n S) n q"
    and "x \<in> S \<Longrightarrow> \<not> in_range x n q False" and "in_range n p q False"
    and "b \<in> S \<Longrightarrow> next_of S b j \<Longrightarrow> b \<noteq> p \<Longrightarrow> next_of (insert n S) b j"
proof -
  have q: "q \<in> S" using p(2) by (rule next_ofD)
  have ids: "is_id x" if "x \<in> S" for x using that S by (simp add: ids_set_def)
  have pq: "cw p q \<le> cw p x" if "x \<in> S" for x using p(2) that by (rule next_ofD)
  have nq: "dist n q \<le> dist n x" if "x \<in> S" for x using own that by (rule owner_ofD)
  have neq: "n \<noteq> p" "n \<noteq> q" using n(2) p(1) q by auto
  show lt: "cw p n < cw p q"
    using pq [OF p(1)] nq [OF p(1)] ids [OF p(1)] ids [OF q] n(1) neq
    by (auto simp: cw_eq dist_eq is_id_def split: if_splits)
  show "next_of (insert n S) p n"
    using p pq lt by (auto simp: next_of_def) (meson less_le_trans order_less_imp_le)
  have "cw n q \<le> cw n x" if "x \<in> S" for x
    using nq [OF that] cw_dist [OF n(1)] ids that q n(2) by (metis diff_right_mono)
  moreover have "cw n q \<le> cw n n" using cw_self [OF n(1)] cw_less [of n q] by linarith
  ultimately have min: "cw n q \<le> cw n x" if "x \<in> insert n S" for x using that by auto
  with q show "next_of (insert n S) n q" by (simp add: next_of_def)
  show "\<not> in_range x n q False" if "x \<in> S"
    using min [of x] that in_range_exclusive [OF ids [OF that] n(1) ids [OF q]] neq by auto
  show "in_range n p q False"
    using lt in_range_exclusive [OF n(1) ids [OF p(1)] ids [OF q]] by simp
  show "next_of (insert n S) b j" if b: "b \<in> S" "next_of S b j" "b \<noteq> p"
  proof -
    have j: "j \<in> S" using b(2) by (rule next_ofD)
    have "\<not> cw b n < cw b j"
    proof
      assume "cw b n < cw b j"
      then have "owner_of S n j"
        using S b n(1) ids by (intro next_of_owner [of S b n j]) auto
      then have "j = q" using owner_of_unique [OF S n(1) _ own] by simp
      with next_of_inj [OF S b(1) p(1) b(2)] p(2) b(3) show False by simp
    qed
    then show ?thesis using b(2) by (auto simp: next_of_def)
  qed
qed

section \<open>Runs of \<open>stabilize\<close>\<close>

text \<open>The successor's predecessor is not closer: only \<open>notify\<close> changes anything.\<close>

lemma stabilize_keep:
  fixes s :: "'z net_scheme"
  assumes lossy: "lossy s" and nodes: "nodes s me = Some nd" "nodes s (ref_addr (successor nd)) = Some nq"
    and other: "ref_id (successor nd) \<noteq> node_id nd"
    and skip: "\<And>p. predecessor nq = Some p \<Longrightarrow>
        \<not> in_range (ref_id p) (node_id nd) (ref_id (successor nd)) False"
  obtains m c where "stabilize me s =
    (Inr (), set_node (ref_addr (successor nd)) (notify (self_ref nd) nq) (later m c s))"
proof -
  let ?q = "ref_addr (successor nd)"
  obtain m c where pred: "t_get_predecessor ?q s = (Inr (predecessor nq), later m c s)"
    unfolding rpc_defs by (rule rpc_read_node [OF lossy nodes(2) refl])
  obtain m' c' where ntf: "t_notify ?q (self_ref nd) (later m c s)
      = (Inr (), set_node ?q (notify (self_ref nd) nq) (later m' c' (later m c s)))"
    unfolding rpc_defs
    by (rule rpc_on_node [of "later m c s" ?q nq "\<lambda>nd'. (Ok (), notify (self_ref nd) nd')" "()"
          "notify (self_ref nd) nq"])
      (use lossy nodes in auto)
  have "stabilize me s = (Inr (), set_node ?q (notify (self_ref nd) nq) (later (m + m') (c + c') s))"
    using other nodes skip
    by (cases "predecessor nq") (simp_all add: stabilize_def act_simps pred ntf)
  then show thesis by (rule that)
qed

text \<open>The successor's predecessor is closer: it becomes the successor and is notified.\<close>

lemma stabilize_adopt:
  fixes s :: "'z net_scheme"
  assumes lossy: "lossy s" and nodes: "nodes s me = Some nd" "nodes s (ref_addr (successor nd)) = Some nq"
    and other: "ref_id (successor nd) \<noteq> node_id nd" and fingers: "fingers nd \<noteq> []"
    and x: "predecessor nq = Some x" "in_range (ref_id x) (node_id nd) (ref_id (successor nd)) False"
    and nx: "nodes s (ref_addr x) = Some nx" "ref_addr x \<noteq> me"
  obtains m c where "stabilize me s =
    (Inr (), set_node (ref_addr x) (notify (self_ref nd) nx) (set_node me (set_successor x nd) (later m c s)))"
proof -
  let ?q = "ref_addr (successor nd)"
  obtain m c where pred: "t_get_predecessor ?q s = (Inr (predecessor nq), later m c s)"
    unfolding rpc_defs by (rule rpc_read_node [OF lossy nodes(2) refl])
  let ?s1 = "set_node me (set_successor x nd) (later m c s)"
  obtain m' c' where ntf: "t_notify (ref_addr x) (self_ref nd) ?s1
      = (Inr (), set_node (ref_addr x) (notify (self_ref nd) nx) (later m' c' ?s1))"
    unfolding rpc_defs
    by (rule rpc_on_node [of ?s1 "ref_addr x" nx "\<lambda>nd'. (Ok (), notify (self_ref nd) nd')" "()"
          "notify (self_ref nd) nx"])
      (use lossy nx in auto)
  have "stabilize me s = (Inr (), set_node (ref_addr x) (notify (self_ref nd) nx)
      (set_node me (set_successor x nd) (later (m + m') (c + c') s)))"
    using other nodes x fingers nx
    by (simp add: stabilize_def act_simps pred ntf later_set_node)
  then show thesis by (rule that)
qed

section \<open>Join\<close>

text \<open>The ring's view depends on its members only.\<close>

lemma stable_cong: "member A s = member B s' \<Longrightarrow> stable A s = stable B s'"
  by (simp add: stable_def well_placed_def refers_def ring_ids_def)

lemma responsible_cong: "member A s = member A s' \<Longrightarrow> responsible A s k r = responsible A s' k r"
  by (simp add: responsible_def refers_def ring_ids_def)

lemma member_outside: "a \<notin> A \<Longrightarrow> member A (set_node a nd s) = member A s"
  by (auto simp: member_set_node fun_eq_iff member_def)

lemma join_run:
  fixes s :: "'z net_scheme"
  assumes st: "stable A s" and lossy: "lossy s" and a: "a \<notin> A" "nodes s a = Some new"
    and new: "is_id (node_id new)" "node_id new \<notin> ring_ids A s" "fingers new \<noteq> []"
    and known: "member A s known nk" and fuel: "255 \<le> fuel"
  obtains m c q where "responsible A s (node_id new) q"
    "join fuel a (Some known) s =
       (Inr (), set_node a (set_successor q (new\<lparr>predecessor := None\<rparr>)) (later m c s))"
proof -
  let ?new = "new\<lparr>predecessor := None\<rparr>"
  let ?s1 = "set_node a ?new s"
  have mem: "member A (later m c ?s1) = member A s" for m c using a(1) by (simp add: member_outside)
  have st1: "stable A (later m c ?s1)" for m c using st stable_cong [OF mem] by simp
  have "node_id new \<noteq> node_id nk" using new(2) ring_idsI [OF known] by auto
  have look: "\<exists>r m' c'. find_successor fuel known (node_id new) (later m c ?s1)
        = (Inr r, later m' c' (later m c ?s1)) \<and> responsible A s (node_id new) r" for m c
  proof -
    have "cw (node_id nk) (node_id new) \<le> int fuel"
      using fuel cw_less [of "node_id nk" "node_id new"] by (simp add: ring_size_256)
    then show ?thesis
      using find_successor_by_distance [OF st1, of m c known nk "node_id new" fuel]
        lossy known mem new(1) \<open>node_id new \<noteq> node_id nk\<close> responsible_cong [OF mem] by (auto simp: member_outside a)
  qed
  let ?h = "h_find_successor (find_successor fuel) known (node_id new)"
  have "nodes ?s1 known \<noteq> None" using memberD [OF known] by auto
  then obtain m c where call: "rpc known ?h ?s1 = andthen (serve ?h) (\<lambda>r. lift (raise_for_status r)) (later m c ?s1)"
    using lossy by (elim rpc_lossy [of ?s1 known ?h, rotated]) (auto simp: lossy_def set_node_def)
  obtain q m' c' where q: "responsible A s (node_id new) q"
      "find_successor fuel known (node_id new) (later m c ?s1) = (Inr q, later m' c' (later m c ?s1))"
    using look by blast
  then have "serve ?h (later m c ?s1) = (Inr (Ok q), later (m + m') (c + c') ?s1)"
    by (intro serve_Inr) (simp add: h_find_successor_def act_simps)
  then have "t_find_successor fuel known (node_id new) ?s1 = (Inr q, later (m + m') (c + c') ?s1)"
    by (simp add: t_find_successor_def call act_simps raise_for_status_def)
  then have "join fuel a (Some known) s =
      (Inr (), set_node a (set_successor q ?new) (later (m + m') (c + c') s))"
    using a by (simp add: join_def act_simps later_set_node)
  with q show thesis by (intro that)
qed

text \<open>
  What makes the enlarged ring stable: the new node points at \<open>q\<close>, \<open>p\<close> points at the new node,
  and every other member is where it was.
\<close>

lemma stable_insert:
  fixes s s' :: "'z net_scheme"
  assumes st: "stable A s" and a: "a \<notin> A"
    and new: "nodes s' a = Some na" "address na = a" "is_id (node_id na)" "node_id na \<notin> ring_ids A s"
      "length (fingers na) = M" "ref_id (successor na) = q" "owner_of (ring_ids A s) (node_id na) q"
      "\<And>f. f \<in> set (fingers na) \<Longrightarrow> finger_ref f = self_ref na \<or> refers A s (finger_ref f)"
    and p: "member A s pa np" "nodes s' pa = Some np'" "address np' = pa" "node_id np' = node_id np"
      "next_of (ring_ids A s) (node_id np) q" "length (fingers np') = M" "successor np' = self_ref na"
      "\<And>f. f \<in> set (fingers np') \<Longrightarrow> finger_ref f = self_ref na \<or> refers A s (finger_ref f)"
    and rest: "\<And>b. b \<in> A \<Longrightarrow> b \<noteq> pa \<Longrightarrow> rel_option same_place (nodes s b) (nodes s' b)"
  shows "stable (insert a A) s'"
proof -
  let ?B = "insert a A" and ?S = "ring_ids A s" and ?n = "node_id na"
  have pA: "pa \<in> A" using p(1) by (simp add: member_def)
  have S: "ids_set ?S" using st by (simp add: stable_def)
  have old: "\<exists>nd. member A s b nd \<and> node_id nd = node_id nd' \<and> (b \<noteq> pa \<longrightarrow> same_place nd nd')"
    if "member ?B s' b nd'" "b \<noteq> a" for b nd'
  proof (cases "b = pa")
    case True
    then have "nd' = np'" using that p(2) by (simp add: member_def)
    with True p show ?thesis by auto
  next
    case False
    with that rest [of b] obtain nd where "nodes s b = Some nd" "same_place nd nd'"
      by (cases "nodes s b") (auto simp: member_def)
    with that show ?thesis by (auto simp: member_def same_place_def)
  qed
  have stays: "\<exists>nd'. member ?B s' b nd' \<and> node_id nd' = node_id nd" if "member A s b nd" for b nd
  proof (cases "b = pa")
    case True
    with that p have "nd = np" by (auto dest: member_inj)
    with True p pA show ?thesis by (auto simp: member_def)
  next
    case False
    with that rest [of b] show ?thesis
      by (cases "nodes s' b") (auto simp: member_def same_place_def)
  qed
  have mem_a: "member ?B s' a na" using new(1) by (simp add: member_def)
  have keep: "refers ?B s' r" if "refers A s r" for r
    using that stays unfolding refers_def by metis
  have keep_new: "refers ?B s' (self_ref na)" using mem_a new(2) by (auto simp: refers_def)
  have na_refers: "refers ?B s' (finger_ref f)" if "f \<in> set (fingers na)" for f
    using new(8) [OF that] keep keep_new by metis
  have np_refers: "refers ?B s' (finger_ref f)" if "f \<in> set (fingers np')" for f
    using p(8) [OF that] keep keep_new by metis
  have ids: "ring_ids ?B s' = insert ?n ?S"
  proof
    show "ring_ids ?B s' \<subseteq> insert ?n ?S"
    proof
      fix x assume "x \<in> ring_ids ?B s'"
      then obtain b nd' where b: "member ?B s' b nd'" "x = node_id nd'" by (auto simp: ring_ids_def)
      show "x \<in> insert ?n ?S"
      proof (cases "b = a")
        case True
        then show ?thesis using b new(1) by (simp add: member_def)
      next
        case False
        with b old [OF b(1)] ring_idsI show ?thesis by fastforce
      qed
    qed
    show "insert ?n ?S \<subseteq> ring_ids ?B s'"
    proof
      fix x assume "x \<in> insert ?n ?S"
      then consider (new) "x = ?n" | (old) b nd where "member A s b nd" "x = node_id nd"
        by (auto simp: ring_ids_def)
      then show "x \<in> ring_ids ?B s'"
        by cases (use mem_a stays in \<open>auto simp: ring_ids_def, metis\<close>)
    qed
  qed
  note ins = insert_between [OF S new(3,4) ring_idsI [OF p(1)] p(5) new(7)]
  have wp: "well_placed ?B s' b nd'" if b: "member ?B s' b nd'" for b nd'
  proof -
    consider "b = a" "nd' = na" | "b = pa" "nd' = np'" | "b \<noteq> a" "b \<noteq> pa"
      using b new(1) p(2) by (fastforce simp: member_def)
    then show ?thesis
    proof cases
      case 1
      then show ?thesis
        using new(2,5,6) na_refers ins(3) by (auto simp: well_placed_def ids)
    next
      case 2
      then show ?thesis
        using p(3,4,6,7) np_refers ins(2) by (auto simp: well_placed_def ids)
    next
      case 3
      then obtain nd where nd: "member A s b nd" "same_place nd nd'" using old [OF b] by auto
      have "node_id nd \<noteq> node_id np"
        using st nd(1) p(1) 3(2) unfolding stable_def by metis
      moreover have "well_placed A s b nd" using st nd(1) by (simp add: stable_def)
      ultimately show ?thesis
        using nd keep ins(6) [OF ring_idsI [OF nd(1)]]
        by (auto simp: well_placed_def ids same_place_def successor_def)
    qed
  qed
  have inj: "b = c" if b: "member ?B s' b nb" and c: "member ?B s' c nc" and eq: "node_id nb = node_id nc"
    for b c nb nc
  proof -
    have out: "node_id nd \<noteq> ?n" if m: "member ?B s' d nd" "d \<noteq> a" for d nd
      using old [OF m] new(4) ring_idsI by metis
    consider "b = a" "c = a" | "b = a" "c \<noteq> a" | "b \<noteq> a" "c = a" | "b \<noteq> a" "c \<noteq> a" by blast
    then show ?thesis
    proof cases
      case 4
      with old [OF b] old [OF c] eq st show ?thesis unfolding stable_def by metis
    qed (use b c eq out new(1) in \<open>auto simp: member_def\<close>)
  qed
  have "ids_set (insert ?n ?S)" using S new(3) by (simp add: ids_set_def)
  with wp inj show ?thesis by (auto simp: stable_def ids)
qed

text \<open>
  Exact predecessors: the pointer names the node whose successor this node is, and is unset
  only in a ring of one.
\<close>

definition preds_exact :: "string set \<Rightarrow> 'z net_scheme \<Rightarrow> bool" where
  "preds_exact A s \<longleftrightarrow> (\<forall>a nd. member A s a nd \<longrightarrow>
     (case predecessor nd of
        None \<Rightarrow> ref_id (successor nd) = node_id nd
      | Some p \<Rightarrow> refers A s p \<and> next_of (ring_ids A s) (ref_id p) (node_id nd)))"

lemma preds_exactD:
  assumes "preds_exact A s" and "member A s a nd" and "predecessor nd = Some p"
  shows "refers A s p \<and> next_of (ring_ids A s) (ref_id p) (node_id nd)"
proof -
  from assms(1,2) have "case predecessor nd of None \<Rightarrow> ref_id (successor nd) = node_id nd
      | Some p \<Rightarrow> refers A s p \<and> next_of (ring_ids A s) (ref_id p) (node_id nd)"
    unfolding preds_exact_def by blast
  with assms(3) show ?thesis by simp
qed

lemma preds_exact_None:
  assumes "preds_exact A s" and "member A s a nd" and "predecessor nd = None"
  shows "ref_id (successor nd) = node_id nd"
proof -
  from assms(1,2) have "case predecessor nd of None \<Rightarrow> ref_id (successor nd) = node_id nd
      | Some p \<Rightarrow> refers A s p \<and> next_of (ring_ids A s) (ref_id p) (node_id nd)"
    unfolding preds_exact_def by blast
  with assms(3) show ?thesis by simp
qed

text \<open>The node a process starts as.\<close>

definition fresh_node :: "string \<Rightarrow> chord_node \<Rightarrow> bool" where
  "fresh_node a nd \<longleftrightarrow> address nd = a \<and> is_id (node_id nd) \<and> fingers nd = init_fingers (node_id nd) a"

lemma fresh_init_node: "fresh_node a (init_node a None per wr file)"
  by (auto simp: fresh_node_def init_node_def load_from_disk_def Let_def split: disk_file.split)

lemma set_successor_fingers:
  assumes "f \<in> set (fingers (set_successor r nd))"
  shows "finger_ref f = r \<or> f \<in> set (fingers nd)"
proof -
  have "f \<in> insert (((fingers nd) ! 0)\<lparr>finger_id := ref_id r, finger_addr := ref_addr r\<rparr>) (set (fingers nd))"
    using assms set_update_subset_insert by (fastforce simp: set_successor_def set_finger_def)
  then show ?thesis by (auto simp: finger_ref_def)
qed

lemma fingers_set_successor_pred:
  "fingers (set_successor r (nd\<lparr>predecessor := x\<rparr>)) = fingers (set_successor r nd)"
  by (simp add: set_successor_def set_finger_def)

lemma self_ref_updates [simp]:
  "self_ref (set_successor r nd) = self_ref nd" "self_ref (notify c nd) = self_ref nd"
  "self_ref (nd\<lparr>predecessor := x\<rparr>) = self_ref nd"
  by (simp_all add: self_ref_def)

lemma fresh_fingers: "fresh_node a nd \<Longrightarrow> f \<in> set (fingers nd) \<Longrightarrow> finger_ref f = self_ref nd"
  by (auto simp: fresh_node_def init_fingers_def finger_ref_def self_ref_def)

text \<open>
  A fresh process \<open>new\<close> at \<open>a\<close> outside a stable ring \<open>A\<close>; \<open>np\<close> at \<open>pa\<close> is the member in whose gap its
  identifier falls.
\<close>

definition joining :: "string set \<Rightarrow> 'z net_scheme \<Rightarrow> string \<Rightarrow> chord_node \<Rightarrow> string \<Rightarrow> chord_node \<Rightarrow> bool" where
  "joining A s a new pa np \<longleftrightarrow>
     stable A s \<and> lossy s \<and> preds_exact A s \<and> a \<notin> A \<and> fresh_node a new \<and> node_id new \<notin> ring_ids A s \<and>
     member A s pa np \<and> owner_of (ring_ids A s) (node_id new) (ref_id (successor np))"

lemma joining_facts:
  assumes "joining A s a new pa np"
  shows "stable A s" "lossy s" "preds_exact A s" "a \<notin> A" "member A s pa np" "node_id new \<notin> ring_ids A s"
    "owner_of (ring_ids A s) (node_id new) (ref_id (successor np))" "pa \<noteq> a"
    "is_id (node_id new)" "address new = a" "length (fingers new) = M" "fingers new \<noteq> []"
    "\<And>f. f \<in> set (fingers new) \<Longrightarrow> finger_ref f = self_ref new" "responsible A s (node_id new) (successor np)"
proof -
  show st: "stable A s" and "lossy s" and "preds_exact A s" and a: "a \<notin> A" and p: "member A s pa np"
    and "node_id new \<notin> ring_ids A s" and own: "owner_of (ring_ids A s) (node_id new) (ref_id (successor np))"
    using assms by (simp_all add: joining_def)
  show "pa \<noteq> a" using p a by (auto simp: member_def)
  show "is_id (node_id new)" "address new = a" "length (fingers new) = M" "fingers new \<noteq> []"
    using assms by (auto simp: joining_def fresh_node_def) (metis length_init_fingers list.size(3) M_pos(2))
  show "\<And>f. f \<in> set (fingers new) \<Longrightarrow> finger_ref f = self_ref new"
    using assms by (auto simp: joining_def intro: fresh_fingers)
  show "responsible A s (node_id new) (successor np)"
    using own stable_node(6) [OF st p] by (simp add: responsible_def)
qed

lemma joining_gap:
  assumes "joining A s a new pa np"
  shows "x \<in> ring_ids A s \<Longrightarrow> \<not> in_range x (node_id new) (ref_id (successor np)) False"
    "in_range (node_id new) (node_id np) (ref_id (successor np)) False"
proof -
  note j = joining_facts [OF assms]
  have "ids_set (ring_ids A s)" using j(1) by (simp add: stable_def)
  note ins = insert_between [OF this j(9,6) ring_idsI [OF j(5)] stable_node(7) [OF j(1,5)] j(7)]
  show "x \<in> ring_ids A s \<Longrightarrow> \<not> in_range x (node_id new) (ref_id (successor np)) False"
    "in_range (node_id new) (node_id np) (ref_id (successor np)) False" by (fact ins(4), fact ins(5))
qed

text \<open>The node \<open>nq\<close> after the gap, whose predecessor, if it knows one, is the node before the gap.\<close>

lemma joining_next:
  assumes "joining A s a new pa np"
  obtains nq where "member A s (ref_addr (successor np)) nq" "node_id nq = ref_id (successor np)"
    "ref_addr (successor np) \<noteq> a" "ref_id (successor np) \<noteq> node_id new"
    "\<forall>x. predecessor nq = Some x \<longrightarrow> ref_id x = node_id np"
proof -
  note j = joining_facts [OF assms]
  have q: "refers A s (successor np)" by (rule stable_node(6) [OF j(1,5)])
  then obtain nq where nq: "member A s (ref_addr (successor np)) nq" "node_id nq = ref_id (successor np)"
    by (auto simp: refers_def)
  have "ref_id x = node_id np" if "predecessor nq = Some x" for x
  proof -
    have x: "refers A s x" "next_of (ring_ids A s) (ref_id x) (ref_id (successor np))"
      using preds_exactD [OF j(3) nq(1) that] nq(2) by simp_all
    have "ids_set (ring_ids A s)" using j(1) by (simp add: stable_def)
    from next_of_inj [OF this refers_ring_ids [OF x(1)] ring_idsI [OF j(5)] x(2) stable_node(7) [OF j(1,5)]] show ?thesis .
  qed
  moreover have "ref_addr (successor np) \<noteq> a" using nq(1) j(4) by (auto simp: member_def)
  moreover have "ref_id (successor np) \<noteq> node_id new" using refers_ring_ids [OF q] j(6) by metis
  ultimately show thesis using nq by (intro that) auto
qed

text \<open>The state after the new node has joined and stabilized: it knows its successor, which knows it.\<close>

definition settled :: "string \<Rightarrow> chord_node \<Rightarrow> nref \<Rightarrow> chord_node \<Rightarrow> 'z net_scheme \<Rightarrow> 'z net_scheme" where
  "settled a new q nq s =
     set_node (ref_addr q) (nq\<lparr>predecessor := Some (self_ref new)\<rparr>) (set_node a (set_successor q (new\<lparr>predecessor := None\<rparr>)) s)"

lemma join_settles:
  fixes s :: "'z net_scheme"
  assumes join: "joining A s a new pa np" and new: "nodes s a = Some new" and known: "member A s known nk" and fuel: "255 \<le> fuel"
    and nq: "member A s (ref_addr (successor np)) nq" "node_id nq = ref_id (successor np)" "ref_addr (successor np) \<noteq> a"
      "ref_id (successor np) \<noteq> node_id new" "\<forall>x. predecessor nq = Some x \<longrightarrow> ref_id x = node_id np"
  obtains m c where "andthen (join fuel a (Some known)) (\<lambda>_. stabilize a) s = (Inr (), settled a new (successor np) nq (later m c s))"
proof -
  note j = joining_facts [OF join]
  let ?q = "successor np" and ?na = "set_successor (successor np) (new\<lparr>predecessor := None\<rparr>)"
  obtain m c q where q: "responsible A s (node_id new) q"
    and run: "join fuel a (Some known) s = (Inr (), set_node a (set_successor q (new\<lparr>predecessor := None\<rparr>)) (later m c s))"
    by (rule join_run [OF j(1,2,4) new j(9,6,12) known fuel])
  have "q = ?q" by (rule responsible_unique [OF j(1,9) q j(14)])
  let ?s1 = "set_node a ?na (later m c s)"
  have na: "successor ?na = ?q" "node_id ?na = node_id new" "self_ref ?na = self_ref new"
    using j(12) by (simp_all add: self_ref_def)
  obtain m2 c2 where stab: "stabilize a ?s1 = (Inr (), set_node (ref_addr ?q) (notify (self_ref new) nq) (later m2 c2 ?s1))"
  proof (rule stabilize_keep [of ?s1 a ?na nq])
    show "\<not> in_range (ref_id x) (node_id ?na) (ref_id (successor ?na)) False" if "predecessor nq = Some x" for x
      using joining_gap(1) [OF join ring_idsI [OF j(5)]] nq(5) that na by simp
  qed (use j(2) nq(1,3,4) na in \<open>auto dest: memberD\<close>)
  have "notify (self_ref new) nq = nq\<lparr>predecessor := Some (self_ref new)\<rparr>"
    using joining_gap(2) [OF join] nq(2,5) by (cases "predecessor nq") (simp_all add: notify_def)
  with run stab \<open>q = ?q\<close> show thesis
    by (intro that [of "m + m2" "c + c2"]) (simp add: act_simps settled_def later_set_node)
qed

text \<open>What the node before the gap then knows, whether it is alone or not.\<close>

lemma settled_fingers:
  assumes "joining A s a new pa np"
  shows "f \<in> set (fingers (set_successor (successor np) (new\<lparr>predecessor := None\<rparr>))) \<Longrightarrow> finger_ref f = self_ref new \<or> refers A s (finger_ref f)"
    "f \<in> set (fingers (set_successor (self_ref new) np)) \<Longrightarrow> finger_ref f = self_ref new \<or> refers A s (finger_ref f)"
proof -
  note j = joining_facts [OF assms]
  show "finger_ref f = self_ref new \<or> refers A s (finger_ref f)"
    if "f \<in> set (fingers (set_successor (successor np) (new\<lparr>predecessor := None\<rparr>)))"
    using set_successor_fingers [OF that] j(13) stable_node(6) [OF j(1,5)] by auto
  show "finger_ref f = self_ref new \<or> refers A s (finger_ref f)"
    if "f \<in> set (fingers (set_successor (self_ref new) np))"
    using set_successor_fingers [OF that] stable_node(5) [OF j(1,5)] by auto
qed

lemma settled_stabilizes:
  fixes s :: "'z net_scheme"
  assumes join: "joining A s a new pa np"
    and nq: "member A s (ref_addr (successor np)) nq" "node_id nq = ref_id (successor np)" "ref_addr (successor np) \<noteq> a"
  shows "\<exists>s'. stabilize pa (settled a new (successor np) nq (later m c s)) = (Inr (), s') \<and> stable (insert a A) s'"
proof -
  note j = joining_facts [OF join] and f = settled_fingers [OF join]
  note n = stable_node [OF j(1,5)]
  let ?q = "successor np" and ?na = "set_successor (successor np) (new\<lparr>predecessor := None\<rparr>)"
  let ?s2 = "settled a new ?q nq (later m c s)"
  show ?thesis
  proof (cases "ref_addr ?q = pa")
    case True
    then have same: "nq = np" "ref_id ?q = node_id np" using nq j(5) by (auto dest: member_inj)
    let ?np = "set_successor (self_ref new) (np\<lparr>predecessor := Some (self_ref new)\<rparr>)"
    have "node_id new \<noteq> node_id np" using ring_idsI [OF j(5)] j(6) by auto
    then have "stabilize pa ?s2 = (Inr (), set_node pa ?np ?s2)"
      using True same nq by (simp add: stabilize_def act_simps successor_def settled_def)
    moreover have "stable (insert a A) (set_node pa ?np ?s2)"
      using j f n True same nq
      by (intro stable_insert [of A s a _ ?na "ref_id ?q" pa np ?np])
        (auto simp: option.rel_refl same_place_def fingers_set_successor_pred settled_def self_ref_def)
    ultimately show ?thesis by blast
  next
    case False
    have other: "ref_id ?q \<noteq> node_id np" using False nq j(1,5) unfolding stable_def by metis
    let ?nq = "nq\<lparr>predecessor := Some (self_ref new)\<rparr>" and ?np = "set_successor (self_ref new) np"
    have s2: "nodes ?s2 pa = Some np" "nodes ?s2 (ref_addr ?q) = Some ?nq" "nodes ?s2 a = Some ?na" "lossy ?s2"
      using False nq(3) j(2,8) memberD(1) [OF j(5)] by (auto simp: settled_def)
    obtain m3 c3 where run: "stabilize pa ?s2 =
        (Inr (), set_node a (notify (self_ref np) ?na) (set_node pa ?np (later m3 c3 ?s2)))"
      using stabilize_adopt [of ?s2 pa np ?nq "self_ref new" ?na] s2 other n joining_gap(2) [OF join] j(8,10)
      by (auto simp: self_ref_def)
    have "stable (insert a A) (set_node a (notify (self_ref np) ?na) (set_node pa ?np (later m3 c3 ?s2)))"
      using j f n False nq memberD(1) [OF nq(1)]
      by (intro stable_insert [of A s a _ "notify (self_ref np) ?na" "ref_id ?q" pa np ?np])
        (auto simp: option.rel_refl same_place_def fingers_set_successor_pred settled_def self_ref_def)
    with run show ?thesis by blast
  qed
qed

text \<open>
  C2. Join followed by two stabilizations: a fresh process whose identifier is new calls
  \<open>join\<close> through any member of a stable ring whose predecessor pointers are exact as well (each
  names the member just before, so none is stale or dead), then stabilizes, then the member before
  it stabilizes. On a network that loses requests the three end without an exception and the
  enlarged ring is stable: every successor pointer is exact again.
\<close>

theorem join_stabilize_stable:
  fixes s :: "'z net_scheme"
  assumes st: "stable A s" and lossy: "lossy s" and exact: "preds_exact A s"
    and a: "a \<notin> A" "nodes s a = Some new" and fresh: "fresh_node a new"
    and id: "node_id new \<notin> ring_ids A s"
    and known: "member A s known nk" and fuel: "255 \<le> fuel"
    and p: "member A s pa np" and own: "owner_of (ring_ids A s) (node_id new) (ref_id (successor np))"
  shows "\<exists>s'. andthen (join fuel a (Some known)) (\<lambda>_. andthen (stabilize a) (\<lambda>_. stabilize pa)) s
           = (Inr (), s') \<and> stable (insert a A) s'"
proof -
  have join: "joining A s a new pa np" using assms by (simp add: joining_def)
  obtain nq where nq: "member A s (ref_addr (successor np)) nq" "node_id nq = ref_id (successor np)"
    "ref_addr (successor np) \<noteq> a" "ref_id (successor np) \<noteq> node_id new"
    "\<forall>x. predecessor nq = Some x \<longrightarrow> ref_id x = node_id np"
    by (rule joining_next [OF join])
  obtain m c where "andthen (join fuel a (Some known)) (\<lambda>_. stabilize a) s = (Inr (), settled a new (successor np) nq (later m c s))"
    by (rule join_settles [OF join a(2) known fuel nq])
  with settled_stabilizes [OF join nq(1-3)] show ?thesis
    by (auto simp: andthen_def split: prod.splits sum.splits)
qed

text \<open>Node 50 about to join the ring of 10 and 100.\<close>

definition demo50 :: chord_node where
  "demo50 = (demo_node ''c'' 50 None [] [])\<lparr>fingers := init_fingers 50 ''c''\<rparr>"

definition demo_join :: net where
  "demo_join = set_node ''c'' demo50 demo_net"

lemma demo_join_member: "member {''a'', ''b''} demo_join = member UNIV demo_net"
  by (auto simp: fun_eq_iff member_def demo_join_def set_node_def demo_net_def)

theorem join_stabilize_stable_witness:
  "\<exists>s'. andthen (join 255 ''c'' (Some ''b'')) (\<lambda>_. andthen (stabilize ''c'') (\<lambda>_. stabilize ''a'')) demo_join
     = (Inr (), s') \<and> stable {''a'', ''b'', ''c''} s'"
proof -
  have A: "insert ''c'' {''a'', ''b''} = {''a'', ''b'', ''c''}" by auto
  have ids: "ring_ids {''a'', ''b''} demo_join = {10, 100}"
    using demo_net_ids by (simp add: ring_ids_def demo_join_member)
  have st: "stable {''a'', ''b''} demo_join"
    using demo_net_stable stable_cong [OF demo_join_member] by simp
  have exact: "preds_exact {''a'', ''b''} demo_join"
    unfolding preds_exact_def refers_def demo_join_member demo_net_nodes ids
    by (auto simp: demo10_def demo100_def demo_refs next_of_def cw_def ring_size_256)
  have fresh: "fresh_node ''c'' demo50" "node_id demo50 = 50"
    by (simp_all add: fresh_node_def demo50_def is_id_def ring_size_256)
  have c: "nodes demo_join ''c'' = Some demo50" "lossy demo_join"
    using demo_net_lossy by (simp_all add: demo_join_def)
  show ?thesis
    unfolding A [symmetric]
    by (rule join_stabilize_stable [of _ _ "''c''" demo50 "''b''" demo100 255 "''a''" demo10])
      (use st exact fresh c in \<open>simp_all add: demo_join_member demo_net_nodes ids
        demo_net_successors owner_of_def dist_def ring_size_256 demo_refs\<close>)
qed

section \<open>Leave\<close>

lemma next_of_remove:
  assumes "ids_set S" and "p \<in> S" and "n \<in> S" and "next_of S p n" and "next_of S n q" and "q \<noteq> n"
  shows "next_of (S - {n}) p q"
proof -
  have ids: "is_id x" if "x \<in> S" for x using that assms(1) by (simp add: ids_set_def)
  have q: "q \<in> S" using assms(5) by (rule next_ofD)
  have "cw p q \<le> cw p x" if x: "x \<in> S" "x \<noteq> n" for x
  proof -
    have "cw p n \<le> cw p x" "cw n q \<le> cw n x" "cw n q \<le> cw n p" "cw p n \<le> cw p q"
      using assms q x by (auto dest: next_ofD)
    then show ?thesis
      using ids [OF assms(2)] ids [OF assms(3)] ids [OF q] ids [OF x(1)] x(2) assms(6)
      by (auto simp: cw_eq is_id_def split: if_splits)
  qed
  with q assms(6) show ?thesis by (simp add: next_of_def)
qed

lemma ignoring_Inr: "m s = (Inr (), s') \<Longrightarrow> ignoring m s = (Inr (), s')"
  by (simp add: ignoring_def catch_Inr)

lemma bulk_put_sel [simp]:
  "address (bulk_put d nd) = address nd" "node_id (bulk_put d nd) = node_id nd"
  "predecessor (bulk_put d nd) = predecessor nd" "fingers (bulk_put d nd) = fingers nd"
  "data_store (bulk_put d nd) = dupdate (data_store nd) d"
  by (simp_all add: bulk_put_def)

lemma dupdate_Nil [simp]: "dupdate d [] = d"
  by (simp add: dupdate_def)

text \<open>The node the data goes to.\<close>

definition hand_over :: "jdict \<Rightarrow> chord_node \<Rightarrow> chord_node" where
  "hand_over d nd = (if d \<noteq> [] then bulk_put d nd else nd)"

lemma hand_over_sel [simp]:
  "address (hand_over d nd) = address nd" "node_id (hand_over d nd) = node_id nd"
  "fingers (hand_over d nd) = fingers nd" "data_store (hand_over d nd) = dupdate (data_store nd) d"
  by (simp_all add: hand_over_def)

lemma leave_run:
  fixes s :: "'z net_scheme"
  assumes lossy: "lossy s" and nd: "nodes s me = Some nd" "successor nd = q" "predecessor nd = Some p"
    and q: "ref_id q \<noteq> node_id nd" "nodes s (ref_addr q) = Some nq"
    and p: "nodes s (ref_addr p) = Some np"
  obtains m c s1 np' where "leave me s = (Inr (), set_node (ref_addr p) (set_successor q np') s1)"
    "s1 = set_node (ref_addr q) ((hand_over (data_store nd) nq)\<lparr>predecessor := Some p\<rparr>) (later m c s)"
    "nodes s1 (ref_addr p) = Some np'"
proof -
  let ?d = "data_store nd" and ?q = "ref_addr q"
  obtain m c where put: "(if ?d \<noteq> [] then ignoring (t_bulk_put ?q ?d) else ret ()) s =
      (Inr (), set_node ?q (hand_over ?d nq) (later m c s))"
  proof (cases "?d = []")
    case True
    then show thesis using q by (intro that [of 0 0]) (simp add: act_simps hand_over_def)
  next
    case False
    obtain m c where "t_bulk_put ?q ?d s = (Inr (), set_node ?q (bulk_put ?d nq) (later m c s))"
      unfolding rpc_defs
      by (rule rpc_on_node [OF lossy q(2), of "\<lambda>nd'. (Ok (), bulk_put ?d nd')" "()" "bulk_put ?d nq"]) auto
    then show thesis using False by (intro that [of m c]) (simp add: ignoring_Inr hand_over_def)
  qed
  let ?s1 = "set_node ?q (hand_over ?d nq) (later m c s)"
  let ?nq = "(hand_over ?d nq)\<lparr>predecessor := Some p\<rparr>"
  obtain m' c' where "t_update_predecessor ?q p ?s1 = (Inr (), set_node ?q ?nq (later m' c' ?s1))"
    unfolding rpc_defs
    by (rule rpc_on_node [of ?s1 ?q "hand_over ?d nq" "\<lambda>nd'. (Ok (), nd'\<lparr>predecessor := Some p\<rparr>)" "()" ?nq])
      (use lossy in auto)
  then have upd: "ignoring (t_update_predecessor ?q p) ?s1 = (Inr (), set_node ?q ?nq (later (m + m') (c + c') s))"
    by (simp add: ignoring_Inr later_set_node)
  let ?s2 = "set_node ?q ?nq (later (m + m') (c + c') s)"
  obtain np' where np': "nodes ?s2 (ref_addr p) = Some np'"
    using p by (cases "ref_addr p = ?q") auto
  obtain m2 c2 where "t_update_successor (ref_addr p) q ?s2
      = (Inr (), set_node (ref_addr p) (set_successor q np') (later m2 c2 ?s2))"
    unfolding rpc_defs
    by (rule rpc_on_node [OF _ np', of "\<lambda>nd'. (Ok (), set_successor q nd')" "()" "set_successor q np'"])
      (use lossy in auto)
  then have upd2: "ignoring (t_update_successor (ref_addr p) q) ?s2
      = (Inr (), set_node (ref_addr p) (set_successor q np') (later m2 c2 ?s2))"
    by (simp add: ignoring_Inr)
  have run: "leave me s = (Inr (), set_node (ref_addr p) (set_successor q np') (later m2 c2 ?s2))"
    using nd q(1) by (simp add: leave_def act_simps put upd upd2)
  show thesis
  proof (rule that [of np' "later m2 c2 ?s2" "m + m' + m2" "c + c' + c2"])
    show "nodes (later m2 c2 ?s2) (ref_addr p) = Some np'" using np' by simp
  qed (use run in \<open>simp_all add: later_set_node\<close>)
qed

text \<open>The node before a member that is not alone.\<close>

lemma before_leaver:
  assumes st: "stable A s" and exact: "preds_exact A s" and me: "member A s me nd" and other: "ref_id (successor nd) \<noteq> node_id nd"
  obtains p np where "predecessor nd = Some p" "refers A s p" "next_of (ring_ids A s) (ref_id p) (node_id nd)"
    "member A s (ref_addr p) np" "node_id np = ref_id p"
proof -
  obtain p where pred: "predecessor nd = Some p"
    using preds_exact_None [OF exact me] other by (cases "predecessor nd") auto
  have p: "refers A s p" "next_of (ring_ids A s) (ref_id p) (node_id nd)"
    using preds_exactD [OF exact me pred] by auto
  then obtain np where "member A s (ref_addr p) np" "node_id np = ref_id p" by (auto simp: refers_def)
  with pred p show thesis by (rule that)
qed

text \<open>After the messages of a member that leaves, the successors of the others close its gap.\<close>

lemma gap_closed:
  fixes s :: "'z net_scheme"
  assumes st: "stable A s" and me: "member A s me nd" and other: "ref_id (successor nd) \<noteq> node_id nd"
    and q: "member A s (ref_addr (successor nd)) nq"
    and p: "refers A s p" "next_of (ring_ids A s) (ref_id p) (node_id nd)" "member A s (ref_addr p) np" "node_id np = ref_id p"
    and s1: "s1 = set_node (ref_addr (successor nd)) ((hand_over d nq)\<lparr>predecessor := Some p\<rparr>) (later m c s)"
      "nodes s1 (ref_addr p) = Some np'"
    and b: "member (A - {me}) (set_node (ref_addr p) (set_successor (successor nd) np') s1) b nb"
  shows "next_of (ring_ids A s - {node_id nd}) (node_id nb) (ref_id (successor nb))"
proof -
  have S: "ids_set (ring_ids A s)" using st by (simp add: stable_def)
  show ?thesis
  proof (cases "b = ref_addr p")
    case True
    have "node_id np' = ref_id p \<and> fingers np' = fingers np"
      using s1 q p(3,4) memberD(1) [OF p(3)] by (cases "ref_addr p = ref_addr (successor nd)") (auto dest: member_inj)
    moreover have "nb = set_successor (successor nd) np'" using b True by (simp add: member_def)
    ultimately have "successor nb = successor nd" "node_id nb = ref_id p"
      using stable_node(4) [OF st p(3)] by simp_all
    then show ?thesis
      using next_of_remove [OF S refers_ring_ids [OF p(1)] ring_idsI [OF me] p(2) stable_node(7) [OF st me] other] by simp
  next
    case False
    then obtain nb0 where nb0: "member A s b nb0" "node_id nb = node_id nb0" "successor nb = successor nb0"
      using b s1(1) q by (cases "b = ref_addr (successor nd)") (fastforce simp: member_def successor_def)+
    note nxt = stable_node(7) [OF st nb0(1)]
    have "node_id nb0 \<noteq> node_id np" using st nb0(1) p(3) False unfolding stable_def by metis
    then have "ref_id (successor nb0) \<noteq> node_id nd"
      using next_of_inj [OF S ring_idsI [OF nb0(1)] refers_ring_ids [OF p(1)], of "node_id nd"] nxt p(2,4) by metis
    with nxt nb0 show ?thesis by (simp add: next_of_def)
  qed
qed


lemma demo_net_preds: "preds_exact UNIV demo_net"
  unfolding preds_exact_def refers_def demo_net_nodes demo_net_ids
  by (auto simp: demo10_def demo100_def demo_refs next_of_def cw_def ring_size_256)


section \<open>Refreshing fingers\<close>

text \<open>The start points of a node's table.\<close>

definition starts_exact :: "chord_node \<Rightarrow> bool" where
  "starts_exact nd \<longleftrightarrow> (\<forall>i < M. start (fingers nd ! i) = (node_id nd + 2 ^ i) mod ring_size)"

lemma starts_exact_init: "fingers nd = init_fingers (node_id nd) a \<Longrightarrow> starts_exact nd"
  by (simp add: starts_exact_def nth_init_fingers ring_size_def)

lemma starts_exact_set_finger:
  "starts_exact nd \<Longrightarrow> length (fingers nd) = M \<Longrightarrow> starts_exact (set_finger i r nd)"
  unfolding starts_exact_def set_finger_def
  by (cases "i < M") (auto simp: nth_list_update)

lemma start_not_self: "is_id n \<Longrightarrow> i < M \<Longrightarrow> (n + 2 ^ i) mod ring_size \<noteq> n"
proof
  assume "is_id n" "i < M" and eq: "(n + 2 ^ i) mod ring_size = n"
  then have "dist ((n + 2 ^ i) mod ring_size) n = ring_size - 2 ^ i"
    using dist_start [of n n i] by simp
  then have "ring_size = 2 ^ i" unfolding eq by simp
  with power_less_ring [OF \<open>i < M\<close>] show False by simp
qed

lemma stable_set_finger:
  assumes st: "stable A s" and me: "member A s me nd" and r: "refers A s r" and i: "0 < i"
  shows "stable A (set_node me (set_finger i r nd) s)"
proof -
  let ?s = "set_node me (set_finger i r nd) s"
  note n = stable_node [OF st me]
  note ring = ring_ids_set_node [OF me, of "set_finger i r nd"] refers_set_node [OF me, of "set_finger i r nd"]
  have succ: "successor (set_finger i r nd) = successor nd"
    using i n(4) by (cases "fingers nd"; cases i) (simp_all add: successor_def set_finger_def)
  have refs: "refers A s (finger_ref f)" if "f \<in> set (fingers (set_finger i r nd))" for f
  proof -
    have "f \<in> insert (((fingers nd) ! i)\<lparr>finger_id := ref_id r, finger_addr := ref_addr r\<rparr>) (set (fingers nd))"
      using that set_update_subset_insert by (fastforce simp: set_finger_def)
    then have "finger_ref f = r \<or> f \<in> set (fingers nd)" by (auto simp: finger_ref_def)
    then show ?thesis using n(5) r by auto
  qed
  have "well_placed A s me nd" using st me by (simp add: stable_def)
  then have "well_placed A ?s b nb" if "member A ?s b nb" for b nb
    using that st refs by (auto simp: well_placed_def ring stable_def member_set_node succ split: if_splits)
  moreover have "b = c" if "member A ?s b nb" "member A ?s c nc" "node_id nb = node_id nc" for b c nb nc
    using that st me unfolding stable_def member_set_node
    by (metis set_finger_sel(2))
  ultimately show ?thesis using st by (auto simp: stable_def ring)
qed

text \<open>
  C10. \<open>fix_fingers\<close> on finger \<open>i \<ge> 1\<close> of a member of a stable ring: it ends without an
  exception, the finger then names the node responsible for its start point, and the ring is
  still stable.
\<close>

theorem fix_fingers_correct:
  fixes s :: "'z net_scheme"
  assumes st: "stable A s" and lossy: "lossy s" and me: "member A s me nd" and starts: "starts_exact nd"
    and i: "0 < i" "i < M" and fuel: "255 \<le> fuel"
  shows "\<exists>s' r. fix_fingers fuel i me s = (Inr (), s') \<and> nodes s' = (nodes s)(me \<mapsto> set_finger i r nd) \<and>
     responsible A s ((node_id nd + 2 ^ i) mod ring_size) r \<and> stable A s' \<and> lossy s'"
proof -
  let ?t = "(node_id nd + 2 ^ i) mod ring_size"
  note n = stable_node [OF st me]
  have target: "start (fingers nd ! i) = ?t" using starts i(2) by (simp add: starts_exact_def)
  have "?t \<noteq> node_id nd" using start_not_self n(1) i(2) by simp
  moreover have "cw (node_id nd) ?t \<le> int fuel"
    using fuel cw_less [of "node_id nd" ?t] by (simp add: ring_size_256)
  ultimately obtain r m c where r: "responsible A s ?t r"
    and run: "find_successor fuel me ?t s = (Inr r, later m c s)"
    using find_successor_by_distance [OF st lossy me, of ?t fuel] by auto
  have "fix_fingers fuel i me s = (Inr (), set_node me (set_finger i r nd) (later m c s))"
    using memberD(1) [OF me] run by (simp add: fix_fingers_def act_simps target)
  moreover have "stable A (set_node me (set_finger i r nd) (later m c s))"
    using r st me i(1) by (intro stable_set_finger) (auto simp: responsible_def)
  ultimately show ?thesis using r lossy by force
qed

lemma demo10_starts: "starts_exact demo10"
  by (auto simp: starts_exact_def less_M_cases demo10_def demo_fingers_def upt_M ring_size_def M_def)

theorem fix_fingers_correct_witness:
  "\<exists>s' r. fix_fingers 255 3 ''a'' demo_net = (Inr (), s') \<and>
     nodes s' = (nodes demo_net)(''a'' \<mapsto> set_finger 3 r demo10) \<and>
     responsible UNIV demo_net ((node_id demo10 + 2 ^ 3) mod ring_size) r \<and> stable UNIV s' \<and> lossy s'"
  by (rule fix_fingers_correct)
    (simp_all add: demo_net_stable demo_net_lossy demo_net_nodes demo10_starts M_def)

section \<open>The predecessor check\<close>

lemma check_unreachable:
  assumes "nodes s me = Some nd" and "predecessor nd = Some p" and "unreachable s (ref_addr p)"
  shows "check_predecessor me s = (Inr (), set_node me
     (if pred_fail_count nd = 0 then nd\<lparr>pred_fail_count := 1\<rparr>
      else nd\<lparr>predecessor := None, pred_fail_count := 0\<rparr>) (later 4 700000 s))"
proof -
  obtain msg where "t_ping (ref_addr p) s = (Inl (RequestException msg), later 4 700000 s)"
    using rpc_unreachable [OF assms(3)] by (auto simp: t_ping_def)
  with assms show ?thesis by (simp add: check_predecessor_def act_simps clear_predecessor_def)
qed

text \<open>
  The check of a predecessor that no attempt reaches, run twice: the first failure is only
  counted, the second in a row clears the pointer and the counter; neither run raises.
\<close>

theorem check_predecessor_dead:
  assumes "nodes s me = Some nd" and "predecessor nd = Some p" and "pred_fail_count nd = 0"
    and "unreachable s (ref_addr p)" and "unreachable (later 4 700000 s) (ref_addr p)" and "ref_addr p \<noteq> me"
  shows "check_predecessor me s = (Inr (), set_node me (nd\<lparr>pred_fail_count := 1\<rparr>) (later 4 700000 s)) \<and>
     andthen (check_predecessor me) (\<lambda>_. check_predecessor me) s =
       (Inr (), set_node me (nd\<lparr>predecessor := None, pred_fail_count := 0\<rparr>) (later 8 1400000 s))"
proof -
  have one: "check_predecessor me s = (Inr (), set_node me (nd\<lparr>pred_fail_count := 1\<rparr>) (later 4 700000 s))"
    using check_unreachable [OF assms(1,2,4)] assms(3) by simp
  have "unreachable (set_node me (nd\<lparr>pred_fail_count := 1\<rparr>) (later 4 700000 s)) (ref_addr p)"
    using assms(5,6) by (simp add: unreachable_def set_node_def)
  from check_unreachable [OF _ _ this] one show ?thesis
    using assms(2) by (simp add: act_simps later_set_node)
qed

theorem check_predecessor_dead_witness:
  "let s = demo_net\<lparr>nodes := [''a'' \<mapsto> demo10]\<rparr> in
   check_predecessor ''a'' s = (Inr (), set_node ''a'' (demo10\<lparr>pred_fail_count := 1\<rparr>) (later 4 700000 s)) \<and>
     andthen (check_predecessor ''a'') (\<lambda>_. check_predecessor ''a'') s =
       (Inr (), set_node ''a'' (demo10\<lparr>predecessor := None, pred_fail_count := 0\<rparr>) (later 8 1400000 s))"
  unfolding Let_def
  by (rule check_predecessor_dead [of _ _ _ ref100])
    (simp_all add: demo10_def demo_refs demo_node_def unreachable_def)

text \<open>
  A predecessor that answers is kept: on a network that loses requests the check only
  resets the counter.
\<close>

theorem check_predecessor_alive:
  assumes "lossy s" and "nodes s me = Some nd" and "predecessor nd = Some p"
    and "nodes s (ref_addr p) = Some np"
  shows "\<exists>m c. check_predecessor me s = (Inr (), set_node me (nd\<lparr>pred_fail_count := 0\<rparr>) (later m c s))"
proof -
  obtain m c where "t_ping (ref_addr p) s = (Inr (), later m c s)"
    unfolding rpc_defs by (rule rpc_read_node [OF assms(1,4) refl])
  then show ?thesis using assms(2,3) by (auto simp: check_predecessor_def act_simps)
qed

theorem check_predecessor_alive_witness:
  "\<exists>m c. check_predecessor ''a'' demo_net =
     (Inr (), set_node ''a'' (demo10\<lparr>pred_fail_count := 0\<rparr>) (later m c demo_net))"
  using demo_net_lossy
  by (rule check_predecessor_alive [of _ _ _ ref100 demo100])
    (simp_all add: demo_net_def demo10_def demo_refs)

text \<open>
  The counter is not reset when the predecessor changes: after one failed check of a
  predecessor \<open>p\<close>, a notification from a nearer node \<open>c\<close> installs \<open>c\<close>; the first check of \<open>c\<close>
  that fails then evicts it, although two consecutive failures are meant to be required.
\<close>

theorem check_predecessor_carries_count:
  assumes "nodes s me = Some nd" and "predecessor nd = Some p" and "unreachable s (ref_addr p)"
    and "pred_fail_count nd = 0" and "in_range (ref_id c) (ref_id p) (node_id nd) False"
    and "ref_addr c \<noteq> me" and "unreachable (later 4 700000 s) (ref_addr c)"
  shows "andthen (check_predecessor me) (\<lambda>_. andthen (change_node me (notify c)) (\<lambda>_. check_predecessor me)) s =
     (Inr (), set_node me (nd\<lparr>predecessor := None, pred_fail_count := 0\<rparr>) (later 8 1400000 s))"
proof -
  let ?s1 = "set_node me (nd\<lparr>pred_fail_count := 1\<rparr>) (later 4 700000 s)"
  let ?nd2 = "nd\<lparr>pred_fail_count := 1, predecessor := Some c\<rparr>"
  let ?s2 = "set_node me ?nd2 (later 4 700000 s)"
  have "check_predecessor me s = (Inr (), ?s1)"
    using check_unreachable [OF assms(1-3)] assms(4) by simp
  moreover have "change_node me (notify c) ?s1 = (Inr (), ?s2)"
    using assms by (simp add: act_simps notify_def)
  moreover have "unreachable ?s2 (ref_addr c)"
    using assms(6,7) by (simp add: unreachable_def set_node_def)
  then have "check_predecessor me ?s2 =
      (Inr (), set_node me (nd\<lparr>predecessor := None, pred_fail_count := 0\<rparr>) (later 8 1400000 s))"
    using check_unreachable [of ?s2 me ?nd2 c] by (simp add: later_set_node)
  ultimately show ?thesis by (simp add: act_simps)
qed

theorem check_predecessor_carries_count_witness:
  "let s = demo_net\<lparr>nodes := [''a'' \<mapsto> demo10, ''d'' \<mapsto> demo100],
       fault := (\<lambda>n a. if n < 8 then RequestLost else Delivered)\<rparr> in
   andthen (check_predecessor ''a'') (\<lambda>_. andthen (change_node ''a'' (notify \<lparr>ref_id = 200, ref_addr = ''d''\<rparr>))
      (\<lambda>_. check_predecessor ''a'')) s =
     (Inr (), set_node ''a'' (demo10\<lparr>predecessor := None, pred_fail_count := 0\<rparr>) (later 8 1400000 s))"
  unfolding Let_def
  by (rule check_predecessor_carries_count [where p = ref100])
    (simp_all add: demo10_def demo_refs demo_node_def in_range_def unreachable_def demo_net_def)

end
