(* ===== verification/Frame.thy ===== *)
theory Frame
  imports Churn
begin

text \<open>
  What storage operations do not touch: \<open>frame s s'\<close> says that \<open>s'\<close> has the processes of \<open>s\<close>
  with the same addresses, identifiers and fingers, and the same network, so that every fact
  about lookups carries over. Also the rules that push state predicates through HTTP calls,
  and the ring walk along successors.
\<close>

definition frame :: "'z net_scheme \<Rightarrow> 'z net_scheme \<Rightarrow> bool" where
  "frame s s' \<longleftrightarrow> fault s' = fault s \<and> (\<forall>a. rel_option same_place (nodes s a) (nodes s' a))"

lemma same_place_refl [simp]: "same_place nd nd"
  by (simp add: same_place_def)

lemma same_place_data [simp]:
  "same_place nd (nd\<lparr>data_store := d\<rparr>)" "same_place nd (save_to_disk (nd\<lparr>data_store := d\<rparr>))"
  by (simp_all add: same_place_def)

lemma same_place_trans: "same_place a b \<Longrightarrow> same_place b c \<Longrightarrow> same_place a c"
  by (simp add: same_place_def)

lemma frame_refl [simp]: "frame s s"
  by (simp add: frame_def option.rel_refl)

lemma frame_trans: "frame a b \<Longrightarrow> frame b c \<Longrightarrow> frame a c"
proof -
  assume ab: "frame a b" and bc: "frame b c"
  have "rel_option same_place (nodes a x) (nodes c x)" for x
  proof -
    have "rel_option same_place (nodes a x) (nodes b x)" "rel_option same_place (nodes b x) (nodes c x)"
      using ab bc by (auto simp: frame_def)
    then show ?thesis
      by (cases "nodes a x"; cases "nodes b x"; cases "nodes c x") (auto intro: same_place_trans)
  qed
  then show ?thesis using ab bc by (simp add: frame_def)
qed

lemma frame_later [simp]: "frame s (later m c s)"
  by (simp add: frame_def option.rel_refl)

lemma frame_set_node: "nodes s a = Some nd \<Longrightarrow> same_place nd nd' \<Longrightarrow> frame s (set_node a nd' s)"
  by (simp add: frame_def option.rel_refl)

lemma frame_node:
  assumes "frame s s'" and "nodes s a = Some nd"
  obtains nd' where "nodes s' a = Some nd'" "same_place nd nd'"
  using assms unfolding frame_def by (metis option_rel_Some1)

lemma frame_none: "frame s s' \<Longrightarrow> nodes s a = None \<Longrightarrow> nodes s' a = None"
  unfolding frame_def by (metis rel_option_None1)

lemma frame_sym: "frame s s' \<Longrightarrow> frame s' s"
proof -
  assume f: "frame s s'"
  have "rel_option same_place (nodes s' a) (nodes s a)" for a
  proof -
    have "rel_option same_place (nodes s a) (nodes s' a)" using f by (simp add: frame_def)
    then show ?thesis by (cases "nodes s a"; cases "nodes s' a") (auto simp: same_place_def)
  qed
  then show ?thesis using f by (simp add: frame_def)
qed

lemma frame_member:
  assumes "frame s s'" and "member A s a nd"
  obtains nd' where "member A s' a nd'" "same_place nd nd'"
proof -
  obtain nd' where "nodes s' a = Some nd'" "same_place nd nd'"
    by (rule frame_node [OF assms(1) memberD(1) [OF assms(2)]])
  then show thesis using assms(2) by (intro that) (auto simp: member_def)
qed

lemma frame_lossy: "frame s s' \<Longrightarrow> lossy s' = lossy s"
  by (simp add: frame_def lossy_def)

lemma frame_refers_imp: "frame s s' \<Longrightarrow> refers A s r \<Longrightarrow> refers A s' r"
  unfolding refers_def by (metis frame_member same_place_def)

lemma frame_refers: "frame s s' \<Longrightarrow> refers A s' r = refers A s r"
  using frame_refers_imp frame_sym by metis

lemma frame_ring_ids: "frame s s' \<Longrightarrow> ring_ids A s' = ring_ids A s"
proof -
  have sub: "ring_ids A s \<subseteq> ring_ids A s'" if fr: "frame s s'" for s s' :: "'a net_scheme"
  proof
    fix x assume "x \<in> ring_ids A s"
    then obtain a nd where x: "member A s a nd" "x = node_id nd" by (auto simp: ring_ids_def)
    obtain nd' where "member A s' a nd'" "same_place nd nd'"
      by (rule frame_member [OF fr x(1)])
    with x(2) have "member A s' a nd'" "x = node_id nd'" by (simp_all add: same_place_def)
    then show "x \<in> ring_ids A s'" by (auto simp: ring_ids_def)
  qed
  assume "frame s s'"
  then show ?thesis using sub frame_sym by blast
qed

lemma frame_responsible: "frame s s' \<Longrightarrow> responsible A s' k r = responsible A s k r"
  by (simp add: responsible_def frame_refers frame_ring_ids)

lemma frame_stable_imp:
  assumes f: "frame s s'" and st: "stable A s"
  shows "stable A s'"
proof -
  note g = frame_sym [OF f]
  have wp: "well_placed A s' a nd'" if m: "member A s' a nd'" for a nd'
  proof -
    obtain nd where nd: "member A s a nd" "same_place nd' nd" by (rule frame_member [OF g m])
    then have "well_placed A s a nd" using st by (simp add: stable_def)
    with nd show ?thesis
      by (auto simp: well_placed_def frame_refers [OF f] frame_ring_ids [OF f] same_place_def successor_def)
  qed
  have "a = b" if m: "member A s' a na" "member A s' b nb" "node_id na = node_id nb" for a b na nb
  proof -
    obtain na' where "member A s a na'" "same_place na na'" by (rule frame_member [OF g m(1)])
    moreover obtain nb' where "member A s b nb'" "same_place nb nb'" by (rule frame_member [OF g m(2)])
    ultimately show ?thesis using m(3) st unfolding stable_def same_place_def by metis
  qed
  with wp st show ?thesis by (simp add: stable_def frame_ring_ids [OF f])
qed

section \<open>Predicates of the state through HTTP calls\<close>

text \<open>A predicate that counting attempts and passing time do not change.\<close>

definition timeless :: "('z net_scheme \<Rightarrow> bool) \<Rightarrow> bool" where
  "timeless P \<longleftrightarrow> (\<forall>s m c. P s \<longrightarrow> P (later m c s))"

lemma timelessD: "timeless P \<Longrightarrow> P s \<Longrightarrow> P (later m c s)"
  by (simp add: timeless_def)

lemma timeless_frame: "timeless (frame s0)"
  by (meson frame_later frame_trans timeless_def)

lemma keeps_sleep [keeps_intro]: "timeless P \<Longrightarrow> keeps P (sleep us)"
  using timelessD [of P _ 0] by (simp add: keeps_def sleep_def act_simps later_def)

lemma keeps_http_attempt: "timeless P \<Longrightarrow> keeps P h \<Longrightarrow> keeps P (http_attempt a h)"
proof (rule keepsI)
  fix s assume t: "timeless P" and h: "keeps P h" and "P s"
  then have "P (s\<lparr>sent := Suc (sent s)\<rparr>)" using timelessD [of P s 1 0] by (simp add: later_def)
  moreover have "keeps P (serve h)" unfolding serve_def using h by (intro keeps_intro)
  moreover from this have "keeps P (andthen (serve h) (\<lambda>_. throw e))" for e
    by (intro keeps_intro)
  ultimately show "P (snd (http_attempt a h s))"
    using keepsD [of P "serve h"] keepsD [of P "andthen (serve h) (\<lambda>_. throw e)" for e]
    by (auto simp: http_attempt_def Let_def split: delivery.split)
qed

lemma keeps_request [keeps_intro]: "timeless P \<Longrightarrow> keeps P h \<Longrightarrow> keeps P (request a h)"
  unfolding request_def by (intro keeps_retrying keeps_http_attempt keeps_sleep)

lemma keeps_rpc [keeps_intro]: "timeless P \<Longrightarrow> keeps P h \<Longrightarrow> keeps P (rpc a h)"
  unfolding rpc_def by (intro keeps_intro)

lemma keeps_rpc_opt [keeps_intro]: "timeless P \<Longrightarrow> keeps P h \<Longrightarrow> keeps P (rpc_opt a h)"
  unfolding rpc_opt_def by (intro keeps_intro)

lemma keeps_read_node [keeps_intro]: "keeps P (read_node a f)"
  by (auto simp: keeps_def read_node_def on_node_def split: option.split)

lemma keeps_on_node_frame: "(\<And>nd. same_place nd (snd (f nd))) \<Longrightarrow> keeps (frame s0) (on_node a f)"
  by (auto simp: keeps_def on_node_def split: option.split intro: frame_trans frame_set_node)

lemma keeps_find_successor [keeps_intro]: "timeless P \<Longrightarrow> keeps P (find_successor fuel me key)"
proof (induction fuel arbitrary: me)
  case 0
  show ?case
    unfolding find_successor.simps find_successor_via_def by (intro keeps_intro)
next
  case (Suc fuel)
  then show ?case
    unfolding find_successor.simps find_successor_via_def h_find_successor_def by (intro keeps_intro)
qed

section \<open>Actions that never run out of fuel\<close>

definition fueled :: "('s, 'a) act \<Rightarrow> bool" where
  "fueled m \<longleftrightarrow> (\<forall>s. fst (m s) \<noteq> Inl OutOfFuel)"

named_theorems fueled_intro \<open>rules that show an action never runs out of fuel\<close>

lemma fueled_ret [fueled_intro]: "fueled (ret x)"
  by (simp add: fueled_def act_simps)

lemma fueled_throw [fueled_intro]: "e \<noteq> OutOfFuel \<Longrightarrow> fueled (throw e)"
  by (simp add: fueled_def act_simps)

lemma fueled_gets [fueled_intro]: "fueled (gets f)"
  by (simp add: fueled_def act_simps)

lemma fueled_modify [fueled_intro]: "fueled (modify f)"
  by (simp add: fueled_def act_simps)

lemma fueled_sleep [fueled_intro]: "fueled (sleep us)"
  by (simp add: sleep_def fueled_modify)

lemma fueled_lift [fueled_intro]: "r \<noteq> Inl OutOfFuel \<Longrightarrow> fueled (lift r)"
  by (simp add: fueled_def act_simps)

lemma fueled_andthen [fueled_intro]: "fueled m \<Longrightarrow> (\<And>x. fueled (k x)) \<Longrightarrow> fueled (andthen m k)"
  by (auto simp: fueled_def act_simps split: prod.split sum.split) (metis fst_conv)

lemma fueled_catch [fueled_intro]: "fueled m \<Longrightarrow> (\<And>e. fueled (h e)) \<Longrightarrow> fueled (catch m h)"
  by (auto simp: fueled_def act_simps split: prod.split sum.split) (metis fst_conv)

lemma fueled_on_node [fueled_intro]: "fueled (on_node a f)" "fueled (read_node a g)" "fueled (change_node a h)"
  by (auto simp: fueled_def read_node_def change_node_def on_node_def split: option.split)

lemma fueled_if [fueled_intro]: "(b \<Longrightarrow> fueled m) \<Longrightarrow> (\<not> b \<Longrightarrow> fueled m') \<Longrightarrow> fueled (if b then m else m')"
  by simp

lemma fueled_let [fueled_intro]: "fueled (f x) \<Longrightarrow> fueled (let y = x in f y)"
  by simp

lemma fueled_option [fueled_intro]:
  "(x = None \<Longrightarrow> fueled m) \<Longrightarrow> (\<And>y. x = Some y \<Longrightarrow> fueled (f y))
    \<Longrightarrow> fueled (case x of None \<Rightarrow> m | Some y \<Rightarrow> f y)"
  by (cases x) auto

lemma fueled_sum [fueled_intro]:
  "(\<And>y. x = Inl y \<Longrightarrow> fueled (f y)) \<Longrightarrow> (\<And>y. x = Inr y \<Longrightarrow> fueled (g y))
    \<Longrightarrow> fueled (case x of Inl y \<Rightarrow> f y | Inr y \<Rightarrow> g y)"
  by (cases x) auto

lemma fueled_for_each [fueled_intro]: "(\<And>x a. fueled (body x a)) \<Longrightarrow> fueled (for_each xs body acc)"
  by (induction xs arbitrary: acc) (auto intro!: fueled_intro)

lemma fueled_retrying [fueled_intro]:
  assumes op: "\<And>x. fueled (op x)" and nxt: "\<And>i x. fueled (nxt i x)"
  shows "fueled (retrying ok nxt op n i x)"
proof (induction n arbitrary: i x)
  case 0
  show ?case by (simp add: op)
next
  case (Suc n)
  have "fueled (andthen (nxt i x) (retrying ok nxt op n (Suc i)))"
    by (intro fueled_intro nxt Suc.IH)
  then show ?case using op [of x]
    by (auto simp: fueled_def split: prod.split sum.split) (metis fst_conv)
qed

lemma fueled_http_attempt:
  fixes h :: "('z net_scheme, 'b reply) act"
  assumes "fueled h"
  shows "fueled (http_attempt a h)"
proof -
  have serve: "fueled (serve h)" unfolding serve_def using assms by (intro fueled_intro)
  have "fueled (andthen (serve h) (\<lambda>_. throw (RequestException m)) :: ('z net_scheme, 'b reply) act)" for m
    by (intro fueled_intro serve) auto
  with serve show ?thesis
    by (simp add: fueled_def http_attempt_def Let_def split: delivery.split)
qed

lemma fueled_request [fueled_intro]: "fueled h \<Longrightarrow> fueled (request a h)"
  unfolding request_def by (intro fueled_intro fueled_http_attempt)

lemma raise_for_status_fuel: "raise_for_status r \<noteq> Inl OutOfFuel"
  by (simp add: raise_for_status_def split: reply.split)

lemma fueled_rpc [fueled_intro]: "fueled h \<Longrightarrow> fueled (rpc a h)"
  unfolding rpc_def by (intro fueled_intro raise_for_status_fuel)

lemma fueled_rpc_opt [fueled_intro]: "fueled h \<Longrightarrow> fueled (rpc_opt a h)"
  unfolding rpc_opt_def
  by (intro fueled_intro) (auto simp: raise_for_status_def chain_def split: reply.splits sum.splits)

text \<open>A computation whose every exception is caught always returns.\<close>

lemma catch_returns:
  assumes "fueled m" and "\<And>e s. \<exists>x s'. h e s = (Inr x, s')"
  shows "\<exists>x s'. catch m h s = (Inr x, s')"
proof (cases "m s")
  case (Pair r s')
  then have "r \<noteq> Inl OutOfFuel" using assms(1) by (metis fst_conv fueled_def)
  with Pair assms(2) show ?thesis by (cases r) (auto simp: act_simps)
qed

section \<open>Walking along successors\<close>

text \<open>A non-empty set of members that is closed under "next" is the whole ring.\<close>

lemma next_closed:
  assumes S: "ids_set S" and C: "C \<subseteq> S" "C \<noteq> {}"
    and closed: "\<And>c. c \<in> C \<Longrightarrow> \<exists>j \<in> C. next_of S c j"
  shows "C = S"
proof (rule ccontr)
  assume "C \<noteq> S"
  then obtain y where y: "y \<in> S" "y \<notin> C" using C(1) by blast
  have id: "is_id x" if "x \<in> S" for x using that S by (simp add: ids_set_def)
  have "finite C" using C(1) ids_set_finite [OF S] finite_subset by blast
  then obtain c where c: "c \<in> C" "\<And>x. x \<in> C \<Longrightarrow> cw c y \<le> cw x y"
    using C(2) ex_min_if_finite [of "(\<lambda>x. cw x y) ` C"] by (fastforce simp: not_less)
  obtain j where j: "j \<in> C" "next_of S c j" using closed [OF c(1)] by blast
  have "cw c j \<le> cw c y" using j(2) y(1) by (rule next_ofD)
  moreover have "j \<noteq> y" using j(1) y(2) by auto
  moreover have ids: "is_id c" "is_id j" "is_id y" using c(1) j(1) C(1) y(1) id by auto
  ultimately have "cw c j < cw c y" using cw_inj [of c j y] by (simp add: order_less_le) blast
  then have "cw j y = cw c y - cw c j - 1" using ids by (intro cw_shift)
  moreover have "cw c y \<le> cw j y" using c(2) [OF j(1)] .
  ultimately show False using cw_nonneg [of c j] by linarith
qed

end
