(* ===== verification/Schema.thy ===== *)
theory Schema
  imports Python
begin

text \<open>
  Task records, \<open>storage/schema.py\<close>. A record is a JSON dictionary, as in the code. The time
  and a generated identifier are arguments. A message that quotes a value leaves the value out.
  Copies (\<open>copy.deepcopy\<close>) are values here, so a record never shares structure with its input.
\<close>

section \<open>Records\<close>

definition TASK_SCHEMA_VERSION :: int where
  "TASK_SCHEMA_VERSION = 1"

definition TASK_KIND :: string where
  "TASK_KIND = ''task''"

definition TASK_STATUSES :: "string list" where
  "TASK_STATUSES = [''REGISTERED'', ''QUEUED'', ''RUNNING'', ''COMPLETED'', ''FAILED'', ''CANCELLED'',
     ''DELETED'']"

definition utc_now_iso :: "int \<Rightarrow> string" where
  "utc_now_iso now = iso_utc now"

text \<open>\<open>isinstance(v, str) and v.strip()\<close>\<close>

fun is_nonblank :: "json \<Rightarrow> bool" where
  "is_nonblank (JStr s) \<longleftrightarrow> strip s \<noteq> []"
| "is_nonblank _ \<longleftrightarrow> False"

fun str_of :: "json \<Rightarrow> string" where
  "str_of (JStr s) = s"
| "str_of _ = []"

definition build_task_key :: "json \<Rightarrow> exn + string" where
  "build_task_key task_id =
     (if is_nonblank task_id then Inr (''task:'' @ strip (str_of task_id))
      else Inl (TaskValidationError ''task_id must be a non-empty string''))"

fun is_task_record :: "json \<Rightarrow> bool" where
  "is_task_record (JObj d) \<longleftrightarrow> dget d ''kind'' = JStr TASK_KIND"
| "is_task_record _ \<longleftrightarrow> False"

fun validate_required_task_fields :: "json \<Rightarrow> exn + jdict" where
  "validate_required_task_fields (JObj d) =
     (case List.find (\<lambda>f. f \<notin> set (dkeys d)) [''job_id'', ''type'', ''payload''] of
        Some f \<Rightarrow> Inl (TaskValidationError (''missing required field: '' @ f))
      | None \<Rightarrow>
          if \<not> is_nonblank (dget d ''job_id'') then
            Inl (TaskValidationError ''job_id must be a non-empty string'')
          else if \<not> is_nonblank (dget d ''type'') then
            Inl (TaskValidationError ''type must be a non-empty string'')
          else Inr d)"
| "validate_required_task_fields _ = Inl (TaskValidationError ''task payload must be a JSON object'')"

fun validate_placement :: "json \<Rightarrow> exn + unit" where
  "validate_placement (JObj p) =
     (if \<not> is_dict (dget p ''primary_node'') then
        Inl (TaskValidationError ''placement.primary_node must be an object'')
      else if \<not> is_list (dget_or (JList []) p ''replica_nodes'') then
        Inl (TaskValidationError ''placement.replica_nodes must be a list'')
      else Inr ())"
| "validate_placement _ = Inl (TaskValidationError ''placement must be an object'')"

fun dict_of :: "json \<Rightarrow> jdict" where
  "dict_of (JObj d) = d"
| "dict_of _ = []"

definition validate_task_record :: "json \<Rightarrow> exn + unit" where
  "validate_task_record r =
     (if \<not> is_task_record r then Inl (TaskValidationError ''record is not a task object'')
      else if \<not> eq_int (dget (dict_of r) ''schema_version'') TASK_SCHEMA_VERSION then
        Inl (TaskValidationError ''unsupported schema version'')
      else chain (in_str_set (dget (dict_of r) ''status'') TASK_STATUSES) (\<lambda>known.
        if \<not> known then Inl (TaskValidationError ''invalid task status'')
        else validate_placement (dget (dict_of r) ''placement'')))"

text \<open>\<open>a or b\<close>\<close>

definition py_or :: "json \<Rightarrow> json \<Rightarrow> json" where
  "py_or a b = (if truthy a then a else b)"

definition create_task_record :: "int \<Rightarrow> string \<Rightarrow> json \<Rightarrow> json \<Rightarrow> int \<Rightarrow> json \<Rightarrow> exn + json" where
  "create_task_record now generated task_input owner_node replication_factor task_id =
     chain (validate_required_task_fields task_input) (\<lambda>d.
       let final_task_id = py_or task_id (py_or (dget d ''task_id'') (JStr generated)) in
       if \<not> is_nonblank final_task_id then
         Inl (TaskValidationError ''task_id must be a non-empty string'')
       else
         let status = dget_or (JStr ''REGISTERED'') d ''status'' in
         chain (in_str_set status TASK_STATUSES) (\<lambda>known.
         if \<not> known then Inl (TaskValidationError ''unsupported status'')
         else
           let priority = dget_or (JInt 0) d ''priority'' in
           if \<not> is_int priority then Inl (TaskValidationError ''priority must be an integer'')
           else
             let t = JStr (utc_now_iso now);
                 record = JObj
                   [(''schema_version'', JInt TASK_SCHEMA_VERSION),
                    (''kind'', JStr TASK_KIND),
                    (''task_id'', JStr (strip (str_of final_task_id))),
                    (''job_id'', JStr (strip (str_of (dget d ''job_id'')))),
                    (''type'', JStr (strip (str_of (dget d ''type'')))),
                    (''payload'', dget d ''payload''),
                    (''priority'', priority),
                    (''status'', status),
                    (''result'', dget d ''result''),
                    (''error'', dget d ''error''),
                    (''created_at'', t),
                    (''updated_at'', t),
                    (''version'', JInt 1),
                    (''deleted'', JBool False),
                    (''placement'', JObj
                      [(''primary_node'', owner_node),
                       (''replication_factor'', JInt (max 1 replication_factor)),
                       (''replica_nodes'', JList [])])]
             in chain (validate_task_record record) (\<lambda>_. Inr record)))"

text \<open>The common end of the updates: time stamp, version, validation.\<close>

definition bump :: "int \<Rightarrow> jdict \<Rightarrow> exn + json" where
  "bump now d =
     chain (py_int (dget_or (JInt 1) (dset ''updated_at'' (JStr (utc_now_iso now)) d) ''version'')) (\<lambda>v.
       let updated = JObj (dset ''version'' (JInt (v + 1)) (dset ''updated_at'' (JStr (utc_now_iso now)) d))
       in chain (validate_task_record updated) (\<lambda>_. Inr updated))"

fun set_placement_replicas :: "jdict \<Rightarrow> json \<Rightarrow> json list \<Rightarrow> exn + jdict" where
  "set_placement_replicas d (JObj p) rs = Inr (dset ''placement'' (JObj (dset ''replica_nodes'' (JList rs) p)) d)"
| "set_placement_replicas d _ rs = Inl (TypeError ''placement does not support item assignment'')"

definition set_replica_nodes :: "int \<Rightarrow> json \<Rightarrow> json list \<Rightarrow> exn + json" where
  "set_replica_nodes now record replica_nodes =
     chain (dindex (dict_of record) ''placement'') (\<lambda>p.
     chain (set_placement_replicas (dict_of record) p replica_nodes) (bump now))"

definition mark_task_deleted :: "int \<Rightarrow> json \<Rightarrow> exn + json" where
  "mark_task_deleted now record =
     bump now (dset ''deleted'' (JBool True) (dset ''status'' (JStr ''DELETED'') (dict_of record)))"

definition UPDATABLE :: "string list" where
  "UPDATABLE = [''status'', ''result'', ''error'', ''payload'', ''priority'']"

text \<open>\<open>if f in patch: updated = step(patch[f], updated)\<close>\<close>

definition if_in :: "jdict \<Rightarrow> string \<Rightarrow> (json \<Rightarrow> jdict \<Rightarrow> exn + jdict) \<Rightarrow> jdict \<Rightarrow> exn + jdict" where
  "if_in patch f step d = (case map_of patch f of None \<Rightarrow> Inr d | Some v \<Rightarrow> step v d)"

definition patch_status :: "json \<Rightarrow> jdict \<Rightarrow> exn + jdict" where
  "patch_status new_status d =
     chain (in_str_set new_status TASK_STATUSES) (\<lambda>known.
       if \<not> known then Inl (TaskValidationError ''unsupported status'')
       else let d' = dset ''status'' new_status d in
         Inr (if new_status = JStr ''DELETED'' then dset ''deleted'' (JBool True) d' else d'))"

definition patch_payload :: "json \<Rightarrow> jdict \<Rightarrow> exn + jdict" where
  "patch_payload v d =
     (if is_dict v then Inr (dset ''payload'' v d)
      else Inl (TaskValidationError ''payload must be a JSON object''))"

definition patch_priority :: "json \<Rightarrow> jdict \<Rightarrow> exn + jdict" where
  "patch_priority v d =
     (if is_int v then Inr (dset ''priority'' v d)
      else Inl (TaskValidationError ''priority must be an integer''))"

definition update_task_record :: "int \<Rightarrow> json \<Rightarrow> jdict \<Rightarrow> exn + json" where
  "update_task_record now record patch =
     (case List.find (\<lambda>f. f \<notin> set UPDATABLE) (dkeys patch) of
        Some f \<Rightarrow> Inl (TaskValidationError (''field cannot be updated via PATCH: '' @ f))
      | None \<Rightarrow>
          chain (if_in patch ''status'' patch_status (dict_of record)) (\<lambda>d1.
          chain (if_in patch ''result'' (\<lambda>v d. Inr (dset ''result'' v d)) d1) (\<lambda>d2.
          chain (if_in patch ''error'' (\<lambda>v d. Inr (dset ''error'' v d)) d2) (\<lambda>d3.
          chain (if_in patch ''payload'' patch_payload d3) (\<lambda>d4.
          chain (if_in patch ''priority'' patch_priority d4) (bump now))))))"

section \<open>Well-formed task records\<close>

definition valid_task :: "json \<Rightarrow> bool" where
  "valid_task r \<longleftrightarrow> validate_task_record r = Inr ()"

lemma valid_task_obj: "valid_task r \<Longrightarrow> r = JObj (dict_of r)"
  by (cases r) (auto simp: valid_task_def validate_task_record_def split: if_splits)

lemma valid_task_is_record: "valid_task r \<Longrightarrow> is_task_record r"
  by (auto simp: valid_task_def validate_task_record_def split: if_splits)

lemma valid_task_status: "valid_task r \<Longrightarrow> \<exists>s \<in> set TASK_STATUSES. dget (dict_of r) ''status'' = JStr s"
  by (auto simp: valid_task_def validate_task_record_def chain_eq_Inr in_str_set_True split: if_splits)

lemma bump_valid: "bump now d = Inr r \<Longrightarrow> valid_task r"
  by (auto simp: bump_def chain_eq_Inr valid_task_def Let_def)

lemma bump_fields:
  assumes "bump now d = Inr r"
  shows "\<exists>v. py_int (dget_or (JInt 1) d ''version'') = Inr v \<and>
    r = JObj (dset ''version'' (JInt (v + 1)) (dset ''updated_at'' (JStr (utc_now_iso now)) d))"
  using assms by (auto simp: bump_def chain_eq_Inr Let_def)

lemma valid_task_dset:
  assumes "valid_task (JObj d)" and "k \<notin> {''kind'', ''schema_version'', ''status'', ''placement''}"
  shows "valid_task (JObj (dset k v d))"
proof -
  have "''kind'' \<noteq> k" "''schema_version'' \<noteq> k" "''status'' \<noteq> k" "''placement'' \<noteq> k"
    using assms(2) by auto
  then have "validate_task_record (JObj (dset k v d)) = validate_task_record (JObj d)"
    by (simp add: validate_task_record_def cong: if_cong)
  with assms(1) show ?thesis by (simp add: valid_task_def)
qed

lemma bump_ok:
  assumes "valid_task (JObj d)" and "py_int (dget_or (JInt 1) d ''version'') = Inr v"
  shows "bump now d =
    Inr (JObj (dset ''version'' (JInt (v + 1)) (dset ''updated_at'' (JStr (utc_now_iso now)) d)))"
proof -
  have "valid_task (JObj (dset ''version'' (JInt (v + 1)) (dset ''updated_at'' (JStr (utc_now_iso now)) d)))"
    using assms(1) by (intro valid_task_dset) auto
  with assms(2) show ?thesis by (simp add: bump_def valid_task_def Let_def)
qed

lemma create_task_record_valid: "create_task_record now g i ow rf t = Inr r \<Longrightarrow> valid_task r"
  by (auto simp: create_task_record_def chain_eq_Inr valid_task_def Let_def split: if_splits)

lemma if_in_Inr:
  "if_in patch f step d = Inr d' \<longleftrightarrow>
     (case map_of patch f of None \<Rightarrow> d' = d | Some v \<Rightarrow> step v d = Inr d')"
  by (auto simp: if_in_def split: option.splits)

text \<open>What one step of an update may write.\<close>

lemma if_in_sets:
  assumes "if_in patch k step d = Inr d'" and "\<And>v d''. step v d = Inr d'' \<Longrightarrow> d'' = dset k v d"
  shows "map_of d' f = (if f = k \<and> map_of patch f \<noteq> None then map_of patch f else map_of d f)"
proof (cases "map_of patch k")
  case None
  then show ?thesis using assms(1) by (auto simp: if_in_Inr)
next
  case (Some v)
  then have "step v d = Inr d'" using assms(1) by (simp add: if_in_Inr)
  then have "d' = dset k v d" by (rule assms(2))
  with Some show ?thesis by simp
qed

lemma patch_status_frame:
  "patch_status v d = Inr d' \<Longrightarrow> k \<noteq> ''status'' \<Longrightarrow> k \<noteq> ''deleted'' \<Longrightarrow> map_of d' k = map_of d k"
  by (auto simp: patch_status_def chain_eq_Inr Let_def split: if_splits)

lemma patch_status_sets:
  "patch_status v d = Inr d' \<Longrightarrow> map_of d' ''status'' = Some v"
  by (auto simp: patch_status_def chain_eq_Inr Let_def split: if_splits)

lemma find_None_set: "List.find P xs = None \<longleftrightarrow> (\<forall>x \<in> set xs. \<not> P x)"
  by (induction xs) auto

text \<open>Naming the replicas of a valid record with an integer version succeeds.\<close>

lemma set_replica_nodes_ok:
  assumes v: "valid_task r" and ver: "dget (dict_of r) ''version'' = JInt n" "''version'' \<in> set (dkeys (dict_of r))"
  shows "\<exists>r'. set_replica_nodes now r rs = Inr r' \<and> valid_task r' \<and>
    dget (dict_of r') ''task_id'' = dget (dict_of r) ''task_id''"
proof -
  obtain d where r: "r = JObj d" using valid_task_obj [OF v] by blast
  let ?d = "dict_of r"
  have pl: "validate_placement (dget ?d ''placement'') = Inr ()"
    using v by (auto simp: valid_task_def validate_task_record_def chain_eq_Inr split: if_splits)
  then obtain p where p: "dget ?d ''placement'' = JObj p" "is_dict (dget p ''primary_node'')"
    by (cases "dget ?d ''placement''") (auto split: if_splits)
  then have idx: "dindex ?d ''placement'' = Inr (JObj p)"
    by (auto simp: dindex_def dget_or_def split: option.splits)
  let ?d' = "dset ''placement'' (JObj (dset ''replica_nodes'' (JList rs) p)) ?d"
  have "validate_task_record (JObj ?d') = Inr ()"
    using v r p by (auto simp: valid_task_def validate_task_record_def chain_eq_Inr split: if_splits)
  then have v': "valid_task (JObj ?d')" by (simp add: valid_task_def)
  have "py_int (dget_or (JInt 1) ?d' ''version'') = Inr n"
    using ver by (auto simp: dget_or_def dkeys_def split: option.splits)
  from bump_ok [OF v' this, of now] bump_valid [of now ?d']
  show ?thesis using idx p(1) by (auto simp: set_replica_nodes_def)
qed

section \<open>Properties\<close>

text \<open>
  C12. \<open>create_task_record\<close> accepts exactly the payloads that have a non-blank \<open>job_id\<close> and
  \<open>type\<close>, a \<open>payload\<close>, a known status and an integer priority (the last two may be missing),
  and a usable identifier; the record it builds then passes validation, is version 1, is not
  deleted, and carries the trimmed identifier and a replication factor of at least 1.
\<close>

theorem create_task_record_accepts:
  assumes "is_dict owner" and "is_nonblank (JStr g)"
  shows "(\<exists>r. create_task_record now g (JObj d) owner rf tid = Inr r \<and> valid_task r \<and>
            dget (dict_of r) ''version'' = JInt 1 \<and> dget (dict_of r) ''deleted'' = JBool False \<and>
            dget (dict_of r) ''task_id'' = JStr (strip (str_of (py_or tid (py_or (dget d ''task_id'') (JStr g))))) \<and>
            (\<exists>p. dget (dict_of r) ''placement'' = JObj p \<and> dget p ''replication_factor'' = JInt (max 1 rf))) \<longleftrightarrow>
     (is_nonblank (dget d ''job_id'') \<and> is_nonblank (dget d ''type'') \<and> ''payload'' \<in> set (dkeys d) \<and>
      (\<exists>st \<in> set TASK_STATUSES. dget_or (JStr ''REGISTERED'') d ''status'' = JStr st) \<and>
      is_int (dget_or (JInt 0) d ''priority'') \<and>
      is_nonblank (py_or tid (py_or (dget d ''task_id'') (JStr g))))"
    (is "?lhs \<longleftrightarrow> ?rhs")
proof
  have key: "k \<in> set (dkeys d)" if "is_nonblank (dget d k)" for k
  proof (rule ccontr)
    assume "k \<notin> set (dkeys d)"
    then have "map_of d k = None" by (simp add: dkeys_def map_of_eq_None_iff)
    with that show False by (simp add: dget_or_def)
  qed
  show ?rhs if ?lhs
    using that by (auto simp: create_task_record_def chain_eq_Inr in_str_set_True Let_def
        split: if_splits option.splits)
  show ?lhs if rhs: ?rhs
  proof -
    have "validate_required_task_fields (JObj d) = Inr d"
      using rhs key by simp
    moreover obtain st where "st \<in> set TASK_STATUSES" "dget_or (JStr ''REGISTERED'') d ''status'' = JStr st"
      using rhs by blast
    ultimately show ?thesis
      using rhs assms(1)
      by (auto simp: create_task_record_def valid_task_def validate_task_record_def dget_or_Cons
          eq_int_def Let_def)
  qed
qed

theorem create_task_record_accepts_witness:
  "\<exists>r. create_task_record 0 ''g'' (JObj [(''job_id'', JStr ''j''), (''type'', JStr ''t''), (''payload'', JNull)])
         (JObj []) 3 (JStr '' 7 '') = Inr r \<and> dget (dict_of r) ''task_id'' = JStr ''7''"
proof -
  let ?d = "[(''job_id'', JStr ''j''), (''type'', JStr ''t''), (''payload'', JNull)]"
  have "py_or (JStr '' 7 '') (py_or (dget ?d ''task_id'') (JStr ''g'')) = JStr '' 7 ''"
    by (simp add: py_or_def)
  moreover have "strip '' 7 '' = ''7''" "strip ''j'' = ''j''" "strip ''t'' = ''t''" "strip ''g'' = ''g''"
    by code_simp+
  ultimately show ?thesis
    using create_task_record_accepts [of "JObj []" "''g''" 0 ?d 3 "JStr '' 7 ''"]
    by (simp add: dget_or_Cons dkeys_def TASK_STATUSES_def) (metis str_of.simps(1))
qed

lemma update_task_effect:
  assumes ok: "update_task_record now (JObj d) patch = Inr r" and wf: "wf_dict patch"
  shows "set (dkeys patch) \<subseteq> set UPDATABLE \<and> valid_task r \<and>
     (\<forall>f \<in> set (dkeys patch). dget (dict_of r) f = dget patch f) \<and>
     (\<forall>f. f \<notin> set (dkeys patch) \<union> {''deleted'', ''updated_at'', ''version''} \<longrightarrow>
        map_of (dict_of r) f = map_of d f) \<and>
     (\<exists>v. py_int (dget_or (JInt 1) d ''version'') = Inr v \<and> dget (dict_of r) ''version'' = JInt (v + 1))"
proof -
  have keys: "set (dkeys patch) \<subseteq> set UPDATABLE"
    using ok by (auto simp: update_task_record_def find_None_set split: option.splits)
  then obtain d1 d2 d3 d4 d5 where
    d1: "if_in patch ''status'' patch_status d = Inr d1" and
    d2: "if_in patch ''result'' (\<lambda>v d. Inr (dset ''result'' v d)) d1 = Inr d2" and
    d3: "if_in patch ''error'' (\<lambda>v d. Inr (dset ''error'' v d)) d2 = Inr d3" and
    d4: "if_in patch ''payload'' patch_payload d3 = Inr d4" and
    d5: "if_in patch ''priority'' patch_priority d4 = Inr d5" and r: "bump now d5 = Inr r"
    using ok by (auto simp: update_task_record_def chain_eq_Inr split: option.splits)
  have notin: "map_of patch f = None \<longleftrightarrow> f \<notin> set (dkeys patch)" for f
    by (auto simp: dkeys_def map_of_eq_None_iff)
  have m: "map_of d2 f = (if f = ''result'' \<and> map_of patch f \<noteq> None then map_of patch f else map_of d1 f)"
    "map_of d3 f = (if f = ''error'' \<and> map_of patch f \<noteq> None then map_of patch f else map_of d2 f)"
    "map_of d4 f = (if f = ''payload'' \<and> map_of patch f \<noteq> None then map_of patch f else map_of d3 f)"
    "map_of d5 f = (if f = ''priority'' \<and> map_of patch f \<noteq> None then map_of patch f else map_of d4 f)" for f
    by (rule if_in_sets [OF d2] if_in_sets [OF d3] if_in_sets [OF d4] if_in_sets [OF d5];
        simp add: patch_payload_def patch_priority_def split: if_splits)+
  have m1: "map_of d1 f = (if f = ''status'' \<and> map_of patch f \<noteq> None then map_of patch f else map_of d f)"
    if "f \<noteq> ''deleted''" for f
    using d1 that patch_status_frame [of _ d d1 f] patch_status_sets [of _ d d1]
    by (cases "map_of patch ''status''"; cases "f = ''status''") (auto simp: if_in_Inr)
  obtain v where v: "py_int (dget_or (JInt 1) d5 ''version'') = Inr v"
    and r_eq: "r = JObj (dset ''version'' (JInt (v + 1)) (dset ''updated_at'' (JStr (utc_now_iso now)) d5))"
    using bump_fields [OF r] by auto
  have m5d: "map_of d5 f = map_of d f"
    if "f \<notin> set (dkeys patch)" "f \<noteq> ''deleted''" for f
    using that notin [of f] by (simp add: m m1)
  have set5: "map_of d5 f = map_of patch f" if "f \<in> set (dkeys patch)" for f
  proof -
    have "f \<in> set UPDATABLE" using keys that by blast
    then have "f = ''status'' \<or> f = ''result'' \<or> f = ''error'' \<or> f = ''payload'' \<or> f = ''priority''"
      unfolding UPDATABLE_def by simp
    moreover have "map_of patch f \<noteq> None" using that notin by simp
    ultimately show ?thesis by (elim disjE) (simp_all add: m m1)
  qed
  have named: "map_of (dict_of r) f = map_of patch f" if "f \<in> set (dkeys patch)" for f
  proof -
    have "f \<in> set UPDATABLE" using keys that by blast
    then have "f \<noteq> ''version''" "f \<noteq> ''updated_at''" by (auto simp: UPDATABLE_def)
    with set5 [OF that] show ?thesis by (simp add: r_eq)
  qed
  have "''version'' \<notin> set (dkeys patch)" using keys by (auto simp: UPDATABLE_def)
  then have "dget_or (JInt 1) d5 ''version'' = dget_or (JInt 1) d ''version''"
    using m5d by (simp add: dget_or_def)
  with v have "\<exists>v. py_int (dget_or (JInt 1) d ''version'') = Inr v \<and> dget (dict_of r) ''version'' = JInt (v + 1)"
    by (simp add: r_eq)
  moreover have "dget (dict_of r) f = dget patch f" if "f \<in> set (dkeys patch)" for f
    using named [OF that] by (simp add: dget_or_def)
  moreover have "map_of (dict_of r) f = map_of d f"
    if "f \<notin> set (dkeys patch) \<union> {''deleted'', ''updated_at'', ''version''}" for f
    using m5d [of f] that by (simp add: r_eq)
  ultimately show ?thesis using keys bump_valid [OF r] by blast
qed

text \<open>
  C13. A successful update of a valid record: only status, result, error, payload, priority may
  be named in the patch; each named field gets the patched value; every field other than these,
  the deletion mark, the time stamp and the version is untouched; the version grows by one;
  the record is still valid.
\<close>

theorem update_task_record_effect:
  assumes ok: "update_task_record now (JObj d) patch = Inr r" and wf: "wf_dict patch"
  shows "set (dkeys patch) \<subseteq> set UPDATABLE \<and> valid_task r \<and>
     (\<forall>f \<in> set (dkeys patch). dget (dict_of r) f = dget patch f) \<and>
     (\<forall>f. f \<notin> set (dkeys patch) \<union> {''deleted'', ''updated_at'', ''version''} \<longrightarrow>
        map_of (dict_of r) f = map_of d f) \<and>
     (\<exists>v. py_int (dget_or (JInt 1) d ''version'') = Inr v \<and> dget (dict_of r) ''version'' = JInt (v + 1))"
  using assms by (rule update_task_effect)

definition demo_task :: json where
  "demo_task = JObj [(''kind'', JStr ''task''), (''schema_version'', JInt 1), (''status'', JStr ''QUEUED''),
     (''version'', JInt 4), (''placement'', JObj [(''primary_node'', JObj [])])]"

lemma demo_task_valid: "valid_task demo_task"
  by (simp add: demo_task_def valid_task_def validate_task_record_def dget_or_Cons eq_int_def
      TASK_KIND_def TASK_SCHEMA_VERSION_def TASK_STATUSES_def)

lemma demo_task_updates: "\<exists>r. update_task_record now demo_task [(''status'', JStr ''RUNNING'')] = Inr r"
proof -
  let ?d = "dset ''status'' (JStr ''RUNNING'') (dict_of demo_task)"
  have "validate_task_record (JObj ?d) = Inr ()" by code_simp
  then have "bump now ?d = Inr (JObj (dset ''version'' (JInt 5) (dset ''updated_at'' (JStr (utc_now_iso now)) ?d)))"
    using bump_ok [of ?d 4 now] by (simp add: valid_task_def demo_task_def dget_or_Cons)
  then show ?thesis
    by (simp add: update_task_record_def UPDATABLE_def dkeys_def if_in_def patch_status_def TASK_STATUSES_def)
qed

theorem update_task_record_effect_witness:
  "\<exists>r. update_task_record 0 demo_task [(''status'', JStr ''RUNNING'')] = Inr r \<and>
     dget (dict_of r) ''status'' = JStr ''RUNNING'' \<and> dget (dict_of r) ''version'' = JInt 5"
proof -
  let ?p = "[(''status'', JStr ''RUNNING'')]"
  obtain r where r: "update_task_record 0 demo_task ?p = Inr r" using demo_task_updates by blast
  have "wf_dict ?p" by (simp add: wf_dict_def dkeys_def)
  with update_task_record_effect [OF r [unfolded demo_task_def]]
  have "dget (dict_of r) ''status'' = JStr ''RUNNING''" "dget (dict_of r) ''version'' = JInt 5"
    by (auto simp: dkeys_def dget_or_Cons)
  with r show ?thesis by blast
qed

end
