(* ===== verification/Replication.thy ===== *)
theory Replication
  imports Frame Schema
begin

text \<open>
  \<open>ReplicationManager\<close> of \<open>storage/replication.py\<close>, the handlers and transport methods of task
  replicas, and the contract its fan-out relies on (locale \<open>replica_op\<close>), which the result and
  assignment services share.
\<close>

section \<open>The successor chain\<close>

definition REPLICA_RETRIES :: nat where
  "REPLICA_RETRIES = 2"

definition REPLICA_RETRY_DELAY :: int where
  "REPLICA_RETRY_DELAY = 200000"

text \<open>\<open>math.ceil(k / 2)\<close>\<close>

definition quorum :: "int \<Rightarrow> int" where
  "quorum k = \<lceil>rat_of_int k / 2\<rceil>"

text \<open>
  The loop of \<open>get_successor_chain\<close>: \<open>n\<close> is what is left of the target length, \<open>visited\<close> the
  addresses already in the chain.
\<close>

fun chain_from :: "nat \<Rightarrow> string list \<Rightarrow> nref \<Rightarrow> ('z net_scheme, nref list) act" where
  "chain_from 0 visited current = ret []"
| "chain_from (Suc n) visited current =
     (let addr = ref_addr current in
      if addr \<in> set visited then ret []
      else
        andthen (catch (andthen (t_get_state addr) (\<lambda>st. ret (Some st))) (\<lambda>_. ret None)) (\<lambda>st.
          case st of
            None \<Rightarrow> ret [current]
          | Some st \<Rightarrow>
              if ref_addr (st_successor st) = addr then ret [current]
              else andthen (chain_from n (addr # visited) (st_successor st)) (\<lambda>rest. ret (current # rest))))"

declare chain_from.simps(2) [simp del]

definition get_successor_chain :: "int \<Rightarrow> nref \<Rightarrow> ('z net_scheme, nref list) act" where
  "get_successor_chain k primary = chain_from (nat (max 1 k)) [] primary"

section \<open>Replica handlers and calls\<close>

text \<open>A \<open>TaskValidationError\<close> becomes the status 422.\<close>

definition or_422 :: "('s, 'b reply) act \<Rightarrow> ('s, 'b reply) act" where
  "or_422 m = catch m (\<lambda>e. case e of TaskValidationError _ \<Rightarrow> ret (Status 422) | _ \<Rightarrow> throw e)"

definition store_replica_local :: "string \<Rightarrow> string \<Rightarrow> json \<Rightarrow> ('z net_scheme, unit) act" where
  "store_replica_local a key task_record =
     andthen (lift (validate_task_record task_record)) (\<lambda>_.
       on_node a (\<lambda>nd. ((), snd (put key task_record nd))))"

definition get_replica_local :: "string \<Rightarrow> chord_node \<Rightarrow> json option" where
  "get_replica_local key nd =
     (case get key nd of None \<Rightarrow> None | Some v \<Rightarrow> if is_task_record v then Some v else None)"

definition delete_replica_local :: "string \<Rightarrow> chord_node \<Rightarrow> bool \<times> chord_node" where
  "delete_replica_local key nd = delete key nd"

definition h_put_task_replica :: "string \<Rightarrow> string \<Rightarrow> json \<Rightarrow> ('z net_scheme, unit reply) act" where
  "h_put_task_replica a key payload =
     or_422 (andthen (store_replica_local a key (py_or payload (JObj []))) (\<lambda>_. ret (Ok ())))"

definition h_get_task_replica :: "string \<Rightarrow> string \<Rightarrow> ('z net_scheme, json reply) act" where
  "h_get_task_replica a key =
     read_node a (\<lambda>nd. case get_replica_local key nd of None \<Rightarrow> Status 404 | Some v \<Rightarrow> Ok v)"

definition h_delete_task_replica :: "string \<Rightarrow> string \<Rightarrow> ('z net_scheme, bool reply) act" where
  "h_delete_task_replica a key =
     on_node a (\<lambda>nd. (Ok (fst (delete_replica_local key nd)), snd (delete_replica_local key nd)))"

definition t_put_task_replica :: "string \<Rightarrow> string \<Rightarrow> json \<Rightarrow> ('z net_scheme, unit) act" where
  "t_put_task_replica a key rec = rpc a (h_put_task_replica a key rec)"

definition t_get_task_replica :: "string \<Rightarrow> string \<Rightarrow> ('z net_scheme, json option) act" where
  "t_get_task_replica a key = rpc_opt a (h_get_task_replica a key)"

definition t_delete_task_replica :: "string \<Rightarrow> string \<Rightarrow> ('z net_scheme, unit) act" where
  "t_delete_task_replica a key = andthen (rpc a (h_delete_task_replica a key)) (\<lambda>_. ret ())"

section \<open>Writing and deleting replicas\<close>

text \<open>\<open>_put_with_retry\<close>, \<open>_delete_with_retry\<close>: None on success, else the last exception.\<close>

definition replica_backoff :: "nat \<Rightarrow> unit \<Rightarrow> ('z net_scheme, unit) act" where
  "replica_backoff attempt x = sleep (REPLICA_RETRY_DELAY * 2 ^ attempt)"

definition put_with_retry :: "nref \<Rightarrow> string \<Rightarrow> json \<Rightarrow> ('z net_scheme, exn option) act" where
  "put_with_retry replica key rec =
     catch (andthen (retrying (\<lambda>e. e \<noteq> OutOfFuel) replica_backoff
                       (\<lambda>_. t_put_task_replica (ref_addr replica) key rec) REPLICA_RETRIES 0 ())
              (\<lambda>_. ret None))
       (\<lambda>e. ret (Some e))"

definition delete_with_retry :: "nref \<Rightarrow> string \<Rightarrow> ('z net_scheme, exn option) act" where
  "delete_with_retry replica key =
     catch (andthen (retrying (\<lambda>e. e \<noteq> OutOfFuel) replica_backoff
                       (\<lambda>_. t_delete_task_replica (ref_addr replica) key) REPLICA_RETRIES 0 ())
              (\<lambda>_. ret None))
       (\<lambda>e. ret (Some e))"

text \<open>One operation per replica; the replicas it succeeded on, and the others with the error.\<close>

definition collect ::
  "(nref \<Rightarrow> ('s, exn option) act) \<Rightarrow> nref \<Rightarrow> nref list \<times> (nref \<times> exn) list
    \<Rightarrow> ('s, nref list \<times> (nref \<times> exn) list) act" where
  "collect op r acc = andthen (op r) (\<lambda>error. ret (case error of
      None \<Rightarrow> (fst acc @ [r], snd acc)
    | Some e \<Rightarrow> (fst acc, snd acc @ [(r, e)])))"

definition fan_out ::
  "(nref \<Rightarrow> ('s, exn option) act) \<Rightarrow> nref list \<Rightarrow> ('s, nref list \<times> (nref \<times> exn) list) act" where
  "fan_out op rs = for_each rs (collect op) ([], [])"

lemma collect_None: "op r s = (Inr None, s') \<Longrightarrow> collect op r (d, f) s = (Inr (d @ [r], f), s')"
  by (simp add: collect_def act_simps)

lemma collect_Some: "op r s = (Inr (Some e), s') \<Longrightarrow> collect op r (d, f) s = (Inr (d, f @ [(r, e)]), s')"
  by (simp add: collect_def act_simps)

record storage_result =
  sr_primary :: nref
  sr_targets :: "nref list"
  sr_done :: "nref list"
  sr_failed :: "(nref \<times> exn) list"
  sr_complete :: bool
  sr_required :: int
  sr_achieved :: int

definition replicate_write :: "int \<Rightarrow> string \<Rightarrow> json \<Rightarrow> nref \<Rightarrow> ('z net_scheme, storage_result) act" where
  "replicate_write k key rec primary =
     andthen (get_successor_chain k primary) (\<lambda>chain.
     andthen (fan_out (\<lambda>r. put_with_retry r key rec) (tl chain)) (\<lambda>(written, failed).
       let total = 1 + int (length written); needed = quorum (max 1 k) in
       ret \<lparr>sr_primary = primary, sr_targets = tl chain, sr_done = written, sr_failed = failed,
            sr_complete = (needed \<le> total), sr_required = needed, sr_achieved = total\<rparr>))"

definition delete_replicas :: "int \<Rightarrow> string \<Rightarrow> nref \<Rightarrow> ('z net_scheme, storage_result) act" where
  "delete_replicas k key primary =
     andthen (get_successor_chain k primary) (\<lambda>chain.
     andthen (fan_out (\<lambda>r. delete_with_retry r key) (tl chain)) (\<lambda>(deleted, failed).
       ret \<lparr>sr_primary = primary, sr_targets = tl chain, sr_done = deleted, sr_failed = failed,
            sr_complete = (failed = []), sr_required = 0, sr_achieved = 0\<rparr>))"

fun first_replica :: "string \<Rightarrow> nref list \<Rightarrow> ('z net_scheme, json option) act" where
  "first_replica key [] = ret None"
| "first_replica key (r # rs) =
     andthen (catch (t_get_task_replica (ref_addr r) key) (\<lambda>_. ret None)) (\<lambda>v.
       case v of Some x \<Rightarrow> ret (Some x) | None \<Rightarrow> first_replica key rs)"

definition read_from_replicas :: "int \<Rightarrow> string \<Rightarrow> nref \<Rightarrow> ('z net_scheme, json option) act" where
  "read_from_replicas k key primary =
     andthen (get_successor_chain k primary) (\<lambda>chain. first_replica key (tl chain))"

section \<open>The contract of the fan-out\<close>

text \<open>An operation on a replica that reports failure as a value and never raises.\<close>

locale replica_op =
  fixes op :: "nref \<Rightarrow> ('s, exn option) act"
  assumes returns: "\<exists>error s'. op r s = (Inr error, s')"
begin

lemma collect_returns:
  "\<exists>ok bad s'. for_each rs (collect op) (done, failed) s = (Inr (done @ ok, failed @ bad), s') \<and>
     length ok + length bad = length rs \<and> set ok \<union> fst ` set bad = set rs"
proof (induction rs arbitrary: "done" failed s)
  case Nil
  show ?case by (simp add: act_simps)
next
  case (Cons r rs)
  obtain error s1 where op: "op r s = (Inr error, s1)" using returns by blast
  show ?case
  proof (cases error)
    case None
    obtain ok bad s' where
      "for_each rs (collect op) (done @ [r], failed) s1 = (Inr ((done @ [r]) @ ok, failed @ bad), s')"
      "length ok + length bad = length rs" "set ok \<union> fst ` set bad = set rs"
      using Cons.IH [of "done @ [r]" failed s1] by blast
    then show ?thesis
      by (intro exI [of _ "r # ok"] exI [of _ bad] exI [of _ s']) (auto simp: run_andthen collect_None [of op, OF op [unfolded None]])
  next
    case (Some e)
    obtain ok bad s' where
      "for_each rs (collect op) (done, failed @ [(r, e)]) s1 = (Inr (done @ ok, (failed @ [(r, e)]) @ bad), s')"
      "length ok + length bad = length rs" "set ok \<union> fst ` set bad = set rs"
      using Cons.IH [of "done" "failed @ [(r, e)]" s1] by blast
    then show ?thesis
      by (intro exI [of _ ok] exI [of _ "(r, e) # bad"] exI [of _ s']) (auto simp: run_andthen collect_Some [of op, OF op [unfolded Some]])
  qed
qed

text \<open>The targets are split into those that succeeded and those that failed.\<close>

lemma fan_out_returns:
  "\<exists>ok bad s'. fan_out op rs s = (Inr (ok, bad), s') \<and>
     length ok + length bad = length rs \<and> set ok \<union> fst ` set bad = set rs"
  using collect_returns [of rs "[]" "[]" s] by (simp add: fan_out_def)

text \<open>
  If, while \<open>P\<close> holds, the operation succeeds on every target, keeps \<open>P\<close>, establishes \<open>Q r\<close>
  and destroys no \<open>Q r'\<close>, then it succeeds on all of them and every \<open>Q r\<close> holds at the end.
\<close>

lemma collect_all:
  assumes "\<And>r s. r \<in> set rs \<Longrightarrow> P s \<Longrightarrow> \<exists>s'. op r s = (Inr None, s') \<and> P s' \<and> Q r s' \<and> (\<forall>r'. Q r' s \<longrightarrow> Q r' s')"
    and "P s"
  shows "\<exists>s'. for_each rs (collect op) (done, failed) s = (Inr (done @ rs, failed), s') \<and> P s' \<and>
     (\<forall>r \<in> set rs. Q r s') \<and> (\<forall>r'. Q r' s \<longrightarrow> Q r' s')"
  using assms
proof (induction rs arbitrary: "done" s)
  case Nil
  then show ?case by (simp add: act_simps)
next
  case (Cons r rs)
  obtain s1 where s1: "op r s = (Inr None, s1)" "P s1" "Q r s1" "\<forall>r'. Q r' s \<longrightarrow> Q r' s1"
    using Cons.prems by (meson list.set_intros(1))
  obtain s' where "for_each rs (collect op) (done @ [r], failed) s1 = (Inr ((done @ [r]) @ rs, failed), s')"
      "P s'" "\<forall>r \<in> set rs. Q r s'" "\<forall>r'. Q r' s1 \<longrightarrow> Q r' s'"
    using Cons.IH [of s1 "done @ [r]"] Cons.prems(1) s1(2) by (metis list.set_intros(2))
  then show ?case
    using s1 by (intro exI [of _ s']) (auto simp: run_andthen collect_None [of op, OF s1(1)])
qed

lemma fan_out_all:
  assumes "\<And>r s. r \<in> set rs \<Longrightarrow> P s \<Longrightarrow> \<exists>s'. op r s = (Inr None, s') \<and> P s' \<and> Q r s' \<and> (\<forall>r'. Q r' s \<longrightarrow> Q r' s')"
    and "P s"
  shows "\<exists>s'. fan_out op rs s = (Inr (rs, []), s') \<and> P s' \<and> (\<forall>r \<in> set rs. Q r s') \<and> (\<forall>r'. Q r' s \<longrightarrow> Q r' s')"
  using collect_all [of rs P Q s "[]" "[]", OF assms] by (simp add: fan_out_def)

end

lemmas replica_defs = t_put_task_replica_def h_put_task_replica_def t_delete_task_replica_def
  h_delete_task_replica_def t_get_task_replica_def h_get_task_replica_def store_replica_local_def

lemma validate_fuel: "validate_task_record r \<noteq> Inl OutOfFuel"
proof -
  have "in_str_set v S \<noteq> Inl OutOfFuel" for v S by (cases v) auto
  moreover have "validate_placement p \<noteq> Inl OutOfFuel" for p by (cases p) auto
  ultimately show ?thesis
    by (auto simp: validate_task_record_def chain_def split: sum.splits if_splits)
qed

lemma fueled_or_422 [fueled_intro]: "fueled m \<Longrightarrow> fueled (or_422 m)"
proof -
  assume "fueled m"
  have "fueled (catch m (\<lambda>e. if e = OutOfFuel then ret (Status 500) else
      (case e of TaskValidationError _ \<Rightarrow> ret (Status 422) | _ \<Rightarrow> throw e)))"
  proof (rule fueled_catch [OF \<open>fueled m\<close>])
    show "fueled (if e = OutOfFuel then ret (Status 500) else
      (case e of TaskValidationError _ \<Rightarrow> ret (Status 422) | _ \<Rightarrow> throw e))" for e
      by (cases e) (simp_all add: fueled_ret fueled_throw)
  qed
  moreover have "catch m (\<lambda>e. if e = OutOfFuel then ret (Status 500) else
      (case e of TaskValidationError _ \<Rightarrow> ret (Status 422) | _ \<Rightarrow> throw e)) = or_422 m"
    by (auto simp: or_422_def catch_def fun_eq_iff split: prod.split sum.split)
  ultimately show ?thesis by simp
qed

lemma put_returns: "\<exists>error s'. put_with_retry r key rec s = (Inr error, s')"
  unfolding put_with_retry_def replica_defs replica_backoff_def
  by (rule catch_returns) (auto simp: act_simps intro!: fueled_intro validate_fuel)

lemma delete_returns: "\<exists>error s'. delete_with_retry r key s = (Inr error, s')"
  unfolding delete_with_retry_def replica_defs replica_backoff_def
  by (rule catch_returns) (auto simp: act_simps intro!: fueled_intro)

interpretation task_put: replica_op "\<lambda>r. put_with_retry r key rec" for key rec
  by unfold_locales (rule put_returns)

interpretation task_delete: replica_op "\<lambda>r. delete_with_retry r key" for key
  by unfold_locales (rule delete_returns)

section \<open>The chain\<close>

lemma quorum_half: "quorum k = (k + 1) div 2"
proof -
  have "\<lceil>rat_of_int k / 2\<rceil> = - ((- k) div 2)"
    using ceiling_divide_eq_div [of k 2, where ?'a = rat] by simp
  moreover have "- ((- k) div 2) = (k + 1) div 2" by presburger
  ultimately show ?thesis by (simp add: quorum_def)
qed

lemma fueled_get_state [fueled_intro]: "fueled (t_get_state a)"
  unfolding t_get_state_def h_state_def by (intro fueled_intro)

lemma fueled_chain_from [fueled_intro]: "fueled (chain_from n visited current)"
proof (induction n arbitrary: visited current)
  case 0
  show ?case by (simp add: fueled_ret)
next
  case (Suc n)
  show ?case unfolding chain_from.simps by (intro fueled_intro Suc.IH)
qed

lemma get_state_returns:
  "\<exists>r s'. catch (andthen (t_get_state a) (\<lambda>st. ret (Some st))) (\<lambda>_. ret None) s = (Inr r, s')"
  by (rule catch_returns) (auto intro!: fueled_intro simp: act_simps)

lemma chain_from_returns: "\<exists>cs s'. chain_from n visited current s = (Inr cs, s')"
proof (induction n arbitrary: visited current s)
  case 0
  show ?case by (simp add: act_simps)
next
  case (Suc n)
  obtain r s1 where st: "catch (andthen (t_get_state (ref_addr current)) (\<lambda>st. ret (Some st)))
      (\<lambda>_. ret None) s = (Inr r, s1)"
    using get_state_returns by blast
  show ?case
  proof (cases r)
    case None
    then show ?thesis using st by (auto simp: chain_from.simps(2) Let_def run_andthen run_ret)
  next
    case (Some x)
    obtain cs s2 where
      "chain_from n (ref_addr current # visited) (st_successor x) s1 = (Inr cs, s2)"
      using Suc.IH by blast
    then show ?thesis using st Some by (auto simp: chain_from.simps(2) Let_def run_andthen run_ret)
  qed
qed

lemma chain_from_shape:
  assumes "chain_from n visited current s = (Inr cs, s')"
  shows "length cs \<le> n \<and> distinct (List.map ref_addr cs) \<and> ref_addr ` set cs \<inter> set visited = {} \<and>
    (0 < n \<longrightarrow> ref_addr current \<notin> set visited \<longrightarrow> cs \<noteq> [] \<and> hd cs = current)"
  using assms
proof (induction n arbitrary: visited current s cs)
  case 0
  then show ?case by (simp add: act_simps)
next
  case (Suc n)
  obtain r s1 where st: "catch (andthen (t_get_state (ref_addr current)) (\<lambda>st. ret (Some st)))
      (\<lambda>_. ret None) s = (Inr r, s1)"
    using get_state_returns by blast
  consider (seen) "ref_addr current \<in> set visited" "cs = []"
    | (stop) "ref_addr current \<notin> set visited" "cs = [current]"
    | (more) x rest where "ref_addr current \<notin> set visited" "cs = current # rest"
        "chain_from n (ref_addr current # visited) x s1 = (Inr rest, s')"
    using Suc.prems st
    by (auto simp: chain_from.simps(2) Let_def run_andthen run_ret split: if_splits option.splits sum.splits prod.splits)
  then show ?case
  proof cases
    case more
    from Suc.IH [OF more(3)] more(1,2) show ?thesis by auto
  qed auto
qed

text \<open>In a stable ring the walk follows the successors until it is long enough or comes back.\<close>

lemma chain_from_walk:
  fixes s :: "'z net_scheme"
  assumes st: "stable A s" and lossy: "lossy s" and cur: "refers A s current"
    and "ref_addr current \<notin> set visited"
  shows "\<exists>cs m c. chain_from (Suc n) visited current s = (Inr cs, later m c s) \<and>
    (\<forall>r \<in> set cs. refers A s r) \<and>
    (\<forall>i. Suc i < length cs \<longrightarrow> next_of (ring_ids A s) (ref_id (cs ! i)) (ref_id (cs ! Suc i))) \<and>
    (length cs = Suc n \<or> (\<exists>r. refers A s r \<and> next_of (ring_ids A s) (ref_id (last cs)) (ref_id r) \<and>
       ref_addr r \<in> set visited \<union> ref_addr ` set cs))"
  using assms
proof (induction n arbitrary: visited current s)
  case (0 visited current s)
  obtain nd where nd: "nodes s (ref_addr current) = Some nd"
    using 0(3) by (auto simp: refers_def dest: memberD)
  obtain m c where "t_get_state (ref_addr current) s = (Inr (state nd), later m c s)"
    unfolding t_get_state_def h_state_def by (rule rpc_read_node [OF 0(2) nd refl])
  then show ?case
    using 0
    by (intro exI [of _ "[current]"] exI [of _ m] exI [of _ c])
      (simp add: chain_from.simps(2) Let_def act_simps)
next
  case (Suc n visited current s)
  obtain nd where nd: "member A s (ref_addr current) nd" "node_id nd = ref_id current"
    using Suc.prems(3) by (auto simp: refers_def)
  note n = stable_node [OF Suc.prems(1) nd(1)]
  obtain m c where run: "t_get_state (ref_addr current) s = (Inr (state nd), later m c s)"
    unfolding t_get_state_def h_state_def
    by (rule rpc_read_node [OF Suc.prems(2) memberD(1) [OF nd(1)] refl])
  have nxt: "next_of (ring_ids A s) (ref_id current) (ref_id (successor nd))" using n(7) nd(2) by simp
  let ?next = "successor nd" and ?vis = "ref_addr current # visited"
  have step: "chain_from (Suc (Suc n)) visited current s =
      (if ref_addr ?next = ref_addr current then (Inr [current], later m c s)
       else andthen (chain_from (Suc n) ?vis ?next) (\<lambda>rest. ret (current # rest)) (later m c s))"
    using Suc.prems(4) run by (simp add: chain_from.simps(2) [of "Suc n"] Let_def act_simps state_def)
  show ?case
  proof (cases "ref_addr ?next \<in> set ?vis")
    case True
    then have "chain_from (Suc n) ?vis ?next (later m c s) = (Inr [], later m c s)"
      by (simp add: chain_from.simps(2) Let_def act_simps)
    then have "chain_from (Suc (Suc n)) visited current s = (Inr [current], later m c s)"
      unfolding step by (simp add: act_simps)
    then show ?thesis
      using Suc.prems n(6) nxt True
      by (intro exI [of _ "[current]"] exI [of _ m] exI [of _ c] conjI disjI2 exI [of _ ?next]) auto
  next
    case False
    obtain cs m' c' where cs: "chain_from (Suc n) ?vis ?next (later m c s) = (Inr cs, later m' c' (later m c s))"
      "\<forall>r \<in> set cs. refers A s r"
      "\<forall>i. Suc i < length cs \<longrightarrow> next_of (ring_ids A s) (ref_id (cs ! i)) (ref_id (cs ! Suc i))"
      "length cs = Suc n \<or> (\<exists>r. refers A s r \<and> next_of (ring_ids A s) (ref_id (last cs)) (ref_id r) \<and>
         ref_addr r \<in> set ?vis \<union> ref_addr ` set cs)"
      using Suc.IH [of "later m c s" ?next ?vis] Suc.prems n(6) False
      unfolding stable_later lossy_later refers_later ring_ids_later by blast
    from chain_from_shape [OF cs(1)] False have hd: "cs \<noteq> []" "hd cs = ?next" by auto
    have "chain_from (Suc (Suc n)) visited current s = (Inr (current # cs), later (m + m') (c + c') s)"
      using cs(1) False unfolding step by (simp add: act_simps)
    moreover have "next_of (ring_ids A s) (ref_id ((current # cs) ! i)) (ref_id ((current # cs) ! Suc i))"
      if "Suc i < length (current # cs)" for i
      using that cs(3) hd nxt by (cases i) (auto simp: hd_conv_nth)
    moreover have "length (current # cs) = Suc (Suc n) \<or>
        (\<exists>r. refers A s r \<and> next_of (ring_ids A s) (ref_id (last (current # cs))) (ref_id r) \<and>
         ref_addr r \<in> set visited \<union> ref_addr ` set (current # cs))"
      using cs(4) hd(1) by auto
    ultimately show ?thesis
      using cs(2) Suc.prems(3) by (intro exI [of _ "current # cs"] exI [of _ "m + m'"] exI [of _ "c + c'"]) auto
  qed
qed

lemma refers_addr_inj: "refers A s r \<Longrightarrow> refers A s r' \<Longrightarrow> ref_addr r = ref_addr r' \<Longrightarrow> r = r'"
  by (auto simp: refers_def member_def intro: nref.equality)

lemma chain_stable:
  fixes s :: "'z net_scheme"
  assumes st: "stable A s" and lossy: "lossy s" and primary: "refers A s primary"
  shows "\<exists>cs m c. get_successor_chain k primary s = (Inr cs, later m c s) \<and> cs \<noteq> [] \<and> hd cs = primary \<and>
    distinct (List.map ref_addr cs) \<and> (\<forall>r \<in> set cs. refers A s r) \<and>
    (\<forall>i. Suc i < length cs \<longrightarrow> next_of (ring_ids A s) (ref_id (cs ! i)) (ref_id (cs ! Suc i))) \<and>
    length cs = min (nat (max 1 k)) (card (ring_ids A s))"
proof -
  let ?S = "ring_ids A s"
  obtain n where n: "nat (max 1 k) = Suc n" by (cases "nat (max 1 k)") auto
  obtain cs m c where run: "chain_from (Suc n) [] primary s = (Inr cs, later m c s)"
    and refs: "\<forall>r \<in> set cs. refers A s r"
    and nxt: "\<forall>i. Suc i < length cs \<longrightarrow> next_of ?S (ref_id (cs ! i)) (ref_id (cs ! Suc i))"
    and stop: "length cs = Suc n \<or> (\<exists>r. refers A s r \<and> next_of ?S (ref_id (last cs)) (ref_id r) \<and>
       ref_addr r \<in> ref_addr ` set cs)"
    using chain_from_walk [OF st lossy primary, of "[]" n] unfolding list.set(1) Un_empty_left by blast
  from chain_from_shape [OF run]
  have shape: "length cs \<le> Suc n" "distinct (List.map ref_addr cs)" "cs \<noteq> []" "hd cs = primary" by auto
  have S: "ids_set ?S" "finite ?S" using st ids_set_finite by (auto simp: stable_def)
  have "distinct (List.map ref_id cs)"
    using shape(2) refs stable_refers_inj [OF st]
    by (auto simp: distinct_map inj_on_def)
  then have card: "card (ref_id ` set cs) = length cs"
    by (metis distinct_card length_map list.set_map)
  have sub: "ref_id ` set cs \<subseteq> ?S" using refs refers_ring_ids by blast
  have "length cs = min (Suc n) (card ?S)"
  proof (cases "length cs = Suc n")
    case True
    with card sub card_mono [OF S(2) sub] show ?thesis by simp
  next
    case False
    then obtain r where r: "refers A s r" "next_of ?S (ref_id (last cs)) (ref_id r)" "ref_addr r \<in> ref_addr ` set cs"
      using stop by blast
    then have "r \<in> set cs" using refs refers_addr_inj by blast
    have "\<exists>j \<in> ref_id ` set cs. next_of ?S i j" if "i \<in> ref_id ` set cs" for i
    proof -
      from that obtain x where x: "x < length cs" "i = ref_id (cs ! x)" by (auto simp: in_set_conv_nth)
      show ?thesis
      proof (cases "Suc x < length cs")
        case True
        then show ?thesis using nxt x by auto
      next
        case False
        then have "x = length cs - 1" using x(1) by linarith
        then have "cs ! x = last cs" using last_conv_nth [OF shape(3)] by simp
        then show ?thesis using r(2) x(2) \<open>r \<in> set cs\<close> by auto
      qed
    qed
    then have "ref_id ` set cs = ?S" using next_closed [OF S(1) sub] shape(3) by auto
    then show ?thesis using card shape(1) by simp
  qed
  with run shape refs nxt n show ?thesis
    by (intro exI [of _ cs] exI [of _ m] exI [of _ c]) (simp add: get_successor_chain_def)
qed

text \<open>
  In a stable ring, over a network that loses requests, the successor chain of a member
  starts at that member, follows the ring node by node, and has exactly \<open>min k n\<close> distinct
  members, \<open>n\<close> the size of the ring.
\<close>

theorem successor_chain_stable:
  fixes s :: "'z net_scheme"
  assumes st: "stable A s" and lossy: "lossy s" and primary: "refers A s primary"
  shows "\<exists>cs m c. get_successor_chain k primary s = (Inr cs, later m c s) \<and> cs \<noteq> [] \<and> hd cs = primary \<and>
    distinct (List.map ref_addr cs) \<and> (\<forall>r \<in> set cs. refers A s r) \<and>
    (\<forall>i. Suc i < length cs \<longrightarrow> next_of (ring_ids A s) (ref_id (cs ! i)) (ref_id (cs ! Suc i))) \<and>
    length cs = min (nat (max 1 k)) (card (ring_ids A s))"
  using assms by (rule chain_stable)

theorem successor_chain_stable_witness:
  "\<exists>cs m c. get_successor_chain 3 ref10 demo_net = (Inr cs, later m c demo_net) \<and> length cs = 2"
proof -
  have "refers UNIV demo_net ref10" "card (ring_ids UNIV demo_net) = 2"
    by (simp_all add: demo_net_refers demo_net_ids)
  with successor_chain_stable [OF demo_net_stable demo_net_lossy, of ref10 3] show ?thesis
    by fastforce
qed

section \<open>Writing replicas\<close>

text \<open>The process at \<open>a\<close> stores \<open>rec\<close> under \<open>key\<close>.\<close>

definition holds :: "string \<Rightarrow> string \<Rightarrow> json \<Rightarrow> 'z net_scheme \<Rightarrow> bool" where
  "holds a key rec s \<longleftrightarrow> (\<exists>nd. nodes s a = Some nd \<and> map_of (data_store nd) key = Some rec)"

lemma holds_later [simp]: "holds a key rec (later m c s) = holds a key rec s"
  by (simp add: holds_def)

lemma put_sel [simp]:
  "data_store (snd (put key v nd)) = dset key v (data_store nd)"
  "same_place nd (snd (put key v nd))"
  by (simp_all add: put_def same_place_def)

lemma rpc_handler_ok:
  assumes "lossy s" and "nodes s a \<noteq> None" and "\<And>m c. h (later m c s) = (Inr (Ok b), f (later m c s))"
  obtains m c where "rpc a h s = (Inr b, f (later m c s))"
proof -
  obtain m c where "rpc a h s = andthen (serve h) (\<lambda>r. lift (raise_for_status r)) (later m c s)"
    by (rule rpc_lossy [OF assms(1,2)])
  then show thesis
    using assms(3) [of m c] by (intro that [of m c]) (simp add: act_simps serve_Inr raise_for_status_def)
qed

lemma put_with_retry_ok:
  fixes s :: "'z net_scheme"
  assumes lossy: "lossy s" and nd: "nodes s (ref_addr r) = Some nd" and rec: "valid_task rec"
  obtains m c where "put_with_retry r key rec s =
    (Inr None, set_node (ref_addr r) (snd (put key rec nd)) (later m c s))"
proof -
  have "truthy rec" using rec
    by (cases rec) (auto simp: valid_task_def validate_task_record_def dget_or_def split: if_splits)
  then have h: "h_put_task_replica (ref_addr r) key rec (later m c s) =
      (Inr (Ok ()), set_node (ref_addr r) (snd (put key rec nd)) (later m c s))" for m c
    using rec nd
    by (simp add: h_put_task_replica_def store_replica_local_def or_422_def py_or_def valid_task_def act_simps)
  obtain m c where "t_put_task_replica (ref_addr r) key rec s =
      (Inr (), set_node (ref_addr r) (snd (put key rec nd)) (later m c s))"
    unfolding t_put_task_replica_def
    by (rule rpc_handler_ok [of s "ref_addr r" _ _ "set_node (ref_addr r) (snd (put key rec nd))", OF lossy _ h])
      (simp add: nd)
  then show thesis
    by (intro that [of m c]) (simp add: put_with_retry_def retrying_first act_simps)
qed

lemma replicas_all_written:
  fixes s :: "'z net_scheme"
  assumes lossy: "lossy s" and refs: "\<forall>r \<in> set rs. refers A s r" and rec: "valid_task rec"
  obtains s' where "fan_out (\<lambda>r. put_with_retry r key rec) rs s = (Inr (rs, []), s')" "frame s s'"
    "\<forall>r \<in> set rs. holds (ref_addr r) key rec s'"
    "\<forall>r :: nref. holds (ref_addr r) key rec s \<longrightarrow> holds (ref_addr r) key rec s'"
proof -
  let ?Q = "\<lambda>r :: nref. holds (ref_addr r) key rec"
  have step: "\<exists>s2. put_with_retry r key rec s1 = (Inr None, s2) \<and> frame s s2 \<and> ?Q r s2 \<and> (\<forall>r'. ?Q r' s1 \<longrightarrow> ?Q r' s2)"
    if r: "r \<in> set rs" and fr: "frame s s1" for r s1
  proof -
    have "refers A s1 r" using refs r frame_refers [OF fr] by blast
    then obtain nd where nd: "nodes s1 (ref_addr r) = Some nd" by (auto simp: refers_def dest: memberD)
    have "lossy s1" using lossy frame_lossy [OF fr] by simp
    then obtain m c where run: "put_with_retry r key rec s1 =
        (Inr None, set_node (ref_addr r) (snd (put key rec nd)) (later m c s1))"
      by (rule put_with_retry_ok [OF _ nd rec])
    have "frame s1 (set_node (ref_addr r) (snd (put key rec nd)) (later m c s1))"
      by (rule frame_trans [OF frame_later frame_set_node]) (use nd in auto)
    then show ?thesis using run fr nd by (auto simp: holds_def intro: frame_trans)
  qed
  have "\<exists>s'. fan_out (\<lambda>r. put_with_retry r key rec) rs s = (Inr (rs, []), s') \<and> frame s s' \<and>
      (\<forall>r \<in> set rs. ?Q r s') \<and> (\<forall>r'. ?Q r' s \<longrightarrow> ?Q r' s')"
    by (rule task_put.fan_out_all [where P = "frame s" and Q = ?Q]) (use step in auto)
  then show thesis using that by blast
qed

lemma replicate_write_stable:
  fixes s :: "'z net_scheme"
  assumes st: "stable A s" and lossy: "lossy s" and primary: "refers A s primary" and rec: "valid_task rec"
  shows "\<exists>res s'. replicate_write k key rec primary s = (Inr res, s') \<and> frame s s' \<and>
    sr_failed res = [] \<and> sr_done res = sr_targets res \<and>
    (\<forall>r \<in> set (sr_targets res). holds (ref_addr r) key rec s') \<and>
    (\<forall>a. holds a key rec s \<longrightarrow> holds a key rec s') \<and>
    Suc (length (sr_targets res)) = min (nat (max 1 k)) (card (ring_ids A s)) \<and>
    (sr_complete res \<longleftrightarrow> (max 1 k + 1) div 2 \<le> int (min (nat (max 1 k)) (card (ring_ids A s))))"
proof -
  obtain cs m c where cs: "get_successor_chain k primary s = (Inr cs, later m c s)" "cs \<noteq> []"
    "\<forall>r \<in> set cs. refers A s r" "length cs = min (nat (max 1 k)) (card (ring_ids A s))"
    using chain_stable [OF st lossy primary, of k] by blast
  have "\<forall>r \<in> set (tl cs). refers A (later m c s) r" using cs(2,3) by (auto dest: list.set_sel(2))
  then obtain s' where s': "fan_out (\<lambda>r. put_with_retry r key rec) (tl cs) (later m c s) = (Inr (tl cs, []), s')"
    "frame (later m c s) s'" "\<forall>r \<in> set (tl cs). holds (ref_addr r) key rec s'"
    "\<forall>r :: nref. holds (ref_addr r) key rec (later m c s) \<longrightarrow> holds (ref_addr r) key rec s'"
    using replicas_all_written [of "later m c s" "tl cs" A rec key] lossy rec by auto
  have kept: "holds a key rec s \<longrightarrow> holds a key rec s'" for a
    using s'(4) [rule_format, of "\<lparr>ref_id = 0, ref_addr = a\<rparr>"] by simp
  let ?res = "\<lparr>sr_primary = primary, sr_targets = tl cs, sr_done = tl cs, sr_failed = [],
      sr_complete = ((max 1 k + 1) div 2 \<le> 1 + int (length (tl cs))),
      sr_required = (max 1 k + 1) div 2, sr_achieved = 1 + int (length (tl cs))\<rparr>"
  have "replicate_write k key rec primary s = (Inr ?res, s')"
    by (simp only: replicate_write_def act_simps cs(1) s'(1) Let_def quorum_half sum.case prod.case)
  moreover have "Suc (length (tl cs)) = min (nat (max 1 k)) (card (ring_ids A s))"
    using cs(2,4) by (cases cs) auto
  moreover from this have "1 + int (length (tl cs)) = int (min (nat (max 1 k)) (card (ring_ids A s)))"
    by linarith
  moreover have "frame s s'" using frame_trans [OF frame_later s'(2)] .
  ultimately show ?thesis
    using s'(3) kept by (intro exI [of _ ?res] exI [of _ s']) auto
qed



text \<open>
  Whatever the network does, \<open>replicate_write\<close> returns, with every target reported exactly
  once, as written or as failed with its last error; the state is COMPLETE exactly when one
  plus the number of replicas written reaches \<open>ceil (max 1 k / 2)\<close>.
\<close>

theorem replicate_write_accounts:
  "\<exists>res s'. replicate_write k key rec primary s = (Inr res, s') \<and>
     length (sr_done res) + length (sr_failed res) = length (sr_targets res) \<and>
     set (sr_done res) \<union> fst ` set (sr_failed res) = set (sr_targets res) \<and>
     distinct (List.map ref_addr (primary # sr_targets res)) \<and>
     length (sr_targets res) < nat (max 1 k) \<and>
     (sr_complete res \<longleftrightarrow> (max 1 k + 1) div 2 \<le> 1 + int (length (sr_done res)))"
proof -
  obtain n where n: "nat (max 1 k) = Suc n" by (cases "nat (max 1 k)") auto
  obtain cs s1 where cs: "chain_from (Suc n) [] primary s = (Inr cs, s1)"
    using chain_from_returns by blast
  have "cs \<noteq> [] \<and> hd cs = primary" using chain_from_shape [OF cs] by simp
  then have shape: "length cs \<le> Suc n" "distinct (List.map ref_addr cs)" "cs = primary # tl cs"
    using chain_from_shape [OF cs] list.collapse [of cs] by metis+
  obtain ok bad s' where "fan_out (\<lambda>r. put_with_retry r key rec) (tl cs) s1 = (Inr (ok, bad), s')"
    "length ok + length bad = length (tl cs)" "set ok \<union> fst ` set bad = set (tl cs)"
    using task_put.fan_out_returns by blast
  moreover have "length (tl cs) < nat (max 1 k)" using shape(1,3) n by (metis Suc_le_lessD length_Cons)
  moreover have "distinct (List.map ref_addr (primary # tl cs))" using shape(2,3) by metis
  ultimately show ?thesis
    using cs n by (simp add: replicate_write_def get_successor_chain_def act_simps Let_def quorum_half)
qed

end
