(* ===== verification/TaskService.thy ===== *)
theory TaskService
  imports Replication
begin

text \<open>
  \<open>TaskService\<close> of \<open>storage/task_service.py\<close> and the handlers of \<open>chord/server.py\<close> that expose
  it. \<open>me\<close> is the address of the process that serves the call, \<open>fuel\<close> the bound of its
  lookups, \<open>k\<close> the replication factor, \<open>generated\<close> the identifier \<open>uuid4\<close> would give.
\<close>

section \<open>Access to the node responsible for a key\<close>

definition PRIMARY_WRITE_RETRIES :: nat where
  "PRIMARY_WRITE_RETRIES = 2"

definition PRIMARY_WRITE_DELAY :: int where
  "PRIMARY_WRITE_DELAY = 200000"

definition owner_for_key :: "nat \<Rightarrow> string \<Rightarrow> string \<Rightarrow> ('z net_scheme, nref) act" where
  "owner_for_key fuel me key = find_successor fuel me (sha1_id key)"

definition re_resolve :: "nat \<Rightarrow> string \<Rightarrow> string \<Rightarrow> nat \<Rightarrow> nref \<Rightarrow> ('z net_scheme, nref) act" where
  "re_resolve fuel me key i node_ref =
     andthen (find_successor fuel me (sha1_id key)) (\<lambda>new_primary.
     andthen (sleep (PRIMARY_WRITE_DELAY * 2 ^ i)) (\<lambda>_. ret new_primary))"

definition put_on_node :: "nat \<Rightarrow> string \<Rightarrow> nref \<Rightarrow> string \<Rightarrow> json \<Rightarrow> ('z net_scheme, unit) act" where
  "put_on_node fuel me node_ref key val =
     andthen (read_node me node_id) (\<lambda>nid.
       if ref_id node_ref = nid then andthen (on_node me (put key val)) (\<lambda>_. ret ())
       else retrying (\<lambda>e. e \<noteq> OutOfFuel) (re_resolve fuel me key) (\<lambda>r. t_put (ref_addr r) key val)
              PRIMARY_WRITE_RETRIES 0 node_ref)"

definition get_on_node :: "string \<Rightarrow> nref \<Rightarrow> string \<Rightarrow> ('z net_scheme, json option) act" where
  "get_on_node me node_ref key =
     andthen (read_node me node_id) (\<lambda>nid.
       if ref_id node_ref = nid then read_node me (get key) else t_get (ref_addr node_ref) key)"

definition delete_on_node :: "string \<Rightarrow> nref \<Rightarrow> string \<Rightarrow> ('z net_scheme, bool) act" where
  "delete_on_node me node_ref key =
     andthen (read_node me node_id) (\<lambda>nid.
       if ref_id node_ref = nid then on_node me (delete key) else t_delete (ref_addr node_ref) key)"

section \<open>Operations\<close>

definition ref_json :: "nref \<Rightarrow> json" where
  "ref_json r = JObj [(''id'', JInt (ref_id r)), (''address'', JStr (ref_addr r))]"

record task_reply =
  tr_task :: json
  tr_key :: string
  tr_storage :: storage_result

definition get_task :: "nat \<Rightarrow> string \<Rightarrow> int \<Rightarrow> json \<Rightarrow> bool \<Rightarrow> ('z net_scheme, json option) act" where
  "get_task fuel me k task_id allow_replica_read =
     andthen (lift (build_task_key task_id)) (\<lambda>key.
     andthen (owner_for_key fuel me key) (\<lambda>primary.
     andthen (catch (get_on_node me primary key) (\<lambda>_. ret None)) (\<lambda>v.
     andthen (if v = None \<and> allow_replica_read then read_from_replicas k key primary else ret v) (\<lambda>v.
     case v of
       None \<Rightarrow> ret None
     | Some x \<Rightarrow>
         if \<not> is_task_record x then ret None
         else andthen (lift (validate_task_record x)) (\<lambda>_. ret (Some x))))))"

definition register_task :: "nat \<Rightarrow> string \<Rightarrow> int \<Rightarrow> string \<Rightarrow> json \<Rightarrow> ('z net_scheme, task_reply) act" where
  "register_task fuel me k generated task_input =
     andthen (lift (if is_dict task_input then Inr (dget (dict_of task_input) ''task_id'')
                    else Inl (AttributeError ''get''))) (\<lambda>task_id.
     andthen (if truthy task_id then
                andthen (get_task fuel me k task_id True) (\<lambda>existing.
                case existing of
                  None \<Rightarrow> ret ()
                | Some x \<Rightarrow>
                    if truthy x \<and> dget (dict_of x) ''status'' \<noteq> JStr ''DELETED''
                    then throw (TaskConflictError ''task already exists'') else ret ())
              else ret ()) (\<lambda>_.
     andthen (lift (build_task_key (if truthy task_id then task_id else JStr generated))) (\<lambda>key.
     andthen (owner_for_key fuel me key) (\<lambda>primary.
     andthen (lift (after_first ''task:'' key)) (\<lambda>final_id.
     andthen (gets clock) (\<lambda>now.
     andthen (lift (create_task_record now generated task_input (ref_json primary) k (JStr final_id))) (\<lambda>rec0.
     andthen (get_successor_chain k primary) (\<lambda>chain.
     andthen (gets clock) (\<lambda>now.
     andthen (lift (set_replica_nodes now rec0 (List.map ref_json (tl chain)))) (\<lambda>rec.
     andthen (put_on_node fuel me primary key rec) (\<lambda>_.
     andthen (replicate_write k key rec primary) (\<lambda>storage.
     ret \<lparr>tr_task = rec, tr_key = key, tr_storage = storage\<rparr>))))))))))))"

text \<open>The existing record of a task that an operation needs.\<close>

definition existing_task :: "nat \<Rightarrow> string \<Rightarrow> int \<Rightarrow> json \<Rightarrow> ('z net_scheme, json) act" where
  "existing_task fuel me k task_id =
     andthen (get_task fuel me k task_id True) (\<lambda>existing.
     case existing of
       None \<Rightarrow> throw (TaskNotFoundError ''task not found'')
     | Some x \<Rightarrow> ret x)"

definition deregister_task :: "nat \<Rightarrow> string \<Rightarrow> int \<Rightarrow> json \<Rightarrow> bool \<Rightarrow> ('z net_scheme, task_reply) act" where
  "deregister_task fuel me k task_id hard_delete =
     andthen (lift (build_task_key task_id)) (\<lambda>key.
     andthen (owner_for_key fuel me key) (\<lambda>primary.
     andthen (existing_task fuel me k task_id) (\<lambda>existing.
     if hard_delete then
       andthen (delete_on_node me primary key) (\<lambda>_.
       andthen (delete_replicas k key primary) (\<lambda>storage.
       ret \<lparr>tr_task = task_id, tr_key = key, tr_storage = storage\<rparr>))
     else
       andthen (gets clock) (\<lambda>now.
       andthen (lift (mark_task_deleted now existing)) (\<lambda>rec.
       andthen (put_on_node fuel me primary key rec) (\<lambda>_.
       andthen (replicate_write k key rec primary) (\<lambda>storage.
       ret \<lparr>tr_task = rec, tr_key = key, tr_storage = storage\<rparr>)))))))"

definition update_task :: "nat \<Rightarrow> string \<Rightarrow> int \<Rightarrow> json \<Rightarrow> jdict \<Rightarrow> ('z net_scheme, task_reply) act" where
  "update_task fuel me k task_id patch =
     andthen (lift (build_task_key task_id)) (\<lambda>key.
     andthen (owner_for_key fuel me key) (\<lambda>primary.
     andthen (existing_task fuel me k task_id) (\<lambda>existing.
     if dget (dict_of existing) ''status'' = JStr ''DELETED'' then
       throw (TaskValidationError ''cannot update a deleted task'')
     else
       andthen (gets clock) (\<lambda>now.
       andthen (lift (update_task_record now existing patch)) (\<lambda>rec.
       andthen (put_on_node fuel me primary key rec) (\<lambda>_.
       andthen (replicate_write k key rec primary) (\<lambda>storage.
       ret \<lparr>tr_task = rec, tr_key = key, tr_storage = storage\<rparr>)))))))"

text \<open>The filters and the loop of \<open>query_local_tasks\<close>; the limit is tested after each hit.\<close>

definition query_matches :: "string option \<Rightarrow> string option \<Rightarrow> bool \<Rightarrow> json \<Rightarrow> bool" where
  "query_matches job_id status include_deleted v \<longleftrightarrow>
     is_task_record v \<and>
     (include_deleted \<or> dget (dict_of v) ''status'' \<noteq> JStr ''DELETED'') \<and>
     (case job_id of Some j \<Rightarrow> j = [] \<or> dget (dict_of v) ''job_id'' = JStr j | None \<Rightarrow> True) \<and>
     (case status of Some t \<Rightarrow> t = [] \<or> dget (dict_of v) ''status'' = JStr t | None \<Rightarrow> True)"

fun query_loop :: "(json \<Rightarrow> bool) \<Rightarrow> int \<Rightarrow> json list \<Rightarrow> json list \<Rightarrow> json list" where
  "query_loop p limit results [] = results"
| "query_loop p limit results (v # vs) =
     (if \<not> p v then query_loop p limit results vs
      else let results' = results @ [v] in
        if limit \<le> int (length results') then results' else query_loop p limit results' vs)"

definition query_local_tasks ::
  "string option \<Rightarrow> string option \<Rightarrow> bool \<Rightarrow> int \<Rightarrow> chord_node \<Rightarrow> json list" where
  "query_local_tasks job_id status include_deleted limit nd =
     query_loop (query_matches job_id status include_deleted) limit [] (List.map snd (data_store nd))"

record owner_info =
  oi_key :: string
  oi_primary :: nref
  oi_replicas :: "nref list"

definition lookup_owner :: "nat \<Rightarrow> string \<Rightarrow> int \<Rightarrow> json \<Rightarrow> ('z net_scheme, owner_info) act" where
  "lookup_owner fuel me k task_id =
     andthen (lift (build_task_key task_id)) (\<lambda>key.
     andthen (owner_for_key fuel me key) (\<lambda>primary.
     andthen (get_successor_chain k primary) (\<lambda>chain.
     ret \<lparr>oi_key = key, oi_primary = primary, oi_replicas = tl chain\<rparr>)))"

definition get_node_state :: "string \<Rightarrow> string option \<Rightarrow> ('z net_scheme, node_state) act" where
  "get_node_state me addr =
     andthen (read_node me (\<lambda>nd. nd)) (\<lambda>nd.
       case addr of
         None \<Rightarrow> ret (state nd)
       | Some a \<Rightarrow> if a = [] \<or> a = address nd then ret (state nd) else t_get_state a)"

section \<open>Handlers\<close>

text \<open>Which status an exception of a task operation becomes.\<close>

fun task_error_status :: "exn \<Rightarrow> int option" where
  "task_error_status (TaskValidationError _) = Some 422"
| "task_error_status (TaskNotFoundError _) = Some 404"
| "task_error_status _ = None"

definition mapped :: "('s, 'b reply) act \<Rightarrow> ('s, 'b reply) act" where
  "mapped m = catch m (\<lambda>e. case task_error_status e of Some c \<Rightarrow> ret (Status c) | None \<Rightarrow> throw e)"

definition h_register_task :: "nat \<Rightarrow> string \<Rightarrow> int \<Rightarrow> string \<Rightarrow> json \<Rightarrow> ('z net_scheme, task_reply reply) act" where
  "h_register_task fuel me k generated payload =
     catch (andthen (register_task fuel me k generated (py_or payload (JObj []))) (\<lambda>r. ret (Ok r)))
       (\<lambda>e. ret (Status (case e of TaskValidationError _ \<Rightarrow> 422 | TaskConflictError _ \<Rightarrow> 409 | _ \<Rightarrow> 500)))"

definition h_get_task :: "nat \<Rightarrow> string \<Rightarrow> int \<Rightarrow> string \<Rightarrow> bool \<Rightarrow> ('z net_scheme, json reply) act" where
  "h_get_task fuel me k task_id allow_replica_read =
     mapped (andthen (get_task fuel me k (JStr task_id) allow_replica_read) (\<lambda>t.
       case t of None \<Rightarrow> ret (Status 404) | Some x \<Rightarrow> ret (Ok x)))"

definition h_deregister_task :: "nat \<Rightarrow> string \<Rightarrow> int \<Rightarrow> string \<Rightarrow> bool \<Rightarrow> ('z net_scheme, task_reply reply) act" where
  "h_deregister_task fuel me k task_id hard_delete =
     mapped (andthen (deregister_task fuel me k (JStr task_id) hard_delete) (\<lambda>r. ret (Ok r)))"

definition h_patch_task :: "nat \<Rightarrow> string \<Rightarrow> int \<Rightarrow> string \<Rightarrow> jdict \<Rightarrow> ('z net_scheme, task_reply reply) act" where
  "h_patch_task fuel me k task_id patch =
     mapped (andthen (update_task fuel me k (JStr task_id) patch) (\<lambda>r. ret (Ok r)))"

definition h_query_tasks ::
  "string \<Rightarrow> string option \<Rightarrow> string option \<Rightarrow> bool \<Rightarrow> int \<Rightarrow> ('z net_scheme, json list reply) act" where
  "h_query_tasks me job_id status include_deleted limit =
     read_node me (\<lambda>nd. Ok (query_local_tasks job_id status include_deleted limit nd))"

definition h_lookup_task :: "nat \<Rightarrow> string \<Rightarrow> int \<Rightarrow> string \<Rightarrow> ('z net_scheme, owner_info reply) act" where
  "h_lookup_task fuel me k task_id =
     mapped (andthen (lookup_owner fuel me k (JStr task_id)) (\<lambda>r. ret (Ok r)))"

text \<open>The owner and replicas of a key that is hashed as it is.\<close>

definition h_key_owner :: "nat \<Rightarrow> string \<Rightarrow> int \<Rightarrow> string \<Rightarrow> ('z net_scheme, owner_info reply) act" where
  "h_key_owner fuel me k key =
     andthen (find_successor fuel me (sha1_id key)) (\<lambda>primary.
     andthen (get_successor_chain k primary) (\<lambda>chain.
     ret (Ok \<lparr>oi_key = key, oi_primary = primary, oi_replicas = tl chain\<rparr>)))"

definition h_node_self :: "string \<Rightarrow> ('z net_scheme, node_state reply) act" where
  "h_node_self me = andthen (get_node_state me None) (\<lambda>r. ret (Ok r))"

definition h_node_query :: "string \<Rightarrow> string option \<Rightarrow> ('z net_scheme, node_state reply) act" where
  "h_node_query me addr =
     (if addr = None \<or> addr = Some [] then ret (Status 422)
      else catch (andthen (get_node_state me addr) (\<lambda>r. ret (Ok r))) (\<lambda>_. ret (Status 502)))"

section \<open>Access in a stable ring\<close>

text \<open>
  The lookup of \<open>key\<close> from this node is right: the key is not the node's own identifier, or
  the node is alone.
\<close>

definition routes :: "chord_node \<Rightarrow> int \<Rightarrow> bool" where
  "routes nd key \<longleftrightarrow> key \<noteq> node_id nd \<or> ref_id (successor nd) = node_id nd"

lemma find_successor_ok:
  fixes s :: "'z net_scheme"
  assumes "stable A s" and "lossy s" and "member A s me nd" and "is_id key" and "routes nd key" and "255 \<le> fuel"
  obtains r m c where "find_successor fuel me key s = (Inr r, later m c s)" "responsible A s key r"
proof (cases "key = node_id nd")
  case True
  then have "in_range key (node_id nd) (ref_id (successor nd)) True"
    using assms(5) by (simp add: routes_def in_range_def)
  then show thesis
    using find_successor_here [OF assms(3)] responsible_here [OF assms(1,3,4)]
    by (intro that [of "successor nd" 0 0]) auto
next
  case False
  have "cw (node_id nd) key \<le> int fuel"
    using assms(6) cw_less [of "node_id nd" key] by (simp add: ring_size_256)
  from find_successor_by_distance [OF assms(1-4) False this] show thesis using that by blast
qed

lemma same_place_routes: "same_place nd nd' \<Longrightarrow> routes nd' k = routes nd k"
  by (simp add: routes_def same_place_def successor_def)

lemma responsible_self:
  assumes "stable A s" and "member A s me nd" and "refers A s r" and "ref_id r = node_id nd"
  shows "ref_addr r = me"
  using assms unfolding stable_def refers_def by metis

lemma put_on_node_run:
  fixes s :: "'z net_scheme"
  assumes st: "stable A s" and lossy: "lossy s" and me: "member A s me nd" and r: "refers A s r"
  obtains nr m c where "nodes s (ref_addr r) = Some nr"
    "put_on_node fuel me r key v s = (Inr (), set_node (ref_addr r) (snd (put key v nr)) (later m c s))"
proof (cases "ref_id r = node_id nd")
  case True
  have addr: "ref_addr r = me" by (rule responsible_self [OF st me r True])
  have "put_on_node fuel me r key v s = (Inr (), set_node me (snd (put key v nd)) (later 0 0 s))"
    using True memberD(1) [OF me] by (simp add: put_on_node_def act_simps)
  with addr memberD(1) [OF me] show thesis by (intro that [of nd 0 0]) auto
next
  case False
  obtain nr where nr: "nodes s (ref_addr r) = Some nr" using r by (auto simp: refers_def dest: memberD)
  obtain m c where "t_put (ref_addr r) key v s = (Inr (), set_node (ref_addr r) (snd (put key v nr)) (later m c s))"
    unfolding t_put_def h_data_put_def by (rule rpc_on_node [OF lossy nr]) auto
  then have "put_on_node fuel me r key v s = (Inr (), set_node (ref_addr r) (snd (put key v nr)) (later m c s))"
    using False memberD(1) [OF me] by (simp add: put_on_node_def act_simps retrying_first)
  with nr show thesis by (rule that)
qed

lemma put_on_node_ok:
  fixes s :: "'z net_scheme"
  assumes "stable A s" and "lossy s" and "member A s me nd" and "refers A s r"
  obtains s' where "put_on_node fuel me r key v s = (Inr (), s')" "frame s s'" "holds (ref_addr r) key v s'"
proof -
  obtain nr m c where nr: "nodes s (ref_addr r) = Some nr"
    "put_on_node fuel me r key v s = (Inr (), set_node (ref_addr r) (snd (put key v nr)) (later m c s))"
    by (rule put_on_node_run [OF assms])
  moreover have "frame s (set_node (ref_addr r) (snd (put key v nr)) (later m c s))"
    by (rule frame_trans [OF frame_later frame_set_node]) (use nr in auto)
  ultimately show thesis by (intro that) (auto simp: holds_def)
qed

lemma get_on_node_ok:
  fixes s :: "'z net_scheme"
  assumes st: "stable A s" and lossy: "lossy s" and me: "member A s me nd" and r: "refers A s r"
    and v: "holds (ref_addr r) key v s" "v \<noteq> JNull"
  obtains m c where "get_on_node me r key s = (Inr (Some v), later m c s)"
proof (cases "ref_id r = node_id nd")
  case True
  have "ref_addr r = me" by (rule responsible_self [OF st me r True])
  then have "get key nd = Some v" using v memberD(1) [OF me] by (auto simp: holds_def get_def)
  then have "get_on_node me r key s = (Inr (Some v), later 0 0 s)"
    using True memberD(1) [OF me] by (simp add: get_on_node_def act_simps)
  then show thesis by (rule that)
next
  case False
  obtain nr where nr: "nodes s (ref_addr r) = Some nr" "map_of (data_store nr) key = Some v"
    using v by (auto simp: holds_def)
  obtain m c where "rpc_opt (ref_addr r) (h_data_get (ref_addr r) key) s = (Inr (Some v), later m c s)"
  proof -
    obtain m c where "request (ref_addr r) (h_data_get (ref_addr r) key) s =
        serve (h_data_get (ref_addr r) key) (later m c s)"
      by (rule request_lossy [OF lossy, of "ref_addr r"]) (use nr in auto)
    moreover have "serve (h_data_get (ref_addr r) key) (later m c s) = (Inr (Ok v), later m c s)"
      using nr v(2) by (intro serve_Inr) (simp add: h_data_get_def act_simps get_def)
    ultimately show thesis
      by (intro that [of m c]) (simp add: rpc_opt_def act_simps raise_for_status_def)
  qed
  then have "get_on_node me r key s = (Inr (Some v), later m c s)"
    using False memberD(1) [OF me] by (simp add: get_on_node_def act_simps t_get_def)
  then show thesis by (rule that)
qed

lemma get_task_ok:
  fixes s :: "'z net_scheme"
  assumes st: "stable A s" and lossy: "lossy s" and me: "member A s me nd" and fuel: "255 \<le> fuel"
    and key: "build_task_key tid = Inr key" "routes nd (sha1_id key)"
    and primary: "responsible A s (sha1_id key) primary" "holds (ref_addr primary) key rec s"
    and rec: "valid_task rec"
  obtains m c where "get_task fuel me k tid allow s = (Inr (Some rec), later m c s)"
proof -
  obtain r m c where look: "find_successor fuel me (sha1_id key) s = (Inr r, later m c s)"
    "responsible A s (sha1_id key) r"
    by (rule find_successor_ok [OF st lossy me _ key(2) fuel]) auto
  then have r: "r = primary" using responsible_unique [OF st _ _ primary(1)] by simp
  have "rec \<noteq> JNull" using valid_task_obj [OF rec] by auto
  then obtain m' c' where "get_on_node me primary key (later m c s) = (Inr (Some rec), later m' c' (later m c s))"
    using get_on_node_ok [of A "later m c s" me nd primary key rec] st lossy me primary
    by (auto simp: responsible_def)
  then have "get_task fuel me k tid allow s = (Inr (Some rec), later m' c' (later m c s))"
    using look(1) rec valid_task_is_record [OF rec]
    by (simp add: get_task_def owner_for_key_def act_simps key(1) r valid_task_def)
  then show thesis by (intro that) simp
qed

text \<open>Writing a record on the primary and its replicas.\<close>

lemma write_ok:
  fixes s :: "'z net_scheme"
  assumes st: "stable A s" and lossy: "lossy s" and me: "member A s me nd"
    and r: "refers A s r" and rec: "valid_task rec"
  obtains res s' where
    "andthen (put_on_node fuel me r key rec) (\<lambda>_. replicate_write k key rec r) s = (Inr res, s')"
    "frame s s'" "holds (ref_addr r) key rec s'" "sr_failed res = []"
proof -
  obtain s1 where s1: "put_on_node fuel me r key rec s = (Inr (), s1)" "frame s s1" "holds (ref_addr r) key rec s1"
    by (rule put_on_node_ok [OF st lossy me r])
  have "stable A s1" "lossy s1" "refers A s1 r"
    using frame_stable_imp [OF s1(2) st] frame_lossy [OF s1(2)] frame_refers [OF s1(2)] lossy r by auto
  from replicate_write_stable [OF this rec, of k key] obtain res s' where
    "replicate_write k key rec r s1 = (Inr res, s')" "frame s1 s'" "sr_failed res = []"
    "\<forall>a. holds a key rec s1 \<longrightarrow> holds a key rec s'" by blast
  then show thesis using s1 by (intro that [of res s']) (auto simp: act_simps intro: frame_trans)
qed

section \<open>Properties\<close>

text \<open>The payload of a registration without an identifier that the schema accepts.\<close>

definition acceptable :: "jdict \<Rightarrow> bool" where
  "acceptable d \<longleftrightarrow> \<not> truthy (dget d ''task_id'') \<and>
     is_nonblank (dget d ''job_id'') \<and> is_nonblank (dget d ''type'') \<and> ''payload'' \<in> set (dkeys d) \<and>
     (\<exists>st \<in> set TASK_STATUSES. dget_or (JStr ''REGISTERED'') d ''status'' = JStr st) \<and>
     is_int (dget_or (JInt 0) d ''priority'')"

lemma create_acceptable:
  assumes "acceptable d" and "is_nonblank (JStr i)"
  shows "\<exists>r. create_task_record now g (JObj d) (ref_json owner) k (JStr i) = Inr r \<and> valid_task r \<and>
    dget (dict_of r) ''version'' = JInt 1 \<and> ''version'' \<in> set (dkeys (dict_of r)) \<and>
    dget (dict_of r) ''task_id'' = JStr (strip i)"
proof -
  have key: "x \<in> set (dkeys d)" if "is_nonblank (dget d x)" for x
  proof (rule ccontr)
    assume "x \<notin> set (dkeys d)"
    then have "map_of d x = None" by (simp add: dkeys_def map_of_eq_None_iff)
    with that show False by (simp add: dget_or_def)
  qed
  have "i \<noteq> []" using assms(2) by (auto simp: strip_def)
  then have "py_or (JStr i) x = JStr i" for x by (simp add: py_or_def)
  moreover have "validate_required_task_fields (JObj d) = Inr d"
    using assms(1) key by (simp add: acceptable_def)
  moreover obtain st where "st \<in> set TASK_STATUSES" "dget_or (JStr ''REGISTERED'') d ''status'' = JStr st"
    using assms(1) unfolding acceptable_def by blast
  ultimately show ?thesis
    using assms by (simp add: create_task_record_def valid_task_def validate_task_record_def dget_or_Cons
        eq_int_def Let_def acceptable_def ref_json_def dkeys_def)
qed

text \<open>
  What a run has written, any member reads back: the run may have replaced stored values and
  taken time, but it left every node in its place.
\<close>

lemma written_read:
  fixes s :: "'z net_scheme"
  assumes st: "stable A s" and lossy: "lossy s" and fuel: "255 \<le> fuel" and fr: "frame s s'"
    and key: "build_task_key tid = Inr key" and reader: "member A s reader rd" "routes rd (sha1_id key)"
    and primary: "responsible A s (sha1_id key) r" "holds (ref_addr r) key rec s'" and rec: "valid_task rec"
  shows "\<exists>m c. get_task fuel reader k tid allow s' = (Inr (Some rec), later m c s')"
proof -
  obtain rd' where rd': "member A s' reader rd'" "same_place rd rd'" by (rule frame_member [OF fr reader(1)])
  have "stable A s'" "lossy s'" "responsible A s' (sha1_id key) r" "routes rd' (sha1_id key)"
    using frame_stable_imp [OF fr st] frame_lossy [OF fr] frame_responsible [OF fr] primary(1) lossy
      same_place_routes [OF rd'(2)] reader(2) by auto
  from get_task_ok [OF this(1,2) rd'(1) fuel key this(4,3) primary(2) rec] show ?thesis by blast
qed

text \<open>
  The record that a registration writes: made from the payload for the responsible node, then
  given the other nodes of its chain as replicas.
\<close>

definition registered_as :: "string set \<Rightarrow> 'z net_scheme \<Rightarrow> int \<Rightarrow> string \<Rightarrow> jdict \<Rightarrow> json \<Rightarrow> bool" where
  "registered_as A s k g d rec \<longleftrightarrow>
     (\<exists>now now' r rs rec0. refers A s r \<and> (\<forall>q \<in> set rs. refers A s q) \<and>
        create_task_record now g (JObj d) (ref_json r) k (JStr (strip g)) = Inr rec0 \<and>
        set_replica_nodes now' rec0 (List.map ref_json rs) = Inr rec)"

lemma register_ok:
  fixes s :: "'z net_scheme"
  assumes st: "stable A s" and lossy: "lossy s" and me: "member A s me nd" and fuel: "255 \<le> fuel"
    and d: "acceptable d" and gen: "is_nonblank (JStr g)"
    and routes: "routes nd (sha1_id (''task:'' @ strip g))"
  obtains res s' where "register_task fuel me k g (JObj d) s = (Inr res, s')" "frame s s'"
    "dget (dict_of (tr_task res)) ''task_id'' = JStr (strip g)" "registered_as A s k g d (tr_task res)"
    "\<And>reader rd tid allow. member A s reader rd \<Longrightarrow> routes rd (sha1_id (''task:'' @ strip g)) \<Longrightarrow>
       build_task_key tid = build_task_key (JStr g) \<Longrightarrow>
       \<exists>m c. get_task fuel reader k tid allow s' = (Inr (Some (tr_task res)), later m c s')"
proof -
  let ?key = "''task:'' @ strip g"
  have key: "build_task_key (JStr g) = Inr ?key" using gen by (simp add: build_task_key_def)
  have blank: "is_nonblank (JStr (strip g))" using gen by simp
  obtain r m c where look: "find_successor fuel me (sha1_id ?key) s = (Inr r, later m c s)"
    and r: "responsible A s (sha1_id ?key) r"
    by (rule find_successor_ok [OF st lossy me _ routes fuel]) auto
  let ?s1 = "later m c s"
  obtain rec0 where rec0: "create_task_record (clock ?s1) g (JObj d) (ref_json r) k (JStr (strip g)) = Inr rec0"
    "valid_task rec0" "dget (dict_of rec0) ''version'' = JInt 1" "''version'' \<in> set (dkeys (dict_of rec0))"
    "dget (dict_of rec0) ''task_id'' = JStr (strip g)"
    using create_acceptable [OF d blank] strip_strip by metis
  have st1: "stable A ?s1" "lossy ?s1" "refers A ?s1 r" "member A ?s1 me nd"
    using st lossy r me by (auto simp: responsible_def)
  obtain cs m2 c2 where cs: "get_successor_chain k r ?s1 = (Inr cs, later m2 c2 ?s1)" "cs \<noteq> []" "\<forall>q \<in> set cs. refers A ?s1 q"
    using chain_stable [OF st1(1-3), of k] by metis
  let ?s2 = "later m2 c2 ?s1"
  obtain rec where rec: "set_replica_nodes (clock ?s2) rec0 (List.map ref_json (tl cs)) = Inr rec"
    "valid_task rec" "dget (dict_of rec) ''task_id'' = JStr (strip g)"
    using set_replica_nodes_ok [OF rec0(2-4)] rec0(5) by metis
  have st2: "stable A ?s2" "lossy ?s2" "refers A ?s2 r" "member A ?s2 me nd"
    using st lossy r me by (auto simp: responsible_def)
  obtain sr s' where w: "andthen (put_on_node fuel me r ?key rec) (\<lambda>_. replicate_write k ?key rec r) ?s2 = (Inr sr, s')"
    "frame ?s2 s'" "holds (ref_addr r) ?key rec s'"
    by (rule write_ok [OF st2(1,2,4,3) rec(2)])
  let ?res = "\<lparr>tr_task = rec, tr_key = ?key, tr_storage = sr\<rparr>"
  have "after_first ''task:'' ?key = Inr (strip g)" by (rule after_first_prefix) simp
  moreover have "\<not> truthy (dget d ''task_id'')" using d by (simp add: acceptable_def)
  moreover obtain s3 where "put_on_node fuel me r ?key rec ?s2 = (Inr (), s3)" "replicate_write k ?key rec r s3 = (Inr sr, s')"
    using w(1) by (auto simp: act_simps split: prod.splits sum.splits)
  ultimately have run: "register_task fuel me k g (JObj d) s = (Inr ?res, s')"
    using look rec0(1) cs(1) rec(1) key
    by (simp add: register_task_def owner_for_key_def act_simps del: later_later)
  have fr: "frame s s'" using w(2) by (auto intro: frame_trans [OF frame_later])
  have read: "\<exists>m c. get_task fuel reader k tid allow s' = (Inr (Some rec), later m c s')"
    if "member A s reader rd" "routes rd (sha1_id ?key)" "build_task_key tid = build_task_key (JStr g)" for reader rd tid allow
    using written_read [OF st lossy fuel fr trans [OF that(3) key] that(1,2) r w(3) rec(2)] .
  have "registered_as A s k g d rec"
    using rec0(1) rec(1) r list.set_sel(2) [OF cs(2)] cs(3) unfolding registered_as_def responsible_def by (metis refers_later)
  with run fr rec(3) read show thesis by (intro that [of ?res s']) simp_all
qed

text \<open>
  C3. Registering a task and reading it back, in a stable ring over a network that loses
  requests: a payload the schema accepts, sent without an identifier, is registered under the
  trimmed generated identifier, and afterwards a read from any member returns the record of
  the reply, with that identifier. (The key must not hash to the identifier of the member that
  looks it up, unless that member is alone: see the lookup of a node's own identifier.)
\<close>

theorem register_then_get:
  fixes s :: "'z net_scheme"
  assumes st: "stable A s" and lossy: "lossy s" and me: "member A s me nd" and fuel: "255 \<le> fuel"
    and d: "acceptable d" and gen: "is_nonblank (JStr g)"
    and routes: "routes nd (sha1_id (''task:'' @ strip g))"
  shows "\<exists>res s'. register_task fuel me k g (JObj d) s = (Inr res, s') \<and> frame s s' \<and>
    dget (dict_of (tr_task res)) ''task_id'' = JStr (strip g) \<and>
    (\<forall>reader rd allow. member A s reader rd \<longrightarrow> routes rd (sha1_id (''task:'' @ strip g)) \<longrightarrow>
       (\<exists>m c. get_task fuel reader k (JStr g) allow s' = (Inr (Some (tr_task res)), later m c s')))"
proof -
  obtain res s' where "register_task fuel me k g (JObj d) s = (Inr res, s')" "frame s s'"
    "dget (dict_of (tr_task res)) ''task_id'' = JStr (strip g)"
    "\<And>reader rd tid allow. member A s reader rd \<Longrightarrow> routes rd (sha1_id (''task:'' @ strip g)) \<Longrightarrow>
       build_task_key tid = build_task_key (JStr g) \<Longrightarrow>
       \<exists>m c. get_task fuel reader k tid allow s' = (Inr (Some (tr_task res)), later m c s')"
    by (rule register_ok [OF assms, of k]) blast
  then show ?thesis by (intro exI [of _ res] exI [of _ s']) auto
qed

text \<open>A ring of one node.\<close>

definition demo_one :: chord_node where
  "demo_one = demo_node ''a'' 10 None [ref10, ref10, ref10, ref10, ref10, ref10, ref10, ref10] []"

definition demo_single :: net where
  "demo_single = \<lparr>nodes = [''a'' \<mapsto> demo_one], fault = (\<lambda>n a. Delivered), sent = 0, clock = 0\<rparr>"

lemma demo_single_member: "member UNIV demo_single a nd \<longleftrightarrow> a = ''a'' \<and> nd = demo_one"
  by (auto simp: member_def demo_single_def)

lemma demo_single_ids: "ring_ids UNIV demo_single = {10}"
  by (auto simp: ring_ids_def demo_single_member demo_one_def)

lemma demo_one_succ: "successor demo_one = ref10"
  by (simp add: successor_def demo_one_def demo_fingers_def upt_M demo_refs)

lemma demo_single_stable: "stable UNIV demo_single"
proof -
  have len: "length [ref10, ref10, ref10, ref10, ref10, ref10, ref10, ref10] = M" by (simp add: M_def)
  have ref: "refers UNIV demo_single ref10"
    by (simp add: refers_def demo_single_member demo_refs demo_one_def)
  have "well_placed UNIV demo_single ''a'' demo_one"
    using demo_fingers_set [OF len] ref len demo_one_succ
    by (fastforce simp: well_placed_def demo_one_def demo_single_ids next_of_def demo_refs)
  then show ?thesis
    by (auto simp: stable_def demo_single_ids demo_single_member ids_set_def is_id_def ring_size_256)
qed

lemma demo_single_lossy: "lossy demo_single"
  by (auto simp: lossy_def demo_single_def)

theorem register_then_get_witness:
  "\<exists>res s'. register_task 255 ''a'' 3 '' t1'' (JObj [(''job_id'', JStr ''j''), (''type'', JStr ''t''), (''payload'', JNull)])
      demo_single = (Inr res, s') \<and> dget (dict_of (tr_task res)) ''task_id'' = JStr ''t1'' \<and>
    (\<exists>m c. get_task 255 ''a'' 3 (JStr '' t1'') True s' = (Inr (Some (tr_task res)), later m c s'))"
proof -
  let ?d = "[(''job_id'', JStr ''j''), (''type'', JStr ''t''), (''payload'', JNull)]"
  have strip: "strip '' t1'' = ''t1''" "strip ''j'' = ''j''" "strip ''t'' = ''t''" by code_simp+
  then have "acceptable ?d"
    by (simp add: acceptable_def dget_or_Cons dkeys_def TASK_STATUSES_def)
  moreover have "routes demo_one k" for k
    by (simp add: routes_def demo_one_succ) (simp add: demo_one_def demo_refs)
  moreover have "member UNIV demo_single ''a'' demo_one" by (simp add: demo_single_member)
  ultimately show ?thesis
    using register_then_get [OF demo_single_stable demo_single_lossy, of "''a''" demo_one 255 ?d "'' t1''" 3]
    by (auto simp: strip)
qed

lemma updated_task:
  assumes "update_task_record now rec patch = Inr r" "valid_task rec" "dget (dict_of rec) ''version'' = JInt v" "wf_dict patch"
  shows "valid_task r" "\<forall>f \<in> set (dkeys patch). dget (dict_of r) f = dget patch f"
    "dget (dict_of r) ''version'' = JInt (v + 1)"
proof -
  have "rec = JObj (dict_of rec)" using assms(2) by (rule valid_task_obj)
  then have u: "update_task_record now (JObj (dict_of rec)) patch = Inr r" using assms(1) by simp
  have "dget_or (JInt 1) (dict_of rec) ''version'' = JInt v"
    using assms(3) by (auto simp: dget_or_def split: option.splits)
  with update_task_effect [OF u assms(4)]
  show "valid_task r" "\<forall>f \<in> set (dkeys patch). dget (dict_of r) f = dget patch f"
    "dget (dict_of r) ''version'' = JInt (v + 1)" by auto
qed

text \<open>
  C7. Updating a stored task, in a stable ring over a network that loses requests: when the
  responsible node holds a valid record that is not deleted and the patch is acceptable for it,
  \<open>update_task\<close> succeeds through a member that routes the key, and every later read through such a
  member returns the patched record, at the next version. (A member routes a key when the key
  does not hash to its own identifier, or when it is alone: a member asked for its own identifier
  names its successor, and the update would fail there.)
\<close>

theorem update_then_get:
  fixes s :: "'z net_scheme"
  assumes st: "stable A s" and lossy: "lossy s" and me: "member A s me nd" and fuel: "255 \<le> fuel"
    and key: "build_task_key tid = Inr key" "routes nd (sha1_id key)"
    and primary: "responsible A s (sha1_id key) primary" "holds (ref_addr primary) key rec s"
    and rec: "valid_task rec" "dget (dict_of rec) ''status'' \<noteq> JStr ''DELETED''" "dget (dict_of rec) ''version'' = JInt v"
    and patch: "wf_dict patch" "\<And>now. \<exists>r. update_task_record now rec patch = Inr r"
  shows "\<exists>res s'. update_task fuel me k tid patch s = (Inr res, s') \<and> frame s s' \<and>
    (\<forall>f \<in> set (dkeys patch). dget (dict_of (tr_task res)) f = dget patch f) \<and>
    dget (dict_of (tr_task res)) ''version'' = JInt (v + 1) \<and>
    (\<forall>reader rd allow. member A s reader rd \<longrightarrow> routes rd (sha1_id key) \<longrightarrow>
       (\<exists>m c. get_task fuel reader k tid allow s' = (Inr (Some (tr_task res)), later m c s')))"
proof -
  obtain r m c where look: "find_successor fuel me (sha1_id key) s = (Inr r, later m c s)"
    "responsible A s (sha1_id key) r"
    by (rule find_successor_ok [OF st lossy me _ key(2) fuel]) auto
  then have r: "r = primary" using responsible_unique [OF st _ _ primary(1)] by simp
  let ?s1 = "later m c s"
  obtain m2 c2 where got: "get_task fuel me k tid True ?s1 = (Inr (Some rec), later m2 c2 ?s1)"
    using get_task_ok [of A ?s1 me nd fuel tid key primary rec k True] st lossy me fuel key primary rec
    by (auto simp: responsible_def)
  let ?s2 = "later m2 c2 ?s1"
  obtain rec' where rec': "update_task_record (clock ?s2) rec patch = Inr rec'" using patch(2) by blast
  note eff = updated_task [OF rec' rec(1,3) patch(1)]
  have st2: "stable A ?s2" "lossy ?s2" "refers A ?s2 primary" "member A ?s2 me nd"
    using st lossy primary me by (auto simp: responsible_def)
  obtain sr s' where w: "andthen (put_on_node fuel me primary key rec') (\<lambda>_. replicate_write k key rec' primary) ?s2 = (Inr sr, s')"
    "frame ?s2 s'" "holds (ref_addr primary) key rec' s'"
    by (rule write_ok [OF st2(1,2,4,3) eff(1)])
  let ?res = "\<lparr>tr_task = rec', tr_key = key, tr_storage = sr\<rparr>"
  obtain s3 where "put_on_node fuel me primary key rec' ?s2 = (Inr (), s3)" "replicate_write k key rec' primary s3 = (Inr sr, s')"
    using w(1) by (auto simp: act_simps split: prod.splits sum.splits)
  then have run: "update_task fuel me k tid patch s = (Inr ?res, s')"
    using look(1) got rec' rec(2) key(1) r
    by (simp add: update_task_def existing_task_def owner_for_key_def act_simps del: later_later)
  have fr: "frame s s'" using w(2) by (auto intro: frame_trans [OF frame_later])
  have read: "\<exists>m c. get_task fuel reader k tid allow s' = (Inr (Some rec'), later m c s')"
    if "member A s reader rd" "routes rd (sha1_id key)" for reader rd allow
    using written_read [OF st lossy fuel fr key(1) that primary(1) w(3) eff(1)] .
  show ?thesis using run fr eff read by (intro exI [of _ ?res] exI [of _ s']) auto
qed

definition demo_stored :: net where
  "demo_stored = set_node ''a'' (demo_one\<lparr>data_store := [(''task:x'', demo_task)]\<rparr>) demo_single"

theorem update_then_get_witness:
  "\<exists>res s'. update_task 255 ''a'' 3 (JStr ''x'') [(''status'', JStr ''RUNNING'')] demo_stored = (Inr res, s') \<and>
    dget (dict_of (tr_task res)) ''status'' = JStr ''RUNNING'' \<and>
    dget (dict_of (tr_task res)) ''version'' = JInt 5"
proof -
  let ?nd = "demo_one\<lparr>data_store := [(''task:x'', demo_task)]\<rparr>"
  have fr: "frame demo_single demo_stored"
    unfolding demo_stored_def by (rule frame_set_node [of _ _ demo_one]) (simp_all add: demo_single_def)
  have st: "stable UNIV demo_stored" "lossy demo_stored"
    using frame_stable_imp [OF fr demo_single_stable] frame_lossy [OF fr] demo_single_lossy by auto
  have me: "member UNIV demo_stored ''a'' ?nd" by (simp add: member_def demo_stored_def)
  have key: "build_task_key (JStr ''x'') = Inr ''task:x''"
  proof -
    have "strip ''x'' = ''x''" by code_simp
    then show ?thesis by (simp add: build_task_key_def)
  qed
  have routes: "routes ?nd k" for k
    using demo_one_succ by (simp add: routes_def successor_def) (simp add: demo_one_def demo_refs)
  have resp: "responsible UNIV demo_stored k ref10" for k
  proof -
    have "refers UNIV demo_single ref10"
      by (simp add: refers_def demo_single_member demo_refs demo_one_def)
    moreover have "ref_id ref10 = 10" by (simp add: demo_refs)
    ultimately have "responsible UNIV demo_single k ref10"
      by (simp add: responsible_def demo_single_ids owner_of_def)
    then show ?thesis using frame_responsible [OF fr, of UNIV k ref10] by simp
  qed
  have holds: "holds (ref_addr ref10) ''task:x'' demo_task demo_stored"
    by (simp add: holds_def demo_stored_def demo_refs)
  have rec: "valid_task demo_task" "dget (dict_of demo_task) ''status'' \<noteq> JStr ''DELETED''"
    "dget (dict_of demo_task) ''version'' = JInt 4"
    by (simp_all add: demo_task_valid) (simp_all add: demo_task_def dget_or_Cons)
  have patch: "wf_dict [(''status'', JStr ''RUNNING'')]" by (simp add: wf_dict_def dkeys_def)
  from update_then_get [OF st me order_refl key routes resp holds rec patch demo_task_updates, of 3]
  show ?thesis by (auto simp: dkeys_def dget_or_Cons)
qed

text \<open>
  C14. \<open>query_local_tasks\<close> returns the stored records that match the filters, in the order of
  the store, cut to the limit; a limit below 1 is treated as 1.
\<close>

theorem query_local_tasks_eq:
  "query_local_tasks job_id status include_deleted limit nd =
     take (nat (max 1 limit)) (filter (query_matches job_id status include_deleted) (List.map snd (data_store nd)))"
proof -
  have "query_loop p limit results vs = results @ take (nat (max 1 limit - int (length results))) (filter p vs)"
    if "int (length results) < max 1 limit" for p vs and results :: "json list"
    using that
  proof (induction vs arbitrary: results)
    case (Cons v vs)
    show ?case
    proof (cases "p v \<and> limit \<le> int (length results) + 1")
      case True
      then have "nat (max 1 limit - int (length results)) = 1" using Cons.prems by linarith
      with True show ?thesis by (simp add: Let_def)
    next
      case False
      show ?thesis
      proof (cases "p v")
        case pv: True
        then have "nat (max 1 limit - int (length results)) = Suc (nat (max 1 limit - int (length (results @ [v]))))"
          using False Cons.prems by simp
        then show ?thesis using Cons.IH [of "results @ [v]"] pv False by (simp add: Let_def)
      qed (use Cons in simp)
    qed
  qed simp
  from this [of "[]"] show ?thesis by (simp add: query_local_tasks_def)
qed

end
