(* ===== verification/Results.thy ===== *)
theory Results
  imports TaskService
begin

text \<open>
  Result records (HT1): \<open>storage/result_record.py\<close>, \<open>storage/result_service.py\<close>, and the
  handlers and transport methods of result replicas. Writes go to the node responsible for
  \<open>result:<task_id>\<close>, replicas are best effort.
\<close>

section \<open>Records\<close>

definition RESULT_SCHEMA_VERSION :: int where
  "RESULT_SCHEMA_VERSION = 1"

definition RESULT_KIND :: string where
  "RESULT_KIND = ''result_details''"

definition VALID_STATUSES :: "string list" where
  "VALID_STATUSES = [''PENDING'', ''RUNNING'', ''SUCCESS'', ''FAILURE'']"

definition VALID_TASK_TYPES :: "string list" where
  "VALID_TASK_TYPES = [''SCRIPT'', ''BINARY'']"

definition VALID_ASSIGNED_BY :: "string list" where
  "VALID_ASSIGNED_BY = [''user'', ''frontend'', ''intelligence'']"

definition build_result_key :: "json \<Rightarrow> exn + string" where
  "build_result_key task_id =
     (if is_nonblank task_id then Inr (''result:'' @ strip (str_of task_id))
      else Inl (ResultValidationError ''task_id must be a non-empty string''))"

fun is_result_record :: "json \<Rightarrow> bool" where
  "is_result_record (JObj d) \<longleftrightarrow> dget d ''kind'' = JStr RESULT_KIND"
| "is_result_record _ \<longleftrightarrow> False"

fun is_str :: "json \<Rightarrow> bool" where
  "is_str (JStr _) = True"
| "is_str _ = False"

text \<open>\<open>if v not in allowed: raise ResultValidationError(msg)\<close>\<close>

definition require_in :: "json \<Rightarrow> string list \<Rightarrow> string \<Rightarrow> exn + unit" where
  "require_in v allowed msg =
     chain (in_str_set v allowed) (\<lambda>known. if known then Inr () else Inl (ResultValidationError msg))"

definition require :: "bool \<Rightarrow> string \<Rightarrow> exn + unit" where
  "require b msg = (if b then Inr () else Inl (ResultValidationError msg))"

text \<open>The keyword arguments of \<open>build_result_record\<close> that have defaults.\<close>

record result_options =
  ro_status :: json
  ro_result :: json
  ro_attempt_count :: int
  ro_max_attempts :: int
  ro_last_failure_reason :: json
  ro_retry_on_failure :: bool
  ro_recovery_history :: "json list"
  ro_recovery_status :: json
  ro_retry_at :: json
  ro_timed_out :: bool

definition default_options :: result_options where
  "default_options =
     \<lparr>ro_status = JStr ''PENDING'', ro_result = JNull, ro_attempt_count = 0, ro_max_attempts = 3,
      ro_last_failure_reason = JNull, ro_retry_on_failure = False, ro_recovery_history = [],
      ro_recovery_status = JNull, ro_retry_at = JNull, ro_timed_out = False\<rparr>"

definition build_result_record ::
  "int \<Rightarrow> json \<Rightarrow> json \<Rightarrow> json \<Rightarrow> json \<Rightarrow> json \<Rightarrow> json \<Rightarrow> result_options \<Rightarrow> exn + json" where
  "build_result_record now task_id task_type path script worker_id assigned_by opts =
     chain (require (truthy task_id \<and> is_str task_id) ''task_id required'') (\<lambda>_.
     chain (require_in task_type VALID_TASK_TYPES ''task_type must be one of BINARY, SCRIPT'') (\<lambda>_.
     chain (require_in (ro_status opts) VALID_STATUSES ''status must be one of the valid statuses'') (\<lambda>_.
     chain (require_in assigned_by VALID_ASSIGNED_BY ''assigned_by must be one of the valid values'') (\<lambda>_.
     chain (require (truthy worker_id \<and> is_str worker_id) ''worker_id required'') (\<lambda>_.
     Inr (JObj
       [(''schema_version'', JInt RESULT_SCHEMA_VERSION),
        (''kind'', JStr RESULT_KIND),
        (''task_id'', task_id),
        (''task_type'', task_type),
        (''path'', py_or path (JStr [])),
        (''script'', py_or script (JStr [])),
        (''status'', ro_status opts),
        (''worker_id'', worker_id),
        (''assigned_by'', assigned_by),
        (''result'', ro_result opts),
        (''created_at'', JStr (utc_now_iso now)),
        (''updated_at'', JStr (utc_now_iso now)),
        (''attempt_count'', JInt (ro_attempt_count opts)),
        (''max_attempts'', JInt (ro_max_attempts opts)),
        (''last_failure_reason'', ro_last_failure_reason opts),
        (''retry_on_failure'', JBool (ro_retry_on_failure opts)),
        (''recovery_history'', JList (ro_recovery_history opts)),
        (''recovery_status'', ro_recovery_status opts),
        (''retry_at'', ro_retry_at opts),
        (''timed_out'', JBool (ro_timed_out opts))]))))))"

definition validate_result_record :: "json \<Rightarrow> exn + unit" where
  "validate_result_record r =
     chain (require (is_result_record r) ''not a result_details record'') (\<lambda>_.
     chain (require (eq_int (dget (dict_of r) ''schema_version'') RESULT_SCHEMA_VERSION)
              ''unsupported schema version'') (\<lambda>_.
     chain (require_in (dget (dict_of r) ''status'') VALID_STATUSES ''invalid status'') (\<lambda>_.
     chain (require_in (dget (dict_of r) ''task_type'') VALID_TASK_TYPES ''invalid task_type'') (\<lambda>_.
     chain (require_in (dget (dict_of r) ''assigned_by'') VALID_ASSIGNED_BY ''invalid assigned_by'') (\<lambda>_.
     require (truthy (dget (dict_of r) ''worker_id'')) ''worker_id required'')))))"

section \<open>Replica handlers and calls\<close>

definition h_result_replica_put :: "string \<Rightarrow> string \<Rightarrow> json \<Rightarrow> ('z net_scheme, unit reply) act" where
  "h_result_replica_put a task_id record = on_node a (\<lambda>nd. (Ok (), snd (put (''result:'' @ task_id) record nd)))"

definition h_result_replica_get :: "string \<Rightarrow> string \<Rightarrow> ('z net_scheme, json reply) act" where
  "h_result_replica_get a task_id =
     read_node a (\<lambda>nd. case get (''result:'' @ task_id) nd of None \<Rightarrow> Status 404 | Some v \<Rightarrow> Ok v)"

definition h_result_replica_delete :: "string \<Rightarrow> string \<Rightarrow> ('z net_scheme, bool reply) act" where
  "h_result_replica_delete a task_id =
     on_node a (\<lambda>nd. (Ok (fst (delete (''result:'' @ task_id) nd)), snd (delete (''result:'' @ task_id) nd)))"

definition t_put_result_replica :: "string \<Rightarrow> string \<Rightarrow> json \<Rightarrow> ('z net_scheme, unit) act" where
  "t_put_result_replica a task_id record = rpc a (h_result_replica_put a task_id record)"

definition t_get_result_replica :: "string \<Rightarrow> string \<Rightarrow> ('z net_scheme, json option) act" where
  "t_get_result_replica a task_id = rpc_opt a (h_result_replica_get a task_id)"

definition t_delete_result_replica :: "string \<Rightarrow> string \<Rightarrow> ('z net_scheme, unit) act" where
  "t_delete_result_replica a task_id = andthen (rpc a (h_result_replica_delete a task_id)) (\<lambda>_. ret ())"

section \<open>The service\<close>

text \<open>\<open>try: m; record success; except Exception as exc: record failure\<close>\<close>

definition best_effort :: "('s, unit) act \<Rightarrow> ('s, exn option) act" where
  "best_effort m = catch (andthen m (\<lambda>_. ret None)) (\<lambda>e. ret (Some e))"

text \<open>\<open>_replicate\<close>: one attempt per replica, and the quorum.\<close>

definition replicate_best_effort ::
  "int \<Rightarrow> (nref \<Rightarrow> ('z net_scheme, unit) act) \<Rightarrow> nref \<Rightarrow> ('z net_scheme, storage_result) act" where
  "replicate_best_effort k op primary =
     andthen (get_successor_chain k primary) (\<lambda>chain.
     andthen (fan_out (\<lambda>r. best_effort (op r)) (tl chain)) (\<lambda>(written, failed).
       let needed = quorum (max 1 k); achieved = 1 + int (length written) in
       ret \<lparr>sr_primary = primary, sr_targets = tl chain, sr_done = written, sr_failed = failed,
            sr_complete = (needed \<le> achieved), sr_required = needed, sr_achieved = achieved\<rparr>))"

definition result_replicate :: "int \<Rightarrow> string \<Rightarrow> json \<Rightarrow> nref \<Rightarrow> ('z net_scheme, storage_result) act" where
  "result_replicate k task_id record primary =
     replicate_best_effort k (\<lambda>r. t_put_result_replica (ref_addr r) task_id record) primary"

text \<open>The first replica that answers with a record.\<close>

fun first_answer :: "(nref \<Rightarrow> ('z net_scheme, json option) act) \<Rightarrow> nref list \<Rightarrow> ('z net_scheme, json option) act" where
  "first_answer read [] = ret None"
| "first_answer read (r # rs) =
     andthen (catch (read r) (\<lambda>_. ret None)) (\<lambda>v.
       case v of Some x \<Rightarrow> ret (Some x) | None \<Rightarrow> first_answer read rs)"

definition result_read_from_replicas :: "int \<Rightarrow> string \<Rightarrow> nref \<Rightarrow> ('z net_scheme, json option) act" where
  "result_read_from_replicas k task_id primary =
     andthen (get_successor_chain k primary) (\<lambda>chain.
       first_answer (\<lambda>r. t_get_result_replica (ref_addr r) task_id) (tl chain))"

definition result_owner :: "nat \<Rightarrow> string \<Rightarrow> string \<Rightarrow> ('z net_scheme, nref) act" where
  "result_owner fuel me key = find_successor fuel me (sha1_id key)"

text \<open>\<open>_put_on_node\<close>, \<open>_get_on_node\<close>, \<open>_delete_on_node\<close>: the same code as in the task service.\<close>

definition result_put_on_node :: "nat \<Rightarrow> string \<Rightarrow> nref \<Rightarrow> string \<Rightarrow> json \<Rightarrow> ('z net_scheme, unit) act" where
  "result_put_on_node = put_on_node"

definition result_get_on_node :: "string \<Rightarrow> nref \<Rightarrow> string \<Rightarrow> ('z net_scheme, json option) act" where
  "result_get_on_node = get_on_node"

definition result_delete_on_node :: "string \<Rightarrow> nref \<Rightarrow> string \<Rightarrow> ('z net_scheme, bool) act" where
  "result_delete_on_node = delete_on_node"

definition result_put :: "nat \<Rightarrow> string \<Rightarrow> int \<Rightarrow> string \<Rightarrow> json \<Rightarrow> ('z net_scheme, task_reply) act" where
  "result_put fuel me k task_id record =
     andthen (lift (validate_result_record record)) (\<lambda>_.
     andthen (lift (build_result_key (JStr task_id))) (\<lambda>key.
     andthen (result_owner fuel me key) (\<lambda>primary.
     andthen (result_put_on_node fuel me primary key record) (\<lambda>_.
     andthen (result_replicate k task_id record primary) (\<lambda>rep.
     ret \<lparr>tr_task = record, tr_key = key, tr_storage = rep\<rparr>)))))"

definition result_get :: "nat \<Rightarrow> string \<Rightarrow> int \<Rightarrow> string \<Rightarrow> ('z net_scheme, json option) act" where
  "result_get fuel me k task_id =
     andthen (lift (build_result_key (JStr task_id))) (\<lambda>key.
     andthen (result_owner fuel me key) (\<lambda>primary.
     andthen (catch (result_get_on_node me primary key) (\<lambda>_. ret None)) (\<lambda>v.
     andthen (case v of None \<Rightarrow> result_read_from_replicas k task_id primary | Some x \<Rightarrow> ret (Some x)) (\<lambda>v.
     ret (case v of None \<Rightarrow> None | Some x \<Rightarrow> if is_result_record x then Some x else None)))))"

definition result_delete :: "nat \<Rightarrow> string \<Rightarrow> int \<Rightarrow> string \<Rightarrow> ('z net_scheme, bool) act" where
  "result_delete fuel me k task_id =
     andthen (lift (build_result_key (JStr task_id))) (\<lambda>key.
     andthen (result_owner fuel me key) (\<lambda>primary.
     andthen (catch (result_delete_on_node me primary key) (\<lambda>_. ret False)) (\<lambda>ok.
     andthen (get_successor_chain k primary) (\<lambda>chain.
     andthen (for_each (tl chain) (\<lambda>r _. ignoring (t_delete_result_replica (ref_addr r) task_id)) ()) (\<lambda>_.
     ret ok)))))"

section \<open>Lemmas\<close>

definition valid_result :: "json \<Rightarrow> bool" where
  "valid_result r \<longleftrightarrow> validate_result_record r = Inr ()"

lemma require_in_Inr: "require_in v S m = Inr () \<longleftrightarrow> (\<exists>x \<in> set S. v = JStr x)"
  by (auto simp: require_in_def chain_eq_Inr in_str_set_True split: if_splits)

lemma require_Inr: "require b m = Inr () \<longleftrightarrow> b"
  by (simp add: require_def)

lemma valid_result_iff:
  "valid_result r \<longleftrightarrow> is_result_record r \<and> eq_int (dget (dict_of r) ''schema_version'') 1 \<and>
     (\<exists>x \<in> set VALID_STATUSES. dget (dict_of r) ''status'' = JStr x) \<and>
     (\<exists>x \<in> set VALID_TASK_TYPES. dget (dict_of r) ''task_type'' = JStr x) \<and>
     (\<exists>x \<in> set VALID_ASSIGNED_BY. dget (dict_of r) ''assigned_by'' = JStr x) \<and>
     truthy (dget (dict_of r) ''worker_id'')"
  by (auto simp: valid_result_def validate_result_record_def chain_eq_Inr require_in_Inr require_Inr
      RESULT_SCHEMA_VERSION_def)

lemma valid_result_obj: "valid_result r \<Longrightarrow> r = JObj (dict_of r)"
  by (cases r) (auto simp: valid_result_iff)

lemma fueled_best_effort [fueled_intro]: "fueled m \<Longrightarrow> fueled (best_effort m)"
  unfolding best_effort_def by (intro fueled_intro)

lemma best_effort_returns: "fueled m \<Longrightarrow> \<exists>error s'. best_effort m s = (Inr error, s')"
  unfolding best_effort_def by (rule catch_returns) (auto intro!: fueled_intro simp: act_simps)

lemma fueled_put_result_replica: "fueled (t_put_result_replica a i rec)"
  unfolding t_put_result_replica_def h_result_replica_put_def by (intro fueled_intro)

interpretation result_write: replica_op "\<lambda>r. best_effort (t_put_result_replica (ref_addr r) task_id rec)"
  for task_id rec
  by unfold_locales (intro best_effort_returns fueled_put_result_replica)

text \<open>Replication that keeps a frame and what a node holds.\<close>

lemma timeless_holds: "timeless (holds a key v)"
  by (simp add: timeless_def)

lemma keeps_chain_from [keeps_intro]: "timeless P \<Longrightarrow> keeps P (chain_from n visited current)"
proof (induction n arbitrary: visited current)
  case 0
  show ?case by (simp add: keeps_ret)
next
  case (Suc n)
  then show ?case
    unfolding chain_from.simps t_get_state_def h_state_def by (intro keeps_intro)
qed

lemma keeps_get_successor_chain [keeps_intro]: "timeless P \<Longrightarrow> keeps P (get_successor_chain k r)"
  unfolding get_successor_chain_def by (intro keeps_intro)

lemma keeps_fan_out [keeps_intro]: "(\<And>r. keeps P (op r)) \<Longrightarrow> keeps P (fan_out op rs)"
  unfolding fan_out_def collect_def by (intro keeps_intro)

lemma keeps_case_prod [keeps_intro]: "(\<And>a b. keeps P (f a b)) \<Longrightarrow> keeps P (case p of (a, b) \<Rightarrow> f a b)"
  by (cases p) auto

lemma keeps_best_effort [keeps_intro]: "keeps P m \<Longrightarrow> keeps P (best_effort m)"
  unfolding best_effort_def by (intro keeps_intro)

lemma keeps_replicate_best_effort [keeps_intro]:
  "timeless P \<Longrightarrow> (\<And>r. keeps P (op r)) \<Longrightarrow> keeps P (replicate_best_effort k op r)"
  unfolding replicate_best_effort_def by (intro keeps_intro)

lemma keeps_on_node_holds:
  "(\<And>nd. map_of (data_store nd) key = Some v \<Longrightarrow> map_of (data_store (snd (f nd))) key = Some v)
    \<Longrightarrow> keeps (holds a key v) (on_node b f)"
  by (auto simp: keeps_def on_node_def holds_def split: option.splits)

lemma fan_out_best_effort_returns:
  assumes "\<And>r. fueled (op r)"
  shows "\<exists>ok bad s'. fan_out (\<lambda>r. best_effort (op r)) rs s = (Inr (ok, bad), s') \<and>
     length ok + length bad = length rs \<and> set ok \<union> fst ` set bad = set rs"
proof -
  have "replica_op (\<lambda>r. best_effort (op r))"
    by unfold_locales (intro best_effort_returns assms)
  then show ?thesis by (rule replica_op.fan_out_returns)
qed

lemma replicate_best_effort_returns:
  assumes "\<And>r. fueled (op r)"
  shows "\<exists>res s'. replicate_best_effort k op primary s = (Inr res, s')"
proof -
  obtain cs s1 where "get_successor_chain k primary s = (Inr cs, s1)"
    using chain_from_returns unfolding get_successor_chain_def by blast
  moreover obtain ok bad s2 where "fan_out (\<lambda>r. best_effort (op r)) (tl cs) s1 = (Inr (ok, bad), s2)"
    using fan_out_best_effort_returns [where op = op, OF assms] by blast
  ultimately show ?thesis by (simp add: replicate_best_effort_def act_simps Let_def)
qed

text \<open>
  Writing a record on the node responsible for it and, as far as possible, on its replicas:
  whatever the replicas do, the write succeeds and the responsible node holds the record.
\<close>

lemma put_replicate_ok:
  fixes s :: "'z net_scheme"
  assumes st: "stable A s" and lossy: "lossy s" and me: "member A s me nd" and r: "refers A s r"
    and op: "\<And>x. fueled (op x)" "\<And>x s0. keeps (frame s0) (op x)" "\<And>x a. keeps (holds a key v) (op x)"
  obtains res s' where
    "andthen (put_on_node fuel me r key v) (\<lambda>_. replicate_best_effort k op r) s = (Inr res, s')"
    "frame s s'" "holds (ref_addr r) key v s'"
proof -
  obtain s1 where s1: "put_on_node fuel me r key v s = (Inr (), s1)" "frame s s1" "holds (ref_addr r) key v s1"
    by (rule put_on_node_ok [OF st lossy me r])
  obtain res s' where s': "replicate_best_effort k op r s1 = (Inr res, s')"
    using replicate_best_effort_returns [where op = op, OF op(1)] by blast
  have "keeps (frame s) (replicate_best_effort k op r)"
    by (intro keeps_intro timeless_frame op(2))
  then have "frame s s'" using s1(2) s' by (rule keeps_run)
  moreover have "keeps (holds (ref_addr r) key v) (replicate_best_effort k op r)"
    by (intro keeps_intro timeless_holds op(3))
  then have "holds (ref_addr r) key v s'" using s1(3) s' by (rule keeps_run)
  ultimately show thesis using s1(1) s' by (intro that [of res s']) (auto simp: act_simps)
qed

lemma result_replica_keeps:
  "keeps (frame s0) (t_put_result_replica a i rec)"
  "strip i = j \<Longrightarrow> keeps (holds b (''result:'' @ j) rec) (t_put_result_replica a i rec)"
  unfolding t_put_result_replica_def h_result_replica_put_def
  by (intro keeps_intro timeless_frame timeless_holds keeps_on_node_frame keeps_on_node_holds, simp)+

text \<open>Reading a key whose responsible node holds a value.\<close>

lemma read_ok:
  fixes s :: "'z net_scheme"
  assumes st: "stable A s" and lossy: "lossy s" and me: "member A s me nd" and fuel: "255 \<le> fuel"
    and routes: "routes nd (sha1_id key)"
    and primary: "responsible A s (sha1_id key) primary" "holds (ref_addr primary) key v s" "v \<noteq> JNull"
  obtains m c m' c' where "find_successor fuel me (sha1_id key) s = (Inr primary, later m c s)"
    "get_on_node me primary key (later m c s) = (Inr (Some v), later m' c' (later m c s))"
proof -
  obtain r m c where look: "find_successor fuel me (sha1_id key) s = (Inr r, later m c s)"
    "responsible A s (sha1_id key) r"
    by (rule find_successor_ok [OF st lossy me _ routes fuel]) auto
  then have "r = primary" using responsible_unique [OF st _ _ primary(1)] by simp
  moreover obtain m' c' where "get_on_node me primary key (later m c s) = (Inr (Some v), later m' c' (later m c s))"
    using get_on_node_ok [of A "later m c s" me nd primary key v] st lossy me primary
    by (auto simp: responsible_def)
  ultimately show thesis using look(1) that by blast
qed

text \<open>Putting and getting a result record of a stable ring.\<close>

lemma result_put_ok:
  fixes s :: "'z net_scheme"
  assumes st: "stable A s" and lossy: "lossy s" and me: "member A s me nd" and fuel: "255 \<le> fuel"
    and rec: "valid_result rec" and id: "is_nonblank (JStr i)"
    and routes: "routes nd (sha1_id (''result:'' @ strip i))"
  obtains r res s' where "responsible A s (sha1_id (''result:'' @ strip i)) r"
    "result_put fuel me k i rec s = (Inr res, s')" "frame s s'" "holds (ref_addr r) (''result:'' @ strip i) rec s'"
proof -
  let ?key = "''result:'' @ strip i"
  have key: "build_result_key (JStr i) = Inr ?key" using id by (simp add: build_result_key_def)
  obtain r m c where look: "find_successor fuel me (sha1_id ?key) s = (Inr r, later m c s)"
    and r: "responsible A s (sha1_id ?key) r"
    by (rule find_successor_ok [OF st lossy me _ routes fuel]) auto
  let ?s1 = "later m c s"
  have st1: "stable A ?s1" "lossy ?s1" "refers A ?s1 r" "member A ?s1 me nd"
    using st lossy r me by (auto simp: responsible_def)
  obtain rep s' where w: "andthen (put_on_node fuel me r ?key rec) (\<lambda>_. replicate_best_effort k
      (\<lambda>r. t_put_result_replica (ref_addr r) i rec) r) ?s1 = (Inr rep, s')"
    "frame ?s1 s'" "holds (ref_addr r) ?key rec s'"
    by (rule put_replicate_ok [OF st1(1,2,4,3) fueled_put_result_replica result_replica_keeps(1)
          result_replica_keeps(2) [OF refl]])
  obtain s2 where "put_on_node fuel me r ?key rec ?s1 = (Inr (), s2)"
    "replicate_best_effort k (\<lambda>r. t_put_result_replica (ref_addr r) i rec) r s2 = (Inr rep, s')"
    using w(1) by (auto simp: act_simps split: prod.splits sum.splits)
  then have "result_put fuel me k i rec s = (Inr \<lparr>tr_task = rec, tr_key = ?key, tr_storage = rep\<rparr>, s')"
    using look rec key
    by (simp add: result_put_def result_owner_def result_put_on_node_def result_replicate_def act_simps
        valid_result_def)
  with r w(2,3) show thesis by (blast intro: that frame_trans [OF frame_later])
qed

lemma result_get_ok:
  fixes s :: "'z net_scheme"
  assumes st: "stable A s" and lossy: "lossy s" and rd: "member A s reader rd" and fuel: "255 \<le> fuel"
    and id: "is_nonblank (JStr i)" and routes: "routes rd (sha1_id (''result:'' @ strip i))"
    and r: "responsible A s (sha1_id (''result:'' @ strip i)) r"
    and held: "holds (ref_addr r) (''result:'' @ strip i) rec s" and rec: "is_result_record rec"
  shows "\<exists>m c. result_get fuel reader k i s = (Inr (Some rec), later m c s)"
proof -
  let ?key = "''result:'' @ strip i"
  have key: "build_result_key (JStr i) = Inr ?key" using id by (simp add: build_result_key_def)
  have "rec \<noteq> JNull" using rec by auto
  obtain m c m' c' where "find_successor fuel reader (sha1_id ?key) s = (Inr r, later m c s)"
    "get_on_node reader r ?key (later m c s) = (Inr (Some rec), later m' c' (later m c s))"
    by (rule read_ok [OF st lossy rd fuel routes r held \<open>rec \<noteq> JNull\<close>])
  then have "result_get fuel reader k i s = (Inr (Some rec), later (m + m') (c + c') s)"
    using rec by (simp add: result_get_def key result_owner_def result_get_on_node_def act_simps)
  then show ?thesis by blast
qed

text \<open>The same for a reader of the ring before operations that kept its frame.\<close>

lemma result_get_frame:
  fixes s s' :: "'z net_scheme"
  assumes fr: "frame s s'" and st: "stable A s" and lossy: "lossy s" and rd: "member A s reader rd" and fuel: "255 \<le> fuel"
    and id: "is_nonblank (JStr i)" and routes: "routes rd (sha1_id (''result:'' @ strip i))"
    and r: "responsible A s (sha1_id (''result:'' @ strip i)) r"
    and held: "holds (ref_addr r) (''result:'' @ strip i) rec s'" and rec: "is_result_record rec"
  shows "\<exists>m c. result_get fuel reader k i s' = (Inr (Some rec), later m c s')"
proof -
  obtain rd' where rd': "member A s' reader rd'" "same_place rd rd'" by (rule frame_member [OF fr rd])
  show ?thesis
    by (rule result_get_ok [OF _ _ rd'(1) fuel id _ _ held rec])
      (use frame_stable_imp [OF fr st] frame_lossy [OF fr] frame_responsible [OF fr] r lossy
        same_place_routes [OF rd'(2)] routes in auto)
qed

section \<open>Properties\<close>

text \<open>
  A result record that was put can be read: in a stable ring, over a network that loses
  requests, \<open>put\<close> of a valid record succeeds whatever the replicas answer, and \<open>get\<close> from any
  member then returns it. (The key must not hash to the identifier of the member that looks
  it up, unless that member is alone.)
\<close>

theorem result_put_then_get:
  fixes s :: "'z net_scheme"
  assumes st: "stable A s" and lossy: "lossy s" and me: "member A s me nd" and fuel: "255 \<le> fuel"
    and rec: "valid_result rec" and id: "is_nonblank (JStr i)"
    and routes: "routes nd (sha1_id (''result:'' @ strip i))"
  shows "\<exists>res s'. result_put fuel me k i rec s = (Inr res, s') \<and> frame s s' \<and>
    (\<forall>reader rd. member A s reader rd \<longrightarrow> routes rd (sha1_id (''result:'' @ strip i)) \<longrightarrow>
       (\<exists>m c. result_get fuel reader k i s' = (Inr (Some rec), later m c s')))"
proof -
  obtain r res s' where put: "responsible A s (sha1_id (''result:'' @ strip i)) r"
    "result_put fuel me k i rec s = (Inr res, s')" "frame s s'" "holds (ref_addr r) (''result:'' @ strip i) rec s'"
    by (rule result_put_ok [OF st lossy me fuel rec id routes])
  have "is_result_record rec" using rec by (simp add: valid_result_iff)
  with put result_get_frame [OF put(3) st lossy _ fuel id _ put(1,4)] show ?thesis by blast
qed

definition demo_result :: json where
  "demo_result = JObj [(''schema_version'', JInt 1), (''kind'', JStr ''result_details''),
     (''status'', JStr ''PENDING''), (''task_type'', JStr ''SCRIPT''), (''assigned_by'', JStr ''user''),
     (''worker_id'', JStr ''w''), (''task_id'', JStr ''t'')]"

lemma demo_result_valid: "valid_result demo_result"
  by (simp add: valid_result_iff demo_result_def dget_or_Cons RESULT_KIND_def VALID_STATUSES_def
      VALID_TASK_TYPES_def VALID_ASSIGNED_BY_def eq_int_def)

lemma demo_one_routes: "routes demo_one k"
  by (simp add: routes_def demo_one_succ) (simp add: demo_one_def demo_refs)

theorem result_put_then_get_witness:
  "\<exists>res s'. result_put 255 ''a'' 3 ''t'' demo_result demo_single = (Inr res, s') \<and>
    (\<exists>m c. result_get 255 ''a'' 3 ''t'' s' = (Inr (Some demo_result), later m c s'))"
proof -
  have "member UNIV demo_single ''a'' demo_one" by (simp add: demo_single_member)
  moreover have "is_nonblank (JStr ''t'')" by code_simp
  ultimately show ?thesis
    using result_put_then_get [OF demo_single_stable demo_single_lossy _ order_refl demo_result_valid,
        of "''a''" demo_one "''t''" 3] demo_one_routes by blast
qed

text \<open>
  \<open>build_result_record\<close> raises or builds a record that passes \<open>validate_result_record\<close>,
  and it builds one exactly when the task and worker identifiers are non-empty strings and the
  type, the status and the assigner are among the valid ones.
\<close>

theorem build_result_record_valid:
  "(\<exists>r. build_result_record now tid ty path script wid by opts = Inr r \<and> valid_result r) \<longleftrightarrow>
     truthy tid \<and> is_str tid \<and> truthy wid \<and> is_str wid \<and> (\<exists>x \<in> set VALID_TASK_TYPES. ty = JStr x) \<and>
     (\<exists>x \<in> set VALID_STATUSES. ro_status opts = JStr x) \<and> (\<exists>x \<in> set VALID_ASSIGNED_BY. by = JStr x)"
  by (auto simp: build_result_record_def chain_eq_Inr require_in_Inr require_Inr valid_result_iff
      dget_or_Cons RESULT_SCHEMA_VERSION_def eq_int_def)

end
