(* ===== verification/Assignment.thy ===== *)
theory Assignment
  imports Results
begin

text \<open>
  Worker assignments (HT2): \<open>storage/worker_assignment.py\<close> with its handlers and transport
  methods. A record maps a worker to the list of its tasks; appends run at the node
  responsible for the key, under a lock, so \<open>append_local\<close> and \<open>remove_local\<close> are single steps.
\<close>

section \<open>Records\<close>

definition WORKER_SCHEMA_VERSION :: int where
  "WORKER_SCHEMA_VERSION = 1"

definition WORKER_KIND :: string where
  "WORKER_KIND = ''worker_assignment''"

definition build_worker_key :: "string \<Rightarrow> exn + string" where
  "build_worker_key worker_id =
     (if worker_id = [] then Inl (ValueError ''worker_id required'') else Inr (''worker:'' @ strip worker_id))"

fun is_worker_record :: "json \<Rightarrow> bool" where
  "is_worker_record (JObj d) \<longleftrightarrow> dget d ''kind'' = JStr WORKER_KIND"
| "is_worker_record _ \<longleftrightarrow> False"

definition new_record :: "int \<Rightarrow> string \<Rightarrow> json list \<Rightarrow> json" where
  "new_record now worker_id tasks = JObj
     [(''schema_version'', JInt WORKER_SCHEMA_VERSION),
      (''kind'', JStr WORKER_KIND),
      (''worker_id'', JStr worker_id),
      (''tasks'', JList tasks),
      (''created_at'', JStr (utc_now_iso now)),
      (''updated_at'', JStr (utc_now_iso now)),
      (''version'', JInt 1)]"

definition bump_record :: "int \<Rightarrow> json \<Rightarrow> json list \<Rightarrow> exn + json" where
  "bump_record now record tasks =
     (let out = dset ''updated_at'' (JStr (utc_now_iso now)) (dset ''tasks'' (JList tasks) (dict_of record))
      in chain (py_int (dget_or (JInt 1) out ''version'')) (\<lambda>v. Inr (JObj (dset ''version'' (JInt (v + 1)) out))))"

text \<open>\<open>list(v)\<close>: the items, the characters, or the keys.\<close>

fun py_list :: "json \<Rightarrow> exn + json list" where
  "py_list (JList xs) = Inr xs"
| "py_list (JStr s) = Inr (List.map (\<lambda>c. JStr [c]) s)"
| "py_list (JObj d) = Inr (List.map JStr (dkeys d))"
| "py_list _ = Inl (TypeError ''object is not iterable'')"

text \<open>\<open>list(current["tasks"]) if is_worker_record(current) else []\<close>\<close>

definition tasks_of :: "json option \<Rightarrow> exn + json list" where
  "tasks_of current =
     (case current of
        Some r \<Rightarrow> if is_worker_record r then chain (dindex (dict_of r) ''tasks'') py_list else Inr []
      | None \<Rightarrow> Inr [])"

section \<open>Replica handlers and calls\<close>

definition h_worker_replica_put :: "string \<Rightarrow> string \<Rightarrow> json \<Rightarrow> ('z net_scheme, unit reply) act" where
  "h_worker_replica_put a worker_id record = on_node a (\<lambda>nd. (Ok (), snd (put (''worker:'' @ worker_id) record nd)))"

definition h_worker_replica_get :: "string \<Rightarrow> string \<Rightarrow> ('z net_scheme, json reply) act" where
  "h_worker_replica_get a worker_id =
     read_node a (\<lambda>nd. case get (''worker:'' @ worker_id) nd of None \<Rightarrow> Status 404 | Some v \<Rightarrow> Ok v)"

definition h_worker_replica_delete :: "string \<Rightarrow> string \<Rightarrow> ('z net_scheme, bool reply) act" where
  "h_worker_replica_delete a worker_id =
     on_node a (\<lambda>nd. (Ok (fst (delete (''worker:'' @ worker_id) nd)), snd (delete (''worker:'' @ worker_id) nd)))"

definition t_put_worker_replica :: "string \<Rightarrow> string \<Rightarrow> json \<Rightarrow> ('z net_scheme, unit) act" where
  "t_put_worker_replica a worker_id record = rpc a (h_worker_replica_put a worker_id record)"

definition t_get_worker_replica :: "string \<Rightarrow> string \<Rightarrow> ('z net_scheme, json option) act" where
  "t_get_worker_replica a worker_id = rpc_opt a (h_worker_replica_get a worker_id)"

definition t_delete_worker_replica :: "string \<Rightarrow> string \<Rightarrow> ('z net_scheme, unit) act" where
  "t_delete_worker_replica a worker_id = andthen (rpc a (h_worker_replica_delete a worker_id)) (\<lambda>_. ret ())"

section \<open>The service\<close>

text \<open>The reply: the key, the tasks, whether anything changed, the replication (None when skipped).\<close>

record assign_reply =
  ar_key :: string
  ar_tasks :: "json list"
  ar_changed :: bool
  ar_replication :: "storage_result option"

definition worker_owner :: "nat \<Rightarrow> string \<Rightarrow> string \<Rightarrow> ('z net_scheme, nref) act" where
  "worker_owner fuel me key = find_successor fuel me (sha1_id key)"

definition worker_replicate :: "int \<Rightarrow> string \<Rightarrow> json \<Rightarrow> nref \<Rightarrow> ('z net_scheme, storage_result) act" where
  "worker_replicate k worker_id record primary =
     replicate_best_effort k (\<lambda>r. t_put_worker_replica (ref_addr r) worker_id record) primary"

definition worker_read_from_replicas :: "int \<Rightarrow> string \<Rightarrow> nref \<Rightarrow> ('z net_scheme, json option) act" where
  "worker_read_from_replicas k worker_id primary =
     andthen (get_successor_chain k primary) (\<lambda>chain.
       first_answer (\<lambda>r. t_get_worker_replica (ref_addr r) worker_id) (tl chain))"

text \<open>The record after the task is appended: the old one bumped, or a new one.\<close>

definition appended_record :: "int \<Rightarrow> string \<Rightarrow> json option \<Rightarrow> json list \<Rightarrow> exn + json" where
  "appended_record now worker_id current tasks =
     (case current of
        Some r \<Rightarrow> if is_worker_record r then bump_record now r tasks else Inr (new_record now worker_id tasks)
      | None \<Rightarrow> Inr (new_record now worker_id tasks))"

definition append_local ::
  "nat \<Rightarrow> string \<Rightarrow> int \<Rightarrow> string \<Rightarrow> string \<Rightarrow> nref option \<Rightarrow> ('z net_scheme, assign_reply) act" where
  "append_local fuel me k worker_id task_id primary =
     andthen (lift (build_worker_key worker_id)) (\<lambda>key.
     andthen (case primary of None \<Rightarrow> worker_owner fuel me key | Some p \<Rightarrow> ret p) (\<lambda>primary.
     andthen (read_node me (get key)) (\<lambda>current.
     andthen (lift (tasks_of current)) (\<lambda>tasks.
     if JStr task_id \<in> set tasks then
       ret \<lparr>ar_key = key, ar_tasks = tasks, ar_changed = False, ar_replication = None\<rparr>
     else
       let tasks = tasks @ [JStr task_id] in
       andthen (gets clock) (\<lambda>now.
       andthen (lift (appended_record now worker_id current tasks)) (\<lambda>record.
       andthen (on_node me (put key record)) (\<lambda>_.
       andthen (worker_replicate k worker_id record primary) (\<lambda>rep.
       ret \<lparr>ar_key = key, ar_tasks = tasks, ar_changed = True, ar_replication = Some rep\<rparr>))))))))"

definition h_workers_append ::
  "nat \<Rightarrow> string \<Rightarrow> int \<Rightarrow> string \<Rightarrow> string \<Rightarrow> ('z net_scheme, assign_reply reply) act" where
  "h_workers_append fuel me k worker_id task_id =
     (if task_id = [] then ret (Status 422)
      else catch (andthen (append_local fuel me k worker_id task_id None) (\<lambda>r. ret (Ok r))) (\<lambda>_. ret (Status 500)))"

definition t_append_worker_assignment ::
  "nat \<Rightarrow> string \<Rightarrow> int \<Rightarrow> string \<Rightarrow> string \<Rightarrow> ('z net_scheme, assign_reply) act" where
  "t_append_worker_assignment fuel a k worker_id task_id = rpc a (h_workers_append fuel a k worker_id task_id)"

definition append :: "nat \<Rightarrow> string \<Rightarrow> int \<Rightarrow> string \<Rightarrow> string \<Rightarrow> ('z net_scheme, assign_reply) act" where
  "append fuel me k worker_id task_id =
     andthen (lift (build_worker_key worker_id)) (\<lambda>key.
     andthen (worker_owner fuel me key) (\<lambda>primary.
     andthen (read_node me node_id) (\<lambda>nid.
     if ref_id primary = nid then append_local fuel me k worker_id task_id (Some primary)
     else retrying (\<lambda>e. e \<noteq> OutOfFuel) (re_resolve fuel me key)
            (\<lambda>r. t_append_worker_assignment fuel (ref_addr r) k worker_id task_id)
            PRIMARY_WRITE_RETRIES 0 primary)))"

definition remove_local ::
  "nat \<Rightarrow> string \<Rightarrow> int \<Rightarrow> string \<Rightarrow> string \<Rightarrow> nref option \<Rightarrow> ('z net_scheme, assign_reply) act" where
  "remove_local fuel me k worker_id task_id primary =
     andthen (lift (build_worker_key worker_id)) (\<lambda>key.
     andthen (case primary of None \<Rightarrow> worker_owner fuel me key | Some p \<Rightarrow> ret p) (\<lambda>primary.
     andthen (read_node me (get key)) (\<lambda>current.
     andthen (lift (tasks_of current)) (\<lambda>tasks.
     if JStr task_id \<notin> set tasks then
       ret \<lparr>ar_key = key, ar_tasks = tasks, ar_changed = False, ar_replication = None\<rparr>
     else
       let tasks = filter (\<lambda>t. t \<noteq> JStr task_id) tasks in
       andthen (gets clock) (\<lambda>now.
       andthen (lift (bump_record now (the current) tasks)) (\<lambda>record.
       andthen (on_node me (put key record)) (\<lambda>_.
       andthen (worker_replicate k worker_id record primary) (\<lambda>rep.
       ret \<lparr>ar_key = key, ar_tasks = tasks, ar_changed = True, ar_replication = Some rep\<rparr>))))))))"

definition remove :: "nat \<Rightarrow> string \<Rightarrow> int \<Rightarrow> string \<Rightarrow> string \<Rightarrow> ('z net_scheme, assign_reply) act" where
  "remove fuel me k worker_id task_id =
     andthen (lift (build_worker_key worker_id)) (\<lambda>key.
     andthen (worker_owner fuel me key) (\<lambda>primary.
     andthen (read_node me node_id) (\<lambda>nid.
     if ref_id primary = nid then remove_local fuel me k worker_id task_id (Some primary)
     else
       andthen (catch (t_get (ref_addr primary) key) (\<lambda>_. ret None)) (\<lambda>current.
       andthen (lift (tasks_of current)) (\<lambda>tasks.
       if JStr task_id \<notin> set tasks then
         ret \<lparr>ar_key = key, ar_tasks = tasks, ar_changed = False, ar_replication = None\<rparr>
       else
         let tasks = filter (\<lambda>t. t \<noteq> JStr task_id) tasks in
         andthen (gets clock) (\<lambda>now.
         andthen (lift (bump_record now (the current) tasks)) (\<lambda>record.
         andthen (ignoring (t_put (ref_addr primary) key record)) (\<lambda>_.
         ret \<lparr>ar_key = key, ar_tasks = tasks, ar_changed = True, ar_replication = None\<rparr>)))))))) "

definition assigned_tasks :: "nat \<Rightarrow> string \<Rightarrow> int \<Rightarrow> string \<Rightarrow> ('z net_scheme, json list) act" where
  "assigned_tasks fuel me k worker_id =
     andthen (lift (build_worker_key worker_id)) (\<lambda>key.
     andthen (worker_owner fuel me key) (\<lambda>primary.
     andthen (catch (get_on_node me primary key) (\<lambda>_. ret None)) (\<lambda>v.
     andthen (case v of Some x \<Rightarrow> if is_worker_record x then ret (Some x)
                                 else worker_read_from_replicas k worker_id primary
              | None \<Rightarrow> worker_read_from_replicas k worker_id primary) (\<lambda>v.
     case v of
       None \<Rightarrow> ret []
     | Some x \<Rightarrow> if is_worker_record x then lift (py_list (py_or (dget (dict_of x) ''tasks'') (JList [])))
                 else ret []))))"

definition delete_worker :: "nat \<Rightarrow> string \<Rightarrow> int \<Rightarrow> string \<Rightarrow> ('z net_scheme, bool) act" where
  "delete_worker fuel me k worker_id =
     andthen (lift (build_worker_key worker_id)) (\<lambda>key.
     andthen (worker_owner fuel me key) (\<lambda>primary.
     andthen (catch (delete_on_node me primary key) (\<lambda>_. ret False)) (\<lambda>ok.
     andthen (get_successor_chain k primary) (\<lambda>chain.
     andthen (for_each (tl chain) (\<lambda>r _. ignoring (t_delete_worker_replica (ref_addr r) worker_id)) ()) (\<lambda>_.
     ret ok)))))"

section \<open>Lemmas\<close>

text \<open>A worker record with its list of tasks and an integer version.\<close>

definition worker_record :: "json list \<Rightarrow> json \<Rightarrow> bool" where
  "worker_record ts r \<longleftrightarrow> is_worker_record r \<and> map_of (dict_of r) ''tasks'' = Some (JList ts) \<and>
     (\<exists>v. dget_or (JInt 1) (dict_of r) ''version'' = JInt v)"

lemma worker_record_obj: "worker_record ts r \<Longrightarrow> r = JObj (dict_of r)"
  by (cases r) (auto simp: worker_record_def)

lemma tasks_of_record: "worker_record ts r \<Longrightarrow> tasks_of (Some r) = Inr ts"
  by (simp add: worker_record_def tasks_of_def dindex_def)

lemma tasks_of_None: "tasks_of None = Inr []"
  by (simp add: tasks_of_def)

lemma new_record_ok: "worker_record ts (new_record now w ts)"
  by (simp add: worker_record_def new_record_def dget_or_Cons)

lemma bump_record_ok:
  assumes "worker_record ts r"
  shows "\<exists>r'. bump_record now r ts' = Inr r' \<and> worker_record ts' r'"
proof -
  obtain d where r: "r = JObj d" using worker_record_obj [OF assms] by blast
  with assms obtain v where "dget_or (JInt 1) d ''version'' = JInt v" "dget d ''kind'' = JStr WORKER_KIND"
    by (auto simp: worker_record_def)
  then show ?thesis by (auto simp: bump_record_def r Let_def worker_record_def)
qed

lemma fueled_put_worker_replica: "fueled (t_put_worker_replica a i rec)"
  unfolding t_put_worker_replica_def h_worker_replica_put_def by (intro fueled_intro)

interpretation worker_write: replica_op "\<lambda>r. best_effort (t_put_worker_replica (ref_addr r) w rec)"
  for w rec
  by unfold_locales (intro best_effort_returns fueled_put_worker_replica)

lemma worker_replica_keeps:
  "keeps (frame s0) (t_put_worker_replica a i rec)"
  "strip i = j \<Longrightarrow> keeps (holds b (''worker:'' @ j) rec) (t_put_worker_replica a i rec)"
  unfolding t_put_worker_replica_def h_worker_replica_put_def
  by (intro keeps_intro timeless_frame timeless_holds keeps_on_node_frame keeps_on_node_holds, simp)+

text \<open>What a process stores for a worker: nothing, or a record with these tasks.\<close>

definition stores_tasks :: "string \<Rightarrow> string \<Rightarrow> json list \<Rightarrow> 'z net_scheme \<Rightarrow> bool" where
  "stores_tasks a w ts s \<longleftrightarrow> (\<exists>nd. nodes s a = Some nd \<and>
     (case get (''worker:'' @ strip w) nd of None \<Rightarrow> ts = [] | Some r \<Rightarrow> worker_record ts r))"

lemma append_local_new:
  fixes s :: "'z net_scheme"
  assumes "w \<noteq> []" and me: "stores_tasks me w ts s" and t: "JStr t \<notin> set ts"
  obtains rep s' where "append_local fuel me k w t (Some p) s =
      (Inr \<lparr>ar_key = ''worker:'' @ strip w, ar_tasks = ts @ [JStr t], ar_changed = True, ar_replication = Some rep\<rparr>, s')"
    "frame s s'" "stores_tasks me w (ts @ [JStr t]) s'"
proof -
  let ?key = "''worker:'' @ strip w" and ?ts = "ts @ [JStr t]"
  obtain nd where nd: "nodes s me = Some nd"
    and cur: "case get ?key nd of None \<Rightarrow> ts = [] | Some r \<Rightarrow> worker_record ts r"
    using me by (auto simp: stores_tasks_def)
  have tasks: "tasks_of (get ?key nd) = Inr ts"
    using cur by (cases "get ?key nd") (auto simp: tasks_of_record tasks_of_None)
  obtain rec where rec: "appended_record (clock s) w (get ?key nd) ?ts = Inr rec" "worker_record ?ts rec"
  proof (cases "get ?key nd")
    case None
    then show thesis using new_record_ok by (intro that) (auto simp: appended_record_def)
  next
    case (Some r)
    then have wr: "worker_record ts r" using cur by simp
    obtain r' where "bump_record (clock s) r ?ts = Inr r'" "worker_record ?ts r'"
      using bump_record_ok [OF wr] by blast
    moreover have "is_worker_record r" using wr by (simp add: worker_record_def)
    ultimately show thesis using Some by (intro that [of r']) (simp_all add: appended_record_def)
  qed
  let ?s1 = "set_node me (snd (put ?key rec nd)) s"
  obtain rep s' where rep: "worker_replicate k w rec p ?s1 = (Inr rep, s')"
    using replicate_best_effort_returns [of "\<lambda>r. t_put_worker_replica (ref_addr r) w rec"] fueled_put_worker_replica
    unfolding worker_replicate_def by blast
  have "append_local fuel me k w t (Some p) s =
      (Inr \<lparr>ar_key = ?key, ar_tasks = ?ts, ar_changed = True, ar_replication = Some rep\<rparr>, s')"
    using assms(1) nd tasks t rec(1) rep
    by (simp add: append_local_def build_worker_key_def act_simps Let_def)
  moreover have k: "keeps P (worker_replicate k w rec p)"
    if "timeless P" "\<And>a. keeps P (t_put_worker_replica a w rec)" for P :: "'z net_scheme \<Rightarrow> bool"
    unfolding worker_replicate_def using that by (intro keeps_intro)
  have "frame s ?s1" by (rule frame_set_node [OF nd]) simp
  then have "frame s s'"
    using k [OF timeless_frame worker_replica_keeps(1)] rep by (meson keeps_run)
  moreover have "holds me ?key rec ?s1" by (simp add: holds_def)
  then have "holds me ?key rec s'"
    using k [OF timeless_holds worker_replica_keeps(2) [OF refl]] rep by (meson keeps_run)
  then have "stores_tasks me w ?ts s'"
    using rec(2) worker_record_obj [OF rec(2)] by (auto simp: holds_def stores_tasks_def get_def)
  ultimately show thesis by (intro that)
qed

lemma append_local_again:
  assumes "w \<noteq> []" and me: "stores_tasks me w ts s" and t: "JStr t \<in> set ts"
  shows "append_local fuel me k w t (Some p) s =
    (Inr \<lparr>ar_key = ''worker:'' @ strip w, ar_tasks = ts, ar_changed = False, ar_replication = None\<rparr>, s)"
proof -
  obtain nd where nd: "nodes s me = Some nd"
    and cur: "case get (''worker:'' @ strip w) nd of None \<Rightarrow> ts = [] | Some r \<Rightarrow> worker_record ts r"
    using me by (auto simp: stores_tasks_def)
  have "tasks_of (get (''worker:'' @ strip w) nd) = Inr ts"
    using cur by (cases "get (''worker:'' @ strip w) nd") (auto simp: tasks_of_record tasks_of_None)
  then show ?thesis
    using assms(1) nd t by (simp add: append_local_def build_worker_key_def act_simps)
qed

text \<open>Appending in a stable ring, and reading the list afterwards.\<close>

lemma append_ok:
  fixes s :: "'z net_scheme"
  assumes st: "stable A s" and lossy: "lossy s" and me: "member A s me nd" and fuel: "255 \<le> fuel"
    and w: "w \<noteq> []" and t: "t \<noteq> []" "JStr t \<notin> set ts"
    and routes: "\<And>a nd. member A s a nd \<Longrightarrow> routes nd (sha1_id (''worker:'' @ strip w))"
    and primary: "responsible A s (sha1_id (''worker:'' @ strip w)) r" "stores_tasks (ref_addr r) w ts s"
  obtains res s' where "append fuel me k w t s = (Inr res, s')" "frame s s'" "ar_tasks res = ts @ [JStr t]"
    "stores_tasks (ref_addr r) w (ts @ [JStr t]) s'"
proof -
  let ?key = "''worker:'' @ strip w" and ?ts = "ts @ [JStr t]"
  have key: "build_worker_key w = Inr ?key" using w by (simp add: build_worker_key_def)
  have r: "refers A s r" using primary(1) by (simp add: responsible_def)
  obtain r' m c where look: "find_successor fuel me (sha1_id ?key) s = (Inr r', later m c s)" "responsible A s (sha1_id ?key) r'"
    by (rule find_successor_ok [OF st lossy me _ routes [OF me] fuel]) auto
  have r': "r' = r" using responsible_unique [OF st _ look(2) primary(1)] by simp
  let ?s1 = "later m c s"
  have stores: "stores_tasks (ref_addr r) w ts (later m c s)" for m c
    using primary(2) by (simp add: stores_tasks_def)
  have "\<exists>res s'. append fuel me k w t s = (Inr res, s') \<and> frame s s' \<and> ar_tasks res = ?ts \<and>
      stores_tasks (ref_addr r) w ?ts s'"
  proof (cases "ref_id r = node_id nd")
    case True
    have addr: "ref_addr r = me" by (rule responsible_self [OF st me r True])
    obtain rep s' where "append_local fuel me k w t (Some r) ?s1 =
        (Inr \<lparr>ar_key = ?key, ar_tasks = ?ts, ar_changed = True, ar_replication = Some rep\<rparr>, s')"
      "frame ?s1 s'" "stores_tasks me w ?ts s'"
      by (rule append_local_new [OF w stores [unfolded addr] t(2)])
    moreover from this have "append fuel me k w t s =
        (Inr \<lparr>ar_key = ?key, ar_tasks = ?ts, ar_changed = True, ar_replication = Some rep\<rparr>, s')"
      using look(1) True memberD(1) [OF me] by (simp add: append_def key worker_owner_def act_simps r')
    ultimately show ?thesis using addr by (auto intro: frame_trans [OF frame_later])
  next
    case False
    obtain nr where nr: "member A s (ref_addr r) nr" using r by (auto simp: refers_def)
    let ?h = "h_workers_append fuel (ref_addr r) k w t"
    obtain m2 c2 where call: "rpc (ref_addr r) ?h ?s1 = andthen (serve ?h) (\<lambda>x. lift (raise_for_status x)) (later m2 c2 ?s1)"
      by (rule rpc_lossy [of ?s1 "ref_addr r" ?h]) (use memberD(1) [OF nr] lossy in auto)
    let ?s2 = "later m2 c2 ?s1"
    obtain r2 m3 c3 where own: "find_successor fuel (ref_addr r) (sha1_id ?key) ?s2 = (Inr r2, later m3 c3 ?s2)"
      by (rule find_successor_ok [of A ?s2 "ref_addr r" nr "sha1_id ?key" fuel])
        (use st lossy nr routes [OF nr] fuel in auto)
    let ?s3 = "later m3 c3 ?s2"
    obtain rep s' where app: "append_local fuel (ref_addr r) k w t (Some r2) ?s3 =
        (Inr \<lparr>ar_key = ?key, ar_tasks = ?ts, ar_changed = True, ar_replication = Some rep\<rparr>, s')"
      "frame ?s3 s'" "stores_tasks (ref_addr r) w ?ts s'"
      by (rule append_local_new [of w "ref_addr r" ts ?s3 t fuel k r2]) (use w stores t(2) in auto)
    have "append_local fuel (ref_addr r) k w t None ?s2 = append_local fuel (ref_addr r) k w t (Some r2) ?s3"
      using own by (simp add: append_local_def key worker_owner_def act_simps)
    then have "serve ?h ?s2 = (Inr (Ok \<lparr>ar_key = ?key, ar_tasks = ?ts, ar_changed = True, ar_replication = Some rep\<rparr>), s')"
      using app(1) t(1) by (intro serve_Inr) (simp add: h_workers_append_def act_simps)
    then have "t_append_worker_assignment fuel (ref_addr r) k w t ?s1 =
        (Inr \<lparr>ar_key = ?key, ar_tasks = ?ts, ar_changed = True, ar_replication = Some rep\<rparr>, s')"
      by (simp only: t_append_worker_assignment_def call) (simp add: act_simps raise_for_status_def)
    then have "append fuel me k w t s =
        (Inr \<lparr>ar_key = ?key, ar_tasks = ?ts, ar_changed = True, ar_replication = Some rep\<rparr>, s')"
      using look(1) False memberD(1) [OF me]
      by (simp add: append_def key worker_owner_def act_simps r' retrying_first)
    moreover have "frame s s'" using app(2) by (auto intro: frame_trans [OF frame_later])
    ultimately show ?thesis using app(3) by auto
  qed
  then show thesis using that by blast
qed

lemma assigned_ok:
  fixes s s' :: "'z net_scheme"
  assumes fr: "frame s s'" and st: "stable A s" and lossy: "lossy s" and rd: "member A s reader rd"
    and fuel: "255 \<le> fuel" and w: "w \<noteq> []" and routes: "routes rd (sha1_id (''worker:'' @ strip w))"
    and r: "responsible A s (sha1_id (''worker:'' @ strip w)) r"
    and after: "stores_tasks (ref_addr r) w ts s'" "ts \<noteq> []"
  shows "\<exists>m c. assigned_tasks fuel reader k w s' = (Inr ts, later m c s')"
proof -
  let ?key = "''worker:'' @ strip w"
  have key: "build_worker_key w = Inr ?key" using w by (simp add: build_worker_key_def)
  obtain rec where rec: "holds (ref_addr r) ?key rec s'" "worker_record ts rec"
    using after by (auto simp: stores_tasks_def holds_def get_def split: option.splits if_splits)
  have "rec \<noteq> JNull" using worker_record_obj [OF rec(2)] by auto
  obtain rd' where rd': "member A s' reader rd'" "same_place rd rd'" by (rule frame_member [OF fr rd])
  have ok: "stable A s'" "lossy s'" "responsible A s' (sha1_id ?key) r" "routes rd' (sha1_id ?key)"
    using frame_stable_imp [OF fr st] frame_lossy [OF fr] frame_responsible [OF fr] r lossy
      same_place_routes [OF rd'(2)] routes by auto
  obtain m c m' c' where "find_successor fuel reader (sha1_id ?key) s' = (Inr r, later m c s')"
    "get_on_node reader r ?key (later m c s') = (Inr (Some rec), later m' c' (later m c s'))"
    by (rule read_ok [OF ok(1,2) rd'(1) fuel ok(4,3) rec(1) \<open>rec \<noteq> JNull\<close>])
  moreover have "is_worker_record rec" "dget (dict_of rec) ''tasks'' = JList ts"
    using rec(2) by (auto simp: worker_record_def dget_or_def)
  ultimately have "assigned_tasks fuel reader k w s' = (Inr ts, later (m + m') (c + c') s')"
    using after(2) by (simp add: assigned_tasks_def key worker_owner_def act_simps py_or_def)
  then show ?thesis by blast
qed

section \<open>Properties\<close>

text \<open>
  Appending a task is idempotent and keeps the list free of duplicates: whatever the
  replicas answer, the first append adds the task once, at the end, and the second changes
  nothing in any process and reports the same list.
\<close>

theorem append_local_idempotent:
  fixes s :: "'z net_scheme"
  assumes "w \<noteq> []" and "stores_tasks me w ts s" and "distinct ts"
  shows "\<exists>r1 s1 r2. append_local fuel me k w t (Some p) s = (Inr r1, s1) \<and>
     append_local fuel me k w t (Some p) s1 = (Inr r2, s1) \<and>
     ar_tasks r1 = (if JStr t \<in> set ts then ts else ts @ [JStr t]) \<and> distinct (ar_tasks r1) \<and>
     ar_tasks r2 = ar_tasks r1 \<and> \<not> ar_changed r2 \<and> stores_tasks me w (ar_tasks r1) s1"
proof (cases "JStr t \<in> set ts")
  case True
  with assms append_local_again [OF assms(1,2) True] show ?thesis by force
next
  case False
  obtain rep s' where "append_local fuel me k w t (Some p) s =
      (Inr \<lparr>ar_key = ''worker:'' @ strip w, ar_tasks = ts @ [JStr t], ar_changed = True, ar_replication = Some rep\<rparr>, s')"
    and st: "stores_tasks me w (ts @ [JStr t]) s'"
    by (rule append_local_new [OF assms(1,2) False])
  moreover have "append_local fuel me k w t (Some p) s' = (Inr \<lparr>ar_key = ''worker:'' @ strip w,
      ar_tasks = ts @ [JStr t], ar_changed = False, ar_replication = None\<rparr>, s')"
    by (rule append_local_again [OF assms(1) st]) simp
  ultimately show ?thesis using False assms(3) by force
qed

theorem append_local_idempotent_witness:
  "\<exists>r1 s1 r2. append_local 0 ''a'' 3 ''w'' ''t'' (Some ref10) demo_net = (Inr r1, s1) \<and>
     append_local 0 ''a'' 3 ''w'' ''t'' (Some ref10) s1 = (Inr r2, s1) \<and> ar_tasks r2 = [JStr ''t''] \<and> \<not> ar_changed r2"
proof -
  have "stores_tasks ''a'' ''w'' [] demo_net"
    by (simp add: stores_tasks_def demo_net_def demo10_def demo_node_def get_def)
  with append_local_idempotent [of "''w''" "''a''" "[]" demo_net 0 3 "''t''" ref10] show ?thesis by force
qed

text \<open>
  C8. An assignment is visible everywhere: in a stable ring, over a network that loses requests,
  where no member's identifier is the hash of the worker's key (or the ring has one member),
  appending a new task through any member succeeds, and the list read through any member is
  the old list with the task at the end.
\<close>

theorem append_then_get:
  fixes s :: "'z net_scheme"
  assumes st: "stable A s" and lossy: "lossy s" and me: "member A s me nd" and fuel: "255 \<le> fuel"
    and w: "w \<noteq> []" and t: "t \<noteq> []" "JStr t \<notin> set ts"
    and routes: "\<And>a nd. member A s a nd \<Longrightarrow> routes nd (sha1_id (''worker:'' @ strip w))"
    and primary: "responsible A s (sha1_id (''worker:'' @ strip w)) r" "stores_tasks (ref_addr r) w ts s"
  shows "\<exists>res s'. append fuel me k w t s = (Inr res, s') \<and> frame s s' \<and> ar_tasks res = ts @ [JStr t] \<and>
    (\<forall>reader rd. member A s reader rd \<longrightarrow>
       (\<exists>m c. assigned_tasks fuel reader k w s' = (Inr (ts @ [JStr t]), later m c s')))"
proof -
  obtain res s' where run: "append fuel me k w t s = (Inr res, s')" "frame s s'" "ar_tasks res = ts @ [JStr t]"
    "stores_tasks (ref_addr r) w (ts @ [JStr t]) s'"
    by (rule append_ok [OF st lossy me fuel w t routes primary])
  with assigned_ok [OF run(2) st lossy _ fuel w routes primary(1) run(4)] show ?thesis by blast
qed

lemma demo_single_responsible: "responsible UNIV demo_single k ref10"
proof -
  have "refers UNIV demo_single ref10" "ref_id ref10 = 10"
    by (simp_all add: refers_def demo_single_member demo_refs demo_one_def)
  then show ?thesis by (simp add: responsible_def demo_single_ids owner_of_def)
qed

theorem append_then_get_witness:
  "\<exists>res s'. append 255 ''a'' 3 ''w'' ''t'' demo_single = (Inr res, s') \<and> ar_tasks res = [JStr ''t''] \<and>
    (\<exists>m c. assigned_tasks 255 ''a'' 3 ''w'' s' = (Inr [JStr ''t''], later m c s'))"
proof -
  have "member UNIV demo_single ''a'' demo_one" by (simp add: demo_single_member)
  moreover have "stores_tasks (ref_addr ref10) ''w'' [] demo_single"
    by (simp add: stores_tasks_def demo_single_def demo_one_def demo_node_def get_def demo_refs)
  moreover have "routes nd k" if "member UNIV demo_single a nd" for a nd k
    using that demo_one_routes by (simp add: demo_single_member)
  ultimately show ?thesis
    using append_then_get [OF demo_single_stable demo_single_lossy _ order_refl _ _ _ _ demo_single_responsible,
        of "''a''" demo_one "''w''" "''t''" "[]" 3] by fastforce
qed

text \<open>
  C15. Removing a task through a node that is not responsible for the worker's key rewrites the
  record on the responsible node only: no other process changes, so the replicas keep the task.
\<close>

theorem remove_remote_leaves_replicas:
  fixes s :: "'z net_scheme"
  assumes st: "stable A s" and lossy: "lossy s" and me: "member A s me nd" and fuel: "255 \<le> fuel"
    and w: "w \<noteq> []" and t: "JStr t \<in> set ts" and routes: "routes nd (sha1_id (''worker:'' @ strip w))"
    and primary: "responsible A s (sha1_id (''worker:'' @ strip w)) r" "stores_tasks (ref_addr r) w ts s"
    and remote: "ref_id r \<noteq> node_id nd"
  shows "\<exists>res s'. remove fuel me k w t s = (Inr res, s') \<and> ar_changed res \<and> ar_replication res = None \<and>
    stores_tasks (ref_addr r) w (filter (\<lambda>x. x \<noteq> JStr t) ts) s' \<and>
    (\<forall>b. b \<noteq> ref_addr r \<longrightarrow> nodes s' b = nodes s b)"
proof -
  let ?key = "''worker:'' @ strip w" and ?ts = "filter (\<lambda>x. x \<noteq> JStr t) ts"
  have key: "build_worker_key w = Inr ?key" using w by (simp add: build_worker_key_def)
  obtain nr rec where nr: "nodes s (ref_addr r) = Some nr" and rec: "get ?key nr = Some rec" "worker_record ts rec"
    using primary(2) t by (auto simp: stores_tasks_def split: option.splits)
  have hold: "holds (ref_addr r) ?key rec s" "rec \<noteq> JNull"
    using nr rec by (auto simp: holds_def get_def split: option.splits if_splits)
  obtain m c m' c' where look: "find_successor fuel me (sha1_id ?key) s = (Inr r, later m c s)"
    "get_on_node me r ?key (later m c s) = (Inr (Some rec), later m' c' (later m c s))"
    by (rule read_ok [OF st lossy me fuel routes primary(1) hold])
  let ?s1 = "later m' c' (later m c s)"
  have got: "t_get (ref_addr r) ?key (later m c s) = (Inr (Some rec), ?s1)"
    using look(2) remote memberD(1) [OF me] by (simp add: get_on_node_def act_simps)
  obtain rec' where rec': "bump_record (clock ?s1) rec ?ts = Inr rec'" "worker_record ?ts rec'"
    using bump_record_ok [OF rec(2)] by blast
  obtain m2 c2 where "t_put (ref_addr r) ?key rec' ?s1 = (Inr (), set_node (ref_addr r) (snd (put ?key rec' nr)) (later m2 c2 ?s1))"
    unfolding t_put_def h_data_put_def
    by (rule rpc_on_node [of ?s1 "ref_addr r" nr "\<lambda>nd. (Ok (), snd (put ?key rec' nd))" "()" "snd (put ?key rec' nr)"])
      (use lossy nr in auto)
  then have put: "ignoring (t_put (ref_addr r) ?key rec') ?s1 = (Inr (), set_node (ref_addr r) (snd (put ?key rec' nr)) (later m2 c2 ?s1))"
    by (rule ignoring_Inr)
  let ?s' = "set_node (ref_addr r) (snd (put ?key rec' nr)) (later m2 c2 ?s1)"
  have "remove fuel me k w t s = (Inr \<lparr>ar_key = ?key, ar_tasks = ?ts, ar_changed = True, ar_replication = None\<rparr>, ?s')"
    using look(1) remote memberD(1) [OF me] got rec' put t tasks_of_record [OF rec(2)]
    by (simp add: remove_def key worker_owner_def act_simps Let_def del: later_later)
  moreover have "rec' \<noteq> JNull" using worker_record_obj [OF rec'(2)] by auto
  then have "stores_tasks (ref_addr r) w ?ts ?s'"
    using rec'(2) by (simp add: stores_tasks_def get_def)
  ultimately show ?thesis by force
qed

text \<open>
  The ring of 10 and 100 with the record of worker \<open>w\<close> on both nodes. Whichever of the two is
  responsible for the key, the removal is sent through the other.
\<close>

definition demo_assigned :: net where
  "demo_assigned =
     set_node ''b'' (demo100\<lparr>data_store := [(''worker:w'', new_record 0 ''w'' [JStr ''t''])]\<rparr>)
       (set_node ''a'' (demo10\<lparr>data_store := [(''worker:w'', new_record 0 ''w'' [JStr ''t''])]\<rparr>) demo_net)"

lemma demo_assigned_frame: "frame demo_net demo_assigned"
proof -
  let ?s = "set_node ''a'' (demo10\<lparr>data_store := [(''worker:w'', new_record 0 ''w'' [JStr ''t''])]\<rparr>) demo_net"
  have "frame demo_net ?s"
    by (rule frame_set_node [of _ _ demo10]) (simp_all add: demo_net_def)
  moreover have "frame ?s demo_assigned"
    unfolding demo_assigned_def by (rule frame_set_node [of _ _ demo100]) (simp_all add: demo_net_def)
  ultimately show ?thesis by (rule frame_trans)
qed

lemma demo_assigned_stores:
  "stores_tasks ''a'' ''w'' [JStr ''t''] demo_assigned" "stores_tasks ''b'' ''w'' [JStr ''t''] demo_assigned"
proof -
  have "strip ''w'' = ''w''" by code_simp
  moreover have "new_record 0 ''w'' [JStr ''t''] \<noteq> JNull" by (simp add: new_record_def)
  ultimately show "stores_tasks ''a'' ''w'' [JStr ''t''] demo_assigned" "stores_tasks ''b'' ''w'' [JStr ''t''] demo_assigned"
    using new_record_ok by (auto simp: stores_tasks_def demo_assigned_def get_def)
qed

lemma demo_net_owner: "owner_of {10, 100} h 10 \<or> owner_of {10, 100} h 100"
  using linear [of "dist h 10" "dist h 100"] by (auto simp: owner_of_def)

theorem remove_remote_leaves_replicas_witness:
  "\<exists>me a b res s'. {a, b} = {''a'', ''b''} \<and> a \<noteq> b \<and> remove 255 me 3 ''w'' ''t'' demo_assigned = (Inr res, s') \<and>
     ar_changed res \<and> stores_tasks a ''w'' [] s' \<and> stores_tasks b ''w'' [JStr ''t''] s'"
proof -
  note fr = demo_assigned_frame
  let ?h = "sha1_id (''worker:'' @ strip ''w'')"
  have base: "stable UNIV demo_assigned" "lossy demo_assigned" "refers UNIV demo_assigned ref10"
    "refers UNIV demo_assigned ref100" "ring_ids UNIV demo_assigned = {10, 100}"
    using frame_stable_imp [OF fr demo_net_stable] frame_lossy [OF fr] demo_net_lossy frame_refers [OF fr]
      demo_net_refers frame_ring_ids [OF fr, of UNIV] demo_net_ids by auto
  have ids: "ref_id ref10 = 10" "ref_id ref100 = 100" "ref_addr ref10 = ''a''" "ref_addr ref100 = ''b''"
    by (simp_all add: demo_refs)
  obtain na nb where n: "member UNIV demo_assigned ''a'' na" "node_id na = 10"
    "member UNIV demo_assigned ''b'' nb" "node_id nb = 100"
    by (auto simp: member_def demo_assigned_def demo10_def demo100_def demo_node_def)
  have go: "\<exists>res s'. remove 255 me 3 ''w'' ''t'' demo_assigned = (Inr res, s') \<and> ar_changed res \<and>
      stores_tasks (ref_addr r) ''w'' [] s' \<and> (\<forall>x. x \<noteq> ref_addr r \<longrightarrow> nodes s' x = nodes demo_assigned x)"
    if "member UNIV demo_assigned me nd" "responsible UNIV demo_assigned ?h r" "ref_id r \<noteq> node_id nd"
      "stores_tasks (ref_addr r) ''w'' [JStr ''t''] demo_assigned" for me nd r
  proof -
    have "?h \<noteq> node_id nd"
    proof
      assume "?h = node_id nd"
      then have "owner_of (ring_ids UNIV demo_assigned) ?h (node_id nd)"
        using owner_of_member ring_idsI [OF that(1)] by metis
      moreover have "owner_of (ring_ids UNIV demo_assigned) ?h (ref_id r)" using that(2) by (simp add: responsible_def)
      ultimately show False
        using owner_of_unique [of "ring_ids UNIV demo_assigned" ?h] base(1) that(3) unfolding stable_def
        by (metis sha1_id_is_id)
    qed
    then have "routes nd ?h" by (simp add: routes_def)
    from remove_remote_leaves_replicas [OF base(1,2) that(1) order_refl _ _ this that(2,4,3), of "''t''" 3]
    show ?thesis by auto
  qed
  from demo_net_owner [of ?h] show ?thesis
  proof
    assume "owner_of {10, 100} ?h 10"
    then have "responsible UNIV demo_assigned ?h ref10" using base ids by (simp add: responsible_def)
    from go [OF n(3) this] n ids demo_assigned_stores obtain res s' where
      "remove 255 ''b'' 3 ''w'' ''t'' demo_assigned = (Inr res, s')" "ar_changed res"
      "stores_tasks ''a'' ''w'' [] s'" "nodes s' ''b'' = nodes demo_assigned ''b''" by auto
    then show ?thesis using demo_assigned_stores(2)
      by (intro exI [of _ "''b''"] exI [of _ "''a''"] exI [of _ res] exI [of _ s']) (auto simp: stores_tasks_def)
  next
    assume "owner_of {10, 100} ?h 100"
    then have "responsible UNIV demo_assigned ?h ref100" using base ids by (simp add: responsible_def)
    from go [OF n(1) this] n ids demo_assigned_stores obtain res s' where
      "remove 255 ''a'' 3 ''w'' ''t'' demo_assigned = (Inr res, s')" "ar_changed res"
      "stores_tasks ''b'' ''w'' [] s'" "nodes s' ''a'' = nodes demo_assigned ''a''" by auto
    then show ?thesis using demo_assigned_stores(1)
      by (intro exI [of _ "''a''"] exI [of _ "''b''"] exI [of _ "''a''"] exI [of _ res] exI [of _ s'])
        (auto simp: stores_tasks_def)
  qed
qed

end
