(* ===== verification/Triples.thy ===== *)
theory Triples
  imports Assignment
begin

text \<open>
  Partial correctness of actions: \<open>triple P m Q\<close> says that the action \<open>m\<close>, started in a state
  with \<open>P\<close>, leaves a state with \<open>P\<close> however it ends, and that the value it returns, if it
  returns one, satisfies \<open>Q\<close>. The rules in \<open>triple_intro\<close> follow the combinators, the HTTP
  calls included; \<open>keeps P m\<close> is the case without a claim about the value.
\<close>

named_theorems triple_intro \<open>rules for triples, one per combinator\<close>

definition triple :: "('s \<Rightarrow> bool) \<Rightarrow> ('s, 'a) act \<Rightarrow> ('a \<Rightarrow> bool) \<Rightarrow> bool" where
  "triple P m Q \<longleftrightarrow> (\<forall>s r s'. P s \<longrightarrow> m s = (r, s') \<longrightarrow> P s' \<and> (\<forall>x. r = Inr x \<longrightarrow> Q x))"

lemma tripleI: "(\<And>s r s'. P s \<Longrightarrow> m s = (r, s') \<Longrightarrow> P s' \<and> (\<forall>x. r = Inr x \<longrightarrow> Q x)) \<Longrightarrow> triple P m Q"
  by (simp add: triple_def)

lemma tripleD: "triple P m Q \<Longrightarrow> P s \<Longrightarrow> m s = (r, s') \<Longrightarrow> P s' \<and> (\<forall>x. r = Inr x \<longrightarrow> Q x)"
  unfolding triple_def by blast

lemma triple_keeps: "triple P m Q \<Longrightarrow> keeps P m"
  by (auto simp: triple_def keeps_def) (metis prod.collapse)

lemma keeps_triple: "keeps P m \<Longrightarrow> (\<And>x. Q x) \<Longrightarrow> triple P m Q"
  by (auto simp: triple_def intro: keeps_run)

lemma triple_conseq: "triple P m R \<Longrightarrow> (\<And>x. R x \<Longrightarrow> Q x) \<Longrightarrow> triple P m Q"
  unfolding triple_def by blast

lemma triple_ret [triple_intro]: "Q x \<Longrightarrow> triple P (ret x) Q"
  by (simp add: triple_def act_simps)

lemma triple_throw [triple_intro]: "triple P (throw e) Q"
  by (simp add: triple_def act_simps)

lemma triple_gets: "(\<And>s. P s \<Longrightarrow> Q (f s)) \<Longrightarrow> triple P (gets f) Q"
  by (auto simp: triple_def act_simps)

lemma triple_lift [triple_intro]: "(\<And>x. r = Inr x \<Longrightarrow> Q x) \<Longrightarrow> triple P (lift r) Q"
  by (auto simp: triple_def act_simps)

text \<open>Not a safe rule: the middle assertion \<open>R\<close> has to be found first.\<close>

lemma triple_andthen: "triple P m R \<Longrightarrow> (\<And>x. R x \<Longrightarrow> triple P (k x) Q) \<Longrightarrow> triple P (andthen m k) Q"
proof (rule tripleI)
  fix s r s' assume m: "triple P m R" and k: "\<And>x. R x \<Longrightarrow> triple P (k x) Q" and s: "P s" "andthen m k s = (r, s')"
  obtain r1 s1 where run: "m s = (r1, s1)" by fastforce
  from tripleD [OF m s(1) this] have "P s1" "\<And>x. r1 = Inr x \<Longrightarrow> R x" by auto
  with run s(2) tripleD [OF k] show "P s' \<and> (\<forall>x. r = Inr x \<longrightarrow> Q x)"
    by (cases r1) (auto simp: act_simps)
qed

lemma triple_after: "keeps P m \<Longrightarrow> (\<And>x. triple P (k x) Q) \<Longrightarrow> triple P (andthen m k) Q"
  by (rule triple_andthen [OF keeps_triple [where Q = "\<lambda>_. True"]]) auto

lemma triple_catch [triple_intro]: "triple P m Q \<Longrightarrow> (\<And>e. triple P (h e) Q) \<Longrightarrow> triple P (catch m h) Q"
proof (rule tripleI)
  fix s r s' assume m: "triple P m Q" and h: "\<And>e. triple P (h e) Q" and s: "P s" "catch m h s = (r, s')"
  obtain r1 s1 where run: "m s = (r1, s1)" by fastforce
  from tripleD [OF m s(1) this] have "P s1" "\<And>x. r1 = Inr x \<Longrightarrow> Q x" by auto
  with run s(2) tripleD [OF h] show "P s' \<and> (\<forall>x. r = Inr x \<longrightarrow> Q x)"
    by (cases r1) (auto simp: act_simps split: if_splits)
qed

lemma triple_if [triple_intro]:
  "(b \<Longrightarrow> triple P m Q) \<Longrightarrow> (\<not> b \<Longrightarrow> triple P m' Q) \<Longrightarrow> triple P (if b then m else m') Q"
  by simp

lemma triple_option [triple_intro]:
  "(x = None \<Longrightarrow> triple P m Q) \<Longrightarrow> (\<And>y. x = Some y \<Longrightarrow> triple P (f y) Q)
    \<Longrightarrow> triple P (case x of None \<Rightarrow> m | Some y \<Rightarrow> f y) Q"
  by (cases x) auto

lemma triple_read_node [triple_intro]:
  "(\<And>s nd. P s \<Longrightarrow> nodes s a = Some nd \<Longrightarrow> Q (f nd)) \<Longrightarrow> triple P (read_node a f) Q"
  by (auto simp: triple_def read_node_def on_node_def split: option.splits)

section \<open>HTTP\<close>

text \<open>The claim about a reply: its body, if it has one, satisfies \<open>Q\<close>.\<close>

definition body :: "('b \<Rightarrow> bool) \<Rightarrow> 'b reply \<Rightarrow> bool" where
  "body Q r \<longleftrightarrow> (\<forall>b. r = Ok b \<longrightarrow> Q b)"

lemma triple_retrying:
  assumes op: "\<And>x. triple P (op x) Q" and nxt: "\<And>i x. keeps P (nxt i x)"
  shows "triple P (retrying ok nxt op n i x) Q"
proof (induction n arbitrary: i x)
  case 0
  show ?case by (simp add: op)
next
  case (Suc n)
  have rest: "triple P (andthen (nxt i x) (retrying ok nxt op n (Suc i))) Q"
    by (rule triple_andthen [of _ _ "\<lambda>_. True"]) (auto intro: keeps_triple nxt Suc.IH)
  show ?case
  proof (rule tripleI)
    fix s r s' assume s: "P s" "retrying ok nxt op (Suc n) i x s = (r, s')"
    obtain r1 s1 where run: "op x s = (r1, s1)" by fastforce
    from tripleD [OF op s(1) this] have "P s1" "\<And>v. r1 = Inr v \<Longrightarrow> Q v" by auto
    with run s(2) tripleD [OF rest] show "P s' \<and> (\<forall>x. r = Inr x \<longrightarrow> Q x)"
      by (cases r1) (auto split: if_splits)
  qed
qed

lemma triple_http_attempt:
  assumes t: "timeless P" and h: "triple P h (body Q)"
  shows "triple P (http_attempt a h) (body Q)"
proof (rule tripleI)
  fix s r s' assume s: "P s" and run: "http_attempt a h s = (r, s')"
  have s1: "P (s\<lparr>sent := Suc (sent s)\<rparr>)" using timelessD [OF t s, of 1 0] by (simp add: later_def)
  have serve: "triple P (serve h) (body Q)"
    unfolding serve_def by (intro triple_intro h) (simp add: body_def)
  then have lost: "triple P (andthen (serve h) (\<lambda>_. throw e)) (body Q)" for e
    by (rule triple_andthen) (intro triple_intro)
  show "P s' \<and> (\<forall>x. r = Inr x \<longrightarrow> body Q x)"
    using run s1 tripleD [OF serve s1] tripleD [OF lost s1]
    by (auto simp: http_attempt_def Let_def split: if_splits delivery.splits)
qed

lemma triple_request: "timeless P \<Longrightarrow> triple P h (body Q) \<Longrightarrow> triple P (request a h) (body Q)"
  unfolding request_def by (intro triple_retrying triple_http_attempt keeps_sleep)

lemma triple_rpc [triple_intro]: "timeless P \<Longrightarrow> triple P h (body Q) \<Longrightarrow> triple P (rpc a h) Q"
  unfolding rpc_def
  by (rule triple_andthen [OF triple_request])
    (auto intro!: triple_lift simp: body_def raise_for_status_def split: reply.splits)

lemma triple_rpc_opt [triple_intro]:
  "timeless P \<Longrightarrow> triple P h (body Q) \<Longrightarrow> triple P (rpc_opt a h) (\<lambda>v. \<forall>x. v = Some x \<longrightarrow> Q x)"
  unfolding rpc_opt_def
  by (rule triple_andthen [OF triple_request])
    (auto intro!: triple_if triple_ret triple_lift simp: body_def raise_for_status_def split: reply.splits)

lemma triple_first_answer:
  "(\<And>r. triple P (read r) (\<lambda>v. \<forall>x. v = Some x \<longrightarrow> Q x)) \<Longrightarrow> triple P (first_answer read rs) (\<lambda>v. \<forall>x. v = Some x \<longrightarrow> Q x)"
proof (induction rs)
  case Nil
  show ?case by (simp add: triple_ret)
next
  case (Cons r rs)
  show ?case unfolding first_answer.simps
    by (rule triple_andthen [of _ _ "\<lambda>v. \<forall>x. v = Some x \<longrightarrow> Q x"])
      (intro triple_intro Cons.prems, simp, intro triple_intro Cons.IH Cons.prems, simp)
qed

end
