(* ===== verification/Storage.thy ===== *)
theory Storage
  imports Triples
begin

text \<open>
  What the storage operations preserve, proved once. \<open>data_invariant W P\<close> is the interface of a
  predicate \<open>P\<close> of the state that survives messages, time, the writes that \<open>W\<close> allows and the
  deletion of keys it allows to write; inside it every operation of the result and assignment
  services that writes only what \<open>W\<close> allows keeps \<open>P\<close>, over any network, whether it succeeds or
  fails. The instances: the ring itself, one key of one process, and everything a process keeps
  beside its node. \<open>record_invariant\<close> adds that the stored result records are good, so that
  those that are read are.
\<close>

lemma keeps_ignoring [keeps_intro]: "keeps P m \<Longrightarrow> keeps P (ignoring m)"
  unfolding ignoring_def by (intro keeps_intro)

locale data_invariant =
  fixes W :: "string \<Rightarrow> json \<Rightarrow> bool" and P :: "'z net_scheme \<Rightarrow> bool"
  assumes later: "P s \<Longrightarrow> P (later m c s)"
    and put_keeps: "P s \<Longrightarrow> nodes s a = Some nd \<Longrightarrow> W key v \<Longrightarrow> P (set_node a (snd (put key v nd)) s)"
    and delete_keeps: "P s \<Longrightarrow> nodes s a = Some nd \<Longrightarrow> W key v \<Longrightarrow> P (set_node a (snd (delete key nd)) s)"
begin

lemma time: "timeless P"
  by (simp add: timeless_def later)

lemma keeps_put: "W key v \<Longrightarrow> keeps P (on_node a (put key v))" "W key v \<Longrightarrow> keeps P (on_node a (\<lambda>nd. (f nd, snd (put key v nd))))"
  by (auto simp: keeps_def on_node_def put_keeps split: option.split)

lemma keeps_delete: "W key v \<Longrightarrow> keeps P (on_node a (delete key))" "W key v \<Longrightarrow> keeps P (on_node a (\<lambda>nd. (f nd, snd (delete key nd))))"
  by (auto simp: keeps_def on_node_def delete_keeps split: option.split)

lemma keeps_re_resolve: "keeps P (re_resolve fuel me key i r)"
  unfolding re_resolve_def by (intro keeps_intro time)

lemma keeps_t_put: "W key v \<Longrightarrow> keeps P (t_put a key v)"
  unfolding t_put_def h_data_put_def by (intro keeps_intro time keeps_put)

lemma keeps_t_get: "keeps P (t_get a key)"
  unfolding t_get_def h_data_get_def by (intro keeps_intro time)

lemma keeps_t_delete: "W key v \<Longrightarrow> keeps P (t_delete a key)"
  unfolding t_delete_def h_data_delete_def by (intro keeps_intro time keeps_delete)

lemma keeps_put_on_node: "W key v \<Longrightarrow> keeps P (put_on_node fuel me r key v)"
  unfolding put_on_node_def by (intro keeps_intro time keeps_put keeps_t_put keeps_re_resolve)

lemma keeps_get_on_node: "keeps P (get_on_node me r key)"
  unfolding get_on_node_def by (intro keeps_intro keeps_t_get)

lemma keeps_delete_on_node: "W key v \<Longrightarrow> keeps P (delete_on_node me r key)"
  unfolding delete_on_node_def by (intro keeps_intro keeps_delete keeps_t_delete)

lemma keeps_first_answer: "(\<And>r. keeps P (read r)) \<Longrightarrow> keeps P (first_answer read rs)"
  by (induction rs) (auto intro!: keeps_intro)

lemma keeps_result_replica_put: "W (''result:'' @ i) v \<Longrightarrow> keeps P (t_put_result_replica a i v)"
  unfolding t_put_result_replica_def h_result_replica_put_def by (intro keeps_intro time keeps_put)

lemma keeps_result_replica_get: "keeps P (t_get_result_replica a i)"
  unfolding t_get_result_replica_def h_result_replica_get_def by (intro keeps_intro time)

lemmas keeps_result_replicas = keeps_result_replica_put keeps_result_replica_get

lemma keeps_worker_replica_put: "W (''worker:'' @ i) v \<Longrightarrow> keeps P (t_put_worker_replica a i v)"
  unfolding t_put_worker_replica_def h_worker_replica_put_def by (intro keeps_intro time keeps_put)

lemma keeps_worker_replica_get: "keeps P (t_get_worker_replica a i)"
  unfolding t_get_worker_replica_def h_worker_replica_get_def by (intro keeps_intro time)

lemmas keeps_worker_replicas = keeps_worker_replica_put keeps_worker_replica_get

lemma keeps_lift_andthen: "(\<And>x. r = Inr x \<Longrightarrow> keeps P (k x)) \<Longrightarrow> keeps P (andthen (lift r) k)"
  by (cases r) (auto simp: keeps_def act_simps)

lemma keeps_result_put:
  assumes "W (''result:'' @ strip i) rec" "W (''result:'' @ i) rec"
  shows "keeps P (result_put fuel me k i rec)"
  unfolding result_put_def result_owner_def result_put_on_node_def result_replicate_def
  using assms by (intro keeps_lift_andthen keeps_intro time keeps_put_on_node keeps_result_replicas)
    (auto simp: build_result_key_def split: if_splits)

lemma keeps_result_get: "keeps P (result_get fuel me k i)"
  unfolding result_get_def result_owner_def result_get_on_node_def result_read_from_replicas_def
  by (intro keeps_intro time keeps_get_on_node keeps_first_answer keeps_result_replicas)

lemma keeps_result_delete:
  assumes "W (''result:'' @ strip i) v" "W (''result:'' @ i) v"
  shows "keeps P (result_delete fuel me k i)"
  unfolding result_delete_def result_owner_def result_delete_on_node_def t_delete_result_replica_def
    h_result_replica_delete_def
  using assms by (intro keeps_lift_andthen keeps_intro time keeps_delete_on_node keeps_delete keeps_ignoring)
    (auto simp: build_result_key_def split: if_splits)

lemma keeps_worker_replicate: "W (''worker:'' @ i) v \<Longrightarrow> keeps P (worker_replicate k i v r)"
  unfolding worker_replicate_def by (intro keeps_intro time keeps_worker_replicas)

lemma keeps_append_local:
  assumes "\<And>v. W (''worker:'' @ strip w) v" "\<And>v. W (''worker:'' @ w) v"
  shows "keeps P (append_local fuel me k w t p)"
  unfolding append_local_def worker_owner_def
  using assms by (intro keeps_lift_andthen keeps_intro time keeps_put keeps_worker_replicate)
    (auto simp: build_worker_key_def split: if_splits)

lemma keeps_append:
  assumes "\<And>v. W (''worker:'' @ strip w) v" "\<And>v. W (''worker:'' @ w) v"
  shows "keeps P (append fuel me k w t)"
  unfolding append_def worker_owner_def t_append_worker_assignment_def h_workers_append_def
  by (intro keeps_intro time keeps_append_local keeps_re_resolve assms)

lemma keeps_remove_local:
  assumes "\<And>v. W (''worker:'' @ strip w) v" "\<And>v. W (''worker:'' @ w) v"
  shows "keeps P (remove_local fuel me k w t p)"
  unfolding remove_local_def worker_owner_def
  using assms by (intro keeps_lift_andthen keeps_intro time keeps_put keeps_worker_replicate)
    (auto simp: build_worker_key_def split: if_splits)

lemma keeps_remove:
  assumes "\<And>v. W (''worker:'' @ strip w) v" "\<And>v. W (''worker:'' @ w) v"
  shows "keeps P (remove fuel me k w t)"
  unfolding remove_def worker_owner_def
  using assms by (intro keeps_lift_andthen keeps_intro time keeps_remove_local keeps_t_get keeps_t_put)
    (auto simp: build_worker_key_def split: if_splits)

lemma keeps_assigned_tasks: "keeps P (assigned_tasks fuel me k w)"
  unfolding assigned_tasks_def worker_owner_def worker_read_from_replicas_def
  by (intro keeps_intro time keeps_get_on_node keeps_first_answer keeps_worker_replicas)

end

text \<open>A value that was read: if it is a result record, it is good.\<close>

definition read_good :: "(jdict \<Rightarrow> bool) \<Rightarrow> json option \<Rightarrow> bool" where
  "read_good good v \<longleftrightarrow> (\<forall>d. v = Some (JObj d) \<longrightarrow> is_result_record (JObj d) \<longrightarrow> good d)"

locale keyed_records = data_invariant W P
  for W :: "string \<Rightarrow> json \<Rightarrow> bool" and P :: "'z net_scheme \<Rightarrow> bool" +
  fixes Key :: "string \<Rightarrow> bool" and good :: "jdict \<Rightarrow> bool"
  assumes stored_good: "P s \<Longrightarrow> nodes s a = Some nd \<Longrightarrow> (key, JObj d) \<in> set (data_store nd) \<Longrightarrow>
      Key key \<Longrightarrow> is_result_record (JObj d) \<Longrightarrow> good d"
begin

lemma get_good:
  assumes "Key key" and "P s" and "nodes s a = Some nd"
  shows "read_good good (get key nd)"
  unfolding read_good_def
proof (intro allI impI)
  fix d assume "get key nd = Some (JObj d)" "is_result_record (JObj d)"
  moreover from this have "(key, JObj d) \<in> set (data_store nd)"
    by (auto simp: get_def split: option.splits if_splits dest: map_of_SomeD)
  ultimately show "good d" using assms stored_good by blast
qed

lemma triple_get_reply:
  assumes "Key key"
  shows "triple P (read_node a (\<lambda>nd. case get key nd of None \<Rightarrow> Status 404 | Some v \<Rightarrow> Ok v))
    (body (\<lambda>x. read_good good (Some x)))"
  using get_good [OF assms] by (intro triple_read_node) (auto simp: body_def split: option.splits dest: sym)

lemma triple_t_get: "Key key \<Longrightarrow> triple P (t_get a key) (read_good good)"
  unfolding t_get_def h_data_get_def
  by (rule triple_conseq [OF triple_rpc_opt [OF time triple_get_reply]]) (auto simp: read_good_def)

lemma triple_get_result_replica: "Key (''result:'' @ i) \<Longrightarrow> triple P (t_get_result_replica a i) (\<lambda>v. \<forall>x. v = Some x \<longrightarrow> read_good good (Some x))"
  unfolding t_get_result_replica_def h_result_replica_get_def
  by (intro triple_rpc_opt time triple_get_reply) simp

lemma triple_get_on_node: "Key key \<Longrightarrow> triple P (get_on_node me r key) (read_good good)"
  unfolding get_on_node_def
  by (rule triple_andthen [OF keeps_triple [where Q = "\<lambda>_. True"]])
    (auto intro!: keeps_read_node triple_if triple_read_node triple_t_get get_good)

lemma triple_read_replicas: "Key (''result:'' @ i) \<Longrightarrow> triple P (result_read_from_replicas k i r) (read_good good)"
proof -
  assume "Key (''result:'' @ i)"
  then have "triple P (first_answer (\<lambda>r. t_get_result_replica (ref_addr r) i) rs) (read_good good)" for rs
    by (intro triple_conseq [OF triple_first_answer [OF triple_get_result_replica]]) (auto simp: read_good_def)
  then show ?thesis unfolding result_read_from_replicas_def
    by (intro triple_andthen [OF keeps_triple [where Q = "\<lambda>_. True"]] keeps_intro time) auto
qed

text \<open>What \<open>ResultService.get\<close> returns is a good record.\<close>

lemma triple_key_get:
  assumes keys: "Key (''result:'' @ i)" "Key (''result:'' @ strip i)"
  shows "triple P (result_get fuel me k i) (\<lambda>v. \<forall>x. v = Some x \<longrightarrow> (\<exists>d. x = JObj d \<and> good d))"
proof (cases "is_nonblank (JStr i)")
  case True
  let ?rest = "\<lambda>primary. andthen (catch (get_on_node me primary (''result:'' @ strip i)) (\<lambda>_. ret None)) (\<lambda>v.
     andthen (case v of None \<Rightarrow> result_read_from_replicas k i primary | Some x \<Rightarrow> ret (Some x)) (\<lambda>v.
     ret (case v of None \<Rightarrow> None | Some x \<Rightarrow> if is_result_record x then Some x else None)))"
  have "triple P (?rest primary) (\<lambda>v. \<forall>x. v = Some x \<longrightarrow> (\<exists>d. x = JObj d \<and> good d))" for primary
  proof (rule triple_andthen [of _ _ "read_good good"])
    show "triple P (catch (get_on_node me primary (''result:'' @ strip i)) (\<lambda>_. ret None)) (read_good good)"
      by (intro triple_catch triple_get_on_node triple_ret keys) (simp_all add: read_good_def)
    show "triple P (andthen (case v of None \<Rightarrow> result_read_from_replicas k i primary | Some x \<Rightarrow> ret (Some x)) (\<lambda>v.
        ret (case v of None \<Rightarrow> None | Some x \<Rightarrow> if is_result_record x then Some x else None)))
        (\<lambda>v. \<forall>x. v = Some x \<longrightarrow> (\<exists>d. x = JObj d \<and> good d))" if "read_good good v" for v
    proof (rule triple_andthen [of _ _ "read_good good"])
      show "triple P (case v of None \<Rightarrow> result_read_from_replicas k i primary | Some x \<Rightarrow> ret (Some x)) (read_good good)"
        using that by (intro triple_option triple_ret triple_read_replicas keys) simp
      show "triple P (ret (case v of None \<Rightarrow> None | Some x \<Rightarrow> if is_result_record x then Some x else None))
          (\<lambda>v. \<forall>x. v = Some x \<longrightarrow> (\<exists>d. x = JObj d \<and> good d))" if "read_good good v" for v
        using that by (intro triple_ret) (auto simp: read_good_def split: option.splits elim!: is_result_record.elims)
    qed
  qed
  then have "triple P (andthen (result_owner fuel me (''result:'' @ strip i)) ?rest)
      (\<lambda>v. \<forall>x. v = Some x \<longrightarrow> (\<exists>d. x = JObj d \<and> good d))"
    unfolding result_owner_def by (rule triple_after [OF keeps_find_successor [OF time]])
  with True show ?thesis
    by (simp add: result_get_def build_result_key_def result_get_on_node_def triple_def act_simps)
next
  case False
  then show ?thesis by (simp add: result_get_def build_result_key_def triple_def act_simps)
qed

end

text \<open>The same for all keys of result records.\<close>

locale record_invariant = keyed_records W P "\<lambda>key. startswith key ''result:''" good
  for W :: "string \<Rightarrow> json \<Rightarrow> bool" and P :: "'z net_scheme \<Rightarrow> bool" and good :: "jdict \<Rightarrow> bool"
begin

lemma triple_result_get: "triple P (result_get fuel me k i) (\<lambda>v. \<forall>x. v = Some x \<longrightarrow> (\<exists>d. x = JObj d \<and> good d))"
  by (rule triple_key_get) simp_all

end

lemma put_place: "same_place nd (snd (put key v nd))"
  by (simp add: put_def)

lemma delete_place: "same_place nd (snd (delete key nd))"
  by (auto simp: delete_def Let_def)

lemma delete_data: "data_store (snd (delete key nd)) = ddel key (data_store nd)"
  by (auto simp: delete_def Let_def save_to_disk_def)

lemma put_data: "data_store (snd (put key v nd)) = dset key v (data_store nd)"
  by (simp add: put_def save_to_disk_def)

text \<open>The ring: addresses, identifiers, fingers and the network.\<close>

interpretation ring_frame: data_invariant "\<lambda>_ _. True" "frame s0"
  for s0 :: "'z net_scheme"
  by unfold_locales (blast intro: frame_trans frame_later frame_set_node put_place delete_place)+

text \<open>What one process stores under one key.\<close>

definition stored :: "string \<Rightarrow> string \<Rightarrow> json option \<Rightarrow> 'z net_scheme \<Rightarrow> bool" where
  "stored a key v s \<longleftrightarrow> (\<exists>nd. nodes s a = Some nd \<and> map_of (data_store nd) key = v)"

interpretation other_key: data_invariant "\<lambda>key' _. key' \<noteq> key" "stored a key v"
  for a key v
  by unfold_locales (auto simp: stored_def put_data delete_data set_node_def later_def)

text \<open>Operations that only read change nothing but the time.\<close>

interpretation read_only: data_invariant "\<lambda>_ _. False" "\<lambda>s. \<exists>m c. s = later m c s0"
  for s0 :: "'z net_scheme"
  by unfold_locales (auto, blast)

text \<open>No process stores a key.\<close>

definition absent :: "string \<Rightarrow> 'z net_scheme \<Rightarrow> bool" where
  "absent key s \<longleftrightarrow> (\<forall>a nd. nodes s a = Some nd \<longrightarrow> map_of (data_store nd) key = None)"

interpretation absent: keyed_records "\<lambda>key' _. key' \<noteq> key" "absent key" "\<lambda>key'. key' = key" "\<lambda>_. False"
  for key :: string
proof unfold_locales
  fix s :: "'z net_scheme" and a nd key' d
  assume "absent key s" "nodes s a = Some nd" "(key', JObj d) \<in> set (data_store nd)" "key' = key"
  then show False by (force simp: absent_def map_of_eq_None_iff)
qed (auto simp: absent_def put_data delete_data set_node_def later_def)

text \<open>Whatever the process keeps beside its node: the fields that extend the network state.\<close>

interpretation beside: data_invariant "\<lambda>_ _. True" "\<lambda>s. Q (net.more s)"
  for Q :: "'z \<Rightarrow> bool"
  by unfold_locales (auto simp: set_node_def later_def)

end
