(* ===== verification/Registry.thy ===== *)
theory Registry
  imports Python "HOL-Library.Char_ord" "HOL-Library.List_Lexorder"
begin

text \<open>
  \<open>WorkerRegistry\<close> of \<open>chord/worker_registry.py\<close>: the workers that sent heartbeats, their load
  and success counters, and the score that places a task. Times are rational seconds; \<open>now\<close>
  is \<open>time.time()\<close>. Strings are ordered by their bytes, as UTF-8 text is in Python.
\<close>

section \<open>State\<close>

definition PLACEMENT_WEIGHT_LOAD :: rat where "PLACEMENT_WEIGHT_LOAD = 1 / 2"
definition PLACEMENT_WEIGHT_LATENCY :: rat where "PLACEMENT_WEIGHT_LATENCY = 3 / 10"
definition PLACEMENT_WEIGHT_AVAILABILITY :: rat where "PLACEMENT_WEIGHT_AVAILABILITY = 1 / 5"
definition LATENCY_NORMALIZATION_MS :: rat where "LATENCY_NORMALIZATION_MS = 100"

record worker_metrics =
  pending_tasks :: int
  latency_ms :: rat
  last_heartbeat_ts :: rat

definition default_metrics :: worker_metrics where
  "default_metrics = \<lparr>pending_tasks = 0, latency_ms = 0, last_heartbeat_ts = 0\<rparr>"

record worker_stats =
  total_executed :: nat
  successful :: nat
  failed :: nat

definition default_stats :: worker_stats where
  "default_stats = \<lparr>total_executed = 0, successful = 0, failed = 0\<rparr>"

definition success_rate :: "worker_stats \<Rightarrow> rat" where
  "success_rate st = (if total_executed st = 0 then 1 else of_nat (successful st) / of_nat (total_executed st))"

definition add_result :: "bool \<Rightarrow> worker_stats \<Rightarrow> worker_stats" where
  "add_result is_success st =
     (if is_success then st\<lparr>total_executed := total_executed st + 1, successful := successful st + 1\<rparr>
      else st\<lparr>total_executed := total_executed st + 1, failed := failed st + 1\<rparr>)"

record registry =
  workers :: "rat dict"
  metrics_of :: "worker_metrics dict"
  stats :: "worker_stats dict"
  tokens :: "string dict"
  optimistic_pending :: "nat dict"
  rr_index :: int
  timeout :: rat

definition init_registry :: "rat \<Rightarrow> registry" where
  "init_registry heartbeat_timeout_s =
     \<lparr>workers = [], metrics_of = [], stats = [], tokens = [], optimistic_pending = [], rr_index = -1,
      timeout = heartbeat_timeout_s\<rparr>"

section \<open>Operations\<close>

text \<open>The optional timestamp and token are absent (\<open>None\<close>) or given; an empty token counts as absent.\<close>

definition heartbeat ::
  "rat \<Rightarrow> string \<Rightarrow> int \<Rightarrow> rat option \<Rightarrow> string option \<Rightarrow> registry \<Rightarrow> exn + (string option \<times> registry)" where
  "heartbeat now worker_id pending ts process_token g =
     (if worker_id = [] then Inl (ValueError ''worker_id required'')
      else
        let lat = (case ts of None \<Rightarrow> 0 | Some t \<Rightarrow> max 0 ((now - t) * 1000));
            token = (case process_token of Some [] \<Rightarrow> None | x \<Rightarrow> x);
            prev = map_of (tokens g) worker_id;
            collision = (case (token, prev) of
                (Some t, Some p) \<Rightarrow> if p \<noteq> [] \<and> p \<noteq> t then Some p else None
              | _ \<Rightarrow> None);
            toks = (case token of Some t \<Rightarrow> dset worker_id t (tokens g) | None \<Rightarrow> tokens g)
        in Inr (collision,
             g\<lparr>tokens := toks,
               workers := dset worker_id now (workers g),
               metrics_of := dset worker_id
                 \<lparr>pending_tasks = pending, latency_ms = lat, last_heartbeat_ts = now\<rparr> (metrics_of g),
               stats := (if map_of (stats g) worker_id = None then dset worker_id default_stats (stats g)
                         else stats g),
               optimistic_pending := ddel worker_id (optimistic_pending g)\<rparr>))"

definition remove_worker :: "string \<Rightarrow> registry \<Rightarrow> bool \<times> registry" where
  "remove_worker worker_id g =
     (map_of (workers g) worker_id \<noteq> None,
      g\<lparr>metrics_of := ddel worker_id (metrics_of g), workers := ddel worker_id (workers g)\<rparr>)"

definition live_workers :: "rat \<Rightarrow> registry \<Rightarrow> string list" where
  "live_workers now g =
     (if timeout g \<le> 0 then sort (dkeys (workers g))
      else sort (List.map fst (filter (\<lambda>(w, t). now - t \<le> timeout g) (workers g))))"

definition dead_workers :: "rat \<Rightarrow> registry \<Rightarrow> (string \<times> rat) list" where
  "dead_workers now g =
     (if timeout g \<le> 0 then []
      else sort_key fst (List.map (\<lambda>(w, t). (w, now - t)) (filter (\<lambda>(w, t). timeout g < now - t) (workers g))))"

definition all_workers :: "rat \<Rightarrow> registry \<Rightarrow> (string \<times> rat \<times> rat) list" where
  "all_workers now g = sort_key fst (List.map (\<lambda>(w, t). (w, t, now - t)) (workers g))"

definition round_robin_assign :: "rat \<Rightarrow> registry \<Rightarrow> string option \<times> registry" where
  "round_robin_assign now g =
     (let live = live_workers now g in
      if live = [] then (None, g)
      else let i = (rr_index g + 1) mod int (length live) in (Some (live ! nat i), g\<lparr>rr_index := i\<rparr>))"

definition get_metrics :: "string \<Rightarrow> registry \<Rightarrow> worker_metrics option" where
  "get_metrics worker_id g = map_of (metrics_of g) worker_id"

definition get_stats :: "string \<Rightarrow> registry \<Rightarrow> worker_stats" where
  "get_stats worker_id g = (case map_of (stats g) worker_id of Some st \<Rightarrow> st | None \<Rightarrow> default_stats)"

definition record_completion :: "string \<Rightarrow> bool \<Rightarrow> registry \<Rightarrow> registry" where
  "record_completion worker_id is_success g =
     (if worker_id = [] then g
      else g\<lparr>stats := dset worker_id (add_result is_success (get_stats worker_id g)) (stats g)\<rparr>)"

definition optimistic :: "string \<Rightarrow> registry \<Rightarrow> nat" where
  "optimistic worker_id g = (case map_of (optimistic_pending g) worker_id of Some n \<Rightarrow> n | None \<Rightarrow> 0)"

definition score :: "registry \<Rightarrow> string \<Rightarrow> rat" where
  "score g worker_id =
     (let m = (case map_of (metrics_of g) worker_id of Some m \<Rightarrow> m | None \<Rightarrow> default_metrics);
          load_score = - of_int (pending_tasks m + int (optimistic worker_id g));
          latency_score = - (latency_ms m / LATENCY_NORMALIZATION_MS);
          availability = success_rate (get_stats worker_id g)
      in PLACEMENT_WEIGHT_LOAD * load_score + PLACEMENT_WEIGHT_LATENCY * latency_score
         + PLACEMENT_WEIGHT_AVAILABILITY * availability)"

definition note_assignment :: "string \<Rightarrow> registry \<Rightarrow> registry" where
  "note_assignment worker_id g =
     (if worker_id = [] then g
      else g\<lparr>optimistic_pending := dset worker_id (optimistic worker_id g + 1) (optimistic_pending g)\<rparr>)"

definition is_live :: "rat \<Rightarrow> string \<Rightarrow> registry \<Rightarrow> bool" where
  "is_live now worker_id g \<longleftrightarrow> worker_id \<in> set (live_workers now g)"

text \<open>\<open>sorted(.., reverse=True)\<close> is stable, so workers with equal scores stay in name order.\<close>

definition score_all_workers :: "rat \<Rightarrow> registry \<Rightarrow> (string \<times> rat) list" where
  "score_all_workers now g =
     sort_key (\<lambda>(w, x). - x) (List.map (\<lambda>w. (w, score g w)) (live_workers now g))"

section \<open>Invariant and properties\<close>

definition registry_ok :: "registry \<Rightarrow> bool" where
  "registry_ok g \<longleftrightarrow> wf_dict (workers g) \<and>
     (\<forall>w st. map_of (stats g) w = Some st \<longrightarrow> total_executed st = successful st + failed st)"

lemma success_rate_bounds:
  "total_executed st = successful st + failed st \<Longrightarrow> 0 \<le> success_rate st \<and> success_rate st \<le> 1"
  by (auto simp: success_rate_def divide_le_eq_1)

lemma default_stats_ok [simp]: "total_executed default_stats = successful default_stats + failed default_stats"
  by (simp add: default_stats_def)

lemma add_result_ok [simp]:
  "total_executed st = successful st + failed st \<Longrightarrow>
     total_executed (add_result b st) = successful (add_result b st) + failed (add_result b st)"
  by (simp add: add_result_def)

lemma get_stats_ok:
  "registry_ok g \<Longrightarrow> total_executed (get_stats w g) = successful (get_stats w g) + failed (get_stats w g)"
  by (auto simp: registry_ok_def get_stats_def split: option.split)

text \<open>
  C11. Every operation of the registry keeps its invariant: each worker is listed once, and a
  worker's executions are its successes plus its failures; so every success rate is between 0
  and 1.
\<close>

theorem registry_invariant:
  assumes "registry_ok g"
  shows "(\<forall>r. heartbeat now w p ts tok g = Inr r \<longrightarrow> registry_ok (snd r)) \<and> registry_ok (snd (remove_worker w g)) \<and>
    registry_ok (record_completion w b g) \<and> registry_ok (note_assignment w g) \<and>
    registry_ok (snd (round_robin_assign now g)) \<and> 0 \<le> success_rate (get_stats w g) \<and> success_rate (get_stats w g) \<le> 1"
proof (intro conjI allI impI)
  show "registry_ok (snd r)" if "heartbeat now w p ts tok g = Inr r" for r
    using that assms by (auto simp: heartbeat_def registry_ok_def Let_def split: if_splits)
  show "registry_ok (snd (remove_worker w g))"
    using assms by (simp add: remove_worker_def registry_ok_def)
  show "registry_ok (record_completion w b g)"
    using assms get_stats_ok [OF assms, of w] by (simp add: record_completion_def registry_ok_def)
  show "registry_ok (note_assignment w g)"
    using assms by (simp add: note_assignment_def registry_ok_def)
  show "registry_ok (snd (round_robin_assign now g))"
    using assms by (simp add: round_robin_assign_def registry_ok_def Let_def)
  show "0 \<le> success_rate (get_stats w g)" "success_rate (get_stats w g) \<le> 1"
    using success_rate_bounds [OF get_stats_ok [OF assms]] by auto
qed

theorem registry_invariant_witness:
  "registry_ok (record_completion ''w'' True (init_registry 10))"
  using registry_invariant [of "init_registry 10" 0 "''w''" 0 None None True]
  by (simp add: registry_ok_def init_registry_def)

lemma set_live:
  "w \<in> set (live_workers now g) \<longleftrightarrow>
     (\<exists>t. (w, t) \<in> set (workers g) \<and> (timeout g \<le> 0 \<or> now - t \<le> timeout g))"
  by (force simp: live_workers_def dkeys_def)

lemma set_dead:
  "w \<in> fst ` set (dead_workers now g) \<longleftrightarrow>
     (\<exists>t. (w, t) \<in> set (workers g) \<and> 0 < timeout g \<and> timeout g < now - t)"
  by (force simp: dead_workers_def)

text \<open>
  Live and dead workers split the workers ever seen: every worker is in exactly one of the
  two lists, and a worker is live from its heartbeat until the timeout has passed.
\<close>

theorem live_dead_partition:
  assumes "registry_ok g"
  shows "set (live_workers now g) \<union> fst ` set (dead_workers now g) = set (dkeys (workers g)) \<and>
    set (live_workers now g) \<inter> fst ` set (dead_workers now g) = {} \<and> distinct (live_workers now g) \<and>
    (\<forall>w p ts tok r dt. heartbeat now w p ts tok g = Inr r \<longrightarrow> dt \<le> timeout g \<longrightarrow> is_live (now + dt) w (snd r))"
proof (intro conjI allI impI)
  have wf: "distinct (List.map fst (workers g))" using assms by (simp add: registry_ok_def wf_dict_def dkeys_def)
  have one: "t = t'" if "(w, t) \<in> set (workers g)" "(w, t') \<in> set (workers g)" for w t t'
    using wf that by (meson eq_key_imp_eq_value)
  show "set (live_workers now g) \<union> fst ` set (dead_workers now g) = set (dkeys (workers g))"
  proof (rule set_eqI)
    fix w
    have "w \<in> set (dkeys (workers g)) \<longleftrightarrow> (\<exists>t. (w, t) \<in> set (workers g))" by (force simp: dkeys_def)
    then show "w \<in> set (live_workers now g) \<union> fst ` set (dead_workers now g) \<longleftrightarrow> w \<in> set (dkeys (workers g))"
      unfolding Un_iff set_live set_dead by (metis not_le_imp_less)
  qed
  show "set (live_workers now g) \<inter> fst ` set (dead_workers now g) = {}"
    unfolding disjoint_iff set_live set_dead using one by (metis leD)
  show "distinct (live_workers now g)"
    using wf by (simp add: live_workers_def dkeys_def distinct_map inj_on_def)
  show "is_live (now + dt) w (snd r)" if h: "heartbeat now w p ts tok g = Inr r" "dt \<le> timeout g" for w p ts tok r dt
  proof -
    have "map_of (workers (snd r)) w = Some now" "timeout (snd r) = timeout g"
      using h(1) by (auto simp: heartbeat_def Let_def split: if_splits)
    then have "(w, now) \<in> set (workers (snd r))" by (simp add: map_of_SomeD)
    with h(2) \<open>timeout (snd r) = timeout g\<close> show ?thesis by (auto simp: is_live_def set_live)
  qed
qed

theorem live_dead_partition_witness:
  "set (live_workers 20 (init_registry 10\<lparr>workers := [(''b'', 5), (''a'', 15)]\<rparr>)) = {''a''}"
proof -
  let ?g = "init_registry 10\<lparr>workers := [(''b'', 5), (''a'', 15)]\<rparr>"
  have "registry_ok ?g" by (simp add: registry_ok_def init_registry_def wf_dict_def dkeys_def)
  from live_dead_partition [OF this, of 20]
  have "set (live_workers 20 ?g) \<subseteq> {''a'', ''b''}" by (auto simp: init_registry_def dkeys_def)
  then show ?thesis by (auto simp: set_live init_registry_def)
qed

text \<open>
  Placement: the list of scored workers holds exactly the live workers, best score first,
  and among equal scores in name order; noting an assignment lowers that worker's score by
  exactly one half and no other score, so the same worker is picked again only while it stays
  ahead by that much.
\<close>

theorem placement_scores:
  "set (List.map fst (score_all_workers now g)) = set (live_workers now g) \<and>
   (\<forall>w x. (w, x) \<in> set (score_all_workers now g) \<longrightarrow> x = score g w) \<and>
   sorted_wrt (\<lambda>p q. snd q \<le> snd p) (score_all_workers now g) \<and>
   (\<forall>x. filter (\<lambda>p. snd p = x) (score_all_workers now g) =
        filter (\<lambda>p. snd p = x) (List.map (\<lambda>w. (w, score g w)) (live_workers now g))) \<and>
   (\<forall>w v. w \<noteq> [] \<longrightarrow> score (note_assignment w g) v = (if v = w then score g v - 1 / 2 else score g v))"
proof (intro conjI allI impI)
  show "set (List.map fst (score_all_workers now g)) = set (live_workers now g)"
    by (force simp: score_all_workers_def)
  show "x = score g w" if "(w, x) \<in> set (score_all_workers now g)" for w x
    using that by (auto simp: score_all_workers_def)
  have "sorted (List.map (\<lambda>(w, x). - x) (score_all_workers now g))"
    unfolding score_all_workers_def by simp
  then show "sorted_wrt (\<lambda>p q. snd q \<le> snd p) (score_all_workers now g)"
    by (simp add: sorted_map case_prod_beta)
  show "filter (\<lambda>p. snd p = x) (score_all_workers now g) =
      filter (\<lambda>p. snd p = x) (List.map (\<lambda>w. (w, score g w)) (live_workers now g))" for x
  proof -
    have "(\<lambda>p::string \<times> rat. snd p = x) = (\<lambda>p. (case p of (w, y) \<Rightarrow> - y) = - x)"
      by (auto simp: fun_eq_iff)
    then show ?thesis unfolding score_all_workers_def by (simp only: sort_key_stable)
  qed
  show "score (note_assignment w g) v = (if v = w then score g v - 1 / 2 else score g v)" if "w \<noteq> []" for w v
    using that
    by (simp add: score_def note_assignment_def optimistic_def get_stats_def Let_def PLACEMENT_WEIGHT_LOAD_def
        field_simps split: option.split)
qed

theorem placement_scores_witness:
  "score (note_assignment ''w'' (init_registry 10)) ''w'' = - 3 / 10"
  using placement_scores [of 0 "init_registry 10"]
  by (simp add: score_def init_registry_def optimistic_def get_stats_def success_rate_def default_stats_def
      default_metrics_def PLACEMENT_WEIGHT_LOAD_def PLACEMENT_WEIGHT_LATENCY_def PLACEMENT_WEIGHT_AVAILABILITY_def)

end
