(* ===== verification/Recovery.thy ===== *)
theory Recovery
  imports Storage Registry
begin

text \<open>
  \<open>chord/recovery.py\<close>: detection of crashed workers, timed-out, failed, stuck and waiting tasks,
  the choice of a recovery path, and its execution on the result records (HT1) and the
  assignments (HT2).

  The state is that of the network together with what the process that runs the manager keeps:
  its worker registry, the set of tasks under recovery, the timeline of events and the time of
  the last spawn. \<open>spawn\<close> is the optional callback \<open>on_no_workers\<close>; \<open>order\<close> is the order in which
  Python iterates over the set of dead workers. A task identifier that is not a string cannot
  be a key; numbers are compared as numbers and strings as strings, every other comparison
  raises.
\<close>

section \<open>State\<close>

definition MAX_RECOVERY_ATTEMPTS :: int where "MAX_RECOVERY_ATTEMPTS = 8"
definition RECOVERY_CHECK_INTERVAL_SECONDS :: int where "RECOVERY_CHECK_INTERVAL_SECONDS = 8"
definition RECOVERY_WAIT_SECONDS :: int where "RECOVERY_WAIT_SECONDS = 30"

record event =
  ev_ts :: rat
  ev_type :: string
  ev_task :: json
  ev_worker :: json
  ev_message :: string

record cluster = net +
  reg :: registry
  in_progress :: "string list"
  events :: "event list"
  last_spawn_trigger :: rat
  spawn_cooldown_s :: rat

definition now_s :: "'z net_scheme \<Rightarrow> rat" where
  "now_s s = seconds (clock s)"

section \<open>The choice of a path\<close>

datatype recovery_path = RETRY_SAME | RETRY_DIFFERENT | WAIT_AND_RETRY | GIVE_UP

fun path_name :: "recovery_path \<Rightarrow> string" where
  "path_name RETRY_SAME = ''RETRY_SAME''"
| "path_name RETRY_DIFFERENT = ''RETRY_DIFFERENT''"
| "path_name WAIT_AND_RETRY = ''WAIT_AND_RETRY''"
| "path_name GIVE_UP = ''GIVE_UP''"

definition choose_recovery_path :: "jdict \<Rightarrow> json \<Rightarrow> bool \<Rightarrow> exn + recovery_path" where
  "choose_recovery_path r failure_type has_live_workers =
     chain (py_ge (dget_or (JInt 0) r ''attempt_count'') (dget_or (JInt MAX_RECOVERY_ATTEMPTS) r ''max_attempts''))
       (\<lambda>exhausted.
        Inr (let retry = (if has_live_workers then RETRY_DIFFERENT else WAIT_AND_RETRY) in
             if exhausted then GIVE_UP
             else if failure_type = JStr ''task_timeout'' then retry
             else if failure_type = JStr ''worker_crash'' then retry
             else if failure_type = JStr ''task_failure'' then
               (if truthy (dget_or (JBool False) r ''retry_on_failure'') then retry else GIVE_UP)
             else GIVE_UP))"

section \<open>The records that the paths write\<close>

text \<open>What \<open>_execute\<close> does first: the copy with the failure reason, and the history as a list.\<close>

definition started :: "int \<Rightarrow> json \<Rightarrow> jdict \<Rightarrow> exn + jdict \<times> json list" where
  "started now failure_type record =
     (let u = dset ''last_failure_reason'' failure_type record in
      chain (py_list (py_or (dget u ''recovery_history'') (JList []))) (\<lambda>history.
      Inr (dset ''updated_at'' (JStr (utc_now_iso now)) u, history)))"

definition given_up :: "jdict \<Rightarrow> json list \<Rightarrow> jdict" where
  "given_up u history =
     (let u1 = dset ''status'' (JStr ''FAILURE'') u;
          original = dget u1 ''result'';
          u2 = (if original \<noteq> JNull \<and> \<not> is_str original then dset ''worker_result'' original u1 else u1);
          u3 = dset ''result'' (JStr (''Permanently failed after '' @
                 show_value (dget_or (JInt 0) u ''attempt_count'') @ '' attempt(s)'')) u2
      in dset ''recovery_history'' (JList (history @ [JStr ''GIVE_UP''])) u3)"

definition waiting :: "rat \<Rightarrow> string \<Rightarrow> jdict \<Rightarrow> json list \<Rightarrow> jdict" where
  "waiting retry_at note u history =
     dset ''recovery_history'' (JList (history @ [JStr (''WAIT_AND_RETRY ('' @ note @ ''retry at '' @
          show_int (round_half_even retry_at) @ '')'')]))
       (dset ''retry_at'' (JFloat retry_at) (dset ''recovery_status'' (JStr ''WAITING_FOR_RETRY'') u))"

definition reassigned :: "recovery_path \<Rightarrow> string \<Rightarrow> jdict \<Rightarrow> json list \<Rightarrow> exn + jdict" where
  "reassigned path new_worker u history =
     chain (py_add1 (dget_or (JInt 0) u ''attempt_count'')) (\<lambda>attempts.
     Inr (dset ''recovery_history'' (JList (history @ [JStr (path_name path @ '' on '' @ new_worker)]))
       (dset ''timed_out'' (JBool False)
       (dset ''retry_at'' JNull
       (dset ''recovery_status'' JNull
       (dset ''status'' (JStr ''PENDING'')
       (dset ''worker_id'' (JStr new_worker)
       (dset ''attempt_count'' attempts u))))))))"

text \<open>The worker a retry goes to; \<open>is_live\<close> of an unhashable value raises.\<close>

definition live_json :: "rat \<Rightarrow> json \<Rightarrow> registry \<Rightarrow> exn + bool" where
  "live_json now v g = in_str_set v (live_workers now g)"

definition pick_worker ::
  "rat \<Rightarrow> registry \<Rightarrow> recovery_path \<Rightarrow> json \<Rightarrow> (string \<times> rat) list \<Rightarrow> exn + string option" where
  "pick_worker now g path current_worker scored =
     (let best = (case scored of [] \<Rightarrow> None | (w, x) # _ \<Rightarrow> Some w) in
      if path = RETRY_SAME then
        chain (if truthy current_worker then live_json now current_worker g else Inr False) (\<lambda>live.
        Inr (if live then Some (str_of current_worker) else best))
      else
        Inr (case filter (\<lambda>(w, x). JStr w \<noteq> current_worker) scored of
               (w, x) # _ \<Rightarrow> Some w
             | [] \<Rightarrow> best))"

section \<open>The manager\<close>

definition init_cluster :: "rat \<Rightarrow> net \<Rightarrow> cluster" where
  "init_cluster heartbeat_timeout n = net.extend n
     \<lparr>reg = init_registry heartbeat_timeout, in_progress = [], events = [], last_spawn_trigger = 0,
      spawn_cooldown_s = 3\<rparr>"

text \<open>The timeline keeps the last 100 events.\<close>

definition emit_event :: "string \<Rightarrow> json \<Rightarrow> json \<Rightarrow> string \<Rightarrow> ('z cluster_scheme, unit) act" where
  "emit_event event_type task_id worker_id message = modify (\<lambda>s.
     let es = events s @ [\<lparr>ev_ts = now_s s, ev_type = event_type, ev_task = task_id, ev_worker = worker_id,
                          ev_message = message\<rparr>]
     in s\<lparr>events := drop (length es - 100) es\<rparr>)"

definition get_events :: "rat \<Rightarrow> 'z cluster_scheme \<Rightarrow> event list" where
  "get_events since s = filter (\<lambda>e. since \<le> ev_ts e) (events s)"

definition safe_get :: "nat \<Rightarrow> string \<Rightarrow> int \<Rightarrow> json \<Rightarrow> ('z net_scheme, json option) act" where
  "safe_get fuel me k task_id =
     (case task_id of
        JStr t \<Rightarrow> catch (result_get fuel me k t) (\<lambda>_. ret None)
      | _ \<Rightarrow> ret None)"

definition safe_put :: "nat \<Rightarrow> string \<Rightarrow> int \<Rightarrow> json \<Rightarrow> jdict \<Rightarrow> ('z net_scheme, unit) act" where
  "safe_put fuel me k task_id record =
     (case task_id of
        JStr t \<Rightarrow> ignoring (andthen (result_put fuel me k t (JObj record)) (\<lambda>_. ret ()))
      | _ \<Rightarrow> ret ())"

definition all_ht1_records :: "string \<Rightarrow> ('z net_scheme, jdict list) act" where
  "all_ht1_records me =
     catch (read_node me (\<lambda>nd. List.map (\<lambda>(k, v). dict_of v)
              (filter (\<lambda>(k, v). startswith k ''result:'' \<and> is_result_record v) (data_store nd))))
       (\<lambda>_. ret [])"

definition move_assignment :: "nat \<Rightarrow> string \<Rightarrow> int \<Rightarrow> json \<Rightarrow> string \<Rightarrow> recovery_path \<Rightarrow> json \<Rightarrow> ('z cluster_scheme, unit) act" where
  "move_assignment fuel me k old_worker new_worker path task_id =
     andthen (case (old_worker, task_id) of
         (JStr old, JStr t) \<Rightarrow>
           if old \<noteq> [] \<and> old \<noteq> new_worker then ignoring (andthen (remove fuel me k old t) (\<lambda>_. ret ())) else ret ()
       | _ \<Rightarrow> ret ()) (\<lambda>_.
     catch
       (andthen (case task_id of JStr t \<Rightarrow> append fuel me k new_worker t
                 | _ \<Rightarrow> throw (TypeError ''task_id is not a string'')) (\<lambda>_.
        emit_event ''retry'' task_id (JStr new_worker) (path_name path @ '' on worker '' @ new_worker)))
       (\<lambda>_. emit_event ''error'' task_id (JStr new_worker) (''Failed to assign to '' @ new_worker)))"

text \<open>The three branches of \<open>_execute\<close>, with the time and the registry when it started.\<close>

definition follow_retry ::
  "nat \<Rightarrow> string \<Rightarrow> int \<Rightarrow> int \<Rightarrow> registry \<Rightarrow> recovery_path \<Rightarrow> json \<Rightarrow> jdict \<Rightarrow> json list \<Rightarrow> (string \<times> rat) list
    \<Rightarrow> ('z cluster_scheme, unit) act" where
  "follow_retry fuel me k c g path task_id u history scored =
     andthen (lift (pick_worker (seconds c) g path (dget_or (JStr []) u ''worker_id'') scored)) (\<lambda>new_worker.
     case new_worker of
       None \<Rightarrow>
         andthen (safe_put fuel me k task_id
                    (waiting (seconds c + of_int RECOVERY_WAIT_SECONDS) ''no workers; '' u history)) (\<lambda>_.
         emit_event ''wait_retry'' task_id (JStr []) ''No workers available, waiting for retry'')
     | Some w \<Rightarrow>
         andthen (lift (reassigned path w u history)) (\<lambda>updated.
         andthen (safe_put fuel me k task_id updated) (\<lambda>_.
         move_assignment fuel me k (dget u ''worker_id'') w path task_id)))"

definition follow_path ::
  "nat \<Rightarrow> string \<Rightarrow> int \<Rightarrow> int \<Rightarrow> registry \<Rightarrow> recovery_path \<Rightarrow> json \<Rightarrow> jdict \<Rightarrow> json list \<Rightarrow> (string \<times> rat) list
    \<Rightarrow> bool \<Rightarrow> ('z cluster_scheme, unit) act" where
  "follow_path fuel me k c g path task_id u history scored short_wait =
     (case path of
       GIVE_UP \<Rightarrow>
         andthen (safe_put fuel me k task_id (given_up u history)) (\<lambda>_.
         emit_event ''give_up'' task_id (JStr [])
           (''Gave up after '' @ show_value (dget_or (JInt 0) u ''attempt_count'') @ '' attempt(s)''))
     | WAIT_AND_RETRY \<Rightarrow>
         let wait_s = (if short_wait then 6 else RECOVERY_WAIT_SECONDS) in
         andthen (safe_put fuel me k task_id (waiting (seconds c + of_int wait_s) [] u history)) (\<lambda>_.
         emit_event ''wait_retry'' task_id (JStr []) (''Waiting '' @ show_int wait_s @ ''s before retry''))
     | _ \<Rightarrow> follow_retry fuel me k c g path task_id u history scored)"

definition execute ::
  "nat \<Rightarrow> string \<Rightarrow> int \<Rightarrow> jdict \<Rightarrow> recovery_path \<Rightarrow> json \<Rightarrow> (string \<times> rat) list \<Rightarrow> bool \<Rightarrow> ('z cluster_scheme, unit) act" where
  "execute fuel me k record path failure_type scored short_wait =
     andthen (lift (dindex record ''task_id'')) (\<lambda>task_id.
     andthen (gets (\<lambda>s. (clock s, reg s))) (\<lambda>(c, g).
     andthen (lift (started c failure_type record)) (\<lambda>(u, history).
     follow_path fuel me k c g path task_id u history scored short_wait)))"

text \<open>The callback when no worker is live, at most once per cool-down; \<open>True\<close> when it spawned one.\<close>

definition try_spawn :: "('z cluster_scheme, json) act option \<Rightarrow> json \<Rightarrow> ('z cluster_scheme, bool) act" where
  "try_spawn spawn task_id =
     (case spawn of
        None \<Rightarrow> ret False
      | Some on_no_workers \<Rightarrow>
          andthen (gets (\<lambda>s. spawn_cooldown_s s \<le> now_s s - last_spawn_trigger s)) (\<lambda>due.
          if \<not> due then ret False
          else
            andthen (modify (\<lambda>s. s\<lparr>last_spawn_trigger := now_s s\<rparr>)) (\<lambda>_.
            catch
              (andthen on_no_workers (\<lambda>result.
               if truthy result \<and> truthy (dget (dict_of result) ''ok'') then
                 andthen (emit_event ''auto_spawn'' task_id (dget (dict_of result) ''worker_id'')
                   (''Auto-spawned worker '' @
                    show_value (dget_or (JStr ''?'') (dict_of result) ''worker_id'') @ '' (no live workers)''))
                   (\<lambda>_. ret True)
               else ret False))
              (\<lambda>_. ret False))))"

text \<open>The body of the \<open>try\<close> in \<open>_attempt_recovery\<close>.\<close>

definition recover_fresh ::
  "nat \<Rightarrow> string \<Rightarrow> int \<Rightarrow> ('z cluster_scheme, json) act option \<Rightarrow> string \<Rightarrow> json \<Rightarrow> ('z cluster_scheme, unit) act" where
  "recover_fresh fuel me k spawn t failure_type =
     andthen (safe_get fuel me k (JStr t)) (\<lambda>fresh.
     case fresh of
       None \<Rightarrow> ret ()
     | Some v \<Rightarrow>
         let r = dict_of v in
         if dget r ''recovery_status'' = JStr ''WAITING_FOR_RETRY'' then ret ()
         else if dget r ''status'' = JStr ''SUCCESS'' then ret ()
         else
           andthen (gets (\<lambda>s. score_all_workers (now_s s) (reg s))) (\<lambda>scored.
           andthen (if scored = [] then try_spawn spawn (JStr t) else ret False) (\<lambda>just_spawned.
           andthen (lift (choose_recovery_path r failure_type (scored \<noteq> []))) (\<lambda>path.
           execute fuel me k r path failure_type scored just_spawned))))"

text \<open>\<open>try: m finally: f\<close>\<close>

definition finally_do :: "('s, 'a) act \<Rightarrow> ('s \<Rightarrow> 's) \<Rightarrow> ('s, 'a) act" where
  "finally_do m f = (\<lambda>s. case m s of (r, s') \<Rightarrow> (r, f s'))"

definition attempt_recovery ::
  "nat \<Rightarrow> string \<Rightarrow> int \<Rightarrow> ('z cluster_scheme, json) act option \<Rightarrow> jdict \<Rightarrow> json \<Rightarrow> ('z cluster_scheme, unit) act" where
  "attempt_recovery fuel me k spawn record failure_type =
     (let task_id = dget record ''task_id'' in
      if \<not> truthy task_id then ret ()
      else case task_id of
        JStr t \<Rightarrow>
          andthen (gets (\<lambda>s. t \<in> set (in_progress s))) (\<lambda>busy.
          if busy then ret ()
          else
            andthen (modify (\<lambda>s. s\<lparr>in_progress := t # in_progress s\<rparr>)) (\<lambda>_.
            finally_do (ignoring (recover_fresh fuel me k spawn t failure_type))
              (\<lambda>s. s\<lparr>in_progress := removeAll t (in_progress s)\<rparr>)))
      | JList _ \<Rightarrow> throw (TypeError ''unhashable type: list'')
      | JObj _ \<Rightarrow> throw (TypeError ''unhashable type: dict'')
      | _ \<Rightarrow> ret ())"

section \<open>Detection\<close>

definition active_status :: "jdict \<Rightarrow> bool" where
  "active_status r \<longleftrightarrow> dget r ''status'' = JStr ''PENDING'' \<or> dget r ''status'' = JStr ''RUNNING''"

definition detect_worker_crashes ::
  "nat \<Rightarrow> string \<Rightarrow> int \<Rightarrow> ('z cluster_scheme, json) act option \<Rightarrow> (string list \<Rightarrow> string list)
    \<Rightarrow> ('z cluster_scheme, unit) act" where
  "detect_worker_crashes fuel me k spawn order =
     andthen (gets (\<lambda>s. filter (\<lambda>w. w \<notin> set (live_workers (now_s s) (reg s)))
                           (List.map fst (all_workers (now_s s) (reg s))))) (\<lambda>dead.
     for_each (order dead) (\<lambda>w _.
       andthen (assigned_tasks fuel me k w) (\<lambda>task_ids.
       for_each task_ids (\<lambda>t _.
         andthen (safe_get fuel me k t) (\<lambda>record.
         case record of
           None \<Rightarrow> ret ()
         | Some v \<Rightarrow>
             if active_status (dict_of v) then
               andthen (emit_event ''worker_crash'' t (JStr w) (''Worker '' @ w @ '' crashed'')) (\<lambda>_.
               attempt_recovery fuel me k spawn (dict_of v) (JStr ''worker_crash''))
             else ret ())) ())) ())"

definition timed_out_task :: "jdict \<Rightarrow> bool" where
  "timed_out_task r \<longleftrightarrow> dget r ''status'' = JStr ''FAILURE'' \<and> truthy (dget r ''timed_out'') \<and>
     dget r ''recovery_status'' = JNull \<and> \<not> truthy (dget r ''recovery_history'')"

definition detect_timed_out_tasks ::
  "nat \<Rightarrow> string \<Rightarrow> int \<Rightarrow> ('z cluster_scheme, json) act option \<Rightarrow> ('z cluster_scheme, unit) act" where
  "detect_timed_out_tasks fuel me k spawn =
     andthen (all_ht1_records me) (\<lambda>rs.
     for_each rs (\<lambda>r _. if timed_out_task r then attempt_recovery fuel me k spawn r (JStr ''task_timeout'') else ret ()) ())"

definition failed_task :: "jdict \<Rightarrow> exn + bool" where
  "failed_task r =
     (if dget r ''status'' = JStr ''FAILURE'' \<and> \<not> truthy (dget r ''timed_out'') \<and> dget r ''recovery_status'' = JNull
      then chain (py_in ''GIVE_UP'' (py_or (dget r ''recovery_history'') (JList []))) (\<lambda>b. Inr (\<not> b))
      else Inr False)"

definition detect_failed_tasks ::
  "nat \<Rightarrow> string \<Rightarrow> int \<Rightarrow> ('z cluster_scheme, json) act option \<Rightarrow> ('z cluster_scheme, unit) act" where
  "detect_failed_tasks fuel me k spawn =
     andthen (all_ht1_records me) (\<lambda>rs.
     for_each rs (\<lambda>r _. andthen (lift (failed_task r)) (\<lambda>b.
       if b then attempt_recovery fuel me k spawn r (JStr ''task_failure'') else ret ())) ())"

definition stuck_task :: "rat \<Rightarrow> registry \<Rightarrow> jdict \<Rightarrow> exn + bool" where
  "stuck_task now g r =
     (if active_status r \<and> truthy (dget_or (JStr []) r ''worker_id'')
      then chain (live_json now (dget_or (JStr []) r ''worker_id'') g) (\<lambda>live. Inr (\<not> live))
      else Inr False)"

definition detect_stuck_tasks ::
  "nat \<Rightarrow> string \<Rightarrow> int \<Rightarrow> ('z cluster_scheme, json) act option \<Rightarrow> ('z cluster_scheme, unit) act" where
  "detect_stuck_tasks fuel me k spawn =
     andthen (all_ht1_records me) (\<lambda>rs.
     for_each rs (\<lambda>r _.
       andthen (gets (\<lambda>s. (now_s s, reg s))) (\<lambda>(now, g).
       andthen (lift (stuck_task now g r)) (\<lambda>b.
       if b then attempt_recovery fuel me k spawn r (JStr ''worker_crash'') else ret ()))) ())"

definition retry_due :: "rat \<Rightarrow> jdict \<Rightarrow> exn + bool" where
  "retry_due now r =
     (if dget r ''recovery_status'' = JStr ''WAITING_FOR_RETRY'' \<and> dget r ''retry_at'' \<noteq> JNull
      then py_ge (JFloat now) (dget r ''retry_at'') else Inr False)"

definition retry_waiting_tasks ::
  "nat \<Rightarrow> string \<Rightarrow> int \<Rightarrow> ('z cluster_scheme, json) act option \<Rightarrow> ('z cluster_scheme, unit) act" where
  "retry_waiting_tasks fuel me k spawn =
     andthen (gets now_s) (\<lambda>now.
     andthen (all_ht1_records me) (\<lambda>rs.
     for_each rs (\<lambda>r _.
       andthen (lift (retry_due now r)) (\<lambda>due.
       if \<not> due then ret ()
       else
         andthen (lift (dindex r ''task_id'')) (\<lambda>task_id.
         andthen (gets clock) (\<lambda>c.
         let updated = dset ''updated_at'' (JStr (utc_now_iso c))
               (dset ''retry_at'' JNull (dset ''recovery_status'' JNull r)) in
         andthen (safe_put fuel me k task_id updated) (\<lambda>_.
         attempt_recovery fuel me k spawn updated
           (dget_or (JStr ''worker_crash'') r ''last_failure_reason'')))))) ()))"

definition scan ::
  "nat \<Rightarrow> string \<Rightarrow> int \<Rightarrow> ('z cluster_scheme, json) act option \<Rightarrow> (string list \<Rightarrow> string list)
    \<Rightarrow> ('z cluster_scheme, unit) act" where
  "scan fuel me k spawn order =
     andthen (detect_worker_crashes fuel me k spawn order) (\<lambda>_.
     andthen (detect_timed_out_tasks fuel me k spawn) (\<lambda>_.
     andthen (detect_failed_tasks fuel me k spawn) (\<lambda>_.
     andthen (detect_stuck_tasks fuel me k spawn) (\<lambda>_.
     retry_waiting_tasks fuel me k spawn))))"

definition trigger ::
  "nat \<Rightarrow> string \<Rightarrow> int \<Rightarrow> ('z cluster_scheme, json) act option \<Rightarrow> (string list \<Rightarrow> string list)
    \<Rightarrow> ('z cluster_scheme, unit) act" where
  "trigger fuel me k spawn order = ignoring (scan fuel me k spawn order)"

text \<open>One round of the loop of the daemon thread.\<close>

definition recovery_round ::
  "nat \<Rightarrow> string \<Rightarrow> int \<Rightarrow> ('z cluster_scheme, json) act option \<Rightarrow> (string list \<Rightarrow> string list)
    \<Rightarrow> ('z cluster_scheme, unit) act" where
  "recovery_round fuel me k spawn order =
     andthen (ignoring (scan fuel me k spawn order)) (\<lambda>_.
     sleep (RECOVERY_CHECK_INTERVAL_SECONDS * 1000000))"

end
