(* ===== verification/Retry.thy ===== *)
theory Retry
  imports Network
begin

text \<open>
  \<open>chord/retry.py\<close>: the retry helper of the task submission. Its reference is the explicit
  sequence of attempts: \<open>before_attempt i\<close> is the state in which attempt number \<open>i\<close> starts when
  all earlier attempts failed.
\<close>

section \<open>The helper\<close>

definition MAX_RETRIES :: nat where "MAX_RETRIES = 3"
definition INITIAL_BACKOFF_MS :: int where "INITIAL_BACKOFF_MS = 100"
definition BACKOFF_MULTIPLIER :: int where "BACKOFF_MULTIPLIER = 2"

fun is_fatal :: "exn \<Rightarrow> bool" where
  "is_fatal (FatalError _) = True"
| "is_fatal _ = False"

text \<open>The exceptions after which another attempt is made.\<close>

definition transient :: "exn \<Rightarrow> bool" where
  "transient e \<longleftrightarrow> \<not> is_fatal e \<and> e \<noteq> OutOfFuel"

definition back_off :: "int \<Rightarrow> int \<Rightarrow> nat \<Rightarrow> unit \<Rightarrow> ('z net_scheme, unit) act" where
  "back_off initial_backoff_ms multiplier attempt x = sleep (initial_backoff_ms * 1000 * multiplier ^ attempt)"

definition with_timeout_and_retry ::
  "nat \<Rightarrow> int \<Rightarrow> int \<Rightarrow> string \<Rightarrow> ('z net_scheme, 'a) act \<Rightarrow> ('z net_scheme, 'a) act" where
  "with_timeout_and_retry max_retries initial_backoff_ms multiplier op_name op = (\<lambda>s.
     case retrying transient (back_off initial_backoff_ms multiplier) (\<lambda>_. op) max_retries 0 () s of
       (Inr v, s') \<Rightarrow> (Inr v, s')
     | (Inl e, s') \<Rightarrow>
         if transient e then (Inl (RuntimeError (op_name @ '' failed'')), s') else (Inl e, s'))"

text \<open>As the callers use it, with the constants of the module.\<close>

definition retried :: "string \<Rightarrow> ('z net_scheme, 'a) act \<Rightarrow> ('z net_scheme, 'a) act" where
  "retried = with_timeout_and_retry MAX_RETRIES INITIAL_BACKOFF_MS BACKOFF_MULTIPLIER"

section \<open>The sequence of attempts\<close>

primrec before_attempt :: "int \<Rightarrow> int \<Rightarrow> ('z net_scheme, 'a) act \<Rightarrow> nat \<Rightarrow> 'z net_scheme \<Rightarrow> 'z net_scheme" where
  "before_attempt b m op 0 s = s"
| "before_attempt b m op (Suc i) s = snd (back_off b m i () (snd (op (before_attempt b m op i s))))"

definition attempt :: "int \<Rightarrow> int \<Rightarrow> ('z net_scheme, 'a) act \<Rightarrow> nat \<Rightarrow> 'z net_scheme \<Rightarrow> (exn + 'a) \<times> 'z net_scheme" where
  "attempt b m op i s = op (before_attempt b m op i s)"

definition fails_at :: "int \<Rightarrow> int \<Rightarrow> ('z net_scheme, 'a) act \<Rightarrow> nat \<Rightarrow> 'z net_scheme \<Rightarrow> bool" where
  "fails_at b m op i s \<longleftrightarrow> (\<exists>e. fst (attempt b m op i s) = Inl e \<and> transient e)"

lemma back_off_run: "back_off b m i () s = (Inr (), snd (back_off b m i () s))"
  by (simp add: back_off_def sleep_def act_simps)

text \<open>
  The loop ends with the first attempt \<open>j\<close> that does not fail for a transient reason, or with
  the last one.
\<close>

lemma retrying_attempts:
  assumes "\<And>i'. i' < i \<Longrightarrow> fails_at b m op i' s"
  shows "\<exists>j. i \<le> j \<and> j \<le> i + n \<and> (\<forall>i' < j. fails_at b m op i' s) \<and> (fails_at b m op j s \<longrightarrow> j = i + n) \<and>
    retrying transient (back_off b m) (\<lambda>_. op) n i () (before_attempt b m op i s) = attempt b m op j s"
  using assms
proof (induction n arbitrary: i)
  case 0
  then show ?case by (auto simp: attempt_def)
next
  case (Suc n)
  show ?case
  proof (cases "fails_at b m op i s")
    case True
    then obtain e s' where run: "op (before_attempt b m op i s) = (Inl e, s')" "transient e"
      by (auto simp: fails_at_def attempt_def) (metis prod.collapse)
    have "i' < Suc i \<Longrightarrow> fails_at b m op i' s" for i'
      using True Suc.prems by (auto simp: less_Suc_eq)
    then obtain j where "Suc i \<le> j" "j \<le> Suc i + n" "\<forall>i' < j. fails_at b m op i' s"
      "fails_at b m op j s \<longrightarrow> j = Suc i + n"
      "retrying transient (back_off b m) (\<lambda>_. op) n (Suc i) () (before_attempt b m op (Suc i) s) = attempt b m op j s"
      using Suc.IH [of "Suc i"] by blast
    moreover have "retrying transient (back_off b m) (\<lambda>_. op) (Suc n) i () (before_attempt b m op i s) =
        retrying transient (back_off b m) (\<lambda>_. op) n (Suc i) () (before_attempt b m op (Suc i) s)"
      using run back_off_run [of b m i s'] by (simp add: andthen_Inr)
    ultimately show ?thesis by (intro exI [of _ j]) auto
  next
    case False
    then have "retrying transient (back_off b m) (\<lambda>_. op) (Suc n) i () (before_attempt b m op i s) = attempt b m op i s"
      by (auto simp: fails_at_def attempt_def split: prod.split sum.split)
    with False Suc.prems show ?thesis by (intro exI [of _ i]) auto
  qed
qed

section \<open>Properties\<close>

text \<open>
  The retry helper makes at most \<open>max_retries + 1\<close> attempts and returns: there is a last
  attempt, number \<open>j\<close>, all attempts before it failed for a transient reason, and it is the first
  that did not or the last allowed one. Its value, or a fatal exception, is passed on unchanged
  with the state it left; when the budget is used up a \<open>RuntimeError\<close> is raised instead.
\<close>

theorem retry_attempts:
  "\<exists>j. j \<le> n \<and> (\<forall>i < j. fails_at b m op i s) \<and> (fails_at b m op j s \<longrightarrow> j = n) \<and>
     with_timeout_and_retry n b m name op s =
       (if fails_at b m op j s then (Inl (RuntimeError (name @ '' failed'')), snd (attempt b m op j s))
        else attempt b m op j s)"
proof -
  obtain j where j: "j \<le> n" "\<forall>i < j. fails_at b m op i s" "fails_at b m op j s \<longrightarrow> j = n"
    "retrying transient (back_off b m) (\<lambda>_. op) n 0 () s = attempt b m op j s"
    using retrying_attempts [of 0 b m op s n] by auto
  then have "with_timeout_and_retry n b m name op s =
       (if fails_at b m op j s then (Inl (RuntimeError (name @ '' failed'')), snd (attempt b m op j s))
        else attempt b m op j s)"
    by (auto simp: with_timeout_and_retry_def fails_at_def split: prod.split sum.split)
  with j show ?thesis by blast
qed

theorem retry_attempts_witness:
  "\<exists>j \<le> 3. with_timeout_and_retry 3 100 2 ''put'' (throw (FatalError ''bad'') :: (net, unit) act)
     \<lparr>nodes = \<lambda>_. None, fault = \<lambda>_ _. Delivered, sent = 0, clock = 0\<rparr> =
   attempt 100 2 (throw (FatalError ''bad'')) j \<lparr>nodes = \<lambda>_. None, fault = \<lambda>_ _. Delivered, sent = 0, clock = 0\<rparr>"
proof -
  let ?op = "throw (FatalError ''bad'') :: (net, unit) act"
  have "\<not> fails_at 100 2 ?op j s" for j s
    by (simp add: fails_at_def attempt_def act_simps transient_def)
  with retry_attempts [of 3 100 2 ?op _ "''put''"] show ?thesis by auto
qed

lemma retried_first: "op s = (Inr v, s') \<Longrightarrow> retried name op s = (Inr v, s')"
  by (simp add: retried_def with_timeout_and_retry_def MAX_RETRIES_def retrying_first)


end
