(* ===== verification/Submission.thy ===== *)
theory Submission
  imports Recovery Retry
begin

text \<open>
  The task endpoints of \<open>chord/server.py\<close>: submission with its two writes and the rollback,
  status, completion with the delayed clean-up, heartbeats, the state of the workers, spawning
  a worker and rebalancing the pending tasks.

  The state adds to that of the recovery manager what \<open>create_app\<close> keeps for its handlers: the
  pids of the workers it spawned and the workers announced in the activity log. An answer is a
  status code with a JSON body; an exception that a handler does not catch is answered by 500.
  Starting a process belongs to the operating system and is the parameter \<open>popen\<close>; \<open>meanwhile\<close>
  is what the other threads of the process do while a handler sleeps, \<open>inject\<close> the value of
  \<open>PHASE3_FORCE_FAIL\<close> in lower case, \<open>autospawn\<close> the flag \<open>_autospawn_enabled\<close>. Log lines, metrics
  and the observability buffer are left out.
\<close>

section \<open>State and answers\<close>

record frontend = cluster +
  worker_pids :: "int dict"
  known_workers :: "string list"

type_synonym response = "int \<times> json"

definition endpoint :: "('s, response) act \<Rightarrow> ('s, response) act" where
  "endpoint m = catch m (\<lambda>_. ret (500, JNull))"

text \<open>\<open>request.get_json(silent=True) or {}\<close>, of which the handlers take items with \<open>get\<close>.\<close>

definition json_body :: "json \<Rightarrow> exn + jdict" where
  "json_body payload =
     (case py_or payload (JObj []) of JObj d \<Rightarrow> Inr d | _ \<Rightarrow> Inl (AttributeError ''get''))"

definition rejected :: "int \<Rightarrow> string \<Rightarrow> response" where
  "rejected code reason = (code, JObj [(''message'', JStr ''Task rejected''), (''reason'', JStr reason)])"

section \<open>Heartbeats\<close>

definition emit_worker_join :: "string \<Rightarrow> 'z frontend_scheme \<Rightarrow> 'z frontend_scheme" where
  "emit_worker_join w s = (if w \<in> set (known_workers s) then s else s\<lparr>known_workers := known_workers s @ [w]\<rparr>)"

text \<open>One round of the thread that reports the workers that left.\<close>

definition watch_leaves :: "('z frontend_scheme, unit) act" where
  "watch_leaves =
     andthen (sleep 5000000) (\<lambda>_.
     modify (\<lambda>s. s\<lparr>known_workers := filter (\<lambda>w. w \<notin> fst ` set (dead_workers (now_s s) (reg s))) (known_workers s)\<rparr>))"

fun time_stamp :: "json \<Rightarrow> exn + rat option" where
  "time_stamp JNull = Inr None"
| "time_stamp v = (case num_of v of Some q \<Rightarrow> Inr (Some q) | None \<Rightarrow> Inl (TypeError ''unsupported operand''))"

fun token_of :: "json \<Rightarrow> string option" where
  "token_of (JStr t) = Some t"
| "token_of _ = None"

text \<open>The handler; worker identifiers and process tokens are strings.\<close>

definition workers_heartbeat :: "json \<Rightarrow> ('z frontend_scheme, response) act" where
  "workers_heartbeat payload = endpoint
     (andthen (lift (json_body payload)) (\<lambda>b.
      case dget b ''worker_id'' of
        JStr w \<Rightarrow>
          if w = [] then ret (422, JObj [(''ok'', JBool False), (''error'', JStr ''worker_id required'')])
          else
            andthen (modify (emit_worker_join w)) (\<lambda>_.
            andthen (lift (py_int (py_or (dget b ''pending_tasks'') (JInt 0)))) (\<lambda>pending.
            andthen (lift (time_stamp (dget b ''timestamp''))) (\<lambda>ts.
            andthen (gets (\<lambda>s. heartbeat (now_s s) w pending ts (token_of (dget b ''process_token'')) (reg s))) (\<lambda>res.
            andthen (lift res) (\<lambda>(collision, g).
            andthen (modify (\<lambda>s. s\<lparr>reg := g\<rparr>)) (\<lambda>_.
            ret (200, JObj [(''ok'', JBool True), (''duplicate_detected'', JBool (collision \<noteq> None))])))))))
      | v \<Rightarrow>
          if truthy v then throw (TypeError ''worker_id'')
          else ret (422, JObj [(''ok'', JBool False), (''error'', JStr ''worker_id required'')])))"

section \<open>Spawning a worker\<close>

datatype spawn_result = Spawned string int | Spawn_failed string

definition worker_name :: "nat \<Rightarrow> string" where
  "worker_name n = ''w'' @ show_nat n"

lemma worker_name_inj: "inj worker_name"
  by (auto simp: inj_def worker_name_def intro: show_nat_inj)

text \<open>A search for a free name ends: every name that is taken leaves fewer of them.\<close>

lemma fewer_names:
  fixes name :: "nat \<Rightarrow> string"
  assumes "inj name" and "name n \<in> set existing"
  shows "card (set existing \<inter> name ` {n + 1..}) < card (set existing \<inter> name ` {n..})"
proof -
  have "name n \<notin> name ` {n + 1..}" using inj_image_mem_iff [OF assms(1)] by simp
  then have "set existing \<inter> name ` {n + 1..} \<subset> set existing \<inter> name ` {n..}"
    using assms(2) by (intro psubsetI Int_mono image_mono) auto
  then show ?thesis by (simp add: psubset_card_mono)
qed

text \<open>\<open>while f"w{n}" in existing: n += 1\<close>\<close>

function first_free :: "string list \<Rightarrow> nat \<Rightarrow> nat" where
  "first_free existing n = (if worker_name n \<in> set existing then first_free existing (n + 1) else n)"
  by pat_completeness auto

termination
  by (relation "measure (\<lambda>(existing, n). card (set existing \<inter> worker_name ` {n..}))")
    (use fewer_names [OF worker_name_inj] in auto)

declare first_free.simps [simp del]

lemma first_free_new: "worker_name (first_free existing n) \<notin> set existing"
  by (induction existing n rule: first_free.induct) (subst first_free.simps, simp)

text \<open>\<open>_spawn_worker_internal\<close>; the process is started by \<open>popen\<close>, which returns its pid or raises.\<close>

definition spawn_worker ::
  "(string \<Rightarrow> ('z frontend_scheme, int) act) \<Rightarrow> string option \<Rightarrow> ('z frontend_scheme, spawn_result) act" where
  "spawn_worker popen requested =
     andthen (gets (\<lambda>s.
       case requested of
         Some (c # cs) \<Rightarrow> c # cs
       | _ \<Rightarrow> worker_name (first_free (live_workers (now_s s) (reg s) @ dkeys (worker_pids s)) 1))) (\<lambda>wid.
     andthen (gets (\<lambda>s. wid \<in> set (dkeys (worker_pids s)))) (\<lambda>running.
     if running then ret (Spawn_failed (''worker '' @ wid @ '' already running''))
     else
       catch
         (andthen (popen wid) (\<lambda>pid.
          andthen (modify (\<lambda>s. s\<lparr>worker_pids := dset wid pid (worker_pids s)\<rparr>)) (\<lambda>_.
          andthen (modify (emit_worker_join wid)) (\<lambda>_.
          ret (Spawned wid pid)))))
         (\<lambda>_. ret (Spawn_failed ''spawn failed''))))"

definition spawn_json :: "spawn_result \<Rightarrow> json" where
  "spawn_json r =
     (case r of
        Spawned wid pid \<Rightarrow> JObj [(''ok'', JBool True), (''worker_id'', JStr wid), (''pid'', JInt pid)]
      | Spawn_failed e \<Rightarrow> JObj [(''ok'', JBool False), (''error'', JStr e)])"

text \<open>The trampoline that the recovery manager calls.\<close>

definition spawn_trampoline :: "(string \<Rightarrow> ('z frontend_scheme, int) act) \<Rightarrow> ('z frontend_scheme, json) act" where
  "spawn_trampoline popen = andthen (spawn_worker popen None) (\<lambda>r. ret (spawn_json r))"

definition api_spawn_worker ::
  "(string \<Rightarrow> ('z frontend_scheme, int) act) \<Rightarrow> json \<Rightarrow> ('z frontend_scheme, response) act" where
  "api_spawn_worker popen payload = endpoint
     (andthen (lift (json_body payload)) (\<lambda>b.
      andthen (lift (case py_or (dget b ''worker_id'') (JStr []) of
                 JStr w \<Rightarrow> Inr w | _ \<Rightarrow> Inl (AttributeError ''strip''))) (\<lambda>w.
      andthen (spawn_worker popen (if strip w = [] then None else Some (strip w))) (\<lambda>r.
      ret (case r of
             Spawned _ _ \<Rightarrow> 200
           | Spawn_failed e \<Rightarrow> if sublist ''already running'' e then 409 else 500,
           spawn_json r)))))"

text \<open>\<open>for _ in range(n): time.sleep(0.3); if is_live(w): break\<close>\<close>

fun wait_until_live :: "('z frontend_scheme, unit) act \<Rightarrow> string \<Rightarrow> nat \<Rightarrow> ('z frontend_scheme, unit) act" where
  "wait_until_live meanwhile w 0 = ret ()"
| "wait_until_live meanwhile w (Suc n) =
     andthen (sleep 300000) (\<lambda>_.
     andthen meanwhile (\<lambda>_.
     andthen (gets (\<lambda>s. is_live (now_s s) w (reg s))) (\<lambda>live.
     if live then ret () else wait_until_live meanwhile w n)))"

section \<open>Rebalancing\<close>

definition is_pending_task :: "string \<times> json \<Rightarrow> bool" where
  "is_pending_task kv \<longleftrightarrow> startswith (fst kv) ''result:'' \<and> is_dict (snd kv) \<and>
     dget (dict_of (snd kv)) ''status'' = JStr ''PENDING''"

text \<open>The number of pending tasks per live worker; a worker identifier that cannot be hashed raises.\<close>

fun count_load :: "json list \<Rightarrow> int dict \<Rightarrow> exn + int dict" where
  "count_load [] load = Inr load"
| "count_load (wid # wids) load =
     chain (in_str_set wid (dkeys load)) (\<lambda>known.
     count_load wids (if known then dset (str_of wid) (the (map_of load (str_of wid)) + 1) load else load))"

text \<open>\<open>min(load.keys(), key=lambda w: load[w])\<close>: the first of the least loaded.\<close>

fun least_loaded :: "int dict \<Rightarrow> string" where
  "least_loaded [] = []"
| "least_loaded [(w, n)] = w"
| "least_loaded ((w, n) # (w', n') # rest) =
     (if n' < n then least_loaded ((w', n') # rest) else least_loaded ((w, n) # rest))"

definition load_of :: "int dict \<Rightarrow> string \<Rightarrow> int" where
  "load_of load w = (case map_of load w of Some n \<Rightarrow> n | None \<Rightarrow> 0)"

text \<open>The source of a move: the live worker that has the task, or None for an orphan.\<close>

definition source_of :: "int dict \<Rightarrow> json \<Rightarrow> string option" where
  "source_of load wid = (case wid of JStr w \<Rightarrow> if w \<in> set (dkeys load) then Some w else None | _ \<Rightarrow> None)"

definition moved_load :: "string option \<Rightarrow> string \<Rightarrow> int dict \<Rightarrow> int dict" where
  "moved_load src dst load =
     (let l = dset dst (load_of load dst + 1) load
      in case src of None \<Rightarrow> l | Some w \<Rightarrow> dset w (load_of l w - 1) l)"

definition rebalance_step ::
  "nat \<Rightarrow> string \<Rightarrow> int \<Rightarrow> int \<Rightarrow> string \<times> json \<Rightarrow> int dict \<times> nat \<Rightarrow> ('z frontend_scheme, int dict \<times> nat) act" where
  "rebalance_step fuel me k target kv lm =
     (let (key, v) = kv; (load, moved) = lm;
          tid = drop (length ''result:'') key; rec = dict_of v;
          src = source_of load (dget rec ''worker_id'');
          dst = least_loaded load
      in if (case src of None \<Rightarrow> False | Some w \<Rightarrow> load_of load w \<le> target \<or> load_of load w \<le> load_of load dst)
         then ret (load, moved)
         else
           catch
             (andthen (on_node me (put (''result:'' @ tid)
                 (JObj (dset ''assigned_by'' (JStr ''intelligence'') (dset ''worker_id'' (JStr dst) rec))))) (\<lambda>_.
              andthen (case src of
                  Some (c # cs) \<Rightarrow> andthen (remove fuel me k (c # cs) tid) (\<lambda>_. ret ())
                | _ \<Rightarrow> ret ()) (\<lambda>_.
              andthen (append fuel me k dst tid) (\<lambda>_.
              ret (moved_load src dst load, Suc moved)))))
             (\<lambda>_. ret (load, moved)))"

text \<open>\<open>_do_rebalance\<close>: the number of moves and the load it counted, or None when there is nothing to do.\<close>

definition do_rebalance :: "nat \<Rightarrow> string \<Rightarrow> int \<Rightarrow> ('z frontend_scheme, (nat \<times> int dict) option) act" where
  "do_rebalance fuel me k =
     andthen (gets (\<lambda>s. live_workers (now_s s) (reg s))) (\<lambda>live.
     if length live < 2 then ret None
     else
       andthen (read_node me (\<lambda>nd. filter is_pending_task (data_store nd))) (\<lambda>pending.
       if pending = [] then ret None
       else
         andthen (lift (count_load (List.map (\<lambda>kv. dget (dict_of (snd kv)) ''worker_id'') pending)
                          (List.map (\<lambda>w. (w, 0)) live))) (\<lambda>load.
         let target = max 1 (int (length pending) div int (length live)) in
         andthen (for_each pending (rebalance_step fuel me k target) (load, 0)) (\<lambda>(load, moved).
         ret (Some (moved, load))))))"

text \<open>The thread that \<open>_spawn_worker_internal\<close> starts for the new worker.\<close>

definition rebalance_after_spawn ::
  "nat \<Rightarrow> string \<Rightarrow> int \<Rightarrow> ('z frontend_scheme, unit) act \<Rightarrow> string \<Rightarrow> ('z frontend_scheme, unit) act" where
  "rebalance_after_spawn fuel me k meanwhile w =
     andthen (wait_until_live meanwhile w 20) (\<lambda>_.
     ignoring (andthen (do_rebalance fuel me k) (\<lambda>_. ret ())))"

section \<open>Submission\<close>

text \<open>\<open>_VALID_TASK_TYPES\<close> of the module: the same two types as in the result records.\<close>

definition choose_worker ::
  "(string \<Rightarrow> ('z frontend_scheme, int) act) \<Rightarrow> ('z frontend_scheme, unit) act \<Rightarrow> bool
    \<Rightarrow> ('z frontend_scheme, string option) act" where
  "choose_worker popen meanwhile autospawn =
     (let placed = gets (\<lambda>s. case score_all_workers (now_s s) (reg s) of [] \<Rightarrow> None | (w, x) # _ \<Rightarrow> Some w);
          robin = andthen (gets (\<lambda>s. round_robin_assign (now_s s) (reg s))) (\<lambda>(w, g).
            andthen (modify (\<lambda>s. s\<lparr>reg := g\<rparr>)) (\<lambda>_. ret w));
          assign = andthen placed (\<lambda>w. case w of None \<Rightarrow> robin | Some w \<Rightarrow> ret (Some w))
      in andthen assign (\<lambda>worker.
         if worker = None \<and> autospawn then
           andthen (spawn_worker popen None) (\<lambda>r.
           case r of
             Spawned wid pid \<Rightarrow> andthen (wait_until_live meanwhile wid 20) (\<lambda>_. assign)
           | Spawn_failed e \<Rightarrow> ret None)
         else ret worker))"

definition existing_answer :: "json \<Rightarrow> jdict \<Rightarrow> exn + response" where
  "existing_answer task_id record =
     chain (dindex record ''status'') (\<lambda>status.
     chain (dindex record ''worker_id'') (\<lambda>worker_id.
     chain (dindex record ''assigned_by'') (\<lambda>assigned_by.
     Inr (200, JObj [(''message'', JStr ''Task already exists''), (''task_id'', task_id), (''status'', status),
                     (''worker_id'', worker_id), (''assigned_by'', assigned_by)]))))"

text \<open>\<open>try: m ... except Exception: ...\<close>, where only the outcome matters.\<close>

definition attempted :: "('s, 'a) act \<Rightarrow> ('s, bool) act" where
  "attempted m = catch (andthen m (\<lambda>_. ret True)) (\<lambda>_. ret False)"

text \<open>Steps 3 to 5: the record, the assignment, and the deletion of the record when that failed.\<close>

definition ht1_op :: "nat \<Rightarrow> string \<Rightarrow> int \<Rightarrow> string \<Rightarrow> string \<Rightarrow> json \<Rightarrow> ('z net_scheme, unit) act" where
  "ht1_op fuel me k inject t record =
     (if inject = ''ht1'' then throw (RuntimeError ''injected HT1 failure'')
      else andthen (result_put fuel me k t record) (\<lambda>_. ret ()))"

definition ht2_op :: "nat \<Rightarrow> string \<Rightarrow> int \<Rightarrow> string \<Rightarrow> string \<Rightarrow> string \<Rightarrow> ('z net_scheme, unit) act" where
  "ht2_op fuel me k inject w t =
     (if inject = ''ht2'' then throw (RuntimeError ''injected HT2 failure'')
      else andthen (append fuel me k w t) (\<lambda>_. ret ()))"

definition write_task ::
  "nat \<Rightarrow> string \<Rightarrow> int \<Rightarrow> string \<Rightarrow> string \<Rightarrow> string \<Rightarrow> string \<Rightarrow> json \<Rightarrow> ('z frontend_scheme, response) act" where
  "write_task fuel me k inject t w assigned_by record =
     andthen (attempted (retried ''HT1.put'' (ht1_op fuel me k inject t record))) (\<lambda>put_ok.
     if \<not> put_ok then ret (rejected 503 ''Failed to persist task record'')
     else
       andthen (attempted (retried ''HT2.append'' (ht2_op fuel me k inject w t))) (\<lambda>append_ok.
       if \<not> append_ok then
         andthen (ignoring (andthen (result_delete fuel me k t) (\<lambda>_. ret ()))) (\<lambda>_.
         ret (rejected 503 ''Failed to persist worker assignment''))
       else
         ret (201, JObj [(''message'', JStr ''Task accepted''), (''task_id'', JStr t), (''worker_id'', JStr w),
                         (''assigned_by'', JStr assigned_by)])))"

text \<open>Step 2: the record is built or the task is rejected.\<close>

definition accept_task ::
  "nat \<Rightarrow> string \<Rightarrow> int \<Rightarrow> string \<Rightarrow> json \<Rightarrow> jdict \<Rightarrow> json \<Rightarrow> string \<Rightarrow> ('z frontend_scheme, response) act" where
  "accept_task fuel me k inject task_id details worker_id assigned_by =
     andthen (gets clock) (\<lambda>now.
     case build_result_record now task_id (dget details ''task_type'') (dget_or (JStr []) details ''path'')
            (dget_or (JStr []) details ''script'') worker_id (JStr assigned_by)
            (default_options\<lparr>ro_status := JStr ''PENDING'', ro_result := JNull\<rparr>) of
       Inl (ResultValidationError e) \<Rightarrow> ret (rejected 422 e)
     | Inl e \<Rightarrow> throw e
     | Inr record \<Rightarrow> write_task fuel me k inject (str_of task_id) (str_of worker_id) assigned_by record)"

definition create_task ::
  "nat \<Rightarrow> string \<Rightarrow> int \<Rightarrow> (string \<Rightarrow> ('z frontend_scheme, int) act) \<Rightarrow> ('z frontend_scheme, unit) act \<Rightarrow> bool
    \<Rightarrow> string \<Rightarrow> json \<Rightarrow> ('z frontend_scheme, response) act" where
  "create_task fuel me k popen meanwhile autospawn inject payload = endpoint
     (andthen (lift (json_body payload)) (\<lambda>b.
      let task_id = dget b ''task_id''; details = py_or (dget b ''task_details'') (JObj []) in
      if \<not> truthy task_id then ret (rejected 422 ''task_id required'')
      else if \<not> is_dict details then ret (rejected 422 ''task_details must be an object'')
      else
        andthen (lift (in_str_set (dget (dict_of details) ''task_type'') VALID_TASK_TYPES)) (\<lambda>known.
        if \<not> known then ret (rejected 422 ''task_details.task_type must be one of BINARY, SCRIPT'')
        else
          andthen (safe_get fuel me k task_id) (\<lambda>existing.
          case existing of
            Some r \<Rightarrow> lift (existing_answer task_id (dict_of r))
          | None \<Rightarrow>
              if truthy (dget b ''worker_id'') then
                accept_task fuel me k inject task_id (dict_of details) (dget b ''worker_id'') ''user''
              else
                andthen (choose_worker popen meanwhile autospawn) (\<lambda>worker.
                if worker = None \<and> autospawn then
                  ret (rejected 503 ''no live workers available; auto-spawn failed'')
                else
                  andthen (case worker of None \<Rightarrow> ret () | Some w \<Rightarrow> modify (\<lambda>s. s\<lparr>reg := note_assignment w (reg s)\<rparr>)) (\<lambda>_.
                  accept_task fuel me k inject task_id (dict_of details)
                    (case worker of None \<Rightarrow> JNull | Some w \<Rightarrow> JStr w) ''frontend''))))))"

section \<open>Status and completion\<close>

definition status_answer :: "string \<Rightarrow> jdict \<Rightarrow> exn + response" where
  "status_answer t record =
     chain (dindex record ''status'') (\<lambda>status.
     chain (dindex record ''result'') (\<lambda>result.
     chain (dindex record ''worker_id'') (\<lambda>worker_id.
     chain (dindex record ''assigned_by'') (\<lambda>assigned_by.
     Inr (200, JObj [(''task_id'', JStr t), (''status'', status), (''result'', result),
                     (''worker_id'', worker_id), (''assigned_by'', assigned_by)])))))"

definition get_status :: "nat \<Rightarrow> string \<Rightarrow> int \<Rightarrow> string \<Rightarrow> ('z frontend_scheme, response) act" where
  "get_status fuel me k t = endpoint
     (andthen (catch (andthen (result_get fuel me k t) (\<lambda>r. ret (Inr r)))
        (\<lambda>_. ret (Inl (500, JObj [(''error'', JStr ''lookup failed'')])))) (\<lambda>r.
      case r of
        Inl answer \<Rightarrow> ret answer
      | Inr None \<Rightarrow> ret (404, JObj [(''error'', JStr ''task not found''), (''task_id'', JStr t)])
      | Inr (Some v) \<Rightarrow> lift (status_answer t (dict_of v))))"

definition completed :: "int \<Rightarrow> json \<Rightarrow> json \<Rightarrow> jdict \<Rightarrow> jdict" where
  "completed now status result record =
     dset ''updated_at'' (JStr (utc_now_iso now)) (dset ''result'' result (dset ''status'' status record))"

text \<open>
  The answer and the clean-up thread that the handler started, if any: the worker and the task
  it removes. The registry counts completions of workers named by strings.
\<close>

definition result_complete ::
  "nat \<Rightarrow> string \<Rightarrow> int \<Rightarrow> string \<Rightarrow> json \<Rightarrow> ('z frontend_scheme, response \<times> (json \<times> string) option) act" where
  "result_complete fuel me k t payload = catch
     (andthen (lift (json_body payload)) (\<lambda>b.
      let status = dget b ''status'' in
      andthen (lift (in_str_set status [''SUCCESS'', ''FAILURE''])) (\<lambda>known.
      if \<not> known then
        ret ((422, JObj [(''ok'', JBool False), (''error'', JStr ''status must be SUCCESS or FAILURE'')]), None)
      else
        andthen (result_get fuel me k t) (\<lambda>existing.
        case existing of
          None \<Rightarrow>
            ret ((404, JObj [(''ok'', JBool False), (''error'', JStr ''task not found''), (''task_id'', JStr t)]), None)
        | Some v \<Rightarrow>
            andthen (gets clock) (\<lambda>now.
            andthen (attempted (result_put fuel me k t
                (JObj (completed now status (dget b ''result'') (dict_of v))))) (\<lambda>put_ok.
            if \<not> put_ok then ret ((500, JObj [(''ok'', JBool False)]), None)
            else
              let worker_id = dget (dict_of v) ''worker_id''; good = (status = JStr ''SUCCESS'') in
              andthen (case worker_id of
                  JStr w \<Rightarrow> modify (\<lambda>s. s\<lparr>reg := record_completion w good (reg s)\<rparr>)
                | _ \<Rightarrow> ret ()) (\<lambda>_.
              ret ((200, JObj [(''ok'', JBool True), (''task_id'', JStr t), (''status'', status)]),
                   if truthy worker_id \<and> good then Some (worker_id, t) else None))))))))
     (\<lambda>_. ret ((500, JNull), None))"

text \<open>The clean-up thread.\<close>

definition delayed_ht2_cleanup :: "nat \<Rightarrow> string \<Rightarrow> int \<Rightarrow> json \<times> string \<Rightarrow> ('z frontend_scheme, unit) act" where
  "delayed_ht2_cleanup fuel me k wt =
     andthen (sleep 3000000) (\<lambda>_.
     case fst wt of
       JStr w \<Rightarrow> ignoring (andthen (remove fuel me k w (snd wt)) (\<lambda>_. ret ()))
     | _ \<Rightarrow> ret ())"

section \<open>The state of the workers\<close>

record worker_row =
  row_worker :: string
  row_status :: string
  row_task_count :: nat
  row_pending :: nat
  row_age :: rat

record worker_counts =
  n_live :: nat
  n_idle :: nat
  n_busy :: nat
  n_dead :: nat

definition count_pending :: "nat \<Rightarrow> string \<Rightarrow> int \<Rightarrow> json list \<Rightarrow> ('z frontend_scheme, nat) act" where
  "count_pending fuel me k tids =
     for_each tids (\<lambda>t pending.
       andthen (safe_get fuel me k t) (\<lambda>rec.
       ret (case rec of
              Some v \<Rightarrow> if dget (dict_of v) ''status'' = JStr ''PENDING'' then Suc pending else pending
            | None \<Rightarrow> pending))) 0"

definition add_row ::
  "string \<Rightarrow> rat \<Rightarrow> bool \<Rightarrow> nat \<Rightarrow> nat \<Rightarrow> worker_counts \<times> worker_row list \<Rightarrow> worker_counts \<times> worker_row list" where
  "add_row w age live tasks pending cr =
     (let (c, rows) = cr;
          status = (if live then if pending = 0 then ''idle'' else ''busy'' else ''dead'');
          c' = (if live then
                  if pending = 0 then c\<lparr>n_live := Suc (n_live c), n_idle := Suc (n_idle c)\<rparr>
                  else c\<lparr>n_live := Suc (n_live c), n_busy := Suc (n_busy c)\<rparr>
                else c\<lparr>n_dead := Suc (n_dead c)\<rparr>)
      in (c', rows @ [\<lparr>row_worker = w, row_status = status, row_task_count = tasks, row_pending = pending,
                      row_age = of_int (round_half_even (10 * age)) / 10\<rparr>]))"

definition workers_status :: "nat \<Rightarrow> string \<Rightarrow> int \<Rightarrow> ('z frontend_scheme, worker_counts \<times> worker_row list) act" where
  "workers_status fuel me k =
     andthen (gets (\<lambda>s. (all_workers (now_s s) (reg s), live_workers (now_s s) (reg s)))) (\<lambda>(all, live).
     for_each all (\<lambda>(w, ts, age) cr.
       andthen (catch (assigned_tasks fuel me k w) (\<lambda>_. ret [])) (\<lambda>tids.
       andthen (count_pending fuel me k tids) (\<lambda>pending.
       ret (add_row w age (w \<in> set live) (length tids) pending cr))))
       (\<lparr>n_live = 0, n_idle = 0, n_busy = 0, n_dead = 0\<rparr>, []))"

end
