(* ===== verification/Workers.thy ===== *)
theory Workers
  imports Submission
begin

text \<open>
  The workers as the frontend sees them: the name of a spawned worker is new, rebalancing never
  makes the distribution of the pending tasks more uneven, and the counts of \<open>/workers/status\<close>
  agree with its rows.
\<close>

section \<open>Loops that build up a value\<close>

lemma triple_for_each:
  assumes step: "\<And>ys x a. I ys a \<Longrightarrow> triple P (f x a) (I (ys @ [x]))"
  shows "I ys a \<Longrightarrow> triple P (for_each xs f a) (I (ys @ xs))"
proof (induction xs arbitrary: ys a)
  case Nil
  then show ?case by (simp add: triple_ret)
next
  case (Cons x xs)
  have "triple P (for_each xs f a') (I (ys @ x # xs))" if "I (ys @ [x]) a'" for a'
    using Cons.IH [OF that] by simp
  with step [OF Cons.prems] show ?case by (simp, rule triple_andthen)
qed

section \<open>Load\<close>

definition spread :: "int dict \<Rightarrow> int" where
  "spread load = Max (load_of load ` set (dkeys load)) - Min (load_of load ` set (dkeys load))"

lemma load_of_Cons: "load_of ((w, n) # load) x = (if x = w then n else load_of load x)"
  by (simp add: load_of_def)

lemma least_loaded_min:
  assumes "load \<noteq> []" and "distinct (dkeys load)"
  shows "least_loaded load \<in> set (dkeys load) \<and> (\<forall>w \<in> set (dkeys load). load_of load (least_loaded load) \<le> load_of load w)"
  using assms
proof (induction load rule: least_loaded.induct)
  case (3 w n w' n' rest)
  show ?case
  proof (cases "n' < n")
    case True
    with 3 have "least_loaded ((w', n') # rest) \<noteq> w" by (auto simp: dkeys_def)
    with 3 True show ?thesis by (auto simp: load_of_Cons dkeys_def)
  next
    case False
    with 3(2) 3(4) have "least_loaded ((w, n) # rest) \<in> set (dkeys ((w, n) # rest))"
      "\<forall>x \<in> set (dkeys ((w, n) # rest)). load_of ((w, n) # rest) (least_loaded ((w, n) # rest)) \<le> load_of ((w, n) # rest) x"
      by (auto simp: dkeys_def)
    moreover from this have "least_loaded ((w, n) # rest) \<noteq> w'" using 3(4) by (auto simp: dkeys_def)
    ultimately show ?thesis using False by (auto simp: load_of_Cons dkeys_def)
  qed
qed (auto simp: load_of_Cons dkeys_def)

lemma dkeys_dset: "w \<in> set (dkeys d) \<Longrightarrow> dkeys (dset w v d) = dkeys d"
  by (induction d) (auto simp: dkeys_def)

lemma load_of_dset: "load_of (dset w n load) x = (if x = w then n else load_of load x)"
  by (simp add: load_of_def map_of_dset)

lemma moved_load_keys:
  assumes "dst \<in> set (dkeys load)" and "\<forall>w. src = Some w \<longrightarrow> w \<in> set (dkeys load)"
  shows "dkeys (moved_load src dst load) = dkeys load"
  using assms by (cases src) (simp_all add: moved_load_def Let_def dkeys_dset)

lemma load_of_moved:
  "load_of (moved_load src dst load) x =
     load_of load x + (if x = dst then 1 else 0) - (if src = Some x then 1 else 0)"
  by (cases src) (auto simp: moved_load_def Let_def load_of_dset)

lemma spread_le:
  assumes "load \<noteq> []" and "\<And>w. w \<in> set (dkeys load) \<Longrightarrow> lo \<le> load_of load w \<and> load_of load w \<le> hi"
  shows "spread load \<le> hi - lo"
proof -
  have "set (dkeys load) \<noteq> {}" using assms(1) by (simp add: dkeys_def)
  then have "Max (load_of load ` set (dkeys load)) \<le> hi" "lo \<le> Min (load_of load ` set (dkeys load))"
    using assms(2) by auto
  then show ?thesis by (simp add: spread_def)
qed

text \<open>Moving a task to a least loaded worker from none, or from one with more.\<close>

lemma moved_spread:
  assumes load: "load \<noteq> []" "distinct (dkeys load)"
    and src: "\<forall>w. src = Some w \<longrightarrow> w \<in> set (dkeys load) \<and> load_of load (least_loaded load) < load_of load w"
  shows "spread (moved_load src (least_loaded load) load) \<le> max 1 (spread load)"
proof -
  define hi where "hi = Max (load_of load ` set (dkeys load))"
  then have hi: "w \<in> set (dkeys load) \<Longrightarrow> load_of load w \<le> hi" for w by simp
  let ?dst = "least_loaded load"
  let ?lo = "load_of load ?dst"
  have min: "?dst \<in> set (dkeys load)" "\<And>w. w \<in> set (dkeys load) \<Longrightarrow> ?lo \<le> load_of load w"
    using least_loaded_min [OF load] by auto
  have keys: "dkeys (moved_load src ?dst load) = dkeys load" using moved_load_keys [OF min(1)] src by simp
  have "moved_load src ?dst load \<noteq> []" using keys load(1) by (metis dkeys_def list.map_disc_iff)
  moreover have "?lo \<le> load_of (moved_load src ?dst load) w \<and> load_of (moved_load src ?dst load) w \<le> max hi (?lo + 1)"
    if "w \<in> set (dkeys (moved_load src ?dst load))" for w
    using that src min(2) [of w] hi [of w] unfolding keys by (auto simp: load_of_moved)
  ultimately have "spread (moved_load src ?dst load) \<le> max hi (?lo + 1) - ?lo" by (rule spread_le)
  moreover have "?lo = Min (load_of load ` set (dkeys load))"
    using min by (intro Min_eqI [symmetric]) auto
  ultimately show ?thesis by (simp add: spread_def hi_def)
qed

section \<open>Rebalancing\<close>

definition load_ok :: "string list \<Rightarrow> int \<Rightarrow> int dict \<Rightarrow> bool" where
  "load_ok live bound load \<longleftrightarrow> dkeys load = live \<and> spread load \<le> max 1 bound"

lemma triple_rebalance_step:
  assumes live: "live \<noteq> []" "distinct live" and l: "load_ok live bound (fst lm)"
  shows "triple (\<lambda>_. True) (rebalance_step fuel me k target kv lm) (\<lambda>lm'. load_ok live bound (fst lm'))"
proof -
  obtain load moved where lm: "lm = (load, moved)" by fastforce
  let ?src = "source_of load (dget (dict_of (snd kv)) ''worker_id'')" and ?dst = "least_loaded load"
  have keys: "dkeys load = live" and old: "spread load \<le> max 1 bound" using l by (simp_all add: load_ok_def lm)
  then have load: "load \<noteq> []" "distinct (dkeys load)" using live by (auto simp: dkeys_def)
  have "load_ok live bound (moved_load ?src ?dst load)"
    if "\<not> (case ?src of None \<Rightarrow> False | Some w \<Rightarrow> load_of load w \<le> target \<or> load_of load w \<le> load_of load ?dst)"
  proof -
    have src: "\<forall>w. ?src = Some w \<longrightarrow> w \<in> set (dkeys load) \<and> load_of load ?dst < load_of load w"
      using that by (auto simp: source_of_def split: json.splits if_splits)
    have "dkeys (moved_load ?src ?dst load) = live"
      using moved_load_keys [of ?dst load ?src] least_loaded_min [OF load] src keys by simp
    with moved_spread [OF load src] old show ?thesis by (simp add: load_ok_def)
  qed
  then show ?thesis
    unfolding rebalance_step_def lm Let_def split_beta fst_conv snd_conv using l [unfolded lm]
    by (intro triple_if triple_ret triple_catch)
      (auto intro!: triple_after triple_ret simp: keeps_def)
qed

lemma count_load_keys: "count_load wids load = Inr load' \<Longrightarrow> dkeys load' = dkeys load"
proof (induction wids arbitrary: load)
  case (Cons wid wids)
  then show ?case
    by (cases wid) (auto simp: chain_eq_Inr in_str_set_True dkeys_dset split: if_splits)
qed simp

lemma live_distinct: "wf_dict (workers g) \<Longrightarrow> distinct (live_workers now g)"
  by (simp add: live_workers_def wf_dict_def dkeys_def distinct_map_filter)

text \<open>A process with two live workers; the two tasks it stores are pending on the first.\<close>

definition demo_task :: "string \<Rightarrow> json" where
  "demo_task w = JObj [(''status'', JStr ''PENDING''), (''worker_id'', JStr w)]"

definition demo_office :: frontend where
  "demo_office = \<lparr>nodes = [''a'' \<mapsto> (init_node ''a'' (Some 10) False False Missing)
       \<lparr>data_store := [(''result:t'', demo_task ''x''), (''result:u'', demo_task ''y'')]\<rparr>],
     fault = (\<lambda>n a. Delivered), sent = 0, clock = 0,
     reg = (init_registry 0)\<lparr>workers := [(''x'', 0), (''y'', 0)]\<rparr>, in_progress = [], events = [],
     last_spawn_trigger = 0, spawn_cooldown_s = 3, worker_pids = [(''w1'', 7)], known_workers = []\<rparr>"

lemma demo_office_live: "live_workers now (reg demo_office) = [''x'', ''y'']"
  by (simp add: live_workers_def demo_office_def init_registry_def dkeys_def)

section \<open>Properties\<close>

text \<open>
  C25. Rebalancing never makes the load more uneven: whatever the network does and whichever moves
  fail, the difference between the most and the least loaded live worker, as counted by the
  function, is afterwards at most what it was before, or 1; and it counts the same workers.
\<close>

theorem rebalance_spread:
  assumes run: "do_rebalance fuel me k s = (Inr (Some (moved, load)), s')"
    and reg: "wf_dict (workers (reg s))" and nd: "nodes s me = Some nd"
  shows "\<exists>load0. count_load (List.map (\<lambda>kv. dget (dict_of (snd kv)) ''worker_id'') (filter is_pending_task (data_store nd)))
      (List.map (\<lambda>w. (w, 0)) (live_workers (now_s s) (reg s))) = Inr load0 \<and>
    dkeys load = dkeys load0 \<and> spread load \<le> max 1 (spread load0)"
proof -
  let ?live = "live_workers (now_s s) (reg s)" and ?pending = "filter is_pending_task (data_store nd)"
  let ?target = "max 1 (int (length ?pending) div int (length ?live))"
  let ?zero = "List.map (\<lambda>w. (w, 0 :: int)) ?live"
  obtain load0 where load0: "count_load (List.map (\<lambda>kv. dget (dict_of (snd kv)) ''worker_id'') ?pending) ?zero = Inr load0"
    and loop: "for_each ?pending (rebalance_step fuel me k ?target) (load0, 0) s = (Inr (load, moved), s')"
    and two: "\<not> length ?live < 2"
    using run nd by (auto simp: do_rebalance_def act_simps Let_def split: if_splits sum.splits prod.splits)
  have "?live \<noteq> []" using two by auto
  have keys: "dkeys load0 = ?live" using count_load_keys [OF load0] by (simp add: dkeys_def comp_def)
  have "triple (\<lambda>_. True) (for_each ?pending (rebalance_step fuel me k ?target) (load0, 0))
      ((\<lambda>ys lm. load_ok ?live (spread load0) (fst lm)) ([] @ ?pending))"
    by (rule triple_for_each, rule triple_rebalance_step [OF \<open>?live \<noteq> []\<close> live_distinct [OF reg]], assumption)
      (simp add: load_ok_def keys)
  from tripleD [OF this TrueI loop] have "load_ok ?live (spread load0) load" by simp
  with load0 keys show ?thesis by (auto simp: load_ok_def)
qed

theorem rebalance_spread_witness:
  "\<exists>load s'. do_rebalance 0 ''a'' 3 demo_office = (Inr (Some (0, load)), s') \<and> spread load \<le> 1"
proof -
  let ?load = "[(''x'', 1), (''y'', 1)] :: int dict"
  obtain nd where nd: "nodes demo_office ''a'' = Some nd"
    "filter is_pending_task (data_store nd) = [(''result:t'', demo_task ''x''), (''result:u'', demo_task ''y'')]"
    by (simp add: demo_office_def is_pending_task_def demo_task_def dget_or_Cons)
  have count: "count_load [JStr ''x'', JStr ''y''] [(''x'', 0), (''y'', 0)] = Inr ?load"
    by (simp add: dkeys_def)
  have worker: "dget (dict_of (demo_task w)) ''worker_id'' = JStr w" for w by (simp add: demo_task_def dget_or_Cons)
  have "do_rebalance 0 ''a'' 3 demo_office = (Inr (Some (0, ?load)), demo_office)"
    using nd count
    by (simp add: do_rebalance_def act_simps demo_office_live Let_def worker rebalance_step_def source_of_def dkeys_def
        load_of_def)
  moreover have "wf_dict (workers (reg demo_office))" by (simp add: demo_office_def wf_dict_def dkeys_def)
  ultimately show ?thesis
    using rebalance_spread [of 0 "''a''" 3 demo_office 0 ?load demo_office] nd count
    by (auto simp: demo_office_live worker spread_def dkeys_def load_of_def)
qed

text \<open>
  A spawned worker gets a new name: without a requested name, a successful spawn names a worker
  that is neither live nor among the spawned ones and records its pid, and no spawn is refused
  because the worker is already running; starting the process may do anything.
\<close>

theorem spawn_fresh:
  "spawn_worker popen None s = (Inr r, s') \<Longrightarrow>
   (case r of
      Spawned w pid \<Rightarrow> w \<notin> set (live_workers (now_s s) (reg s)) \<and> w \<notin> set (dkeys (worker_pids s)) \<and>
        map_of (worker_pids s') w = Some pid
    | Spawn_failed e \<Rightarrow> e = ''spawn failed'')"
proof -
  assume run: "spawn_worker popen None s = (Inr r, s')"
  let ?taken = "live_workers (now_s s) (reg s) @ dkeys (worker_pids s)"
  have new: "worker_name (first_free ?taken 1) \<notin> set ?taken" by (rule first_free_new)
  have "map_of (worker_pids (emit_worker_join w x)) w' = map_of (worker_pids x) w'" for w w' and x :: "'a frontend_scheme"
    by (simp add: emit_worker_join_def)
  with run new show ?thesis
    by (auto simp: spawn_worker_def act_simps map_of_dset split: sum.splits prod.splits if_splits)
qed

theorem spawn_fresh_witness:
  "\<exists>s'. spawn_worker (\<lambda>_. ret 42) None demo_office = (Inr (Spawned ''w2'' 42), s') \<and>
     ''w2'' \<notin> set (dkeys (worker_pids demo_office)) \<and> map_of (worker_pids s') ''w2'' = Some 42"
proof -
  have "worker_name (Suc 0) = ''w1''" "worker_name (Suc (Suc 0)) = ''w2''" by code_simp+
  moreover have "worker_pids demo_office = [(''w1'', 7)]" by (simp add: demo_office_def)
  ultimately have "worker_name (first_free (live_workers now (reg demo_office) @ dkeys (worker_pids demo_office)) 1) = ''w2''" for now
    by (simp add: demo_office_live dkeys_def first_free.simps [of _ "Suc 0"] first_free.simps [of _ "Suc (Suc 0)"])
  then obtain s' where run: "spawn_worker (\<lambda>_. ret 42) None demo_office = (Inr (Spawned ''w2'' 42), s')"
    by (simp add: spawn_worker_def act_simps demo_office_def dkeys_def)
  from spawn_fresh [OF this] run show ?thesis by auto
qed

section \<open>The counts\<close>

definition counts_ok :: "string list \<Rightarrow> worker_counts \<times> worker_row list \<Rightarrow> bool" where
  "counts_ok live cr \<longleftrightarrow> (case cr of (c, rows) \<Rightarrow>
     n_idle c = length (filter (\<lambda>r. row_worker r \<in> set live \<and> row_pending r = 0) rows) \<and>
     n_busy c = length (filter (\<lambda>r. row_worker r \<in> set live \<and> row_pending r \<noteq> 0) rows) \<and>
     n_dead c = length (filter (\<lambda>r. row_worker r \<notin> set live) rows) \<and> n_live c = n_idle c + n_busy c \<and>
     n_live c + n_dead c = length rows)"

lemma add_row_ok:
  "counts_ok live cr \<Longrightarrow> counts_ok live (add_row w age (w \<in> set live) n p cr)"
  by (cases cr) (auto simp: counts_ok_def add_row_def Let_def)

lemma add_row_worker: "List.map row_worker (snd (add_row w age live n p cr)) = List.map row_worker (snd cr) @ [w]"
  by (cases cr) (simp add: add_row_def Let_def)

text \<open>
  The counts of the workers add up: every known worker has one row, the live ones are the idle
  and the busy ones, idle and busy are told apart by the number of pending tasks in the row, and
  live and dead are all.
\<close>

theorem workers_status_counts:
  assumes "workers_status fuel me k s = (Inr (c, rows), s')"
  shows "List.map row_worker rows = List.map fst (all_workers (now_s s) (reg s)) \<and>
    counts_ok (live_workers (now_s s) (reg s)) (c, rows)"
proof -
  let ?live = "live_workers (now_s s) (reg s)" and ?all = "all_workers (now_s s) (reg s)"
  let ?f = "\<lambda>(w, ts, age) cr.
       andthen (catch (assigned_tasks fuel me k w) (\<lambda>_. ret [])) (\<lambda>tids.
       andthen (count_pending fuel me k tids) (\<lambda>pending.
       ret (add_row w age (w \<in> set ?live) (length tids) pending cr)))"
  let ?I = "\<lambda>ys :: (string \<times> rat \<times> rat) list. \<lambda>cr. List.map row_worker (snd cr) = List.map fst ys \<and> counts_ok ?live cr"
  have loop: "for_each ?all ?f (\<lparr>n_live = 0, n_idle = 0, n_busy = 0, n_dead = 0\<rparr>, []) s = (Inr (c, rows), s')"
    using assms by (simp add: workers_status_def act_simps)
  have step: "triple (\<lambda>_. True) (?f x cr) (?I (ys @ [x]))" if "?I ys cr" for ys x cr
    using that by (cases x) (auto intro!: triple_after triple_ret add_row_ok simp: keeps_def add_row_worker)
  have "triple (\<lambda>_. True) (for_each ?all ?f (\<lparr>n_live = 0, n_idle = 0, n_busy = 0, n_dead = 0\<rparr>, [])) (?I ([] @ ?all))"
    by (rule triple_for_each [where I = ?I], rule step, assumption) (simp add: counts_ok_def)
  from tripleD [OF this TrueI loop] show ?thesis by simp
qed

theorem workers_status_counts_witness:
  "\<exists>c rows s'. workers_status 0 ''b'' 3 demo_office = (Inr (c, rows), s') \<and>
     List.map row_worker rows = [''x'', ''y''] \<and> n_live c = 2 \<and> n_dead c = 0"
proof -
  have fail: "assigned_tasks 0 ''b'' 3 w demo_office = (Inl (RuntimeError ''no process at this address''), demo_office)"
    if "w \<noteq> []" for w
    using that by (simp add: assigned_tasks_def build_worker_key_def worker_owner_def find_successor_via_def
        read_node_def on_node_def demo_office_def act_simps)
  have all: "all_workers (now_s demo_office) (reg demo_office) = [(''x'', 0, 0), (''y'', 0, 0)]"
    by (simp add: all_workers_def demo_office_def init_registry_def now_s_def seconds_def)
  have count: "count_pending 0 ''b'' 3 [] demo_office = (Inr 0, demo_office)"
    by (simp add: count_pending_def act_simps)
  have "\<exists>c rows s'. workers_status 0 ''b'' 3 demo_office = (Inr (c, rows), s')"
    by (simp add: workers_status_def run_andthen run_gets run_catch run_ret all fail count)
  then obtain c rows s' where run: "workers_status 0 ''b'' 3 demo_office = (Inr (c, rows), s')" by blast
  have "List.map row_worker rows = [''x'', ''y'']" "counts_ok [''x'', ''y''] (c, rows)"
    using workers_status_counts [OF run] by (simp_all add: all demo_office_live)
  moreover from this(1) obtain r1 r2 where "rows = [r1, r2]" "row_worker r1 = ''x''" "row_worker r2 = ''y''"
    by (auto simp: map_eq_Cons_conv)
  ultimately have "n_dead c = 0" "n_live c = 2" by (simp_all add: counts_ok_def)
  with run \<open>List.map row_worker rows = _\<close> show ?thesis by (intro exI [of _ c] exI [of _ rows] exI [of _ s']) simp
qed

end
