(* ===== verification/JobWorker.thy ===== *)
theory JobWorker
  imports Node Schema
begin

text \<open>
  \<open>chord/job.py\<close> and \<open>chord/worker.py\<close>: job records, and the worker thread that claims the
  pending jobs stored at its node, runs them in a pool of threads, retries those that fail and
  queues those again that run too long.

  The scan, the reaper and the executions take the lock of the node for each of their steps and
  run concurrently between them; so each locked section is one operation on the node, and the
  inductive relation \<open>worker_step\<close> lets the sections of the scan, the reaper and all executions
  happen in any order and at any time; the number of threads of the pool bounds only how many
  executions proceed at once, so every schedule of the pool is one of these. A job is the dictionary it was when it was claimed. The
  texts of exceptions are abbreviated; the activity log and the metrics are left out.
\<close>

section \<open>Job records\<close>

definition PENDING :: string where "PENDING = ''pending''"
definition CLAIMED :: string where "CLAIMED = ''claimed''"
definition RUNNING :: string where "RUNNING = ''running''"
definition DONE :: string where "DONE = ''done''"
definition FAILED :: string where "FAILED = ''failed''"

lemmas job_statuses = PENDING_def CLAIMED_def RUNNING_def DONE_def FAILED_def

text \<open>\<open>uuid\<close> is the identifier that \<open>uuid.uuid4()\<close> makes up.\<close>

definition make_job :: "rat \<Rightarrow> string \<Rightarrow> json \<Rightarrow> json \<Rightarrow> json \<Rightarrow> jdict" where
  "make_job now uuid job_type payload job_id =
     [(''job_id'', py_or job_id (JStr uuid)), (''type'', job_type), (''payload'', payload),
      (''status'', JStr PENDING), (''created_at'', JFloat now), (''claimed_by'', JNull), (''started_at'', JNull),
      (''finished_at'', JNull), (''result'', JNull), (''error'', JNull)]"

definition job_key :: "string \<Rightarrow> string" where
  "job_key job_id = ''job:'' @ job_id"

section \<open>Running a job\<close>

definition JOB_TIMEOUT :: int where "JOB_TIMEOUT = 120"
definition MAX_JOB_RETRIES :: int where "MAX_JOB_RETRIES = 3"

text \<open>\<open>payload.get(k, default)\<close>, which raises when the payload is not a dictionary.\<close>

definition payload_get :: "json \<Rightarrow> string \<Rightarrow> json \<Rightarrow> exn + json" where
  "payload_get payload k otherwise =
     (case payload of JObj d \<Rightarrow> Inr (dget_or otherwise d k) | _ \<Rightarrow> Inl (AttributeError ''get''))"

text \<open>\<open>_execute\<close>: the seconds the thread sleeps, and the result. A negative sleep raises.\<close>

definition execute_job :: "jdict \<Rightarrow> exn + rat \<times> json" where
  "execute_job job =
     (let job_type = dget_or (JStr []) job ''type''; payload = dget_or (JObj []) job ''payload'' in
      if job_type = JStr ''sleep'' then
        chain (payload_get payload ''seconds'' (JInt 1)) (\<lambda>v.
        chain (py_float v) (\<lambda>q.
        if q < 0 then Inl (ValueError ''sleep length must be non-negative'')
        else Inr (q, JObj [(''slept'', JFloat q)])))
      else if job_type = JStr ''echo'' then
        chain (payload_get payload ''message'' (JStr [])) (\<lambda>v. Inr (0, JObj [(''echo'', v)]))
      else if job_type = JStr ''compute'' then
        chain (payload_get payload ''n'' (JInt 1000)) (\<lambda>v.
        chain (py_int v) (\<lambda>n. Inr (0, JObj [(''sum'', JInt (sum_list [0..n - 1])), (''n'', JInt n)])))
      else Inl (ValueError ''Unknown job type''))"

section \<open>The locked sections\<close>

type_synonym 'a node_act = "(chord_node, 'a) act"

definition entry :: "string \<Rightarrow> json option node_act" where
  "entry key = gets (\<lambda>nd. map_of (data_store nd) key)"

definition store_entry :: "string \<Rightarrow> jdict \<Rightarrow> unit node_act" where
  "store_entry key d = modify (\<lambda>nd. nd\<lparr>data_store := dset key (JObj d) (data_store nd)\<rparr>)"

text \<open>\<open>entry = data_store.get(key); if entry: entry[..] = ..\<close>\<close>

definition update_entry :: "string \<Rightarrow> (jdict \<Rightarrow> jdict) \<Rightarrow> unit node_act" where
  "update_entry key f =
     andthen (entry key) (\<lambda>e.
     case e of
       None \<Rightarrow> ret ()
     | Some v \<Rightarrow>
         if \<not> truthy v then ret ()
         else case v of JObj d \<Rightarrow> store_entry key (f d) | _ \<Rightarrow> throw (TypeError ''item assignment''))"

definition py_lt :: "json \<Rightarrow> json \<Rightarrow> exn + bool" where
  "py_lt a b = chain (py_ge a b) (\<lambda>ge. Inr (\<not> ge))"

text \<open>\<open>_scan_and_claim\<close>, first section: the pending jobs.\<close>

definition scan_pending :: "chord_node \<Rightarrow> (string \<times> jdict) list" where
  "scan_pending nd = List.map (\<lambda>(k, v). (k, dict_of v))
     (filter (\<lambda>(k, v). startswith k ''job:'' \<and> is_dict v \<and> dget (dict_of v) ''status'' = JStr PENDING) (data_store nd))"

text \<open>\<open>job.get("job_id", key)[:12]\<close> raises unless the identifier is a string or a list.\<close>

definition short_id :: "string \<Rightarrow> jdict \<Rightarrow> exn + unit" where
  "short_id key job =
     (case dget_or (JStr key) job ''job_id'' of JStr _ \<Rightarrow> Inr () | JList _ \<Rightarrow> Inr ()
      | _ \<Rightarrow> Inl (TypeError ''not subscriptable''))"

definition try_claim :: "rat \<Rightarrow> string \<Rightarrow> jdict \<Rightarrow> bool node_act" where
  "try_claim now key job =
     andthen (entry key) (\<lambda>current.
     case current of
       None \<Rightarrow> ret False
     | Some JNull \<Rightarrow> ret False
     | Some (JObj d) \<Rightarrow>
         if dget d ''status'' \<noteq> JStr PENDING then ret False
         else
           andthen (gets address) (\<lambda>me.
           andthen (store_entry key (dset ''started_at'' (JFloat now) (dset ''claimed_by'' (JStr me)
              (dset ''status'' (JStr CLAIMED) d)))) (\<lambda>_.
           andthen (lift (short_id key job)) (\<lambda>_. ret True)))
     | Some _ \<Rightarrow> throw (AttributeError ''get''))"

definition begin_run :: "string \<Rightarrow> jdict \<Rightarrow> unit node_act" where
  "begin_run key job =
     andthen (lift (short_id key job)) (\<lambda>_. update_entry key (dset ''status'' (JStr RUNNING)))"

definition finish_run :: "rat \<Rightarrow> string \<Rightarrow> json \<Rightarrow> unit node_act" where
  "finish_run now key result =
     andthen (update_entry key (\<lambda>d. dset ''result'' result (dset ''finished_at'' (JFloat now)
        (dset ''status'' (JStr DONE) d)))) (\<lambda>_.
     modify (\<lambda>nd. nd\<lparr>jobs_completed := jobs_completed nd + 1\<rparr>))"

text \<open>The retry after a failure: its number, or None when the budget is used up.\<close>

definition next_retry :: "string \<Rightarrow> json option node_act" where
  "next_retry key =
     andthen (entry key) (\<lambda>e.
     andthen (case e of
        None \<Rightarrow> ret (JInt MAX_JOB_RETRIES)
      | Some v \<Rightarrow>
          if \<not> truthy v then ret (JInt MAX_JOB_RETRIES)
          else case v of JObj d \<Rightarrow> ret (dget_or (JInt 0) d ''retry_count'') | _ \<Rightarrow> throw (AttributeError ''get'')) (\<lambda>count.
     andthen (lift (py_lt count (JInt MAX_JOB_RETRIES))) (\<lambda>more.
     if more then andthen (lift (py_add1 count)) (\<lambda>n. ret (Some n)) else ret None)))"

definition requeue :: "string \<Rightarrow> json \<Rightarrow> string \<Rightarrow> unit node_act" where
  "requeue key n err =
     update_entry key (\<lambda>d. dset ''error'' (JStr (''attempt '' @ show_value n @ '' failed: '' @ err))
       (dset ''started_at'' JNull (dset ''retry_count'' n (dset ''status'' (JStr PENDING) d))))"

definition give_up_job :: "rat \<Rightarrow> string \<Rightarrow> string \<Rightarrow> unit node_act" where
  "give_up_job now key err =
     andthen (update_entry key (\<lambda>d. dset ''error'' (JStr err) (dset ''finished_at'' (JFloat now)
        (dset ''status'' (JStr FAILED) d)))) (\<lambda>_.
     modify (\<lambda>nd. nd\<lparr>jobs_failed := jobs_failed nd + 1\<rparr>))"

text \<open>\<open>_reap_timed_out_jobs\<close>, one item of its loop and the loop, which runs under one lock.\<close>

definition reap_job :: "rat \<Rightarrow> string \<Rightarrow> unit node_act" where
  "reap_job now key =
     andthen (entry key) (\<lambda>e.
     case e of
       Some (JObj d) \<Rightarrow>
         if \<not> startswith key ''job:'' \<or> dget d ''status'' \<noteq> JStr RUNNING then ret ()
         else
           case num_of (py_or (dget d ''started_at'') (JFloat now)) of
             None \<Rightarrow> throw (TypeError ''unsupported operand'')
           | Some started \<Rightarrow>
               if now - started \<le> of_int JOB_TIMEOUT then ret ()
               else
                 let count = dget_or (JInt 0) d ''retry_count'' in
                 andthen (lift (py_lt count (JInt MAX_JOB_RETRIES))) (\<lambda>more.
                 if more then
                   andthen (lift (py_add1 count)) (\<lambda>n.
                   store_entry key (dset ''error'' (JStr (''timed out after 120s (retry '' @ show_value n @ ''/3)''))
                     (dset ''started_at'' JNull (dset ''retry_count'' n (dset ''status'' (JStr PENDING) d)))))
                 else
                   andthen (store_entry key (dset ''error'' (JStr ''timed out after 120s (exhausted 3 retries)'')
                     (dset ''finished_at'' (JFloat now) (dset ''status'' (JStr FAILED) d)))) (\<lambda>_.
                   modify (\<lambda>nd. nd\<lparr>jobs_failed := jobs_failed nd + 1\<rparr>)))
     | _ \<Rightarrow> ret ())"

definition reap_timed_out_jobs :: "rat \<Rightarrow> unit node_act" where
  "reap_timed_out_jobs now =
     andthen (gets (\<lambda>nd. dkeys (data_store nd))) (\<lambda>keys. for_each keys (\<lambda>k _. reap_job now k) ())"

text \<open>The dictionary stored under a key, if there is one, and the keys of the jobs that run too long.\<close>

definition job_at :: "string \<Rightarrow> chord_node \<Rightarrow> jdict option" where
  "job_at key nd = (case map_of (data_store nd) key of Some (JObj d) \<Rightarrow> Some d | _ \<Rightarrow> None)"

definition overdue :: "rat \<Rightarrow> string \<Rightarrow> jdict \<Rightarrow> bool" where
  "overdue now key d \<longleftrightarrow> startswith key ''job:'' \<and> dget d ''status'' = JStr RUNNING \<and>
     (case num_of (py_or (dget d ''started_at'') (JFloat now)) of
        None \<Rightarrow> False | Some started \<Rightarrow> of_int JOB_TIMEOUT < now - started)"

definition overdue_keys :: "rat \<Rightarrow> chord_node \<Rightarrow> string list" where
  "overdue_keys now nd =
     filter (\<lambda>k. case job_at k nd of None \<Rightarrow> False | Some d \<Rightarrow> overdue now k d) (dkeys (data_store nd))"

section \<open>The process\<close>

text \<open>
  The state of the thread: the node, the clock, the jobs that the scan in progress still has to
  claim, whether the reaper is to run before the next scan, and the executions in the pool. A
  round of the thread is a scan followed by the reaper; when the scan raises, the round ends
  without it. An execution is not yet started, running, or waiting before its job is queued again.
\<close>

datatype phase = Submitted | Executing | Backing_off json string

record execution =
  ex_key :: string
  ex_job :: jdict
  ex_phase :: phase

record worker_state =
  wnode :: chord_node
  wnow :: rat
  found :: "(string \<times> jdict) list"
  reap_due :: bool
  pool :: "execution list"

datatype label = Scan | Claim string | Skip string | Begin string | Finish string | Fail string | Requeue string | Give_up string
  | Crash string | Tick | Reap "string list"

fun error_text :: "exn \<Rightarrow> string" where
  "error_text (ValueError e) = e"
| "error_text (TypeError e) = e"
| "error_text (AttributeError e) = e"
| "error_text _ = []"

text \<open>A section of an execution raises outside every \<open>except\<close>: the execution ends there.\<close>

definition raises :: "worker_state \<Rightarrow> execution \<Rightarrow> chord_node \<Rightarrow> bool" where
  "raises s x nd \<longleftrightarrow>
     (case ex_phase x of
        Submitted \<Rightarrow> \<exists>e. begin_run (ex_key x) (ex_job x) (wnode s) = (Inl e, nd)
      | Backing_off n err \<Rightarrow> \<exists>e. requeue (ex_key x) n err (wnode s) = (Inl e, nd)
      | Executing \<Rightarrow>
          \<exists>e. next_retry (ex_key x) (wnode s) = (Inl e, nd) \<and>
            (case execute_job (ex_job x) of
               Inl _ \<Rightarrow> True
             | Inr (q, result) \<Rightarrow> fst (finish_run (wnow s) (ex_key x) result (wnode s)) \<noteq> Inr ()))"

text \<open>The label of a run of the reaper names the jobs that it finds running for too long.\<close>

inductive worker_step :: "worker_state \<Rightarrow> label \<Rightarrow> worker_state \<Rightarrow> bool" where
  scan: "found s = [] \<Longrightarrow> \<not> reap_due s \<Longrightarrow> worker_step s Scan (s\<lparr>found := scan_pending (wnode s), reap_due := True\<rparr>)"
| claim: "found s = (key, job) # rest \<Longrightarrow> try_claim (wnow s) key job (wnode s) = (Inr True, nd) \<Longrightarrow>
    worker_step s (Claim key) (s\<lparr>wnode := nd, found := rest, pool := pool s @ [\<lparr>ex_key = key, ex_job = job, ex_phase = Submitted\<rparr>]\<rparr>)"
| skip: "found s = (key, job) # rest \<Longrightarrow> try_claim (wnow s) key job (wnode s) = (Inr False, nd) \<Longrightarrow>
    worker_step s (Skip key) (s\<lparr>wnode := nd, found := rest\<rparr>)"
| start: "pool s = ps @ x # qs \<Longrightarrow> ex_phase x = Submitted \<Longrightarrow> begin_run (ex_key x) (ex_job x) (wnode s) = (Inr (), nd) \<Longrightarrow>
    worker_step s (Begin (ex_key x)) (s\<lparr>wnode := nd, pool := ps @ x\<lparr>ex_phase := Executing\<rparr> # qs\<rparr>)"
| finish: "pool s = ps @ x # qs \<Longrightarrow> ex_phase x = Executing \<Longrightarrow> execute_job (ex_job x) = Inr (q, result) \<Longrightarrow>
    finish_run (wnow s) (ex_key x) result (wnode s) = (Inr (), nd) \<Longrightarrow>
    worker_step s (Finish (ex_key x)) (s\<lparr>wnode := nd, pool := ps @ qs\<rparr>)"
| fail: "pool s = ps @ x # qs \<Longrightarrow> ex_phase x = Executing \<Longrightarrow> execute_job (ex_job x) = Inl e \<Longrightarrow>
    next_retry (ex_key x) (wnode s) = (Inr (Some n), nd) \<Longrightarrow>
    worker_step s (Fail (ex_key x)) (s\<lparr>wnode := nd, pool := ps @ x\<lparr>ex_phase := Backing_off n (error_text e)\<rparr> # qs\<rparr>)"
| requeue: "pool s = ps @ x # qs \<Longrightarrow> ex_phase x = Backing_off n err \<Longrightarrow>
    requeue (ex_key x) n err (wnode s) = (Inr (), nd) \<Longrightarrow>
    worker_step s (Requeue (ex_key x)) (s\<lparr>wnode := nd, pool := ps @ qs\<rparr>)"
| give_up: "pool s = ps @ x # qs \<Longrightarrow> ex_phase x = Executing \<Longrightarrow> execute_job (ex_job x) = Inl e \<Longrightarrow>
    next_retry (ex_key x) (wnode s) = (Inr None, nd0) \<Longrightarrow> give_up_job (wnow s) (ex_key x) (error_text e) nd0 = (Inr (), nd) \<Longrightarrow>
    worker_step s (Give_up (ex_key x)) (s\<lparr>wnode := nd, pool := ps @ qs\<rparr>)"
| crash: "pool s = ps @ x # qs \<Longrightarrow> raises s x nd \<Longrightarrow>
    worker_step s (Crash (ex_key x)) (s\<lparr>wnode := nd, pool := ps @ qs\<rparr>)"
| claim_crash: "found s = (key, job) # rest \<Longrightarrow> try_claim (wnow s) key job (wnode s) = (Inl e, nd) \<Longrightarrow>
    worker_step s (Crash key) (s\<lparr>wnode := nd, found := [], reap_due := False\<rparr>)"
| tick: "0 \<le> q \<Longrightarrow> worker_step s Tick (s\<lparr>wnow := wnow s + q\<rparr>)"
| reap: "found s = [] \<Longrightarrow> reap_due s \<Longrightarrow> reap_timed_out_jobs (wnow s) (wnode s) = (r, nd) \<Longrightarrow>
    worker_step s (Reap (overdue_keys (wnow s) (wnode s))) (s\<lparr>wnode := nd, reap_due := False\<rparr>)"

inductive_cases worker_stepE: "worker_step s l s'"

inductive worker_run :: "worker_state \<Rightarrow> label list \<Rightarrow> worker_state \<Rightarrow> bool" where
  none: "worker_run s [] s"
| step: "worker_run s ls s' \<Longrightarrow> worker_step s' l s'' \<Longrightarrow> worker_run s (ls @ [l]) s''"

section \<open>What the sections do to the stored jobs\<close>

definition status_of :: "string \<Rightarrow> chord_node \<Rightarrow> json" where
  "status_of key nd = (case job_at key nd of None \<Rightarrow> JNull | Some d \<Rightarrow> dget d ''status'')"

definition set_job :: "string \<Rightarrow> jdict \<Rightarrow> chord_node \<Rightarrow> chord_node" where
  "set_job key d nd = nd\<lparr>data_store := dset key (JObj d) (data_store nd)\<rparr>"

lemma job_at_set: "job_at k (set_job key d nd) = (if k = key then Some d else job_at k nd)"
  by (simp add: job_at_def set_job_def map_of_dset)

lemma job_at_counters [simp]:
  "job_at k (nd\<lparr>jobs_completed := n\<rparr>) = job_at k nd" "job_at k (nd\<lparr>jobs_failed := n\<rparr>) = job_at k nd"
  by (simp_all add: job_at_def)

lemma run_store: "store_entry key d nd = (Inr (), set_job key d nd)"
  by (simp add: store_entry_def set_job_def act_simps)

text \<open>An update of a stored non-empty dictionary.\<close>

lemma run_update:
  assumes "job_at key nd = Some d" and "d \<noteq> []"
  shows "update_entry key f nd = (Inr (), set_job key (f d) nd)"
  using assms
  by (auto simp: update_entry_def entry_def job_at_def act_simps run_store split: option.splits json.splits)

text \<open>What a claim does: nothing, or it takes a pending job.\<close>

definition claimed_job :: "rat \<Rightarrow> chord_node \<Rightarrow> jdict \<Rightarrow> jdict" where
  "claimed_job now nd d = dset ''started_at'' (JFloat now) (dset ''claimed_by'' (JStr (address nd)) (dset ''status'' (JStr CLAIMED) d))"

lemma claim_run:
  assumes "try_claim now key job nd = (r, nd')"
  shows "nd' = nd \<and> r \<noteq> Inr True \<or>
    (\<exists>d. job_at key nd = Some d \<and> dget d ''status'' = JStr PENDING \<and> nd' = set_job key (claimed_job now nd d) nd \<and> r \<noteq> Inr False)"
  using assms
  by (auto simp: try_claim_def entry_def job_at_def claimed_job_def act_simps run_store
      split: option.splits json.splits sum.splits prod.splits if_splits)

lemma claimed_job_fields [simp]:
  "dget (claimed_job now nd d) ''status'' = JStr CLAIMED"
  "dget_or v (claimed_job now nd d) ''retry_count'' = dget_or v d ''retry_count''"
  by (simp_all add: claimed_job_def)

section \<open>A section touches only its own job\<close>

lemma keeps_store_entry [keeps_intro]: "k \<noteq> key \<Longrightarrow> keeps (\<lambda>nd. job_at k nd = j) (store_entry key d)"
  by (simp add: keeps_def run_store job_at_set)

lemma keeps_entry [keeps_intro]: "keeps P (entry key)"
  unfolding entry_def by (intro keeps_intro)

lemma keeps_update_entry [keeps_intro]: "k \<noteq> key \<Longrightarrow> keeps (\<lambda>nd. job_at k nd = j) (update_entry key f)"
  unfolding update_entry_def by (intro keeps_intro; auto intro!: keeps_intro split: json.splits)

lemma keeps_job_counters [keeps_intro]:
  "keeps (\<lambda>nd. job_at k nd = j) (modify (\<lambda>nd. nd\<lparr>jobs_completed := f nd\<rparr>))"
  "keeps (\<lambda>nd. job_at k nd = j) (modify (\<lambda>nd. nd\<lparr>jobs_failed := f nd\<rparr>))"
  by (rule keeps_modify, simp)+

lemma sections_keep:
  assumes "k \<noteq> key"
  shows "keeps (\<lambda>nd. job_at k nd = j) (begin_run key job)" "keeps (\<lambda>nd. job_at k nd = j) (finish_run now key result)"
    "keeps (\<lambda>nd. job_at k nd = j) (requeue key n err)" "keeps (\<lambda>nd. job_at k nd = j) (give_up_job now key err)"
    "keeps (\<lambda>nd. job_at k nd = j) (try_claim now key job)"
  unfolding begin_run_def finish_run_def requeue_def give_up_job_def try_claim_def using assms
  by (intro keeps_intro; auto intro!: keeps_intro split: json.splits)+

lemma next_retry_same: "next_retry key nd = (r, nd') \<Longrightarrow> nd' = nd"
  by (auto simp: next_retry_def entry_def act_simps split: option.splits json.splits if_splits sum.splits prod.splits)

lemma reap_keeps:
  assumes "\<forall>d. j = Some d \<longrightarrow> \<not> overdue now k d"
  shows "keeps (\<lambda>nd. job_at k nd = j) (reap_job now key)"
proof (cases "key = k")
  case True
  then show ?thesis
    using assms
    by (auto simp: keeps_def reap_job_def entry_def act_simps job_at_def overdue_def split: option.splits json.splits)
next
  case False
  then show ?thesis
    unfolding reap_job_def Let_def
    by (intro keeps_intro; auto intro!: keeps_intro split: json.splits option.splits)
qed

lemma reaper_keeps:
  assumes "reap_timed_out_jobs now nd = (r, nd')" and "k \<notin> set (overdue_keys now nd)"
  shows "job_at k nd' = job_at k nd"
proof -
  have "\<not> overdue now k d" if "job_at k nd = Some d" for d
  proof -
    have "k \<in> set (dkeys (data_store nd))" using that by (force simp: job_at_def dkeys_def dest: map_of_SomeD split: option.splits)
    then show ?thesis using assms(2) that by (simp add: overdue_keys_def)
  qed
  then have "keeps (\<lambda>n. job_at k n = job_at k nd) (reap_timed_out_jobs now)"
    unfolding reap_timed_out_jobs_def by (intro keeps_intro reap_keeps) simp
  from keeps_run [OF this refl assms(1)] show ?thesis .
qed

section \<open>What a step does to one job\<close>

text \<open>The key of the job that a step is about; a scan, the clock and the reaper are about no single job.\<close>

fun label_key :: "label \<Rightarrow> string option" where
  "label_key (Claim k) = Some k"
| "label_key (Skip k) = Some k"
| "label_key (Begin k) = Some k"
| "label_key (Finish k) = Some k"
| "label_key (Fail k) = Some k"
| "label_key (Requeue k) = Some k"
| "label_key (Give_up k) = Some k"
| "label_key (Crash k) = Some k"
| "label_key Scan = None"
| "label_key Tick = None"
| "label_key (Reap ks) = None"

definition reaps :: "string \<Rightarrow> label \<Rightarrow> bool" where
  "reaps k l \<longleftrightarrow> (case l of Reap ks \<Rightarrow> k \<in> set ks | _ \<Rightarrow> False)"

definition pool_of :: "string \<Rightarrow> worker_state \<Rightarrow> execution list" where
  "pool_of k s = filter (\<lambda>x. ex_key x = k) (pool s)"

lemma step_other:
  assumes "worker_step s l s'" and "label_key l \<noteq> Some k" and "\<not> reaps k l"
  shows "job_at k (wnode s') = job_at k (wnode s) \<and> pool_of k s' = pool_of k s"
  using assms(1)
proof cases
  case (give_up ps x qs e nd0 nd)
  have "nd0 = wnode s" by (rule next_retry_same [OF give_up(6)])
  then show ?thesis
    using give_up assms(2) keeps_run [OF sections_keep(4) refl give_up(7)] by (auto simp: pool_of_def)
next
  case (fail ps x qs e n nd)
  then show ?thesis using assms(2) next_retry_same [OF fail(6)] by (auto simp: pool_of_def)
next
  case (crash ps x qs nd)
  then have "k \<noteq> ex_key x" using assms(2) by auto
  then have "job_at k nd = job_at k (wnode s)"
    using crash(4) keeps_run [OF sections_keep(1) refl] keeps_run [OF sections_keep(3) refl] next_retry_same
    by (fastforce simp: raises_def split: phase.splits)
  then show ?thesis using crash \<open>k \<noteq> ex_key x\<close> by (auto simp: pool_of_def)
next
  case (reap r nd)
  then show ?thesis using assms(3) reaper_keeps [OF reap(5)] by (simp add: pool_of_def reaps_def)
next
  case (claim key job rest nd)
  then show ?thesis using assms(2) keeps_run [OF sections_keep(5) refl claim(4)] by (auto simp: pool_of_def)
next
  case (skip key job rest nd)
  then show ?thesis using assms(2) keeps_run [OF sections_keep(5) refl skip(4)] by (auto simp: pool_of_def)
next
  case (claim_crash key job rest e nd)
  then show ?thesis using assms(2) keeps_run [OF sections_keep(5) refl claim_crash(4)] by (auto simp: pool_of_def)
next
  case (start ps x qs nd)
  then show ?thesis using assms(2) keeps_run [OF sections_keep(1) refl start(5)] by (auto simp: pool_of_def)
next
  case (finish ps x qs q result nd)
  then show ?thesis using assms(2) keeps_run [OF sections_keep(2) refl finish(6)] by (auto simp: pool_of_def)
next
  case (requeue ps x qs n err nd)
  then show ?thesis using assms(2) keeps_run [OF sections_keep(3) refl requeue(5)] by (auto simp: pool_of_def)
qed (simp_all add: pool_of_def)

text \<open>A job that is done or has failed, and is not being executed, stays as it is, whatever the reaper does.\<close>

definition terminal :: "jdict \<Rightarrow> bool" where
  "terminal d \<longleftrightarrow> dget d ''status'' = JStr DONE \<or> dget d ''status'' = JStr FAILED"

lemma step_terminal:
  assumes step: "worker_step s l s'" and idle: "pool_of k s = []" and d: "job_at k (wnode s) = Some d" "terminal d"
  shows "job_at k (wnode s') = Some d \<and> pool_of k s' = []"
proof (cases "label_key l = Some k")
  case True
  have no: "ex_key x \<noteq> k" if "pool s = ps @ x # qs" for ps x qs using idle that by (auto simp: pool_of_def)
  have free: "dget d ''status'' \<noteq> JStr PENDING" using d(2) by (auto simp: terminal_def job_statuses)
  from step show ?thesis
  proof cases
    case (claim key job rest nd)
    then show ?thesis using True d(1) free claim_run [OF claim(4)] by auto
  next
    case (skip key job rest nd)
    then show ?thesis using True d(1) idle free claim_run [OF skip(4)] by (auto simp: pool_of_def)
  next
    case (claim_crash key job rest e nd)
    then show ?thesis using True d(1) idle free claim_run [OF claim_crash(4)] by (auto simp: pool_of_def)
  qed (use True no in auto)
next
  case False
  show ?thesis
  proof (cases "reaps k l")
    case True
    then obtain ks where "l = Reap ks" "k \<in> set ks" by (auto simp: reaps_def split: label.splits)
    with step have "k \<in> set (overdue_keys (wnow s) (wnode s))" by cases auto
    with d show ?thesis by (auto simp: overdue_keys_def overdue_def terminal_def job_statuses)
  qed (use step_other [OF step False] d idle in simp)
qed

lemma run_terminal:
  "worker_run s ls s' \<Longrightarrow> pool_of k s = [] \<Longrightarrow> job_at k (wnode s) = Some d \<Longrightarrow> terminal d \<Longrightarrow> job_at k (wnode s') = Some d \<and> pool_of k s' = []"
  by (induction rule: worker_run.induct) (auto dest: step_terminal)

section \<open>One execution of a job, as long as it does not time out\<close>

definition phase_status :: "phase \<Rightarrow> string" where
  "phase_status p = (case p of Submitted \<Rightarrow> CLAIMED | _ \<Rightarrow> RUNNING)"

definition single :: "string \<Rightarrow> worker_state \<Rightarrow> bool" where
  "single k s \<longleftrightarrow> pool_of k s = [] \<or>
     (\<exists>x d. pool_of k s = [x] \<and> job_at k (wnode s) = Some d \<and> dget d ''status'' = JStr (phase_status (ex_phase x)))"

text \<open>An execution of the job, in the pool, is the only one.\<close>

lemma singleE:
  assumes "single (ex_key x) s" and "pool s = ps @ x # qs"
  obtains d where "job_at (ex_key x) (wnode s) = Some d" "d \<noteq> []" "dget d ''status'' = JStr (phase_status (ex_phase x))"
    "filter (\<lambda>y. ex_key y = ex_key x) ps = []" "filter (\<lambda>y. ex_key y = ex_key x) qs = []" "pool_of (ex_key x) s = [x]"
proof -
  have "pool_of (ex_key x) s = filter (\<lambda>y. ex_key y = ex_key x) ps @ x # filter (\<lambda>y. ex_key y = ex_key x) qs"
    using assms(2) by (simp add: pool_of_def)
  with assms(1) obtain d where d: "job_at (ex_key x) (wnode s) = Some d" "dget d ''status'' = JStr (phase_status (ex_phase x))"
    and empty: "filter (\<lambda>y. ex_key y = ex_key x) ps = []" "filter (\<lambda>y. ex_key y = ex_key x) qs = []"
    unfolding single_def by (auto simp: append_eq_Cons_conv Cons_eq_append_conv)
  moreover have "d \<noteq> []" using d(2) by auto
  moreover have "pool_of (ex_key x) s = [x]" using assms(2) empty by (simp add: pool_of_def)
  ultimately show thesis by (intro that)
qed

lemma phase_not_pending [simp]: "phase_status p \<noteq> PENDING" "PENDING \<noteq> phase_status p"
  by (cases p, simp_all add: phase_status_def job_statuses)+

lemma pending_free:
  assumes "single k s" and "job_at k (wnode s) = Some d" and "dget d ''status'' = JStr PENDING"
  shows "pool_of k s = []"
  using assms by (auto simp: single_def)

text \<open>The sections of an execution, on its job.\<close>

lemma next_retry_run:
  assumes "job_at key nd = Some d" and "d \<noteq> []"
  shows "next_retry key nd = (chain (py_lt (dget_or (JInt 0) d ''retry_count'') (JInt MAX_JOB_RETRIES)) (\<lambda>more.
    if more then chain (py_add1 (dget_or (JInt 0) d ''retry_count'')) (\<lambda>n. Inr (Some n)) else Inr None), nd)"
  using assms
  by (auto simp: next_retry_def entry_def job_at_def act_simps chain_def split: option.splits json.splits sum.splits)

section \<open>The number of attempts\<close>

text \<open>The attempts that are left to a job with retry count \<open>n\<close>: one per retry, and one more while it is pending.\<close>

definition budget :: "int \<Rightarrow> json \<Rightarrow> execution list \<Rightarrow> nat" where
  "budget n status xs =
     (if status = JStr PENDING then Suc (nat (3 - n)) else if xs = [] then 0 else nat (3 - n))"

definition counted :: "string \<Rightarrow> int \<Rightarrow> worker_state \<Rightarrow> bool" where
  "counted k n s \<longleftrightarrow> (\<exists>d. job_at k (wnode s) = Some d \<and> dget_or (JInt 0) d ''retry_count'' = JInt n) \<and>
     (\<forall>x \<in> set (pool_of k s). \<forall>m e. ex_phase x = Backing_off m e \<longrightarrow> m = JInt (n + 1) \<and> n < 3)"

lemma counted_same:
  "job_at k (wnode s') = job_at k (wnode s) \<Longrightarrow> pool_of k s' = pool_of k s \<Longrightarrow> counted k n s' = counted k n s"
  by (simp add: counted_def)

lemma next_retry_count:
  assumes "job_at k nd = Some d" "d \<noteq> []" "dget_or (JInt 0) d ''retry_count'' = JInt n"
  shows "next_retry k nd = (Inr (if n < 3 then Some (JInt (n + 1)) else None), nd)"
  using next_retry_run [OF assms(1,2)] assms(3) by (simp add: py_lt_def MAX_JOB_RETRIES_def not_le)

text \<open>What one step does to the attempts that are left.\<close>

text \<open>The invariant of the runs that do not reap the job; every claim uses one of the attempts left.\<close>

definition has_left :: "nat \<Rightarrow> string \<Rightarrow> worker_state \<Rightarrow> bool" where
  "has_left b k s \<longleftrightarrow> single k s \<and> (\<exists>n. counted k n s \<and> budget n (status_of k (wnode s)) (pool_of k s) \<le> b)"

lemma has_left_same:
  "has_left b k s \<Longrightarrow> job_at k (wnode s') = job_at k (wnode s) \<Longrightarrow> pool_of k s' = pool_of k s \<Longrightarrow> has_left b k s'"
  by (simp add: has_left_def single_def counted_def status_of_def)

text \<open>The job after a step: it waits, it is being executed, or no execution of it is left.\<close>

lemma has_left_ended:
  assumes "pool_of k s = []" and "job_at k (wnode s) = Some d" and "dget_or (JInt 0) d ''retry_count'' = JInt n"
    and "dget d ''status'' = JStr PENDING \<Longrightarrow> Suc (nat (3 - n)) \<le> b"
  shows "has_left b k s"
  using assms by (auto simp: has_left_def single_def counted_def budget_def status_of_def)

lemma has_left_running:
  assumes "pool_of k s = [x]" and "job_at k (wnode s) = Some d" and "dget_or (JInt 0) d ''retry_count'' = JInt n"
    and "dget d ''status'' = JStr (phase_status (ex_phase x))" and "nat (3 - n) \<le> b"
    and "\<And>m e. ex_phase x = Backing_off m e \<Longrightarrow> m = JInt (n + 1) \<and> n < 3"
  shows "has_left b k s"
  using assms by (auto simp: has_left_def single_def counted_def budget_def status_of_def)

lemma has_left_pending:
  assumes "has_left b k s" and "job_at k (wnode s) = Some d" and "dget d ''status'' = JStr PENDING"
  obtains n where "pool_of k s = []" "dget_or (JInt 0) d ''retry_count'' = JInt n" "Suc (nat (3 - n)) \<le> b"
  using assms pending_free [of k s d] by (auto simp: has_left_def counted_def budget_def status_of_def)

lemma has_left_executed:
  assumes "has_left b (ex_key x) s" and "pool s = ps @ x # qs"
  obtains d n where "job_at (ex_key x) (wnode s) = Some d" "d \<noteq> []" "dget d ''status'' = JStr (phase_status (ex_phase x))"
    "dget_or (JInt 0) d ''retry_count'' = JInt n" "nat (3 - n) \<le> b"
    "\<And>m e. ex_phase x = Backing_off m e \<Longrightarrow> m = JInt (n + 1) \<and> n < 3"
    "\<And>nd. pool_of (ex_key x) (s\<lparr>wnode := nd, pool := ps @ qs\<rparr>) = []"
    "\<And>nd p. pool_of (ex_key x) (s\<lparr>wnode := nd, pool := ps @ x\<lparr>ex_phase := p\<rparr> # qs\<rparr>) = [x\<lparr>ex_phase := p\<rparr>]"
proof -
  obtain d where d: "job_at (ex_key x) (wnode s) = Some d" "d \<noteq> []" "dget d ''status'' = JStr (phase_status (ex_phase x))"
    "filter (\<lambda>y. ex_key y = ex_key x) ps = []" "filter (\<lambda>y. ex_key y = ex_key x) qs = []" "pool_of (ex_key x) s = [x]"
    by (rule singleE [OF _ assms(2)]) (use assms(1) in \<open>simp_all add: has_left_def\<close>)
  obtain n where n: "counted (ex_key x) n s" "budget n (status_of (ex_key x) (wnode s)) (pool_of (ex_key x) s) \<le> b"
    using assms(1) by (auto simp: has_left_def)
  have "dget_or (JInt 0) d ''retry_count'' = JInt n" using n(1) d(1) by (simp add: counted_def)
  moreover have "nat (3 - n) \<le> b" using n(2) d(1,3,6) by (simp add: budget_def status_of_def)
  moreover have "m = JInt (n + 1) \<and> n < 3" if "ex_phase x = Backing_off m e" for m e using n(1) d(6) that by (simp add: counted_def)
  ultimately show thesis using d by (intro that) (simp_all add: pool_of_def)
qed


text \<open>The sections of an execution.\<close>

lemma section_runs:
  assumes "job_at key nd = Some d" and "d \<noteq> []"
  shows "begin_run key job nd = (r1, nd1) \<Longrightarrow> nd1 = nd \<and> r1 \<noteq> Inr () \<or> nd1 = set_job key (dset ''status'' (JStr RUNNING) d) nd"
    "finish_run now key result nd = (r2, nd2) \<Longrightarrow> r2 = Inr () \<and>
      (\<exists>d'. job_at key nd2 = Some d' \<and> dget d' ''status'' = JStr DONE \<and>
        dget_or (JInt 0) d' ''retry_count'' = dget_or (JInt 0) d ''retry_count'')"
    "requeue key n err nd = (r3, nd3) \<Longrightarrow> r3 = Inr () \<and>
      (\<exists>d'. job_at key nd3 = Some d' \<and> dget d' ''status'' = JStr PENDING \<and> dget_or (JInt 0) d' ''retry_count'' = n)"
    "give_up_job now key err nd = (r4, nd4) \<Longrightarrow>
      (\<exists>d'. job_at key nd4 = Some d' \<and> dget d' ''status'' = JStr FAILED \<and>
        dget_or (JInt 0) d' ''retry_count'' = dget_or (JInt 0) d ''retry_count'')"
  using run_update [OF assms]
  by (auto simp: begin_run_def finish_run_def requeue_def give_up_job_def act_simps job_at_set split: sum.splits prod.splits)

lemma step_own:
  assumes step: "worker_step s l s'" and own: "label_key l = Some k" and left: "has_left b k s"
  shows "\<exists>b'. has_left b' k s' \<and> b' + (if l = Claim k then 1 else 0) \<le> b"
  using step
proof cases
  case (claim key job rest nd)
  then have key: "key = k" using own by simp
  obtain d where d: "job_at k (wnode s) = Some d" "dget d ''status'' = JStr PENDING"
    and nd: "nd = set_job k (claimed_job (wnow s) (wnode s) d) (wnode s)"
    using claim_run [OF claim(4)] key by auto
  obtain n where n: "pool_of k s = []" "dget_or (JInt 0) d ''retry_count'' = JInt n" "Suc (nat (3 - n)) \<le> b"
    by (rule has_left_pending [OF left d])
  have "has_left (b - 1) k s'"
    by (rule has_left_running [where x = "\<lparr>ex_key = k, ex_job = job, ex_phase = Submitted\<rparr>" and n = n
          and d = "claimed_job (wnow s) (wnode s) d"])
      (use n claim key in \<open>auto simp: pool_of_def nd job_at_set phase_status_def\<close>)
  then show ?thesis using n(3) by (intro exI [of _ "b - 1"]) simp
next
  case (skip key job rest nd)
  then have "has_left b k s'" using claim_run [OF skip(4)] by (intro has_left_same [OF left]) (auto simp: pool_of_def)
  then show ?thesis using skip by auto
next
  case (claim_crash key job rest e nd)
  then have key: "key = k" using own by simp
  consider "nd = wnode s" | d where "job_at k (wnode s) = Some d" "dget d ''status'' = JStr PENDING"
    "nd = set_job k (claimed_job (wnow s) (wnode s) d) (wnode s)"
    using claim_run [OF claim_crash(4)] key by auto
  then have "has_left b k s'"
  proof cases
    case 1
    then show ?thesis by (intro has_left_same [OF left]) (simp_all add: claim_crash pool_of_def)
  next
    case (2 d)
    obtain n where n: "pool_of k s = []" "dget_or (JInt 0) d ''retry_count'' = JInt n" by (rule has_left_pending [OF left 2(1,2)])
    show ?thesis
      by (rule has_left_ended [where n = n and d = "claimed_job (wnow s) (wnode s) d"]) (use n 2 claim_crash key in \<open>auto simp: pool_of_def job_at_set job_statuses\<close>)
  qed
  then show ?thesis using claim_crash by auto
next
  case (start ps x qs nd)
  then have x: "ex_key x = k" using own by simp
  obtain d n where e: "job_at k (wnode s) = Some d" "d \<noteq> []" "dget_or (JInt 0) d ''retry_count'' = JInt n" "nat (3 - n) \<le> b"
    "\<And>nd p. pool_of k (s\<lparr>wnode := nd, pool := ps @ x\<lparr>ex_phase := p\<rparr> # qs\<rparr>) = [x\<lparr>ex_phase := p\<rparr>]"
    by (rule has_left_executed [OF left [folded x] start(3), unfolded x]) blast
  have "nd = set_job k (dset ''status'' (JStr RUNNING) d) (wnode s)" using section_runs(1) [OF e(1,2)] start(5) x by auto
  then have "has_left b k s'" using e start by (intro has_left_running [where d = "dset ''status'' (JStr RUNNING) d"]) (auto simp: job_at_set phase_status_def)
  then show ?thesis using start by auto
next
  case (finish ps x qs q result nd)
  then have x: "ex_key x = k" using own by simp
  obtain d n where e: "job_at k (wnode s) = Some d" "d \<noteq> []" "dget_or (JInt 0) d ''retry_count'' = JInt n"
    "\<And>nd. pool_of k (s\<lparr>wnode := nd, pool := ps @ qs\<rparr>) = []"
    by (rule has_left_executed [OF left [folded x] finish(3), unfolded x]) blast
  from section_runs(2) [OF e(1,2)] finish(6) x obtain d' where "job_at k nd = Some d'" "dget d' ''status'' = JStr DONE"
    "dget_or (JInt 0) d' ''retry_count'' = JInt n" using e(3) by metis
  then have "has_left b k s'" using e(4) finish by (intro has_left_ended [of _ _ d' n]) (auto simp: job_statuses)
  then show ?thesis using finish by auto
next
  case (fail ps x qs e m nd)
  then have x: "ex_key x = k" using own by simp
  obtain d n where e: "job_at k (wnode s) = Some d" "d \<noteq> []" "dget d ''status'' = JStr (phase_status (ex_phase x))"
    "dget_or (JInt 0) d ''retry_count'' = JInt n" "nat (3 - n) \<le> b"
    "\<And>nd p. pool_of k (s\<lparr>wnode := nd, pool := ps @ x\<lparr>ex_phase := p\<rparr> # qs\<rparr>) = [x\<lparr>ex_phase := p\<rparr>]"
    by (rule has_left_executed [OF left [folded x] fail(3), unfolded x]) blast
  from next_retry_count [OF e(1,2,4)] fail(6) x have retry: "nd = wnode s" "m = JInt (n + 1)" "n < 3"
    by (auto split: if_splits)
  have s': "s' = s\<lparr>wnode := nd, pool := ps @ x\<lparr>ex_phase := Backing_off m (error_text e)\<rparr> # qs\<rparr>" using fail by simp
  have "has_left b k s'" unfolding s'
    by (rule has_left_running [OF e(6) _ e(4) _ e(5)]) (use e(1,3) fail(4) retry in \<open>auto simp: phase_status_def\<close>)
  then show ?thesis using fail by auto
next
  case (requeue ps x qs m err nd)
  then have x: "ex_key x = k" using own by simp
  obtain d n where e: "job_at k (wnode s) = Some d" "d \<noteq> []" "nat (3 - n) \<le> b"
    "\<And>m e. ex_phase x = Backing_off m e \<Longrightarrow> m = JInt (n + 1) \<and> n < 3"
    "\<And>nd. pool_of k (s\<lparr>wnode := nd, pool := ps @ qs\<rparr>) = []"
    by (rule has_left_executed [OF left [folded x] requeue(3), unfolded x]) blast
  have m: "m = JInt (n + 1)" "n < 3" using e(4) requeue(4) by auto
  from section_runs(3) [OF e(1,2)] requeue(5) x m(1) obtain d' where "job_at k nd = Some d'"
    "dget_or (JInt 0) d' ''retry_count'' = JInt (n + 1)" by blast
  then have "has_left b k s'" using m(2) e requeue by (intro has_left_ended [of _ _ d' "n + 1"]) auto
  then show ?thesis using requeue by auto
next
  case (give_up ps x qs e nd0 nd)
  then have x: "ex_key x = k" using own by simp
  obtain d n where e: "job_at k (wnode s) = Some d" "d \<noteq> []" "dget_or (JInt 0) d ''retry_count'' = JInt n"
    "\<And>nd. pool_of k (s\<lparr>wnode := nd, pool := ps @ qs\<rparr>) = []"
    by (rule has_left_executed [OF left [folded x] give_up(3), unfolded x]) blast
  have "nd0 = wnode s" by (rule next_retry_same [OF give_up(6)])
  with section_runs(4) [OF e(1,2)] give_up(7) x obtain d' where "job_at k nd = Some d'" "dget d' ''status'' = JStr FAILED"
    "dget_or (JInt 0) d' ''retry_count'' = JInt n" using e(3) by metis
  then have "has_left b k s'" using e(4) give_up by (intro has_left_ended [of _ _ d' n]) (auto simp: job_statuses)
  then show ?thesis using give_up by auto
next
  case (crash ps x qs nd)
  then have x: "ex_key x = k" using own by simp
  obtain d n where e: "job_at k (wnode s) = Some d" "d \<noteq> []" "dget d ''status'' = JStr (phase_status (ex_phase x))"
    "dget_or (JInt 0) d ''retry_count'' = JInt n"
    "\<And>nd. pool_of k (s\<lparr>wnode := nd, pool := ps @ qs\<rparr>) = []"
    by (rule has_left_executed [OF left [folded x] crash(3), unfolded x]) blast
  have "job_at k nd = Some d \<or> job_at k nd = Some (dset ''status'' (JStr RUNNING) d)"
    using crash(4) section_runs [OF e(1,2)] next_retry_same e(1) unfolding raises_def x
    by (fastforce simp: job_at_set split: phase.splits)
  moreover have "RUNNING \<noteq> PENDING" by (simp add: job_statuses)
  ultimately obtain d' where "job_at k nd = Some d'" "dget_or (JInt 0) d' ''retry_count'' = JInt n" "dget d' ''status'' \<noteq> JStr PENDING"
    using e(3,4) by auto
  then have "has_left b k s'" using e(5) crash by (intro has_left_ended [of _ _ d' n]) auto
  then show ?thesis using crash by auto
qed (use own in auto)


lemma run_has_left:
  "worker_run s ls s' \<Longrightarrow> has_left b k s \<Longrightarrow> \<forall>l \<in> set ls. \<not> reaps k l \<Longrightarrow>
    \<exists>b'. has_left b' k s' \<and> b' + count_list ls (Claim k) \<le> b"
proof (induction rule: worker_run.induct)
  case (none s)
  then show ?case by auto
next
  case (step s ls s' l s'')
  then obtain b' where b': "has_left b' k s'" "b' + count_list ls (Claim k) \<le> b" by auto
  show ?case
  proof (cases "label_key l = Some k")
    case True
    from step_own [OF step.hyps(2) True b'(1)] b'(2) show ?thesis by fastforce
  next
    case False
    moreover have "\<not> reaps k l" using step.prems(2) by simp
    ultimately have "has_left b' k s''" using step_other [OF step.hyps(2)] has_left_same [OF b'(1)] by blast
    moreover have "l \<noteq> Claim k" using False by auto
    ultimately show ?thesis using b'(2) by auto
  qed
qed

section \<open>A job that times out\<close>

definition reaped_job :: "json \<Rightarrow> jdict \<Rightarrow> jdict" where
  "reaped_job n d = dset ''error'' (JStr (''timed out after 120s (retry '' @ show_value n @ ''/3)''))
     (dset ''started_at'' JNull (dset ''retry_count'' n (dset ''status'' (JStr PENDING) d)))"

text \<open>The only job of a node that waits or runs.\<close>

definition alone :: "string \<Rightarrow> chord_node \<Rightarrow> bool" where
  "alone k nd \<longleftrightarrow> wf_dict (data_store nd) \<and>
     (\<forall>k' d. k' \<noteq> k \<longrightarrow> job_at k' nd = Some d \<longrightarrow> dget d ''status'' \<notin> {JStr PENDING, JStr RUNNING})"

lemma filter_key:
  "wf_dict d \<Longrightarrow> map_of d k = Some v \<Longrightarrow> (\<And>i. i \<in> set d \<Longrightarrow> P i \<longleftrightarrow> fst i = k) \<Longrightarrow> filter P d = [(k, v)]"
proof (induction d)
  case (Cons i d)
  have other: "fst j \<noteq> fst i" if "j \<in> set d" for j using Cons.prems(1) that by (metis distinct.simps(2) dkeys_def image_eqI list.simps(9) list.set_map wf_dict_def)
  have wf: "wf_dict d" using Cons.prems(1) by (simp add: wf_dict_def dkeys_def)
  show ?case
  proof (cases "fst i = k")
    case True
    then have "filter P d = []" using Cons.prems(3) other by (auto simp: filter_empty_conv)
    with True Cons.prems show ?thesis by (cases i) simp
  next
    case False
    with Cons.IH [OF wf] Cons.prems(2,3) show ?thesis by (cases i) simp
  qed
qed simp

lemma alone_set: "alone k nd \<Longrightarrow> alone k (set_job k d nd)"
  by (simp add: alone_def job_at_set) (simp add: set_job_def)

lemma scan_alone:
  assumes "alone k nd" and "job_at k nd = Some d" and "dget d ''status'' = JStr PENDING" and "startswith k ''job:''"
  shows "scan_pending nd = [(k, d)]"
proof -
  have k: "map_of (data_store nd) k = Some (JObj d)" using assms(2) by (auto simp: job_at_def split: option.splits json.splits)
  have wf: "wf_dict (data_store nd)" using assms(1) by (simp add: alone_def)
  have "(case i of (k', v) \<Rightarrow> startswith k' ''job:'' \<and> is_dict v \<and> dget (dict_of v) ''status'' = JStr PENDING) \<longleftrightarrow> fst i = k"
    if "i \<in> set (data_store nd)" for i
  proof -
    obtain k' v where i: "i = (k', v)" by (cases i)
    then have "map_of (data_store nd) k' = Some v" using that wf by (simp add: wf_dict_def dkeys_def)
    then show ?thesis using assms k by (cases v) (auto simp: i alone_def job_at_def)
  qed
  from filter_key [OF wf k this] show ?thesis by (simp add: scan_pending_def)
qed

lemma reap_quiet:
  assumes "\<And>d. job_at key nd = Some d \<Longrightarrow> dget d ''status'' \<noteq> JStr RUNNING"
  shows "reap_job now key nd = (Inr (), nd)"
  using assms by (auto simp: reap_job_def entry_def act_simps job_at_def split: option.splits json.splits)

lemma reap_overdue:
  assumes "job_at k nd = Some d" and "overdue now k d" and "dget_or (JInt 0) d ''retry_count'' = JInt n" and "n < 3"
  shows "reap_job now k nd = (Inr (), set_job k (reaped_job (JInt (n + 1)) d) nd)"
  using assms
  by (auto simp: reap_job_def entry_def act_simps job_at_def overdue_def run_store reaped_job_def py_lt_def MAX_JOB_RETRIES_def
      split: option.splits json.splits)

lemma reap_alone:
  assumes al: "alone k nd" and d: "job_at k nd = Some d" "overdue now k d"
    and n: "dget_or (JInt 0) d ''retry_count'' = JInt n" "n < 3"
  shows "reap_timed_out_jobs now nd = (Inr (), set_job k (reaped_job (JInt (n + 1)) d) nd)" "overdue_keys now nd = [k]"
proof -
  have quiet: "for_each ks (\<lambda>k _. reap_job now k) () m = (Inr (), m)"
    if "\<forall>k' \<in> set ks. \<forall>d. job_at k' m = Some d \<longrightarrow> dget d ''status'' \<noteq> JStr RUNNING" for ks m
    using that by (induction ks) (simp_all add: act_simps reap_quiet)
  have "k \<in> set (dkeys (data_store nd))" using d(1) by (force simp: job_at_def dkeys_def dest: map_of_SomeD split: option.splits)
  then obtain as bs where keys: "dkeys (data_store nd) = as @ k # bs" by (auto simp: in_set_conv_decomp)
  moreover have "distinct (dkeys (data_store nd))" using al by (simp add: alone_def wf_dict_def)
  ultimately have other: "k \<notin> set as" "k \<notin> set bs" by auto
  let ?nd = "set_job k (reaped_job (JInt (n + 1)) d) nd"
  have still: "\<forall>k' \<in> set ks. \<forall>d. job_at k' m = Some d \<longrightarrow> dget d ''status'' \<noteq> JStr RUNNING"
    if "k \<notin> set ks" "m = nd \<or> m = ?nd" for ks m
    using that al by (auto simp: alone_def job_at_set split: if_splits)
  have "for_each (as @ k # bs) (\<lambda>k _. reap_job now k) () nd = (Inr (), ?nd)"
  proof -
    have split: "for_each (xs @ ys) (\<lambda>k _. reap_job now k) () m = for_each ys (\<lambda>k _. reap_job now k) () m'"
      if "for_each xs (\<lambda>k _. reap_job now k) () m = (Inr (), m')" for xs ys m m'
      using that by (induction xs arbitrary: m) (auto simp: act_simps split: prod.splits sum.splits)
    show ?thesis
      using split [OF quiet [OF still [OF other(1)]], of nd "k # bs"] reap_overdue [OF d n] quiet [OF still [OF other(2)]]
      by (simp add: act_simps)
  qed
  then show "reap_timed_out_jobs now nd = (Inr (), ?nd)" by (simp add: reap_timed_out_jobs_def act_simps keys)
  have no: "\<not> (case job_at k' nd of None \<Rightarrow> False | Some d \<Rightarrow> overdue now k' d)" if "k' \<noteq> k" for k'
    using al that by (auto simp: alone_def overdue_def split: option.splits)
  have "filter (\<lambda>k. case job_at k nd of None \<Rightarrow> False | Some d \<Rightarrow> overdue now k d) ks = []" if "k \<notin> set ks" for ks
    using that no by (force simp: filter_empty_conv)
  then show "overdue_keys now nd = [k]" using other d by (simp add: overdue_keys_def keys)
qed


text \<open>
  From the reaper on: the job waits again although its execution \<open>x\<close> goes on, it is claimed and
  started once more, and both executions finish.
\<close>

lemma run_Cons: "worker_step s l s' \<Longrightarrow> worker_run s' ls s'' \<Longrightarrow> worker_run s (l # ls) s''"
proof (induction ls arbitrary: s'' rule: rev_induct)
  case Nil
  then have "s'' = s'" by (auto elim: worker_run.cases)
  then show ?case using worker_run.step [OF worker_run.none Nil.prems(1)] by simp
next
  case (snoc l' ls)
  from snoc.prems(2) obtain t where t: "worker_run s' ls t" "worker_step t l' s''" by (auto elim: worker_run.cases)
  have "worker_run s (l # ls) t" using snoc.IH [OF snoc.prems(1) t(1)] .
  from worker_run.step [OF this t(2)] show ?case by simp
qed

lemma step_eq: "worker_step s l' s'' \<Longrightarrow> l' = l \<Longrightarrow> s'' = s' \<Longrightarrow> worker_step s l s'"
  by simp

lemma dset_full [simp]: "dset k v d \<noteq> []"
  by (cases d) auto

lemma set_job_twice [simp]: "set_job k d (set_job k d' nd) = set_job k d nd"
  by (simp add: set_job_def update_Some_unfold)

lemma try_claim_ok:
  assumes "job_at k nd = Some d" and "dget d ''status'' = JStr PENDING" and "short_id k job = Inr ()"
  shows "try_claim now k job nd = (Inr True, set_job k (claimed_job now nd d) nd)"
  using assms by (auto simp: try_claim_def entry_def job_at_def claimed_job_def act_simps run_store split: option.splits json.splits)

lemma begin_run_ok:
  "job_at k nd = Some d \<Longrightarrow> d \<noteq> [] \<Longrightarrow> short_id k job = Inr () \<Longrightarrow> begin_run k job nd = (Inr (), set_job k (dset ''status'' (JStr RUNNING) d) nd)"
  by (simp add: begin_run_def act_simps run_update)

lemma finish_run_ok:
  assumes "job_at k nd = Some d" and "d \<noteq> []"
  obtains nd' d' where "finish_run now k result nd = (Inr (), nd')" "job_at k nd' = Some d'" "dget d' ''status'' = JStr DONE" "d' \<noteq> []"
    "jobs_completed nd' = jobs_completed nd + 1"
proof -
  let ?d = "dset ''result'' result (dset ''finished_at'' (JFloat now) (dset ''status'' (JStr DONE) d))"
  have "dget ?d ''status'' = JStr DONE" by simp
  moreover have "?d \<noteq> []" by simp
  ultimately show thesis
    by (intro that [of "(set_job k ?d nd)\<lparr>jobs_completed := jobs_completed nd + 1\<rparr>" ?d])
      (simp_all add: finish_run_def act_simps run_update [OF assms] job_at_set, simp_all add: set_job_def)
qed


section \<open>A concrete schedule\<close>

text \<open>A worker with one job done and another one pending, and a schedule that runs the second, reaper included.\<close>

definition demo_host :: chord_node where
  "demo_host = init_node ''h:1'' (Some 7) False False Missing"

definition done_job :: jdict where
  "done_job = dset ''result'' (JInt 1) (dset ''status'' (JStr DONE) (make_job 1 ''a'' (JStr ''echo'') (JObj []) JNull))"

definition echo_job :: jdict where
  "echo_job = make_job 2 ''b'' (JStr ''echo'') (JObj [(''message'', JStr ''hi'')]) JNull"

definition demo_worker :: "jdict \<Rightarrow> bool \<Rightarrow> rat \<Rightarrow> (string \<times> jdict) list \<Rightarrow> execution list \<Rightarrow> worker_state" where
  "demo_worker b due now todo xs =
     \<lparr>wnode = demo_host\<lparr>data_store := [(''job:a'', JObj done_job), (''job:b'', JObj b)]\<rparr>, wnow = now, found = todo, reap_due = due, pool = xs\<rparr>"

definition claimed_echo :: jdict where
  "claimed_echo = claimed_job 5 demo_host echo_job"

lemmas section_defs = try_claim_def begin_run_def finish_run_def entry_def store_entry_def update_entry_def short_id_def
  act_simps claimed_job_def scan_pending_def dget_or_def py_or_def

lemma demo_run:
  "worker_run (demo_worker echo_job False 5 [] []) [Scan, Claim ''job:b'', Begin ''job:b'', Reap []]
     (demo_worker (dset ''status'' (JStr RUNNING) claimed_echo) False 5 []
       [\<lparr>ex_key = ''job:b'', ex_job = echo_job, ex_phase = Executing\<rparr>])"
proof -
  have 1: "worker_step (demo_worker echo_job False 5 [] []) Scan (demo_worker echo_job True 5 [(''job:b'', echo_job)] [])"
    by (rule step_eq [OF worker_step.scan])
      (simp_all add: demo_worker_def section_defs done_job_def echo_job_def make_job_def job_statuses)
  have 2: "worker_step (demo_worker echo_job True 5 [(''job:b'', echo_job)] []) (Claim ''job:b'')
      (demo_worker claimed_echo True 5 [] [\<lparr>ex_key = ''job:b'', ex_job = echo_job, ex_phase = Submitted\<rparr>])"
    by (rule step_eq [OF worker_step.claim])
      (auto simp: demo_worker_def section_defs claimed_echo_def echo_job_def make_job_def job_statuses)
  have 3: "worker_step (demo_worker claimed_echo True 5 [] [\<lparr>ex_key = ''job:b'', ex_job = echo_job, ex_phase = Submitted\<rparr>])
      (Begin ''job:b'') (demo_worker (dset ''status'' (JStr RUNNING) claimed_echo) True 5 []
       [\<lparr>ex_key = ''job:b'', ex_job = echo_job, ex_phase = Executing\<rparr>])"
    by (rule step_eq [OF worker_step.start [of _ "[]" _ "[]"]])
      (auto simp: demo_worker_def section_defs claimed_echo_def echo_job_def make_job_def job_statuses)
  let ?s = "demo_worker (dset ''status'' (JStr RUNNING) claimed_echo) True 5 []
    [\<lparr>ex_key = ''job:b'', ex_job = echo_job, ex_phase = Executing\<rparr>]"
  have 4: "worker_step ?s (Reap []) (demo_worker (dset ''status'' (JStr RUNNING) claimed_echo) False 5 []
       [\<lparr>ex_key = ''job:b'', ex_job = echo_job, ex_phase = Executing\<rparr>])"
    by (rule step_eq [OF worker_step.reap [where r = "Inr ()" and nd = "wnode ?s"]])
      (simp_all add: demo_worker_def section_defs claimed_echo_def echo_job_def done_job_def make_job_def job_statuses
        reap_timed_out_jobs_def reap_job_def dkeys_def JOB_TIMEOUT_def overdue_keys_def overdue_def job_at_def)
  show ?thesis by (rule run_Cons [OF 1 run_Cons [OF 2 run_Cons [OF 3 run_Cons [OF 4 worker_run.none]]]])
qed

section \<open>Properties\<close>

text \<open>
  C26. A job that is done or has failed, and of which no execution is left in the pool, is never
  touched again: along any schedule of the worker, the reaper, other jobs that time out and
  sections that raise included, its record stays what it is, result and error included.
\<close>

theorem job_final:
  assumes "worker_run s ls s'" and "pool_of k s = []"
    and "job_at k (wnode s) = Some d" and "dget d ''status'' = JStr DONE \<or> dget d ''status'' = JStr FAILED"
  shows "job_at k (wnode s') = Some d"
  using run_terminal [OF assms(1-3)] assms(4) by (simp add: terminal_def)

lemma job_final_witness:
  "job_at ''job:a'' (wnode (demo_worker (dset ''status'' (JStr RUNNING) claimed_echo) False 5 []
       [\<lparr>ex_key = ''job:b'', ex_job = echo_job, ex_phase = Executing\<rparr>])) = Some done_job"
  by (rule job_final [OF demo_run]) (simp_all add: pool_of_def demo_worker_def job_at_def done_job_def)

text \<open>
  C27. Whatever the schedule of the worker, and whichever of its sections raise, a job that the
  reaper never finds running for too long is claimed at most four times: once, and once for each
  of the three retries. The reaper runs as the code has it, and other jobs may time out.
\<close>

theorem job_attempts_bounded:
  assumes "worker_run s ls s'" and "pool_of k s = []" and "\<And>ks. Reap ks \<in> set ls \<Longrightarrow> k \<notin> set ks"
    and "job_at k (wnode s) = Some d" and "dget_or (JInt 0) d ''retry_count'' = JInt n" and "0 \<le> n"
  shows "count_list ls (Claim k) \<le> 4"
proof -
  have "has_left 4 k s" using assms(6) by (intro has_left_ended [OF assms(2,4,5)]) simp
  moreover have "\<forall>l \<in> set ls. \<not> reaps k l" using assms(3) by (auto simp: reaps_def split: label.splits)
  ultimately show ?thesis using run_has_left [OF assms(1)] by fastforce
qed

lemma job_attempts_bounded_witness:
  "count_list [Scan, Claim ''job:b'', Begin ''job:b'', Reap []] (Claim ''job:b'') \<le> 4"
  by (rule job_attempts_bounded [OF demo_run, where d = echo_job and n = 0])
    (auto simp: pool_of_def demo_worker_def job_at_def echo_job_def make_job_def section_defs)

text \<open>
  C28. A job that has run longer than the limit, on a node where no other job waits or runs, is
  queued again by the reaper while its execution goes on, as long as it has retries left. When the
  job is one that executes without an exception, there is a schedule in which the worker claims
  and starts it a second time, both executions finish, and the one job is counted as completed
  twice.
\<close>

theorem timed_out_twice:
  assumes x: "x \<in> set (pool s)" "ex_phase x = Executing" "execute_job (ex_job x) = Inr (q, v)"
    and d: "job_at (ex_key x) (wnode s) = Some d" "overdue (wnow s) (ex_key x) d"
    and again: "execute_job d = Inr (q', v')" "short_id (ex_key x) d = Inr ()"
    and n: "dget_or (JInt 0) d ''retry_count'' = JInt n" "n < 3"
    and alone: "alone (ex_key x) (wnode s)" and turn: "found s = []" "reap_due s"
  shows "\<exists>s' d'. worker_run s [Reap [ex_key x], Scan, Claim (ex_key x), Begin (ex_key x), Finish (ex_key x), Finish (ex_key x)] s' \<and>
    jobs_completed (wnode s') = jobs_completed (wnode s) + 2 \<and>
    job_at (ex_key x) (wnode s') = Some d' \<and> dget d' ''status'' = JStr DONE"
proof -
  let ?k = "ex_key x" and ?nd = "wnode s" and ?now = "wnow s"
  obtain ps qs where pool: "pool s = ps @ x # qs" using x(1) by (auto simp: in_set_conv_decomp)
  let ?d1 = "reaped_job (JInt (n + 1)) d"
  let ?n1 = "set_job ?k ?d1 ?nd"
  let ?d2 = "claimed_job ?now ?n1 ?d1"
  let ?n2 = "set_job ?k ?d2 ?nd"
  let ?d3 = "dset ''status'' (JStr RUNNING) ?d2"
  let ?n3 = "set_job ?k ?d3 ?nd"
  let ?y = "\<lparr>ex_key = ?k, ex_job = ?d1, ex_phase = Submitted\<rparr>"
  have d1: "dget ?d1 ''status'' = JStr PENDING" "execute_job ?d1 = Inr (q', v')" "short_id ?k ?d1 = Inr ()"
    using again by (simp_all add: reaped_job_def execute_job_def short_id_def)
  have d2: "?d2 \<noteq> []" and d3: "?d3 \<noteq> []" by (simp_all add: claimed_job_def)
  obtain n4 d4 where f4: "finish_run ?now ?k v ?n3 = (Inr (), n4)" "job_at ?k n4 = Some d4" "d4 \<noteq> []"
    "jobs_completed n4 = jobs_completed ?n3 + 1"
    by (rule finish_run_ok [of ?k ?n3 ?d3]) (use d3 in \<open>simp_all add: job_at_set\<close>)
  obtain n5 d5 where f5: "finish_run ?now ?k v' n4 = (Inr (), n5)" "job_at ?k n5 = Some d5" "dget d5 ''status'' = JStr DONE"
    "jobs_completed n5 = jobs_completed n4 + 1"
    by (rule finish_run_ok [OF f4(2,3)])
  have 1: "worker_step s (Reap [?k]) (s\<lparr>wnode := ?n1, reap_due := False\<rparr>)" (is "worker_step _ _ ?s1")
    using turn reap_alone [OF alone d n] by (intro step_eq [OF worker_step.reap]) simp_all
  have 2: "worker_step ?s1 Scan (?s1\<lparr>found := [(?k, ?d1)], reap_due := True\<rparr>)" (is "worker_step _ _ ?s2")
    using turn(1) scan_alone [OF alone_set [OF alone] _ d1(1)] d(2)
    by (intro step_eq [OF worker_step.scan]) (simp_all add: job_at_set overdue_def)
  have 3: "worker_step ?s2 (Claim ?k) (?s2\<lparr>wnode := ?n2, found := [], pool := pool s @ [?y]\<rparr>)" (is "worker_step _ _ ?s3")
    using try_claim_ok [of ?k ?n1 ?d1 ?d1 ?now] d1 by (intro step_eq [OF worker_step.claim]) (simp_all add: job_at_set)
  have 4: "worker_step ?s3 (Begin ?k) (?s3\<lparr>wnode := ?n3, pool := pool s @ [?y\<lparr>ex_phase := Executing\<rparr>]\<rparr>)" (is "worker_step _ _ ?s4")
    using begin_run_ok [of ?k ?n2 ?d2 ?d1] d1 d2
    by (intro step_eq [OF worker_step.start [of _ "pool s" ?y "[]"]]) (simp_all add: job_at_set)
  have 5: "worker_step ?s4 (Finish ?k) (?s4\<lparr>wnode := n4, pool := ps @ qs @ [?y\<lparr>ex_phase := Executing\<rparr>]\<rparr>)" (is "worker_step _ _ ?s5")
    using x(2,3) pool f4(1)
    by (intro step_eq [OF worker_step.finish [of _ ps x "qs @ [?y\<lparr>ex_phase := Executing\<rparr>]"]]) simp_all
  have 6: "worker_step ?s5 (Finish ?k) (?s5\<lparr>wnode := n5, pool := ps @ qs\<rparr>)" (is "worker_step _ _ ?s6")
    using d1(2) f5(1)
    by (intro step_eq [OF worker_step.finish [of _ "ps @ qs" "?y\<lparr>ex_phase := Executing\<rparr>" "[]"]]) simp_all
  have "worker_run s [Reap [?k], Scan, Claim ?k, Begin ?k, Finish ?k, Finish ?k] ?s6"
    by (intro run_Cons [OF 1] run_Cons [OF 2] run_Cons [OF 3] run_Cons [OF 4] run_Cons [OF 5] run_Cons [OF 6] worker_run.none)
  moreover have "jobs_completed (wnode ?s6) = jobs_completed ?nd + 2" using f4(4) f5(4) by (simp add: set_job_def)
  ultimately show ?thesis using f5(2,3) by (intro exI [of _ ?s6] exI [of _ d5]) simp
qed

text \<open>A job that has slept for 126 seconds of 130.\<close>

definition slow_job :: jdict where
  "slow_job = dset ''status'' (JStr RUNNING)
     (claimed_job 5 demo_host (make_job 1 ''c'' (JStr ''sleep'') (JObj [(''seconds'', JInt 130)]) JNull))"

definition slow_worker :: worker_state where
  "slow_worker = \<lparr>wnode = demo_host\<lparr>data_store := [(''job:c'', JObj slow_job)]\<rparr>, wnow = 131, found = [], reap_due = True,
     pool = [\<lparr>ex_key = ''job:c'', ex_job = slow_job, ex_phase = Executing\<rparr>]\<rparr>"

lemma timed_out_twice_witness:
  "\<exists>s' d'. worker_run slow_worker
      [Reap [''job:c''], Scan, Claim ''job:c'', Begin ''job:c'', Finish ''job:c'', Finish ''job:c''] s' \<and>
     jobs_completed (wnode s') = jobs_completed (wnode slow_worker) + 2 \<and>
     job_at ''job:c'' (wnode s') = Some d' \<and> dget d' ''status'' = JStr DONE"
proof -
  let ?x = "\<lparr>ex_key = ''job:c'', ex_job = slow_job, ex_phase = Executing\<rparr>"
  have "execute_job slow_job = Inr (130, JObj [(''slept'', JFloat 130)])"
    by (simp add: execute_job_def slow_job_def make_job_def claimed_job_def dget_or_def payload_get_def py_float_def Let_def)
  moreover have "overdue 131 ''job:c'' slow_job" "short_id ''job:c'' slow_job = Inr ()"
    "dget_or (JInt 0) slow_job ''retry_count'' = JInt 0"
    by (simp_all add: overdue_def short_id_def slow_job_def make_job_def claimed_job_def dget_or_def py_or_def JOB_TIMEOUT_def)
  moreover have "job_at ''job:c'' (wnode slow_worker) = Some slow_job" "alone ''job:c'' (wnode slow_worker)"
    by (auto simp: slow_worker_def job_at_def alone_def wf_dict_def dkeys_def)
  ultimately show ?thesis
    using timed_out_twice [of ?x slow_worker _ _ slow_job] by (simp add: slow_worker_def)
qed

end
