(* ===== verification/Agents.thy ===== *)
theory Agents
  imports Node Schema
begin

text \<open>
  \<open>chord/agent.py\<close>: where a job is placed, on which nodes its copies go, and which nodes take
  over the jobs of a failed one. Each agent asks a hosted language model when one is configured
  and falls back on a heuristic when the call fails. The model is a parameter: \<open>None\<close> stands
  for no client (or a strategy other than \<open>llm\<close>), otherwise it maps what the prompt shows of
  the request to an answer or an exception. (The theory DecisionLog has the call itself and the log of decisions.)
\<close>

section \<open>Load\<close>

text \<open>The sort key \<open>(m["queue_depth"], m["jobs_failed"])\<close>, ordered as Python orders tuples.\<close>

datatype load = Load (queued: int) (failures: int)

instantiation load :: linorder
begin

definition less_eq_load :: "load \<Rightarrow> load \<Rightarrow> bool" where
  "less_eq_load a b \<longleftrightarrow> queued a < queued b \<or> queued a = queued b \<and> failures a \<le> failures b"

definition less_load :: "load \<Rightarrow> load \<Rightarrow> bool" where
  "less_load a b \<longleftrightarrow> queued a < queued b \<or> queued a = queued b \<and> failures a < failures b"

instance
  by standard (auto simp: less_eq_load_def less_load_def load.expand)

end

definition load_key :: "node_metrics \<Rightarrow> load" where
  "load_key m = Load (m_queue_depth m) (m_jobs_failed m)"

section \<open>Placement\<close>

text \<open>\<open>min(metrics, key=..)\<close>: the first of the least loaded.\<close>

fun min_load :: "node_metrics \<Rightarrow> node_metrics list \<Rightarrow> node_metrics" where
  "min_load best [] = best"
| "min_load best (m # ms) = min_load (if load_key m < load_key best then m else best) ms"

record placement =
  pl_node_id :: int
  pl_reasoning :: string

definition placement_heuristic :: "node_metrics list \<Rightarrow> placement" where
  "placement_heuristic ms =
     (let best = min_load (hd ms) (tl ms) in
      \<lparr>pl_node_id = m_node_id best,
       pl_reasoning = ''Lowest queue_depth='' @ show_int (m_queue_depth best) @ '' on node '' @ show_int (m_node_id best)\<rparr>)"

text \<open>An agent: the answer of the language model, replaced by the heuristic's when the call raises.\<close>

definition consult :: "(exn + 'a) option \<Rightarrow> 'a \<Rightarrow> 'a" where
  "consult answer heuristic = (case answer of Some (Inr a) \<Rightarrow> a | _ \<Rightarrow> heuristic)"

definition select_placement ::
  "(jdict \<Rightarrow> node_metrics list \<Rightarrow> exn + placement) option \<Rightarrow> jdict \<Rightarrow> node_metrics list \<Rightarrow> exn + placement" where
  "select_placement llm job ms =
     (if ms = [] then Inl (ValueError ''node_metrics is empty'')
      else Inr (consult (map_option (\<lambda>ask. ask job ms) llm) (placement_heuristic ms)))"

section \<open>Replication\<close>

record replication_plan =
  primary_node_id :: int
  replica_node_ids :: "int list"
  replication_factor :: int

text \<open>\<open>xs[1:e]\<close>\<close>

definition slice_from_1 :: "'a list \<Rightarrow> int \<Rightarrow> 'a list" where
  "slice_from_1 xs e = drop 1 (take (nat (if 0 \<le> e then e else int (length xs) + e)) xs)"

definition effective_factor :: "jdict \<Rightarrow> node_metrics list \<Rightarrow> int \<Rightarrow> int" where
  "effective_factor job ms requested =
     min (if dget job ''type'' = JStr ''compute'' \<and> 2 \<le> length ms then max requested 2 else requested)
       (int (length ms))"

definition replication_heuristic :: "jdict \<Rightarrow> node_metrics list \<Rightarrow> int \<Rightarrow> replication_plan" where
  "replication_heuristic job ms requested =
     (let effective = effective_factor job ms requested; sorted_nodes = sort_key load_key ms in
      \<lparr>primary_node_id = m_node_id (hd sorted_nodes),
       replica_node_ids = List.map m_node_id (slice_from_1 sorted_nodes effective),
       replication_factor = effective\<rparr>)"

definition decide_replication ::
  "(jdict \<Rightarrow> node_metrics list \<Rightarrow> int \<Rightarrow> exn + replication_plan) option \<Rightarrow> jdict \<Rightarrow> node_metrics list \<Rightarrow> int
    \<Rightarrow> exn + replication_plan" where
  "decide_replication llm job ms requested =
     (if ms = [] then Inl (ValueError ''node_metrics is empty'')
      else Inr (consult (map_option (\<lambda>ask. ask job ms requested) llm) (replication_heuristic job ms requested)))"

section \<open>Recovery\<close>

text \<open>The assignments, a dictionary from job identifiers (strings, as \<open>make_job\<close> makes them) to nodes.\<close>

fun assign_from :: "node_metrics list \<Rightarrow> nat \<Rightarrow> jdict list \<Rightarrow> int dict \<Rightarrow> exn + int dict" where
  "assign_from nodes i [] acc = Inr acc"
| "assign_from nodes i (job # jobs) acc =
     chain (dindex job ''job_id'') (\<lambda>v.
     case v of
       JStr j \<Rightarrow> assign_from nodes (Suc i) jobs (dset j (m_node_id (nodes ! (i mod length nodes))) acc)
     | _ \<Rightarrow> Inl (TypeError ''identifier''))"

definition recovery_heuristic :: "jdict list \<Rightarrow> node_metrics list \<Rightarrow> exn + int dict" where
  "recovery_heuristic jobs survivors = assign_from (sort_key load_key survivors) 0 jobs []"

definition plan_recovery ::
  "(int \<Rightarrow> jdict list \<Rightarrow> node_metrics list \<Rightarrow> exn + int dict) option \<Rightarrow> int \<Rightarrow> jdict list \<Rightarrow> node_metrics list
    \<Rightarrow> exn + int dict" where
  "plan_recovery llm failed jobs survivors =
     (if jobs = [] \<or> survivors = [] then Inr []
      else case map_option (\<lambda>ask. ask failed jobs survivors) llm of
          Some (Inr a) \<Rightarrow> Inr a
        | _ \<Rightarrow> recovery_heuristic jobs survivors)"

section \<open>Lemmas\<close>

lemma hd_insort: "hd (insort_key f x ys) = (if ys = [] \<or> f x \<le> f (hd ys) then x else hd ys)"
  by (cases ys) auto

text \<open>The heuristics of the placement and of the replication agree on the node.\<close>

lemma min_load_sorted: "min_load m ms = hd (sort_key load_key (m # ms))"
proof (induction ms arbitrary: m)
  case Nil
  then show ?case by simp
next
  case (Cons x xs)
  have "sort_key load_key xs = [] \<longleftrightarrow> xs = []" by (metis length_0_conv length_sort)
  then show ?case
    using Cons.IH by (auto simp: hd_insort not_less)
qed

lemma min_load_least: "min_load m ms \<in> set (m # ms) \<and> (\<forall>x \<in> set (m # ms). load_key (min_load m ms) \<le> load_key x)"
proof -
  let ?s = "sort_key load_key (m # ms)"
  have "set ?s = set (m # ms)" "sorted (List.map load_key ?s)" by (simp_all only: set_sort sorted_sort_key)
  moreover have "?s \<noteq> []" using calculation(1) by force
  ultimately obtain y ys where "?s = y # ys" "set (y # ys) = set (m # ms)" "sorted (List.map load_key (y # ys))"
    by (metis list.exhaust)
  then show ?thesis by (auto simp: min_load_sorted)
qed

text \<open>The nodes of a plan are a prefix of the nodes in the order of their load.\<close>

lemma effective_factor_bounds:
  "ms \<noteq> [] \<Longrightarrow> 1 \<le> requested \<Longrightarrow> 1 \<le> effective_factor job ms requested \<and> effective_factor job ms requested \<le> int (length ms)"
  by (auto simp: effective_factor_def Suc_le_eq int_one_le_iff_zero_less)

lemma plan_kept:
  assumes "ms \<noteq> []" and "1 \<le> requested" and "p = replication_heuristic job ms requested"
  shows "primary_node_id p # replica_node_ids p
    = List.map m_node_id (take (nat (effective_factor job ms requested)) (sort_key load_key ms))"
proof -
  have "sort_key load_key ms \<noteq> []" using assms(1) by (metis length_0_conv length_sort)
  then show ?thesis
    using effective_factor_bounds [OF assms(1,2), of job]
    by (cases "sort_key load_key ms"; cases "nat (effective_factor job ms requested)")
      (simp_all add: assms(3) replication_heuristic_def slice_from_1_def Let_def)
qed

lemma kept_distinct:
  "distinct (List.map m_node_id ms) \<Longrightarrow> distinct (List.map m_node_id (take k (sort_key load_key ms)))"
  by (simp add: distinct_map distinct_take inj_on_subset [OF _ set_take_subset])

lemma placement_first: "ms \<noteq> [] \<Longrightarrow> pl_node_id (placement_heuristic ms) = m_node_id (hd (sort_key load_key ms))"
  by (cases ms) (simp_all add: placement_heuristic_def Let_def min_load_sorted)

text \<open>Round robin: the number of the first \<open>k\<close> turns that fall to the \<open>j\<close>-th of \<open>n\<close>.\<close>

lemma count_turns: "j < n \<Longrightarrow> count_list (List.map (\<lambda>t. t mod n) [0..<k]) j = (k + (n - 1 - j)) div n"
proof (induction k)
  case 0
  then show ?case by simp
next
  case (Suc k)
  have "Suc (k + (n - 1 - j)) mod n = 0 \<longleftrightarrow> k mod n = j"
  proof -
    have "int (Suc (k + (n - 1 - j))) = (int k - int j) + int n" using Suc.prems by simp
    then have "int (Suc (k + (n - 1 - j)) mod n) = (int k - int j) mod int n" by (simp only: of_nat_mod mod_add_self2)
    also have "\<dots> = 0 \<longleftrightarrow> int k mod int n = int j mod int n" by (simp add: mod_eq_dvd_iff dvd_eq_mod_eq_0)
    also have "\<dots> \<longleftrightarrow> k mod n = j" using Suc.prems by (simp flip: zmod_int)
    finally show ?thesis by simp
  qed
  then show ?case using Suc by (simp add: div_Suc)
qed

lemma turns_even:
  assumes "i < n" and "j < n"
  shows "count_list (List.map (\<lambda>t. t mod n) [0..<k]) i \<le> count_list (List.map (\<lambda>t. t mod n) [0..<k]) j + 1"
proof -
  have "(k + (n - 1 - i)) div n \<le> (k + (n - 1 - j) + n) div n" by (intro div_le_mono) simp
  also have "\<dots> = (k + (n - 1 - j)) div n + 1" using assms by (subst div_add_self2) simp_all
  finally show ?thesis by (simp only: count_turns assms)
qed

definition job_ids :: "jdict list \<Rightarrow> string list" where
  "job_ids jobs = List.map (\<lambda>j. str_of (dget j ''job_id'')) jobs"

lemma update_fresh: "k \<notin> set (dkeys d) \<Longrightarrow> dset k v d = d @ [(k, v)]"
  by (induction d) (auto simp: dkeys_def)

lemma assign_from_run:
  assumes "\<forall>job \<in> set jobs. \<exists>j. map_of job ''job_id'' = Some (JStr j)" and "distinct (dkeys acc @ job_ids jobs)"
  shows "assign_from nodes i jobs acc =
    Inr (acc @ zip (job_ids jobs) (List.map (\<lambda>t. m_node_id (nodes ! (t mod length nodes))) [i..<i + length jobs]))"
  using assms
proof (induction jobs arbitrary: i acc)
  case Nil
  then show ?case by (simp add: job_ids_def)
next
  case (Cons job jobs)
  then obtain j where j: "map_of job ''job_id'' = Some (JStr j)" by auto
  have upt: "[i..<Suc (i + length jobs)] = i # [Suc i..<Suc (i + length jobs)]" by (rule upt_conv_Cons) simp
  have "j \<notin> set (dkeys acc)" using Cons.prems(2) j by (simp add: job_ids_def dget_or_def)
  with Cons.IH [of "acc @ [(j, m_node_id (nodes ! (i mod length nodes)))]" "Suc i"] Cons.prems j
  show ?case by (simp add: upt dindex_def update_fresh job_ids_def dget_or_def dkeys_def del: upt_Suc)
qed

text \<open>The plan of the recovery heuristic.\<close>

definition turn :: "node_metrics list \<Rightarrow> nat \<Rightarrow> int" where
  "turn survivors t = m_node_id (sort_key load_key survivors ! (t mod length survivors))"

lemma recovery_plan:
  assumes "\<forall>job \<in> set jobs. \<exists>j. map_of job ''job_id'' = Some (JStr j)" and "distinct (job_ids jobs)" and "survivors \<noteq> []"
    and "plan = zip (job_ids jobs) (List.map (turn survivors) [0..<length jobs])"
  shows "plan_recovery None failed jobs survivors = Inr plan" "dkeys plan = job_ids jobs"
    "List.map snd plan = List.map (turn survivors) [0..<length jobs]" "snd ` set plan \<subseteq> m_node_id ` set survivors"
proof -
  have len: "length (job_ids jobs) = length jobs" by (simp add: job_ids_def)
  show "plan_recovery None failed jobs survivors = Inr plan"
    using assms(3,4) assign_from_run [of jobs "[]" "sort_key load_key survivors" 0] assms(1,2)
    by (auto simp: plan_recovery_def recovery_heuristic_def dkeys_def turn_def [abs_def])
  show "dkeys plan = job_ids jobs" by (simp add: dkeys_def len assms(4))
  show snds: "List.map snd plan = List.map (turn survivors) [0..<length jobs]" by (simp add: len assms(4))
  have "turn survivors t \<in> m_node_id ` set survivors" for t
    unfolding turn_def using assms(3) by (metis image_eqI length_greater_0_conv length_sort mod_less_divisor nth_mem set_sort)
  moreover have "snd ` set plan = set (List.map (turn survivors) [0..<length jobs])" by (simp only: snds flip: list.set_map)
  ultimately show "snd ` set plan \<subseteq> m_node_id ` set survivors" by auto
qed

section \<open>Properties\<close>

text \<open>
  Without a language model, or when it fails, a job is placed on a node with the shortest
  queue, and among those with the fewest failures; the plan of the replication agent has its
  primary on the same node.
\<close>

theorem placement_least_loaded:
  assumes "ms \<noteq> []" and "llm = None \<or> llm = Some (\<lambda>_ _. Inl e)"
  shows "\<exists>m \<in> set ms. select_placement llm job ms = Inr (placement_heuristic ms) \<and>
    pl_node_id (placement_heuristic ms) = m_node_id m \<and> (\<forall>x \<in> set ms. load_key m \<le> load_key x) \<and>
    primary_node_id (replication_heuristic job ms requested) = m_node_id m"
proof -
  have ms: "hd ms # tl ms = ms" using assms(1) by simp
  then have "primary_node_id (replication_heuristic job ms requested) = m_node_id (min_load (hd ms) (tl ms))"
    by (simp add: replication_heuristic_def min_load_sorted Let_def)
  moreover have "select_placement llm job ms = Inr (placement_heuristic ms)"
    using assms by (auto simp: select_placement_def consult_def)
  ultimately show ?thesis
    using min_load_least [of "hd ms" "tl ms"] unfolding ms
    by (intro bexI [of _ "min_load (hd ms) (tl ms)"]) (simp_all add: placement_heuristic_def Let_def)
qed

text \<open>
  The plan of the replication heuristic names as many different nodes as its factor says,
  at least one and never more than there are, and no node is left out in favour of a busier one.
\<close>

theorem replication_plan_nodes:
  assumes "ms \<noteq> []" and "distinct (List.map m_node_id ms)" and "1 \<le> requested"
    and "p = replication_heuristic job ms requested"
  shows "distinct (primary_node_id p # replica_node_ids p) \<and>
    int (length (primary_node_id p # replica_node_ids p)) = replication_factor p \<and>
    1 \<le> replication_factor p \<and> replication_factor p \<le> int (length ms) \<and>
    (\<exists>kept. primary_node_id p # replica_node_ids p = List.map m_node_id kept \<and> set kept \<subseteq> set ms \<and>
      (\<forall>x \<in> set kept. \<forall>y \<in> set ms - set kept. load_key x \<le> load_key y))"
proof -
  let ?s = "sort_key load_key ms" and ?e = "effective_factor job ms requested"
  let ?kept = "take (nat ?e) ?s"
  have e: "1 \<le> ?e" "?e \<le> int (length ms)" using effective_factor_bounds [OF assms(1,3), of job] by auto
  have kept: "primary_node_id p # replica_node_ids p = List.map m_node_id ?kept"
    by (rule plan_kept [OF assms(1,3,4)])
  have "load_key x \<le> load_key y" if "x \<in> set ?kept" "y \<in> set ms - set ?kept" for x y
  proof -
    have "?kept @ drop (nat ?e) ?s = ?s" by simp
    moreover have "sorted (List.map load_key ?s)" by simp
    ultimately have "sorted (List.map load_key ?kept @ List.map load_key (drop (nat ?e) ?s))" by (metis map_append)
    moreover have "y \<in> set (drop (nat ?e) ?s)" using that(2) by (metis Diff_iff UnE append_take_drop_id set_append set_sort)
    ultimately show ?thesis using that(1) by (auto simp: sorted_append)
  qed
  moreover have "set ?kept \<subseteq> set ms" using set_take_subset by fastforce
  moreover have "replication_factor p = ?e" by (simp add: assms(4) replication_heuristic_def Let_def)
  moreover have "int (length (List.map m_node_id ?kept)) = ?e" using e by simp
  ultimately show ?thesis using e kept_distinct [OF assms(2), of "nat ?e"] unfolding kept
    by (intro conjI exI [of _ ?kept] ballI) simp_all
qed

text \<open>
  The recovery heuristic gives every orphaned job a surviving node, and spreads the jobs
  evenly: two survivors never differ by more than one job.
\<close>

theorem recovery_balanced:
  assumes "\<forall>job \<in> set jobs. \<exists>j. map_of job ''job_id'' = Some (JStr j)" and "distinct (job_ids jobs)"
    and "survivors \<noteq> []" and "distinct (List.map m_node_id survivors)"
  shows "\<exists>plan. plan_recovery None failed jobs survivors = Inr plan \<and> dkeys plan = job_ids jobs \<and>
    snd ` set plan \<subseteq> m_node_id ` set survivors \<and>
    (\<forall>x \<in> set survivors. \<forall>y \<in> set survivors.
      count_list (List.map snd plan) (m_node_id x) \<le> count_list (List.map snd plan) (m_node_id y) + 1)"
proof -
  let ?s = "sort_key load_key survivors" and ?n = "length survivors"
  let ?plan = "zip (job_ids jobs) (List.map (turn survivors) [0..<length jobs])"
  note plan = recovery_plan [OF assms(1-3) refl]
  have n: "0 < ?n" using assms(3) by simp
  have even: "count_list (List.map snd ?plan) (m_node_id x) \<le> count_list (List.map snd ?plan) (m_node_id y) + 1"
    if "x \<in> set survivors" "y \<in> set survivors" for x y
  proof -
    have dist: "distinct (List.map m_node_id ?s)" using assms(4) by (simp add: distinct_map)
    have count: "count_list (List.map (turn survivors) [0..<k]) (m_node_id (?s ! i)) = count_list (List.map (\<lambda>t. t mod ?n) [0..<k]) i"
      if "i < ?n" for i k
    proof -
      have "turn survivors t = m_node_id (?s ! i) \<longleftrightarrow> t mod ?n = i" for t
        using nth_eq_iff_index_eq [OF dist, of "t mod ?n" i] that n by (simp add: turn_def)
      then show ?thesis by (induction k) auto
    qed
    have "x \<in> set ?s" "y \<in> set ?s" using that by simp_all
    then obtain i j where "i < ?n" "j < ?n" "x = ?s ! i" "y = ?s ! j"
      unfolding in_set_conv_nth length_sort by blast
    with count turns_even [of i ?n j "length jobs"] show ?thesis unfolding plan(3) by metis
  qed
  show ?thesis by (intro exI [of _ ?plan] conjI ballI plan(1,2,4) even)
qed

text \<open>Three nodes, and three jobs that a failed node left.\<close>

definition demo_metrics :: "node_metrics list" where
  "demo_metrics =
     [\<lparr>m_node_id = 10, m_address = ''a'', m_queue_depth = 2, m_jobs_completed = 0, m_jobs_failed = 0\<rparr>,
      \<lparr>m_node_id = 100, m_address = ''b'', m_queue_depth = 1, m_jobs_completed = 5, m_jobs_failed = 1\<rparr>,
      \<lparr>m_node_id = 200, m_address = ''c'', m_queue_depth = 1, m_jobs_completed = 5, m_jobs_failed = 0\<rparr>]"

definition demo_jobs :: "jdict list" where
  "demo_jobs = [[(''job_id'', JStr ''x'')], [(''job_id'', JStr ''y'')], [(''job_id'', JStr ''z'')]]"

lemma placement_least_loaded_witness:
  "\<exists>m \<in> set demo_metrics. select_placement None [] demo_metrics = Inr (placement_heuristic demo_metrics) \<and>
    pl_node_id (placement_heuristic demo_metrics) = m_node_id m \<and> (\<forall>x \<in> set demo_metrics. load_key m \<le> load_key x) \<and>
    primary_node_id (replication_heuristic [] demo_metrics 2) = m_node_id m"
  by (rule placement_least_loaded) (simp_all add: demo_metrics_def)

lemma replication_plan_nodes_witness:
  "distinct [200, 100 :: int] \<and> replication_factor (replication_heuristic [] demo_metrics 2) \<le> 3"
  using replication_plan_nodes [OF _ _ _ refl, of demo_metrics 2 "[]"]
  by (simp add: demo_metrics_def)

lemma recovery_balanced_witness:
  "\<exists>plan. plan_recovery None 7 demo_jobs demo_metrics = Inr plan \<and> dkeys plan = [''x'', ''y'', ''z'']"
  using recovery_balanced [of demo_jobs demo_metrics 7]
  by (auto simp: demo_jobs_def demo_metrics_def job_ids_def dget_or_def)

end
