(* ===== verification/Routed.thy ===== *)
theory Routed
  imports TaskService
begin

text \<open>
  The routed data endpoints of \<open>chord/server.py\<close>, \<open>/put\<close>, \<open>/get\<close> and \<open>/del\<close>: the node that is
  asked looks up the node responsible for the key and forwards the request to it. When the
  forwarded call fails the owner is looked up again, up to \<open>ROUTED_RETRIES\<close> more times; a lookup
  that fails is not caught, and the endpoint answers with the status 500. \<open>fuel\<close> bounds the
  hops of a lookup.
\<close>

section \<open>The endpoints\<close>

definition ROUTED_RETRIES :: nat where
  "ROUTED_RETRIES = 2"

text \<open>
  The loop the three endpoints share. \<open>here\<close> is the code that runs when this node is the owner,
  \<open>there\<close> the call to another one; \<open>n\<close> attempts are left, and \<open>i\<close> have failed.
\<close>

fun routed ::
  "nat \<Rightarrow> string \<Rightarrow> int \<Rightarrow> ('z net_scheme, 'b reply) act \<Rightarrow> (nref \<Rightarrow> ('z net_scheme, 'b reply) act) \<Rightarrow> nat \<Rightarrow> nat
    \<Rightarrow> ('z net_scheme, 'b reply) act" where
  "routed fuel me key_id here there 0 i = ret (Status 502)"
| "routed fuel me key_id here there (Suc n) i =
     andthen (find_successor fuel me key_id) (\<lambda>r.
     andthen (read_node me node_id) (\<lambda>own.
     if ref_id r = own then here
     else
       andthen
         (catch (andthen (there r) (\<lambda>reply. ret (Some reply)))
           (\<lambda>e. andthen (sleep (100000 * 2 ^ i)) (\<lambda>_. ret None))) (\<lambda>answer.
       case answer of
         Some reply \<Rightarrow> ret reply
       | None \<Rightarrow> routed fuel me key_id here there n (Suc i))))"

definition found_reply :: "json option \<Rightarrow> json reply" where
  "found_reply v = (case v of None \<Rightarrow> Status 404 | Some x \<Rightarrow> Ok x)"

text \<open>The reply of a write says where the value is.\<close>

definition routed_put :: "nat \<Rightarrow> string \<Rightarrow> string \<Rightarrow> json \<Rightarrow> ('z net_scheme, int reply) act" where
  "routed_put fuel me key v =
     routed fuel me (sha1_id key)
       (andthen (on_node me (put key v)) (\<lambda>_. andthen (read_node me node_id) (\<lambda>own. ret (Ok own))))
       (\<lambda>r. andthen (t_put (ref_addr r) key v) (\<lambda>_. ret (Ok (ref_id r))))
       (ROUTED_RETRIES + 1) 0"

definition routed_get :: "nat \<Rightarrow> string \<Rightarrow> string \<Rightarrow> ('z net_scheme, json reply) act" where
  "routed_get fuel me key =
     routed fuel me (sha1_id key)
       (andthen (read_node me (get key)) (\<lambda>v. ret (found_reply v)))
       (\<lambda>r. andthen (t_get (ref_addr r) key) (\<lambda>v. ret (found_reply v)))
       (ROUTED_RETRIES + 1) 0"

text \<open>The reply of a deletion: whether something was deleted, as the endpoint says, and where.\<close>

definition routed_delete :: "nat \<Rightarrow> string \<Rightarrow> string \<Rightarrow> ('z net_scheme, (bool \<times> int) reply) act" where
  "routed_delete fuel me key =
     routed fuel me (sha1_id key)
       (andthen (on_node me (delete key)) (\<lambda>deleted. andthen (read_node me node_id) (\<lambda>own. ret (Ok (deleted, own)))))
       (\<lambda>r. andthen (t_delete (ref_addr r) key) (\<lambda>_. ret (Ok (True, ref_id r))))
       (ROUTED_RETRIES + 1) 0"

section \<open>Lemmas\<close>

text \<open>
  In a stable ring over a network that loses requests the first attempt finds the owner and
  reaches it. \<open>eff\<close> is what the request does to the node that owns the key, and \<open>x\<close> the reply
  for the owner \<open>r\<close>.
\<close>

lemma routed_at_owner:
  fixes s :: "'z net_scheme"
  assumes st: "stable A s" and lossy: "lossy s" and me: "member A s me nd" and rt: "routes nd key_id"
    and fuel: "255 \<le> fuel" and id: "is_id key_id"
    and here: "\<And>s1 r. ref_id r = node_id nd \<Longrightarrow> nodes s1 me = Some nd \<Longrightarrow> here s1 = (Inr (x r nd), set_node me (eff nd) s1)"
    and there: "\<And>s1 r nr. ref_id r \<noteq> node_id nd \<Longrightarrow> lossy s1 \<Longrightarrow> nodes s1 (ref_addr r) = Some nr \<Longrightarrow>
      \<exists>m c. there r s1 = (Inr (x r nr), set_node (ref_addr r) (eff nr) (later m c s1))"
  obtains r nr m c where "responsible A s key_id r" "nodes s (ref_addr r) = Some nr"
    "routed fuel me key_id here there (ROUTED_RETRIES + 1) 0 s = (Inr (x r nr), set_node (ref_addr r) (eff nr) (later m c s))"
proof -
  obtain r m c where look: "find_successor fuel me key_id s = (Inr r, later m c s)" and r: "responsible A s key_id r"
    by (rule find_successor_ok [OF st lossy me id rt fuel])
  have three: "ROUTED_RETRIES + 1 = Suc 2" by (simp add: ROUTED_RETRIES_def)
  have refers: "refers A s r" using r by (simp add: responsible_def)
  then obtain nr where nr: "nodes s (ref_addr r) = Some nr" by (auto simp: refers_def dest: memberD)
  show thesis
  proof (cases "ref_id r = node_id nd")
    case True
    have "ref_addr r = me" by (rule responsible_self [OF st me refers True])
    then have "nr = nd" using nr memberD(1) [OF me] by simp
    with \<open>ref_addr r = me\<close> show thesis
      using True look here [OF True, of "later m c s"] memberD(1) [OF me]
      by (intro that [OF r nr, of m c]) (simp add: three act_simps)
  next
    case False
    obtain m' c' where "there r (later m c s) = (Inr (x r nr), set_node (ref_addr r) (eff nr) (later m' c' (later m c s)))"
      using there [OF False, of "later m c s" nr] lossy nr by auto
    with False look memberD(1) [OF me] show thesis
      by (intro that [OF r nr, of "m + m'" "c + c'"]) (simp add: three act_simps)
  qed
qed

lemma routed_put_run:
  fixes s :: "'z net_scheme"
  assumes "stable A s" and "lossy s" and "member A s me nd" and "routes nd (sha1_id key)" and "255 \<le> fuel"
  obtains r nr m c where "responsible A s (sha1_id key) r" "nodes s (ref_addr r) = Some nr"
    "routed_put fuel me key v s = (Inr (Ok (ref_id r)), set_node (ref_addr r) (snd (put key v nr)) (later m c s))"
proof -
  let ?there = "\<lambda>r. andthen (t_put (ref_addr r) key v) (\<lambda>_. ret (Ok (ref_id r)))"
    and ?here = "andthen (on_node me (put key v)) (\<lambda>_. andthen (read_node me node_id) (\<lambda>own. ret (Ok own)))"
  have there: "\<exists>m c. ?there r s1
      = (Inr (Ok (ref_id r)), set_node (ref_addr r) (snd (put key v nr)) (later m c s1))"
    if other: "ref_id r \<noteq> node_id nd" and net: "lossy s1" "nodes s1 (ref_addr r) = Some nr" for s1 :: "'z net_scheme" and r nr
  proof -
    obtain m c where "t_put (ref_addr r) key v s1 = (Inr (), set_node (ref_addr r) (snd (put key v nr)) (later m c s1))"
      unfolding t_put_def h_data_put_def by (rule rpc_on_node [OF net]) auto
    then show ?thesis by (intro exI [of _ m] exI [of _ c]) (simp add: act_simps)
  qed
  have here: "?here s1 = (Inr (Ok (ref_id r)), set_node me (snd (put key v nd)) s1)"
    if "ref_id r = node_id nd" "nodes s1 me = Some nd" for s1 :: "'z net_scheme" and r :: nref
    using that by (simp add: act_simps put_def)
  obtain r nr m c where "responsible A s (sha1_id key) r" "nodes s (ref_addr r) = Some nr"
    "routed fuel me (sha1_id key) ?here ?there (ROUTED_RETRIES + 1) 0 s
      = (Inr (Ok (ref_id r)), set_node (ref_addr r) (snd (put key v nr)) (later m c s))"
    by (rule routed_at_owner [where x = "\<lambda>r nr. Ok (ref_id r)" and eff = "\<lambda>nr. snd (put key v nr)", OF assms(1-5) _ here there]) auto
  then show thesis by (intro that) (simp_all add: routed_put_def)
qed

lemma routed_get_run:
  fixes s :: "'z net_scheme"
  assumes "stable A s" and "lossy s" and "member A s me nd" and "routes nd (sha1_id key)" and "255 \<le> fuel"
  obtains r nr m c where "responsible A s (sha1_id key) r" "nodes s (ref_addr r) = Some nr"
    "routed_get fuel me key s = (Inr (found_reply (get key nr)), later m c s)"
proof -
  let ?there = "\<lambda>r. andthen (t_get (ref_addr r) key) (\<lambda>v. ret (found_reply v))"
    and ?here = "andthen (read_node me (get key)) (\<lambda>v. ret (found_reply v))"
  have there: "\<exists>m c. ?there r s1
      = (Inr (found_reply (get key nr)), set_node (ref_addr r) nr (later m c s1))"
    if other: "ref_id r \<noteq> node_id nd" and net: "lossy s1" "nodes s1 (ref_addr r) = Some nr" for s1 :: "'z net_scheme" and r nr
  proof -
    obtain m c where "request (ref_addr r) (h_data_get (ref_addr r) key) s1 = serve (h_data_get (ref_addr r) key) (later m c s1)"
      by (rule request_lossy [OF net(1), of "ref_addr r"]) (use net in auto)
    moreover have "serve (h_data_get (ref_addr r) key) (later m c s1)
        = (Inr (case get key nr of None \<Rightarrow> Status 404 | Some v \<Rightarrow> Ok v), later m c s1)"
      using net by (intro serve_Inr) (simp add: h_data_get_def act_simps)
    ultimately show ?thesis
      using net by (intro exI [of _ m] exI [of _ c])
        (simp add: t_get_def rpc_opt_def act_simps raise_for_status_def found_reply_def split: option.split)
  qed
  have here: "?here s1 = (Inr (found_reply (get key nd)), set_node me (nd) s1)"
    if "ref_id r = node_id nd" "nodes s1 me = Some nd" for s1 :: "'z net_scheme" and r :: nref
    using that by (simp add: act_simps put_def)
  obtain r nr m c where "responsible A s (sha1_id key) r" "nodes s (ref_addr r) = Some nr"
    "routed fuel me (sha1_id key) ?here ?there (ROUTED_RETRIES + 1) 0 s
      = (Inr (found_reply (get key nr)), set_node (ref_addr r) nr (later m c s))"
    by (rule routed_at_owner [where x = "\<lambda>r nr. found_reply (get key nr)" and eff = "\<lambda>nr. nr", OF assms(1-5) _ here there]) auto
  then show thesis by (intro that) (simp_all add: routed_get_def)
qed

lemma routed_delete_run:
  fixes s :: "'z net_scheme"
  assumes "stable A s" and "lossy s" and "member A s me nd" and "routes nd (sha1_id key)" and "255 \<le> fuel"
  obtains r nr m c where "responsible A s (sha1_id key) r" "nodes s (ref_addr r) = Some nr"
    "routed_delete fuel me key s = (Inr (Ok (if ref_id r = node_id nd then fst (delete key nr) else True, ref_id r)),
       set_node (ref_addr r) (snd (delete key nr)) (later m c s))"
proof -
  let ?there = "\<lambda>r. andthen (t_delete (ref_addr r) key) (\<lambda>_. ret (Ok (True, ref_id r)))"
    and ?here = "andthen (on_node me (delete key)) (\<lambda>deleted. andthen (read_node me node_id) (\<lambda>own. ret (Ok (deleted, own))))"
  have there: "\<exists>m c. ?there r s1 = (Inr (Ok (if ref_id r = node_id nd then fst (delete key nr) else True, ref_id r)), set_node (ref_addr r) (snd (delete key nr)) (later m c s1))"
    if other: "ref_id r \<noteq> node_id nd" and net: "lossy s1" "nodes s1 (ref_addr r) = Some nr" for s1 :: "'z net_scheme" and r nr
  proof -
    obtain m c where "t_delete (ref_addr r) key s1 = (Inr (fst (delete key nr)), set_node (ref_addr r) (snd (delete key nr)) (later m c s1))"
      unfolding t_delete_def h_data_delete_def by (rule rpc_on_node [OF net]) auto
    then show ?thesis by (intro exI [of _ m] exI [of _ c]) (simp add: act_simps other)
  qed
  have sel: "node_id (snd (delete key n)) = node_id n" for n by (simp add: delete_def Let_def)
  have here: "?here s1 = (Inr (Ok (if ref_id r = node_id nd then fst (delete key nd) else True, ref_id r)), set_node me (snd (delete key nd)) s1)"
    if "ref_id r = node_id nd" "nodes s1 me = Some nd" for s1 :: "'z net_scheme" and r :: nref
    using that by (simp add: act_simps sel)
  obtain r nr m c where "responsible A s (sha1_id key) r" "nodes s (ref_addr r) = Some nr"
    "routed fuel me (sha1_id key) ?here ?there (ROUTED_RETRIES + 1) 0 s
      = (Inr (Ok (if ref_id r = node_id nd then fst (delete key nr) else True, ref_id r)),
         set_node (ref_addr r) (snd (delete key nr)) (later m c s))"
    by (rule routed_at_owner [where x = "\<lambda>r nr. Ok (if ref_id r = node_id nd then fst (delete key nr) else True, ref_id r)" and eff = "\<lambda>nr. snd (delete key nr)", OF assms(1-5) _ here there]) auto
  then show thesis by (intro that) (simp_all add: routed_delete_def)
qed

text \<open>What a reader finds after the owner of the key has changed its store.\<close>

lemma routed_get_after:
  fixes s :: "'z net_scheme"
  assumes st: "stable A s" and lossy: "lossy s" and rd: "member A s reader rd" "routes rd (sha1_id key)" and fuel: "255 \<le> fuel"
    and r: "responsible A s (sha1_id key) r" "nodes s (ref_addr r) = Some nr" and nd': "same_place nr nd'"
    and s': "s' = set_node (ref_addr r) nd' (later m c s)"
  shows "frame s s' \<and> (\<exists>m c. routed_get fuel reader key s' = (Inr (found_reply (get key nd')), later m c s'))"
proof -
  have fr: "frame s s'" unfolding s' by (rule frame_trans [OF frame_later frame_set_node]) (use r(2) nd' in auto)
  obtain rd' where rd': "member A s' reader rd'" "same_place rd rd'" by (rule frame_member [OF fr rd(1)])
  have st': "stable A s'" "lossy s'" "routes rd' (sha1_id key)" "responsible A s' (sha1_id key) r"
    using frame_stable_imp [OF fr st] frame_lossy [OF fr] frame_responsible [OF fr] same_place_routes [OF rd'(2)] r rd(2) lossy
    by auto
  obtain r' nr' m' c' where got: "responsible A s' (sha1_id key) r'" "nodes s' (ref_addr r') = Some nr'"
      "routed_get fuel reader key s' = (Inr (found_reply (get key nr')), later m' c' s')"
    by (rule routed_get_run [OF st'(1,2) rd'(1) st'(3) fuel])
  have "r' = r" using responsible_unique [OF st'(1) _ got(1) st'(4)] by simp
  with got(2) have "nr' = nd'" by (simp add: s')
  with got(3) fr show ?thesis by blast
qed

section \<open>Properties\<close>

text \<open>
  The transport puts a key into the path of a URL without quoting it. The model hands it on as it
  is, which is what happens to these keys; one with \<open>?\<close>, \<open>#\<close> or \<open>/\<close> arrives cut off or at no route.
\<close>

definition plain_key :: "string \<Rightarrow> bool" where
  "plain_key key \<longleftrightarrow> key \<noteq> [] \<and> key \<noteq> ''.'' \<and> key \<noteq> ''..'' \<and>
     (\<forall>c \<in> set key. let n = of_char c :: nat in
        48 \<le> n \<and> n \<le> 57 \<or> 65 \<le> n \<and> n \<le> 90 \<or> 97 \<le> n \<and> n \<le> 122 \<or> c \<in> set ''-_.~:'')"

text \<open>
  C30. The routed store is a store: in a stable ring over a network that loses requests, a value
  other than null written through any member under a key that a URL carries as it is (letters,
  digits and \<open>-_.~:\<close>) is what every member reads afterwards, whichever node owns the key. (The
  key must not hash to the identifier of the member that looks it up, unless that member is alone.
  A stored null reads as missing, and a dictionary is read up to the order of its keys, which
  Flask sorts in its replies.)
\<close>

theorem routed_put_get:
  fixes s :: "'z net_scheme"
  assumes "stable A s" and "lossy s" and "member A s me nd" and "routes nd (sha1_id key)" and "255 \<le> fuel" and "v \<noteq> JNull"
    and "plain_key key"
  shows "\<exists>place s'. routed_put fuel me key v s = (Inr (Ok place), s') \<and> frame s s' \<and>
    (\<forall>reader rd. member A s reader rd \<longrightarrow> routes rd (sha1_id key) \<longrightarrow>
      (\<exists>v' m c. routed_get fuel reader key s' = (Inr (Ok v'), later m c s') \<and> same_json v' v))"
proof -
  obtain r nr m c where put: "responsible A s (sha1_id key) r" "nodes s (ref_addr r) = Some nr"
      "routed_put fuel me key v s = (Inr (Ok (ref_id r)), set_node (ref_addr r) (snd (put key v nr)) (later m c s))"
    by (rule routed_put_run [OF assms(1-5)])
  have nd': "same_place nr (snd (put key v nr))" "found_reply (get key (snd (put key v nr))) = Ok v"
    using assms(6) by (simp_all add: get_def found_reply_def)
  note after = routed_get_after [OF assms(1,2) _ _ assms(5) put(1,2) nd'(1) refl, where m = m and c = c, unfolded nd'(2)]
  show ?thesis
    using put(3) after [OF assms(3,4)] after same_json_refl by blast
qed

text \<open>
  After a routed deletion through any member the key is gone for every member.
\<close>

theorem routed_delete_get:
  fixes s :: "'z net_scheme"
  assumes "stable A s" and "lossy s" and "member A s me nd" and "routes nd (sha1_id key)" and "255 \<le> fuel"
  shows "\<exists>res s'. routed_delete fuel me key s = (Inr (Ok res), s') \<and> frame s s' \<and>
    (\<forall>reader rd. member A s reader rd \<longrightarrow> routes rd (sha1_id key) \<longrightarrow>
      (\<exists>m c. routed_get fuel reader key s' = (Inr (Status 404), later m c s')))"
proof -
  obtain r nr m c where del: "responsible A s (sha1_id key) r" "nodes s (ref_addr r) = Some nr"
      "routed_delete fuel me key s = (Inr (Ok (if ref_id r = node_id nd then fst (delete key nr) else True, ref_id r)),
         set_node (ref_addr r) (snd (delete key nr)) (later m c s))"
    by (rule routed_delete_run [OF assms(1-5)])
  have nd': "same_place nr (snd (delete key nr))" "found_reply (get key (snd (delete key nr))) = Status 404"
    by (simp_all add: get_def found_reply_def delete_def Let_def same_place_def)
  note after = routed_get_after [OF assms(1,2) _ _ assms(5) del(1,2) nd'(1) refl, where m = m and c = c, unfolded nd'(2)]
  show ?thesis
    using del(3) after [OF assms(3,4)] after by blast
qed

text \<open>A ring of one node.\<close>

lemma routed_put_get_witness:
  "\<exists>place s'. routed_put 255 ''a'' ''k'' (JInt 1) demo_single = (Inr (Ok place), s') \<and>
    (\<exists>v m c. routed_get 255 ''a'' ''k'' s' = (Inr (Ok v), later m c s') \<and> same_json v (JInt 1))"
proof -
  have "routes demo_one k" for k by (simp add: routes_def demo_one_succ) (simp add: demo_one_def demo_refs)
  moreover have "member UNIV demo_single ''a'' demo_one" by (simp add: demo_single_member)
  moreover have "plain_key ''k''" by (simp add: plain_key_def)
  ultimately show ?thesis
    using routed_put_get [OF demo_single_stable demo_single_lossy, of "''a''" demo_one "''k''" 255 "JInt 1"] by auto
qed

lemma routed_delete_get_witness:
  "\<exists>res s'. routed_delete 255 ''a'' ''k'' demo_single = (Inr (Ok res), s') \<and>
    (\<exists>m c. routed_get 255 ''a'' ''k'' s' = (Inr (Status 404), later m c s'))"
proof -
  have "routes demo_one k" for k by (simp add: routes_def demo_one_succ) (simp add: demo_one_def demo_refs)
  moreover have "member UNIV demo_single ''a'' demo_one" by (simp add: demo_single_member)
  ultimately show ?thesis
    using routed_delete_get [OF demo_single_stable demo_single_lossy, of "''a''" demo_one "''k''" 255] by auto
qed

end
