(* ===== verification/Jobs.thy ===== *)
theory Jobs
  imports Submission JobWorker Agents Routed
begin

text \<open>
  The job endpoints of \<open>chord/server.py\<close>: \<open>/jobs\<close>, which lets the agents choose the node of a
  job and of its copies and stores them there, \<open>/api/live/submit\<close>, which does the same and
  traces the route, the lists of jobs, and the lookup of a job by its identifier.

  A job is stored under a key that is made up until it hashes to the chosen node. Identifiers
  come from \<open>uuid.uuid4()\<close>: \<open>fresh 0 0\<close> is the identifier of the job, \<open>fresh (Suc i) n\<close> the
  \<open>n\<close>-th candidate for the key of the copy number \<open>i\<close>. \<open>agent\<close> is the orchestrator of the
  process, with the language models its agents consult, or \<open>None\<close>.
\<close>

section \<open>Placement\<close>

record orchestrator =
  placement_llm :: "(jdict \<Rightarrow> node_metrics list \<Rightarrow> exn + placement) option"
  replication_llm :: "(jdict \<Rightarrow> node_metrics list \<Rightarrow> int \<Rightarrow> exn + replication_plan) option"
  recovery_llm :: "(int \<Rightarrow> jdict list \<Rightarrow> node_metrics list \<Rightarrow> exn + int dict) option"

text \<open>\<open>_collect_ring_metrics\<close>: the metrics of this node and of every finger that answers.\<close>

definition collect_ring_metrics :: "string \<Rightarrow> ('z net_scheme, node_metrics list) act" where
  "collect_ring_metrics me =
     andthen (read_node me (\<lambda>nd. nd)) (\<lambda>nd.
     andthen
       (for_each (fingers nd) (\<lambda>f (seen, ms).
          if finger_id f \<in> set seen then ret (seen, ms)
          else catch (andthen (t_get_metrics (finger_addr f)) (\<lambda>m. ret (finger_id f # seen, ms @ [m])))
                 (\<lambda>e. ret (finger_id f # seen, ms)))
         ([node_id nd], [metrics nd])) (\<lambda>(seen, ms). ret ms))"

definition address_for :: "nat \<Rightarrow> string \<Rightarrow> int \<Rightarrow> ('z net_scheme, string) act" where
  "address_for fuel me target =
     andthen (read_node me (\<lambda>nd. nd)) (\<lambda>nd.
     if target = node_id nd then ret (address nd)
     else case List.find (\<lambda>f. finger_id f = target) (fingers nd) of
         Some f \<Rightarrow> ret (finger_addr f)
       | None \<Rightarrow> andthen (find_successor fuel me target) (\<lambda>r. ret (ref_addr r)))"

text \<open>\<open>make_job_key_for\<close> tries 512 candidates and then takes one that was not tried.\<close>

definition make_job_key_for :: "(nat \<Rightarrow> string) \<Rightarrow> int \<Rightarrow> string" where
  "make_job_key_for uuids target =
     (case List.find (\<lambda>u. sha1_id (job_key u) mod 256 = target mod 256) (List.map uuids [0..<512]) of
        Some u \<Rightarrow> job_key u
      | None \<Rightarrow> job_key (uuids 512))"

definition store_job :: "(nat \<Rightarrow> string) \<Rightarrow> string \<Rightarrow> jdict \<Rightarrow> string \<Rightarrow> int \<Rightarrow> ('z net_scheme, string) act" where
  "store_job uuids me job target_address target =
     (let key = make_job_key_for uuids target in
      andthen (read_node me node_id) (\<lambda>own.
      andthen (if target = own then andthen (on_node me (put key (JObj job))) (\<lambda>_. ret ())
               else t_put target_address key (JObj job)) (\<lambda>_.
      ret key)))"

section \<open>Submission\<close>

definition job_types :: "string list" where
  "job_types = [''echo'', ''sleep'', ''compute'']"

text \<open>The node for a job with the reason, and the nodes for its copies.\<close>

definition place_job ::
  "nat \<Rightarrow> orchestrator option \<Rightarrow> string \<Rightarrow> jdict \<Rightarrow> node_metrics list \<Rightarrow> string \<Rightarrow> ('z net_scheme, int \<times> string) act" where
  "place_job fuel agent me job ms otherwise =
     (if agent \<noteq> None \<and> ms \<noteq> [] then
        andthen (lift (select_placement (placement_llm (the agent)) job ms)) (\<lambda>p. ret (pl_node_id p, pl_reasoning p))
      else
        andthen (find_successor fuel me (sha1_id (job_key (str_of (dget job ''job_id''))))) (\<lambda>r.
        ret (ref_id r, otherwise)))"

definition place_copies ::
  "orchestrator option \<Rightarrow> jdict \<Rightarrow> node_metrics list \<Rightarrow> int \<Rightarrow> int \<Rightarrow> exn + int \<times> int list" where
  "place_copies agent job ms requested target =
     (if agent \<noteq> None \<and> ms \<noteq> [] \<and> 1 < requested then
        chain (decide_replication (replication_llm (the agent)) job ms requested) (\<lambda>p.
        Inr (primary_node_id p, replica_node_ids p))
      else Inr (target, []))"

text \<open>
  The copies: a copy that cannot be stored is left out. The accumulator counts the keys made up;
  the first was the key of the job itself.
\<close>

definition replica_of :: "jdict \<Rightarrow> jdict" where
  "replica_of job = dset ''replica_of'' (dget job ''job_id'') job"

definition store_copies ::
  "nat \<Rightarrow> (nat \<Rightarrow> nat \<Rightarrow> string) \<Rightarrow> string \<Rightarrow> jdict \<Rightarrow> int \<Rightarrow> int list \<Rightarrow> ('z net_scheme, nat \<times> (int \<times> string) list) act" where
  "store_copies fuel fresh me job target rids =
     for_each rids (\<lambda>rid (i, copies).
       if rid = target then ret (i, copies)
       else
         andthen (address_for fuel me rid) (\<lambda>addr.
         catch (andthen (store_job (fresh (Suc i)) me (replica_of job) addr rid) (\<lambda>key. ret (Suc i, copies @ [(rid, key)])))
           (\<lambda>e. ret (Suc i, copies))))
       (1, [])"

definition copies_json :: "(int \<times> string) list \<Rightarrow> json" where
  "copies_json copies = JList (List.map (\<lambda>(rid, key). JObj [(''node_id'', JInt rid), (''key'', JStr key)]) copies)"

definition new_job :: "(nat \<Rightarrow> nat \<Rightarrow> string) \<Rightarrow> json \<Rightarrow> json \<Rightarrow> int \<Rightarrow> jdict" where
  "new_job fresh job_type load now = make_job (seconds now) (fresh 0 0) job_type load JNull"

definition submit_job ::
  "nat \<Rightarrow> orchestrator option \<Rightarrow> (nat \<Rightarrow> nat \<Rightarrow> string) \<Rightarrow> string \<Rightarrow> json \<Rightarrow> ('z net_scheme, response) act" where
  "submit_job fuel agent fresh me payload =
     endpoint
      (andthen (lift (json_body payload)) (\<lambda>b.
       let job_type = dget_or (JStr ''echo'') b ''type''; load = dget_or (JObj []) b ''payload'' in
       andthen (lift (py_int (dget_or (JInt 1) b ''replicas''))) (\<lambda>requested.
       andthen (lift (in_str_set job_type job_types)) (\<lambda>valid.
       if \<not> valid then ret (400, JObj [(''error'', JStr ''Unknown job type'')])
       else if requested < 1 \<or> 10 < requested then ret (400, JObj [(''error'', JStr ''replicas must be between 1 and 10'')])
       else
         andthen (collect_ring_metrics me) (\<lambda>ms.
         andthen (gets clock) (\<lambda>now.
         let job = new_job fresh job_type load now in
         andthen (place_job fuel agent me job ms ''no-agent fallback: standard Chord routing'') (\<lambda>(placed, reason).
         andthen (lift (place_copies agent job ms requested placed)) (\<lambda>(target, rids).
         andthen (address_for fuel me target) (\<lambda>addr.
         andthen (store_job (fresh 1) me job addr target) (\<lambda>key.
         andthen (store_copies fuel fresh me job target rids) (\<lambda>(i, copies).
         ret (201, JObj [(''ok'', JBool True), (''job_id'', dget job ''job_id''), (''primary_key'', JStr key),
           (''stored_at_node'', JInt target), (''placement_reasoning'', JStr reason), (''replicas'', copies_json copies)]))))))))))))"

section \<open>The live view\<close>

text \<open>
  The route of the trace: the lookups that lead from the node with \<open>addr\<close> to the target, at
  most \<open>n\<close> of them. The remote lookup is one attempt; an answer that is not a success has no
  JSON body and ends the trace.
\<close>

fun hop_trace ::
  "nat \<Rightarrow> string \<Rightarrow> int \<Rightarrow> int \<Rightarrow> nat \<Rightarrow> int \<Rightarrow> string \<Rightarrow> int list \<Rightarrow> int list \<Rightarrow> ('z net_scheme, int list) act" where
  "hop_trace fuel me key_id target 0 current addr visited path = ret path"
| "hop_trace fuel me key_id target (Suc n) current addr visited path =
     (let path' = path @ [current] in
      if current = target \<or> current \<in> set visited then ret path'
      else
        andthen (read_node me address) (\<lambda>own.
        andthen
          (if addr = own then andthen (find_successor fuel me key_id) (\<lambda>r. ret (Some r))
           else catch (andthen (http_attempt addr (h_find_successor (find_successor fuel) addr key_id)) (\<lambda>reply.
                  ret (case reply of Ok r \<Rightarrow> Some r | Status c \<Rightarrow> None)))
                (\<lambda>e. ret None)) (\<lambda>next.
        case next of
          None \<Rightarrow> ret path'
        | Some r \<Rightarrow> hop_trace fuel me key_id target n (ref_id r) (ref_addr r) (current # visited) path')))"

definition trace_hops :: "nat \<Rightarrow> string \<Rightarrow> int \<Rightarrow> int \<Rightarrow> ('z net_scheme, int list) act" where
  "trace_hops fuel me key_id target =
     andthen (read_node me (\<lambda>nd. nd)) (\<lambda>nd.
     catch (hop_trace fuel me key_id target 16 (node_id nd) (address nd) [] [])
       (\<lambda>e. ret [node_id nd, target]))"

definition metrics_json :: "node_metrics \<Rightarrow> json" where
  "metrics_json m = JObj [(''node_id'', JInt (m_node_id m)), (''address'', JStr (m_address m)),
     (''queue_depth'', JInt (m_queue_depth m)), (''jobs_completed'', JInt (m_jobs_completed m)),
     (''jobs_failed'', JInt (m_jobs_failed m))]"

definition live_submit ::
  "nat \<Rightarrow> orchestrator option \<Rightarrow> (nat \<Rightarrow> nat \<Rightarrow> string) \<Rightarrow> string \<Rightarrow> json \<Rightarrow> ('z net_scheme, response) act" where
  "live_submit fuel agent fresh me payload =
     endpoint
      (andthen (lift (json_body payload)) (\<lambda>b.
       let job_type = dget_or (JStr ''echo'') b ''type''; load = dget_or (JObj []) b ''payload'' in
       andthen (lift (py_int (dget_or (JInt 1) b ''replicas''))) (\<lambda>requested.
       andthen (lift (in_str_set job_type job_types)) (\<lambda>valid.
       if \<not> valid then ret (400, JObj [(''error'', JStr ''Unknown job type'')])
       else
         andthen (collect_ring_metrics me) (\<lambda>ms.
         andthen (gets clock) (\<lambda>now.
         let job = new_job fresh job_type load now; key_id = sha1_id (job_key (str_of (dget job ''job_id''))) in
         andthen (place_job fuel agent me job ms ''Chord consistent hashing'') (\<lambda>(placed, reason).
         andthen (lift (place_copies agent job ms requested placed)) (\<lambda>(target, rids).
         andthen (address_for fuel me target) (\<lambda>addr.
         andthen (trace_hops fuel me key_id target) (\<lambda>path.
         andthen (store_job (fresh 1) me job addr target) (\<lambda>key.
         andthen (store_copies fuel fresh me job target rids) (\<lambda>(i, copies).
         andthen (read_node me node_id) (\<lambda>own.
         ret (201, JObj [(''ok'', JBool True), (''job_id'', dget job ''job_id''), (''job_type'', job_type),
           (''stored_at_node'', JInt target), (''entry_node'', JInt own), (''hop_path'', JList (List.map JInt path)),
           (''hop_count'', JInt (int (length path) - 1)), (''placement_reasoning'', JStr reason),
           (''placement_strategy'', JStr (if agent \<noteq> None \<and> ms \<noteq> [] then ''llm'' else ''heuristic'')),
           (''replicas'', copies_json copies), (''replica_node_ids'', JList (List.map JInt rids)),
           (''ring_metrics'', JList (List.map metrics_json ms))]))))))))))))))"

section \<open>Reading jobs\<close>

text \<open>\<open>jobs.sort(key=.., reverse=True)\<close>: newest first; comparing a number with a text raises.\<close>

definition created_at :: "jdict \<Rightarrow> json" where
  "created_at j = dget_or (JInt 0) j ''created_at''"

fun insert_newest :: "jdict \<Rightarrow> jdict list \<Rightarrow> exn + jdict list" where
  "insert_newest j [] = Inr [j]"
| "insert_newest j (x # xs) =
     chain (py_ge (created_at j) (created_at x)) (\<lambda>ge.
     if ge then Inr (j # x # xs) else chain (insert_newest j xs) (\<lambda>ys. Inr (x # ys)))"

fun newest_first :: "jdict list \<Rightarrow> exn + jdict list" where
  "newest_first [] = Inr []"
| "newest_first (j # js) = chain (newest_first js) (insert_newest j)"

definition jobs_with :: "string option \<Rightarrow> chord_node \<Rightarrow> jdict list" where
  "jobs_with status nd = List.map (\<lambda>(k, v). dict_of v)
     (filter (\<lambda>(k, v). startswith k ''job:'' \<and> is_dict v \<and>
        (case status of None \<Rightarrow> True | Some s \<Rightarrow> dget (dict_of v) ''status'' = JStr s)) (data_store nd))"

definition list_jobs :: "string \<Rightarrow> string option \<Rightarrow> ('z net_scheme, jdict list) act" where
  "list_jobs me status = andthen (read_node me (jobs_with status)) (\<lambda>js. lift (newest_first js))"

text \<open>\<open>/jobs/<job_id>\<close>: the same loop as for the routed endpoints, for the key of the job.\<close>

definition get_job :: "nat \<Rightarrow> string \<Rightarrow> string \<Rightarrow> ('z net_scheme, json reply) act" where
  "get_job fuel me job_id =
     (let key = job_key job_id in
      routed fuel me (sha1_id key)
        (andthen (read_node me (get key)) (\<lambda>v. ret (found_reply v)))
        (\<lambda>r. andthen (t_get (ref_addr r) key) (\<lambda>v. ret (found_reply v)))
        (ROUTED_RETRIES + 1) 0)"

end
