(* ===== verification/Placement.thy ===== *)
theory Placement
  imports Jobs "HOL-Library.Multiset"
begin

text \<open>
  Jobs from submission to the worker that claims them: where the copies of a job are stored, that
  the workers there will find them, and what the endpoints that read jobs answer.
\<close>

section \<open>What a node knows\<close>

text \<open>A node that \<open>nd\<close> knows: itself, or one of its fingers.\<close>

definition known :: "chord_node \<Rightarrow> int \<Rightarrow> bool" where
  "known nd i \<longleftrightarrow> i = node_id nd \<or> i \<in> finger_id ` set (fingers nd)"

text \<open>
  What the job endpoints need of the ring, less than stability: the members of \<open>A\<close> have their own
  addresses and different identifiers, and each finger of \<open>nd\<close> names a member or a process that
  is gone.
\<close>

definition hood :: "string set \<Rightarrow> 'z net_scheme \<Rightarrow> chord_node \<Rightarrow> bool" where
  "hood A s nd \<longleftrightarrow> (\<forall>a n. member A s a n \<longrightarrow> address n = a) \<and>
     (\<forall>a b n n'. member A s a n \<longrightarrow> member A s b n' \<longrightarrow> node_id n = node_id n' \<longrightarrow> a = b) \<and>
     (\<forall>f \<in> set (fingers nd). refers A s (finger_ref f) \<or> nodes s (finger_addr f) = None \<and> finger_id f \<notin> ring_ids A s)"

lemma hood_later [simp]: "hood A (later m c s) nd = hood A s nd"
  by (simp add: hood_def later_def member_def refers_def ring_ids_def)

lemma stable_hood: "stable A s \<Longrightarrow> member A s me nd \<Longrightarrow> hood A s nd"
  unfolding hood_def stable_def well_placed_def by blast

lemma hood_unique: "hood A s nd \<Longrightarrow> member A s a n \<Longrightarrow> member A s b n' \<Longrightarrow> node_id n = node_id n' \<Longrightarrow> a = b \<and> n = n'"
  unfolding hood_def by (metis member_inj)

lemma hood_frame:
  assumes fr: "frame s s'" and hood: "hood A s nd" and nd: "same_place nd nd'"
  shows "hood A s' nd'"
proof -
  have origin: "\<exists>n0. member A s a n0 \<and> same_place n n0" if "member A s' a n" for a n
    using frame_member [OF frame_sym [OF fr] that] by metis
  have "address n = a" if "member A s' a n" for a n
    using origin [OF that] hood by (auto simp: hood_def same_place_def)
  moreover have "a = b" if "member A s' a n" "member A s' b n'" "node_id n = node_id n'" for a b n n'
    using origin [OF that(1)] origin [OF that(2)] that(3) hood by (metis hood_unique same_place_def)
  moreover have "refers A s' (finger_ref f) \<or> nodes s' (finger_addr f) = None \<and> finger_id f \<notin> ring_ids A s'"
    if "f \<in> set (fingers nd')" for f
  proof -
    have "f \<in> set (fingers nd)" using that nd by (simp add: same_place_def)
    then show ?thesis
      using hood frame_none [OF fr] by (auto simp: hood_def frame_refers [OF fr] frame_ring_ids [OF fr])
  qed
  ultimately show ?thesis unfolding hood_def by blast
qed

section \<open>Ring metrics\<close>

text \<open>Metrics of known members, at most one entry for each.\<close>

definition collected :: "string set \<Rightarrow> 'z net_scheme \<Rightarrow> chord_node \<Rightarrow> int list \<Rightarrow> node_metrics list \<Rightarrow> bool" where
  "collected A s nd seen ms \<longleftrightarrow> ms \<noteq> [] \<and> distinct (List.map m_node_id ms) \<and> m_node_id ` set ms = set seen \<inter> ring_ids A s \<and>
     (\<forall>x \<in> set ms. \<exists>a n. member A s a n \<and> known nd (node_id n) \<and> x = metrics n)"

lemma collected_known: "collected A s nd seen ms \<Longrightarrow> i \<in> m_node_id ` set ms \<Longrightarrow> known nd i \<and> i \<in> ring_ids A s"
  by (force simp: collected_def metrics_def)

lemma metrics_sel [simp]: "m_node_id (metrics n) = node_id n"
  by (simp add: metrics_def)

lemma collected_later [simp]: "collected A (later m c s) = collected A s"
  by (simp add: collected_def fun_eq_iff)

lemma get_metrics_run:
  assumes "lossy s" and "nodes s a = Some n"
  obtains m c where "t_get_metrics a s = (Inr (metrics n), later m c s)"
proof -
  obtain m c where "rpc a (on_node a (\<lambda>nd. (Ok (metrics nd), nd))) s = (Inr (metrics n), set_node a n (later m c s))"
    by (rule rpc_on_node [OF assms]) simp
  with assms(2) show thesis by (intro that [of m c]) (simp add: t_get_metrics_def h_metrics_def read_node_def)
qed

lemma get_metrics_dead:
  assumes "nodes s a = None"
  obtains e m c where "t_get_metrics a s = (Inl (RequestException e), later m c s)"
proof -
  have "unreachable s a" using assms by (simp add: unreachable_def)
  then show thesis by (rule rpc_unreachable [where h = "h_metrics a"]) (use that in \<open>simp add: t_get_metrics_def\<close>)
qed

definition metrics_step :: "finger_entry \<Rightarrow> int list \<times> node_metrics list \<Rightarrow> ('z net_scheme, int list \<times> node_metrics list) act" where
  "metrics_step f acc = (case acc of (seen, ms) \<Rightarrow>
     if finger_id f \<in> set seen then ret (seen, ms)
     else catch (andthen (t_get_metrics (finger_addr f)) (\<lambda>m. ret (finger_id f # seen, ms @ [m])))
            (\<lambda>e. ret (finger_id f # seen, ms)))"

lemma metrics_step_run:
  fixes s :: "'z net_scheme"
  assumes "hood A s nd" and "lossy s" and "f \<in> set (fingers nd)" and "collected A s nd seen ms"
  obtains seen' ms' m c where "metrics_step f (seen, ms) s = (Inr (seen', ms'), later m c s)" "collected A s nd seen' ms'"
    "set seen' = insert (finger_id f) (set seen)"
proof (cases "finger_id f \<in> set seen")
  case True
  then show thesis
    using assms(4) by (intro that [of seen ms 0 0]) (auto simp: metrics_step_def act_simps)
next
  case new: False
  consider "refers A s (finger_ref f)" | "nodes s (finger_addr f) = None" "finger_id f \<notin> ring_ids A s"
    using assms(1,3) by (auto simp: hood_def)
  then show thesis
  proof cases
    case 1
    then obtain n where n: "member A s (finger_addr f) n" "node_id n = finger_id f" by (auto simp: refers_def)
    obtain m c where "t_get_metrics (finger_addr f) s = (Inr (metrics n), later m c s)"
      by (rule get_metrics_run [OF assms(2) memberD(1) [OF n(1)]])
    moreover have "finger_id f \<in> ring_ids A s" using n ring_idsI by metis
    then have "collected A s nd (finger_id f # seen) (ms @ [metrics n])"
      using assms(3,4) n new unfolding collected_def known_def by force
    ultimately show thesis
      using new by (intro that [of "finger_id f # seen" "ms @ [metrics n]" m c]) (auto simp: metrics_step_def act_simps)
  next
    case 2
    obtain e m c where "t_get_metrics (finger_addr f) s = (Inl (RequestException e), later m c s)"
      by (rule get_metrics_dead [OF 2(1)])
    moreover have "collected A s nd (finger_id f # seen) ms" using assms(4) 2(2) by (auto simp: collected_def)
    ultimately show thesis
      using new by (intro that [of "finger_id f # seen" ms m c]) (auto simp: metrics_step_def act_simps)
  qed
qed

lemma metrics_loop:
  fixes s :: "'z net_scheme"
  assumes "hood A s nd" and "lossy s" and "set fs \<subseteq> set (fingers nd)" and "collected A s nd seen ms"
  shows "\<exists>seen' ms' m c. for_each fs metrics_step (seen, ms) s = (Inr (seen', ms'), later m c s) \<and> collected A s nd seen' ms' \<and>
    set seen' = finger_id ` set fs \<union> set seen"
  using assms
proof (induction fs arbitrary: seen ms s)
  case Nil
  then show ?case by (intro exI [of _ seen] exI [of _ ms] exI [of _ 0]) (simp add: act_simps)
next
  case (Cons f fs)
  from Cons.prems have "f \<in> set (fingers nd)" by simp
  with Cons.prems obtain seen1 ms1 m c where one: "metrics_step f (seen, ms) s = (Inr (seen1, ms1), later m c s)"
    "collected A s nd seen1 ms1" "set seen1 = insert (finger_id f) (set seen)"
    by (metis metrics_step_run)
  from Cons.IH [of "later m c s" seen1 ms1] Cons.prems one(2)
  obtain seen' ms' m' c' where "for_each fs metrics_step (seen1, ms1) (later m c s) = (Inr (seen', ms'), later m' c' (later m c s))"
    "collected A s nd seen' ms'" "set seen' = finger_id ` set fs \<union> set seen1"
    by auto
  then show ?case
    using one by (intro exI [of _ seen'] exI [of _ ms'] exI [of _ "m + m'"] exI [of _ "c + c'"]) (auto simp: act_simps)
qed

lemma collect_run:
  fixes s :: "'z net_scheme"
  assumes "hood A s nd" and "lossy s" and "member A s me nd"
  obtains seen ms m c where "collect_ring_metrics me s = (Inr ms, later m c s)" "collected A s nd seen ms"
    "\<forall>i \<in> ring_ids A s. known nd i \<longrightarrow> i \<in> m_node_id ` set ms"
proof -
  have "collected A s nd [node_id nd] [metrics nd]"
    using assms(3) by (auto simp: collected_def known_def intro: ring_idsI)
  from metrics_loop [OF assms(1,2) subset_refl this] obtain seen ms m c where
    run: "for_each (fingers nd) metrics_step ([node_id nd], [metrics nd]) s = (Inr (seen, ms), later m c s)" and
    ms: "collected A s nd seen ms" "set seen = finger_id ` set (fingers nd) \<union> {node_id nd}"
    by auto
  have step: "metrics_step = (\<lambda>f (seen, ms). if finger_id f \<in> set seen then ret (seen, ms)
     else catch (andthen (t_get_metrics (finger_addr f)) (\<lambda>m. ret (finger_id f # seen, ms @ [m])))
            (\<lambda>e. ret (finger_id f # seen, ms)))"
    by (intro ext) (simp add: metrics_step_def)
  have "collect_ring_metrics me s = (Inr ms, later m c s)"
    using run memberD(1) [OF assms(3)] by (simp add: collect_ring_metrics_def act_simps flip: step)
  then show thesis using ms by (intro that [of ms m c seen]) (auto simp: collected_def known_def)
qed

section \<open>Storing a copy\<close>

lemma address_for_run:
  fixes s :: "'z net_scheme"
  assumes hood: "hood A s nd" and me: "member A s me nd" and n: "member A s a n" "known nd (node_id n)"
  shows "address_for fuel me (node_id n) s = (Inr a, s)"
proof (cases "node_id n = node_id nd")
  case True
  then have "a = me" using hood_unique [OF hood n(1) me] by simp
  moreover have "address nd = me" using hood me by (simp add: hood_def)
  ultimately show ?thesis using True memberD(1) [OF me] by (simp add: address_for_def act_simps)
next
  case False
  let ?P = "\<lambda>f. finger_id f = node_id n"
  have "List.find ?P (fingers nd) \<noteq> None" using n(2) False by (auto simp: known_def find_None_iff)
  then obtain f where f: "List.find ?P (fingers nd) = Some f" by blast
  then have "f \<in> set (fingers nd)" "finger_id f = node_id n"
    by (auto simp: find_Some_iff)
  moreover have "node_id n \<in> ring_ids A s" using n(1) by (rule ring_idsI)
  ultimately have "refers A s (finger_ref f)" using hood by (auto simp: hood_def)
  then obtain n' where "member A s (finger_addr f) n'" "node_id n' = node_id n"
    using \<open>finger_id f = node_id n\<close> by (auto simp: refers_def)
  then have "finger_addr f = a" using hood_unique [OF hood _ n(1)] by blast
  then show ?thesis using False f memberD(1) [OF me] by (simp add: address_for_def act_simps)
qed

lemma store_job_run:
  fixes s :: "'z net_scheme"
  assumes hood: "hood A s nd" and lossy: "lossy s" and me: "member A s me nd" and n: "member A s a n"
  obtains m c where "store_job uuids me job a (node_id n) s =
    (Inr (make_job_key_for uuids (node_id n)),
     set_node a (snd (put (make_job_key_for uuids (node_id n)) (JObj job) n)) (later m c s))"
proof (cases "node_id n = node_id nd")
  case True
  then have "a = me" using hood_unique [OF hood n me] by simp
  with True me n show thesis
    by (intro that [of 0 0]) (auto simp: store_job_def Let_def act_simps dest: memberD member_inj)
next
  case False
  let ?key = "make_job_key_for uuids (node_id n)"
  obtain m c where "t_put a ?key (JObj job) s = (Inr (), set_node a (snd (put ?key (JObj job) n)) (later m c s))"
    unfolding t_put_def h_data_put_def by (rule rpc_on_node [OF lossy memberD(1) [OF n]]) auto
  with False memberD(1) [OF me] show thesis by (intro that) (simp add: store_job_def Let_def act_simps)
qed

text \<open>The worker of the member with identifier \<open>i\<close> finds the job at its next scan.\<close>

definition claimable :: "string set \<Rightarrow> 'z net_scheme \<Rightarrow> int \<Rightarrow> string \<Rightarrow> jdict \<Rightarrow> bool" where
  "claimable A s i key job \<longleftrightarrow> (\<exists>a n. member A s a n \<and> node_id n = i \<and> (key, job) \<in> set (scan_pending n))"

lemma in_dset: "(k, v) \<in> set (dset k v d)"
  by (induction d) auto

lemma job_key_for: "\<exists>n. make_job_key_for uuids i = job_key (uuids n)"
proof (cases "List.find (\<lambda>u. sha1_id (job_key u) mod 256 = i mod 256) (List.map uuids [0..<512])")
  case None
  then show ?thesis by (auto simp: make_job_key_for_def)
next
  case (Some u)
  then obtain j where "u = List.map uuids [0..<512] ! j" "j < 512" by (auto simp: find_Some_iff)
  with Some show ?thesis by (auto simp: make_job_key_for_def)
qed

lemma store_claimable:
  assumes "nodes s a = Some n" and "a \<in> A" and "dget job ''status'' = JStr PENDING"
  shows "claimable A (set_node a (snd (put (make_job_key_for uuids (node_id n)) (JObj job) n)) (later m c s))
    (node_id n) (make_job_key_for uuids (node_id n)) job"
proof -
  let ?key = "make_job_key_for uuids (node_id n)"
  let ?n = "snd (put ?key (JObj job) n)"
  have "startswith ?key ''job:''" using job_key_for [of uuids "node_id n"] by (auto simp: job_key_def)
  moreover have "(?key, JObj job) \<in> set (data_store ?n)" using in_dset by (simp add: put_data)
  ultimately have "(?key, job) \<in> set (scan_pending ?n)" using assms(3) by (force simp: scan_pending_def)
  then show ?thesis using assms(1,2) unfolding claimable_def by (intro exI [of _ a] exI [of _ ?n]) (simp add: member_def put_def)
qed

lemma claimable_kept:
  assumes "claimable A s i key job" and "nodes s a = Some n" and "node_id n \<noteq> i"
  shows "claimable A (set_node a n' (later m c s)) i key job"
proof -
  obtain b nb where b: "member A s b nb" "node_id nb = i" "(key, job) \<in> set (scan_pending nb)"
    using assms(1) by (auto simp: claimable_def)
  then have "b \<noteq> a" using assms(2,3) by (auto simp: member_def)
  then show ?thesis using b unfolding claimable_def by (intro exI [of _ b] exI [of _ nb]) (simp add: member_def)
qed

text \<open>The copies, one after the other; what is stored already stays claimable.\<close>

definition copy_step ::
  "nat \<Rightarrow> (nat \<Rightarrow> nat \<Rightarrow> string) \<Rightarrow> string \<Rightarrow> jdict \<Rightarrow> int \<Rightarrow> int \<Rightarrow> nat \<times> (int \<times> string) list
    \<Rightarrow> ('z net_scheme, nat \<times> (int \<times> string) list) act" where
  "copy_step fuel fresh me job target rid acc = (case acc of (i, copies) \<Rightarrow>
     if rid = target then ret (i, copies)
     else
       andthen (address_for fuel me rid) (\<lambda>addr.
       catch (andthen (store_job (fresh (Suc i)) me (replica_of job) addr rid) (\<lambda>key. ret (Suc i, copies @ [(rid, key)])))
         (\<lambda>e. ret (Suc i, copies))))"

definition all_claimable :: "string set \<Rightarrow> 'z net_scheme \<Rightarrow> jdict \<Rightarrow> (int \<times> string) list \<Rightarrow> bool" where
  "all_claimable A s job copies \<longleftrightarrow> (\<forall>(i, key) \<in> set copies. claimable A s i key job)"

lemma known_place: "same_place nd nd' \<Longrightarrow> known nd' = known nd"
  by (simp add: known_def same_place_def fun_eq_iff)

lemma replica_pending: "dget job ''status'' = JStr PENDING \<Longrightarrow> dget (replica_of job) ''status'' = JStr PENDING"
  by (simp add: replica_of_def)

lemma copy_run:
  fixes s :: "'z net_scheme"
  assumes hood: "hood A s nd" and lossy: "lossy s" and me: "member A s me nd" and rid: "rid \<in> ring_ids A s" "known nd rid"
    and job: "dget job ''status'' = JStr PENDING" and other: "rid \<noteq> target" "rid \<notin> fst ` set copies"
    and kept: "claimable A s target key job" "all_claimable A s (replica_of job) copies"
  obtains k s' where "copy_step fuel fresh me job target rid (i, copies) s = (Inr (Suc i, copies @ [(rid, k)]), s')"
    "frame s s'" "claimable A s' target key job" "all_claimable A s' (replica_of job) (copies @ [(rid, k)])"
proof -
  obtain a n where n: "member A s a n" "node_id n = rid" using rid(1) by (auto simp: ring_ids_def)
  let ?k = "make_job_key_for (fresh (Suc i)) rid"
  let ?n = "snd (put ?k (JObj (replica_of job)) n)"
  obtain m c where store: "store_job (fresh (Suc i)) me (replica_of job) a rid s = (Inr ?k, set_node a ?n (later m c s))"
    using store_job_run [OF hood lossy me n(1), of "fresh (Suc i)" "replica_of job"] n(2) by auto
  have "address_for fuel me rid s = (Inr a, s)" using address_for_run [OF hood me n(1)] n(2) rid(2) by simp
  then have "copy_step fuel fresh me job target rid (i, copies) s = (Inr (Suc i, copies @ [(rid, ?k)]), set_node a ?n (later m c s))"
    using store other(1) by (simp add: copy_step_def act_simps)
  moreover have "frame s (set_node a ?n (later m c s))"
    by (rule frame_trans [OF frame_later frame_set_node]) (use memberD [OF n(1)] in \<open>auto simp: put_place\<close>)
  moreover have "claimable A (set_node a ?n (later m c s)) target key job"
    using kept(1) other(1) n by (intro claimable_kept) (auto dest: memberD)
  moreover have "all_claimable A (set_node a ?n (later m c s)) (replica_of job) (copies @ [(rid, ?k)])"
    using kept(2) other(2) n memberD [OF n(1)] store_claimable [of s a n A "replica_of job" "fresh (Suc i)" m c] replica_pending [OF job]
    by (force simp: all_claimable_def intro: claimable_kept)
  ultimately show thesis by (rule that)
qed

lemma copies_loop:
  fixes s :: "'z net_scheme"
  assumes "hood A s nd" and "lossy s" and "member A s me nd" and "\<forall>rid \<in> set rids. rid \<in> ring_ids A s \<and> known nd rid"
    and "dget job ''status'' = JStr PENDING" and "target \<notin> set rids" and "distinct (List.map fst copies @ rids)"
    and "claimable A s target key job" and "all_claimable A s (replica_of job) copies"
  shows "\<exists>i' copies' s'. for_each rids (copy_step fuel fresh me job target) (i, copies) s = (Inr (i', copies'), s') \<and> frame s s' \<and>
    List.map fst copies' = List.map fst copies @ rids \<and> claimable A s' target key job \<and> all_claimable A s' (replica_of job) copies'"
  using assms
proof (induction rids arbitrary: i copies s nd)
  case Nil
  then show ?case by (auto simp: act_simps)
next
  case (Cons rid rids)
  have rid: "rid \<in> ring_ids A s" "known nd rid" "rid \<noteq> target" "rid \<notin> fst ` set copies"
    using Cons.prems by auto
  obtain k s1 where one: "copy_step fuel fresh me job target rid (i, copies) s = (Inr (Suc i, copies @ [(rid, k)]), s1)"
    "frame s s1" "claimable A s1 target key job" "all_claimable A s1 (replica_of job) (copies @ [(rid, k)])"
    by (rule copy_run [OF Cons.prems(1-3) rid(1,2) Cons.prems(5) rid(3,4) Cons.prems(8,9)])
  obtain nd1 where nd1: "member A s1 me nd1" "same_place nd nd1" by (rule frame_member [OF one(2) Cons.prems(3)])
  have "hood A s1 nd1" "lossy s1" using hood_frame [OF one(2) _ nd1(2)] frame_lossy [OF one(2)] Cons.prems by auto
  from Cons.IH [OF this nd1(1) _ Cons.prems(5) _ _ one(3,4), of "Suc i"] Cons.prems(4,6,7)
  obtain i' copies' s' where "for_each rids (copy_step fuel fresh me job target) (Suc i, copies @ [(rid, k)]) s1 = (Inr (i', copies'), s')"
    "frame s1 s'" "List.map fst copies' = List.map fst copies @ rid # rids" "claimable A s' target key job"
    "all_claimable A s' (replica_of job) copies'"
    by (auto simp: frame_ring_ids [OF one(2)] known_place [OF nd1(2)])
  with one show ?case
    by (intro exI [of _ i'] exI [of _ copies'] exI [of _ s']) (auto simp: act_simps intro: frame_trans)
qed

lemma store_copies_eq: "store_copies fuel fresh me job target rids = for_each rids (copy_step fuel fresh me job target) (1, [])"
  unfolding store_copies_def copy_step_def by (simp add: split_def)

section \<open>Properties\<close>

lemma json_body_obj: "json_body (JObj b) = Inr b"
  by (cases b) (simp_all add: json_body_def py_or_def)

lemma in_types: "in_str_set (JStr t) S = Inr (t \<in> set S)"
  by simp

text \<open>A submission whose steps all succeed.\<close>

definition submit_answer :: "jdict \<Rightarrow> string \<Rightarrow> int \<Rightarrow> string \<Rightarrow> (int \<times> string) list \<Rightarrow> jdict" where
  "submit_answer job key target reason copies =
     [(''ok'', JBool True), (''job_id'', dget job ''job_id''), (''primary_key'', JStr key),
      (''stored_at_node'', JInt target), (''placement_reasoning'', JStr reason), (''replicas'', copies_json copies)]"

lemma submit_run:
  assumes "dget_or (JStr ''echo'') b ''type'' = JStr t" "t \<in> set job_types"
    and "py_int (dget_or (JInt 1) b ''replicas'') = Inr requested" "1 \<le> requested" "requested \<le> 10"
    and "collect_ring_metrics me s = (Inr ms, s1)"
    and "job = new_job fresh (JStr t) (dget_or (JObj []) b ''payload'') (clock s1)"
    and "place_job fuel agent me job ms ''no-agent fallback: standard Chord routing'' s1 = (Inr (placed, reason), s2)"
    and "place_copies agent job ms requested placed = Inr (target, rids)"
    and "address_for fuel me target s2 = (Inr addr, s3)"
    and "store_job (fresh (Suc 0)) me job addr target s3 = (Inr key, s4)"
    and "store_copies fuel fresh me job target rids s4 = (Inr (i, copies), s5)"
  shows "submit_job fuel agent fresh me (JObj b) s = (Inr (201, JObj (submit_answer job key target reason copies)), s5)"
  using assms(1-6,8-12) unfolding assms(7)
  by (simp add: submit_job_def endpoint_def act_simps json_body_obj in_types Let_def submit_answer_def)

text \<open>
  The plan for a job: the node its worker claims it at, and the nodes of its copies.
\<close>

lemma place_copies_run:
  assumes "ms \<noteq> []" and "distinct (List.map m_node_id ms)" and "1 \<le> requested" and "replication_llm ag = None"
  obtains rids where
    "place_copies (Some ag) job ms requested (pl_node_id (placement_heuristic ms)) = Inr (pl_node_id (placement_heuristic ms), rids)"
    "distinct (pl_node_id (placement_heuristic ms) # rids)" "set rids \<subseteq> m_node_id ` set ms"
    "int (length rids) + 1 = min requested (int (length ms))"
proof (cases "1 < requested")
  case False
  have "1 \<le> int (length ms)" using assms(1) by (cases ms) simp_all
  then show thesis using False assms(3) by (intro that [of "[]"]) (auto simp: place_copies_def)
next
  case True
  let ?p = "replication_heuristic job ms requested" and ?e = "effective_factor job ms requested"
  have e: "?e = min requested (int (length ms))" "1 \<le> ?e" "?e \<le> int (length ms)"
    using True effective_factor_bounds [OF assms(1,3), of job] by (auto simp: effective_factor_def max_def)
  note kept = plan_kept [OF assms(1,3) refl, of job]
  have first: "primary_node_id ?p = pl_node_id (placement_heuristic ms)"
    by (simp add: placement_first [OF assms(1)] replication_heuristic_def Let_def)
  have len: "int (length (primary_node_id ?p # replica_node_ids ?p)) = ?e" unfolding kept using e(2,3) by simp
  have dist: "distinct (primary_node_id ?p # replica_node_ids ?p)" unfolding kept by (rule kept_distinct [OF assms(2)])
  have "set (primary_node_id ?p # replica_node_ids ?p) \<subseteq> m_node_id ` set ms"
    unfolding kept by (auto dest: in_set_takeD)
  then show thesis
    using True assms(1,4) len dist first e(1)
    by (intro that [of "replica_node_ids ?p"]) (simp_all add: place_copies_def decide_replication_def consult_def)
qed

lemma known_member:
  assumes "stable A s" and "member A s me nd" and "known nd i"
  shows "i \<in> ring_ids A s"
proof (cases "i = node_id nd")
  case True
  then show ?thesis using ring_idsI [OF assms(2)] by simp
next
  case False
  then obtain f where "f \<in> set (fingers nd)" "i = finger_id f" using assms(3) by (auto simp: known_def)
  moreover from this(1) have "refers A s (finger_ref f)" using assms(1,2) by (simp add: stable_def well_placed_def)
  ultimately show ?thesis using refers_ring_ids by fastforce
qed

text \<open>
  The node of the placement rule is a member that the submitter knows, with the least load of
  the members it knows.
\<close>

lemma chosen_node:
  fixes s :: "'z net_scheme"
  assumes st: "stable A s" and ms: "collected A s nd seen ms" "ms \<noteq> []"
    "\<forall>i \<in> ring_ids A s. known nd i \<longrightarrow> i \<in> m_node_id ` set ms"
  obtains a n where "member A s a n" "known nd (node_id n)" "pl_node_id (placement_heuristic ms) = node_id n"
    "\<And>b m. member A s b m \<Longrightarrow> known nd (node_id m) \<Longrightarrow> load_key (metrics n) \<le> load_key (metrics m)"
proof -
  let ?best = "min_load (hd ms) (tl ms)"
  have best: "?best \<in> set ms" "\<forall>x \<in> set ms. load_key ?best \<le> load_key x" "pl_node_id (placement_heuristic ms) = m_node_id ?best"
    using min_load_least [of "hd ms" "tl ms"] ms(2) by (simp_all add: placement_heuristic_def Let_def)
  then obtain a n where n: "member A s a n" "known nd (node_id n)" "?best = metrics n"
    using ms(1) by (auto simp: collected_def)
  have "load_key (metrics n) \<le> load_key (metrics m)" if m: "member A s b m" "known nd (node_id m)" for b m
  proof -
    obtain x where "x \<in> set ms" "m_node_id x = node_id m" using ms(3) m ring_idsI by fastforce
    moreover from this obtain b' m' where "member A s b' m'" "x = metrics m'" using ms(1) by (auto simp: collected_def)
    moreover from calculation have "m' = m" using st m(1) unfolding stable_def member_def by (metis metrics_sel option.inject)
    ultimately show ?thesis using best(2) n(3) by simp
  qed
  with n best(3) show thesis by (intro that) auto
qed

text \<open>
  Storing a pending job at a known member and its copies at others: the worker of each finds
  what it got.
\<close>

lemma stored_with_copies:
  fixes s :: "'z net_scheme"
  assumes hood: "hood A s nd" and lossy: "lossy s" and me: "member A s me nd" and n: "member A s a n" "known nd (node_id n)"
    and pending: "dget job ''status'' = JStr PENDING" and rids: "\<forall>rid \<in> set rids. rid \<in> ring_ids A s \<and> known nd rid"
    and distinct: "distinct (node_id n # rids)"
  obtains key s2 i copies s' where "address_for fuel me (node_id n) s = (Inr a, s)"
    "store_job uuids me job a (node_id n) s = (Inr key, s2)"
    "store_copies fuel fresh me job (node_id n) rids s2 = (Inr (i, copies), s')" "frame s s'" "List.map fst copies = rids"
    "claimable A s' (node_id n) key job" "all_claimable A s' (replica_of job) copies"
proof -
  have addr: "address_for fuel me (node_id n) s = (Inr a, s)" by (rule address_for_run [OF hood me n])
  let ?key = "make_job_key_for uuids (node_id n)"
  obtain m c where store: "store_job uuids me job a (node_id n) s = (Inr ?key, set_node a (snd (put ?key (JObj job) n)) (later m c s))"
    by (rule store_job_run [OF hood lossy me n(1)])
  let ?s2 = "set_node a (snd (put ?key (JObj job) n)) (later m c s)"
  have f2: "frame s ?s2"
    by (rule frame_trans [OF frame_later frame_set_node]) (use memberD [OF n(1)] in \<open>auto simp: put_place\<close>)
  have c2: "claimable A ?s2 (node_id n) ?key job" by (rule store_claimable [OF memberD [OF n(1)] pending])
  obtain nd2 where nd2: "member A ?s2 me nd2" "same_place nd nd2" by (rule frame_member [OF f2 me])
  have "hood A ?s2 nd2" "lossy ?s2" using hood_frame [OF f2 hood nd2(2)] frame_lossy [OF f2] lossy by auto
  moreover have "\<forall>rid \<in> set rids. rid \<in> ring_ids A ?s2 \<and> known nd2 rid"
    using rids by (simp add: frame_ring_ids [OF f2] known_place [OF nd2(2)])
  ultimately obtain i copies s' where "store_copies fuel fresh me job (node_id n) rids ?s2 = (Inr (i, copies), s')" "frame ?s2 s'"
    "List.map fst copies = rids" "claimable A s' (node_id n) ?key job" "all_claimable A s' (replica_of job) copies"
    using copies_loop [of A ?s2 nd2 me rids job "node_id n" "[]" ?key fuel fresh 1] nd2(1) pending distinct c2
    by (auto simp: store_copies_eq all_claimable_def)
  with addr store show thesis by (intro that) (auto intro: frame_trans [OF f2])
qed

text \<open>
  C29. A job that is submitted is run: in a stable ring over a network that loses requests, and
  without language models, \<open>submit_job\<close> accepts a job of a valid type; the worker of the node
  that the answer names finds it at its next scan. That node has the least load among the
  submitter and its fingers. The copies are on other nodes, as many as were asked for as far as
  there are nodes. (And the workers of those nodes find the copies just as well.)
\<close>

theorem submitted_job_claimable:
  fixes s :: "'z net_scheme"
  assumes st: "stable A s" and lossy: "lossy s" and me: "member A s me nd"
    and ag: "placement_llm ag = None" "replication_llm ag = None"
    and body: "dget_or (JStr ''echo'') b ''type'' = JStr t" "t \<in> set job_types"
      "py_int (dget_or (JInt 1) b ''replicas'') = Inr requested" "1 \<le> requested" "requested \<le> 10"
  shows "\<exists>now d target key copies s'. submit_job fuel (Some ag) fresh me (JObj b) s = (Inr (201, JObj d), s') \<and> frame s s' \<and>
    (let job = new_job fresh (JStr t) (dget_or (JObj []) b ''payload'') now in
     dget d ''job_id'' = dget job ''job_id'' \<and> dget d ''stored_at_node'' = JInt target \<and> dget d ''primary_key'' = JStr key \<and>
     dget d ''replicas'' = copies_json copies \<and>
     claimable A s' target key job \<and> all_claimable A s' (replica_of job) copies) \<and>
    distinct (target # List.map fst copies) \<and> int (length copies) + 1 = min requested (int (card (Collect (known nd)))) \<and>
    (\<exists>a n. member A s a n \<and> node_id n = target \<and>
      (\<forall>b m. member A s b m \<longrightarrow> known nd (node_id m) \<longrightarrow> load_key (metrics n) \<le> load_key (metrics m)))"
proof -
  have hood: "hood A s nd" by (rule stable_hood [OF st me])
  obtain seen ms m c where ms: "collect_ring_metrics me s = (Inr ms, later m c s)" "collected A s nd seen ms"
    "\<forall>i \<in> ring_ids A s. known nd i \<longrightarrow> i \<in> m_node_id ` set ms"
    by (rule collect_run [OF hood lossy me])
  let ?s1 = "later m c s"
  let ?job = "new_job fresh (JStr t) (dget_or (JObj []) b ''payload'') (clock ?s1)"
  have ms': "ms \<noteq> []" "distinct (List.map m_node_id ms)" using ms(2) by (auto simp: collected_def)
  obtain a n where n: "member A s a n" "known nd (node_id n)" and target: "pl_node_id (placement_heuristic ms) = node_id n"
    and least: "\<And>b m. member A s b m \<Longrightarrow> known nd (node_id m) \<Longrightarrow> load_key (metrics n) \<le> load_key (metrics m)"
    by (rule chosen_node [OF st ms(2) ms'(1) ms(3)]) blast
  obtain rids where plan: "place_copies (Some ag) ?job ms requested (node_id n) = Inr (node_id n, rids)"
    "distinct (node_id n # rids)" "set rids \<subseteq> m_node_id ` set ms" "int (length rids) + 1 = min requested (int (length ms))"
    using place_copies_run [OF ms' body(4) ag(2), of ?job] unfolding target by blast
  have ids: "m_node_id ` set ms = Collect (known nd)"
    using ms(3) known_member [OF st me] collected_known [OF ms(2)] by blast
  then have card: "card (Collect (known nd)) = length ms" using ms'(2) by (metis distinct_card length_map set_map)
  have pending: "dget ?job ''status'' = JStr PENDING" by (simp add: new_job_def make_job_def dget_or_def)
  have rids: "\<forall>rid \<in> set rids. rid \<in> ring_ids A ?s1 \<and> known nd rid"
    using plan(3) ids known_member [OF st me] by auto
  have later: "hood A ?s1 nd" "lossy ?s1" "member A ?s1 me nd" "member A ?s1 a n" using hood lossy me n by simp_all
  obtain key s2 i copies s' where run: "address_for fuel me (node_id n) ?s1 = (Inr a, ?s1)"
    "store_job (fresh (Suc 0)) me ?job a (node_id n) ?s1 = (Inr key, s2)"
    "store_copies fuel fresh me ?job (node_id n) rids s2 = (Inr (i, copies), s')"
    and f: "frame ?s1 s'" and cop: "List.map fst copies = rids" "claimable A s' (node_id n) key ?job" "all_claimable A s' (replica_of ?job) copies"
    by (rule stored_with_copies [OF later n(2) pending rids plan(2), of fuel "fresh (Suc 0)" fresh])
  let ?why = "pl_reasoning (placement_heuristic ms)" and ?answer = "submit_answer ?job key (node_id n)"
  have "place_job fuel (Some ag) me ?job ms why ?s1 = (Inr (node_id n, ?why), ?s1)" for why
    using ms'(1) ag(1) target by (simp add: place_job_def select_placement_def consult_def act_simps)
  then have "submit_job fuel (Some ag) fresh me (JObj b) s = (Inr (201, JObj (?answer ?why copies)), s')"
    by (rule submit_run [OF body ms(1) refl _ plan(1) run])
  moreover have "frame s s'" by (rule frame_trans [OF frame_later f])
  moreover have "distinct (node_id n # List.map fst copies)" "int (length copies) + 1 = min requested (int (card (Collect (known nd))))"
    using plan(2,4) card cop(1) by (simp, metis length_map)
  ultimately show ?thesis
    using cop(2,3) n(1) least
    by (intro exI [of _ "clock ?s1"] exI [of _ "?answer ?why copies"] exI [of _ "node_id n"] exI [of _ key] exI [of _ copies] exI [of _ s'])
      (auto simp: Let_def dget_or_def submit_answer_def)
qed

definition plain_agents :: orchestrator where
  "plain_agents = \<lparr>placement_llm = None, replication_llm = None, recovery_llm = None\<rparr>"

lemma submitted_job_claimable_witness:
  "\<exists>d target key s' now. submit_job 255 (Some plain_agents) (\<lambda>_ _. ''5f2c'') ''a'' (JObj [(''type'', JStr ''compute''), (''replicas'', JInt 2)]) demo_single
      = (Inr (201, JObj d), s') \<and> dget d ''stored_at_node'' = JInt target \<and> dget d ''primary_key'' = JStr key \<and>
    claimable UNIV s' target key (new_job (\<lambda>_ _. ''5f2c'') (JStr ''compute'') (JObj []) now)"
proof -
  have "member UNIV demo_single ''a'' demo_one" by (simp add: demo_single_member)
  from submitted_job_claimable [OF demo_single_stable demo_single_lossy this, of plain_agents
      "[(''type'', JStr ''compute''), (''replicas'', JInt 2)]" "''compute''" 2 255 "\<lambda>_ _. ''5f2c''"]
  show ?thesis
    unfolding Let_def
    by (auto simp: plain_agents_def dget_or_def job_types_def)
qed

text \<open>No step of a submission writes any key but the ones it makes up.\<close>

lemma keeps_collect: "timeless P \<Longrightarrow> keeps P (collect_ring_metrics me)"
  unfolding collect_ring_metrics_def t_get_metrics_def h_metrics_def split_def by (intro keeps_intro)

lemma keeps_address: "timeless P \<Longrightarrow> keeps P (address_for fuel me target)"
  unfolding address_for_def by (intro keeps_intro)

context data_invariant begin

lemma keeps_store_job:
  assumes "\<And>n. W (job_key (uuids n)) (JObj job)"
  shows "keeps P (store_job uuids me job addr target)"
proof -
  have "W (make_job_key_for uuids target) (JObj job)" using job_key_for [of uuids target] assms by auto
  then show ?thesis unfolding store_job_def Let_def by (intro keeps_intro keeps_put keeps_t_put)
qed

lemma keeps_submit_job:
  assumes "\<And>i n v. W (job_key (fresh (Suc i) n)) v"
  shows "keeps P (submit_job fuel agent fresh me payload)"
proof -
  have "keeps P (store_copies fuel fresh me job target rids)" for job target rids
    unfolding store_copies_def split_def
    by (intro keeps_intro keeps_address keeps_store_job time assms)
  moreover have "keeps P (store_job (fresh (Suc 0)) me job addr target)" for job addr target
    by (intro keeps_store_job assms)
  ultimately show ?thesis
    unfolding submit_job_def endpoint_def Let_def split_def place_job_def One_nat_def
    by (intro keeps_intro keeps_collect keeps_address time)
qed

end

lemma get_job_routed: "get_job fuel me job_id = routed_get fuel me (job_key job_id)"
  by (simp add: get_job_def routed_get_def Let_def)

text \<open>
  C32. A submitted job cannot be looked up: the answer to a submission gives the identifier of the
  job, but the job is stored under another key, so that \<open>/jobs/<job_id>\<close> answers 404 on every
  member afterwards, whatever the submission did. The ring is stable, the network loses requests
  only, and the member that is asked routes the key (its identifier is not the hash of the key,
  or it is alone). Identifiers are made up once: none of the keys tried repeats the identifier of
  the job, and no node has stored it.
\<close>

theorem submitted_job_not_found:
  fixes s :: "'z net_scheme"
  assumes "stable A s" and "lossy s" and "absent (job_key (fresh 0 0)) s" and "\<forall>i n. fresh (Suc i) n \<noteq> fresh 0 0"
    and "submit_job fuel agent fresh me payload s = (r, s')"
    and "member A s' reader rd" and "routes rd (sha1_id (job_key (fresh 0 0)))" and "255 \<le> fuel'"
  shows "\<exists>m c. get_job fuel' reader (fresh 0 0) s' = (Inr (Status 404), later m c s')"
proof -
  let ?key = "job_key (fresh 0 0)"
  have fr: "frame s s'" by (rule keeps_run [OF ring_frame.keeps_submit_job frame_refl assms(5)]) simp
  have "absent ?key s'"
    by (rule keeps_run [OF absent.keeps_submit_job assms(3,5)]) (use assms(4) in \<open>simp add: job_key_def\<close>)
  moreover have "stable A s'" "lossy s'" using frame_stable_imp [OF fr] frame_lossy [OF fr] assms(1,2) by auto
  then obtain q nq m c where "responsible A s' (sha1_id ?key) q"
    "nodes s' (ref_addr q) = Some nq" "routed_get fuel' reader ?key s' = (Inr (found_reply (get ?key nq)), later m c s')"
    by (rule routed_get_run [OF _ _ assms(6-8)])
  moreover from calculation have "get ?key nq = None" by (auto simp: absent_def get_def)
  ultimately have "get_job fuel' reader (fresh 0 0) s' = (Inr (Status 404), later m c s')"
    unfolding get_job_routed by (simp only: found_reply_def option.case)
  then show ?thesis by blast
qed

definition demo_fresh :: "nat \<Rightarrow> nat \<Rightarrow> string" where
  "demo_fresh i n = (if i = 0 then ''x'' else ''y'')"

lemma submitted_job_not_found_witness:
  "\<exists>m c. get_job 255 ''a'' ''x'' (snd (submit_job 255 (Some plain_agents) demo_fresh ''a'' JNull demo_single))
    = (Inr (Status 404), later m c (snd (submit_job 255 (Some plain_agents) demo_fresh ''a'' JNull demo_single)))"
proof -
  let ?run = "submit_job 255 (Some plain_agents) demo_fresh ''a'' JNull demo_single"
  have "absent (job_key (demo_fresh 0 0)) demo_single"
    by (auto simp: absent_def demo_single_def demo_one_def demo_node_def split: if_splits)
  moreover have fr: "frame demo_single (snd ?run)"
    by (rule keepsD [OF ring_frame.keeps_submit_job frame_refl]) simp
  moreover have "member UNIV demo_single ''a'' demo_one" by (simp add: demo_single_member)
  then obtain rd where rd: "member UNIV (snd ?run) ''a'' rd" "same_place demo_one rd"
    by (rule frame_member [OF fr])
  moreover have "routes demo_one k" for k by (simp add: routes_def demo_one_succ) (simp add: demo_one_def demo_refs)
  then have "routes rd k" for k by (simp add: same_place_routes [OF rd(2)])
  ultimately show ?thesis
    using submitted_job_not_found [OF demo_single_stable demo_single_lossy, of demo_fresh 255 "Some plain_agents" "''a''" JNull
        "fst ?run" "snd ?run" "''a''" rd 255]
    by (simp add: demo_fresh_def)
qed

text \<open>The order of a list of jobs whose times are numbers.\<close>

definition newer :: "jdict \<Rightarrow> jdict \<Rightarrow> bool" where
  "newer x y \<longleftrightarrow> the (num_of (created_at y)) \<le> the (num_of (created_at x))"

definition timed :: "jdict \<Rightarrow> bool" where
  "timed j \<longleftrightarrow> num_of (created_at j) \<noteq> None"

lemma newer_trans: "newer x y \<Longrightarrow> newer y z \<Longrightarrow> newer x z"
  by (simp add: newer_def)

lemma not_newer: "\<not> newer x y \<Longrightarrow> newer y x"
  by (simp add: newer_def)

lemma timed_ge: "timed x \<Longrightarrow> timed y \<Longrightarrow> py_ge (created_at x) (created_at y) = Inr (newer x y)"
  by (cases "created_at x"; cases "created_at y") (auto simp: timed_def newer_def)

lemma insert_newest_run:
  assumes "\<forall>x \<in> set (j # js). timed x" and "sorted_wrt newer js"
  shows "\<exists>r. insert_newest j js = Inr r \<and> mset r = mset (j # js) \<and> sorted_wrt newer r"
  using assms
proof (induction js)
  case Nil
  then show ?case by simp
next
  case (Cons x xs)
  show ?case
  proof (cases "newer j x")
    case True
    then have "sorted_wrt newer (j # x # xs)" using Cons.prems(2) newer_trans by auto
    then show ?thesis using True Cons.prems(1) by (simp add: timed_ge)
  next
    case False
    from Cons obtain r where r: "insert_newest j xs = Inr r" "mset r = mset (j # xs)" "sorted_wrt newer r" by auto
    have "set r = set (j # xs)" using r(2) by (rule mset_eq_setD)
    then have "sorted_wrt newer (x # r)" using not_newer [OF False] Cons.prems(2) r(3) by auto
    then show ?thesis using False Cons.prems(1) r by (simp add: timed_ge)
  qed
qed

lemma newest_first_run:
  "\<forall>x \<in> set js. timed x \<Longrightarrow> \<exists>r. newest_first js = Inr r \<and> mset r = mset js \<and> sorted_wrt newer r"
proof (induction js)
  case (Cons j js)
  then obtain r where r: "newest_first js = Inr r" "mset r = mset js" "sorted_wrt newer r" by auto
  have "set r = set js" using r(2) by (rule mset_eq_setD)
  then show ?case using insert_newest_run [of j r] Cons.prems r by auto
qed simp

text \<open>
  The list of jobs: when every job has a number as its time of creation, \<open>list_jobs\<close> returns
  the jobs of the node with the requested status, each once, and the newest first.
\<close>

theorem list_jobs_newest:
  assumes "nodes s me = Some nd" and "\<forall>j \<in> set (jobs_with status nd). timed j"
  shows "\<exists>js. list_jobs me status s = (Inr js, s) \<and> mset js = mset (jobs_with status nd) \<and> sorted_wrt newer js"
  using newest_first_run [OF assms(2)] assms(1) by (auto simp: list_jobs_def act_simps)

lemma list_jobs_newest_witness:
  "\<exists>js. list_jobs ''a'' None (set_node ''a'' (demo_one\<lparr>data_store := [(''job:x'', JObj [(''created_at'', JInt 1)]),
        (''k'', JNull), (''job:y'', JObj [(''created_at'', JInt 2)])]\<rparr>) demo_single)
      = (Inr js, set_node ''a'' (demo_one\<lparr>data_store := [(''job:x'', JObj [(''created_at'', JInt 1)]),
        (''k'', JNull), (''job:y'', JObj [(''created_at'', JInt 2)])]\<rparr>) demo_single) \<and> length js = 2"
proof -
  let ?nd = "demo_one\<lparr>data_store := [(''job:x'', JObj [(''created_at'', JInt 1)]),
        (''k'', JNull), (''job:y'', JObj [(''created_at'', JInt 2)])]\<rparr>"
  have "\<forall>j \<in> set (jobs_with None ?nd). timed j" by (simp add: jobs_with_def timed_def created_at_def dget_or_def)
  then obtain js where "list_jobs ''a'' None (set_node ''a'' ?nd demo_single) = (Inr js, set_node ''a'' ?nd demo_single)"
    "mset js = mset (jobs_with None ?nd)"
    using list_jobs_newest [of "set_node ''a'' ?nd demo_single" "''a''" ?nd None] by auto
  moreover from this(2) have "length js = length (jobs_with None ?nd)" by (rule mset_eq_length)
  ultimately show ?thesis by (simp add: jobs_with_def)
qed

end
