(* ===== verification/Watcher.thy ===== *)
theory Watcher
  imports Placement
begin

text \<open>
  \<open>FailureWatcherThread\<close> of \<open>chord/server.py\<close> compares the
  predecessor with the one of its previous round; when it has disappeared, the copies of jobs
  that this node stores become jobs of their own, and the jobs that the failed node had claimed
  are given to the nodes that are left. What the
  thread remembers between its rounds is an argument and the result of a round; \<open>fresh 0 i\<close> and
  \<open>fresh (Suc i)\<close> are the identifiers made up for the \<open>i\<close>-th job.
\<close>

section \<open>Copies become jobs\<close>

text \<open>A locked section of the process at \<open>a\<close>.\<close>

definition locked :: "string \<Rightarrow> 'a node_act \<Rightarrow> ('z net_scheme, 'a) act" where
  "locked a m = (\<lambda>s. case nodes s a of
      None \<Rightarrow> (Inl (RuntimeError ''no process at this address''), s)
    | Some nd \<Rightarrow> (fst (m nd), set_node a (snd (m nd)) s))"

definition ACTIVE_STATUSES :: "string list" where
  "ACTIVE_STATUSES = [PENDING, CLAIMED, RUNNING]"

definition promoted :: "jdict \<Rightarrow> jdict" where
  "promoted d = dset ''replica_of'' JNull (dset ''started_at'' JNull (dset ''claimed_by'' JNull (dset ''status'' (JStr PENDING) d)))"

definition promote_job :: "string \<Rightarrow> jdict list \<Rightarrow> jdict list node_act" where
  "promote_job key acc =
     andthen (entry key) (\<lambda>e.
     case e of
       Some (JObj d) \<Rightarrow>
         if \<not> startswith key ''job:'' \<or> \<not> truthy (dget d ''replica_of'') then ret acc
         else
           andthen (lift (in_str_set (dget d ''status'') ACTIVE_STATUSES)) (\<lambda>active.
           if active then andthen (store_entry key (promoted d)) (\<lambda>_. ret (acc @ [promoted d]))
           else ret acc)
     | _ \<Rightarrow> ret acc)"

definition promote_replicas :: "jdict list node_act" where
  "promote_replicas = andthen (gets (\<lambda>nd. dkeys (data_store nd))) (\<lambda>keys. for_each keys promote_job [])"

section \<open>Jobs of the failed node\<close>

definition failed_address :: "int \<Rightarrow> chord_node \<Rightarrow> string option" where
  "failed_address gone nd = map_option finger_addr (List.find (\<lambda>f. finger_id f = gone) (fingers nd))"

definition orphan :: "string option \<Rightarrow> string \<times> json \<Rightarrow> exn + bool" where
  "orphan addr item =
     (case item of
        (key, JObj d) \<Rightarrow>
          if \<not> startswith key ''job:'' then Inr False
          else chain (in_str_set (dget d ''status'') ACTIVE_STATUSES) (\<lambda>active.
            Inr (active \<and> \<not> truthy (dget d ''replica_of'') \<and>
              (case addr of None \<Rightarrow> False | Some a \<Rightarrow> dget d ''claimed_by'' = JStr a)))
      | _ \<Rightarrow> Inr False)"

fun orphans_of :: "string option \<Rightarrow> jdict \<Rightarrow> exn + jdict list" where
  "orphans_of addr [] = Inr []"
| "orphans_of addr (item # items) =
     chain (orphan addr item) (\<lambda>b.
     chain (orphans_of addr items) (\<lambda>ds. Inr (if b then dict_of (snd item) # ds else ds)))"

text \<open>The assignments are looked up by the identifier of a job; one that is missing is skipped.\<close>

definition assigned_to :: "int dict \<Rightarrow> json \<Rightarrow> exn + int option" where
  "assigned_to plan v = (case v of JStr j \<Rightarrow> Inr (map_of plan j) | JList _ \<Rightarrow> Inl (TypeError ''unhashable type: list'')
     | JObj _ \<Rightarrow> Inl (TypeError ''unhashable type: dict'') | _ \<Rightarrow> Inr None)"

definition recover_job ::
  "nat \<Rightarrow> (nat \<Rightarrow> nat \<Rightarrow> string) \<Rightarrow> string \<Rightarrow> int dict \<Rightarrow> jdict \<Rightarrow> nat \<Rightarrow> ('z net_scheme, nat) act" where
  "recover_job fuel fresh me plan job i =
     andthen (lift (dindex job ''job_id'')) (\<lambda>job_id.
     andthen (lift (assigned_to plan job_id)) (\<lambda>to.
     case to of
       None \<Rightarrow> ret i
     | Some target \<Rightarrow>
         andthen (address_for fuel me target) (\<lambda>addr.
         andthen (lift (dindex job ''type'')) (\<lambda>job_type.
         andthen (gets clock) (\<lambda>now.
         let again = make_job (seconds now) (fresh 0 i) job_type (dget_or (JObj []) job ''payload'') job_id in
         catch (andthen (store_job (fresh (Suc i)) me again addr target) (\<lambda>_. ret (Suc i)))
           (\<lambda>e. ret (Suc i)))))))"

text \<open>The jobs that the failed node had claimed, as the state \<open>nd\<close> of this node has them, go to the surviving nodes.\<close>

definition reassign ::
  "nat \<Rightarrow> orchestrator \<Rightarrow> (nat \<Rightarrow> nat \<Rightarrow> string) \<Rightarrow> string \<Rightarrow> int \<Rightarrow> node_metrics list \<Rightarrow> chord_node \<Rightarrow> ('z net_scheme, unit) act" where
  "reassign fuel agent fresh me gone surviving nd =
     andthen (lift (orphans_of (failed_address gone nd) (data_store nd))) (\<lambda>orphaned.
     if orphaned = [] then ret ()
     else
       andthen (lift (plan_recovery (recovery_llm agent) gone orphaned surviving)) (\<lambda>plan.
       andthen (for_each orphaned (recover_job fuel fresh me plan) 0) (\<lambda>_. ret ())))"

text \<open>\<open>_recover\<close>\<close>

definition recover_from ::
  "nat \<Rightarrow> orchestrator \<Rightarrow> (nat \<Rightarrow> nat \<Rightarrow> string) \<Rightarrow> string \<Rightarrow> int \<Rightarrow> ('z net_scheme, unit) act" where
  "recover_from fuel agent fresh me gone =
     andthen (collect_ring_metrics me) (\<lambda>ms.
     let surviving = filter (\<lambda>m. m_node_id m \<noteq> gone) ms in
     if surviving = [] then ret ()
     else
       andthen (locked me promote_replicas) (\<lambda>promoted_jobs.
       andthen (read_node me (\<lambda>nd. nd)) (reassign fuel agent fresh me gone surviving)))"

text \<open>\<open>_check\<close>, and one round of the loop: after an exception the thread remembers what it knew.\<close>

definition watch ::
  "nat \<Rightarrow> orchestrator \<Rightarrow> (nat \<Rightarrow> nat \<Rightarrow> string) \<Rightarrow> string \<Rightarrow> int option \<Rightarrow> ('z net_scheme, int option) act" where
  "watch fuel agent fresh me last_pred =
     andthen (read_node me predecessor) (\<lambda>pred.
     let current = map_option ref_id pred in
     andthen (case (last_pred, current) of
         (Some gone, None) \<Rightarrow> recover_from fuel agent fresh me gone
       | _ \<Rightarrow> ret ()) (\<lambda>_.
     ret current))"

definition watch_round ::
  "nat \<Rightarrow> orchestrator \<Rightarrow> (nat \<Rightarrow> nat \<Rightarrow> string) \<Rightarrow> string \<Rightarrow> int option \<Rightarrow> ('z net_scheme, int option) act" where
  "watch_round fuel agent fresh me last_pred = catch (watch fuel agent fresh me last_pred) (\<lambda>e. ret last_pred)"

section \<open>Lemmas\<close>

lemma run_locked [act_simps]:
  "locked a m s = (case nodes s a of
      None \<Rightarrow> (Inl (RuntimeError ''no process at this address''), s)
    | Some nd \<Rightarrow> (fst (m nd), set_node a (snd (m nd)) s))"
  by (simp add: locked_def)

text \<open>A copy of a job that is not finished, and what the promotion makes of the store.\<close>

definition is_copy :: "string \<times> json \<Rightarrow> bool" where
  "is_copy item \<longleftrightarrow> startswith (fst item) ''job:'' \<and> is_dict (snd item) \<and> truthy (dget (dict_of (snd item)) ''replica_of'') \<and>
     dget (dict_of (snd item)) ''status'' \<in> JStr ` set ACTIVE_STATUSES"

definition promoted_item :: "string \<times> json \<Rightarrow> string \<times> json" where
  "promoted_item item = (if is_copy item then (fst item, JObj (promoted (dict_of (snd item)))) else item)"

definition plain_status :: "string \<times> json \<Rightarrow> bool" where
  "plain_status item \<longleftrightarrow>
     (case snd item of JObj d \<Rightarrow> (case dget d ''status'' of JList _ \<Rightarrow> False | JObj _ \<Rightarrow> False | _ \<Rightarrow> True) | _ \<Rightarrow> True)"

lemma plain_in_set: "plain_status (k, JObj d) \<Longrightarrow> in_str_set (dget d ''status'') S = Inr (dget d ''status'' \<in> JStr ` set S)"
  by (cases "dget d ''status''") (auto simp: plain_status_def)

lemma update_middle: "k \<notin> set (dkeys xs) \<Longrightarrow> dset k v (xs @ (k, w) # ys) = xs @ (k, v) # ys"
  by (induction xs) (auto simp: dkeys_def)

lemma map_of_middle: "k \<notin> set (dkeys xs) \<Longrightarrow> map_of (xs @ (k, w) # ys) k = Some w"
  by (induction xs) (auto simp: dkeys_def)

lemma section_middle:
  assumes "k \<notin> set (dkeys xs)"
  shows "entry k (nd\<lparr>data_store := xs @ (k, v) # ys\<rparr>) = (Inr (Some v), nd\<lparr>data_store := xs @ (k, v) # ys\<rparr>)"
    "store_entry k d (nd\<lparr>data_store := xs @ (k, v) # ys\<rparr>) = (Inr (), nd\<lparr>data_store := xs @ (k, JObj d) # ys\<rparr>)"
  using map_of_middle [OF assms, of v ys] update_middle [OF assms, of "JObj d" v ys]
  by (simp_all add: entry_def store_entry_def act_simps del: map_of_append)

lemma promote_one:
  assumes "k \<notin> set (dkeys xs)" and "plain_status (k, v)"
  shows "promote_job k acc (nd\<lparr>data_store := xs @ (k, v) # ys\<rparr>) =
    (Inr (acc @ (if is_copy (k, v) then [promoted (dict_of v)] else [])), nd\<lparr>data_store := xs @ promoted_item (k, v) # ys\<rparr>)"
proof (cases v)
  case (JObj d)
  then show ?thesis
    using assms plain_in_set [of k d ACTIVE_STATUSES]
    by (simp add: promote_job_def act_simps section_middle promoted_item_def is_copy_def)
qed (use assms(1) in \<open>simp_all add: promote_job_def act_simps section_middle promoted_item_def is_copy_def\<close>)

lemma promote_all:
  assumes "distinct (dkeys (xs @ ys))" and "\<forall>item \<in> set ys. plain_status item"
  shows "for_each (dkeys ys) promote_job acc (nd\<lparr>data_store := xs @ ys\<rparr>) =
    (Inr (acc @ List.map (\<lambda>item. promoted (dict_of (snd item))) (filter is_copy ys)),
     nd\<lparr>data_store := xs @ List.map promoted_item ys\<rparr>)"
  using assms
proof (induction ys arbitrary: xs acc)
  case Nil
  then show ?case by (simp add: dkeys_def act_simps)
next
  case (Cons item ys)
  obtain k v where item: "item = (k, v)" by (cases item)
  have "fst (promoted_item (k, v)) = k" by (simp add: promoted_item_def)
  then have "distinct (dkeys ((xs @ [promoted_item (k, v)]) @ ys))" using Cons.prems(1) by (simp add: dkeys_def item)
  from Cons.IH [OF this] Cons.prems show ?case
    using promote_one [of k xs v acc] by (simp add: item dkeys_def act_simps)
qed

lemma promote_replicas_run:
  assumes "wf_dict (data_store nd)" and "\<forall>item \<in> set (data_store nd). plain_status item"
  shows "promote_replicas nd =
    (Inr (List.map (\<lambda>item. promoted (dict_of (snd item))) (filter is_copy (data_store nd))),
     nd\<lparr>data_store := List.map promoted_item (data_store nd)\<rparr>)"
  using promote_all [of "[]" "data_store nd" "[]" nd] assms by (simp add: promote_replicas_def act_simps wf_dict_def)

text \<open>Recovered jobs stay claimable while more are stored, as their keys are made up anew.\<close>

lemma set_dset_other: "item \<in> set d \<Longrightarrow> fst item \<noteq> k \<Longrightarrow> item \<in> set (dset k v d)"
  by (induction d) auto

lemma claimable_other_key:
  assumes "claimable A s i key job" and "nodes s a = Some n" and "key' \<noteq> key"
  shows "claimable A (set_node a (snd (put key' v n)) (later m c s)) i key job"
proof -
  obtain b nb where b: "member A s b nb" "node_id nb = i" "(key, job) \<in> set (scan_pending nb)"
    using assms(1) by (auto simp: claimable_def)
  show ?thesis
  proof (cases "b = a")
    case False
    then show ?thesis using b unfolding claimable_def by (intro exI [of _ b] exI [of _ nb]) (simp add: member_def)
  next
    case True
    then have "nb = n" using b(1) assms(2) by (simp add: member_def)
    moreover have "(key, job) \<in> set (scan_pending (snd (put key' v nb)))"
      using b(3) assms(3) set_dset_other [of _ "data_store nb" key' v] by (force simp: scan_pending_def put_data)
    ultimately show ?thesis
      using b True unfolding claimable_def
      by (intro exI [of _ b] exI [of _ "snd (put key' v nb)"]) (simp add: member_def put_def)
  qed
qed

text \<open>A job of the failed node, queued again as \<open>job'\<close> at the node \<open>target\<close>.\<close>

definition again :: "jdict \<Rightarrow> jdict \<Rightarrow> bool" where
  "again job job' \<longleftrightarrow> (\<exists>now u. job' = make_job now u (dget job ''type'') (dget_or (JObj []) job ''payload'') (dget job ''job_id''))"

definition recovered :: "string set \<Rightarrow> 'z net_scheme \<Rightarrow> (nat \<Rightarrow> nat \<Rightarrow> string) \<Rightarrow> nat \<Rightarrow> int dict \<Rightarrow> jdict \<Rightarrow> bool" where
  "recovered A s fresh k plan job \<longleftrightarrow> (\<exists>target i n job'. map_of plan (str_of (dget job ''job_id'')) = Some target \<and> i < k \<and>
     again job job' \<and> claimable A s target (job_key (fresh (Suc i) n)) job')"

definition recoverable :: "string set \<Rightarrow> 'z net_scheme \<Rightarrow> chord_node \<Rightarrow> int dict \<Rightarrow> jdict \<Rightarrow> bool" where
  "recoverable A s nd plan job \<longleftrightarrow> (\<exists>j t target. map_of job ''job_id'' = Some (JStr j) \<and> map_of job ''type'' = Some t \<and>
     map_of plan j = Some target \<and> target \<in> ring_ids A s \<and> known nd target)"

text \<open>Identifiers that are made up for different purposes differ.\<close>

definition numbered :: "(nat \<Rightarrow> nat \<Rightarrow> string) \<Rightarrow> bool" where
  "numbered fresh \<longleftrightarrow> (\<forall>i n j m. fresh i n = fresh j m \<longrightarrow> i = j)"

lemma recover_job_run:
  fixes s :: "'z net_scheme"
  assumes hood: "hood A s nd" and lossy: "lossy s" and me: "member A s me nd" and job: "recoverable A s nd plan job"
    and fresh: "numbered fresh"
  obtains s' where "recover_job fuel fresh me plan job k s = (Inr (Suc k), s')" "frame s s'" "recovered A s' fresh (Suc k) plan job"
    "\<And>j. recovered A s fresh k plan j \<Longrightarrow> recovered A s' fresh (Suc k) plan j"
proof -
  obtain j t target where job: "map_of job ''job_id'' = Some (JStr j)" "map_of job ''type'' = Some t"
    "map_of plan j = Some target" "target \<in> ring_ids A s" "known nd target"
    using job by (auto simp: recoverable_def)
  obtain a n where n: "member A s a n" "node_id n = target" using job(4) by (auto simp: ring_ids_def)
  let ?job = "make_job (seconds (clock s)) (fresh 0 k) t (dget_or (JObj []) job ''payload'') (JStr j)"
  let ?key = "make_job_key_for (fresh (Suc k)) target"
  let ?n = "snd (put ?key (JObj ?job) n)"
  obtain m c where store: "store_job (fresh (Suc k)) me ?job a target s = (Inr ?key, set_node a ?n (later m c s))"
    using store_job_run [OF hood lossy me n(1), of "fresh (Suc k)" ?job] n(2) by auto
  let ?s' = "set_node a ?n (later m c s)"
  have "address_for fuel me target s = (Inr a, s)" using address_for_run [OF hood me n(1)] n(2) job(5) by simp
  then have run: "recover_job fuel fresh me plan job k s = (Inr (Suc k), ?s')"
    using store job(1-3) by (simp add: recover_job_def act_simps dindex_def assigned_to_def Let_def)
  have fr: "frame s ?s'"
    by (rule frame_trans [OF frame_later frame_set_node]) (use memberD [OF n(1)] in \<open>auto simp: put_place\<close>)
  obtain u where u: "?key = job_key (fresh (Suc k) u)"
    using job_key_for by blast
  have "claimable A ?s' target ?key ?job"
    using store_claimable [of s a n A ?job "fresh (Suc k)" m c] memberD [OF n(1)] n(2) by (simp add: make_job_def dget_or_def)
  then have new: "recovered A ?s' fresh (Suc k) plan job"
    using job(1-3) u unfolding recovered_def again_def
    by (intro exI [of _ target] exI [of _ k] exI [of _ u] exI [of _ ?job]) (auto simp: dget_or_def)
  have "recovered A ?s' fresh (Suc k) plan j'" if old: "recovered A s fresh k plan j'" for j'
  proof -
    obtain target' i n' job' where old: "map_of plan (str_of (dget j' ''job_id'')) = Some target'" "i < k" "again j' job'"
      "claimable A s target' (job_key (fresh (Suc i) n')) job'"
      using old by (auto simp: recovered_def)
    have "?key \<noteq> job_key (fresh (Suc i) n')" using fresh old(2) by (force simp: u job_key_def numbered_def)
    then have "claimable A ?s' target' (job_key (fresh (Suc i) n')) job'"
      using old(4) memberD(1) [OF n(1)] by (intro claimable_other_key)
    then show ?thesis using old(1-3) unfolding recovered_def by (meson less_SucI)
  qed
  with run fr new show thesis by (rule that)
qed

lemma recover_loop:
  fixes s :: "'z net_scheme"
  assumes "hood A s nd" and "lossy s" and "member A s me nd" and "\<forall>job \<in> set jobs. recoverable A s nd plan job"
    and fresh: "numbered fresh"
  shows "\<exists>k' s'. for_each jobs (recover_job fuel fresh me plan) k s = (Inr k', s') \<and> frame s s' \<and>
    (\<forall>job. job \<in> set jobs \<or> recovered A s fresh k plan job \<longrightarrow> recovered A s' fresh k' plan job)"
  using assms(1-4)
proof (induction jobs arbitrary: k s nd)
  case Nil
  then show ?case by (auto simp: act_simps)
next
  case (Cons job jobs)
  obtain s1 where one: "recover_job fuel fresh me plan job k s = (Inr (Suc k), s1)" "frame s s1"
    "recovered A s1 fresh (Suc k) plan job" "\<And>j. recovered A s fresh k plan j \<Longrightarrow> recovered A s1 fresh (Suc k) plan j"
    by (rule recover_job_run [OF Cons.prems(1-3) _ fresh, where fuel = fuel and k = k]) (use Cons.prems(4) in auto)
  obtain nd1 where nd1: "member A s1 me nd1" "same_place nd nd1" by (rule frame_member [OF one(2) Cons.prems(3)])
  have "hood A s1 nd1" "lossy s1" using hood_frame [OF one(2) _ nd1(2)] frame_lossy [OF one(2)] Cons.prems by auto
  moreover have "\<forall>job \<in> set jobs. recoverable A s1 nd1 plan job"
    using Cons.prems(4) by (simp add: recoverable_def frame_ring_ids [OF one(2)] known_place [OF nd1(2)])
  ultimately obtain k' s' where "for_each jobs (recover_job fuel fresh me plan) (Suc k) s1 = (Inr k', s')" "frame s1 s'"
    "\<forall>job. job \<in> set jobs \<or> recovered A s1 fresh (Suc k) plan job \<longrightarrow> recovered A s' fresh k' plan job"
    using Cons.IH [OF _ _ nd1(1), of "Suc k"] by blast
  with one show ?case by (intro exI [of _ k'] exI [of _ s']) (auto simp: act_simps intro: frame_trans)
qed

lemma orphans_none: "\<forall>item \<in> set items. plain_status item \<Longrightarrow> orphans_of None items = Inr []"
proof (induction items)
  case (Cons item items)
  obtain k v where "item = (k, v)" by (cases item)
  then show ?case using Cons plain_in_set [of k _ ACTIVE_STATUSES] by (cases v) (auto simp: orphan_def)
qed simp

lemma plain_promoted: "plain_status item \<Longrightarrow> plain_status (promoted_item item)"
  by (auto simp: promoted_item_def plain_status_def promoted_def)

lemma survivors:
  assumes "\<forall>i \<in> ring_ids A s. known nd i \<longrightarrow> i \<in> m_node_id ` set ms" and "member A s me nd" and "gone \<noteq> node_id nd"
  shows "filter (\<lambda>m. m_node_id m \<noteq> gone) ms \<noteq> []"
proof -
  have "node_id nd \<in> m_node_id ` set ms" using assms(1) ring_idsI [OF assms(2)] by (simp add: known_def)
  then show ?thesis using assms(3) by (force simp: filter_empty_conv)
qed

lemma plan_lookup: "k \<in> set (dkeys plan) \<Longrightarrow> \<exists>t. map_of plan k = Some t \<and> t \<in> snd ` set plan"
proof -
  assume "k \<in> set (dkeys plan)"
  then have "map_of plan k \<noteq> None" by (simp add: map_of_eq_None_iff dkeys_def)
  then obtain t where t: "map_of plan k = Some t" by blast
  then have "(k, t) \<in> set plan" by (rule map_of_SomeD)
  then show ?thesis using t by force
qed

text \<open>A promoted copy was claimed by no one, so the promotion makes no orphans.\<close>

lemma orphans_promoted:
  assumes "\<forall>item \<in> set items. plain_status item"
  shows "orphans_of addr (List.map promoted_item items) = orphans_of addr items"
  using assms
proof (induction items)
  case (Cons item items)
  obtain k v where item: "item = (k, v)" by (cases item)
  have "orphan addr (promoted_item (k, v)) = orphan addr (k, v) \<and>
      (orphan addr (k, v) = Inr True \<longrightarrow> promoted_item (k, v) = (k, v))"
  proof (cases "is_copy (k, v)")
    case True
    then obtain d where d: "v = JObj d" by (cases v) (auto simp: is_copy_def)
    have "orphan addr (k, JObj d) = Inr False"
      using True Cons.prems plain_in_set [of k d ACTIVE_STATUSES] by (auto simp: orphan_def is_copy_def item d)
    moreover have "orphan addr (k, JObj (promoted d)) = Inr False"
      using plain_in_set [of k "promoted d" ACTIVE_STATUSES] by (auto simp: orphan_def promoted_def plain_status_def split: option.split)
    ultimately show ?thesis using True by (simp add: promoted_item_def d)
  qed (simp add: promoted_item_def)
  then show ?case
    using Cons by (cases "orphan addr (k, v) = Inr True"; cases "orphan addr (k, v)") (auto simp: item)
qed simp

text \<open>What is stored under a key that is not made up for a recovered job stays.\<close>

context data_invariant begin

lemma keeps_recover_job:
  assumes "\<And>i n v. W (job_key (fresh (Suc i) n)) v"
  shows "keeps P (recover_job fuel fresh me plan job i)"
  unfolding recover_job_def Let_def by (intro keeps_intro keeps_address keeps_store_job time assms)

end

text \<open>The first half of a recovery: the metrics are collected and the copies promoted.\<close>

lemma recovery_starts:
  fixes s :: "'z net_scheme"
  assumes hood: "hood A s nd" and lossy: "lossy s" and me: "member A s me nd" and gone: "gone \<noteq> node_id nd"
    and wf: "wf_dict (data_store nd)" and plain: "\<forall>item \<in> set (data_store nd). plain_status item"
  obtains seen ms m c where "collected A s nd seen ms" "filter (\<lambda>m. m_node_id m \<noteq> gone) ms \<noteq> []"
    "\<And>fuel agent fresh. recover_from fuel agent fresh me gone s =
       reassign fuel agent fresh me gone (filter (\<lambda>m. m_node_id m \<noteq> gone) ms) (nd\<lparr>data_store := List.map promoted_item (data_store nd)\<rparr>)
       (set_node me (nd\<lparr>data_store := List.map promoted_item (data_store nd)\<rparr>) (later m c s))"
proof -
  obtain seen ms m c where ms: "collect_ring_metrics me s = (Inr ms, later m c s)" "collected A s nd seen ms"
    "\<forall>i \<in> ring_ids A s. known nd i \<longrightarrow> i \<in> m_node_id ` set ms"
    by (rule collect_run [OF hood lossy me])
  let ?nd = "nd\<lparr>data_store := List.map promoted_item (data_store nd)\<rparr>"
  have left: "filter (\<lambda>m. m_node_id m \<noteq> gone) ms \<noteq> []" by (rule survivors [OF ms(3) me gone])
  show thesis
    using ms(1) left memberD(1) [OF me] promote_replicas_run [OF wf plain]
    by (intro that [OF ms(2) left, of m c]) (simp add: recover_from_def act_simps Let_def)
qed

lemma watch_recovers:
  assumes "nodes s me = Some nd" and "predecessor nd = None"
  shows "snd (watch_round fuel agent fresh me (Some gone) s) = snd (recover_from fuel agent fresh me gone s)"
    and "recover_from fuel agent fresh me gone s = (Inr (), s') \<Longrightarrow> watch_round fuel agent fresh me (Some gone) s = (Inr None, s')"
  using assms by (auto simp: watch_round_def watch_def act_simps Let_def split: prod.split sum.split)

section \<open>Properties\<close>

text \<open>
  C33. When the predecessor of a node disappears, every unfinished copy of a job that the node
  stores is made a pending job again, running ones included, and whichever other node it was that
  failed: the code comment restricts this to jobs whose primary was on the failed node, but no
  such test is made. What else the node stored is unchanged after the round. The fingers of the
  node may still name the failed node or other dead ones, requests may be lost, and the agents may
  decide as they like; the statuses stored are texts, and the keys made up for the jobs that are
  recovered after the promotion are new.
\<close>

theorem copies_promoted_for_any_failure:
  fixes s :: "'z net_scheme"
  assumes hood: "hood A s nd" and lossy: "lossy s" and me: "member A s me nd" and pred: "predecessor nd = None"
    and gone: "gone \<noteq> node_id nd"
    and wf: "wf_dict (data_store nd)" and plain: "\<forall>item \<in> set (data_store nd). plain_status item"
    and fresh: "\<forall>i n. job_key (fresh (Suc i) n) \<notin> set (dkeys (data_store nd))"
    and item: "item \<in> set (data_store nd)"
  shows "stored me (fst item) (Some (snd (promoted_item item))) (snd (watch_round fuel agent fresh me (Some gone) s))"
proof -
  obtain seen ms m c where run: "recover_from fuel agent fresh me gone s =
       reassign fuel agent fresh me gone (filter (\<lambda>m. m_node_id m \<noteq> gone) ms) (nd\<lparr>data_store := List.map promoted_item (data_store nd)\<rparr>)
       (set_node me (nd\<lparr>data_store := List.map promoted_item (data_store nd)\<rparr>) (later m c s))"
    by (rule recovery_starts [OF hood lossy me gone wf plain]) blast
  let ?s1 = "set_node me (nd\<lparr>data_store := List.map promoted_item (data_store nd)\<rparr>) (later m c s)"
  have same: "fst (promoted_item i) = fst i" for i by (simp add: promoted_item_def)
  then have "dkeys (List.map promoted_item (data_store nd)) = dkeys (data_store nd)" by (simp add: dkeys_def comp_def)
  then have "distinct (List.map fst (List.map promoted_item (data_store nd)))" using wf by (simp only: wf_dict_def dkeys_def)
  moreover have "(fst item, snd (promoted_item item)) \<in> set (List.map promoted_item (data_store nd))"
    using item same [of item] by (metis image_eqI list.set_map prod.collapse)
  ultimately have "map_of (List.map promoted_item (data_store nd)) (fst item) = Some (snd (promoted_item item))"
    by (rule map_of_is_SomeI)
  then have "stored me (fst item) (Some (snd (promoted_item item))) ?s1" by (simp add: stored_def)
  moreover have "job_key (fresh (Suc i) n) \<noteq> fst item" for i n using fresh item by (force simp: dkeys_def)
  then have "keeps (stored me (fst item) (Some (snd (promoted_item item)))) (reassign fuel agent fresh me gone ms' nd')" for ms' nd'
    unfolding reassign_def by (intro keeps_intro other_key.keeps_recover_job)
  ultimately show ?thesis using run watch_recovers(1) [OF memberD(1) [OF me] pred] by (metis keepsD)
qed

text \<open>A job whose plan names a node that gave its metrics can be stored there again.\<close>

lemma plan_recoverable:
  fixes s :: "'z net_scheme"
  assumes ms: "collected A s nd seen ms"
    and plan: "map_of plan (str_of (dget job ''job_id'')) = Some i" "i \<in> m_node_id ` set ms"
    and job: "\<exists>j. map_of job ''job_id'' = Some (JStr j)" "\<exists>t. map_of job ''type'' = Some t"
  shows "recoverable A s nd plan job"
proof -
  obtain a n where "member A s a n" "known nd (node_id n)" "i = node_id n"
    using ms plan(2) by (force simp: collected_def)
  then have "i \<in> ring_ids A s" "known nd i" by (auto intro: ring_idsI)
  then show ?thesis using plan(1) job by (auto simp: recoverable_def dget_or_def)
qed

text \<open>
  C31. The jobs of a failed predecessor are run again: over a network that loses requests, in a
  ring whose fingers still name the failed node, and without a language model, each unfinished job
  that the node stores and that the failed node had claimed, copies excepted, is made anew with
  its identifier, type and payload, and the worker of some member finds it at its next scan. The
  identifiers of these jobs differ, they have a type, and the identifiers made up for their keys
  are new; what else the node stores, copies that are promoted included, is of no account as long
  as its statuses are texts.
\<close>

theorem orphans_claimable:
  fixes s :: "'z net_scheme"
  assumes hood: "hood A s nd" and lossy: "lossy s" and me: "member A s me nd" and pred: "predecessor nd = None"
    and gone: "gone \<notin> ring_ids A s" and llm: "recovery_llm agent = None" and fresh: "numbered fresh"
    and wf: "wf_dict (data_store nd)" and plain: "\<forall>item \<in> set (data_store nd). plain_status item"
    and jobs: "orphans_of (failed_address gone nd) (data_store nd) = Inr jobs" "distinct (job_ids jobs)"
      "\<forall>job \<in> set jobs. (\<exists>j. map_of job ''job_id'' = Some (JStr j)) \<and> (\<exists>t. map_of job ''type'' = Some t)"
  shows "\<exists>s'. watch_round fuel agent fresh me (Some gone) s = (Inr None, s') \<and> frame s s' \<and>
    (\<forall>job \<in> set jobs. \<exists>target key job'. target \<noteq> gone \<and> again job job' \<and> claimable A s' target key job')"
proof -
  have other: "gone \<noteq> node_id nd" using gone ring_idsI [OF me] by auto
  let ?nd = "nd\<lparr>data_store := List.map promoted_item (data_store nd)\<rparr>"
  obtain seen ms m c where ms: "collected A s nd seen ms" and left: "filter (\<lambda>m. m_node_id m \<noteq> gone) ms \<noteq> []"
    and run: "\<And>fuel agent fresh. recover_from fuel agent fresh me gone s =
       reassign fuel agent fresh me gone (filter (\<lambda>m. m_node_id m \<noteq> gone) ms) (nd\<lparr>data_store := List.map promoted_item (data_store nd)\<rparr>)
       (set_node me ?nd (later m c s))"
    by (rule recovery_starts [OF hood lossy me other wf plain]) blast
  let ?s1 = "set_node me ?nd (later m c s)"
  have fr: "frame s ?s1"
    by (rule frame_trans [OF frame_later frame_set_node]) (use memberD(1) [OF me] in \<open>simp_all add: same_place_def\<close>)
  have me1: "member A ?s1 me ?nd" using me by (simp add: member_def)
  have place: "same_place nd ?nd" by (simp add: same_place_def)
  have ids: "\<forall>job \<in> set jobs. \<exists>j. map_of job ''job_id'' = Some (JStr j)" using jobs(3) by blast
  define plan where "plan = zip (job_ids jobs) (List.map (turn (filter (\<lambda>m. m_node_id m \<noteq> gone) ms)) [0..<length jobs])"
  note plan = recovery_plan [OF ids jobs(2) left plan_def]
  have target: "\<exists>t. map_of plan (str_of (dget job ''job_id'')) = Some t \<and> t \<noteq> gone \<and> t \<in> m_node_id ` set ms" if "job \<in> set jobs" for job
  proof -
    have "str_of (dget job ''job_id'') \<in> set (dkeys plan)" unfolding plan(2) using that by (auto simp: job_ids_def)
    from plan_lookup [OF this] plan(4) show ?thesis by auto
  qed
  have "recoverable A ?s1 ?nd plan job" if "job \<in> set jobs" for job
  proof -
    have "recoverable A s nd plan job"
      using target [OF that] plan_recoverable [OF ms, of plan job] bspec [OF jobs(3) that] by (elim exE conjE) simp
    then show ?thesis by (simp add: recoverable_def frame_ring_ids [OF fr] known_place [OF place])
  qed
  then obtain k' s' where loop: "for_each jobs (recover_job fuel fresh me plan) 0 ?s1 = (Inr k', s')" "frame ?s1 s'"
    "\<forall>job \<in> set jobs. recovered A s' fresh k' plan job"
    using recover_loop [OF hood_frame [OF fr hood place] _ me1, of jobs plan fresh fuel 0] frame_lossy [OF fr] lossy fresh by auto
  have "recover_from fuel agent fresh me gone s = (Inr (), if jobs = [] then ?s1 else s')"
    unfolding run reassign_def using jobs(1) orphans_promoted [OF plain] plan(1) llm loop(1) by (simp add: act_simps failed_address_def)
  then have "watch_round fuel agent fresh me (Some gone) s = (Inr None, if jobs = [] then ?s1 else s')"
    by (rule watch_recovers(2) [OF memberD(1) [OF me] pred])
  moreover have "frame s (if jobs = [] then ?s1 else s')" using fr loop(2) by (auto intro: frame_trans)
  moreover have "\<exists>target key job'. target \<noteq> gone \<and> again job job' \<and> claimable A s' target key job'" if "job \<in> set jobs" for job
    using loop(3) target [OF that] that unfolding recovered_def by fastforce
  ultimately show ?thesis by (intro exI [of _ "if jobs = [] then ?s1 else s'"]) auto
qed

text \<open>A node that is left of a ring of two, its fingers naming the one that failed.\<close>

definition running_copy :: jdict where
  "running_copy = [(''job_id'', JStr ''x''), (''type'', JStr ''echo''), (''status'', JStr ''running''), (''replica_of'', JStr ''x'')]"

definition claimed_elsewhere :: jdict where
  "claimed_elsewhere = [(''job_id'', JStr ''x''), (''type'', JStr ''echo''), (''status'', JStr ''claimed''), (''claimed_by'', JStr ''b'')]"

definition left_node :: chord_node where
  "left_node = demo10\<lparr>predecessor := None,
     data_store := [(''job:k'', JObj claimed_elsewhere), (''job:m'', JObj running_copy)]\<rparr>"

definition left_behind :: net where
  "left_behind = \<lparr>nodes = [''a'' \<mapsto> left_node], fault = (\<lambda>n a. Delivered), sent = 0, clock = 0\<rparr>"

definition unary_fresh :: "nat \<Rightarrow> nat \<Rightarrow> string" where
  "unary_fresh i n = replicate (Suc i) CHR ''u''"

lemma left_member: "member UNIV left_behind a n \<longleftrightarrow> a = ''a'' \<and> n = left_node"
  by (auto simp: member_def left_behind_def)

lemma left_node [simp]:
  "node_id left_node = 10" "address left_node = ''a''" "predecessor left_node = None" "fingers left_node = fingers demo10"
  "data_store left_node = [(''job:k'', JObj claimed_elsewhere), (''job:m'', JObj running_copy)]"
  by (simp_all add: left_node_def demo10_def demo_node_def)

lemma left_ids: "ring_ids UNIV left_behind = {10}"
  by (auto simp: ring_ids_def left_member)

lemma left_lossy: "lossy left_behind"
  by (auto simp: lossy_def left_behind_def)

lemma left_fingers: "finger_ref ` set (fingers demo10) = {ref10, ref100}"
  by (simp add: demo10_def demo_node_def demo_fingers_def demo_refs upt_M insert_commute)

lemma left_hood: "hood UNIV left_behind left_node"
proof -
  have two: "finger_ref f = ref10 \<or> finger_ref f = ref100" if "f \<in> set (fingers demo10)" for f
    using left_fingers that by blast
  have "refers UNIV left_behind (finger_ref f) \<or> nodes left_behind (finger_addr f) = None \<and> finger_id f \<notin> ring_ids UNIV left_behind"
    if "f \<in> set (fingers demo10)" for f
  proof -
    have "refers UNIV left_behind ref10" by (simp add: refers_def left_member ref10_def)
    moreover have "nodes left_behind (ref_addr ref100) = None" by (simp add: left_behind_def ref100_def)
    moreover have "ref_id ref100 \<notin> ring_ids UNIV left_behind" by (simp add: left_ids ref100_def)
    moreover have "finger_addr f = ref_addr (finger_ref f)" "finger_id f = ref_id (finger_ref f)" by simp_all
    ultimately show ?thesis using that two by metis
  qed
  then show ?thesis unfolding hood_def by (auto simp: left_member)
qed

lemma left_store: "wf_dict (data_store left_node)" "\<forall>item \<in> set (data_store left_node). plain_status item"
  by (auto simp: wf_dict_def dkeys_def plain_status_def claimed_elsewhere_def running_copy_def dget_or_def)

lemma copies_promoted_for_any_failure_witness:
  "stored ''a'' ''job:m'' (Some (JObj (promoted running_copy))) (snd (watch_round 255 plain_agents unary_fresh ''a'' (Some 100) left_behind))"
proof -
  have "promoted_item (''job:m'', JObj running_copy) = (''job:m'', JObj (promoted running_copy))"
    by (simp add: promoted_item_def is_copy_def running_copy_def dget_or_def ACTIVE_STATUSES_def job_statuses)
  moreover have "\<forall>i n. job_key (unary_fresh (Suc i) n) \<notin> set (dkeys (data_store left_node))"
    by (simp add: unary_fresh_def job_key_def dkeys_def)
  ultimately show ?thesis
    using copies_promoted_for_any_failure [OF left_hood left_lossy, of "''a''" 100 unary_fresh "(''job:m'', JObj running_copy)" 255
        plain_agents] left_store
    by (simp add: left_member)
qed

lemma orphans_claimable_witness:
  "\<exists>s' target key job'. watch_round 255 plain_agents unary_fresh ''a'' (Some 100) left_behind = (Inr None, s') \<and> target \<noteq> 100 \<and>
    again claimed_elsewhere job' \<and> claimable UNIV s' target key job'"
proof -
  have "failed_address 100 left_node = Some ''b''"
    by (simp add: failed_address_def) (simp add: demo10_def demo_node_def demo_fingers_def demo_refs upt_M)
  then have "orphans_of (failed_address 100 left_node) (data_store left_node) = Inr [claimed_elsewhere]"
    by (simp add: orphan_def claimed_elsewhere_def running_copy_def dget_or_def ACTIVE_STATUSES_def job_statuses)
  moreover have "numbered unary_fresh" by (auto simp: numbered_def unary_fresh_def dest: arg_cong [where f = length])
  ultimately show ?thesis
    using orphans_claimable [OF left_hood left_lossy, of "''a''" 100 plain_agents unary_fresh "[claimed_elsewhere]" 255] left_store
    by (auto simp: left_member left_ids plain_agents_def job_ids_def claimed_elsewhere_def dget_or_def)
qed

end
