(* ===== verification/RecoveryInv.thy ===== *)
theory RecoveryInv
  imports Recovery
begin

text \<open>
  What the recovery manager preserves, whatever the network and its callback do. The locale
  \<open>recovery_invariant\<close> is the interface of a predicate of the whole state that the manager's own
  steps respect, with a notion of good records that its writes respect; the theorem of the
  locale is that one scan keeps the predicate. Its instances give the bound on the attempts and
  the frame of a scan.
\<close>

section \<open>Invariants of a scan\<close>

lemma keeps_finally_do:
  "keeps P m \<Longrightarrow> (\<And>s. P s \<Longrightarrow> Q (f s)) \<Longrightarrow> P s \<Longrightarrow> Q (snd (finally_do m f s))"
  by (auto simp: finally_do_def split: prod.split dest: keeps_run)

lemma keeps_lift_of: "(\<And>x. r = Inr x \<Longrightarrow> keeps P (k x)) \<Longrightarrow> keeps P (andthen (lift r) k)"
  by (cases r) (auto simp: keeps_def act_simps)

lemma keeps_case_prod_eq: "(\<And>a b. p = (a, b) \<Longrightarrow> keeps P (f a b)) \<Longrightarrow> keeps P (case p of (a, b) \<Rightarrow> f a b)"
  by (cases p) auto

locale recovery_invariant = record_invariant W P good
  for W :: "string \<Rightarrow> json \<Rightarrow> bool" and P :: "'z cluster_scheme \<Rightarrow> bool" and good :: "jdict \<Rightarrow> bool" +
  fixes spawn :: "('z cluster_scheme, json) act option"
  assumes events_keep: "P s \<Longrightarrow> P (s\<lparr>events := es\<rparr>)"
    and trigger_keep: "P s \<Longrightarrow> P (s\<lparr>last_spawn_trigger := t\<rparr>)"
    and spawn_keep: "spawn = Some m \<Longrightarrow> keeps P m"
    and good_write: "good d \<Longrightarrow> W (''result:'' @ i) (JObj d)"
    and worker_write: "W (''worker:'' @ w) v"
    and good_given_up: "good r \<Longrightarrow> started c ft r = Inr (u, h) \<Longrightarrow> good (given_up u h)"
    and good_waiting: "good r \<Longrightarrow> started c ft r = Inr (u, h) \<Longrightarrow> good (waiting q note u h)"
    and good_reassigned: "good r \<Longrightarrow> choose_recovery_path r ft live = Inr path \<Longrightarrow> path \<noteq> GIVE_UP \<Longrightarrow>
      started c ft r = Inr (u, h) \<Longrightarrow> reassigned path w u h = Inr d \<Longrightarrow> good d"
    and good_cleared: "good r \<Longrightarrow> good (dset ''updated_at'' x (dset ''retry_at'' JNull (dset ''recovery_status'' JNull r)))"
begin

lemma keeps_emit: "keeps P (emit_event ty t w msg)"
  unfolding emit_event_def by (intro keeps_modify) (simp add: Let_def events_keep)

lemma keeps_safe_put: "good d \<Longrightarrow> keeps P (safe_put fuel me k t d)"
  unfolding safe_put_def
  by (cases t) (auto intro!: keeps_intro keeps_result_put good_write [simplified])

lemma keeps_move: "keeps P (move_assignment fuel me k old w path t)"
proof -
  have "keeps P (case (old, t) of (JStr o', JStr t) \<Rightarrow>
      if o' \<noteq> [] \<and> o' \<noteq> w then ignoring (andthen (remove fuel me k o' t) (\<lambda>_. ret ())) else ret () | _ \<Rightarrow> ret ())"
    by (auto split: json.split intro!: keeps_intro keeps_remove worker_write [simplified])
  moreover have "keeps P (case t of JStr t \<Rightarrow> append fuel me k w t | _ \<Rightarrow> throw (TypeError ''task_id is not a string''))"
    by (auto split: json.split intro!: keeps_intro keeps_append worker_write [simplified])
  ultimately show ?thesis
    unfolding move_assignment_def by (intro keeps_andthen keeps_catch keeps_emit)
qed

lemma keeps_execute:
  assumes r: "good r" and path: "choose_recovery_path r ft live = Inr path"
  shows "keeps P (execute fuel me k r path ft scored short_wait)"
proof -
  have retry: "keeps P (follow_retry fuel me k c g path t u h scored)"
    if "started c' ft r = Inr (u, h)" "path \<noteq> GIVE_UP" for c c' g t u h
    unfolding follow_retry_def using that
    by (intro keeps_lift_of keeps_option keeps_andthen keeps_safe_put keeps_emit keeps_move
        good_waiting [OF r] good_reassigned [OF r path]) auto
  have "keeps P (follow_path fuel me k c g path t u h scored short_wait)" if "started c' ft r = Inr (u, h)" for c c' g t u h
    using that retry [OF that] good_given_up [OF r that] good_waiting [OF r that]
    by (cases path) (auto simp: follow_path_def intro!: keeps_andthen keeps_safe_put keeps_emit)
  then show ?thesis
    unfolding execute_def
    by (intro keeps_lift_of keeps_andthen keeps_gets keeps_case_prod_eq keeps_lift) auto
qed

lemma keeps_try_spawn: "keeps P (try_spawn spawn t)"
  unfolding try_spawn_def
  by (intro keeps_intro keeps_modify keeps_emit spawn_keep) (auto intro: trigger_keep)

lemma keeps_recover_fresh: "keeps P (recover_fresh fuel me k spawn t ft)"
proof -
  have get: "triple P (safe_get fuel me k (JStr t)) (\<lambda>v. \<forall>x. v = Some x \<longrightarrow> (\<exists>d. x = JObj d \<and> good d))"
    unfolding safe_get_def by (auto intro!: triple_catch triple_result_get triple_ret)
  show ?thesis
    unfolding recover_fresh_def
    by (rule triple_keeps [where Q = "\<lambda>_. True"], rule triple_andthen [OF get])
      (auto simp: Let_def split: option.split
        intro!: keeps_triple keeps_ret keeps_if keeps_andthen keeps_gets keeps_try_spawn keeps_lift_of keeps_execute)
qed

text \<open>The detection functions, for any predicate that one recovery attempt keeps as well.\<close>

lemma triple_records: "triple P (all_ht1_records me) (\<lambda>rs. \<forall>r \<in> set rs. good r)"
  unfolding all_ht1_records_def
  by (intro triple_catch triple_read_node triple_ret)
    (auto elim!: is_result_record.elims intro: stored_good)

lemma keeps_detections:
  assumes att: "\<And>r ft. keeps P (attempt_recovery fuel me k spawn r ft)"
  shows "keeps P (scan fuel me k spawn order)"
proof -
  have over: "keeps P (andthen (all_ht1_records me) (\<lambda>rs. for_each rs body ()))"
    if "\<And>r u. good r \<Longrightarrow> keeps P (body r u)" for body
    by (rule triple_keeps [where Q = "\<lambda>_. True"], rule triple_andthen [OF triple_records])
      (auto intro!: keeps_triple keeps_for_each that)
  have "keeps P (safe_get fuel me k t)" for t
    unfolding safe_get_def by (auto intro!: keeps_intro keeps_result_get split: json.split)
  then have "keeps P (detect_worker_crashes fuel me k spawn order)"
    unfolding detect_worker_crashes_def
    by (intro keeps_intro keeps_assigned_tasks keeps_emit att)
  moreover have "keeps P (detect_timed_out_tasks fuel me k spawn)" "keeps P (detect_failed_tasks fuel me k spawn)"
    "keeps P (detect_stuck_tasks fuel me k spawn)"
    unfolding detect_timed_out_tasks_def detect_failed_tasks_def detect_stuck_tasks_def
    by (intro over keeps_intro keeps_case_prod att)+
  moreover have "keeps P (retry_waiting_tasks fuel me k spawn)"
    unfolding retry_waiting_tasks_def Let_def
    by (intro keeps_andthen keeps_gets over keeps_intro keeps_safe_put good_cleared att)
  ultimately show ?thesis
    unfolding scan_def by (intro keeps_andthen)
qed

end

locale recovery_state_invariant = recovery_invariant +
  assumes progress_keep: "P s \<Longrightarrow> P (s\<lparr>in_progress := ts\<rparr>)"
begin

lemma keeps_attempt: "keeps P (attempt_recovery fuel me k spawn r ft)"
proof -
  have "keeps P (finally_do (ignoring (recover_fresh fuel me k spawn t ft)) (\<lambda>s. s\<lparr>in_progress := removeAll t (in_progress s)\<rparr>))" for t
    by (rule keepsI, rule keeps_finally_do [OF keeps_ignoring [OF keeps_recover_fresh]]) (auto intro: progress_keep)
  then show ?thesis
    unfolding attempt_recovery_def Let_def
    by (auto split: json.split intro!: keeps_ret keeps_throw keeps_andthen keeps_gets keeps_if keeps_modify progress_keep)
qed

lemma keeps_scan: "keeps P (scan fuel me k spawn order)"
  by (rule keeps_detections [OF keeps_attempt])

end

section \<open>The bound on the attempts\<close>

text \<open>A record whose counters are integers and that has not used more attempts than it may.\<close>

definition attempts_ok :: "jdict \<Rightarrow> bool" where
  "attempts_ok d \<longleftrightarrow> (\<exists>a m. dget_or (JInt 0) d ''attempt_count'' = JInt a \<and>
     dget_or (JInt MAX_RECOVERY_ATTEMPTS) d ''max_attempts'' = JInt m \<and> a \<le> max 0 m)"

definition attempts_bounded :: "'z net_scheme \<Rightarrow> bool" where
  "attempts_bounded s \<longleftrightarrow> (\<forall>a nd key d. nodes s a = Some nd \<longrightarrow> (key, JObj d) \<in> set (data_store nd) \<longrightarrow>
     startswith key ''result:'' \<longrightarrow> is_result_record (JObj d) \<longrightarrow> attempts_ok d)"

definition allowed_write :: "string \<Rightarrow> json \<Rightarrow> bool" where
  "allowed_write key v \<longleftrightarrow> (\<forall>d. v = JObj d \<longrightarrow> startswith key ''result:'' \<longrightarrow> is_result_record v \<longrightarrow> attempts_ok d)"

lemma set_dset: "set (dset k v d) \<subseteq> insert (k, v) (set d)"
  by (induction d) auto

lemma set_ddel: "set (ddel k d) \<subseteq> set d"
  by (auto simp: AList.delete_eq)

lemma attempts_bounded_put:
  assumes "attempts_bounded s" "nodes s a = Some nd" "allowed_write key v"
  shows "attempts_bounded (set_node a (snd (put key v nd)) s)"
proof -
  have "(k, x) = (key, v) \<or> (k, x) \<in> set (data_store nd)" if "(k, x) \<in> set (data_store (snd (put key v nd)))" for k x
    using that set_dset [of key v "data_store nd"] by (auto simp: put_data)
  then show ?thesis
    using assms unfolding attempts_bounded_def allowed_write_def set_node_def by (fastforce split: if_splits)
qed

lemma attempts_bounded_delete:
  assumes "attempts_bounded s" "nodes s a = Some nd"
  shows "attempts_bounded (set_node a (snd (delete key nd)) s)"
  using assms set_ddel [of key "data_store nd"]
  unfolding attempts_bounded_def set_node_def by (fastforce simp: delete_data split: if_splits)

lemma started_dget:
  "started c ft r = Inr (u, h) \<Longrightarrow> k \<noteq> ''last_failure_reason'' \<Longrightarrow> k \<noteq> ''updated_at'' \<Longrightarrow> dget_or x u k = dget_or x r k"
  by (auto simp: started_def chain_eq_Inr Let_def)

lemma attempts_ok_cong:
  "(\<And>x. dget_or x d ''attempt_count'' = dget_or x r ''attempt_count'') \<Longrightarrow>
   (\<And>x. dget_or x d ''max_attempts'' = dget_or x r ''max_attempts'') \<Longrightarrow> attempts_ok d = attempts_ok r"
  by (simp add: attempts_ok_def)

lemma choose_path_attempts:
  assumes "attempts_ok r" and "choose_recovery_path r ft live = Inr path" and "path \<noteq> GIVE_UP"
  obtains a m where "dget_or (JInt 0) r ''attempt_count'' = JInt a"
    "dget_or (JInt MAX_RECOVERY_ATTEMPTS) r ''max_attempts'' = JInt m" "a < m"
proof -
  obtain a m where "dget_or (JInt 0) r ''attempt_count'' = JInt a"
    "dget_or (JInt MAX_RECOVERY_ATTEMPTS) r ''max_attempts'' = JInt m"
    using assms(1) by (auto simp: attempts_ok_def)
  moreover from this have "a < m"
    using assms(2,3) by (auto simp: choose_recovery_path_def chain_eq_Inr Let_def split: if_splits)
  ultimately show thesis by (rule that)
qed

lemma attempts_ok_reassigned:
  assumes r: "attempts_ok r" "choose_recovery_path r ft live = Inr path" "path \<noteq> GIVE_UP"
    and d: "started c ft r = Inr (u, h)" "reassigned path w u h = Inr d"
  shows "attempts_ok d"
proof -
  obtain a m where am: "dget_or (JInt 0) r ''attempt_count'' = JInt a"
    "dget_or (JInt MAX_RECOVERY_ATTEMPTS) r ''max_attempts'' = JInt m" "a < m"
    by (rule choose_path_attempts [OF r])
  have "dget_or (JInt 0) u ''attempt_count'' = JInt a" "dget_or (JInt MAX_RECOVERY_ATTEMPTS) u ''max_attempts'' = JInt m"
    using am started_dget [OF d(1)] by simp_all
  then have "dget_or (JInt 0) d ''attempt_count'' = JInt (a + 1)" "dget_or (JInt MAX_RECOVERY_ATTEMPTS) d ''max_attempts'' = JInt m"
    using d(2) by (auto simp: reassigned_def)
  with am(3) show ?thesis by (simp add: attempts_ok_def)
qed

lemma attempts_state_invariant:
  assumes "\<And>m. spawn = Some m \<Longrightarrow> keeps attempts_bounded m"
  shows "recovery_state_invariant allowed_write attempts_bounded attempts_ok spawn"
proof (unfold_locales, goal_cases)
  case (1 s m c)
  then show ?case by (simp add: attempts_bounded_def later_def)
next
  case (2 s a nd key v)
  then show ?case by (rule attempts_bounded_put)
next
  case (3 s a nd key v)
  then show ?case by (intro attempts_bounded_delete)
next
  case (4 s a nd key d)
  then show ?case unfolding attempts_bounded_def by blast
next
  case (7 m)
  then show ?case by (rule assms)
next
  case (10 r c ft u h)
  then show ?case
    by (subst attempts_ok_cong [of _ r]) (auto simp: given_up_def Let_def started_dget)
next
  case (11 r c ft u h)
  then show ?case
    by (subst attempts_ok_cong [of _ r]) (auto simp: waiting_def started_dget)
next
  case (12 r ft live path c u h w d)
  then show ?case by (rule attempts_ok_reassigned)
next
  case (13 r x)
  then show ?case by (subst attempts_ok_cong [of _ r]) auto
qed (auto simp: allowed_write_def attempts_bounded_def assms [unfolded attempts_bounded_def])

interpretation attempts: recovery_state_invariant allowed_write attempts_bounded attempts_ok None
  by (rule attempts_state_invariant) simp

text \<open>
  C17. No task is retried beyond its limit: if every stored result record has used at most
  \<open>max_attempts\<close> attempts (none, when the limit is negative), this is so after a scan of the
  recovery manager, on every process of the ring, primary or replica, whatever the network
  loses and however the scan ends, provided the spawn callback does not write such records.
\<close>

theorem scan_attempts_bounded:
  assumes "\<And>m. spawn = Some m \<Longrightarrow> keeps attempts_bounded m" and "attempts_bounded s"
  shows "attempts_bounded (snd (scan fuel me k spawn order s))"
  using recovery_state_invariant.keeps_scan [OF attempts_state_invariant] assms by (blast intro: keepsD)

text \<open>One process that stores the record of a task with one of three attempts used.\<close>

definition demo_recovery :: cluster where
  "demo_recovery = init_cluster 10 (set_node ''a'' (demo_one\<lparr>data_store := [(''result:t'',
     JObj [(''kind'', JStr ''result_details''), (''attempt_count'', JInt 1), (''max_attempts'', JInt 3)])]\<rparr>) demo_single)"

theorem scan_attempts_bounded_witness:
  "attempts_bounded (snd (scan 256 ''a'' 3 None id demo_recovery))"
proof (rule scan_attempts_bounded)
  show "attempts_bounded demo_recovery"
    by (auto simp: attempts_bounded_def demo_recovery_def init_cluster_def net.extend_def set_node_def demo_single_def
        attempts_ok_def dget_or_Cons demo_one_def demo_node_def split: if_splits)
qed simp

section \<open>What a scan leaves alone\<close>

definition same_base :: "'z cluster_scheme \<Rightarrow> 'z cluster_scheme \<Rightarrow> bool" where
  "same_base s s' \<longleftrightarrow> frame s s' \<and> reg s' = reg s"

lemma same_base_later [simp]: "same_base s0 s \<Longrightarrow> same_base s0 (later m c s)"
  by (auto simp: same_base_def later_def intro: frame_trans) (simp add: frame_def)

lemma same_base_node: "same_base s0 s \<Longrightarrow> nodes s a = Some nd \<Longrightarrow> same_place nd nd' \<Longrightarrow> same_base s0 (set_node a nd' s)"
  by (auto simp: same_base_def intro: frame_trans frame_set_node) (simp add: set_node_def)

lemma frame_beside [simp]:
  fixes s :: "'z cluster_scheme"
  shows "frame s0 (s\<lparr>events := es\<rparr>) = frame s0 s" "frame s0 (s\<lparr>last_spawn_trigger := t\<rparr>) = frame s0 s"
    "frame s0 (s\<lparr>in_progress := ts\<rparr>) = frame s0 s"
  by (simp_all add: frame_def)

lemma base_invariant:
  fixes s0 :: "'z cluster_scheme"
  assumes "\<And>m (s :: 'z cluster_scheme). spawn = Some m \<Longrightarrow> frame s (snd (m s)) \<and> reg (snd (m s)) = reg s"
  shows "recovery_state_invariant (\<lambda>_ _. True) (same_base s0) (\<lambda>_. True) spawn"
proof (unfold_locales, goal_cases)
  case (7 m)
  then show ?case using assms by (auto simp: keeps_def same_base_def intro: frame_trans)
next
  case (1 s m c)
  then show ?case by (rule same_base_later)
next
  case (2 s a nd key v)
  show ?case by (rule same_base_node [OF 2(1,2) put_place])
next
  case (3 s a nd key v)
  show ?case by (rule same_base_node [OF 3(1,2) delete_place])
next
  case (5 s es)
  then show ?case by (simp add: same_base_def)
next
  case (6 s t)
  then show ?case by (simp add: same_base_def)
qed (simp_all add: same_base_def)

lemma progress_invariant:
  fixes X :: "string list"
  assumes "\<And>m (s :: 'z cluster_scheme). spawn = Some m \<Longrightarrow> in_progress (snd (m s)) = in_progress s"
  shows "recovery_invariant (\<lambda>_ _. True) (\<lambda>s :: 'z cluster_scheme. in_progress s = X) (\<lambda>_. True) spawn"
proof (unfold_locales, goal_cases)
  case (7 m)
  then show ?case using assms by (auto simp: keeps_def)
qed (auto simp: later_def set_node_def)

text \<open>The guard against concurrent recoveries is released whatever happens.\<close>

lemma attempt_in_progress:
  fixes X :: "string list"
  assumes "\<And>m (s :: 'z cluster_scheme). spawn = Some m \<Longrightarrow> in_progress (snd (m s)) = in_progress s"
  shows "keeps (\<lambda>s :: 'z cluster_scheme. in_progress s = X) (attempt_recovery fuel me k spawn r ft)"
proof -
  have "in_progress (snd (andthen (gets (\<lambda>s. t \<in> set (in_progress s))) (\<lambda>busy.
      if busy then ret ()
      else andthen (modify (\<lambda>s. s\<lparr>in_progress := t # in_progress s\<rparr>)) (\<lambda>_.
        finally_do (ignoring (recover_fresh fuel me k spawn t ft))
          (\<lambda>s. s\<lparr>in_progress := removeAll t (in_progress s)\<rparr>))) s)) = X"
    if X: "in_progress s = X" for t and s :: "'z cluster_scheme"
  proof (cases "t \<in> set X")
    case True
    with X show ?thesis by (simp add: act_simps)
  next
    case False
    let ?body = "finally_do (ignoring (recover_fresh fuel me k spawn t ft)) (\<lambda>s. s\<lparr>in_progress := removeAll t (in_progress s)\<rparr>)"
    have "keeps (\<lambda>s :: 'z cluster_scheme. in_progress s = t # X) (ignoring (recover_fresh fuel me k spawn t ft))"
      by (intro keeps_ignoring recovery_invariant.keeps_recover_fresh [OF progress_invariant] assms)
    then have "in_progress (snd (?body (s\<lparr>in_progress := t # X\<rparr>))) = X"
      by (rule keeps_finally_do) (simp_all add: False)
    with False X show ?thesis by (simp add: act_simps)
  qed
  then show ?thesis
    by (auto simp: keeps_def attempt_recovery_def Let_def act_simps split: json.split)
qed

interpretation base: recovery_state_invariant "\<lambda>_ _. True" "same_base s0" "\<lambda>_. True" None
  for s0 :: "'z cluster_scheme"
  by (rule base_invariant) simp

interpretation progress: recovery_invariant "\<lambda>_ _. True" "\<lambda>s :: 'z cluster_scheme. in_progress s = X" "\<lambda>_. True" None
  for X
  by (rule progress_invariant) simp

text \<open>
  A scan touches nothing but stored records, events and its spawn timer: whatever the
  network loses and however it ends, every process keeps its address, its identifier and its
  fingers (the successor among them), no process appears or disappears, the worker registry is
  unchanged, and every task taken into recovery is released again.
\<close>

theorem scan_frame:
  fixes s :: "'z cluster_scheme"
  assumes "\<And>m (s :: 'z cluster_scheme). spawn = Some m \<Longrightarrow>
    frame s (snd (m s)) \<and> reg (snd (m s)) = reg s \<and> in_progress (snd (m s)) = in_progress s"
  shows "frame s (snd (scan fuel me k spawn order s)) \<and> reg (snd (scan fuel me k spawn order s)) = reg s \<and>
    in_progress (snd (scan fuel me k spawn order s)) = in_progress s"
proof -
  have "keeps (same_base s) (scan fuel me k spawn order)"
    by (rule recovery_state_invariant.keeps_scan [OF base_invariant]) (simp add: assms)
  then have "same_base s (snd (scan fuel me k spawn order s))" by (rule keepsD) (simp add: same_base_def)
  moreover have "keeps (\<lambda>s'. in_progress s' = in_progress s) (scan fuel me k spawn order)"
    by (intro recovery_invariant.keeps_detections [OF progress_invariant] attempt_in_progress) (simp_all add: assms)
  then have "in_progress (snd (scan fuel me k spawn order s)) = in_progress s" by (rule keepsD) simp
  ultimately show ?thesis by (simp add: same_base_def)
qed

theorem scan_frame_witness:
  "frame demo_recovery (snd (scan 256 ''a'' 3 None id demo_recovery)) \<and>
   in_progress (snd (scan 256 ''a'' 3 None id demo_recovery)) = []"
  using scan_frame [of None demo_recovery 256 "''a''" 3 id] by (simp add: demo_recovery_def init_cluster_def net.extend_def)

end
