(* ===== verification/Liveness.thy ===== *)
theory Liveness
  imports RecoveryInv Retry
begin

text \<open>
  Operations that end: in a stable ring, over an arbitrary network, no lookup runs out of the
  fuel of the model, so neither does an operation of the storage services or a scan of the
  recovery manager. \<open>total P m Q\<close> strengthens the triples by the absence of \<open>OutOfFuel\<close>.
\<close>

section \<open>Total correctness\<close>

named_theorems total_intro \<open>rules for total correctness, one per combinator\<close>

definition total :: "('s \<Rightarrow> bool) \<Rightarrow> ('s, 'a) act \<Rightarrow> ('a \<Rightarrow> bool) \<Rightarrow> bool" where
  "total P m Q \<longleftrightarrow> (\<forall>s r s'. P s \<longrightarrow> m s = (r, s') \<longrightarrow> P s' \<and> r \<noteq> Inl OutOfFuel \<and> (\<forall>x. r = Inr x \<longrightarrow> Q x))"

abbreviation ends :: "('s \<Rightarrow> bool) \<Rightarrow> ('s, 'a) act \<Rightarrow> bool" where
  "ends P m \<equiv> total P m (\<lambda>_. True)"

lemma totalI: "(\<And>s r s'. P s \<Longrightarrow> m s = (r, s') \<Longrightarrow> P s' \<and> r \<noteq> Inl OutOfFuel \<and> (\<forall>x. r = Inr x \<longrightarrow> Q x)) \<Longrightarrow> total P m Q"
  by (simp add: total_def)

lemma totalD: "total P m Q \<Longrightarrow> P s \<Longrightarrow> m s = (r, s') \<Longrightarrow> P s' \<and> r \<noteq> Inl OutOfFuel \<and> (\<forall>x. r = Inr x \<longrightarrow> Q x)"
  unfolding total_def by blast

lemma ends_of: "keeps P m \<Longrightarrow> fueled m \<Longrightarrow> ends P m"
  by (auto simp: total_def fueled_def intro: keeps_run) (metis fst_conv)

lemma total_ends: "total P m Q \<Longrightarrow> ends P m"
  unfolding total_def by blast

lemma total_ret [total_intro]: "Q x \<Longrightarrow> total P (ret x) Q"
  by (simp add: total_def act_simps)

lemma total_throw [total_intro]: "e \<noteq> OutOfFuel \<Longrightarrow> total P (throw e) Q"
  by (simp add: total_def act_simps)

lemma total_gets: "(\<And>s. P s \<Longrightarrow> Q (f s)) \<Longrightarrow> total P (gets f) Q"
  by (auto simp: total_def act_simps)

lemma ends_modify: "(\<And>s. P s \<Longrightarrow> P (f s)) \<Longrightarrow> ends P (modify f)"
  by (simp add: total_def act_simps)

lemma total_lift [total_intro]: "r \<noteq> Inl OutOfFuel \<Longrightarrow> (\<And>x. r = Inr x \<Longrightarrow> Q x) \<Longrightarrow> total P (lift r) Q"
  by (auto simp: total_def act_simps)

lemma total_read_node:
  "(\<And>s nd. P s \<Longrightarrow> nodes s a = Some nd \<Longrightarrow> Q (f nd)) \<Longrightarrow> total P (read_node a f) Q"
  by (auto simp: total_def read_node_def on_node_def split: option.splits)

lemma total_andthen: "total P m R \<Longrightarrow> (\<And>x. R x \<Longrightarrow> total P (k x) Q) \<Longrightarrow> total P (andthen m k) Q"
proof (rule totalI)
  fix s r s' assume m: "total P m R" and k: "\<And>x. R x \<Longrightarrow> total P (k x) Q" and s: "P s" "andthen m k s = (r, s')"
  obtain r1 s1 where run: "m s = (r1, s1)" by fastforce
  from totalD [OF m s(1) this] have "P s1" "r1 \<noteq> Inl OutOfFuel" "\<And>x. r1 = Inr x \<Longrightarrow> R x" by auto
  with run s(2) totalD [OF k] show "P s' \<and> r \<noteq> Inl OutOfFuel \<and> (\<forall>x. r = Inr x \<longrightarrow> Q x)"
    by (cases r1) (auto simp: act_simps)
qed

lemma total_after: "ends P m \<Longrightarrow> (\<And>x. total P (k x) Q) \<Longrightarrow> total P (andthen m k) Q"
  by (rule total_andthen) auto

lemma total_catch: "total P m Q \<Longrightarrow> (\<And>e. total P (h e) Q) \<Longrightarrow> total P (catch m h) Q"
proof (rule totalI)
  fix s r s' assume m: "total P m Q" and h: "\<And>e. total P (h e) Q" and s: "P s" "catch m h s = (r, s')"
  obtain r1 s1 where run: "m s = (r1, s1)" by fastforce
  from totalD [OF m s(1) this] have "P s1" "r1 \<noteq> Inl OutOfFuel" "\<And>x. r1 = Inr x \<Longrightarrow> Q x" by auto
  with run s(2) totalD [OF h] show "P s' \<and> r \<noteq> Inl OutOfFuel \<and> (\<forall>x. r = Inr x \<longrightarrow> Q x)"
    by (cases r1) (auto simp: act_simps split: if_splits)
qed

text \<open>What is caught and turned into a value returns.\<close>

lemma ignoring_returns: "ends P m \<Longrightarrow> P s \<Longrightarrow> \<exists>s'. ignoring m s = (Inr (), s') \<and> P s'"
proof -
  assume m: "ends P m" and s: "P s"
  obtain r s' where run: "m s = (r, s')" by fastforce
  from totalD [OF m s this] run show ?thesis by (cases r) (auto simp: ignoring_def act_simps)
qed

lemma ends_ignoring [total_intro]: "ends P m \<Longrightarrow> ends P (ignoring m)"
  unfolding ignoring_def by (intro total_catch total_ret) auto

lemma total_if [total_intro]:
  "(b \<Longrightarrow> total P m Q) \<Longrightarrow> (\<not> b \<Longrightarrow> total P m' Q) \<Longrightarrow> total P (if b then m else m') Q"
  by simp

lemma total_option [total_intro]:
  "(x = None \<Longrightarrow> total P m Q) \<Longrightarrow> (\<And>y. x = Some y \<Longrightarrow> total P (f y) Q)
    \<Longrightarrow> total P (case x of None \<Rightarrow> m | Some y \<Rightarrow> f y) Q"
  by (cases x) auto

lemma total_let [total_intro]: "total P (f x) Q \<Longrightarrow> total P (let y = x in f y) Q"
  by simp

lemma total_prod [total_intro]: "(\<And>a b. p = (a, b) \<Longrightarrow> total P (f a b) Q) \<Longrightarrow> total P (case p of (a, b) \<Rightarrow> f a b) Q"
  by (cases p) auto

lemma ends_for_each [total_intro]: "(\<And>x a. x \<in> set xs \<Longrightarrow> ends P (step x a)) \<Longrightarrow> ends P (for_each xs step acc)"
  by (induction xs arbitrary: acc) (auto intro!: total_ret total_after)

lemma total_retrying:
  assumes op: "\<And>x. R x \<Longrightarrow> total P (op x) Q" and nxt: "\<And>i x. R x \<Longrightarrow> total P (nxt i x) R" and "R x"
  shows "total P (retrying ok nxt op n i x) Q"
  using assms(3)
proof (induction n arbitrary: i x)
  case 0
  then show ?case by (simp add: op)
next
  case (Suc n)
  have rest: "total P (andthen (nxt i x) (retrying ok nxt op n (Suc i))) Q"
    by (rule total_andthen [OF nxt [OF Suc.prems] Suc.IH])
  show ?case
  proof (rule totalI)
    fix s r s' assume s: "P s" "retrying ok nxt op (Suc n) i x s = (r, s')"
    obtain r1 s1 where run: "op x s = (r1, s1)" by fastforce
    from totalD [OF op [OF Suc.prems] s(1) this] have "P s1" "r1 \<noteq> Inl OutOfFuel" "\<And>v. r1 = Inr v \<Longrightarrow> Q v" by auto
    with run s(2) totalD [OF rest] show "P s' \<and> r \<noteq> Inl OutOfFuel \<and> (\<forall>x. r = Inr x \<longrightarrow> Q x)"
      by (cases r1) (auto split: if_splits)
  qed
qed

lemma total_http_attempt:
  assumes t: "timeless P" and h: "total P h (body Q)"
  shows "total P (http_attempt a h) (body Q)"
proof (rule totalI)
  fix s r s' assume s: "P s" and run: "http_attempt a h s = (r, s')"
  have s1: "P (s\<lparr>sent := Suc (sent s)\<rparr>)" using timelessD [OF t s, of 1 0] by (simp add: later_def)
  have serve: "total P (serve h) (body Q)"
    unfolding serve_def by (intro total_catch h total_ret) (simp add: body_def)
  then have lost: "total P (andthen (serve h) (\<lambda>_. throw (RequestException e))) (body Q)" for e
    by (rule total_andthen) (intro total_throw, simp)
  show "P s' \<and> r \<noteq> Inl OutOfFuel \<and> (\<forall>x. r = Inr x \<longrightarrow> body Q x)"
    using run s1 totalD [OF serve s1] totalD [OF lost s1]
    by (auto simp: http_attempt_def Let_def split: if_splits delivery.splits)
qed

lemma ends_sleep: "timeless P \<Longrightarrow> ends P (sleep us)"
  by (intro ends_of keeps_sleep fueled_sleep)

lemma total_request: "timeless P \<Longrightarrow> total P h (body Q) \<Longrightarrow> total P (request a h) (body Q)"
  unfolding request_def by (rule total_retrying [of "\<lambda>_. True"]) (auto intro: total_http_attempt ends_sleep)

lemma total_rpc: "timeless P \<Longrightarrow> total P h (body Q) \<Longrightarrow> total P (rpc a h) Q"
  unfolding rpc_def
  by (rule total_andthen [OF total_request])
    (auto intro!: total_lift simp: body_def raise_for_status_def split: reply.splits)

lemma body_True: "body (\<lambda>_. True) = (\<lambda>_. True)"
  by (simp add: body_def fun_eq_iff)

lemma ends_rpc: "timeless P \<Longrightarrow> ends P h \<Longrightarrow> ends P (rpc a h)"
  using total_rpc [of P h "\<lambda>_. True" a] by (simp add: body_True)

section \<open>Lookups\<close>

text \<open>
  One node of a lookup: it answers with its successor, or with what the node it asks answers,
  or, when that fails, again with its successor.
\<close>

lemma frame_at: "frame s0 s \<Longrightarrow> nodes s0 a = Some nd \<Longrightarrow> nodes s a = Some n \<Longrightarrow> same_place nd n"
  by (metis frame_node option.inject)

lemma total_lookup_step:
  fixes s0 :: "'z net_scheme"
  assumes st: "stable A s0" and me: "member A s0 me nd"
    and remote: "\<not> in_range key (node_id nd) (ref_id (successor nd)) True \<Longrightarrow>
      ref_id (closest_preceding_node nd key) \<noteq> node_id nd \<Longrightarrow>
      total (frame s0) (remote (ref_addr (closest_preceding_node nd key))) (refers A s0)"
  shows "total (frame s0) (find_successor_via remote me key) (refers A s0)"
  unfolding find_successor_via_def
proof (rule total_andthen [of _ _ "same_place nd"])
  show "total (frame s0) (read_node me (\<lambda>nd. nd)) (same_place nd)"
    by (rule total_read_node, rule frame_at [OF _ memberD(1) [OF me]])
  fix n assume "same_place nd n"
  then have n: "node_id n = node_id nd" "successor n = successor nd" "address n = address nd"
    "closest_preceding_node n key = closest_preceding_node nd key"
    by (simp_all add: same_place_def successor_def closest_preceding_node_def self_ref_def split: option.split)
  have succ: "refers A s0 (successor nd)" by (rule stable_node(6) [OF st me])
  have own: "total (frame s0) (read_node me successor) (refers A s0)"
  proof (rule total_read_node)
    fix s n assume "frame s0 s" "nodes s me = Some n"
    then have "same_place nd n" by (rule frame_at [OF _ memberD(1) [OF me]])
    then show "refers A s0 (successor n)" using succ by (simp add: same_place_def successor_def)
  qed
  show "total (frame s0)
     (if in_range key (node_id n) (ref_id (successor n)) True then ret (successor n)
      else let n' = closest_preceding_node n key in
        if ref_id n' = node_id n then ret (successor n)
        else catch (remote (ref_addr n')) (\<lambda>_. read_node me successor)) (refers A s0)"
    unfolding n Let_def by (intro total_if total_ret total_catch remote own succ)
qed

text \<open>
  A lookup in a stable ring ends within the clockwise distance to the key, whatever is lost.
\<close>

lemma total_rpc_lookup:
  fixes s0 :: "'z net_scheme"
  assumes "total (frame s0) (find_successor fuel a key) (refers A s0)"
  shows "total (frame s0) (rpc a (h_find_successor (find_successor fuel) a key)) (refers A s0)"
proof (rule total_rpc [OF timeless_frame])
  show "total (frame s0) (h_find_successor (find_successor fuel) a key) (body (refers A s0))"
    unfolding h_find_successor_def by (rule total_andthen [OF assms]) (auto intro: total_ret simp: body_def)
qed

lemma lookup_by_distance:
  fixes s0 :: "'z net_scheme"
  assumes st: "stable A s0" and "member A s0 me nd" and key: "is_id key" and "key \<noteq> node_id nd"
    and "cw (node_id nd) key \<le> int fuel"
  shows "total (frame s0) (find_successor fuel me key) (refers A s0)"
  using assms(2,4,5)
proof (induction fuel arbitrary: me nd)
  case (0 me nd)
  have "in_range key (node_id nd) (ref_id (successor nd)) True"
    using 0 key stable_node [OF st 0(1)] stable_is_id [OF st] cw_nonneg [of "node_id nd"]
    by (simp add: in_range_inclusive order_trans)
  then show ?case
    unfolding find_successor.simps by (intro total_lookup_step [OF st 0(1)]) simp
next
  case (Suc fuel me nd)
  show ?case unfolding find_successor.simps
  proof (rule total_lookup_step [OF st Suc.prems(1)], rule total_rpc_lookup)
    assume far: "\<not> in_range key (node_id nd) (ref_id (successor nd)) True"
    obtain f where f: "closest_preceding_node nd key = finger_ref f"
        "cw (node_id nd) (finger_id f) < cw (node_id nd) key"
        "refers A s0 (finger_ref f)" "finger_id f \<noteq> node_id nd" "finger_id f \<noteq> key"
      by (rule closest_preceding_between [OF st Suc.prems(1) key Suc.prems(2) far])
    then obtain nd' where nd': "member A s0 (finger_addr f) nd'" "node_id nd' = finger_id f"
      by (auto simp: refers_def)
    have "cw (node_id nd') key \<le> int fuel"
      using f nd' Suc.prems stable_node(1) [OF st] key
      by (simp add: cw_shift [of "node_id nd" "finger_id f" key])
        (smt (verit) cw_shift cw_nonneg of_nat_Suc)
    with f nd' show "total (frame s0) (find_successor fuel (ref_addr (closest_preceding_node nd key)) key) (refers A s0)"
      by (simp del: find_successor.simps add: Suc.IH)
  qed
qed

lemma total_find_successor:
  fixes s0 :: "'z net_scheme"
  assumes st: "stable A s0" and me: "member A s0 me nd" and key: "is_id key" and fuel: "256 \<le> fuel"
  shows "total (frame s0) (find_successor fuel me key) (refers A s0)"
proof -
  obtain n where n: "fuel = Suc n" "255 \<le> n" using fuel by (cases fuel) auto
  have far: "total (frame s0) (find_successor n a key) (refers A s0)"
    if m: "member A s0 a nda" "key \<noteq> node_id nda" for a nda
  proof (rule lookup_by_distance [OF st m(1) key m(2)])
    show "cw (node_id nda) key \<le> int n" using n(2) cw_less [of "node_id nda" key] by (simp add: ring_size_256)
  qed
  have "total (frame s0) (find_successor n (ref_addr (closest_preceding_node nd key)) key) (refers A s0)"
    if other: "ref_id (closest_preceding_node nd key) \<noteq> node_id nd"
      and away: "\<not> in_range key (node_id nd) (ref_id (successor nd)) True"
  proof -
    obtain f where f: "f \<in> set (fingers nd)" "closest_preceding_node nd key = finger_ref f"
        "in_range (finger_id f) (node_id nd) key False"
      using other by (cases rule: closest_preceding_cases [of nd key]) auto
    then have "refers A s0 (finger_ref f)" using stable_node(5) [OF st me] by blast
    then obtain ndf where ndf: "member A s0 (finger_addr f) ndf" "node_id ndf = finger_id f"
      by (auto simp: refers_def)
    have "finger_id f \<noteq> key"
      using f(3) other f(2) by (auto simp: in_range_def split: if_splits)
    with ndf f(2) far show ?thesis by (simp del: find_successor.simps)
  qed
  then show ?thesis
    unfolding n find_successor.simps by (intro total_lookup_step [OF st me] total_rpc_lookup)
qed

section \<open>Storage operations\<close>

text \<open>\<open>serves A s0 fuel a\<close>: \<open>a\<close> is a member of the stable ring \<open>A\<close>, with fuel for its lookups.\<close>

definition serves :: "string set \<Rightarrow> 'z net_scheme \<Rightarrow> nat \<Rightarrow> string \<Rightarrow> bool" where
  "serves A s0 fuel a \<longleftrightarrow> stable A s0 \<and> 256 \<le> fuel \<and> (\<exists>nd. member A s0 a nd)"

lemma serves_refers: "serves A s0 fuel a \<Longrightarrow> refers A s0 r \<Longrightarrow> serves A s0 fuel (ref_addr r)"
  by (auto simp: serves_def refers_def)

lemma total_owner: "serves A s0 fuel me \<Longrightarrow> total (frame s0) (find_successor fuel me (sha1_id key)) (refers A s0)"
  by (auto simp: serves_def intro: total_find_successor)

lemmas ends_frame = ends_of [where P = "frame s0" for s0]

lemma ends_get_on_node: "ends (frame s0) (get_on_node me r key)"
  by (rule ends_frame [OF ring_frame.keeps_get_on_node])
    (unfold get_on_node_def t_get_def h_data_get_def, intro fueled_intro)

lemma ends_t_put: "ends (frame s0) (t_put a key v)"
  by (rule ends_frame [OF ring_frame.keeps_t_put]) (auto simp: t_put_def h_data_put_def intro!: fueled_intro)

lemma ends_t_get: "ends (frame s0) (t_get a key)"
  by (rule ends_frame [OF ring_frame.keeps_t_get]) (auto simp: t_get_def h_data_get_def intro!: fueled_intro)

lemma ends_read_node: "ends (frame s0) (read_node a f)"
  by (intro ends_frame keeps_read_node fueled_intro)

lemma ends_put: "ends (frame s0) (on_node a (put key v))"
  by (rule ends_frame [OF ring_frame.keeps_put(1)]) (auto intro!: fueled_intro)

lemma ends_chain: "ends (frame s0) (get_successor_chain k r)"
  unfolding get_successor_chain_def
  by (intro ends_frame keeps_chain_from timeless_frame fueled_chain_from)

lemma ends_replicate:
  assumes "\<And>x. fueled (op x)" "\<And>x. keeps (frame s0) (op x)"
  shows "ends (frame s0) (replicate_best_effort k op r)"
proof (rule ends_frame)
  show "keeps (frame s0) (replicate_best_effort k op r)"
    by (intro keeps_replicate_best_effort timeless_frame assms)
  have "\<exists>res s'. replicate_best_effort k op r s = (Inr res, s')" for s
    by (rule replicate_best_effort_returns [OF assms(1)])
  then show "fueled (replicate_best_effort k op r)"
    by (metis fst_conv fueled_def sum.distinct(1))
qed

lemma ends_first_answer: "(\<And>r. ends P (read r)) \<Longrightarrow> ends P (first_answer read rs)"
  by (induction rs) (auto intro!: total_ret total_after total_catch total_option)

lemma total_re_resolve: "serves A s0 fuel me \<Longrightarrow> total (frame s0) (re_resolve fuel me key i r) (refers A s0)"
  unfolding re_resolve_def
  by (rule total_andthen [OF total_owner]) (auto intro!: total_after ends_sleep timeless_frame total_ret)

lemma ends_put_on_node: "serves A s0 fuel me \<Longrightarrow> ends (frame s0) (put_on_node fuel me r key v)"
  unfolding put_on_node_def
  by (rule total_after [OF ends_read_node], rule total_if)
    (auto intro!: total_after ends_put total_ret total_retrying [of "\<lambda>_. True"] ends_t_put
      intro: total_ends [OF total_re_resolve])

lemma build_key_fuel: "build_result_key i \<noteq> Inl OutOfFuel" "build_worker_key w \<noteq> Inl OutOfFuel"
  by (auto simp: build_result_key_def build_worker_key_def)

lemma require_fuel: "require b m \<noteq> Inl OutOfFuel" "require_in v S m \<noteq> Inl OutOfFuel"
  by (auto simp: require_def require_in_def chain_def split: sum.split if_splits elim!: in_str_set.elims)

lemma chain_fuel: "r \<noteq> Inl OutOfFuel \<Longrightarrow> (\<And>x. k x \<noteq> Inl OutOfFuel) \<Longrightarrow> chain r k \<noteq> Inl OutOfFuel"
  by (auto simp: chain_def split: sum.splits)

lemma validate_result_fuel: "validate_result_record r \<noteq> Inl OutOfFuel"
  unfolding validate_result_record_def by (intro chain_fuel require_fuel)

lemma ends_result_put: "serves A s0 fuel me \<Longrightarrow> ends (frame s0) (result_put fuel me k i rec)"
  unfolding result_put_def result_owner_def result_put_on_node_def result_replicate_def
  by (intro total_after [OF total_lift] total_after [OF total_ends [OF total_owner]] total_after [OF ends_put_on_node]
      total_after [OF ends_replicate] total_ret)
    (auto simp: validate_result_fuel build_key_fuel intro: fueled_put_result_replica result_replica_keeps)

lemma ends_result_get: "serves A s0 fuel me \<Longrightarrow> ends (frame s0) (result_get fuel me k i)"
proof -
  assume me: "serves A s0 fuel me"
  have "ends (frame s0) (t_get_result_replica a i)" for a
    by (rule ends_frame [OF ring_frame.keeps_result_replica_get])
      (auto simp: t_get_result_replica_def h_result_replica_get_def intro!: fueled_intro)
  then have "ends (frame s0) (result_read_from_replicas k i r)" for r
    unfolding result_read_from_replicas_def by (intro total_after [OF ends_chain] ends_first_answer)
  then show ?thesis
    unfolding result_get_def result_owner_def result_get_on_node_def
    by (intro total_after [OF total_lift] total_after [OF total_ends [OF total_owner [OF me]]]
        total_after [OF total_catch] total_after [OF total_option] ends_get_on_node total_ret build_key_fuel) auto
qed

lemma py_list_fuel: "py_list v \<noteq> Inl OutOfFuel"
  by (cases v) auto

lemma dindex_fuel: "dindex d x \<noteq> Inl OutOfFuel"
  by (simp add: dindex_def split: option.split)

lemma py_int_fuel: "py_int v \<noteq> Inl OutOfFuel"
  by (cases v) (auto simp: int_of_string_def Let_def split: option.split)

lemmas value_fuel = py_list_fuel dindex_fuel py_int_fuel

lemma record_fuel: "tasks_of v \<noteq> Inl OutOfFuel" "bump_record now r ts \<noteq> Inl OutOfFuel"
  "appended_record now w v ts \<noteq> Inl OutOfFuel"
proof -
  show bump: "bump_record now r ts \<noteq> Inl OutOfFuel" for r
    unfolding bump_record_def Let_def by (intro chain_fuel value_fuel) simp
  show "tasks_of v \<noteq> Inl OutOfFuel"
    unfolding tasks_of_def by (cases v) (simp_all add: chain_fuel value_fuel)
  show "appended_record now w v ts \<noteq> Inl OutOfFuel"
    using bump by (auto simp: appended_record_def split: option.split)
qed

lemma ends_gets: "ends P (gets f)"
  by (rule total_gets) simp

lemma ends_worker_replicate: "ends (frame s0) (worker_replicate k i v r)"
  unfolding worker_replicate_def by (intro ends_replicate fueled_put_worker_replica worker_replica_keeps)

lemma ends_some_owner: "serves A s0 fuel me \<Longrightarrow> ends (frame s0) (case p of None \<Rightarrow> worker_owner fuel me key | Some p \<Rightarrow> ret p)"
  unfolding worker_owner_def by (intro total_option total_ends [OF total_owner] total_ret) auto

lemma ends_append_local: "serves A s0 fuel me \<Longrightarrow> ends (frame s0) (append_local fuel me k w t p)"
  unfolding append_local_def Let_def
  by (intro total_after [OF total_lift] total_after [OF ends_some_owner] total_after [OF ends_read_node] total_if
      total_after [OF ends_gets] total_after [OF ends_put] total_after [OF ends_worker_replicate] total_ret
      build_key_fuel record_fuel) auto

lemma ends_remove_local: "serves A s0 fuel me \<Longrightarrow> ends (frame s0) (remove_local fuel me k w t p)"
  unfolding remove_local_def Let_def
  by (intro total_after [OF total_lift] total_after [OF ends_some_owner] total_after [OF ends_read_node] total_if
      total_after [OF ends_gets] total_after [OF ends_put] total_after [OF ends_worker_replicate] total_ret
      build_key_fuel record_fuel) auto

lemma ends_append:
  assumes me: "serves A s0 fuel me"
  shows "ends (frame s0) (append fuel me k w t)"
proof -
  have handler: "ends (frame s0) (t_append_worker_assignment fuel (ref_addr r) k w t)" if "refers A s0 r" for r
    unfolding t_append_worker_assignment_def h_workers_append_def
    by (intro ends_rpc timeless_frame total_if total_ret total_catch
        total_after [OF ends_append_local [OF serves_refers [OF me that]]]) auto
  have "total (frame s0) (if ref_id r = nid then append_local fuel me k w t (Some r)
      else retrying (\<lambda>e. e \<noteq> OutOfFuel) (re_resolve fuel me key)
             (\<lambda>r. t_append_worker_assignment fuel (ref_addr r) k w t) PRIMARY_WRITE_RETRIES 0 r) (\<lambda>_. True)"
    if "refers A s0 r" for r nid key
    using that handler total_re_resolve [OF me]
    by (intro total_if ends_append_local [OF me] total_retrying [of "refers A s0"])
  then show ?thesis
    unfolding append_def worker_owner_def
    by (intro total_after [OF total_lift] total_andthen [OF total_owner [OF me]] total_after [OF ends_read_node]
        build_key_fuel) auto
qed

lemma ends_remove: "serves A s0 fuel me \<Longrightarrow> ends (frame s0) (remove fuel me k w t)"
  unfolding remove_def worker_owner_def Let_def
  by (intro total_after [OF total_lift] total_after [OF total_ends [OF total_owner]] total_after [OF ends_read_node]
      total_if total_after [OF total_catch] ends_t_get ends_remove_local total_after [OF ends_gets]
      total_after [OF ends_ignoring] ends_t_put total_ret build_key_fuel record_fuel) auto

lemma ends_assigned_tasks: "serves A s0 fuel me \<Longrightarrow> ends (frame s0) (assigned_tasks fuel me k w)"
proof -
  assume me: "serves A s0 fuel me"
  have "ends (frame s0) (t_get_worker_replica a i)" for a i
    by (rule ends_frame [OF ring_frame.keeps_worker_replica_get])
      (auto simp: t_get_worker_replica_def h_worker_replica_get_def intro!: fueled_intro)
  then have rep: "ends (frame s0) (worker_read_from_replicas k w r)" for r
    unfolding worker_read_from_replicas_def by (intro total_after [OF ends_chain] ends_first_answer)
  show ?thesis
    unfolding assigned_tasks_def worker_owner_def
    by (intro total_after [OF total_lift] total_after [OF total_ends [OF total_owner [OF me]]]
        total_after [OF total_catch] total_after [OF total_option] total_option total_if total_lift
        ends_get_on_node rep total_ret build_key_fuel value_fuel) auto
qed

section \<open>The recovery manager\<close>

lemma ends_emit: "ends (frame (s0 :: 'z cluster_scheme)) (emit_event ty t w msg)"
  unfolding emit_event_def by (rule ends_modify) (simp add: Let_def)

lemma ends_safe_put: "serves A s0 fuel me \<Longrightarrow> ends (frame s0) (safe_put fuel me k t d)"
  unfolding safe_put_def
  by (cases t) (auto intro!: total_ret ends_ignoring total_after ends_result_put)

lemma ends_safe_get: "serves A s0 fuel me \<Longrightarrow> ends (frame s0) (safe_get fuel me k t)"
  unfolding safe_get_def by (cases t) (auto intro!: total_ret total_catch ends_result_get)

lemma ends_move: "serves A s0 fuel me \<Longrightarrow> ends (frame (s0 :: 'z cluster_scheme)) (move_assignment fuel me k old w path t)"
proof -
  assume me: "serves A s0 fuel me"
  have "ends (frame s0) (case (old, t) of (JStr o', JStr t) \<Rightarrow>
      if o' \<noteq> [] \<and> o' \<noteq> w then ignoring (andthen (remove fuel me k o' t) (\<lambda>_. ret ())) else ret () | _ \<Rightarrow> ret ())"
    by (auto split: json.split intro!: total_ret ends_ignoring total_after ends_remove me)
  moreover have "ends (frame s0) (case t of JStr t \<Rightarrow> append fuel me k w t | _ \<Rightarrow> throw (TypeError ''task_id is not a string''))"
    by (auto split: json.split intro!: total_throw ends_append me)
  ultimately show ?thesis
    unfolding move_assignment_def by (intro total_after total_catch ends_emit)
qed

lemma path_fuel: "py_ge a b \<noteq> Inl OutOfFuel" "choose_recovery_path r ft live \<noteq> Inl OutOfFuel"
  "started c ft r \<noteq> Inl OutOfFuel" "reassigned path w u h \<noteq> Inl OutOfFuel"
  "pick_worker now g path cur scored \<noteq> Inl OutOfFuel"
proof -
  show ge: "py_ge a b \<noteq> Inl OutOfFuel" for a b
    by (cases "(a, b)" rule: py_ge.cases) (auto split: option.split)
  show "choose_recovery_path r ft live \<noteq> Inl OutOfFuel"
    unfolding choose_recovery_path_def by (intro chain_fuel ge) simp
  show "started c ft r \<noteq> Inl OutOfFuel"
    unfolding started_def Let_def by (intro chain_fuel py_list_fuel) simp
  have "py_add1 v \<noteq> Inl OutOfFuel" for v by (cases v) auto
  then show "reassigned path w u h \<noteq> Inl OutOfFuel"
    unfolding reassigned_def by (intro chain_fuel) auto
  have "in_str_set v S \<noteq> Inl OutOfFuel" for v S by (cases v) auto
  then have "live_json now cur g \<noteq> Inl OutOfFuel" by (simp add: live_json_def)
  then show "pick_worker now g path cur scored \<noteq> Inl OutOfFuel"
    unfolding pick_worker_def Let_def by (cases "path = RETRY_SAME") (simp_all add: chain_fuel)
qed

lemma ends_execute:
  assumes me: "serves A s0 fuel me"
  shows "ends (frame (s0 :: 'z cluster_scheme)) (execute fuel me k r path ft scored short_wait)"
proof -
  have "ends (frame s0) (follow_retry fuel me k c g path t u h scored)" for c g t u h
    unfolding follow_retry_def
    by (intro total_after [OF total_lift] total_option total_after [OF ends_safe_put [OF me]] ends_emit
        ends_move [OF me] path_fuel) auto
  then have "ends (frame s0) (follow_path fuel me k c g path t u h scored short_wait)" for c g t u h
    unfolding follow_path_def Let_def
    by (cases path) (auto intro!: total_after [OF ends_safe_put [OF me]] ends_emit)
  then show ?thesis
    unfolding execute_def
    by (intro total_after [OF total_lift] total_after [OF ends_gets] total_prod dindex_fuel path_fuel) auto
qed

text \<open>The callback, if there is one, ends and keeps the ring.\<close>

definition spawn_ends :: "'z cluster_scheme \<Rightarrow> ('z cluster_scheme, json) act option \<Rightarrow> bool" where
  "spawn_ends s0 spawn \<longleftrightarrow> (\<forall>m. spawn = Some m \<longrightarrow> ends (frame s0) m)"

lemma ends_try_spawn:
  fixes s0 :: "'z cluster_scheme"
  assumes "spawn_ends s0 spawn"
  shows "ends (frame s0) (try_spawn spawn t)"
proof -
  have "ends (frame s0) (modify (\<lambda>s. s\<lparr>last_spawn_trigger := now_s s\<rparr>))"
    by (rule ends_modify) simp
  with assms show ?thesis
    unfolding try_spawn_def spawn_ends_def
    by (intro total_option total_ret total_after [OF ends_gets] total_if total_after [OF _ total_catch])
      (auto intro!: total_after total_if total_ret ends_emit)
qed

lemma ends_finally: "ends P m \<Longrightarrow> (\<And>s. P s \<Longrightarrow> P (f s)) \<Longrightarrow> ends P (finally_do m f)"
  by (auto simp: total_def finally_do_def split: prod.splits)

lemma ends_attempt:
  assumes me: "serves A s0 fuel me" and spawn: "spawn_ends (s0 :: 'z cluster_scheme) spawn"
  shows "ends (frame s0) (attempt_recovery fuel me k spawn r ft)"
proof -
  have "ends (frame s0) (recover_fresh fuel me k spawn t ft)" for t
    unfolding recover_fresh_def Let_def
    by (intro total_after [OF ends_safe_get [OF me]] total_option total_if total_ret total_after [OF ends_gets]
        total_after [OF total_if] ends_try_spawn [OF spawn] total_after [OF total_lift] path_fuel ends_execute [OF me]) auto
  then show ?thesis
    unfolding attempt_recovery_def Let_def
    by (auto split: json.split intro!: total_ret total_throw total_after [OF ends_gets] total_if
        total_after [OF ends_modify] ends_finally ends_ignoring)
qed

lemma detect_fuel: "failed_task r \<noteq> Inl OutOfFuel" "stuck_task now g r \<noteq> Inl OutOfFuel" "retry_due now r \<noteq> Inl OutOfFuel"
proof -
  have "py_in x v \<noteq> Inl OutOfFuel" for x v by (cases v) auto
  then show "failed_task r \<noteq> Inl OutOfFuel" by (simp add: failed_task_def chain_fuel)
  have "live_json now v g \<noteq> Inl OutOfFuel" for v by (cases v) (auto simp: live_json_def)
  then show "stuck_task now g r \<noteq> Inl OutOfFuel" by (simp add: stuck_task_def chain_fuel)
  show "retry_due now r \<noteq> Inl OutOfFuel" by (simp add: retry_due_def path_fuel del: py_ge.simps)
qed

lemma ends_records: "ends P (all_ht1_records me)"
  unfolding all_ht1_records_def by (intro total_catch total_read_node total_ret) auto

lemma ends_scan:
  assumes me: "serves A s0 fuel me" and spawn: "spawn_ends (s0 :: 'z cluster_scheme) spawn"
  shows "ends (frame s0) (scan fuel me k spawn order)"
  unfolding scan_def detect_worker_crashes_def detect_timed_out_tasks_def detect_failed_tasks_def
    detect_stuck_tasks_def retry_waiting_tasks_def Let_def
  by (intro total_after [OF total_after [OF ends_gets]] total_after [OF total_after [OF ends_records]]
      total_after [OF ends_gets] total_after [OF ends_records] ends_for_each total_after [OF ends_assigned_tasks [OF me]]
      total_after [OF ends_safe_get [OF me]] total_option total_if total_ret total_after [OF ends_emit]
      ends_attempt [OF me spawn] total_after [OF total_lift] detect_fuel dindex_fuel total_prod
      total_after [OF ends_safe_put [OF me]]) auto

section \<open>Properties\<close>

lemma lookup_errors:
  assumes "nodes s me = Some nd" and "find_successor fuel me key s = (Inl e, s')"
  shows "e = OutOfFuel"
proof (cases fuel)
  case 0
  then show ?thesis using assms by (auto simp: find_successor_via_def act_simps Let_def split: if_splits)
next
  case (Suc n)
  have kept: "keeps (\<lambda>s. nodes s me = Some nd) (rpc a (h_find_successor (find_successor n) a key))" for a
    unfolding h_find_successor_def by (intro keeps_intro) (auto simp: timeless_def)
  show ?thesis
    using assms Suc keeps_run [OF kept assms(1)]
    by (auto simp: find_successor_via_def act_simps Let_def split: if_splits prod.splits sum.splits)
qed

text \<open>
  C19. A lookup always ends: in a stable ring, from any member, for any key (its own identifier
  included), whatever requests and replies the network loses, 256 hops are enough: it returns a
  reference to a member, and no process has changed.
\<close>

theorem find_successor_ends:
  fixes s :: "'z net_scheme"
  assumes st: "stable A s" and me: "member A s me nd" and key: "is_id key" and fuel: "256 \<le> fuel"
  shows "\<exists>r s'. find_successor fuel me key s = (Inr r, s') \<and> refers A s r \<and> nodes s' = nodes s"
proof -
  obtain x s' where run: "find_successor fuel me key s = (x, s')" by fastforce
  have "x \<noteq> Inl OutOfFuel" "\<And>r. x = Inr r \<Longrightarrow> refers A s r"
    using totalD [OF total_find_successor [OF st me key fuel] frame_refl run] by auto
  moreover from this obtain r where "x = Inr r"
    using run lookup_errors [OF memberD(1) [OF me]] by (cases x) auto
  moreover have "keeps (\<lambda>s'. nodes s' = nodes s) (find_successor fuel me key)"
    by (rule keeps_find_successor) (simp add: timeless_def)
  then have "nodes (snd (find_successor fuel me key s)) = nodes s" by (rule keepsD) simp
  then have "nodes s' = nodes s" by (simp add: run)
  ultimately show ?thesis using run by blast
qed

text \<open>In the ring of 10 and 100, the lookup of its own identifier by node 10.\<close>

theorem find_successor_ends_witness:
  "\<exists>r s'. find_successor 256 ''a'' 10 demo_net = (Inr r, s') \<and> refers UNIV demo_net r \<and> nodes s' = nodes demo_net"
  by (rule find_successor_ends [of UNIV demo_net "''a''" demo10])
    (simp_all add: demo_net_stable demo_net_nodes is_id_def ring_size_256)

text \<open>
  C18. A recovery scan always ends: in a stable ring, on any member, whatever the network loses
  and whatever the stores hold, \<open>trigger\<close> returns without an exception, and the ring is as
  before. (256 hops of fuel per lookup; the spawn callback has to end and to leave the ring
  alone.)
\<close>

theorem trigger_returns:
  fixes s :: "'z cluster_scheme"
  assumes "stable A s" and "member A s me nd" and "256 \<le> fuel" and "spawn_ends s spawn"
  shows "\<exists>s'. trigger fuel me k spawn order s = (Inr (), s') \<and> frame s s'"
proof -
  have "ends (frame s) (scan fuel me k spawn order)"
    by (rule ends_scan [OF _ assms(4)]) (use assms in \<open>auto simp: serves_def\<close>)
  then show ?thesis unfolding trigger_def by (rule ignoring_returns) simp
qed

theorem trigger_returns_witness:
  "\<exists>s'. trigger 256 ''a'' 3 None id (init_cluster 10 demo_net) = (Inr (), s')"
proof -
  let ?s = "init_cluster 10 demo_net"
  have same: "nodes ?s = nodes demo_net"
    by (simp add: init_cluster_def net.extend_def)
  then have mem: "member A ?s a nd = member A demo_net a nd" for A a nd by (simp add: member_def)
  then have "stable UNIV ?s"
    using demo_net_stable by (simp add: stable_def well_placed_def refers_def ring_ids_def)
  moreover have "member UNIV ?s ''a'' demo10" by (simp add: mem demo_net_nodes)
  ultimately show ?thesis using trigger_returns [of UNIV ?s "''a''" demo10 256 None 3 id]
    by (auto simp: spawn_ends_def)
qed

end
