(* ===== verification/RecoveryRun.thy ===== *)
theory RecoveryRun
  imports Liveness
begin

text \<open>
  One recovery, end to end: what \<open>_attempt_recovery\<close> leaves in the ring after the crash of a
  worker, in a stable ring over a network that loses requests.
\<close>

section \<open>The records that are written are valid\<close>

lemma valid_cong:
  assumes "valid_result (JObj r)"
    and "dget d ''kind'' = dget r ''kind''" "dget d ''schema_version'' = dget r ''schema_version''"
    and "dget d ''task_type'' = dget r ''task_type''" "dget d ''assigned_by'' = dget r ''assigned_by''"
    and "dget d ''status'' = dget r ''status'' \<or> dget d ''status'' = JStr ''PENDING''"
    and "truthy (dget d ''worker_id'')"
  shows "valid_result (JObj d)"
  using assms by (auto simp: valid_result_iff VALID_STATUSES_def)

lemma valid_waiting:
  assumes "valid_result (JObj r)" and "started c ft r = Inr (u, h)"
  shows "valid_result (JObj (waiting q note' u h))"
  using assms by (intro valid_cong [OF assms(1)]) (auto simp: waiting_def started_dget valid_result_iff)

lemma valid_reassigned:
  assumes "valid_result (JObj r)" and "started c ft r = Inr (u, h)" and "reassigned p w u h = Inr d" and "w \<noteq> []"
  shows "valid_result (JObj d)"
  using assms(2-) by (intro valid_cong [OF assms(1)]) (auto simp: reassigned_def started_dget chain_eq_Inr)

section \<open>The steps of a recovery\<close>

lemma holds_stored: "holds a key v = stored a key (Some v)"
  by (simp add: holds_def stored_def fun_eq_iff)

lemma emit_run: "emit_event ty t w msg s = (Inr (), snd (emit_event ty t w msg s))"
  by (simp add: emit_event_def act_simps)

lemma emit_ok:
  fixes s0 :: "'z cluster_scheme"
  shows "frame s0 s \<Longrightarrow> \<exists>s'. emit_event ty t w msg s = (Inr (), s') \<and> frame s0 s'"
  by (simp add: emit_event_def act_simps Let_def)

lemma emit_frame [simp]: "frame s0 (snd (emit_event ty t w msg s)) = frame s0 s"
  by (simp add: emit_event_def act_simps Let_def)

lemma emit_holds [simp]: "holds a key v (snd (emit_event ty t w msg s)) = holds a key v s"
  by (simp add: emit_event_def act_simps Let_def holds_def)

lemma safe_put_ok:
  fixes s :: "'z cluster_scheme"
  assumes "stable A s" and "lossy s" and "member A s me nd" and "255 \<le> fuel" and "valid_result (JObj d)"
    and "is_nonblank (JStr t)" and "routes nd (sha1_id (''result:'' @ strip t))"
    and r: "responsible A s (sha1_id (''result:'' @ strip t)) r"
  obtains s' where "safe_put fuel me k (JStr t) d s = (Inr (), s')" "frame s s'"
    "holds (ref_addr r) (''result:'' @ strip t) (JObj d) s'"
proof -
  obtain r' res s' where put: "responsible A s (sha1_id (''result:'' @ strip t)) r'"
    "result_put fuel me k t (JObj d) s = (Inr res, s')" "frame s s'"
    "holds (ref_addr r') (''result:'' @ strip t) (JObj d) s'"
    by (rule result_put_ok [OF assms(1-7)])
  have "r' = r" using responsible_unique [OF assms(1) _ put(1) r] by simp
  with put show thesis
    by (intro that [of s']) (simp_all add: safe_put_def ignoring_def act_simps)
qed

lemma move_ok:
  fixes s :: "'z cluster_scheme"
  assumes "serves A s fuel me" and h: "holds a key v s" and other: "\<And>x. ''worker:'' @ x \<noteq> key"
  obtains s' where "move_assignment fuel me k old w path (JStr t) s = (Inr (), s')" "frame s s'"
    "holds a key v s'"
proof -
  let ?leave = "case (old, JStr t) of
       (JStr old, JStr t) \<Rightarrow>
         if old \<noteq> [] \<and> old \<noteq> w then ignoring (andthen (remove fuel me k old t) (\<lambda>_. ret ())) else ret ()
     | _ \<Rightarrow> ret ()"
  have away: "\<exists>s1. ignoring (andthen (remove fuel me k o' t) (\<lambda>_. ret ())) s = (Inr (), s1) \<and> frame s s1" for o'
    by (rule ignoring_returns) (intro total_after ends_remove [OF assms(1)] total_ret, simp_all)
  have "\<exists>s1. ?leave s = (Inr (), s1) \<and> frame s s1"
  proof (cases old)
    case (JStr o')
    then show ?thesis using away [of o'] by (simp add: act_simps)
  qed (simp_all add: act_simps)
  then obtain s1 where one: "?leave s = (Inr (), s1)" "frame s s1" by blast
  obtain r2 s2 where two: "append fuel me k w t s1 = (r2, s2)" by fastforce
  from totalD [OF ends_append [OF assms(1)] one(2) this] have fr2: "frame s s2" "r2 \<noteq> Inl OutOfFuel" by auto
  let ?emit = "emit_event ''retry'' (JStr t) (JStr w) (path_name path @ '' on worker '' @ w)"
  let ?fail = "emit_event ''error'' (JStr t) (JStr w) (''Failed to assign to '' @ w)"
  have move: "move_assignment fuel me k old w path (JStr t) s =
      catch (andthen (append fuel me k w t) (\<lambda>_. ?emit)) (\<lambda>_. ?fail) s1"
    using one(1) by (simp only: move_assignment_def run_andthen prod.case sum.case json.case)
  have "\<exists>s'. move_assignment fuel me k old w path (JStr t) s = (Inr (), s') \<and> frame s s'"
  proof (cases r2)
    case (Inl e)
    then have "move_assignment fuel me k old w path (JStr t) s = ?fail s2"
      using two fr2 unfolding move by (simp add: run_catch run_andthen)
    then show ?thesis using emit_ok [OF fr2(1)] by simp
  next
    case (Inr v)
    obtain s3 where s3: "?emit s2 = (Inr (), s3)" "frame s s3" using emit_ok [OF fr2(1)] by blast
    have "andthen (append fuel me k w t) (\<lambda>_. ?emit) s1 = (Inr (), s3)"
      using two s3(1) by (simp add: Inr run_andthen)
    then have "catch (andthen (append fuel me k w t) (\<lambda>_. ?emit)) (\<lambda>_. ?fail) s1 = (Inr (), s3)"
      by (simp add: run_catch)
    then show ?thesis using s3(2) unfolding move by blast
  qed
  then obtain s' where run: "move_assignment fuel me k old w path (JStr t) s = (Inr (), s')" "frame s s'" by blast
  have "keeps (stored a key (Some v)) (append fuel me k w t)" "keeps (stored a key (Some v)) (remove fuel me k o' t)" for o'
    by (rule other_key.keeps_append other_key.keeps_remove; rule other)+
  then have "keeps (holds a key v) (move_assignment fuel me k old w path (JStr t))"
    unfolding move_assignment_def holds_stored
    by (auto split: json.split intro!: keeps_andthen keeps_catch keeps_ret keeps_if keeps_ignoring keeps_modify
        simp: emit_event_def Let_def stored_def)
  then have "holds a key v s'" using h run(1) by (rule keeps_run)
  with run show thesis by (intro that) auto
qed

section \<open>The outcome\<close>

text \<open>
  The specification of a recovery after a crash at time \<open>q\<close>: \<open>d\<close> is the record before, \<open>d'\<close>
  the record after, \<open>scored\<close> the live workers, best first. Without a live worker the task waits
  30 seconds; otherwise it goes, as one more attempt, to the best worker that is not the one that
  crashed, or to the best one if there is no other.
\<close>

definition crash_outcome :: "rat \<Rightarrow> (string \<times> rat) list \<Rightarrow> jdict \<Rightarrow> jdict \<Rightarrow> bool" where
  "crash_outcome q scored d d' \<longleftrightarrow>
     (let others = filter (\<lambda>p. JStr (fst p) \<noteq> dget d ''worker_id'') scored;
          a = dget_or (JInt 0) d ''attempt_count''; a' = dget_or (JInt 0) d' ''attempt_count'' in
      if scored = [] then
        dget d' ''recovery_status'' = JStr ''WAITING_FOR_RETRY'' \<and> dget d' ''retry_at'' = JFloat (q + 30) \<and>
        dget d' ''status'' = dget d ''status'' \<and> dget d' ''worker_id'' = dget d ''worker_id'' \<and> a' = a
      else
        dget d' ''worker_id'' = JStr (fst (hd (if others = [] then scored else others))) \<and>
        dget d' ''status'' = JStr ''PENDING'' \<and> dget d' ''recovery_status'' = JNull \<and>
        py_add1 a = Inr a')"

text \<open>The record of a task that may be retried after a crash.\<close>

definition retriable :: "string \<Rightarrow> jdict \<Rightarrow> bool" where
  "retriable t d \<longleftrightarrow> valid_result (JObj d) \<and> map_of d ''task_id'' = Some (JStr t) \<and>
     dget d ''recovery_status'' \<noteq> JStr ''WAITING_FOR_RETRY'' \<and> dget d ''status'' \<noteq> JStr ''SUCCESS'' \<and>
     (\<exists>a m. dget_or (JInt 0) d ''attempt_count'' = JInt a \<and>
        dget_or (JInt MAX_RECOVERY_ATTEMPTS) d ''max_attempts'' = JInt m \<and> a < m) \<and>
     (\<exists>h. dget d ''recovery_history'' = JList h)"

lemma choose_crash:
  assumes "retriable t d"
  shows "choose_recovery_path d (JStr ''worker_crash'') live = Inr (if live then RETRY_DIFFERENT else WAIT_AND_RETRY)"
  using assms by (auto simp: retriable_def choose_recovery_path_def)

lemma started_crash:
  assumes "retriable t d"
  obtains u h where "started c ft d = Inr (u, h)"
proof -
  let ?d = "dset ''last_failure_reason'' ft d"
  obtain h where "dget d ''recovery_history'' = JList h" using assms by (auto simp: retriable_def)
  then have "py_list (py_or (dget ?d ''recovery_history'') (JList [])) = Inr h" by (simp add: py_or_def)
  then show thesis
    by (intro that [of "dset ''updated_at'' (JStr (utc_now_iso c)) ?d" h]) (simp add: started_def Let_def)
qed

lemma pick_other:
  assumes "scored \<noteq> []"
  shows "pick_worker now g RETRY_DIFFERENT cur scored =
    Inr (Some (fst (hd (if filter (\<lambda>p. JStr (fst p) \<noteq> cur) scored = [] then scored
                        else filter (\<lambda>p. JStr (fst p) \<noteq> cur) scored))))"
proof -
  have "(\<lambda>(w, x :: rat). JStr w \<noteq> cur) = (\<lambda>p. JStr (fst p) \<noteq> cur)" by auto
  then show ?thesis
    using assms unfolding pick_worker_def Let_def
    by (cases scored; cases "filter (\<lambda>p. JStr (fst p) \<noteq> cur) scored") (simp_all add: case_prod_beta)
qed

lemma outcome_waiting:
  assumes "started c ft d = Inr (u, h)"
  shows "crash_outcome q [] d (waiting (q + 30) n u h)"
  by (simp add: crash_outcome_def waiting_def started_dget [OF assms])

lemma reassigned_dget:
  assumes "reassigned p w u h = Inr d'"
  shows "dget d' ''worker_id'' = JStr w" "dget d' ''status'' = JStr ''PENDING''" "dget d' ''recovery_status'' = JNull"
    "py_add1 (dget_or (JInt 0) u ''attempt_count'') = Inr (dget_or (JInt 0) d' ''attempt_count'')"
proof -
  obtain x where x: "py_add1 (dget_or (JInt 0) u ''attempt_count'') = Inr x"
    using assms by (cases "py_add1 (dget_or (JInt 0) u ''attempt_count'')") (simp_all add: reassigned_def)
  note d' = assms [unfolded reassigned_def x chain_simps sum.inject, symmetric]
  show "dget d' ''worker_id'' = JStr w" "dget d' ''status'' = JStr ''PENDING''" "dget d' ''recovery_status'' = JNull"
    "py_add1 (dget_or (JInt 0) u ''attempt_count'') = Inr (dget_or (JInt 0) d' ''attempt_count'')"
    unfolding d' x by simp_all
qed

lemma outcome_reassigned:
  assumes "started c ft d = Inr (u, h)" and "reassigned RETRY_DIFFERENT w u h = Inr d'" and "scored \<noteq> []"
    and "w = fst (hd (if filter (\<lambda>p. JStr (fst p) \<noteq> dget d ''worker_id'') scored = [] then scored
                      else filter (\<lambda>p. JStr (fst p) \<noteq> dget d ''worker_id'') scored))"
  shows "crash_outcome q scored d d'"
proof -
  have "dget d' ''worker_id'' = JStr w" "dget d' ''status'' = JStr ''PENDING''" "dget d' ''recovery_status'' = JNull"
    "py_add1 (dget_or (JInt 0) d ''attempt_count'') = Inr (dget_or (JInt 0) d' ''attempt_count'')"
    using reassigned_dget [OF assms(2)] started_dget [OF assms(1), of "''attempt_count''"] by simp_all
  then show ?thesis unfolding crash_outcome_def Let_def assms(4) [symmetric] using assms(3) by simp
qed

lemma picked_live:
  assumes "scored \<noteq> []"
  shows "fst (hd (if filter P scored = [] then scored else filter P scored)) \<in> fst ` set scored"
proof -
  let ?l = "if filter P scored = [] then scored else filter P scored"
  have "?l \<noteq> []" "set ?l \<subseteq> set scored" using assms by auto
  then have "hd ?l \<in> set scored" using hd_in_set by blast
  then show ?thesis by (rule imageI)
qed

lemma reassigned_some:
  assumes "retriable t d" and "started c ft d = Inr (u, h)"
  obtains d' where "reassigned p w u h = Inr d'"
  using assms(1) started_dget [OF assms(2)] by (auto simp: retriable_def reassigned_def)

text \<open>
  The common situation of the lemmas below: a stable ring, a network that loses requests, and a
  result record \<open>d\<close> of task \<open>t\<close> at the process \<open>r\<close> responsible for it.
\<close>

definition task_at :: "string set \<Rightarrow> nat \<Rightarrow> string \<Rightarrow> string \<Rightarrow> nref \<Rightarrow> jdict \<Rightarrow> 'z net_scheme \<Rightarrow> bool" where
  "task_at A fuel me t r d s \<longleftrightarrow> stable A s \<and> lossy s \<and> 256 \<le> fuel \<and> is_nonblank (JStr t) \<and>
     (\<exists>nd. member A s me nd) \<and> (\<forall>a nd. member A s a nd \<longrightarrow> routes nd (sha1_id (''result:'' @ strip t))) \<and>
     responsible A s (sha1_id (''result:'' @ strip t)) r \<and> holds (ref_addr r) (''result:'' @ strip t) (JObj d) s"

lemma task_at_later [simp]: "task_at A fuel me t r d (later m c s) = task_at A fuel me t r d s"
  by (simp add: task_at_def)

lemma task_at_put:
  fixes s :: "'z cluster_scheme"
  assumes t: "task_at A fuel me t r d s" and "valid_result (JObj d')"
  obtains s' where "safe_put fuel me k (JStr t) d' s = (Inr (), s')" "frame s s'" "task_at A fuel me t r d' s'"
proof -
  obtain nd where nd: "member A s me nd" "routes nd (sha1_id (''result:'' @ strip t))" using t by (auto simp: task_at_def)
  obtain s' where s': "safe_put fuel me k (JStr t) d' s = (Inr (), s')" "frame s s'"
    "holds (ref_addr r) (''result:'' @ strip t) (JObj d') s'"
    by (rule safe_put_ok [of A s me nd fuel d' t r k]) (use t nd assms(2) in \<open>auto simp: task_at_def\<close>)
  have "routes x (sha1_id (''result:'' @ strip t))" if x: "member A s' a x" for a x
  proof -
    obtain y where y: "member A s a y" "same_place x y" by (rule frame_member [OF frame_sym [OF s'(2)] x])
    then have "routes y (sha1_id (''result:'' @ strip t))" using t unfolding task_at_def by blast
    then show ?thesis unfolding same_place_routes [OF y(2)] .
  qed
  moreover obtain nd' where "member A s' me nd'" by (rule frame_member [OF s'(2) nd(1)])
  ultimately have "task_at A fuel me t r d' s'"
    using t s' by (auto simp: task_at_def frame_stable_imp [OF s'(2)] frame_lossy [OF s'(2)] frame_responsible [OF s'(2)])
  with s' show thesis by (intro that)
qed

lemma task_at_get:
  assumes t: "task_at A fuel me t r d s" and rd: "member A s reader rd" and "is_result_record (JObj d)"
  shows "\<exists>m c. result_get fuel reader k t s = (Inr (Some (JObj d)), later m c s)"
  by (rule result_get_ok [of A s reader rd fuel t r "JObj d" k]) (use assms in \<open>auto simp: task_at_def\<close>)

lemma task_at_serves: "task_at A fuel me t r d s \<Longrightarrow> serves A s fuel me"
  by (auto simp: task_at_def serves_def)

text \<open>Choosing and executing a path, from a record that has just been read.\<close>

lemma execute_crash:
  fixes s :: "'z cluster_scheme"
  assumes t: "task_at A fuel me t r d s" and d: "retriable t d"
    and scored: "scored = score_all_workers (now_s s) (reg s)" and names: "[] \<notin> fst ` set scored"
  shows "\<exists>d' s'. execute fuel me k d (if scored \<noteq> [] then RETRY_DIFFERENT else WAIT_AND_RETRY) (JStr ''worker_crash'')
      scored False s = (Inr (), s') \<and> frame s s' \<and> crash_outcome (now_s s) scored d d' \<and>
    valid_result (JObj d') \<and> holds (ref_addr r) (''result:'' @ strip t) (JObj d') s'"
proof -
  obtain u h where st: "started (clock s) (JStr ''worker_crash'') d = Inr (u, h)" by (rule started_crash [OF d])
  have valid: "valid_result (JObj d)" and idx: "dindex d ''task_id'' = Inr (JStr t)"
    using d by (auto simp: retriable_def dindex_def)
  show ?thesis
  proof (cases "scored = []")
    case True
    let ?d = "waiting (now_s s + 30) [] u h"
    obtain s1 where s1: "safe_put fuel me k (JStr t) ?d s = (Inr (), s1)" "frame s s1" "task_at A fuel me t r ?d s1"
      by (rule task_at_put [OF t valid_waiting [OF valid st]])
    let ?emit = "emit_event ''wait_retry'' (JStr t) (JStr []) (''Waiting '' @ show_int 30 @ ''s before retry'')"
    have "execute fuel me k d WAIT_AND_RETRY (JStr ''worker_crash'') scored False s = ?emit s1"
      using idx st s1(1) by (simp add: execute_def follow_path_def run_andthen run_lift run_gets RECOVERY_WAIT_SECONDS_def now_s_def)
    with True s1 emit_run [of "''wait_retry''" "JStr t" "JStr []" "''Waiting '' @ show_int 30 @ ''s before retry''" s1]
      outcome_waiting [OF st] valid_waiting [OF valid st]
    show ?thesis by (intro exI [of _ ?d] exI [of _ "snd (?emit s1)"]) (simp add: task_at_def)
  next
    case False
    define w where "w = fst (hd (if filter (\<lambda>p. JStr (fst p) \<noteq> dget d ''worker_id'') scored = [] then scored
                        else filter (\<lambda>p. JStr (fst p) \<noteq> dget d ''worker_id'') scored))"
    have "w \<noteq> []" using picked_live [OF False] names unfolding w_def by metis
    obtain d' where d': "reassigned RETRY_DIFFERENT w u h = Inr d'" by (rule reassigned_some [OF d st])
    have v: "valid_result (JObj d')" by (rule valid_reassigned [OF valid st d' \<open>w \<noteq> []\<close>])
    obtain s1 where s1: "safe_put fuel me k (JStr t) d' s = (Inr (), s1)" "frame s s1" "task_at A fuel me t r d' s1"
      by (rule task_at_put [OF t v])
    have "holds (ref_addr r) (''result:'' @ strip t) (JObj d') s1" using s1(3) by (simp add: task_at_def)
    then obtain s2 where s2: "move_assignment fuel me k (dget u ''worker_id'') w RETRY_DIFFERENT (JStr t) s1 = (Inr (), s2)"
      "frame s1 s2" "holds (ref_addr r) (''result:'' @ strip t) (JObj d') s2"
      by (rule move_ok [OF task_at_serves [OF s1(3)]]) auto
    have "dget_or (JStr []) u ''worker_id'' = dget d ''worker_id''"
    proof -
      have "truthy (dget d ''worker_id'')" using valid by (simp add: valid_result_iff)
      then show ?thesis using started_dget [OF st] by (auto simp: dget_or_def split: option.splits)
    qed
    then have "pick_worker (seconds (clock s)) (reg s) RETRY_DIFFERENT (dget_or (JStr []) u ''worker_id'') scored = Inr (Some w)"
      using pick_other [OF False] by (simp add: w_def)
    then have "execute fuel me k d RETRY_DIFFERENT (JStr ''worker_crash'') scored False s = (Inr (), s2)"
      using idx st d' s1(1) s2(1)
      by (simp add: execute_def follow_path_def follow_retry_def run_andthen run_lift run_gets)
    with False s1(2) s2 v outcome_reassigned [OF st d' False w_def] show ?thesis
      by (intro exI [of _ d'] exI [of _ s2]) (auto intro: frame_trans)
  qed
qed

lemma scored_named:
  assumes "[] \<notin> set (dkeys (workers g))"
  shows "[] \<notin> fst ` set (score_all_workers now g)"
proof -
  have "set (live_workers now g) \<subseteq> set (dkeys (workers g))" by (force simp: set_live dkeys_def)
  moreover have "fst ` set (score_all_workers now g) = set (live_workers now g)" by (force simp: score_all_workers_def)
  ultimately show ?thesis using assms by auto
qed

text \<open>
  C16. Recovery of a task after its worker crashed: in a stable ring, over a network that loses
  requests, when the manager recovers a task whose record is at the process responsible for it
  and has an attempt left, the recovery returns, the ring is as before, the task is released,
  and every member then reads the same new record: with a live worker, one more attempt, pending
  on the best-scored worker that is not the crashed one (on the best one, if there is no other);
  without one, waiting for 30 seconds. (\<open>c\<close> is the time the read of the record took; no member's
  identifier is the hash of the record's key, unless it is alone.)
\<close>

theorem crash_recovery:
  fixes s :: "'z cluster_scheme"
  assumes t: "task_at A fuel me t r d s" and d: "retriable t d" and free: "t \<notin> set (in_progress s)"
    and names: "[] \<notin> set (dkeys (workers (reg s)))" and rec: "dget rec ''task_id'' = JStr t"
  shows "\<exists>c d' s'. attempt_recovery fuel me k None rec (JStr ''worker_crash'') s = (Inr (), s') \<and>
    frame s s' \<and> in_progress s' = in_progress s \<and>
    crash_outcome (seconds (clock s + c)) (score_all_workers (seconds (clock s + c)) (reg s)) d d' \<and>
    (\<forall>reader rd. member A s reader rd \<longrightarrow> (\<exists>m c. result_get fuel reader k t s' = (Inr (Some (JObj d')), later m c s')))"
proof -
  let ?s1 = "s\<lparr>in_progress := t # in_progress s\<rparr>"
  have "t \<noteq> []" using t by (auto simp: task_at_def strip_def)
  have t1: "task_at A fuel me t r d ?s1"
    using t by (simp add: task_at_def stable_def lossy_def member_def well_placed_def ring_ids_def refers_def
        responsible_def holds_def)
  have valid: "is_result_record (JObj d)" using d by (simp add: retriable_def valid_result_iff)
  obtain nd where nd: "member A ?s1 me nd" using t1 by (auto simp: task_at_def)
  obtain m c where get: "result_get fuel me k t ?s1 = (Inr (Some (JObj d)), later m c ?s1)"
    using task_at_get [OF t1 nd valid] by blast
  let ?s2 = "later m c ?s1" and ?q = "seconds (clock s + c)"
  let ?scored = "score_all_workers ?q (reg s)"
  have now: "now_s ?s2 = ?q" "reg ?s2 = reg s" by (simp_all add: now_s_def later_def)
  obtain d' s3 where ex: "execute fuel me k d (if ?scored \<noteq> [] then RETRY_DIFFERENT else WAIT_AND_RETRY) (JStr ''worker_crash'')
      ?scored False ?s2 = (Inr (), s3)" "frame ?s2 s3" "crash_outcome ?q ?scored d d'"
    "valid_result (JObj d')" "holds (ref_addr r) (''result:'' @ strip t) (JObj d') s3"
    using execute_crash [of A fuel me t r d ?s2 ?scored k] t1 d scored_named [OF names] by (auto simp: now)
  have "recover_fresh fuel me k None t (JStr ''worker_crash'') ?s1 = (Inr (), s3)"
    using get ex(1) choose_crash [OF d] d
    by (simp add: recover_fresh_def safe_get_def run_andthen run_catch run_gets run_lift run_ret Let_def retriable_def
        try_spawn_def now cong: if_cong)
  then have run: "attempt_recovery fuel me k None rec (JStr ''worker_crash'') s =
      (Inr (), s3\<lparr>in_progress := removeAll t (in_progress s3)\<rparr>)"
    using rec free \<open>t \<noteq> []\<close>
    by (simp add: attempt_recovery_def Let_def run_andthen run_gets run_modify finally_do_def ignoring_def run_catch)
  let ?s' = "s3\<lparr>in_progress := removeAll t (in_progress s3)\<rparr>"
  have "frame s ?s2" by (rule frame_trans [OF _ frame_later]) simp
  then have fr: "frame s ?s'" using ex(2) by (auto intro: frame_trans)
  have "in_progress (snd (attempt_recovery fuel me k None rec (JStr ''worker_crash'') s)) = in_progress s"
    by (rule keepsD [OF attempt_in_progress]) simp_all
  moreover have "\<exists>m c. result_get fuel reader k t ?s' = (Inr (Some (JObj d')), later m c ?s')"
    if "member A s reader rd" for reader rd
    by (rule result_get_frame [OF fr, of A reader rd fuel t r "JObj d'"])
      (use t that ex(4,5) in \<open>auto simp: task_at_def valid_result_iff holds_def\<close>)
  ultimately show ?thesis using run fr ex(3)
    by (intro exI [of _ c] exI [of _ d'] exI [of _ ?s']) simp
qed

text \<open>
  One process, the record of task \<open>t\<close> on worker \<open>w\<close> with one of three attempts used, and a
  registry that knows the worker \<open>x\<close> only.
\<close>

definition demo_task_record :: jdict where
  "demo_task_record = dict_of demo_result @ [(''attempt_count'', JInt 1), (''max_attempts'', JInt 3), (''recovery_history'', JList [])]"

definition demo_crash :: cluster where
  "demo_crash = (init_cluster 0 (set_node ''a'' (demo_one\<lparr>data_store := [(''result:t'', JObj demo_task_record)]\<rparr>) demo_single))
     \<lparr>reg := (init_registry 0)\<lparr>workers := [(''x'', 0)]\<rparr>\<rparr>"

lemma stable_of_parts:
  fixes s :: "'a net_scheme" and s' :: "'b net_scheme"
  assumes "nodes s = nodes s'"
  shows "member A s = member A s'" "stable A s = stable A s'" "responsible A s = responsible A s'"
    "holds a key v s = holds a key v s'"
proof -
  have m: "member A s = member A s'" using assms by (simp add: member_def fun_eq_iff)
  then have "refers A s = refers A s'" "ring_ids A s = ring_ids A s'" by (simp_all add: refers_def ring_ids_def fun_eq_iff)
  with m assms show "member A s = member A s'" "stable A s = stable A s'" "responsible A s = responsible A s'"
    "holds a key v s = holds a key v s'"
    by (simp_all add: stable_def well_placed_def responsible_def holds_def fun_eq_iff)
qed

definition demo_crash_net :: net where
  "demo_crash_net = set_node ''a'' (demo_one\<lparr>data_store := [(''result:t'', JObj demo_task_record)]\<rparr>) demo_single"

lemma demo_crash_parts: "nodes demo_crash = nodes demo_crash_net" "fault demo_crash = fault demo_crash_net"
  by (simp_all add: demo_crash_def demo_crash_net_def init_cluster_def net.extend_def)

lemma demo_crash_task: "task_at UNIV 256 ''a'' ''t'' ref10 demo_task_record demo_crash"
proof -
  have fr: "frame demo_single demo_crash_net"
    unfolding demo_crash_net_def by (rule frame_set_node [of _ _ demo_one]) (simp_all add: demo_single_def)
  have parts: "stable UNIV demo_crash_net" "lossy demo_crash_net" "responsible UNIV demo_crash_net k ref10" for k
    using frame_stable_imp [OF fr demo_single_stable] frame_lossy [OF fr] frame_responsible [OF fr]
      demo_single_lossy demo_single_responsible by auto
  have mem: "\<exists>nd. member UNIV demo_crash_net ''a'' nd" "\<And>a nd k. member UNIV demo_crash_net a nd \<Longrightarrow> routes nd k"
    by (auto simp: member_def demo_crash_net_def demo_single_def set_node_def routes_def successor_def split: if_splits)
      (simp add: demo_one_def demo_fingers_def upt_M demo_refs)+
  have "strip ''t'' = ''t''" by code_simp
  then have "is_nonblank (JStr ''t'')" "holds (ref_addr ref10) (''result:'' @ strip ''t'') (JObj demo_task_record) demo_crash_net"
    by (simp_all add: holds_def demo_crash_net_def demo_refs)
  moreover have "lossy demo_crash" using parts(2) by (simp add: lossy_def demo_crash_parts)
  ultimately show ?thesis
    using parts mem unfolding task_at_def stable_of_parts [OF demo_crash_parts(1)] by blast
qed

lemma demo_crash_retriable: "retriable ''t'' demo_task_record"
  by (simp add: retriable_def demo_task_record_def demo_result_def valid_result_iff dget_or_Cons RESULT_KIND_def
      VALID_STATUSES_def VALID_TASK_TYPES_def VALID_ASSIGNED_BY_def eq_int_def)

theorem crash_recovery_witness:
  "\<exists>d' s'. attempt_recovery 256 ''a'' 3 None demo_task_record (JStr ''worker_crash'') demo_crash = (Inr (), s') \<and>
     dget d' ''worker_id'' = JStr ''x'' \<and> dget_or (JInt 0) d' ''attempt_count'' = JInt 2 \<and>
     (\<exists>m c. result_get 256 ''a'' 3 ''t'' s' = (Inr (Some (JObj d')), later m c s'))"
proof -
  have reg: "reg demo_crash = (init_registry 0)\<lparr>workers := [(''x'', 0)]\<rparr>" "in_progress demo_crash = []"
    by (simp_all add: demo_crash_def init_cluster_def net.extend_def)
  have scored: "score_all_workers now (reg demo_crash) = [(''x'', score (reg demo_crash) ''x'')]" for now
    by (simp add: score_all_workers_def live_workers_def reg init_registry_def dkeys_def)
  have rec: "dget demo_task_record ''task_id'' = JStr ''t''" "dget_or (JInt 0) demo_task_record ''attempt_count'' = JInt 1"
    by (simp_all add: demo_task_record_def demo_result_def dget_or_Cons)
  have "\<exists>nd. member UNIV demo_crash ''a'' nd" using demo_crash_task by (auto simp: task_at_def)
  moreover have "[] \<notin> set (dkeys (workers (reg demo_crash)))" by (simp add: reg dkeys_def)
  ultimately show ?thesis
    using crash_recovery [OF demo_crash_task demo_crash_retriable, of demo_task_record 3] rec
    by (fastforce simp: reg(2) scored crash_outcome_def Let_def)
qed

end
