(* ===== verification/Submit.thy ===== *)
theory Submit
  imports Submission RecoveryRun
begin

text \<open>
  Submission, end to end: an accepted task can be read and is assigned everywhere, a task whose
  submission failed leaves no record behind, and a completed task shows its result. \<open>post\<close> is the
  Hoare triple these proofs use: what the value an action returns says of the state it leaves.
\<close>

section \<open>Assertions about the value and the state\<close>

definition post :: "('s \<Rightarrow> bool) \<Rightarrow> ('s, 'a) act \<Rightarrow> ('a \<Rightarrow> 's \<Rightarrow> bool) \<Rightarrow> bool" where
  "post P m R \<longleftrightarrow> (\<forall>s x s'. P s \<longrightarrow> m s = (Inr x, s') \<longrightarrow> R x s')"

named_theorems post_intro \<open>rules for \<open>post\<close>, one per combinator\<close>

lemma postI: "(\<And>s x s'. P s \<Longrightarrow> m s = (Inr x, s') \<Longrightarrow> R x s') \<Longrightarrow> post P m R"
  by (simp add: post_def)

lemma postD: "post P m R \<Longrightarrow> P s \<Longrightarrow> m s = (Inr x, s') \<Longrightarrow> R x s'"
  by (simp add: post_def)

lemma post_ret [post_intro]: "(\<And>s. P s \<Longrightarrow> R x s) \<Longrightarrow> post P (ret x) R"
  by (simp add: post_def act_simps)

lemma post_throw [post_intro]: "post P (throw e) R"
  by (simp add: post_def act_simps)

lemma post_lift [post_intro]: "(\<And>x s. r = Inr x \<Longrightarrow> P s \<Longrightarrow> R x s) \<Longrightarrow> post P (lift r) R"
  by (auto simp: post_def act_simps)

lemma post_andthen: "triple P m Q \<Longrightarrow> (\<And>x. Q x \<Longrightarrow> post P (k x) R) \<Longrightarrow> post P (andthen m k) R"
  by (auto simp: post_def act_simps split: prod.splits sum.splits dest!: tripleD)

lemma post_after: "keeps P m \<Longrightarrow> (\<And>x. post P (k x) R) \<Longrightarrow> post P (andthen m k) R"
  by (rule post_andthen [OF keeps_triple [where Q = "\<lambda>_. True"]]) auto

lemma post_catch: "post P m R \<Longrightarrow> (\<And>e. post (\<lambda>_. True) (h e) R) \<Longrightarrow> post P (catch m h) R"
  by (auto simp: post_def act_simps split: prod.splits sum.splits if_splits)

lemma post_if [post_intro]: "(b \<Longrightarrow> post P m R) \<Longrightarrow> (\<not> b \<Longrightarrow> post P m' R) \<Longrightarrow> post P (if b then m else m') R"
  by simp

lemma post_option [post_intro]:
  "(x = None \<Longrightarrow> post P m R) \<Longrightarrow> (\<And>y. x = Some y \<Longrightarrow> post P (f y) R)
    \<Longrightarrow> post P (case x of None \<Rightarrow> m | Some y \<Rightarrow> f y) R"
  by (cases x) auto

section \<open>Where a key is stored\<close>

text \<open>Only the processes of \<open>X\<close> store the key.\<close>

definition confined :: "string \<Rightarrow> string set \<Rightarrow> 'z net_scheme \<Rightarrow> bool" where
  "confined key X s \<longleftrightarrow> (\<forall>a nd. nodes s a = Some nd \<longrightarrow> map_of (data_store nd) key \<noteq> None \<longrightarrow> a \<in> X)"

lemma confined_empty: "confined key {} = absent key"
  by (auto simp: confined_def absent_def fun_eq_iff)

lemma confined_mono: "confined key X s \<Longrightarrow> X \<subseteq> Y \<Longrightarrow> confined key Y s"
  by (auto simp: confined_def)

lemma confined_later [simp]: "confined key X (later m c s) = confined key X s"
  by (simp add: confined_def)

lemma confined_set_node: "confined key X s \<Longrightarrow> a \<in> X \<Longrightarrow> confined key X (set_node a nd s)"
  by (auto simp: confined_def set_node_def split: if_splits)

lemma confined_delete: "confined key X s \<Longrightarrow> confined key (X - {a}) (set_node a (snd (delete key nd)) s)"
  by (auto simp: confined_def set_node_def delete_data split: if_splits)

interpretation confined: data_invariant "\<lambda>key' _. key' \<noteq> key" "confined key X"
  for key X
  by unfold_locales (auto simp: confined_def put_data delete_data set_node_def later_def split: if_splits)

lemma keeps_replica_confined:
  "a \<in> X \<Longrightarrow> keeps (confined key X) (t_put_result_replica a i v)"
  unfolding t_put_result_replica_def h_result_replica_put_def
  by (intro keeps_rpc confined.time) (auto simp: keeps_def on_node_def confined_set_node split: option.splits)

section \<open>The successor chain of a stable ring is a function of the ring\<close>

lemma chain_unique:
  assumes st: "stable A s" and "cs \<noteq> []" "hd cs = r" "length cs = length cs'" "hd cs' = r"
    and refs: "\<forall>r \<in> set cs. refers A s r" "\<forall>r \<in> set cs'. refers A s r"
    and nxt: "\<forall>i. Suc i < length cs \<longrightarrow> next_of (ring_ids A s) (ref_id (cs ! i)) (ref_id (cs ! Suc i))"
      "\<forall>i. Suc i < length cs' \<longrightarrow> next_of (ring_ids A s) (ref_id (cs' ! i)) (ref_id (cs' ! Suc i))"
  shows "cs = cs'"
proof -
  have ids: "ids_set (ring_ids A s)" using st by (simp add: stable_def)
  have "i < length cs \<Longrightarrow> cs ! i = cs' ! i" for i
  proof (induction i)
    case 0
    then show ?case using assms(2-5) by (metis hd_conv_nth length_0_conv)
  next
    case (Suc i)
    then have "next_of (ring_ids A s) (ref_id (cs ! i)) (ref_id (cs ! Suc i))"
      "next_of (ring_ids A s) (ref_id (cs ! i)) (ref_id (cs' ! Suc i))"
      using nxt assms(4) by auto
    moreover have "refers A s (cs ! i)" using refs(1) Suc.prems by simp
    then have "is_id (ref_id (cs ! i))" using refers_ring_ids ids by (auto simp: ids_set_def)
    ultimately have "ref_id (cs ! Suc i) = ref_id (cs' ! Suc i)" using next_of_unique [OF ids] by blast
    then show ?case
      using stable_refers_inj [OF st, of "cs ! Suc i" "cs' ! Suc i"] refs Suc.prems assms(4) by simp
  qed
  then show ?thesis using assms(4) by (intro nth_equalityI) auto
qed

lemma chain_fixed:
  fixes s :: "'z net_scheme"
  assumes st: "stable A s" and lossy: "lossy s" and r: "refers A s r"
  obtains cs where "hd cs = r" "cs \<noteq> []" "\<forall>x \<in> set cs. refers A s x"
    "\<And>s'. frame s s' \<Longrightarrow> \<exists>m c. get_successor_chain k r s' = (Inr cs, later m c s')"
proof -
  obtain cs where cs: "cs \<noteq> []" "hd cs = r" "\<forall>x \<in> set cs. refers A s x"
    "\<forall>i. Suc i < length cs \<longrightarrow> next_of (ring_ids A s) (ref_id (cs ! i)) (ref_id (cs ! Suc i))"
    "length cs = min (nat (max 1 k)) (card (ring_ids A s))"
    using chain_stable [OF assms, of k] by blast
  have "\<exists>m c. get_successor_chain k r s' = (Inr cs, later m c s')" if fr: "frame s s'" for s'
  proof -
    obtain cs' m c where run: "get_successor_chain k r s' = (Inr cs', later m c s')"
      and cs': "cs' \<noteq> []" "hd cs' = r" "\<forall>x \<in> set cs'. refers A s x"
        "\<forall>i. Suc i < length cs' \<longrightarrow> next_of (ring_ids A s) (ref_id (cs' ! i)) (ref_id (cs' ! Suc i))"
        "length cs' = min (nat (max 1 k)) (card (ring_ids A s))"
      using chain_stable [of A s' r k] frame_stable_imp [OF fr st] frame_lossy [OF fr] frame_refers [OF fr]
        frame_ring_ids [OF fr] lossy r by auto
    have "cs = cs'"
      using cs cs' by (intro chain_unique [OF st, of cs r cs']) simp_all
    with run show ?thesis by blast
  qed
  with cs show thesis by (intro that)
qed

section \<open>A task and the process responsible for it\<close>

text \<open>
  A stable ring over a network that loses requests, in which every member can look up the key
  of task \<open>t\<close>, whose identifier has no blanks around it; \<open>r\<close> is the responsible process.
\<close>

definition task_place :: "string set \<Rightarrow> nat \<Rightarrow> string \<Rightarrow> string \<Rightarrow> nref \<Rightarrow> 'z net_scheme \<Rightarrow> bool" where
  "task_place A fuel me t r s \<longleftrightarrow> stable A s \<and> lossy s \<and> 256 \<le> fuel \<and> t \<noteq> [] \<and> strip t = t \<and>
     (\<exists>nd. member A s me nd) \<and> (\<forall>a nd. member A s a nd \<longrightarrow> routes nd (sha1_id (''result:'' @ t))) \<and>
     responsible A s (sha1_id (''result:'' @ t)) r"

lemma task_place_frame:
  assumes t: "task_place A fuel me t r s" and fr: "frame s s'"
  shows "task_place A fuel me t r s'"
proof -
  have "\<exists>nd. member A s' me nd" using t frame_member [OF fr] unfolding task_place_def by metis
  moreover have "routes y (sha1_id (''result:'' @ t))" if y: "member A s' a y" for a y
  proof -
    obtain x where "member A s a x" "same_place y x" using frame_member [OF frame_sym [OF fr] y] by blast
    then show ?thesis using t same_place_routes unfolding task_place_def by blast
  qed
  ultimately show ?thesis
    using t by (auto simp: task_place_def frame_stable_imp [OF fr] frame_lossy [OF fr] frame_responsible [OF fr])
qed

lemma task_place_member:
  assumes "task_place A fuel me t r s"
  obtains nd where "member A s me nd" "routes nd (sha1_id (''result:'' @ t))"
  using assms by (auto simp: task_place_def)

lemma task_place_refers: "task_place A fuel me t r s \<Longrightarrow> refers A s r"
  by (simp add: task_place_def responsible_def)

lemma task_place_serves: "task_place A fuel me t r s \<Longrightarrow> serves A s fuel me"
  by (auto simp: task_place_def serves_def)

lemma task_place_task_at:
  "task_place A fuel me t r s \<Longrightarrow> holds (ref_addr r) (''result:'' @ t) (JObj d) s \<Longrightarrow> task_at A fuel me t r d s"
  by (auto simp: task_place_def task_at_def)

lemma task_place_lookup:
  fixes s :: "'z net_scheme"
  assumes t: "task_place A fuel me t r s"
  obtains m c where "find_successor fuel me (sha1_id (''result:'' @ t)) s = (Inr r, later m c s)"
proof -
  obtain nd where nd: "member A s me nd" "routes nd (sha1_id (''result:'' @ t))" by (rule task_place_member [OF t])
  obtain r' m c where "find_successor fuel me (sha1_id (''result:'' @ t)) s = (Inr r', later m c s)"
    "responsible A s (sha1_id (''result:'' @ t)) r'"
    by (rule find_successor_ok [of A s me nd _ fuel]) (use t nd in \<open>auto simp: task_place_def\<close>)
  moreover from this have "r' = r"
    using t responsible_unique [of A s "sha1_id (''result:'' @ t)" r' r] by (simp add: task_place_def)
  ultimately show thesis by (intro that) simp
qed

section \<open>Writing and deleting the record\<close>

lemma keeps_fan_out_on: "(\<And>r. r \<in> set rs \<Longrightarrow> keeps P (op r)) \<Longrightarrow> keeps P (fan_out op rs)"
  unfolding fan_out_def by (rule keeps_for_each) (auto simp: collect_def intro!: keeps_intro)

lemma result_put_confined:
  fixes s :: "'z net_scheme"
  assumes t: "task_place A fuel me t r s" and none: "absent (''result:'' @ t) s" and rec: "valid_result rec"
    and cs: "hd cs = r" "cs \<noteq> []" "\<And>s'. frame s s' \<Longrightarrow> \<exists>m c. get_successor_chain k r s' = (Inr cs, later m c s')"
  obtains res s' where "result_put fuel me k t rec s = (Inr res, s')" "frame s s'"
    "holds (ref_addr r) (''result:'' @ t) rec s'" "confined (''result:'' @ t) (ref_addr ` set cs) s'"
proof -
  let ?key = "''result:'' @ t" and ?X = "ref_addr ` set cs"
  obtain nd where nd: "member A s me nd" "routes nd (sha1_id ?key)" by (rule task_place_member [OF t])
  have place: "stable A s" "lossy s" "strip t = t" "is_nonblank (JStr t)" "255 \<le> fuel"
    using t by (auto simp: task_place_def)
  obtain r' res s' where put: "responsible A s (sha1_id ?key) r'" "result_put fuel me k t rec s = (Inr res, s')"
    "frame s s'" "holds (ref_addr r') ?key rec s'"
    using result_put_ok [OF place(1,2) nd(1) place(5) rec place(4), of k] nd(2) place(3) by metis
  have r': "r' = r" using responsible_unique [OF place(1) _ put(1)] t by (simp add: task_place_def)
  obtain m c where look: "find_successor fuel me (sha1_id ?key) s = (Inr r, later m c s)"
    by (rule task_place_lookup [OF t])
  obtain nr m2 c2 where nr: "nodes s (ref_addr r) = Some nr" and prim: "put_on_node fuel me r ?key rec (later m c s) =
      (Inr (), set_node (ref_addr r) (snd (put ?key rec nr)) (later m2 c2 (later m c s)))"
    using put_on_node_run [of A "later m c s" me nd r fuel ?key rec] place nd task_place_refers [OF t] by auto
  let ?s2 = "set_node (ref_addr r) (snd (put ?key rec nr)) (later m2 c2 (later m c s))"
  have "frame (later m c s) ?s2" by (rule frame_trans [OF frame_later frame_set_node]) (use nr put_place in auto)
  then have fr2: "frame s ?s2" by (rule frame_trans [OF frame_later])
  obtain m3 c3 where chain: "get_successor_chain k r ?s2 = (Inr cs, later m3 c3 ?s2)" using cs(3) [OF fr2] by blast
  have "ref_addr r \<in> ?X" using cs(1,2) by (metis hd_in_set imageI)
  then have two: "confined ?key ?X ?s2"
    using none by (intro confined_set_node) (auto simp: confined_empty [symmetric] intro: confined_mono)
  have step: "keeps (confined ?key ?X) (fan_out (\<lambda>x. best_effort (t_put_result_replica (ref_addr x) t rec)) (tl cs))"
    using cs(2) by (intro keeps_fan_out_on keeps_best_effort keeps_replica_confined) (auto dest: list.set_sel(2))
  obtain ok bad s3 where fan: "fan_out (\<lambda>x. best_effort (t_put_result_replica (ref_addr x) t rec)) (tl cs) (later m3 c3 ?s2) =
      (Inr (ok, bad), s3)"
    using fan_out_best_effort_returns [of "\<lambda>x. t_put_result_replica (ref_addr x) t rec"] fueled_put_result_replica
    by blast
  have "validate_result_record rec = Inr ()" using rec by (simp add: valid_result_def)
  then have "snd (result_put fuel me k t rec s) = s3"
    using look prim chain fan place(3,4)
    by (simp add: result_put_def build_result_key_def result_owner_def result_put_on_node_def result_replicate_def
        replicate_best_effort_def act_simps Let_def)
  then have "s3 = s'" using put(2) by simp
  moreover have "confined ?key ?X s3" by (rule keeps_run [OF step _ fan]) (use two in simp)
  ultimately show thesis using put(2-4) unfolding r' by (intro that) auto
qed

lemma delete_on_node_run:
  fixes s :: "'z net_scheme"
  assumes st: "stable A s" and lossy: "lossy s" and me: "member A s me nd" and r: "refers A s r"
  obtains nr b m c where "nodes s (ref_addr r) = Some nr"
    "delete_on_node me r key s = (Inr b, set_node (ref_addr r) (snd (delete key nr)) (later m c s))"
proof (cases "ref_id r = node_id nd")
  case True
  have addr: "ref_addr r = me" by (rule responsible_self [OF st me r True])
  have "delete_on_node me r key s = (Inr (fst (delete key nd)), set_node me (snd (delete key nd)) (later 0 0 s))"
    using True memberD(1) [OF me] by (cases "delete key nd") (simp add: delete_on_node_def act_simps)
  with addr memberD(1) [OF me] show thesis by (intro that [of nd "fst (delete key nd)" 0 0]) auto
next
  case False
  obtain nr where nr: "nodes s (ref_addr r) = Some nr" using r by (auto simp: refers_def dest: memberD)
  obtain m c where "t_delete (ref_addr r) key s =
      (Inr (fst (delete key nr)), set_node (ref_addr r) (snd (delete key nr)) (later m c s))"
    unfolding t_delete_def h_data_delete_def by (rule rpc_on_node [OF lossy nr]) auto
  then have "delete_on_node me r key s =
      (Inr (fst (delete key nr)), set_node (ref_addr r) (snd (delete key nr)) (later m c s))"
    using False memberD(1) [OF me] by (simp add: delete_on_node_def act_simps)
  with nr show thesis by (rule that)
qed

text \<open>Deleting the replicas.\<close>

lemma delete_replicas:
  fixes s :: "'z net_scheme"
  assumes "lossy s" and "\<forall>x \<in> set rs. refers A s x" and "confined (''result:'' @ t) (ref_addr ` set rs) s"
  shows "\<exists>s'. for_each rs (\<lambda>x _. ignoring (t_delete_result_replica (ref_addr x) t)) () s = (Inr (), s') \<and>
    frame s s' \<and> absent (''result:'' @ t) s'"
  using assms
proof (induction rs arbitrary: s)
  case Nil
  then show ?case by (simp add: act_simps confined_empty)
next
  case (Cons x rs)
  let ?key = "''result:'' @ t"
  obtain nx where nx: "nodes s (ref_addr x) = Some nx" using Cons.prems(2) by (auto simp: refers_def dest: memberD)
  obtain m c where "rpc (ref_addr x) (h_result_replica_delete (ref_addr x) t) s =
      (Inr (fst (delete ?key nx)), set_node (ref_addr x) (snd (delete ?key nx)) (later m c s))"
    unfolding h_result_replica_delete_def by (rule rpc_on_node [OF Cons.prems(1) nx]) auto
  then have run: "ignoring (t_delete_result_replica (ref_addr x) t) s =
      (Inr (), set_node (ref_addr x) (snd (delete ?key nx)) (later m c s))"
    by (simp add: t_delete_result_replica_def ignoring_def act_simps)
  let ?s1 = "set_node (ref_addr x) (snd (delete ?key nx)) (later m c s)"
  have fr: "frame s ?s1"
    by (rule frame_trans [OF frame_later frame_set_node]) (use nx delete_place in auto)
  have "confined ?key (ref_addr ` set (x # rs) - {ref_addr x}) ?s1"
    by (rule confined_delete) (use Cons.prems(3) in simp)
  then have "confined ?key (ref_addr ` set rs) ?s1" by (rule confined_mono) auto
  moreover have "lossy ?s1" "\<forall>y \<in> set rs. refers A ?s1 y"
    using Cons.prems(1,2) unfolding frame_lossy [OF fr] frame_refers [OF fr] by simp_all
  ultimately obtain s' where
    "for_each rs (\<lambda>x _. ignoring (t_delete_result_replica (ref_addr x) t)) () ?s1 = (Inr (), s')"
    "frame ?s1 s'" "absent ?key s'"
    using Cons.IH [of ?s1] by blast
  with run frame_trans [OF fr] show ?case by (simp add: run_andthen)
qed

lemma result_delete_ok:
  fixes s :: "'z net_scheme"
  assumes t: "task_place A fuel me t r s" and held: "confined (''result:'' @ t) (ref_addr ` set cs) s"
    and cs: "hd cs = r" "cs \<noteq> []" "\<forall>x \<in> set cs. refers A s x"
      "\<And>s'. frame s s' \<Longrightarrow> \<exists>m c. get_successor_chain k r s' = (Inr cs, later m c s')"
  obtains b s' where "result_delete fuel me k t s = (Inr b, s')" "frame s s'" "absent (''result:'' @ t) s'"
proof -
  let ?key = "''result:'' @ t"
  have place: "stable A s" "lossy s" "strip t = t" "is_nonblank (JStr t)" using t by (auto simp: task_place_def)
  obtain nd where nd: "member A s me nd" by (rule task_place_member [OF t])
  obtain m c where look: "find_successor fuel me (sha1_id ?key) s = (Inr r, later m c s)"
    by (rule task_place_lookup [OF t])
  obtain nr b m2 c2 where nr: "nodes s (ref_addr r) = Some nr" and prim: "delete_on_node me r ?key (later m c s) =
      (Inr b, set_node (ref_addr r) (snd (delete ?key nr)) (later m2 c2 (later m c s)))"
    by (rule delete_on_node_run [of A "later m c s" me nd r ?key]) (use place nd task_place_refers [OF t] in auto)
  let ?s2 = "set_node (ref_addr r) (snd (delete ?key nr)) (later m2 c2 (later m c s))"
  have "frame (later m c s) ?s2" by (rule frame_trans [OF frame_later frame_set_node]) (use nr delete_place in auto)
  then have fr2: "frame s ?s2" by (rule frame_trans [OF frame_later])
  obtain m3 c3 where chain: "get_successor_chain k r ?s2 = (Inr cs, later m3 c3 ?s2)" using cs(4) [OF fr2] by blast
  let ?s3 = "later m3 c3 ?s2"
  have "confined ?key (ref_addr ` set cs - {ref_addr r}) ?s2" by (rule confined_delete) (use held in simp)
  then have "confined ?key (ref_addr ` set (tl cs)) ?s3"
    by (simp, elim confined_mono) (use cs(1,2) in \<open>cases cs; auto\<close>)
  moreover have fr3: "frame s ?s3" by (rule frame_trans [OF fr2 frame_later])
  moreover have "\<forall>x \<in> set (tl cs). refers A ?s3 x"
    using cs(2,3) unfolding frame_refers [OF fr3] by (blast dest: list.set_sel(2))
  ultimately obtain s' where "for_each (tl cs) (\<lambda>x _. ignoring (t_delete_result_replica (ref_addr x) t)) () ?s3 = (Inr (), s')"
    "frame ?s3 s'" "absent ?key s'"
    using delete_replicas [of ?s3 "tl cs" A t] frame_lossy [OF fr3] place(2) by auto
  moreover from this have "result_delete fuel me k t s = (Inr b, s')"
    using look prim chain place(3,4)
    by (simp add: result_delete_def build_result_key_def result_owner_def result_delete_on_node_def act_simps)
  ultimately show thesis using fr3 by (intro that) (auto intro: frame_trans)
qed

section \<open>The two writes\<close>

lemma triple_retried:
  assumes "timeless P" and "triple P op Q"
  shows "triple P (retried name op) Q"
proof -
  have "triple P (retrying transient (back_off b m) (\<lambda>_. op) n i ()) Q" for b m n i
    unfolding back_off_def using assms by (intro triple_retrying keeps_sleep)
  note run = tripleD [OF this]
  show ?thesis
    unfolding retried_def with_timeout_and_retry_def
    by (intro tripleI) (auto split: prod.splits sum.splits if_splits dest: run)
qed

lemma triple_attempted: "triple P m (\<lambda>_. ok) \<Longrightarrow> triple P (attempted m) (\<lambda>b. b \<longrightarrow> ok)"
  unfolding attempted_def
  by (intro triple_catch triple_andthen [of P m "\<lambda>_. ok"] triple_ret) auto

lemma attempted_run: "m s = (Inr x, s') \<Longrightarrow> attempted m s = (Inr True, s')"
  by (simp add: attempted_def act_simps)

lemma keeps_write_step: "timeless P \<Longrightarrow> keeps P op \<Longrightarrow> keeps P (attempted (retried name op))"
  by (rule triple_keeps [OF triple_attempted [OF triple_retried [OF _ keeps_triple]]]) simp_all

text \<open>After a refused submission no process stores the record.\<close>

lemma rolled_back:
  fixes s :: "'z frontend_scheme"
  assumes t: "task_place A fuel me t r s" and fr: "frame s s1"
    and cs: "hd cs = r" "cs \<noteq> []" "\<forall>x \<in> set cs. refers A s x"
      "\<And>s'. frame s s' \<Longrightarrow> \<exists>m c. get_successor_chain k r s' = (Inr cs, later m c s')"
    and held: "confined (''result:'' @ t) (ref_addr ` set cs) s1"
  shows "\<exists>s'. ignoring (andthen (result_delete fuel me k t) (\<lambda>_. ret ())) s1 = (Inr (), s') \<and>
    absent (''result:'' @ t) s'"
proof -
  have "\<forall>x \<in> set cs. refers A s1 x" using cs(3) unfolding frame_refers [OF fr] .
  moreover have "\<exists>m c. get_successor_chain k r s' = (Inr cs, later m c s')" if "frame s1 s'" for s'
    using cs(4) frame_trans [OF fr that] .
  ultimately obtain b s' where "result_delete fuel me k t s1 = (Inr b, s')" "absent (''result:'' @ t) s'"
    using result_delete_ok [OF task_place_frame [OF t fr] held cs(1,2)] by blast
  then show ?thesis by (simp add: ignoring_def act_simps)
qed

lemma write_task_rejected:
  fixes s :: "'z frontend_scheme"
  assumes t: "task_place A fuel me t r s" and none: "absent (''result:'' @ t) s" and rec: "valid_result rec"
    and run: "write_task fuel me k inject t w assigned_by rec s = (Inr answer, s')" "fst answer \<noteq> 201"
  shows "absent (''result:'' @ t) s'"
proof -
  let ?key = "''result:'' @ t"
  let ?put = "attempted (retried ''HT1.put'' (ht1_op fuel me k inject t rec))"
  let ?app = "attempted (retried ''HT2.append'' (ht2_op fuel me k inject w t))"
  have place: "stable A s" "lossy s" "refers A s r"
    using t by (simp_all add: task_place_def responsible_def)
  obtain cs where cs: "hd cs = r" "cs \<noteq> []" "\<forall>x \<in> set cs. refers A s x"
    "\<And>s'. frame s s' \<Longrightarrow> \<exists>m c. get_successor_chain k r s' = (Inr cs, later m c s')"
    using chain_fixed [OF place, of k] by metis
  obtain ok1 s1 where one: "?put s = (Inr ok1, s1)"
    using run(1) unfolding write_task_def run_andthen by (auto split: prod.splits sum.splits)
  show ?thesis
  proof (cases "inject = ''ht1''")
    case True
    have "triple (absent ?key) ?put (\<lambda>b. b \<longrightarrow> False)"
      using True by (intro triple_attempted triple_retried absent.time) (simp add: ht1_op_def triple_throw)
    then have "absent ?key s1" "\<not> ok1" using none one by (auto dest: tripleD)
    then show ?thesis using run(1) one by (simp add: write_task_def run_andthen run_ret)
  next
    case False
    obtain res s2 where put: "result_put fuel me k t rec s = (Inr res, s2)" "frame s s2"
      "holds (ref_addr r) ?key rec s2" "confined ?key (ref_addr ` set cs) s2"
      by (rule result_put_confined [OF t none rec cs(1,2,4)])
    have "?put s = (Inr True, s2)"
      using False put(1) by (intro attempted_run retried_first) (simp add: ht1_op_def act_simps)
    then have s1: "s1 = s2" "ok1" using one by auto
    then obtain ok2 s3 where two: "?app s2 = (Inr ok2, s3)"
      using run(1) one unfolding write_task_def run_andthen by (auto split: prod.splits sum.splits)
    have keep: "keeps P ?app" if "timeless P" "keeps P (append fuel me k w t)" for P :: "'z frontend_scheme \<Rightarrow> bool"
      unfolding ht2_op_def using that by (intro keeps_write_step keeps_intro)
    have "frame s s3"
      by (rule keeps_run [OF keep [OF timeless_frame ring_frame.keeps_append] put(2) two]) simp_all
    moreover have "confined ?key (ref_addr ` set cs) s3"
      by (rule keeps_run [OF keep [OF confined.time confined.keeps_append] put(4) two]) simp_all
    ultimately obtain s4 where "ignoring (andthen (result_delete fuel me k t) (\<lambda>_. ret ())) s3 = (Inr (), s4)"
      "absent ?key s4"
      using rolled_back [OF t _ cs] by blast
    moreover have "\<not> ok2" using run one two s1 by (auto simp: write_task_def run_andthen run_ret)
    ultimately show ?thesis using run(1) one two s1 by (simp add: write_task_def run_andthen run_ret)
  qed
qed

section \<open>The whole submission\<close>

lemma triple_conj: "keeps P m \<Longrightarrow> triple Q m R \<Longrightarrow> triple (\<lambda>s. P s \<and> Q s) m R"
  unfolding triple_def by (blast intro: keeps_run)

lemma keeps_conj: "keeps P m \<Longrightarrow> keeps Q m \<Longrightarrow> keeps (\<lambda>s. P s \<and> Q s) m"
  by (simp add: keeps_def)

text \<open>The registry is not part of the ring.\<close>

lemma frame_reg [simp]: "frame s0 (s\<lparr>reg := g\<rparr>) = frame s0 s" "absent key (s\<lparr>reg := g\<rparr>) = absent key s"
  by (simp_all add: frame_def absent_def)

lemma keeps_choose_worker:
  assumes "\<And>s g. P s \<Longrightarrow> P (s\<lparr>reg := g\<rparr>)"
  shows "keeps P (choose_worker popen meanwhile False)"
  unfolding choose_worker_def Let_def using assms by (auto intro!: keeps_intro keeps_modify)

text \<open>A task without a record: nothing is read, and no process stores it while it is looked up.\<close>

definition fresh_task :: "string set \<Rightarrow> nat \<Rightarrow> string \<Rightarrow> string \<Rightarrow> nref \<Rightarrow> 'z net_scheme \<Rightarrow> 'z net_scheme \<Rightarrow> bool" where
  "fresh_task A fuel me t r s0 s \<longleftrightarrow> task_place A fuel me t r s0 \<and> frame s0 s \<and> absent (''result:'' @ t) s"

lemma fresh_get:
  assumes "strip t = t"
  shows "triple (fresh_task A fuel me t r s0) (safe_get fuel me k (JStr t)) (\<lambda>v. v = None)"
proof -
  have "triple (absent (''result:'' @ t)) (result_get fuel me k t) (\<lambda>v. \<forall>x. v = Some x \<longrightarrow> (\<exists>d. x = JObj d \<and> False))"
    using assms by (intro absent.triple_key_get) simp_all
  then have "triple (absent (''result:'' @ t)) (result_get fuel me k t) (\<lambda>v. v = None)"
    by (rule triple_conseq) auto
  then have "triple (absent (''result:'' @ t)) (safe_get fuel me k (JStr t)) (\<lambda>v. v = None)"
    unfolding safe_get_def by (simp, intro triple_catch triple_ret) simp_all
  moreover have "keeps (frame s0) (safe_get fuel me k (JStr t))"
    unfolding safe_get_def by (simp, intro keeps_intro ring_frame.keeps_result_get)
  ultimately have "triple (\<lambda>s. frame s0 s \<and> absent (''result:'' @ t) s) (safe_get fuel me k (JStr t)) (\<lambda>v. v = None)"
    by (rule triple_conj [rotated])
  then show ?thesis unfolding triple_def fresh_task_def by blast
qed

lemma built_valid: "build_result_record now tid ty path script w by opts = Inr r \<Longrightarrow> valid_result r"
  by (auto simp: build_result_record_def chain_eq_Inr require_in_Inr require_Inr valid_result_iff
      dget_or_Cons RESULT_SCHEMA_VERSION_def eq_int_def)

definition refused :: "string \<Rightarrow> response \<Rightarrow> 'z frontend_scheme \<Rightarrow> bool" where
  "refused t answer s \<longleftrightarrow> (fst answer \<in> {422, 503} \<longrightarrow> absent (''result:'' @ t) s)"

lemma post_accept_task:
  "post (fresh_task A fuel me t r s0) (accept_task fuel me k inject (JStr t) details w by) (refused t)"
proof -
  have "post (fresh_task A fuel me t r s0) (write_task fuel me k inject t w' by rec) (refused t)"
    if rec: "valid_result rec" for w' rec
  proof (rule postI)
    fix s answer s'
    assume s: "fresh_task A fuel me t r s0 s" and run: "write_task fuel me k inject t w' by rec s = (Inr answer, s')"
    then have "task_place A fuel me t r s" "absent (''result:'' @ t) s"
      using task_place_frame by (auto simp: fresh_task_def)
    then show "refused t answer s'" using write_task_rejected [OF _ _ rec run] by (auto simp: refused_def)
  qed
  then show ?thesis
    unfolding accept_task_def
    by (intro post_after [OF keeps_gets])
      (auto split: sum.split exn.split intro!: post_ret post_throw dest: built_valid
        simp: refused_def rejected_def fresh_task_def)
qed

lemma keeps_fresh_reg: "fresh_task A fuel me t r s0 s \<Longrightarrow> fresh_task A fuel me t r s0 (s\<lparr>reg := g\<rparr>)"
  by (simp add: fresh_task_def)

lemma post_endpoint: "post P m (refused t) \<Longrightarrow> post P (endpoint m) (refused t)"
  unfolding endpoint_def by (intro post_catch post_ret) (simp_all add: refused_def)

lemma post_create_task:
  assumes "json_body payload = Inr b" and "dget b ''task_id'' = JStr t" and "strip t = t" and "t \<noteq> []"
  shows "post (fresh_task A fuel me t r s0) (create_task fuel me k popen meanwhile False inject payload) (refused t)"
proof -
  let ?P = "fresh_task A fuel me t r s0"
  have here: "?P s \<Longrightarrow> refused t a s" for a s
    by (simp add: fresh_task_def refused_def)
  have accept: "post ?P (accept_task fuel me k inject (JStr t) details w who) (refused t)" for details w who
    by (rule post_accept_task)
  have choose: "keeps ?P (choose_worker popen meanwhile False)"
    by (rule keeps_choose_worker keeps_fresh_reg)+
  have placed: "post ?P (andthen (case x of None \<Rightarrow> ret () | Some w \<Rightarrow> modify (\<lambda>s. s\<lparr>reg := note_assignment w (reg s)\<rparr>))
      (\<lambda>_. accept_task fuel me k inject (JStr t) details w who)) (refused t)" for x details w who
    by (rule post_after [OF _ accept]) (auto intro!: keeps_option keeps_ret keeps_modify keeps_fresh_reg)
  have "post ?P (andthen (lift (Inr b)) f) R" if "post ?P (f b) R" for f R
    using that by (simp add: post_def act_simps)
  then show ?thesis
    unfolding create_task_def assms(1)
    by (rule post_endpoint)
      (auto simp: Let_def assms(2,4)
        intro!: here placed post_lift post_if post_ret post_after [OF keeps_lift] post_andthen [OF fresh_get [OF assms(3)]] accept
          post_after [OF choose] split: option.split)
qed

section \<open>An accepted task\<close>

text \<open>Every member can look up the key of worker \<open>w\<close>; \<open>r\<close> is responsible for it and stores its tasks.\<close>

definition worker_place :: "string set \<Rightarrow> string \<Rightarrow> nref \<Rightarrow> json list \<Rightarrow> 'z net_scheme \<Rightarrow> bool" where
  "worker_place A w r ts s \<longleftrightarrow> w \<noteq> [] \<and>
     (\<forall>a nd. member A s a nd \<longrightarrow> routes nd (sha1_id (''worker:'' @ strip w))) \<and>
     responsible A s (sha1_id (''worker:'' @ strip w)) r \<and> stores_tasks (ref_addr r) w ts s"

lemma routes_frame:
  assumes "frame s s'" and "\<forall>a nd. member A s a nd \<longrightarrow> routes nd key" and "member A s' a y"
  shows "routes y key"
proof -
  obtain x where "member A s a x" "same_place y x" using frame_member [OF frame_sym [OF assms(1)] assms(3)] by blast
  then show ?thesis using assms(2) same_place_routes by blast
qed

lemma stores_tasks_kept:
  fixes s :: "'z net_scheme"
  assumes "stores_tasks a w ts s" and m: "\<And>v. keeps (stored a (''worker:'' @ strip w) v) m" "m s = (x, s')"
  shows "stores_tasks a w ts s'"
proof -
  let ?key = "''worker:'' @ strip w"
  obtain nd where nd: "nodes s a = Some nd" using assms(1) by (auto simp: stores_tasks_def)
  then have "stored a ?key (map_of (data_store nd) ?key) s" by (auto simp: stored_def)
  then have "stored a ?key (map_of (data_store nd) ?key) s'" by (rule keeps_run [OF m(1) _ m(2)])
  then obtain nd' where nd': "nodes s' a = Some nd'" "get ?key nd' = get ?key nd"
    by (auto simp: stored_def get_def)
  with assms(1) nd show ?thesis by (simp add: stores_tasks_def)
qed

lemma worker_place_put:
  fixes s :: "'z net_scheme"
  assumes w: "worker_place A w r ts s" and put: "result_put fuel me k t rec s = (x, s')" and fr: "frame s s'"
  shows "worker_place A w r ts s'"
proof -
  have keep: "keeps (stored (ref_addr r) (''worker:'' @ strip w) v) (result_put fuel me k t rec)" for v
    by (rule other_key.keeps_result_put) simp_all
  then have "stores_tasks (ref_addr r) w ts s'"
    using w stores_tasks_kept [OF _ keep put] unfolding worker_place_def by blast
  then show ?thesis
    using w routes_frame [OF fr] by (auto simp: worker_place_def frame_responsible [OF fr])
qed

lemma fresh_get_run:
  fixes s :: "'z net_scheme"
  assumes t: "task_place A fuel me t r s" and none: "absent (''result:'' @ t) s"
  obtains m c where "safe_get fuel me k (JStr t) s = (Inr None, later m c s)"
proof -
  have "strip t = t" using t by (simp add: task_place_def)
  obtain x s' where run: "safe_get fuel me k (JStr t) s = (x, s')" by fastforce
  have "x \<noteq> Inl OutOfFuel"
    using totalD [OF ends_safe_get [OF task_place_serves [OF t]] frame_refl run] by simp
  moreover have "keeps (\<lambda>s'. \<exists>m c. s' = later m c s) (safe_get fuel me k (JStr t))"
    unfolding safe_get_def by (simp, intro keeps_intro read_only.keeps_result_get)
  from keeps_run [OF this _ run] have "\<exists>m c. s' = later m c s" by (metis later_0)
  moreover have "\<forall>v. x = Inr v \<longrightarrow> v = None"
    using tripleD [OF fresh_get [OF \<open>strip t = t\<close>] _ run, of A r s] t none by (auto simp: fresh_task_def)
  moreover have "\<exists>v. x = Inr v \<or> x = Inl OutOfFuel"
    using run by (auto simp: safe_get_def act_simps split: prod.splits sum.splits if_splits)
  ultimately show thesis using run by (metis that)
qed

definition task_fields :: "string \<Rightarrow> string \<Rightarrow> json \<Rightarrow> json \<Rightarrow> jdict \<Rightarrow> bool" where
  "task_fields w who status result d \<longleftrightarrow> dindex d ''status'' = Inr status \<and> dindex d ''result'' = Inr result \<and>
     dindex d ''worker_id'' = Inr (JStr w) \<and> dindex d ''assigned_by'' = Inr (JStr who)"

lemma task_fields_result: "task_fields w who status result d \<Longrightarrow> status_answer t d = Inr (200,
    JObj [(''task_id'', JStr t), (''status'', status), (''result'', result), (''worker_id'', JStr w),
          (''assigned_by'', JStr who)])"
  by (simp add: task_fields_def status_answer_def)

lemma get_status_ok:
  fixes s :: "'z frontend_scheme"
  assumes t: "task_at A fuel me t r d s" and rd: "member A s reader rd" and rec: "is_result_record (JObj d)"
    and d: "task_fields w who status result d"
  shows "\<exists>m c. get_status fuel reader k t s = (Inr (200,
    JObj [(''task_id'', JStr t), (''status'', status), (''result'', result), (''worker_id'', JStr w),
          (''assigned_by'', JStr who)]), later m c s)"
proof -
  obtain m c where "result_get fuel reader k t s = (Inr (Some (JObj d)), later m c s)"
    using task_at_get [OF t rd rec] by blast
  then show ?thesis
    using task_fields_result [OF d] by (auto simp: get_status_def endpoint_def act_simps)
qed

lemma built_fields:
  assumes "ty \<in> JStr ` set VALID_TASK_TYPES" and "t \<noteq> []" and "w \<noteq> []" and "who \<in> set VALID_ASSIGNED_BY"
  obtains d where "build_result_record now (JStr t) ty path script (JStr w) (JStr who)
      (default_options\<lparr>ro_status := JStr ''PENDING'', ro_result := JNull\<rparr>) = Inr (JObj d)"
    "valid_result (JObj d)" "task_fields w who (JStr ''PENDING'') JNull d"
proof -
  have req: "require_in ty VALID_TASK_TYPES m = Inr ()" "require_in (JStr ''PENDING'') VALID_STATUSES m = Inr ()"
    "require_in (JStr who) VALID_ASSIGNED_BY m = Inr ()" for m
    using assms(1,4) by (auto simp: require_in_Inr VALID_STATUSES_def)
  obtain d where d: "build_result_record now (JStr t) ty path script (JStr w) (JStr who)
      (default_options\<lparr>ro_status := JStr ''PENDING'', ro_result := JNull\<rparr>) = Inr (JObj d)"
    "task_fields w who (JStr ''PENDING'') JNull d"
    using assms(2,3) by (simp add: build_result_record_def req require_def task_fields_def dindex_def)
  with built_valid [OF d(1)] show thesis by (intro that)
qed

lemma append_ok_place:
  fixes s :: "'z net_scheme"
  assumes "stable A s" and "lossy s" and "member A s me nd" and "255 \<le> fuel" and w: "worker_place A w r ts s"
    and "t \<noteq> []" and "JStr t \<notin> set ts"
  obtains res s' where "append fuel me k w t s = (Inr res, s')" "frame s s'"
    "stores_tasks (ref_addr r) w (ts @ [JStr t]) s'"
  using append_ok [OF assms(1-4) _ assms(6,7), of w r k] w unfolding worker_place_def by metis

text \<open>The writes of a submission that is accepted.\<close>

lemma write_task_ok:
  fixes s :: "'z frontend_scheme"
  assumes t: "task_place A fuel me t r s" and w: "worker_place A w rw ts s" and new: "JStr t \<notin> set ts"
    and rec: "valid_result (JObj d)" and inject: "inject \<noteq> ''ht1''" "inject \<noteq> ''ht2''"
  obtains s' where "write_task fuel me k inject t w who (JObj d) s = (Inr (201,
      JObj [(''message'', JStr ''Task accepted''), (''task_id'', JStr t), (''worker_id'', JStr w),
            (''assigned_by'', JStr who)]), s')"
    "frame s s'" "task_at A fuel me t r d s'" "stores_tasks (ref_addr rw) w (ts @ [JStr t]) s'" "net.more s' = net.more s"
proof -
  let ?key = "''result:'' @ t"
  have place: "stable A s" "lossy s" "strip t = t" "is_nonblank (JStr t)" "255 \<le> fuel" "t \<noteq> []"
    using t by (auto simp: task_place_def)
  obtain nd where nd: "member A s me nd" "routes nd (sha1_id ?key)" by (rule task_place_member [OF t])
  obtain r' res s1 where put: "responsible A s (sha1_id ?key) r'" "result_put fuel me k t (JObj d) s = (Inr res, s1)"
    "frame s s1" "holds (ref_addr r') ?key (JObj d) s1"
    using result_put_ok [OF place(1,2) nd(1) place(5) rec place(4), of k] nd(2) place(3) by metis
  have r': "r' = r" using responsible_unique [OF place(1) _ put(1)] t by (simp add: task_place_def)
  note fr1 = put(3)
  obtain nd1 where nd1: "member A s1 me nd1" using frame_member [OF fr1 nd(1)] by blast
  obtain ares s2 where app: "append fuel me k w t s1 = (Inr ares, s2)" "frame s1 s2"
    "stores_tasks (ref_addr rw) w (ts @ [JStr t]) s2"
    by (rule append_ok_place [OF _ _ nd1 place(5) worker_place_put [OF w put(2) fr1] place(6) new])
      (use place(1,2) frame_stable_imp [OF fr1] frame_lossy [OF fr1] in auto)
  have "keeps (stored (ref_addr r) ?key (Some (JObj d))) (append fuel me k w t)"
    by (rule other_key.keeps_append) simp_all
  from keeps_run [OF this _ app(1)] have held: "holds (ref_addr r) ?key (JObj d) s2"
    using put(4) unfolding r' holds_stored by simp
  have fr: "frame s s2" by (rule frame_trans [OF fr1 app(2)])
  have one: "attempted (retried ''HT1.put'' (ht1_op fuel me k inject t (JObj d))) s = (Inr True, s1)"
    using inject(1) put(2) by (intro attempted_run retried_first) (simp add: ht1_op_def act_simps)
  have two: "attempted (retried ''HT2.append'' (ht2_op fuel me k inject w t)) s1 = (Inr True, s2)"
    using inject(2) app(1) by (intro attempted_run retried_first) (simp add: ht2_op_def act_simps)
  have "keeps (\<lambda>s'. net.more s' = net.more s) (result_put fuel me k t (JObj d))"
    "keeps (\<lambda>s'. net.more s' = net.more s) (append fuel me k w t)"
    by (rule beside.keeps_result_put beside.keeps_append; simp)+
  from keeps_run [OF this(2) keeps_run [OF this(1) refl put(2)] app(1)] have more: "net.more s2 = net.more s" .
  show thesis
    by (rule that [OF _ fr task_place_task_at [OF task_place_frame [OF t fr] held] app(3) more])
      (simp add: write_task_def one two act_simps)
qed

text \<open>The worker of a submission: the one it names, or the best live one, at whatever time.\<close>

definition chosen :: "jdict \<Rightarrow> registry \<Rightarrow> string \<Rightarrow> string \<Rightarrow> bool" where
  "chosen b g w who \<longleftrightarrow>
     dget b ''worker_id'' = JStr w \<and> w \<noteq> [] \<and> who = ''user'' \<or>
     \<not> truthy (dget b ''worker_id'') \<and> who = ''frontend'' \<and> (\<forall>now. \<exists>x rest. score_all_workers now g = (w, x) # rest)"

lemma andthen_lift_Inr: "andthen (lift (Inr x)) f = f x"
  by (rule ext) (simp add: act_simps)

text \<open>A submission of task \<open>t\<close> with the details \<open>d\<close>.\<close>

definition submits :: "json \<Rightarrow> string \<Rightarrow> jdict \<Rightarrow> jdict \<Rightarrow> bool" where
  "submits payload t b d \<longleftrightarrow> json_body payload = Inr b \<and> dget b ''task_id'' = JStr t \<and>
     dget b ''task_details'' = JObj d \<and> (\<exists>ty \<in> set VALID_TASK_TYPES. dget d ''task_type'' = JStr ty)"

lemma submits_body:
  assumes "submits payload t b d" and "t \<noteq> []"
  shows "create_task fuel me k popen meanwhile autospawn inject payload = endpoint
     (andthen (safe_get fuel me k (JStr t)) (\<lambda>existing.
        case existing of
          Some r \<Rightarrow> lift (existing_answer (JStr t) (dict_of r))
        | None \<Rightarrow>
            if truthy (dget b ''worker_id'') then accept_task fuel me k inject (JStr t) d (dget b ''worker_id'') ''user''
            else
              andthen (choose_worker popen meanwhile autospawn) (\<lambda>worker.
              if worker = None \<and> autospawn then
                ret (rejected 503 ''no live workers available; auto-spawn failed'')
              else
                andthen (case worker of None \<Rightarrow> ret () | Some w \<Rightarrow> modify (\<lambda>s. s\<lparr>reg := note_assignment w (reg s)\<rparr>)) (\<lambda>_.
                accept_task fuel me k inject (JStr t) d (case worker of None \<Rightarrow> JNull | Some w \<Rightarrow> JStr w) ''frontend''))))"
proof -
  have "d \<noteq> []" using assms(1) by (auto simp: submits_def)
  then have det: "py_or (dget b ''task_details'') (JObj []) = JObj d" and b: "json_body payload = Inr b"
    and tid: "dget b ''task_id'' = JStr t"
    using assms(1) by (simp_all add: submits_def py_or_def)
  obtain ty where ty: "ty \<in> set VALID_TASK_TYPES" "dget d ''task_type'' = JStr ty"
    using assms(1) by (auto simp: submits_def)
  then have known: "in_str_set (JStr ty) VALID_TASK_TYPES = Inr True" by (simp add: in_str_set_True)
  show ?thesis
    unfolding create_task_def b andthen_lift_Inr Let_def tid det dict_of.simps ty(2) known
    using assms(2) by simp
qed

lemma worker_place_later [simp]: "worker_place A w r ts (later m c s) = worker_place A w r ts s"
  by (simp add: worker_place_def stores_tasks_def)

lemma task_place_later [simp]: "task_place A fuel me t r (later m c s) = task_place A fuel me t r s"
  by (simp add: task_place_def)

text \<open>The record of a submission with the details \<open>d\<close>.\<close>

definition built_from :: "jdict \<Rightarrow> string \<Rightarrow> string \<Rightarrow> string \<Rightarrow> jdict \<Rightarrow> bool" where
  "built_from d t w who rec \<longleftrightarrow> (\<exists>now. build_result_record now (JStr t) (dget d ''task_type'')
     (dget_or (JStr []) d ''path'') (dget_or (JStr []) d ''script'') (JStr w) (JStr who)
     (default_options\<lparr>ro_status := JStr ''PENDING'', ro_result := JNull\<rparr>) = Inr (JObj rec))"

lemma accept_task_ok:
  fixes s :: "'z frontend_scheme"
  assumes t: "task_place A fuel me t r s" and w: "worker_place A w rw ts s" and new: "JStr t \<notin> set ts"
    and inject: "inject \<noteq> ''ht1''" "inject \<noteq> ''ht2''" and sub: "submits payload t b d"
    and who: "who \<in> set VALID_ASSIGNED_BY"
  obtains rec s' where "accept_task fuel me k inject (JStr t) d (JStr w) who s = (Inr (201,
      JObj [(''message'', JStr ''Task accepted''), (''task_id'', JStr t), (''worker_id'', JStr w),
            (''assigned_by'', JStr who)]), s')"
    "frame s s'" "task_at A fuel me t r rec s'" "stores_tasks (ref_addr rw) w (ts @ [JStr t]) s'"
    "valid_result (JObj rec)" "task_fields w who (JStr ''PENDING'') JNull rec" "built_from d t w who rec" "net.more s' = net.more s"
proof -
  have ty: "dget d ''task_type'' \<in> JStr ` set VALID_TASK_TYPES" using sub by (auto simp: submits_def)
  have names: "t \<noteq> []" "w \<noteq> []" using t w by (simp_all add: task_place_def worker_place_def)
  obtain rec where rec: "build_result_record (clock s) (JStr t) (dget d ''task_type'') (dget_or (JStr []) d ''path'')
      (dget_or (JStr []) d ''script'') (JStr w) (JStr who)
      (default_options\<lparr>ro_status := JStr ''PENDING'', ro_result := JNull\<rparr>) = Inr (JObj rec)"
    "valid_result (JObj rec)" "task_fields w who (JStr ''PENDING'') JNull rec"
    by (rule built_fields [OF ty names who])
  obtain s' where s': "write_task fuel me k inject t w who (JObj rec) s = (Inr (201,
      JObj [(''message'', JStr ''Task accepted''), (''task_id'', JStr t), (''worker_id'', JStr w),
            (''assigned_by'', JStr who)]), s')"
    "frame s s'" "task_at A fuel me t r rec s'" "stores_tasks (ref_addr rw) w (ts @ [JStr t]) s'" "net.more s' = net.more s"
    by (rule write_task_ok [OF t w new rec(2) inject])
  have "accept_task fuel me k inject (JStr t) d (JStr w) who s = write_task fuel me k inject t w who (JObj rec) s"
    using rec(1) by (simp add: accept_task_def act_simps)
  moreover have "built_from d t w who rec" using rec(1) by (auto simp: built_from_def)
  ultimately show thesis using s'(1) by (intro that [OF _ s'(2-4) rec(2,3) _ s'(5)]) simp_all
qed

lemma reg_place:
  fixes s :: "'z frontend_scheme"
  assumes "task_place A fuel me t r s" and "worker_place A w rw ts s"
  shows "task_place A fuel me t r (s\<lparr>reg := g\<rparr>)" "worker_place A w rw ts (s\<lparr>reg := g\<rparr>)"
proof -
  have fr: "frame s (s\<lparr>reg := g\<rparr>)" by simp
  show "task_place A fuel me t r (s\<lparr>reg := g\<rparr>)" by (rule task_place_frame [OF assms(1) fr])
  show "worker_place A w rw ts (s\<lparr>reg := g\<rparr>)"
    using assms(2) routes_frame [OF fr] by (auto simp: worker_place_def frame_responsible [OF fr] stores_tasks_def)
qed

text \<open>The whole handler.\<close>

lemma create_task_ok:
  fixes s :: "'z frontend_scheme"
  assumes t: "task_place A fuel me t r s" and none: "absent (''result:'' @ t) s"
    and w: "worker_place A w rw ts s" and new: "JStr t \<notin> set ts"
    and inject: "inject \<noteq> ''ht1''" "inject \<noteq> ''ht2''" and sub: "submits payload t b d"
    and chosen: "chosen b (reg s) w who"
  obtains rec s' where "create_task fuel me k popen meanwhile autospawn inject payload s = (Inr (201,
      JObj [(''message'', JStr ''Task accepted''), (''task_id'', JStr t), (''worker_id'', JStr w),
            (''assigned_by'', JStr who)]), s')"
    "frame s s'" "task_at A fuel me t r rec s'" "stores_tasks (ref_addr rw) w (ts @ [JStr t]) s'"
    "valid_result (JObj rec)" "task_fields w who (JStr ''PENDING'') JNull rec" "built_from d t w who rec"
    "frontend.more s' = frontend.more s"
proof -
  have names: "t \<noteq> []" using t by (simp add: task_place_def)
  have valid: "who \<in> set VALID_ASSIGNED_BY" using chosen by (auto simp: chosen_def VALID_ASSIGNED_BY_def)
  obtain m c where look: "safe_get fuel me k (JStr t) s = (Inr None, later m c s)" by (rule fresh_get_run [OF t none])
  note run = submits_body [OF sub names, of fuel me k popen meanwhile autospawn inject]
  consider "dget b ''worker_id'' = JStr w" "w \<noteq> []" "who = ''user''"
    | "\<not> truthy (dget b ''worker_id'')" "who = ''frontend''" "\<forall>now. \<exists>x rest. score_all_workers now (reg s) = (w, x) # rest"
    using chosen by (auto simp: chosen_def)
  then show thesis
  proof cases
    case 1
    have places: "task_place A fuel me t r (later m c s)" "worker_place A w rw ts (later m c s)" using t w by simp_all
    obtain rec s' where *: "accept_task fuel me k inject (JStr t) d (JStr w) who (later m c s) = (Inr (201,
      JObj [(''message'', JStr ''Task accepted''), (''task_id'', JStr t), (''worker_id'', JStr w),
            (''assigned_by'', JStr who)]), s')"
      "frame (later m c s) s'" "task_at A fuel me t r rec s'" "stores_tasks (ref_addr rw) w (ts @ [JStr t]) s'"
      "valid_result (JObj rec)" "task_fields w who (JStr ''PENDING'') JNull rec" "built_from d t w who rec"
      "net.more s' = net.more (later m c s)"
      by (rule accept_task_ok [OF places new inject sub valid])
    have more: "frontend.more s' = frontend.more s" using *(8) by (cases s; cases s') (simp add: later_def)
    show thesis
      by (rule that [OF _ frame_trans [OF frame_later *(2)] *(3-7) more])
        (use look *(1) 1 in \<open>simp add: run endpoint_def run_catch run_andthen\<close>)
  next
    case 2
    obtain x rest where sc: "score_all_workers (now_s (later m c s)) (reg s) = (w, x) # rest" using 2(3) by blast
    have choose: "choose_worker popen meanwhile autospawn (later m c s) = (Inr (Some w), later m c s)"
      using sc by (simp add: choose_worker_def act_simps now_s_def later_def Let_def)
    let ?s1 = "(later m c s)\<lparr>reg := note_assignment w (reg s)\<rparr>"
    have places: "task_place A fuel me t r ?s1" "worker_place A w rw ts ?s1"
      using reg_place [of A fuel me t r "later m c s" w rw ts] t w by auto
    obtain rec s' where *: "accept_task fuel me k inject (JStr t) d (JStr w) who ?s1 = (Inr (201,
      JObj [(''message'', JStr ''Task accepted''), (''task_id'', JStr t), (''worker_id'', JStr w),
            (''assigned_by'', JStr who)]), s')"
      "frame ?s1 s'" "task_at A fuel me t r rec s'" "stores_tasks (ref_addr rw) w (ts @ [JStr t]) s'"
      "valid_result (JObj rec)" "task_fields w who (JStr ''PENDING'') JNull rec" "built_from d t w who rec"
      "net.more s' = net.more ?s1"
      by (rule accept_task_ok [OF places new inject sub valid])
    have more: "frontend.more s' = frontend.more s" using *(8) by (cases s; cases s') (simp add: later_def)
    have fr: "frame s ?s1" by simp
    have reg: "reg (later m c s) = reg s" by (simp add: later_def)
    show thesis
      by (rule that [OF _ frame_trans [OF fr *(2)] *(3-7) more])
        (use look choose *(1) 2(1,2) reg in \<open>simp add: run endpoint_def run_catch run_andthen run_modify\<close>)
  qed
qed

text \<open>A submission whose second write fails.\<close>

lemma retried_throw: "\<exists>c. retried name (throw (RuntimeError e)) s = (Inl (RuntimeError (name @ '' failed'')), later 0 c s)"
  by (intro exI [of _ 700000])
    (simp add: retried_def with_timeout_and_retry_def MAX_RETRIES_def numeral_3_eq_3 act_simps transient_def
      back_off_def sleep_def later_def INITIAL_BACKOFF_MS_def BACKOFF_MULTIPLIER_def)

lemma create_task_ht2:
  fixes s :: "'z frontend_scheme"
  assumes t: "task_place A fuel me t r s" and none: "absent (''result:'' @ t) s"
    and sub: "submits payload t b d" and w: "dget b ''worker_id'' = JStr w" "w \<noteq> []"
  shows "\<exists>s'. create_task fuel me k popen meanwhile autospawn ''ht2'' payload s =
    (Inr (rejected 503 ''Failed to persist worker assignment''), s')"
proof -
  have names: "t \<noteq> []" using t by (simp add: task_place_def)
  obtain m c where look: "safe_get fuel me k (JStr t) s = (Inr None, later m c s)" by (rule fresh_get_run [OF t none])
  let ?s1 = "later m c s"
  have t1: "task_place A fuel me t r ?s1" "absent (''result:'' @ t) ?s1" using t none by (simp_all add: absent_def)
  have ty: "dget d ''task_type'' \<in> JStr ` set VALID_TASK_TYPES" using sub by (auto simp: submits_def)
  have user: "''user'' \<in> set VALID_ASSIGNED_BY" by (simp add: VALID_ASSIGNED_BY_def)
  obtain rec where rec: "build_result_record (clock ?s1) (JStr t) (dget d ''task_type'') (dget_or (JStr []) d ''path'')
      (dget_or (JStr []) d ''script'') (JStr w) (JStr ''user'')
      (default_options\<lparr>ro_status := JStr ''PENDING'', ro_result := JNull\<rparr>) = Inr (JObj rec)"
    "valid_result (JObj rec)" "task_fields w ''user'' (JStr ''PENDING'') JNull rec"
    by (rule built_fields [OF ty names w(2) user])
  have place: "stable A ?s1" "lossy ?s1" "refers A ?s1 r"
    using t1(1) by (simp_all add: task_place_def responsible_def del: stable_later lossy_later refers_later)
  obtain cs where cs: "hd cs = r" "cs \<noteq> []" "\<forall>x \<in> set cs. refers A ?s1 x"
    "\<And>s'. frame ?s1 s' \<Longrightarrow> \<exists>m c. get_successor_chain k r s' = (Inr cs, later m c s')"
    using chain_fixed [OF place, of k] by metis
  obtain res s2 where put: "result_put fuel me k t (JObj rec) ?s1 = (Inr res, s2)" "frame ?s1 s2"
    "confined (''result:'' @ t) (ref_addr ` set cs) s2"
    by (rule result_put_confined [OF t1 rec(2) cs(1,2,4)])
  have one: "attempted (retried ''HT1.put'' (ht1_op fuel me k ''ht2'' t (JObj rec))) ?s1 = (Inr True, s2)"
    using put(1) by (intro attempted_run retried_first) (simp add: ht1_op_def act_simps)
  obtain c3 where "retried ''HT2.append'' (ht2_op fuel me k ''ht2'' w t) s2 =
      (Inl (RuntimeError ''HT2.append failed''), later 0 c3 s2)"
    using retried_throw [of "''HT2.append''" "''injected HT2 failure''" s2] by (auto simp: ht2_op_def)
  then have two: "attempted (retried ''HT2.append'' (ht2_op fuel me k ''ht2'' w t)) s2 = (Inr False, later 0 c3 s2)"
    by (simp add: attempted_def act_simps)
  obtain s4 where three: "ignoring (andthen (result_delete fuel me k t) (\<lambda>_. ret ())) (later 0 c3 s2) = (Inr (), s4)"
    using rolled_back [OF t1(1) frame_trans [OF put(2) frame_later] cs, of 0 c3] put(3) by auto
  have "accept_task fuel me k ''ht2'' (JStr t) d (JStr w) ''user'' ?s1 =
      (Inr (rejected 503 ''Failed to persist worker assignment''), s4)"
    using rec(1) one two three by (simp add: accept_task_def write_task_def run_andthen run_gets run_ret)
  then show ?thesis
    using look w submits_body [OF sub names, of fuel me k popen meanwhile autospawn "''ht2''"]
    by (simp add: endpoint_def run_catch run_andthen)
qed

text \<open>One process; the worker \<open>x\<close> is live.\<close>

definition demo_frontend :: frontend where
  "demo_frontend = \<lparr>nodes = [''a'' \<mapsto> demo_one], fault = (\<lambda>n a. Delivered), sent = 0, clock = 0,
     reg = (init_registry 0)\<lparr>workers := [(''x'', 0)]\<rparr>, in_progress = [], events = [], last_spawn_trigger = 0,
     spawn_cooldown_s = 3, worker_pids = [], known_workers = []\<rparr>"

definition demo_submission :: json where
  "demo_submission = JObj [(''task_id'', JStr ''t''), (''worker_id'', JStr ''x''),
     (''task_details'', JObj [(''task_type'', JStr ''SCRIPT'')])]"

lemma demo_frontend_parts: "nodes demo_frontend = nodes demo_single" "fault demo_frontend = fault demo_single"
  by (simp_all add: demo_frontend_def demo_single_def)

lemma demo_frontend_routes: "member UNIV demo_frontend a nd \<Longrightarrow> routes nd k"
  using demo_one_routes by (simp add: stable_of_parts(1) [OF demo_frontend_parts(1)] demo_single_member)

lemma demo_frontend_place: "task_place UNIV 256 ''a'' ''t'' ref10 demo_frontend"
proof -
  have "lossy demo_frontend" using demo_single_lossy by (simp add: lossy_def demo_frontend_parts)
  moreover have "strip ''t'' = ''t''" by code_simp
  moreover have "member UNIV demo_frontend ''a'' demo_one"
    by (simp add: stable_of_parts(1) [OF demo_frontend_parts(1)] demo_single_member)
  ultimately show ?thesis
    using demo_single_stable demo_single_responsible demo_frontend_routes
    unfolding task_place_def stable_of_parts(2,3) [OF demo_frontend_parts(1)] by blast
qed

lemma demo_frontend_worker: "worker_place UNIV ''x'' ref10 [] demo_frontend"
  using demo_frontend_routes demo_single_responsible
  unfolding worker_place_def stable_of_parts(3) [OF demo_frontend_parts(1)]
  by (simp add: stores_tasks_def demo_frontend_def get_def demo_one_def demo_node_def demo_refs)

lemma demo_frontend_absent: "absent key demo_frontend"
  by (simp add: absent_def demo_frontend_def demo_one_def demo_node_def)

lemma demo_submits: "\<exists>b d. submits demo_submission ''t'' b d \<and> dget b ''worker_id'' = JStr ''x''"
  by (auto simp: submits_def demo_submission_def json_body_def py_or_def dget_or_Cons VALID_TASK_TYPES_def)

text \<open>Storing a record does not touch what the process keeps beside its node.\<close>

lemma put_keeps_beside:
  fixes s :: "'z frontend_scheme"
  assumes "result_put fuel me k t rec s = (x, s')"
  shows "reg s' = reg s" "frontend.more s' = frontend.more s"
proof -
  have "keeps (\<lambda>s'. net.more s' = net.more s) (result_put fuel me k t rec)"
    by (rule beside.keeps_result_put) simp_all
  from keeps_run [OF this refl assms] show "reg s' = reg s" "frontend.more s' = frontend.more s"
    by (cases s; cases s'; simp)+
qed

lemma task_place_parts:
  fixes s :: "'a net_scheme" and s' :: "'b net_scheme"
  assumes "nodes s = nodes s'" and "fault s = fault s'"
  shows "task_place A fuel me t r s = task_place A fuel me t r s'"
  using assms by (simp add: task_place_def lossy_def stable_of_parts [OF assms(1)])

lemma worker_place_parts:
  fixes s :: "'a net_scheme" and s' :: "'b net_scheme"
  assumes "nodes s = nodes s'" and "fault s = fault s'"
  shows "worker_place A w r ts s = worker_place A w r ts s'"
  using assms by (simp add: worker_place_def stores_tasks_def stable_of_parts [OF assms(1)])

lemma task_at_parts:
  fixes s :: "'a net_scheme" and s' :: "'b net_scheme"
  assumes "nodes s = nodes s'" and "fault s = fault s'"
  shows "task_at A fuel me t r d s = task_at A fuel me t r d s'"
  unfolding task_at_def stable_of_parts [OF assms(1)] by (simp add: lossy_def assms(2))

lemma task_at_reg [simp]: "task_at A fuel me t r d (s\<lparr>reg := g\<rparr>) = task_at A fuel me t r d s"
  by (rule task_at_parts) simp_all

lemma completed_valid:
  assumes "valid_result (JObj d)" and "st \<in> {''SUCCESS'', ''FAILURE''}"
  shows "valid_result (JObj (completed now (JStr st) v d))"
  using assms by (auto simp: valid_result_iff completed_def VALID_STATUSES_def)

lemma completed_fields:
  assumes "dindex d ''worker_id'' = Inr (JStr w)" and "dindex d ''assigned_by'' = Inr (JStr who)"
  shows "task_fields w who (JStr st) v (completed now (JStr st) v d)"
  using assms by (auto simp: task_fields_def completed_def dindex_def map_of_dset split: option.splits)

section \<open>Properties\<close>

text \<open>
  C23. A refused submission leaves no trace: in a stable ring, over a network that loses requests,
  when no process stores a record of the task and the answer is 422 or 503 (a rejected field, no
  live worker, a failed write of the record, or a failed write of the assignment after the record
  was written), no process stores one afterwards, primary or replica, whatever the stored
  assignments are and whichever failure is injected. (The identifier of the task is not empty and
  has no blanks around it, no member's identifier is the hash of the key of its record, unless the
  member is alone, and workers are not started automatically, which is the default.)
\<close>

theorem create_task_refused:
  fixes s :: "'z frontend_scheme"
  assumes "task_place A fuel me t r s" and "absent (''result:'' @ t) s"
    and "json_body payload = Inr b" and "dget b ''task_id'' = JStr t"
    and "create_task fuel me k popen meanwhile False inject payload s = (Inr (code, answer), s')"
    and "code = 422 \<or> code = 503"
  shows "absent (''result:'' @ t) s'"
proof -
  have "strip t = t" "t \<noteq> []" using assms(1) by (simp_all add: task_place_def)
  from postD [OF post_create_task [OF assms(3,4) this] _ assms(5), of A r s]
  show ?thesis using assms(1,2,6) by (auto simp: fresh_task_def refused_def)
qed

theorem create_task_refused_witness:
  "\<exists>answer s'. create_task 256 ''a'' 3 (\<lambda>_. ret 1) (ret ()) False ''ht2'' demo_submission demo_frontend =
     (Inr (503, answer), s') \<and> absent (''result:'' @ ''t'') s'"
proof -
  obtain b d where b: "submits demo_submission ''t'' b d" "dget b ''worker_id'' = JStr ''x''"
    using demo_submits by blast
  obtain s' where run: "create_task 256 ''a'' 3 (\<lambda>_. ret 1) (ret ()) False ''ht2'' demo_submission demo_frontend =
      (Inr (rejected 503 ''Failed to persist worker assignment''), s')"
    using create_task_ht2 [OF demo_frontend_place demo_frontend_absent b] by blast
  have "json_body demo_submission = Inr b" "dget b ''task_id'' = JStr ''t''" using b(1) by (simp_all add: submits_def)
  then show ?thesis
    using create_task_refused [OF demo_frontend_place demo_frontend_absent _ _ run [unfolded rejected_def]] run
    by (auto simp: rejected_def)
qed

text \<open>
  C22. An accepted submission is visible everywhere: in a stable ring, over a network that loses
  requests, a submission through any member of a task that no process knows is answered by 201,
  with the worker it names or else the best live one. Afterwards every member reports the task as
  pending on that worker, and lists it last among the tasks of the worker. Conditions: the
  identifier of the task is not empty and has no blanks around it; the body is a dictionary with
  details of one of the two kinds; the stored list of the worker's tasks is well formed and does not
  name the task; no failure is injected; and no member has an identifier that is the hash of the
  key of the result record or of the worker's record, unless it is alone (such a member looks up
  its successor).
\<close>

theorem create_task_accepted:
  fixes s :: "'z frontend_scheme"
  assumes t: "task_place A fuel me t r s" and none: "absent (''result:'' @ t) s"
    and w: "worker_place A w rw ts s" and new: "JStr t \<notin> set ts"
    and inject: "inject \<noteq> ''ht1''" "inject \<noteq> ''ht2''" and sub: "submits payload t b d"
    and chosen: "chosen b (reg s) w who"
  shows "\<exists>s'. create_task fuel me k popen meanwhile autospawn inject payload s = (Inr (201,
      JObj [(''message'', JStr ''Task accepted''), (''task_id'', JStr t), (''worker_id'', JStr w),
            (''assigned_by'', JStr who)]), s') \<and> frame s s' \<and>
    (\<forall>reader rd. member A s reader rd \<longrightarrow>
       (\<exists>m c. get_status fuel reader k t s' = (Inr (200,
          JObj [(''task_id'', JStr t), (''status'', JStr ''PENDING''), (''result'', JNull), (''worker_id'', JStr w),
                (''assigned_by'', JStr who)]), later m c s')) \<and>
       (\<exists>m c. assigned_tasks fuel reader k w s' = (Inr (ts @ [JStr t]), later m c s')))"
proof -
  obtain rec s' where run: "create_task fuel me k popen meanwhile autospawn inject payload s = (Inr (201,
      JObj [(''message'', JStr ''Task accepted''), (''task_id'', JStr t), (''worker_id'', JStr w),
            (''assigned_by'', JStr who)]), s')"
    and fr: "frame s s'" and task: "task_at A fuel me t r rec s'"
    and tasks: "stores_tasks (ref_addr rw) w (ts @ [JStr t]) s'"
    and rec: "valid_result (JObj rec)" "task_fields w who (JStr ''PENDING'') JNull rec"
    by (rule create_task_ok [OF assms])
  have "\<exists>m c. assigned_tasks fuel reader k w s' = (Inr (ts @ [JStr t]), later m c s')"
    if "member A s reader rd" for reader rd
    using assigned_ok [OF fr _ _ that, of fuel w rw "ts @ [JStr t]" k] t w tasks that
    by (auto simp: task_place_def worker_place_def)
  moreover have "is_result_record (JObj rec)" using rec(1) by (simp add: valid_result_iff)
  ultimately show ?thesis
    using run fr get_status_ok [OF task _ _ rec(2)] frame_member [OF fr] by metis
qed

theorem create_task_accepted_witness:
  "\<exists>s'. create_task 256 ''a'' 3 (\<lambda>_. ret 1) (ret ()) False [] demo_submission demo_frontend = (Inr (201,
      JObj [(''message'', JStr ''Task accepted''), (''task_id'', JStr ''t''), (''worker_id'', JStr ''x''),
            (''assigned_by'', JStr ''user'')]), s') \<and>
     (\<exists>m c. get_status 256 ''a'' 3 ''t'' s' = (Inr (200,
          JObj [(''task_id'', JStr ''t''), (''status'', JStr ''PENDING''), (''result'', JNull), (''worker_id'', JStr ''x''),
                (''assigned_by'', JStr ''user'')]), later m c s')) \<and>
     (\<exists>m c. assigned_tasks 256 ''a'' 3 ''x'' s' = (Inr [JStr ''t''], later m c s'))"
proof -
  obtain b d where b: "submits demo_submission ''t'' b d" "dget b ''worker_id'' = JStr ''x''"
    using demo_submits by blast
  have chosen: "chosen b (reg demo_frontend) ''x'' ''user''" using b(2) by (simp add: chosen_def)
  have side: "JStr ''t'' \<notin> set []" "[] \<noteq> ''ht1''" "[] \<noteq> ''ht2''" by simp_all
  have mem: "member UNIV demo_frontend ''a'' demo_one"
    by (simp add: stable_of_parts(1) [OF demo_frontend_parts(1)] demo_single_member)
  obtain s' where run: "create_task 256 ''a'' 3 (\<lambda>_. ret 1) (ret ()) False [] demo_submission demo_frontend = (Inr (201,
      JObj [(''message'', JStr ''Task accepted''), (''task_id'', JStr ''t''), (''worker_id'', JStr ''x''),
            (''assigned_by'', JStr ''user'')]), s')"
    and all: "\<forall>reader rd. member UNIV demo_frontend reader rd \<longrightarrow>
       (\<exists>m c. get_status 256 reader 3 ''t'' s' = (Inr (200,
          JObj [(''task_id'', JStr ''t''), (''status'', JStr ''PENDING''), (''result'', JNull), (''worker_id'', JStr ''x''),
                (''assigned_by'', JStr ''user'')]), later m c s')) \<and>
       (\<exists>m c. assigned_tasks 256 reader 3 ''x'' s' = (Inr ([] @ [JStr ''t'']), later m c s'))"
    using create_task_accepted [OF demo_frontend_place demo_frontend_absent demo_frontend_worker side b(1) chosen,
        of 3 "\<lambda>_. ret 1" "ret ()" False] by (elim exE conjE)
  from all [rule_format, OF mem] show ?thesis unfolding append_Nil
    by (intro exI [of _ s'] conjI run; elim conjE)
qed

text \<open>A completion that finds the record and is stored.\<close>

lemma complete_ok:
  fixes s :: "'z frontend_scheme"
  assumes t: "task_at A fuel me t r d s" and rec: "valid_result (JObj d)"
    and d: "dindex d ''worker_id'' = Inr (JStr w)" "dindex d ''assigned_by'' = Inr (JStr who)" and w: "w \<noteq> []"
    and b: "json_body payload = Inr b" "dget b ''status'' = JStr st" "st \<in> {''SUCCESS'', ''FAILURE''}"
  obtains d' s' where "result_complete fuel me k t payload s = (Inr ((200,
      JObj [(''ok'', JBool True), (''task_id'', JStr t), (''status'', JStr st)]),
      if st = ''SUCCESS'' then Some (JStr w, t) else None), s')" "frame s s'"
    "get_stats w (reg s') = add_result (st = ''SUCCESS'') (get_stats w (reg s))"
    "task_at A fuel me t r d' s'" "valid_result (JObj d')" "task_fields w who (JStr st) (dget b ''result'') d'"
    "frontend.more s' = frontend.more s"
proof -
  obtain nd where nd: "member A s me nd" using t by (auto simp: task_at_def)
  have "is_result_record (JObj d)" using rec by (simp add: valid_result_iff)
  then obtain m c where get: "result_get fuel me k t s = (Inr (Some (JObj d)), later m c s)"
    using task_at_get [OF t nd] by blast
  let ?s1 = "later m c s"
  let ?d = "completed (clock ?s1) (JStr st) (dget b ''result'') d"
  have valid: "valid_result (JObj ?d)" by (rule completed_valid [OF rec b(3)])
  have t1: "task_at A fuel me t r d ?s1" using t by simp
  obtain s2 where safe: "safe_put fuel me k (JStr t) ?d ?s1 = (Inr (), s2)" "frame ?s1 s2" "task_at A fuel me t r ?d s2"
    by (rule task_at_put [OF t1 valid])
  obtain nd1 where nd1: "member A ?s1 me nd1" "routes nd1 (sha1_id (''result:'' @ strip t))"
    using t1 by (auto simp: task_at_def)
  obtain res where put: "result_put fuel me k t (JObj ?d) ?s1 = (Inr res, s2)"
  proof -
    obtain r' res s3 where p: "result_put fuel me k t (JObj ?d) ?s1 = (Inr res, s3)"
      by (rule result_put_ok [OF _ _ nd1(1) _ valid _ nd1(2), of fuel k]) (use t1 in \<open>auto simp: task_at_def\<close>)
    then have "s3 = s2" using safe(1) by (simp add: safe_put_def ignoring_def act_simps)
    with p show thesis by (intro that) simp
  qed
  have att: "attempted (result_put fuel me k t (JObj ?d)) ?s1 = (Inr True, s2)" using put by (rule attempted_run)
  let ?s3 = "s2\<lparr>reg := record_completion w (st = ''SUCCESS'') (reg s2)\<rparr>"
  have known: "in_str_set (JStr st) [''SUCCESS'', ''FAILURE''] = Inr True" using b(3) by (auto simp: in_str_set_True)
  have worker: "dget d ''worker_id'' = JStr w" using d(1) by (auto simp: dindex_def dget_or_def split: option.splits)
  have run: "result_complete fuel me k t payload s = (Inr ((200,
      JObj [(''ok'', JBool True), (''task_id'', JStr t), (''status'', JStr st)]),
      if st = ''SUCCESS'' then Some (JStr w, t) else None), ?s3)"
    unfolding result_complete_def b(1,2) Let_def andthen_lift_Inr known
    using w att by (cases "st = ''SUCCESS''") (simp_all add: run_catch run_andthen get run_gets worker run_modify run_ret)
  have fr: "frame s ?s3" using frame_trans [OF frame_later safe(2)] by simp
  have beside: "reg s2 = reg ?s1" "frontend.more s2 = frontend.more ?s1" by (rule put_keeps_beside [OF put])+
  then have "get_stats w (reg ?s3) = add_result (st = ''SUCCESS'') (get_stats w (reg s))"
    using w by (simp add: record_completion_def get_stats_def later_def map_of_dset)
  moreover have "task_at A fuel me t r ?d ?s3" using safe(3) by simp
  ultimately show thesis
    using beside(2) by (intro that [OF run fr _ _ valid completed_fields [OF d]]) (simp_all add: later_def)
qed

text \<open>
  C24. A completed task shows its result everywhere: in a stable ring, over a network that loses
  requests, a completion of a stored task through a member is answered by 200; afterwards every
  member reports the new status and result of the task with its worker, the registry of the
  member that was asked has counted one more success or failure of the worker, and a clean-up of the
  assignment is started exactly for a success. Conditions: the stored record is valid and names a
  worker; the body gives one of the two statuses of an end; and no member has an identifier that is
  the hash of the key of the record, unless it is alone.
\<close>

theorem complete_then_status:
  fixes s :: "'z frontend_scheme"
  assumes t: "task_at A fuel me t r d s" and rec: "valid_result (JObj d)"
    and d: "dindex d ''worker_id'' = Inr (JStr w)" "dindex d ''assigned_by'' = Inr (JStr who)" and w: "w \<noteq> []"
    and b: "json_body payload = Inr b" "dget b ''status'' = JStr st" "st \<in> {''SUCCESS'', ''FAILURE''}"
  shows "\<exists>s'. result_complete fuel me k t payload s = (Inr ((200,
      JObj [(''ok'', JBool True), (''task_id'', JStr t), (''status'', JStr st)]),
      if st = ''SUCCESS'' then Some (JStr w, t) else None), s') \<and> frame s s' \<and>
    get_stats w (reg s') = add_result (st = ''SUCCESS'') (get_stats w (reg s)) \<and>
    (\<forall>reader rd. member A s reader rd \<longrightarrow>
       (\<exists>m c. get_status fuel reader k t s' = (Inr (200,
          JObj [(''task_id'', JStr t), (''status'', JStr st), (''result'', dget b ''result''), (''worker_id'', JStr w),
                (''assigned_by'', JStr who)]), later m c s')))"
proof -
  obtain d' s' where run: "result_complete fuel me k t payload s = (Inr ((200,
      JObj [(''ok'', JBool True), (''task_id'', JStr t), (''status'', JStr st)]),
      if st = ''SUCCESS'' then Some (JStr w, t) else None), s')" "frame s s'"
      "get_stats w (reg s') = add_result (st = ''SUCCESS'') (get_stats w (reg s))"
    and d': "task_at A fuel me t r d' s'" "valid_result (JObj d')" "task_fields w who (JStr st) (dget b ''result'') d'"
    by (rule complete_ok [OF assms])
  have "\<exists>m c. get_status fuel reader k t s' = (Inr (200,
          JObj [(''task_id'', JStr t), (''status'', JStr st), (''result'', dget b ''result''), (''worker_id'', JStr w),
                (''assigned_by'', JStr who)]), later m c s')" if "member A s reader rd" for reader rd
    using get_status_ok [OF d'(1) _ _ d'(3)] frame_member [OF run(2) that] d'(2) by (metis valid_result_iff)
  with run show ?thesis by blast
qed

definition demo_assigned_frontend :: frontend where
  "demo_assigned_frontend = demo_frontend\<lparr>nodes := nodes demo_crash_net\<rparr>"

lemma demo_assigned_task: "task_at UNIV 256 ''a'' ''t'' ref10 demo_task_record demo_assigned_frontend"
proof -
  have "nodes demo_assigned_frontend = nodes demo_crash" "fault demo_assigned_frontend = fault demo_crash"
    by (simp_all add: demo_assigned_frontend_def demo_crash_parts demo_frontend_parts demo_crash_net_def set_node_def)
  from task_at_parts [OF this] demo_crash_task show ?thesis by simp
qed

lemma demo_record_fields: "dindex demo_task_record ''worker_id'' = Inr (JStr ''w'')"
  "dindex demo_task_record ''assigned_by'' = Inr (JStr ''user'')" "dindex demo_task_record ''status'' = Inr (JStr ''PENDING'')"
  by (simp_all add: demo_task_record_def demo_result_def dindex_def)

theorem complete_then_status_witness:
  "\<exists>s'. result_complete 256 ''a'' 3 ''t'' (JObj [(''status'', JStr ''SUCCESS''), (''result'', JInt 7)])
       demo_assigned_frontend = (Inr ((200, JObj [(''ok'', JBool True), (''task_id'', JStr ''t''),
         (''status'', JStr ''SUCCESS'')]), Some (JStr ''w'', ''t'')), s') \<and>
     (\<exists>m c. get_status 256 ''a'' 3 ''t'' s' = (Inr (200,
        JObj [(''task_id'', JStr ''t''), (''status'', JStr ''SUCCESS''), (''result'', JInt 7), (''worker_id'', JStr ''w''),
              (''assigned_by'', JStr ''user'')]), later m c s'))"
proof -
  let ?b = "[(''status'', JStr ''SUCCESS''), (''result'', JInt 7)]"
  have b: "json_body (JObj ?b) = Inr ?b" "dget ?b ''status'' = JStr ''SUCCESS''" "''SUCCESS'' \<in> {''SUCCESS'', ''FAILURE''}"
    "dget ?b ''result'' = JInt 7"
    by (simp_all add: json_body_def py_or_def dget_or_Cons)
  have valid: "valid_result (JObj demo_task_record)" using demo_crash_retriable by (simp add: retriable_def)
  obtain nd where mem: "member UNIV demo_assigned_frontend ''a'' nd"
    using demo_assigned_task by (auto simp: task_at_def)
  have w: "''w'' \<noteq> []" by simp
  obtain s' where "result_complete 256 ''a'' 3 ''t'' (JObj ?b) demo_assigned_frontend =
      (Inr ((200, JObj [(''ok'', JBool True), (''task_id'', JStr ''t''), (''status'', JStr ''SUCCESS'')]),
        if ''SUCCESS'' = ''SUCCESS'' then Some (JStr ''w'', ''t'') else None), s')"
    and all: "\<forall>reader rd. member UNIV demo_assigned_frontend reader rd \<longrightarrow>
       (\<exists>m c. get_status 256 reader 3 ''t'' s' = (Inr (200,
        JObj [(''task_id'', JStr ''t''), (''status'', JStr ''SUCCESS''), (''result'', dget ?b ''result''),
              (''worker_id'', JStr ''w''), (''assigned_by'', JStr ''user'')]), later m c s'))"
    using complete_then_status [OF demo_assigned_task valid demo_record_fields(1,2) w b(1-3), of 3]
    by (elim exE conjE)
  with all [rule_format, OF mem] show ?thesis unfolding b(4) by (intro exI [of _ s'] conjI) simp_all
qed

text \<open>
  Submission is idempotent: in a stable ring, over a network that loses requests, submitting a
  task that is stored is answered by 200 with the state of the stored task, whatever worker and
  details the second submission names, and changes neither a process nor the registry.
\<close>

theorem create_task_again:
  fixes s :: "'z frontend_scheme"
  assumes t: "task_at A fuel me t r d s" and rec: "is_result_record (JObj d)"
    and d: "dindex d ''worker_id'' = Inr w" "dindex d ''assigned_by'' = Inr who" "dindex d ''status'' = Inr status"
    and sub: "submits payload t b details" "t \<noteq> []"
  shows "\<exists>m c. create_task fuel me k popen meanwhile autospawn inject payload s = (Inr (200,
    JObj [(''message'', JStr ''Task already exists''), (''task_id'', JStr t), (''status'', status), (''worker_id'', w),
          (''assigned_by'', who)]), later m c s)"
proof -
  obtain nd where nd: "member A s me nd" using t by (auto simp: task_at_def)
  obtain m c where "result_get fuel me k t s = (Inr (Some (JObj d)), later m c s)"
    using task_at_get [OF t nd rec] by blast
  then have "safe_get fuel me k (JStr t) s = (Inr (Some (JObj d)), later m c s)"
    by (simp add: safe_get_def run_catch)
  then show ?thesis
    unfolding submits_body [OF sub] using d
    by (intro exI [of _ m] exI [of _ c]) (simp add: endpoint_def run_catch run_andthen run_lift existing_answer_def)
qed

theorem create_task_again_witness:
  "\<exists>m c. create_task 256 ''a'' 3 (\<lambda>_. ret 1) (ret ()) False [] demo_submission demo_assigned_frontend = (Inr (200,
    JObj [(''message'', JStr ''Task already exists''), (''task_id'', JStr ''t''), (''status'', JStr ''PENDING''),
          (''worker_id'', JStr ''w''), (''assigned_by'', JStr ''user'')]), later m c demo_assigned_frontend)"
proof -
  obtain b d where b: "submits demo_submission ''t'' b d" using demo_submits by blast
  have "is_result_record (JObj demo_task_record)"
    using demo_crash_retriable by (simp add: retriable_def valid_result_iff)
  from create_task_again [OF demo_assigned_task this demo_record_fields b]
  show ?thesis by simp
qed

end
