(* ===== verification/TaskRunner.thy ===== *)
theory TaskRunner
  imports Submit JobWorker
begin

text \<open>
  The task-execution worker: \<open>chord/executor.py\<close> and \<open>chord/task_runner.py\<close>, with the two
  endpoints of \<open>chord/server.py\<close> that only it uses.

  The worker is a process of its own that talks to one frontend by single HTTP attempts. The
  state is that of the frontend with the worker's own: the identifiers it has seen, the tasks it
  has in flight, the stop event, the queue of its pool of threads, and the temporary files it
  has written; \<open>cleanups\<close> are the clean-up threads its reports have started at the frontend.
  \<open>proc\<close> stands for \<open>subprocess.run\<close>: it gets the command and the time limit, takes time, may
  change whatever the command changes, and returns how the command ended or raises. \<open>tempname\<close>
  makes up the name of a temporary file, given those in use. Task identifiers are strings.
\<close>

section \<open>Executing a command\<close>

record exec_result =
  er_exit_code :: int
  er_stdout :: string
  er_stderr :: string
  er_duration_ms :: int
  er_timed_out :: bool

definition result_dict :: "exec_result \<Rightarrow> json" where
  "result_dict r = JObj
     [(''exit_code'', JInt (er_exit_code r)), (''stdout'', JStr (er_stdout r)), (''stderr'', JStr (er_stderr r)),
      (''duration_ms'', JInt (er_duration_ms r)), (''timed_out'', JBool (er_timed_out r))]"

text \<open>How a command ends; after a timeout the captured output may be missing.\<close>

datatype ending = Completed int string string | Timed_out "string option" "string option" | Not_found string

record runner = frontend +
  seen_task_ids :: "string set"
  inflight :: "string set"
  stop_event :: bool
  submitted :: "(string \<times> jdict) list"
  temp_files :: "string dict"
  cleanups :: "(json \<times> string) list"

type_synonym 'z subprocess = "string list \<Rightarrow> int \<Rightarrow> ('z runner_scheme, ending) act"

definition as_text :: "json \<Rightarrow> exn + string" where
  "as_text v = (case v of JStr t \<Rightarrow> Inr t | _ \<Rightarrow> Inl (TypeError ''expected str''))"

text \<open>
  The command, with the temporary file to delete afterwards, if there is one. The file exists
  before its text is written, and a script that is no text leaves it behind.
\<close>

definition prepare ::
  "(string list \<Rightarrow> string) \<Rightarrow> json \<Rightarrow> json \<Rightarrow> json \<Rightarrow> ('z runner_scheme, json list \<times> string option) act" where
  "prepare tempname task_type path script =
     (if task_type = JStr ''SCRIPT'' then
        if \<not> truthy script \<and> truthy path then ret ([JStr ''bash'', path], None)
        else
          andthen (gets (\<lambda>s. tempname (dkeys (temp_files s)))) (\<lambda>tmp.
          andthen (modify (\<lambda>s. s\<lparr>temp_files := dset tmp [] (temp_files s)\<rparr>)) (\<lambda>_.
          andthen (lift (as_text (py_or script (JStr [])))) (\<lambda>body.
          andthen (modify (\<lambda>s. s\<lparr>temp_files := dset tmp body (temp_files s)\<rparr>)) (\<lambda>_.
          ret ([JStr ''bash'', JStr tmp], Some tmp)))))
      else if task_type = JStr ''BINARY'' then
        if \<not> truthy path then throw (ValueError ''BINARY task requires non-empty path'') else ret ([path], None)
      else throw (ValueError ''Unknown task_type''))"

fun texts :: "json list \<Rightarrow> exn + string list" where
  "texts [] = Inr []"
| "texts (v # vs) = chain (as_text v) (\<lambda>t. chain (texts vs) (\<lambda>ts. Inr (t # ts)))"

definition exec_result_of :: "int \<Rightarrow> int \<Rightarrow> ending \<Rightarrow> exec_result" where
  "exec_result_of timeout_s duration_ms e =
     (case e of
        Completed code out err \<Rightarrow>
          \<lparr>er_exit_code = code, er_stdout = out, er_stderr = err, er_duration_ms = duration_ms, er_timed_out = False\<rparr>
      | Timed_out out err \<Rightarrow>
          \<lparr>er_exit_code = - 1, er_stdout = (case out of None \<Rightarrow> [] | Some t \<Rightarrow> t),
           er_stderr = (case err of None \<Rightarrow> [] | Some t \<Rightarrow> t) @ CHR 0x0A # ''[TIMEOUT after '' @ show_int timeout_s @ ''s]'',
           er_duration_ms = duration_ms, er_timed_out = True\<rparr>
      | Not_found text \<Rightarrow>
          \<lparr>er_exit_code = - 1, er_stdout = [], er_stderr = ''executable not found: '' @ text,
           er_duration_ms = duration_ms, er_timed_out = False\<rparr>)"

definition run_command :: "'z subprocess \<Rightarrow> json list \<Rightarrow> int \<Rightarrow> ('z runner_scheme, exec_result) act" where
  "run_command proc cmd timeout_s =
     andthen (gets clock) (\<lambda>start.
     andthen (lift (texts cmd)) (\<lambda>args.
     andthen (proc args timeout_s) (\<lambda>e.
     andthen (gets clock) (\<lambda>stop.
     ret (exec_result_of timeout_s (trunc (rat_of_int (stop - start) / 1000)) e)))))"

definition unlink_temp :: "string option \<Rightarrow> 'z runner_scheme \<Rightarrow> 'z runner_scheme" where
  "unlink_temp tmp s =
     (case tmp of None \<Rightarrow> s | Some f \<Rightarrow> if f = [] then s else s\<lparr>temp_files := ddel f (temp_files s)\<rparr>)"

definition run_task ::
  "'z subprocess \<Rightarrow> (string list \<Rightarrow> string) \<Rightarrow> json \<Rightarrow> json \<Rightarrow> json \<Rightarrow> int \<Rightarrow> ('z runner_scheme, exec_result) act" where
  "run_task proc tempname task_type path script timeout_s =
     andthen (prepare tempname task_type path script) (\<lambda>(cmd, tmp).
     finally_do (run_command proc cmd timeout_s) (unlink_temp tmp))"

section \<open>The calls to the frontend\<close>

text \<open>
  What \<open>Worker.__init__\<close> fixes, with the frontend's address; \<open>demo_delay\<close> is \<open>DEMO_TASK_DELAY_S\<close>
  in microseconds.
\<close>

record runner_config =
  worker_id :: string
  frontend :: string
  concurrency :: int
  execution_timeout :: int
  process_token :: string
  demo_delay :: int

definition init_config :: "string \<Rightarrow> string \<Rightarrow> int \<Rightarrow> int \<Rightarrow> string \<Rightarrow> int \<Rightarrow> runner_config" where
  "init_config wid fe conc limit token delay =
     \<lparr>worker_id = wid, frontend = fe, concurrency = max 1 conc, execution_timeout = limit,
      process_token = token, demo_delay = delay\<rparr>"

text \<open>One HTTP attempt, and \<open>raise_for_status\<close> on its answer.\<close>

definition call :: "string \<Rightarrow> ('z net_scheme, response) act \<Rightarrow> ('z net_scheme, response) act" where
  "call a h =
     andthen (http_attempt a (andthen h (\<lambda>r. ret (Ok r)))) (\<lambda>reply.
     case reply of Ok r \<Rightarrow> ret r | Status c \<Rightarrow> ret (c, JNull))"

definition good_body :: "response \<Rightarrow> exn + json" where
  "good_body r = (if 400 \<le> fst r \<and> fst r < 600 then Inl (HTTPError (fst r)) else Inr (snd r))"

text \<open>The endpoints \<open>/debug/worker-tasks\<close> and \<open>/debug/result-record\<close>.\<close>

definition debug_worker_tasks :: "nat \<Rightarrow> string \<Rightarrow> int \<Rightarrow> string \<Rightarrow> ('z net_scheme, response) act" where
  "debug_worker_tasks fuel me k w = endpoint
     (andthen (assigned_tasks fuel me k w) (\<lambda>tasks.
      ret (200, JObj [(''worker_id'', JStr w), (''tasks'', JList tasks)])))"

definition debug_result_record :: "nat \<Rightarrow> string \<Rightarrow> int \<Rightarrow> string \<Rightarrow> ('z net_scheme, response) act" where
  "debug_result_record fuel me k t = endpoint
     (andthen (result_get fuel me k t) (\<lambda>r.
      case r of
        None \<Rightarrow> ret (404, JObj [(''error'', JStr ''not found''), (''task_id'', JStr t)])
      | Some v \<Rightarrow> ret (200, v)))"

text \<open>The completion endpoint, which remembers the clean-up thread it starts.\<close>

definition complete_endpoint :: "nat \<Rightarrow> string \<Rightarrow> int \<Rightarrow> string \<Rightarrow> json \<Rightarrow> ('z runner_scheme, response) act" where
  "complete_endpoint fuel me k t payload =
     andthen (result_complete fuel me k t payload) (\<lambda>(answer, cleanup).
     andthen (case cleanup of None \<Rightarrow> ret () | Some c \<Rightarrow> modify (\<lambda>s. s\<lparr>cleanups := cleanups s @ [c]\<rparr>)) (\<lambda>_.
     ret answer))"

definition fetch_assigned :: "nat \<Rightarrow> int \<Rightarrow> runner_config \<Rightarrow> ('z runner_scheme, string list) act" where
  "fetch_assigned fuel k cfg = catch
     (andthen (call (frontend cfg) (debug_worker_tasks fuel (frontend cfg) k (worker_id cfg))) (\<lambda>r.
      andthen (lift (good_body r)) (\<lambda>v.
      andthen (lift (py_list (py_or (dget (dict_of v) ''tasks'') (JList [])))) (\<lambda>tasks.
      ret (List.map str_of tasks)))))
     (\<lambda>_. ret [])"

definition fetch_record :: "nat \<Rightarrow> int \<Rightarrow> runner_config \<Rightarrow> string \<Rightarrow> ('z runner_scheme, jdict option) act" where
  "fetch_record fuel k cfg t = catch
     (andthen (call (frontend cfg) (debug_result_record fuel (frontend cfg) k t)) (\<lambda>r.
      if fst r = 404 then ret None
      else andthen (lift (good_body r)) (\<lambda>v. ret (Some (dict_of v)))))
     (\<lambda>_. ret None)"

definition RESULT_REPORT_RETRIES :: nat where
  "RESULT_REPORT_RETRIES = 3"

definition report :: "nat \<Rightarrow> int \<Rightarrow> runner_config \<Rightarrow> string \<Rightarrow> string \<Rightarrow> json \<Rightarrow> ('z runner_scheme, unit) act" where
  "report fuel k cfg t status payload = ignoring
     (retrying (\<lambda>e. e \<noteq> OutOfFuel) (\<lambda>attempt _. sleep (100000 * 2 ^ attempt))
       (\<lambda>_. andthen (call (frontend cfg) (complete_endpoint fuel (frontend cfg) k t
               (JObj [(''status'', JStr status), (''result'', payload)]))) (\<lambda>r.
            andthen (lift (good_body r)) (\<lambda>_. ret ())))
       RESULT_REPORT_RETRIES 0 ())"

definition send_heartbeat :: "runner_config \<Rightarrow> ('z runner_scheme, unit) act" where
  "send_heartbeat cfg =
     andthen (gets (\<lambda>s. int (card (inflight s)))) (\<lambda>pending.
     andthen (gets now_s) (\<lambda>now.
     ignoring (andthen (call (frontend cfg) (workers_heartbeat (JObj
         [(''worker_id'', JStr (worker_id cfg)), (''pending_tasks'', JInt pending), (''timestamp'', JFloat now),
          (''process_token'', JStr (process_token cfg))]))) (\<lambda>_. ret ()))))"

section \<open>Executing a task\<close>

definition crash_payload :: "exn \<Rightarrow> json" where
  "crash_payload e = JObj
     [(''exit_code'', JInt (- 1)), (''stdout'', JStr []), (''stderr'', JStr (''executor error: '' @ error_text e)),
      (''duration_ms'', JInt 0), (''timed_out'', JBool False)]"

definition outcome_status :: "exec_result \<Rightarrow> string" where
  "outcome_status r = (if er_exit_code r = 0 \<and> \<not> er_timed_out r then ''SUCCESS'' else ''FAILURE'')"

text \<open>\<open>record.get(key) or ""\<close>\<close>

definition text_field :: "string \<Rightarrow> jdict \<Rightarrow> json" where
  "text_field key record = py_or (dget record key) (JStr [])"

definition execute_and_report ::
  "'z subprocess \<Rightarrow> (string list \<Rightarrow> string) \<Rightarrow> nat \<Rightarrow> int \<Rightarrow> runner_config \<Rightarrow> string \<Rightarrow> jdict \<Rightarrow> ('z runner_scheme, unit) act" where
  "execute_and_report proc tempname fuel k cfg t record =
     andthen (modify (\<lambda>s. s\<lparr>inflight := insert t (inflight s)\<rparr>)) (\<lambda>_.
     finally_do
       (andthen (if demo_delay cfg > 0 then sleep (demo_delay cfg) else ret ()) (\<lambda>_.
        andthen (catch
            (andthen (run_task proc tempname (dget record ''task_type'') (text_field ''path'' record)
                (text_field ''script'' record) (execution_timeout cfg)) (\<lambda>r.
             ret (outcome_status r, result_dict r)))
            (\<lambda>e. ret (''FAILURE'', crash_payload e))) (\<lambda>(status, payload).
        report fuel k cfg t status payload)))
       (\<lambda>s. s\<lparr>inflight := inflight s - {t}\<rparr>))"

section \<open>Polling\<close>

text \<open>
  What the loop decides about one assigned task: to end the round, to pass on, or to launch it
  with the record it has read; a launched task has been claimed.
\<close>

datatype decision = End_round | Pass_on | Launch jdict

definition examine :: "nat \<Rightarrow> int \<Rightarrow> runner_config \<Rightarrow> string \<Rightarrow> ('z runner_scheme, decision) act" where
  "examine fuel k cfg t =
     andthen (gets stop_event) (\<lambda>stop.
     if stop then ret End_round
     else
       andthen (gets (\<lambda>s. 1 < concurrency cfg \<and> concurrency cfg \<le> int (card (inflight s)))) (\<lambda>full.
       if full then ret End_round
       else
         andthen (fetch_record fuel k cfg t) (\<lambda>r.
         case r of
           None \<Rightarrow> ret Pass_on
         | Some record \<Rightarrow>
             if dget record ''status'' \<in> {JStr ''SUCCESS'', JStr ''FAILURE'', JStr ''RUNNING''} then
               andthen (modify (\<lambda>s. s\<lparr>seen_task_ids := insert t (seen_task_ids s)\<rparr>)) (\<lambda>_. ret Pass_on)
             else
               andthen (gets (\<lambda>s. t \<in> seen_task_ids s)) (\<lambda>old.
               if old then ret Pass_on
               else
                 andthen (modify (\<lambda>s. s\<lparr>seen_task_ids := insert t (seen_task_ids s)\<rparr>)) (\<lambda>_.
                 ret (Launch record))))))"

text \<open>A worker of one thread executes the task at once; otherwise the pool gets it.\<close>

definition launch ::
  "'z subprocess \<Rightarrow> (string list \<Rightarrow> string) \<Rightarrow> nat \<Rightarrow> int \<Rightarrow> runner_config \<Rightarrow> string \<Rightarrow> jdict \<Rightarrow> ('z runner_scheme, unit) act" where
  "launch proc tempname fuel k cfg t record =
     (if 1 < concurrency cfg then
        modify (\<lambda>s. s\<lparr>inflight := insert t (inflight s), submitted := submitted s @ [(t, record)]\<rparr>)
      else execute_and_report proc tempname fuel k cfg t record)"

fun poll_tasks ::
  "'z subprocess \<Rightarrow> (string list \<Rightarrow> string) \<Rightarrow> nat \<Rightarrow> int \<Rightarrow> runner_config \<Rightarrow> string list \<Rightarrow> ('z runner_scheme, unit) act" where
  "poll_tasks proc tempname fuel k cfg [] = ret ()"
| "poll_tasks proc tempname fuel k cfg (t # ts) =
     andthen (examine fuel k cfg t) (\<lambda>d.
     case d of
       End_round \<Rightarrow> ret ()
     | Pass_on \<Rightarrow> poll_tasks proc tempname fuel k cfg ts
     | Launch record \<Rightarrow>
         andthen (launch proc tempname fuel k cfg t record) (\<lambda>_. poll_tasks proc tempname fuel k cfg ts))"

definition polling_tick ::
  "'z subprocess \<Rightarrow> (string list \<Rightarrow> string) \<Rightarrow> nat \<Rightarrow> int \<Rightarrow> runner_config \<Rightarrow> ('z runner_scheme, unit) act" where
  "polling_tick proc tempname fuel k cfg =
     ignoring (andthen (fetch_assigned fuel k cfg) (poll_tasks proc tempname fuel k cfg))"

definition POLL_INTERVAL_SECONDS :: int where
  "POLL_INTERVAL_SECONDS = 2"

text \<open>The first \<open>n\<close> rounds of the loop.\<close>

primrec polling_loop ::
  "'z subprocess \<Rightarrow> (string list \<Rightarrow> string) \<Rightarrow> nat \<Rightarrow> int \<Rightarrow> runner_config \<Rightarrow> nat \<Rightarrow> ('z runner_scheme, unit) act" where
  "polling_loop proc tempname fuel k cfg 0 = ret ()"
| "polling_loop proc tempname fuel k cfg (Suc n) =
     andthen (gets stop_event) (\<lambda>stop.
     if stop then ret ()
     else
       andthen (polling_tick proc tempname fuel k cfg) (\<lambda>_.
       andthen (sleep (POLL_INTERVAL_SECONDS * 1000000)) (\<lambda>_.
       polling_loop proc tempname fuel k cfg n)))"

section \<open>Start and stop\<close>

definition recover_task ::
  "'z subprocess \<Rightarrow> (string list \<Rightarrow> string) \<Rightarrow> nat \<Rightarrow> int \<Rightarrow> runner_config \<Rightarrow> string \<Rightarrow> unit \<Rightarrow> ('z runner_scheme, unit) act" where
  "recover_task proc tempname fuel k cfg t x =
     andthen (modify (\<lambda>s. s\<lparr>seen_task_ids := insert t (seen_task_ids s)\<rparr>)) (\<lambda>_.
     andthen (fetch_record fuel k cfg t) (\<lambda>r.
     case r of
       None \<Rightarrow> ret ()
     | Some record \<Rightarrow>
         if dget record ''status'' = JStr ''PENDING'' then execute_and_report proc tempname fuel k cfg t record else ret ()))"

definition recover_pending_tasks ::
  "'z subprocess \<Rightarrow> (string list \<Rightarrow> string) \<Rightarrow> nat \<Rightarrow> int \<Rightarrow> runner_config \<Rightarrow> ('z runner_scheme, unit) act" where
  "recover_pending_tasks proc tempname fuel k cfg =
     andthen (fetch_assigned fuel k cfg) (\<lambda>assigned. for_each assigned (recover_task proc tempname fuel k cfg) ())"

text \<open>\<open>run\<close>, with the first \<open>n\<close> rounds of its loop; the heartbeat thread is a thread of its own.\<close>

definition run_worker ::
  "'z subprocess \<Rightarrow> (string list \<Rightarrow> string) \<Rightarrow> nat \<Rightarrow> int \<Rightarrow> runner_config \<Rightarrow> nat \<Rightarrow> ('z runner_scheme, unit) act" where
  "run_worker proc tempname fuel k cfg n =
     andthen (send_heartbeat cfg) (\<lambda>_.
     andthen (ignoring (recover_pending_tasks proc tempname fuel k cfg)) (\<lambda>_.
     polling_loop proc tempname fuel k cfg n))"

text \<open>\<open>stop\<close>: the tasks of the pool that no thread has begun are cancelled.\<close>

definition stop_worker :: "runner_config \<Rightarrow> 'z runner_scheme \<Rightarrow> 'z runner_scheme" where
  "stop_worker cfg s = (let s1 = s\<lparr>stop_event := True\<rparr> in if 1 < concurrency cfg then s1\<lparr>submitted := []\<rparr> else s1)"

definition HEARTBEAT_INTERVAL_SECONDS :: int where
  "HEARTBEAT_INTERVAL_SECONDS = 5"

text \<open>One round of the heartbeat thread.\<close>

definition heartbeat_round :: "runner_config \<Rightarrow> ('z runner_scheme, unit) act" where
  "heartbeat_round cfg =
     andthen (gets stop_event) (\<lambda>stop.
     if stop then ret ()
     else andthen (send_heartbeat cfg) (\<lambda>_. sleep (HEARTBEAT_INTERVAL_SECONDS * 1000000)))"

text \<open>A thread of the pool takes the first task of its queue.\<close>

definition pool_step ::
  "'z subprocess \<Rightarrow> (string list \<Rightarrow> string) \<Rightarrow> nat \<Rightarrow> int \<Rightarrow> runner_config \<Rightarrow> ('z runner_scheme, unit) act" where
  "pool_step proc tempname fuel k cfg =
     andthen (gets submitted) (\<lambda>q.
     case q of
       [] \<Rightarrow> ret ()
     | (t, record) # rest \<Rightarrow>
         andthen (modify (\<lambda>s. s\<lparr>submitted := rest\<rparr>)) (\<lambda>_. execute_and_report proc tempname fuel k cfg t record))"

section \<open>Calls that arrive\<close>

lemma runner_later [simp]:
  "seen_task_ids (later m c s) = seen_task_ids s" "inflight (later m c s) = inflight s"
  "stop_event (later m c s) = stop_event s" "submitted (later m c s) = submitted s"
  "temp_files (later m c s) = temp_files s" "cleanups (later m c s) = cleanups s"
  by (simp_all add: later_def)

definition linked :: "string \<Rightarrow> 'z net_scheme \<Rightarrow> bool" where
  "linked a s \<longleftrightarrow> nodes s a \<noteq> None \<and> (\<forall>n. fault s n a = Delivered)"

lemma linked_later [simp]: "linked a (later m c s) = linked a s"
  by (simp add: linked_def)

lemma linked_frame:
  assumes "frame s s'" and "linked a s"
  shows "linked a s'"
proof -
  obtain nd where "nodes s a = Some nd" using assms(2) by (auto simp: linked_def)
  from frame_node [OF assms(1) this] have "nodes s' a \<noteq> None" by auto
  then show ?thesis using assms by (simp add: linked_def frame_def)
qed

lemma call_delivered:
  assumes "nodes s a \<noteq> None" and "fault s (sent s) a = Delivered" and "h (later 1 0 s) = (Inr r, s')"
  shows "call a h s = (Inr r, s')"
  using assms by (simp add: call_def http_attempt_def Let_def serve_def later_def act_simps)

lemma call_linked: "linked a s \<Longrightarrow> h (later 1 0 s) = (Inr r, s') \<Longrightarrow> call a h s = (Inr r, s')"
  by (rule call_delivered) (simp_all add: linked_def)

lemma call_lost:
  assumes "nodes s a \<noteq> None" and "fault s (sent s) a = RequestLost"
  shows "call a h s = (Inl (RequestException ''timed out''), later 1 0 s)"
  using assms by (simp add: call_def http_attempt_def Let_def later_def act_simps)

text \<open>A report gets through a network that loses requests.\<close>

lemma retried_call:
  fixes s :: "'z net_scheme"
  assumes "nodes s a \<noteq> None" and "\<forall>n. fault s n a \<noteq> ReplyLost" and "\<exists>j \<le> n. fault s (sent s + j) a = Delivered"
    and "\<And>m c. \<exists>b s'. h (later m c s) = (Inr (200, b), s') \<and> R s'"
  shows "\<exists>s'. retrying (\<lambda>e. e \<noteq> OutOfFuel) (\<lambda>attempt _. sleep (100000 * 2 ^ attempt))
      (\<lambda>_. andthen (call a h) (\<lambda>r. andthen (lift (good_body r)) (\<lambda>_. ret ()))) n i () s = (Inr (), s') \<and> R s'"
  using assms
proof (induction n arbitrary: i s)
  case 0
  obtain b s' where "h (later 1 0 s) = (Inr (200, b), s')" "R s'" using "0.prems"(4) by blast
  moreover from this have "call a h s = (Inr (200, b), s')" using "0.prems" by (intro call_delivered) auto
  ultimately show ?case by (simp add: act_simps good_body_def)
next
  case (Suc n)
  show ?case
  proof (cases "fault s (sent s) a")
    case Delivered
    obtain b s' where "h (later 1 0 s) = (Inr (200, b), s')" "R s'" using Suc.prems(4) by blast
    moreover from this have "call a h s = (Inr (200, b), s')" using Suc.prems(1) Delivered by (intro call_delivered)
    ultimately show ?thesis by (intro exI [of _ s'] conjI retrying_first) (simp_all add: act_simps good_body_def)
  next
    case RequestLost
    let ?s1 = "later 1 (100000 * 2 ^ i) s"
    obtain j where j: "j \<le> Suc n" "fault s (sent s + j) a = Delivered" using Suc.prems(3) by blast
    with RequestLost obtain j' where "j = Suc j'" by (cases j) auto
    with j have "\<exists>j \<le> n. fault ?s1 (sent ?s1 + j) a = Delivered" by (intro exI [of _ j']) simp
    moreover have "\<exists>b s'. h (later m c ?s1) = (Inr (200, b), s') \<and> R s'" for m c
      using Suc.prems(4) [of "1 + m" "100000 * 2 ^ i + c"] by simp
    ultimately have "\<exists>s'. retrying (\<lambda>e. e \<noteq> OutOfFuel) (\<lambda>attempt _. sleep (100000 * 2 ^ attempt))
      (\<lambda>_. andthen (call a h) (\<lambda>r. andthen (lift (good_body r)) (\<lambda>_. ret ()))) n (Suc i) () ?s1 = (Inr (), s') \<and> R s'"
      using Suc.prems(1,2) by (intro Suc.IH) simp_all
    moreover have "sleep (100000 * 2 ^ i) (later 1 0 s) = (Inr (), ?s1)" by (simp add: sleep_def later_def act_simps)
    ultimately show ?thesis using call_lost [OF Suc.prems(1) RequestLost, of h] by (simp add: andthen_Inl andthen_Inr)
  qed (use Suc.prems(2) in blast)
qed

lemma fetch_assigned_ok:
  fixes s :: "'z runner_scheme"
  assumes link: "linked (frontend cfg) s" and st: "stable A s" "lossy s" and me: "member A s (frontend cfg) nd"
    and fuel: "255 \<le> fuel" and w: "worker_place A (worker_id cfg) r ts s" and ts: "ts \<noteq> []"
  obtains m c where "fetch_assigned fuel k cfg s = (Inr (List.map str_of ts), later m c s)"
proof -
  have "\<exists>m c. assigned_tasks fuel (frontend cfg) k (worker_id cfg) (later 1 0 s) = (Inr ts, later m c (later 1 0 s))"
    by (rule assigned_ok [OF frame_refl, of A "later 1 0 s" "frontend cfg" nd fuel "worker_id cfg" r ts k])
      (use st me fuel w ts in \<open>auto simp: worker_place_def stores_tasks_def\<close>)
  then obtain m c where "assigned_tasks fuel (frontend cfg) k (worker_id cfg) (later 1 0 s) = (Inr ts, later m c (later 1 0 s))"
    by blast
  then have "debug_worker_tasks fuel (frontend cfg) k (worker_id cfg) (later 1 0 s)
      = (Inr (200, JObj [(''worker_id'', JStr (worker_id cfg)), (''tasks'', JList ts)]), later (1 + m) c s)"
    by (simp add: debug_worker_tasks_def endpoint_def act_simps)
  with link have "call (frontend cfg) (debug_worker_tasks fuel (frontend cfg) k (worker_id cfg)) s
      = (Inr (200, JObj [(''worker_id'', JStr (worker_id cfg)), (''tasks'', JList ts)]), later (1 + m) c s)"
    by (rule call_linked)
  then have "fetch_assigned fuel k cfg s = (Inr (List.map str_of ts), later (1 + m) c s)"
    by (simp add: fetch_assigned_def act_simps good_body_def dget_or_Cons py_or_def)
  then show thesis by (rule that)
qed

lemma fetch_record_ok:
  fixes s :: "'z runner_scheme"
  assumes link: "linked (frontend cfg) s" and t: "task_at A fuel (frontend cfg) t r d s" and rec: "is_result_record (JObj d)"
  obtains m c where "fetch_record fuel k cfg t s = (Inr (Some d), later m c s)"
proof -
  obtain nd where "member A (later 1 0 s) (frontend cfg) nd" using t by (auto simp: task_at_def)
  moreover have "task_at A fuel (frontend cfg) t r d (later 1 0 s)" using t by simp
  ultimately obtain m c where "result_get fuel (frontend cfg) k t (later 1 0 s) = (Inr (Some (JObj d)), later m c (later 1 0 s))"
    using task_at_get rec by blast
  then have "debug_result_record fuel (frontend cfg) k t (later 1 0 s) = (Inr (200, JObj d), later (1 + m) c s)"
    by (simp add: debug_result_record_def endpoint_def act_simps)
  with link have "call (frontend cfg) (debug_result_record fuel (frontend cfg) k t) s = (Inr (200, JObj d), later (1 + m) c s)"
    by (rule call_linked)
  then have "fetch_record fuel k cfg t s = (Inr (Some d), later (1 + m) c s)"
    by (simp add: fetch_record_def act_simps good_body_def)
  then show thesis by (rule that)
qed

section \<open>Running a task\<close>

definition fresh_names :: "(string list \<Rightarrow> string) \<Rightarrow> bool" where
  "fresh_names tempname \<longleftrightarrow> (\<forall>names. tempname names \<noteq> [] \<and> tempname names \<notin> set names)"

lemma temp_gone:
  assumes "k \<notin> set (dkeys d)"
  shows "ddel k (dset k x d) = d" "ddel k (dset k y (dset k x d)) = d"
  using assms by (induction d) (auto simp: dkeys_def delete_id)

text \<open>The command of a record whose fields are texts, when it has one.\<close>

definition runnable :: "jdict \<Rightarrow> bool" where
  "runnable d \<longleftrightarrow> (\<exists>path script. text_field ''path'' d = JStr path \<and> text_field ''script'' d = JStr script \<and>
     (dget d ''task_type'' = JStr ''SCRIPT'' \<or> dget d ''task_type'' = JStr ''BINARY'' \<and> path \<noteq> []))"

text \<open>A command that ends with \<open>e\<close> after \<open>dt\<close> microseconds and changes nothing that is modelled.\<close>

definition behaves :: "'z subprocess \<Rightarrow> ending \<Rightarrow> int \<Rightarrow> bool" where
  "behaves proc e dt \<longleftrightarrow> (\<forall>args limit s. proc args limit s = (Inr e, later 0 dt s))"

lemma run_task_ok:
  fixes s :: "'z runner_scheme"
  assumes "behaves proc e dt" and "fresh_names tempname" and "runnable d"
  shows "run_task proc tempname (dget d ''task_type'') (text_field ''path'' d) (text_field ''script'' d) limit s
    = (Inr (exec_result_of limit (trunc (rat_of_int dt / 1000)) e), later 0 dt s)"
proof -
  obtain path script where d: "text_field ''path'' d = JStr path" "text_field ''script'' d = JStr script"
    "dget d ''task_type'' = JStr ''SCRIPT'' \<or> dget d ''task_type'' = JStr ''BINARY'' \<and> path \<noteq> []"
    using assms(3) by (auto simp: runnable_def)
  let ?tmp = "tempname (dkeys (temp_files s))"
  have tmp: "?tmp \<noteq> []" "?tmp \<notin> set (dkeys (temp_files s))" using assms(2) by (simp_all add: fresh_names_def)
  have restore: "(later 0 dt (s\<lparr>temp_files := x\<rparr>))\<lparr>temp_files := temp_files s\<rparr> = later 0 dt s" for x
    by (simp add: later_def)
  show ?thesis
    using d(3)
  proof (elim disjE conjE)
    assume "dget d ''task_type'' = JStr ''SCRIPT''"
    then show ?thesis
      using assms(1) tmp
      by (auto simp: run_task_def prepare_def d as_text_def py_or_def act_simps finally_do_def run_command_def behaves_def
          unlink_temp_def temp_gone restore)
  next
    assume "dget d ''task_type'' = JStr ''BINARY''" "path \<noteq> []"
    then show ?thesis
      using assms(1)
      by (simp add: run_task_def prepare_def d as_text_def act_simps finally_do_def run_command_def behaves_def unlink_temp_def)
  qed
qed

lemma prepare_files:
  assumes "as_text (py_or script (JStr [])) = Inr code" and "prepare tempname task_type path script s = (x, s1)"
  shows "(\<exists>e. x = Inl e \<and> temp_files s1 = temp_files s) \<or> (\<exists>args. x = Inr (args, None) \<and> temp_files s1 = temp_files s) \<or>
    (\<exists>args. x = Inr (args, Some (tempname (dkeys (temp_files s)))) \<and>
      temp_files s1 = dset (tempname (dkeys (temp_files s))) code (temp_files s))"
  using assms by (simp add: prepare_def run_andthen run_ret run_throw run_gets run_modify run_lift split: if_split_asm) auto

text \<open>A command that leaves the files of the worker alone.\<close>

definition leaves_files :: "'z subprocess \<Rightarrow> bool" where
  "leaves_files proc \<longleftrightarrow> (\<forall>args limit fs. keeps (\<lambda>s. temp_files s = fs) (proc args limit))"

section \<open>Reporting a task\<close>

lemma runner_frame [simp]:
  "frame s0 (s\<lparr>inflight := x\<rparr>) = frame s0 s" "frame s0 (s\<lparr>seen_task_ids := x\<rparr>) = frame s0 s"
  "frame s0 (s\<lparr>cleanups := y\<rparr>) = frame s0 s"
  by (simp_all add: frame_def)

lemma runner_task [simp]:
  "task_at A fuel me t r d (s\<lparr>inflight := x\<rparr>) = task_at A fuel me t r d s"
  "task_at A fuel me t r d (s\<lparr>seen_task_ids := x\<rparr>) = task_at A fuel me t r d s"
  "task_at A fuel me t r d (s\<lparr>cleanups := y\<rparr>) = task_at A fuel me t r d s"
  by (rule task_at_parts; simp)+

text \<open>Two states with the same worker: all its own fields, the clean-ups of the frontend apart.\<close>

definition same_worker :: "'z runner_scheme \<Rightarrow> 'z runner_scheme \<Rightarrow> bool" where
  "same_worker s s' \<longleftrightarrow> seen_task_ids s' = seen_task_ids s \<and> inflight s' = inflight s \<and> stop_event s' = stop_event s \<and>
     submitted s' = submitted s \<and> temp_files s' = temp_files s"

lemma same_worker_more: "frontend.more s' = frontend.more s \<Longrightarrow> same_worker s s'"
  by (cases s; cases s') (simp add: same_worker_def)

text \<open>The outcome of task \<open>t\<close> is stored: status, result, and the worker and submitter it had.\<close>

definition settled :: "string set \<Rightarrow> nat \<Rightarrow> string \<Rightarrow> string \<Rightarrow> nref \<Rightarrow> string \<Rightarrow> string \<Rightarrow> string \<Rightarrow> json \<Rightarrow> 'z net_scheme \<Rightarrow> bool" where
  "settled A fuel me t r w who st payload s \<longleftrightarrow>
     (\<exists>d. task_at A fuel me t r d s \<and> valid_result (JObj d) \<and> task_fields w who (JStr st) payload d)"

lemma settled_status:
  fixes s :: "'z frontend_scheme"
  assumes "settled A fuel me t r w who st payload s" and "member A s reader rd"
  shows "\<exists>m c. get_status fuel reader k t s = (Inr (200,
    JObj [(''task_id'', JStr t), (''status'', JStr st), (''result'', payload), (''worker_id'', JStr w),
          (''assigned_by'', JStr who)]), later m c s)"
  using assms get_status_ok unfolding settled_def by (metis valid_result_iff)

definition awaiting :: "jdict \<Rightarrow> string \<Rightarrow> string \<Rightarrow> bool" where
  "awaiting d w who \<longleftrightarrow> valid_result (JObj d) \<and> w \<noteq> [] \<and> dindex d ''worker_id'' = Inr (JStr w) \<and>
     dindex d ''assigned_by'' = Inr (JStr who)"

lemma complete_endpoint_ok:
  fixes s :: "'z runner_scheme"
  assumes t: "task_at A fuel me t r d s" and d: "awaiting d w who" and st: "st \<in> {''SUCCESS'', ''FAILURE''}"
  shows "\<exists>b s'. complete_endpoint fuel me k t (JObj [(''status'', JStr st), (''result'', payload)]) s = (Inr (200, b), s') \<and>
    frame s s' \<and> same_worker s s' \<and> settled A fuel me t r w who st payload s'"
proof -
  let ?b = "[(''status'', JStr st), (''result'', payload)]"
  have b: "json_body (JObj ?b) = Inr ?b" "dget ?b ''status'' = JStr st" "dget ?b ''result'' = payload"
    by (simp_all add: json_body_def py_or_def dget_or_Cons)
  obtain d' s' where run: "result_complete fuel me k t (JObj ?b) s = (Inr ((200,
      JObj [(''ok'', JBool True), (''task_id'', JStr t), (''status'', JStr st)]),
      if st = ''SUCCESS'' then Some (JStr w, t) else None), s')" "frame s s'"
    and d': "task_at A fuel me t r d' s'" "valid_result (JObj d')" "task_fields w who (JStr st) (dget ?b ''result'') d'"
    and more: "frontend.more s' = frontend.more s"
    by (rule complete_ok [OF t _ _ _ _ b(1,2) st, of w who k]) (use d in \<open>auto simp: awaiting_def\<close>)
  from d' b(3) have "settled A fuel me t r w who st payload s'" unfolding settled_def by auto
  then have settled: "settled A fuel me t r w who st payload (s'\<lparr>cleanups := y\<rparr>)" for y by (simp add: settled_def)
  have "same_worker s (s'\<lparr>cleanups := y\<rparr>)" for y
    using same_worker_more [OF more] by (simp add: same_worker_def)
  with run settled more \<open>settled A fuel me t r w who st payload s'\<close> show ?thesis
    by (cases "st = ''SUCCESS''") (auto simp: complete_endpoint_def act_simps same_worker_more)
qed

lemma report_ok:
  fixes s :: "'z runner_scheme"
  assumes t: "task_at A fuel (frontend cfg) t r d s" and d: "awaiting d w who" and st: "st \<in> {''SUCCESS'', ''FAILURE''}"
  obtains s' where "report fuel k cfg t st payload s = (Inr (), s')" "frame s s'" "same_worker s s'"
    "settled A fuel (frontend cfg) t r w who st payload s'"
proof -
  have lossy: "lossy s" using t by (simp add: task_at_def)
  obtain nd where "member A s (frontend cfg) nd" using t by (auto simp: task_at_def)
  then have up: "nodes s (frontend cfg) \<noteq> None" by (simp add: member_def)
  have "\<exists>b s'. complete_endpoint fuel (frontend cfg) k t (JObj [(''status'', JStr st), (''result'', payload)]) (later m c s)
      = (Inr (200, b), s') \<and> (frame s s' \<and> same_worker s s' \<and> settled A fuel (frontend cfg) t r w who st payload s')" for m c
  proof -
    have "task_at A fuel (frontend cfg) t r d (later m c s)" using t by simp
    from complete_endpoint_ok [OF this d st, of k payload] show ?thesis
      by (auto simp: same_worker_def intro: frame_trans [OF frame_later])
  qed
  note handled = this
  have "\<exists>s'. retrying (\<lambda>e. e \<noteq> OutOfFuel) (\<lambda>attempt _. sleep (100000 * 2 ^ attempt))
       (\<lambda>_. andthen (call (frontend cfg) (complete_endpoint fuel (frontend cfg) k t
               (JObj [(''status'', JStr st), (''result'', payload)]))) (\<lambda>r.
            andthen (lift (good_body r)) (\<lambda>_. ret ()))) RESULT_REPORT_RETRIES 0 () s = (Inr (), s') \<and>
      (frame s s' \<and> same_worker s s' \<and> settled A fuel (frontend cfg) t r w who st payload s')"
    by (rule retried_call, rule up)
      (use lossy in \<open>auto simp: lossy_def RESULT_REPORT_RETRIES_def RPC_RETRIES_def intro: handled\<close>)
  then have "\<exists>s'. report fuel k cfg t st payload s = (Inr (), s') \<and> frame s s' \<and> same_worker s s' \<and>
      settled A fuel (frontend cfg) t r w who st payload s'"
    by (elim exE conjE) (simp add: report_def ignoring_def run_catch)
  then show thesis using that by blast
qed

text \<open>An execution ends with the outcome of its command stored.\<close>

definition verdict :: "runner_config \<Rightarrow> int \<Rightarrow> ending \<Rightarrow> exec_result" where
  "verdict cfg dt e = exec_result_of (execution_timeout cfg) (trunc (rat_of_int dt / 1000)) e"

lemma execute_and_report_ok:
  fixes s :: "'z runner_scheme"
  assumes t: "task_at A fuel (frontend cfg) t r d s" and d: "awaiting d w who" "runnable d"
    and proc: "behaves proc e dt" "fresh_names tempname"
  obtains s' where "execute_and_report proc tempname fuel k cfg t d s = (Inr (), s')" "frame s s'"
    "seen_task_ids s' = seen_task_ids s" "inflight s' = inflight s - {t}" "temp_files s' = temp_files s" "stop_event s' = stop_event s"
    "settled A fuel (frontend cfg) t r w who (outcome_status (verdict cfg dt e)) (result_dict (verdict cfg dt e)) s'"
proof -
  define delay where "delay = (if demo_delay cfg > 0 then demo_delay cfg else 0)"
  define s1 where "s1 = later 0 (delay + dt) (s\<lparr>inflight := insert t (inflight s)\<rparr>)"
  let ?x = "verdict cfg dt e"
  have t1: "task_at A fuel (frontend cfg) t r d s1" using t by (simp add: s1_def)
  have "outcome_status ?x \<in> {''SUCCESS'', ''FAILURE''}" by (simp add: outcome_status_def)
  then obtain s2 where s2: "report fuel k cfg t (outcome_status ?x) (result_dict ?x) s1 = (Inr (), s2)" "frame s1 s2"
    "same_worker s1 s2" "settled A fuel (frontend cfg) t r w who (outcome_status ?x) (result_dict ?x) s2"
    by (rule report_ok [OF t1 d(1)])
  let ?s3 = "s2\<lparr>inflight := inflight s2 - {t}\<rparr>"
  have delayed: "(if demo_delay cfg > 0 then sleep (demo_delay cfg) else ret ()) s0 = (Inr (), later 0 delay s0)" for s0 :: "'z runner_scheme"
    by (simp add: delay_def sleep_def later_def act_simps)
  have "execute_and_report proc tempname fuel k cfg t d s = (Inr (), ?s3)"
    using s2(1) run_task_ok [OF proc d(2), of "execution_timeout cfg"]
    by (simp add: execute_and_report_def run_andthen run_modify delayed finally_do_def run_catch run_ret s1_def verdict_def)
  moreover have "frame s s1" by (simp add: s1_def frame_trans [OF _ frame_later])
  ultimately show thesis
    using s2 by (intro that [of ?s3]) (auto simp: same_worker_def s1_def settled_def dest: frame_trans)
qed

section \<open>Properties\<close>

text \<open>
  No temporary file outlives its task: whatever the command does and however the execution
  ends, by an exit code, a timeout, a missing executable or an exception, \<open>run_task\<close> leaves the
  worker's temporary files as they were, when the script of the task is a text or empty.
\<close>

theorem run_task_files:
  fixes s :: "'z runner_scheme"
  assumes proc: "leaves_files proc" and names: "fresh_names tempname"
    and script: "truthy script \<longrightarrow> is_str script"
    and run: "run_task proc tempname task_type path script limit s = (r, s')"
  shows "temp_files s' = temp_files s"
proof -
  have cmd: "keeps (\<lambda>s. temp_files s = fs) (run_command proc args limit)" for args fs
    unfolding run_command_def using proc by (intro keeps_intro) (simp add: leaves_files_def)
  let ?tmp = "tempname (dkeys (temp_files s))"
  have tmp: "?tmp \<noteq> []" "?tmp \<notin> set (dkeys (temp_files s))" using names by (simp_all add: fresh_names_def)
  have "py_or script (JStr []) \<in> range JStr" using script by (cases script) (auto simp: py_or_def)
  then obtain code where code: "as_text (py_or script (JStr [])) = Inr code" by (auto simp: as_text_def)
  obtain x s1 where prep: "prepare tempname task_type path script s = (x, s1)" by fastforce
  from prepare_files [OF code prep] consider (stop) e where "x = Inl e" "temp_files s1 = temp_files s"
    | (plain) args where "x = Inr (args, None)" "temp_files s1 = temp_files s"
    | (temp) args where "x = Inr (args, Some ?tmp)" "temp_files s1 = dset ?tmp code (temp_files s)"
    by blast
  then show ?thesis
  proof cases
    case stop
    then show ?thesis using run prep by (simp add: run_task_def act_simps)
  next
    case (plain args)
    obtain y s2 where cr: "run_command proc args limit s1 = (y, s2)" by fastforce
    from keeps_run [OF cmd plain(2) cr] show ?thesis
      using run prep plain cr by (simp add: run_task_def act_simps finally_do_def unlink_temp_def)
  next
    case (temp args)
    obtain y s2 where cr: "run_command proc args limit s1 = (y, s2)" by fastforce
    from keeps_run [OF cmd temp(2) cr] show ?thesis
      using run prep temp(1) cr tmp
      by (auto simp: run_task_def act_simps finally_do_def unlink_temp_def temp_gone)
  qed
qed

text \<open>
  A round of the polling loop of an idle worker that has one task assigned, pending and not yet seen.
\<close>

lemma assigned_task_parts:
  fixes s :: "'z runner_scheme"
  assumes t: "task_at A fuel (frontend cfg) t r d s" and w: "worker_place A (worker_id cfg) rw [JStr t] s"
    and d: "awaiting d w who" "runnable d" "dget d ''status'' = JStr ''PENDING''"
    and link: "linked (frontend cfg) s" and idle: "concurrency cfg \<le> 1" "\<not> stop_event s" "t \<notin> seen_task_ids s"
    and proc: "behaves proc e dt" "fresh_names tempname"
  obtains s0 s1 s' where "fetch_assigned fuel k cfg s = (Inr [t], s0)" "examine fuel k cfg t s0 = (Inr (Launch d), s1)"
    "execute_and_report proc tempname fuel k cfg t d s1 = (Inr (), s')" "frame s s'"
    "seen_task_ids s' = insert t (seen_task_ids s)" "inflight s' = inflight s - {t}" "temp_files s' = temp_files s"
    "settled A fuel (frontend cfg) t r w who (outcome_status (verdict cfg dt e)) (result_dict (verdict cfg dt e)) s'"
proof -
  obtain nd where nd: "member A s (frontend cfg) nd" using t by (auto simp: task_at_def)
  have ring: "stable A s" "lossy s" "255 \<le> fuel" using t by (simp_all add: task_at_def)
  obtain m c where assigned: "fetch_assigned fuel k cfg s = (Inr [t], later m c s)"
    using fetch_assigned_ok [OF link ring(1,2) nd ring(3) w] by auto
  have rec: "is_result_record (JObj d)" using d(1) by (simp add: awaiting_def valid_result_iff)
  have "linked (frontend cfg) (later m c s)" "task_at A fuel (frontend cfg) t r d (later m c s)" using link t by simp_all
  from fetch_record_ok [OF this rec] obtain m' c' where
    got: "fetch_record fuel k cfg t (later m c s) = (Inr (Some d), later m' c' (later m c s))" by blast
  let ?s1 = "(later m' c' (later m c s))\<lparr>seen_task_ids := insert t (seen_task_ids s)\<rparr>"
  have exam: "examine fuel k cfg t (later m c s) = (Inr (Launch d), ?s1)"
    using idle got d(3) by (simp add: examine_def act_simps)
  have t1: "task_at A fuel (frontend cfg) t r d ?s1" using t by simp
  obtain s' where s': "execute_and_report proc tempname fuel k cfg t d ?s1 = (Inr (), s')" "frame ?s1 s'"
    "seen_task_ids s' = seen_task_ids ?s1" "inflight s' = inflight ?s1 - {t}" "temp_files s' = temp_files ?s1" "stop_event s' = stop_event ?s1"
    "settled A fuel (frontend cfg) t r w who (outcome_status (verdict cfg dt e)) (result_dict (verdict cfg dt e)) s'"
    by (rule execute_and_report_ok [OF t1 d(1,2) proc])
  have "frame s s'" using s'(2) by (rule frame_trans [rotated]) simp
  then show thesis using s'(3-5,7) by (intro that [OF assigned exam s'(1)]) simp_all
qed

lemma assigned_task_runs:
  fixes s :: "'z runner_scheme"
  assumes t: "task_at A fuel (frontend cfg) t r d s" and w: "worker_place A (worker_id cfg) rw [JStr t] s"
    and d: "awaiting d w who" "runnable d" "dget d ''status'' = JStr ''PENDING''"
    and link: "linked (frontend cfg) s" and idle: "concurrency cfg \<le> 1" "\<not> stop_event s" "t \<notin> seen_task_ids s"
    and proc: "behaves proc e dt" "fresh_names tempname"
  shows "\<exists>s'. polling_tick proc tempname fuel k cfg s = (Inr (), s') \<and> frame s s' \<and>
    seen_task_ids s' = insert t (seen_task_ids s) \<and> inflight s' = inflight s - {t} \<and> temp_files s' = temp_files s \<and>
    (\<forall>reader rd. member A s reader rd \<longrightarrow> (\<exists>m c. get_status fuel reader k t s' = (Inr (200,
       JObj [(''task_id'', JStr t), (''status'', JStr (outcome_status (verdict cfg dt e))),
             (''result'', result_dict (verdict cfg dt e)), (''worker_id'', JStr w), (''assigned_by'', JStr who)]), later m c s')))"
proof -
  obtain s0 s1 s' where s': "fetch_assigned fuel k cfg s = (Inr [t], s0)" "examine fuel k cfg t s0 = (Inr (Launch d), s1)"
    "execute_and_report proc tempname fuel k cfg t d s1 = (Inr (), s')" "frame s s'"
    "seen_task_ids s' = insert t (seen_task_ids s)" "inflight s' = inflight s - {t}" "temp_files s' = temp_files s"
    "settled A fuel (frontend cfg) t r w who (outcome_status (verdict cfg dt e)) (result_dict (verdict cfg dt e)) s'"
    by (rule assigned_task_parts [OF assms])
  have "polling_tick proc tempname fuel k cfg s = (Inr (), s')"
    using s'(1-3) idle(1) by (simp add: polling_tick_def ignoring_def launch_def act_simps)
  with s'(4-7) settled_status [OF s'(8)] frame_member [OF s'(4)] show ?thesis by (intro exI [of _ s']) (auto; metis)
qed

text \<open>The details of a submission whose command can be built.\<close>

definition executable :: "jdict \<Rightarrow> bool" where
  "executable d \<longleftrightarrow> (\<exists>path script. py_or (dget_or (JStr []) d ''path'') (JStr []) = JStr path \<and>
     py_or (dget_or (JStr []) d ''script'') (JStr []) = JStr script \<and>
     (dget d ''task_type'' = JStr ''SCRIPT'' \<or> dget d ''task_type'' = JStr ''BINARY'' \<and> path \<noteq> []))"

lemma built_runnable:
  assumes "built_from d t w who rec" and "executable d"
  shows "runnable rec" "dget rec ''status'' = JStr ''PENDING''"
proof -
  have twice: "py_or (JStr x) (JStr []) = JStr x" for x by (simp add: py_or_def)
  show "runnable rec" "dget rec ''status'' = JStr ''PENDING''"
    using assms
    by (auto simp: built_from_def executable_def build_result_record_def chain_eq_Inr runnable_def text_field_def
        dget_or_Cons twice)
qed

text \<open>After a submission the worker has the task assigned.\<close>

lemma submitted_assigned:
  fixes s :: "'z runner_scheme"
  assumes t: "task_place A fuel (frontend cfg) t r s" and none: "absent (''result:'' @ t) s"
    and w: "worker_place A (worker_id cfg) rw [] s" and inject: "inject \<noteq> ''ht1''" "inject \<noteq> ''ht2''"
    and sub: "submits payload t b d" "executable d" and chosen: "chosen b (reg s) (worker_id cfg) who"
    and link: "linked (frontend cfg) s"
  obtains rec s1 where "create_task fuel (frontend cfg) k popen meanwhile autospawn inject payload s = (Inr (201,
      JObj [(''message'', JStr ''Task accepted''), (''task_id'', JStr t), (''worker_id'', JStr (worker_id cfg)),
            (''assigned_by'', JStr who)]), s1)" "frame s s1" "same_worker s s1"
    "task_at A fuel (frontend cfg) t r rec s1" "worker_place A (worker_id cfg) rw [JStr t] s1"
    "awaiting rec (worker_id cfg) who" "runnable rec" "dget rec ''status'' = JStr ''PENDING''" "linked (frontend cfg) s1"
proof -
  obtain rec s1 where create: "create_task fuel (frontend cfg) k popen meanwhile autospawn inject payload s = (Inr (201,
      JObj [(''message'', JStr ''Task accepted''), (''task_id'', JStr t), (''worker_id'', JStr (worker_id cfg)),
            (''assigned_by'', JStr who)]), s1)" "frame s s1"
    and task: "task_at A fuel (frontend cfg) t r rec s1" "stores_tasks (ref_addr rw) (worker_id cfg) ([] @ [JStr t]) s1"
    and rec: "valid_result (JObj rec)" "task_fields (worker_id cfg) who (JStr ''PENDING'') JNull rec"
      "built_from d t (worker_id cfg) who rec"
    and more: "frontend.more s1 = frontend.more s"
    by (rule create_task_ok [OF t none w _ inject sub(1) chosen]) simp
  have "worker_place A (worker_id cfg) rw [JStr t] s1"
    using w task(2) routes_frame [OF create(2)] unfolding worker_place_def frame_responsible [OF create(2)] by auto
  moreover have "awaiting rec (worker_id cfg) who" using rec(1,2) w by (simp add: awaiting_def task_fields_def worker_place_def)
  moreover have "linked (frontend cfg) s1" by (rule linked_frame [OF create(2) link])
  ultimately show thesis
    using create(1,2) same_worker_more [OF more] task(1) built_runnable [OF rec(3) sub(2)] by (intro that)
qed


text \<open>One process and one worker, with a command that prints \<open>hi\<close> and takes 1500 microseconds.\<close>

definition demo_runner :: runner where
  "demo_runner = frontend.extend demo_frontend
     \<lparr>seen_task_ids = {}, inflight = {}, stop_event = False, submitted = [], temp_files = [], cleanups = []\<rparr>"

definition demo_config :: runner_config where
  "demo_config = init_config ''x'' ''a'' 1 60 ''c0'' 5000000"

definition demo_proc :: "unit subprocess" where
  "demo_proc args limit s = (Inr (Completed 0 ''hi'' []), later 0 1500 s)"

definition demo_tempname :: "string list \<Rightarrow> string" where
  "demo_tempname names = ''t'' @ concat names"

lemma demo_tempname_fresh: "fresh_names demo_tempname"
proof -
  have "length n \<le> length (concat names)" if "n \<in> set names" for n :: string and names
    using that by (induction names) auto
  then have "''t'' @ concat names \<notin> set names" for names by fastforce
  then show ?thesis by (simp add: fresh_names_def demo_tempname_def)
qed

lemma demo_runner_parts: "nodes demo_runner = nodes demo_frontend" "fault demo_runner = fault demo_frontend"
  "reg demo_runner = reg demo_frontend"
  by (simp_all add: demo_runner_def frontend.extend_def)

lemma demo_config_sel: "worker_id demo_config = ''x''" "frontend demo_config = ''a''" "concurrency demo_config = 1"
  "execution_timeout demo_config = 60"
  by (simp_all add: demo_config_def init_config_def)

lemma demo_runner_ready:
  "task_place UNIV 256 (frontend demo_config) ''t'' ref10 demo_runner" "absent (''result:'' @ ''t'') demo_runner"
  "worker_place UNIV (worker_id demo_config) ref10 [] demo_runner" "linked (frontend demo_config) demo_runner"
  "\<not> stop_event demo_runner" "''t'' \<notin> seen_task_ids demo_runner" "submitted demo_runner = []" "temp_files demo_runner = []"
  "member UNIV demo_runner ''a'' demo_one" "behaves demo_proc (Completed 0 ''hi'' []) 1500"
  using demo_frontend_place demo_frontend_absent demo_frontend_worker
  by (simp_all add: demo_config_sel task_place_parts [OF demo_runner_parts(1,2)] worker_place_parts [OF demo_runner_parts(1,2)]
      absent_def demo_runner_parts linked_def demo_frontend_def member_def behaves_def demo_proc_def)
    (simp_all add: demo_runner_def frontend.extend_def)

lemma demo_runner_submission:
  obtains b where "submits demo_submission ''t'' b [(''task_type'', JStr ''SCRIPT'')]" "executable [(''task_type'', JStr ''SCRIPT'')]"
    "chosen b (reg demo_runner) (worker_id demo_config) ''user''"
  by (auto simp: submits_def demo_submission_def json_body_def py_or_def dget_or_Cons VALID_TASK_TYPES_def executable_def
      chosen_def demo_config_sel)


theorem run_task_files_witness:
  "\<exists>r s'. run_task demo_proc demo_tempname (JStr ''SCRIPT'') (JStr []) (JStr ''echo hi'') 60 demo_runner = (r, s') \<and>
     temp_files s' = []"
proof -
  obtain r s' where run: "run_task demo_proc demo_tempname (JStr ''SCRIPT'') (JStr []) (JStr ''echo hi'') 60 demo_runner = (r, s')"
    by fastforce
  have "leaves_files demo_proc" by (simp add: leaves_files_def keeps_def demo_proc_def)
  from run_task_files [OF this demo_tempname_fresh _ run] run show ?thesis by (simp add: demo_runner_ready(8))
qed

end
