(* ===== verification/TaskRuns.thy ===== *)
theory TaskRuns
  imports TaskRunner
begin

text \<open>
  The polling loop of the task-execution worker as a step relation: the main thread examines
  the assigned tasks one by one, the threads of its pool execute what it has submitted, in
  any order, and between any two steps the rest of the system may do anything that does not
  touch the worker's own memory. The number of threads bounds only how many executions
  proceed at once, so every schedule of the pool is one of these.
\<close>

section \<open>The worker as a state machine\<close>

text \<open>
  \<open>todo\<close> is what is left of the assigned tasks of this round, \<open>current\<close> the task that the main
  thread executes itself.
\<close>

record polling =
  world :: runner
  todo :: "string list"
  current :: "(string \<times> jdict) option"

datatype runner_label = Fetch | Examine string | Launched string | Ran string | Stopped | Elsewhere

text \<open>What only the code of the worker changes.\<close>

definition memory :: "'z runner_scheme \<Rightarrow> string set \<times> (string \<times> jdict) list" where
  "memory s = (seen_task_ids s, submitted s)"

inductive runner_step ::
  "unit subprocess \<Rightarrow> (string list \<Rightarrow> string) \<Rightarrow> nat \<Rightarrow> int \<Rightarrow> runner_config \<Rightarrow> polling \<Rightarrow> runner_label \<Rightarrow> polling \<Rightarrow> bool"
  for proc tempname fuel k cfg where
  fetch: "\<not> stop_event (world s) \<Longrightarrow> todo s = [] \<Longrightarrow> current s = None \<Longrightarrow>
    fetch_assigned fuel k cfg (world s) = (Inr ts, w) \<Longrightarrow>
    runner_step proc tempname fuel k cfg s Fetch (s\<lparr>world := w, todo := ts\<rparr>)"
| pass: "current s = None \<Longrightarrow> todo s = t # ts \<Longrightarrow> examine fuel k cfg t (world s) = (Inr Pass_on, w) \<Longrightarrow>
    runner_step proc tempname fuel k cfg s (Examine t) (s\<lparr>world := w, todo := ts\<rparr>)"
| halt: "current s = None \<Longrightarrow> todo s = t # ts \<Longrightarrow> examine fuel k cfg t (world s) = (x, w) \<Longrightarrow>
    x = Inr End_round \<or> x = Inl e \<Longrightarrow>
    runner_step proc tempname fuel k cfg s (Examine t) (s\<lparr>world := w, todo := []\<rparr>)"
| launch: "current s = None \<Longrightarrow> todo s = t # ts \<Longrightarrow> examine fuel k cfg t (world s) = (Inr (Launch d), w) \<Longrightarrow>
    \<not> 1 < concurrency cfg \<Longrightarrow>
    runner_step proc tempname fuel k cfg s (Launched t) (s\<lparr>world := w, todo := ts, current := Some (t, d)\<rparr>)"
| submit: "current s = None \<Longrightarrow> todo s = t # ts \<Longrightarrow> examine fuel k cfg t (world s) = (Inr (Launch d), w0) \<Longrightarrow>
    1 < concurrency cfg \<Longrightarrow> launch proc tempname fuel k cfg t d w0 = (x, w) \<Longrightarrow>
    runner_step proc tempname fuel k cfg s (Launched t) (s\<lparr>world := w, todo := ts\<rparr>)"
| run: "current s = Some (t, d) \<Longrightarrow> execute_and_report proc tempname fuel k cfg t d (world s) = (x, w) \<Longrightarrow>
    runner_step proc tempname fuel k cfg s (Ran t)
      (s\<lparr>world := w, todo := (case x of Inl _ \<Rightarrow> [] | Inr _ \<Rightarrow> todo s), current := None\<rparr>)"
| pool: "submitted (world s) = q1 @ (t, d) # q2 \<Longrightarrow>
    execute_and_report proc tempname fuel k cfg t d ((world s)\<lparr>submitted := q1 @ q2\<rparr>) = (x, w) \<Longrightarrow>
    runner_step proc tempname fuel k cfg s (Ran t) (s\<lparr>world := w\<rparr>)"
| stop: "runner_step proc tempname fuel k cfg s Stopped (s\<lparr>world := stop_worker cfg (world s)\<rparr>)"
| elsewhere: "memory w = memory (world s) \<Longrightarrow> inflight w = inflight (world s) \<Longrightarrow> stop_event w = stop_event (world s) \<Longrightarrow>
    runner_step proc tempname fuel k cfg s Elsewhere (s\<lparr>world := w\<rparr>)"

inductive runner_run ::
  "unit subprocess \<Rightarrow> (string list \<Rightarrow> string) \<Rightarrow> nat \<Rightarrow> int \<Rightarrow> runner_config \<Rightarrow> polling \<Rightarrow> runner_label list \<Rightarrow> polling \<Rightarrow> bool"
  for proc tempname fuel k cfg where
  none: "runner_run proc tempname fuel k cfg s [] s"
| more: "runner_step proc tempname fuel k cfg s l s' \<Longrightarrow> runner_run proc tempname fuel k cfg s' ls s'' \<Longrightarrow>
    runner_run proc tempname fuel k cfg s (l # ls) s''"

inductive_cases runner_stepE: "runner_step proc tempname fuel k cfg s l s'"

text \<open>The tasks that were executed, and those that are launched and not executed yet.\<close>

fun ran :: "runner_label list \<Rightarrow> string list" where
  "ran [] = []"
| "ran (Ran t # ls) = t # ran ls"
| "ran (_ # ls) = ran ls"

definition waiting_ids :: "polling \<Rightarrow> string list" where
  "waiting_ids s = List.map fst (submitted (world s)) @ (case current s of None \<Rightarrow> [] | Some (t, d) \<Rightarrow> [t])"

section \<open>The memory of the worker\<close>

text \<open>A command that does not reach into the memory of the worker.\<close>

definition isolated :: "'z subprocess \<Rightarrow> bool" where
  "isolated proc \<longleftrightarrow> (\<forall>args limit m. keeps (\<lambda>s. memory s = m) (proc args limit))"

interpretation memory: data_invariant "\<lambda>_ _. True" "\<lambda>s :: 'z runner_scheme. memory s = m"
  for m :: "string set \<times> (string \<times> jdict) list"
  by unfold_locales (simp_all add: memory_def set_node_def later_def)

lemma keeps_call: "timeless P \<Longrightarrow> keeps P h \<Longrightarrow> keeps P (call a h)"
  unfolding call_def by (intro keeps_intro keeps_http_attempt) (auto split: reply.split intro: keeps_intro)

lemma keeps_endpoint: "keeps P m \<Longrightarrow> keeps P (endpoint m)"
  unfolding endpoint_def by (intro keeps_intro)

lemma memory_fetch_assigned: "keeps (\<lambda>s. memory s = m) (fetch_assigned fuel k cfg)"
  unfolding fetch_assigned_def debug_worker_tasks_def
  by (intro keeps_intro keeps_call keeps_endpoint memory.time memory.keeps_assigned_tasks)

lemma memory_fetch_record: "keeps (\<lambda>s. memory s = m) (fetch_record fuel k cfg t)"
  unfolding fetch_record_def debug_result_record_def
  by (intro keeps_intro keeps_call keeps_endpoint memory.time memory.keeps_result_get)

lemma memory_modify [keeps_intro]:
  "keeps (\<lambda>s. memory s = m) (modify (\<lambda>s. s\<lparr>reg := g s\<rparr>))"
  "keeps (\<lambda>s. memory s = m) (modify (\<lambda>s. s\<lparr>cleanups := h s\<rparr>))"
  "keeps (\<lambda>s. memory s = m) (modify (\<lambda>s. s\<lparr>inflight := i s\<rparr>))"
  "keeps (\<lambda>s. memory s = m) (modify (\<lambda>s. s\<lparr>temp_files := f s\<rparr>))"
  by (simp_all add: keeps_def memory_def act_simps)

lemma keeps_finally: "keeps P m \<Longrightarrow> (\<And>s. P s \<Longrightarrow> P (f s)) \<Longrightarrow> keeps P (finally_do m f)"
  by (rule keepsI) (rule keeps_finally_do)

lemma memory_complete: "keeps (\<lambda>s. memory s = m) (complete_endpoint fuel me k t payload)"
proof -
  have "keeps (\<lambda>s :: 'z runner_scheme. memory s = m) (case v of JStr w \<Rightarrow> modify (\<lambda>s. s\<lparr>reg := record_completion w good (reg s)\<rparr>) | _ \<Rightarrow> ret ())"
    for v good by (cases v) (auto intro: keeps_intro)
  then have "keeps (\<lambda>s :: 'z runner_scheme. memory s = m) (result_complete fuel me k t payload)"
    unfolding result_complete_def attempted_def Let_def
    by (intro keeps_intro memory.keeps_result_get memory.keeps_result_put) simp_all
  then show ?thesis unfolding complete_endpoint_def by (intro keeps_intro)
qed

lemma memory_report: "keeps (\<lambda>s. memory s = m) (report fuel k cfg t status payload)"
  unfolding report_def
  by (intro keeps_intro keeps_call memory_complete memory.time)

lemma memory_run_task:
  assumes "isolated proc"
  shows "keeps (\<lambda>s. memory s = m) (run_task proc tempname task_type path script limit)"
proof -
  have "keeps (\<lambda>s. memory s = m) (run_command proc args limit)" for args
    using assms unfolding run_command_def isolated_def by (intro keeps_intro) blast
  moreover have "memory (unlink_temp tmp s) = memory s" for tmp and s :: "'a runner_scheme"
    by (simp add: unlink_temp_def memory_def split: option.split)
  ultimately show ?thesis
    unfolding run_task_def prepare_def by (intro keeps_intro keeps_finally) auto
qed

lemma memory_execute:
  assumes "isolated proc"
  shows "keeps (\<lambda>s. memory s = m) (execute_and_report proc tempname fuel k cfg t d)"
proof -
  have "memory (s\<lparr>inflight := i\<rparr>) = memory s" for i and s :: "'a runner_scheme" by (simp add: memory_def)
  then show ?thesis
    unfolding execute_and_report_def
    by (intro keeps_intro keeps_finally memory_run_task memory_report memory.time assms) simp
qed

text \<open>What an examination does to the memory.\<close>

lemma examine_memory:
  assumes "examine fuel k cfg t s = (x, s')"
  shows "submitted s' = submitted s \<and> seen_task_ids s \<subseteq> seen_task_ids s' \<and>
    (\<forall>d. x = Inr (Launch d) \<longrightarrow> t \<notin> seen_task_ids s \<and> t \<in> seen_task_ids s')"
proof -
  obtain r s1 where got: "fetch_record fuel k cfg t s = (r, s1)" by fastforce
  from keeps_run [OF memory_fetch_record refl got] have "seen_task_ids s1 = seen_task_ids s" "submitted s1 = submitted s"
    by (simp_all add: memory_def)
  note same = this
  define finished where "finished d \<longleftrightarrow> dget d ''status'' \<in> {JStr ''SUCCESS'', JStr ''FAILURE'', JStr ''RUNNING''}" for d :: jdict
  have run: "examine fuel k cfg t s =
      (if stop_event s \<or> 1 < concurrency cfg \<and> concurrency cfg \<le> int (card (inflight s)) then (Inr End_round, s)
       else case r of
         Inl e \<Rightarrow> (Inl e, s1)
       | Inr None \<Rightarrow> (Inr Pass_on, s1)
       | Inr (Some d) \<Rightarrow>
           if finished d then (Inr Pass_on, s1\<lparr>seen_task_ids := insert t (seen_task_ids s1)\<rparr>)
           else if t \<in> seen_task_ids s1 then (Inr Pass_on, s1)
           else (Inr (Launch d), s1\<lparr>seen_task_ids := insert t (seen_task_ids s1)\<rparr>))"
    unfolding examine_def finished_def [symmetric]
    by (simp add: run_andthen run_gets run_ret run_modify got split: sum.split option.split)
  note result = trans [OF assms [symmetric] run]
  show ?thesis
  proof (cases r)
    case (Inl e)
    with result same show ?thesis by (simp split: if_split_asm)
  next
    case (Inr o')
    with result same show ?thesis by (cases o') (simp_all split: if_split_asm, auto)
  qed
qed

section \<open>A round of the loop is a run\<close>

lemma poll_tasks_run:
  assumes "poll_tasks proc tempname fuel k cfg ts w = (x, w')"
  shows "\<exists>ls s'. runner_run proc tempname fuel k cfg \<lparr>world = w, todo = ts, current = None\<rparr> ls s' \<and> world s' = w' \<and>
    todo s' = [] \<and> current s' = None"
  using assms
proof (induction ts arbitrary: w)
  case Nil
  then show ?case by (fastforce simp: act_simps intro: runner_run.none)
next
  case (Cons t ts)
  let ?s = "\<lparr>world = w, todo = t # ts, current = None\<rparr>"
  obtain y w1 where ex: "examine fuel k cfg t w = (y, w1)" by fastforce
  consider (halt) e where "y = Inr End_round \<or> y = Inl e" | (pass) "y = Inr Pass_on" | (launch) d where "y = Inr (Launch d)"
    by (cases y) (use decision.exhaust in blast)+
  then show ?case
  proof cases
    case halt
    then have "w' = w1" using Cons.prems ex by (auto simp: act_simps)
    with runner_step.halt [of ?s t ts fuel k cfg y w1 e proc tempname] ex halt show ?thesis
      by (fastforce intro: runner_run.more runner_run.none)
  next
    case pass
    then have "poll_tasks proc tempname fuel k cfg ts w1 = (x, w')" using Cons.prems ex by (simp add: act_simps)
    from Cons.IH [OF this] runner_step.pass [of ?s t ts fuel k cfg w1 proc tempname] ex pass show ?thesis
      by (fastforce intro: runner_run.more)
  next
    case (launch d)
    obtain z w2 where lau: "launch proc tempname fuel k cfg t d w1 = (z, w2)" by fastforce
    show ?thesis
    proof (cases "1 < concurrency cfg")
      case True
      then have "z = Inr ()" using lau by (simp add: launch_def act_simps)
      then have "poll_tasks proc tempname fuel k cfg ts w2 = (x, w')" using Cons.prems ex launch lau by (simp add: act_simps)
      from Cons.IH [OF this] runner_step.submit [of ?s t ts fuel k cfg d w1 proc tempname z w2] ex launch lau True show ?thesis
        by (fastforce intro: runner_run.more)
    next
      case False
      let ?s1 = "\<lparr>world = w1, todo = ts, current = Some (t, d)\<rparr>"
      have run: "execute_and_report proc tempname fuel k cfg t d w1 = (z, w2)" using lau False by (simp add: launch_def)
      have first: "runner_step proc tempname fuel k cfg ?s (Launched t) ?s1"
        using runner_step.launch [of ?s t ts fuel k cfg d w1 proc tempname] ex launch False by simp
      have second: "runner_step proc tempname fuel k cfg ?s1 (Ran t)
          \<lparr>world = w2, todo = (case z of Inl _ \<Rightarrow> [] | Inr _ \<Rightarrow> ts), current = None\<rparr>"
        using runner_step.run [of ?s1 t d proc tempname fuel k cfg z w2] run by (cases z) simp_all
      have "\<exists>ls s'. runner_run proc tempname fuel k cfg \<lparr>world = w2, todo = (case z of Inl _ \<Rightarrow> [] | Inr _ \<Rightarrow> ts), current = None\<rparr>
          ls s' \<and> world s' = w' \<and> todo s' = [] \<and> current s' = None"
      proof (cases z)
        case (Inl e)
        then have "w' = w2" using Cons.prems ex launch lau by (simp add: act_simps)
        with Inl show ?thesis by (fastforce intro: runner_run.none)
      next
        case (Inr u)
        then have "poll_tasks proc tempname fuel k cfg ts w2 = (x, w')" using Cons.prems ex launch lau by (simp add: act_simps)
        from Cons.IH [OF this] Inr show ?thesis by simp
      qed
      with first second show ?thesis by (blast intro: runner_run.more)
    qed
  qed
qed

text \<open>Every round of the polling loop is a run of the machine.\<close>

lemma polling_tick_run:
  assumes "polling_tick proc tempname fuel k cfg w = (Inr (), w')" and "\<not> stop_event w"
  shows "\<exists>ls s'. runner_run proc tempname fuel k cfg \<lparr>world = w, todo = [], current = None\<rparr> ls s' \<and> world s' = w' \<and>
    todo s' = [] \<and> current s' = None"
proof -
  obtain y w1 where got: "fetch_assigned fuel k cfg w = (y, w1)" by fastforce
  have "y \<noteq> Inl e" if "e \<noteq> OutOfFuel" for e
    using got that by (auto simp: fetch_assigned_def run_catch run_ret split: prod.splits sum.splits if_splits)
  moreover have "y \<noteq> Inl OutOfFuel" using assms(1) got by (auto simp: polling_tick_def ignoring_def act_simps)
  ultimately obtain ts where y: "y = Inr ts" by (cases y) auto
  obtain x where "poll_tasks proc tempname fuel k cfg ts w1 = (x, w')"
    using assms(1) got y by (auto simp: polling_tick_def ignoring_def act_simps split: prod.splits sum.splits if_splits)
  from poll_tasks_run [OF this]
    runner_step.fetch [of "\<lparr>world = w, todo = [], current = None\<rparr>" fuel k cfg ts w1 proc tempname] got y assms(2)
  show ?thesis by (fastforce intro: runner_run.more)
qed

section \<open>At most one execution\<close>

text \<open>
  \<open>done\<close> is what was executed since the start, \<open>old\<close> what the worker had seen then. The tasks
  executed or launched are distinct, seen, and none of the old ones.
\<close>

definition once :: "string set \<Rightarrow> string list \<Rightarrow> polling \<Rightarrow> bool" where
  "once old finished s \<longleftrightarrow> distinct (finished @ waiting_ids s) \<and> set (finished @ waiting_ids s) \<subseteq> seen_task_ids (world s) \<and>
     set (finished @ waiting_ids s) \<inter> old = {} \<and> old \<subseteq> seen_task_ids (world s)"

lemma once_step:
  assumes step: "runner_step proc tempname fuel k cfg s l s'" and iso: "isolated proc" and inv: "once old finished s"
  shows "once old (finished @ ran [l]) s'"
  using step
proof cases
  case (fetch ts w)
  with keeps_run [OF memory_fetch_assigned refl fetch(6)] inv show ?thesis
    by (auto simp: once_def waiting_ids_def memory_def)
next
  case (pass t ts w)
  with examine_memory [OF pass(5)] inv show ?thesis by (auto simp: once_def waiting_ids_def)
next
  case (halt t ts x w e)
  with examine_memory [OF halt(5)] inv show ?thesis by (auto simp: once_def waiting_ids_def)
next
  case (launch t ts d w)
  with examine_memory [OF launch(5)] inv show ?thesis by (auto simp: once_def waiting_ids_def)
next
  case (submit t ts d w0 x w)
  then have "submitted w = submitted w0 @ [(t, d)]" "seen_task_ids w = seen_task_ids w0"
    by (auto simp: launch_def act_simps)
  with submit examine_memory [OF submit(5)] inv show ?thesis by (auto simp: once_def waiting_ids_def)
next
  case (run t d x w)
  with keeps_run [OF memory_execute [OF iso] refl run(4)] inv show ?thesis
    by (auto simp: once_def waiting_ids_def memory_def)
next
  case (pool q1 t d q2 x w)
  with keeps_run [OF memory_execute [OF iso] refl pool(4)] inv show ?thesis
    by (auto simp: once_def waiting_ids_def memory_def)
next
  case stop
  with inv show ?thesis by (auto simp: once_def waiting_ids_def stop_worker_def Let_def)
next
  case (elsewhere w)
  with inv show ?thesis by (auto simp: once_def waiting_ids_def memory_def)
qed

lemma ran_Cons: "ran (l # ls) = ran [l] @ ran ls"
  by (cases l) simp_all

lemma once_run:
  assumes "runner_run proc tempname fuel k cfg s ls s'" and "isolated proc" and "once old finished s"
  shows "once old (finished @ ran ls) s'"
  using assms
proof (induction arbitrary: finished)
  case (more s l s' ls s'')
  from more.IH [OF more.prems(1) once_step [OF more.hyps(1) more.prems]] show ?case
    by (subst ran_Cons) (simp only: append_assoc)
qed simp

text \<open>
  C21. A worker process executes a task at most once, however its threads are scheduled, whatever
  the network does and whatever the rest of the system does meanwhile; and it never executes a
  task that it had seen before. In particular a task that the recovery manager queues again for
  the worker that had it is not executed by that process.
\<close>

theorem executed_at_most_once:
  assumes run: "runner_run proc tempname fuel k cfg s ls s'" and iso: "isolated proc"
    and start: "current s = None" "submitted (world s) = []"
  shows "distinct (ran ls) \<and> set (ran ls) \<inter> seen_task_ids (world s) = {} \<and> set (ran ls) \<subseteq> seen_task_ids (world s')"
proof -
  have "once (seen_task_ids (world s)) [] s" using start by (simp add: once_def waiting_ids_def)
  from once_run [OF run iso this] show ?thesis by (auto simp: once_def)
qed

text \<open>The worker that polls once, launches the task assigned to it and executes it.\<close>

theorem executed_at_most_once_witness:
  "\<exists>s ls s'. runner_run demo_proc demo_tempname 256 3 demo_config s ls s' \<and> ls = [Fetch, Launched ''t'', Ran ''t''] \<and>
     distinct (ran ls) \<and> ''t'' \<in> seen_task_ids (world s')"
proof -
  obtain b where b: "submits demo_submission ''t'' b [(''task_type'', JStr ''SCRIPT'')]" "executable [(''task_type'', JStr ''SCRIPT'')]"
    "chosen b (reg demo_runner) (worker_id demo_config) ''user''"
    by (rule demo_runner_submission)
  obtain rec w0 where w0: "same_worker demo_runner w0"
    "task_at UNIV 256 (frontend demo_config) ''t'' ref10 rec w0" "worker_place UNIV (worker_id demo_config) ref10 [JStr ''t''] w0"
    "awaiting rec (worker_id demo_config) ''user''" "runnable rec" "dget rec ''status'' = JStr ''PENDING''" "linked (frontend demo_config) w0"
    by (rule submitted_assigned [OF demo_runner_ready(1-3) _ _ b demo_runner_ready(4), of "[]" 3 "\<lambda>_. ret 1" "ret ()" False]) simp_all
  have idle: "concurrency demo_config \<le> 1" "\<not> stop_event w0" "''t'' \<notin> seen_task_ids w0" "submitted w0 = []"
    using w0(1) demo_runner_ready(5-7) by (simp_all add: same_worker_def demo_config_sel)
  obtain w1 w2 w3 where steps: "fetch_assigned 256 3 demo_config w0 = (Inr [''t''], w1)"
    "examine 256 3 demo_config ''t'' w1 = (Inr (Launch rec), w2)"
    "execute_and_report demo_proc demo_tempname 256 3 demo_config ''t'' rec w2 = (Inr (), w3)"
    by (rule assigned_task_parts [OF w0(2-7) idle(1-3) demo_runner_ready(10) demo_tempname_fresh, of 3])
  define s where "s = \<lparr>world = w0, todo = [], current = None\<rparr>"
  have "\<not> 1 < concurrency demo_config" using idle(1) by simp
  then have run: "runner_run demo_proc demo_tempname 256 3 demo_config s [Fetch, Launched ''t'', Ran ''t'']
      \<lparr>world = w3, todo = [], current = None\<rparr>"
    using steps idle(2)
      runner_step.fetch [of s 256 3 demo_config "[''t'']" w1 demo_proc demo_tempname]
      runner_step.launch [of "\<lparr>world = w1, todo = [''t''], current = None\<rparr>" "''t''" "[]" 256 3 demo_config rec w2 demo_proc demo_tempname]
      runner_step.run [of "\<lparr>world = w2, todo = [], current = Some (''t'', rec)\<rparr>" "''t''" rec demo_proc demo_tempname 256 3 demo_config "Inr ()" w3]
    by (auto simp: s_def intro!: runner_run.more runner_run.none)
  have iso: "isolated demo_proc" by (simp add: isolated_def keeps_def demo_proc_def memory_def)
  have "current s = None" "submitted (world s) = []" using idle(4) by (simp_all add: s_def)
  from executed_at_most_once [OF run iso this] run show ?thesis by (intro exI conjI) (assumption, auto)
qed

end
