(* ===== verification/RingWide.thy ===== *)
theory RingWide
  imports Liveness
begin

text \<open>
  The two maintenance endpoints of \<open>chord/server.py\<close> that work on the whole ring,
  \<open>/api/tasks/reset-all\<close> and \<open>/api/tasks/clear-completed\<close>: the node that is asked clears its
  own store, then walks over the processes it knows and those they know, asking each one to
  clear its store. Every request is one HTTP attempt; a process that does not answer is reported
  and passed over. \<open>fuel\<close> bounds the addresses taken from the queue of the walk; a ring has at
  most 256 processes, each adds at most nine addresses. The cache of the dashboard is left out.
\<close>

section \<open>The walk\<close>

datatype visit = Cleared "int \<times> int" "string list" | Refused | Unreachable

definition known_addresses :: "nref \<Rightarrow> finger_entry list \<Rightarrow> string list" where
  "known_addresses succ fs = ref_addr succ # List.map finger_addr fs"

text \<open>
  One step of the loop: the request to clear, and, when it is granted, one for the state of the
  process, whose failure is ignored.
\<close>

definition visit_peer :: "(string \<Rightarrow> ('z net_scheme, int \<times> int) act) \<Rightarrow> string \<Rightarrow> ('z net_scheme, visit) act" where
  "visit_peer here a = catch
     (andthen (http_attempt a (andthen (here a) (\<lambda>d. ret (Ok d)))) (\<lambda>r.
      case r of
        Status _ \<Rightarrow> ret Refused
      | Ok d \<Rightarrow>
          andthen (catch (andthen (http_attempt a (h_state a)) (\<lambda>st.
              ret (case st of Ok x \<Rightarrow> known_addresses (st_successor x) (st_fingers x) | Status _ \<Rightarrow> [])))
            (\<lambda>_. ret [])) (\<lambda>new.
          ret (Cleared d new))))
     (\<lambda>_. ret Unreachable)"

definition new_addresses :: "string list \<Rightarrow> string list \<Rightarrow> string list" where
  "new_addresses seen as = filter (\<lambda>a. a \<noteq> [] \<and> a \<notin> set seen) as"

type_synonym peers = "(string \<times> (int \<times> int) option) list"

fun walk ::
  "(string \<Rightarrow> ('z net_scheme, int \<times> int) act) \<Rightarrow> nat \<Rightarrow> string list \<Rightarrow> string list \<Rightarrow> int \<times> int \<Rightarrow> peers
    \<Rightarrow> ('z net_scheme, (int \<times> int) \<times> peers) act" where
  "walk here n seen [] d ps = ret (d, ps)"
| "walk here 0 seen (a # q) d ps = throw OutOfFuel"
| "walk here (Suc n) seen (a # q) d ps =
     (if a \<in> set seen then walk here n seen q d ps
      else
        andthen (visit_peer here a) (\<lambda>v.
        case v of
          Cleared d' new \<Rightarrow>
            walk here n (a # seen) (q @ new_addresses (a # seen) new) (fst d + fst d', snd d + snd d') (ps @ [(a, Some d')])
        | Refused \<Rightarrow> walk here n (a # seen) q d ps
        | Unreachable \<Rightarrow> walk here n (a # seen) q d (ps @ [(a, None)])))"

text \<open>The successor's address is queued unless it is empty, a finger's unless it is this node's.\<close>

definition first_addresses :: "chord_node \<Rightarrow> string list" where
  "first_addresses nd =
     (if ref_addr (successor nd) = [] then [] else [ref_addr (successor nd)]) @
     new_addresses [address nd] (List.map finger_addr (fingers nd))"

definition ring_wide ::
  "nat \<Rightarrow> (string \<Rightarrow> ('z net_scheme, int \<times> int) act) \<Rightarrow> bool \<Rightarrow> string \<Rightarrow> ('z net_scheme, (int \<times> int) \<times> peers option) act" where
  "ring_wide n here local_only me =
     andthen (here me) (\<lambda>d.
     if local_only then ret (d, None)
     else
       andthen (read_node me (\<lambda>nd. (address nd, first_addresses nd))) (\<lambda>(own, q).
       andthen (walk here n [own] q d []) (\<lambda>(d', ps). ret (d', Some ps))))"

section \<open>What a process clears\<close>

definition task_key :: "string \<Rightarrow> bool" where
  "task_key key \<longleftrightarrow> startswith key ''result:'' \<or> startswith key ''worker:''"

text \<open>\<open>try: node.delete(key); count += 1\<close>\<close>

definition try_delete :: "string \<Rightarrow> string \<Rightarrow> int \<Rightarrow> ('z net_scheme, int) act" where
  "try_delete me key count = catch (andthen (on_node me (delete key)) (\<lambda>_. ret (count + 1))) (\<lambda>_. ret count)"

definition clear_key :: "string \<Rightarrow> string \<Rightarrow> int \<times> int \<Rightarrow> ('z net_scheme, int \<times> int) act" where
  "clear_key me key d =
     (if startswith key ''result:'' then andthen (try_delete me key (fst d)) (\<lambda>n. ret (n, snd d))
      else if startswith key ''worker:'' then andthen (try_delete me key (snd d)) (\<lambda>n. ret (fst d, n))
      else ret d)"

definition clear_all_local :: "string \<Rightarrow> ('z net_scheme, int \<times> int) act" where
  "clear_all_local me =
     andthen (read_node me (\<lambda>nd. dkeys (data_store nd))) (\<lambda>keys. for_each keys (clear_key me) (0, 0))"

definition finished :: "jdict \<Rightarrow> bool" where
  "finished d \<longleftrightarrow> dget d ''status'' \<in> {JStr ''SUCCESS'', JStr ''FAILURE'', JNull}"

text \<open>The entry of the task in the list of its worker is removed, which is counted if it does not raise.\<close>

definition unassign :: "nat \<Rightarrow> string \<Rightarrow> int \<Rightarrow> json \<Rightarrow> string \<Rightarrow> int \<Rightarrow> ('z net_scheme, int) act" where
  "unassign fuel me k wid tid count =
     (if truthy wid then
        catch (andthen (case wid of JStr w \<Rightarrow> remove fuel me k w tid | _ \<Rightarrow> throw (ValueError ''worker_id''))
                (\<lambda>_. ret (count + 1)))
          (\<lambda>_. ret count)
      else ret count)"

definition clear_finished ::
  "nat \<Rightarrow> string \<Rightarrow> int \<Rightarrow> string \<Rightarrow> int \<times> int \<Rightarrow> ('z net_scheme, int \<times> int) act" where
  "clear_finished fuel me k key d =
     (if \<not> startswith key ''result:'' then ret d
      else
        andthen (read_node me (get key)) (\<lambda>v.
        case v of
          Some (JObj r) \<Rightarrow>
            if \<not> finished r then ret d
            else
              andthen (unassign fuel me k (dget r ''worker_id'') (drop (length ''result:'') key) (snd d)) (\<lambda>n.
              andthen (try_delete me key (fst d)) (\<lambda>m. ret (m, n)))
        | _ \<Rightarrow> andthen (try_delete me key (fst d)) (\<lambda>m. ret (m, snd d))))"

definition clear_completed_local :: "nat \<Rightarrow> int \<Rightarrow> string \<Rightarrow> ('z net_scheme, int \<times> int) act" where
  "clear_completed_local fuel k me =
     andthen (read_node me (\<lambda>nd. dkeys (data_store nd))) (\<lambda>keys. for_each keys (clear_finished fuel me k) (0, 0))"

section \<open>The endpoints\<close>

text \<open>The answer lists, for every process that was asked, what it cleared, or that it did not answer.\<close>

definition peer_json :: "string \<times> (int \<times> int) option \<Rightarrow> json" where
  "peer_json p = JObj ((''address'', JStr (fst p)) #
     (case snd p of
        Some (d1, d2) \<Rightarrow> [(''ok'', JBool True), (''deleted_ht1'', JInt d1), (''deleted_ht2'', JInt d2), (''peers'', JNull)]
      | None \<Rightarrow> [(''error'', JStr ''request failed'')]))"

definition clear_answer :: "(int \<times> int) \<times> peers option \<Rightarrow> int \<times> json" where
  "clear_answer r =
     (200, JObj [(''ok'', JBool True), (''deleted_ht1'', JInt (fst (fst r))), (''deleted_ht2'', JInt (snd (fst r))),
       (''peers'', case snd r of None \<Rightarrow> JNull | Some ps \<Rightarrow> JList (List.map peer_json ps))])"

definition api_reset_all :: "nat \<Rightarrow> bool \<Rightarrow> string \<Rightarrow> ('z net_scheme, int \<times> json) act" where
  "api_reset_all n local_only me = catch
     (andthen (ring_wide n clear_all_local local_only me) (\<lambda>r. ret (clear_answer r)))
     (\<lambda>_. ret (500, JObj [(''ok'', JBool False)]))"

definition api_clear_completed_tasks :: "nat \<Rightarrow> nat \<Rightarrow> int \<Rightarrow> bool \<Rightarrow> string \<Rightarrow> ('z net_scheme, int \<times> json) act" where
  "api_clear_completed_tasks n fuel k local_only me = catch
     (andthen (ring_wide n (clear_completed_local fuel k) local_only me) (\<lambda>r. ret (clear_answer r)))
     (\<lambda>_. ret (500, JObj [(''ok'', JBool False)]))"

section \<open>The walk reaches every process\<close>

definition perfect :: "'z net_scheme \<Rightarrow> bool" where
  "perfect s \<longleftrightarrow> (\<forall>n a. fault s n a = Delivered)"

definition addresses :: "string set \<Rightarrow> 'z net_scheme \<Rightarrow> string set" where
  "addresses A s = {a. \<exists>nd. member A s a nd}"

text \<open>All members of \<open>X\<close> are clean, and the successor of each is in \<open>Y\<close>.\<close>

definition covered :: "string set \<Rightarrow> (chord_node \<Rightarrow> bool) \<Rightarrow> string set \<Rightarrow> string set \<Rightarrow> 'z net_scheme \<Rightarrow> bool" where
  "covered A clean X Y s \<longleftrightarrow> (\<forall>a \<in> X. \<forall>nd. member A s a nd \<longrightarrow> clean nd \<and> ref_addr (successor nd) \<in> Y)"

lemma covered_mono: "covered A clean X Y s \<Longrightarrow> Y \<subseteq> Y' \<Longrightarrow> covered A clean X Y' s"
  by (auto simp: covered_def)

lemma addresses_frame: "frame s s' \<Longrightarrow> addresses A s' = addresses A s"
  unfolding addresses_def by (metis frame_member frame_sym)

lemma ids_of_addresses: "X \<subseteq> addresses A s \<Longrightarrow> (\<lambda>a. node_id (the (nodes s a))) ` X \<subseteq> ring_ids A s"
  unfolding addresses_def ring_ids_def member_def by (fastforce simp: subset_iff)

lemma addresses_card:
  assumes "stable A s"
  shows "finite (addresses A s)" "card (addresses A s) \<le> 256"
proof -
  let ?id = "\<lambda>a. node_id (the (nodes s a))"
  have inj: "inj_on ?id (addresses A s)"
    using assms by (auto simp: inj_on_def addresses_def stable_def dest: memberD(1)) (metis member_def option.sel)
  have img: "?id ` addresses A s \<subseteq> ring_ids A s" by (rule ids_of_addresses) simp
  have sub: "ring_ids A s \<subseteq> {0..<256}"
    using assms by (auto simp: stable_def ids_set_def is_id_def ring_size_def M_def)
  then have fin: "finite (ring_ids A s)" using finite_subset by blast
  then show "finite (addresses A s)" using inj img finite_imageD finite_subset by blast
  have "card (addresses A s) = card (?id ` addresses A s)" using inj by (simp add: card_image)
  also have "\<dots> \<le> card {0..<256 :: int}" using img sub by (intro card_mono) auto
  finally show "card (addresses A s) \<le> 256" by simp
qed

lemma card_less_one:
  assumes "finite X" and "a \<in> X" and "a \<notin> Y"
  shows "card (X - insert a Y) + 1 \<le> card (X - Y)"
proof -
  have "card (X - Y - {a}) < card (X - Y)" using assms by (intro card_Diff1_less) auto
  moreover have "X - insert a Y = X - Y - {a}" by blast
  ultimately show ?thesis by simp
qed

text \<open>The addresses that a process of a stable ring knows.\<close>

lemma known_members:
  assumes "stable A s" and "member A s a nd"
  shows "set (known_addresses (successor nd) (fingers nd)) \<subseteq> addresses A s" "length (fingers nd) = 8"
    "address nd = a" "ref_addr (successor nd) \<in> addresses A s"
proof -
  have wp: "well_placed A s a nd" using assms by (auto simp: stable_def)
  then have all: "\<forall>f \<in> set (fingers nd). finger_addr f \<in> addresses A s"
    by (auto simp: well_placed_def refers_def addresses_def)
  show len: "length (fingers nd) = 8" and "address nd = a" using wp by (simp_all add: well_placed_def M_def)
  have "fingers nd \<noteq> []" using len by auto
  then show "ref_addr (successor nd) \<in> addresses A s" using all by (simp add: successor_def)
  with all show "set (known_addresses (successor nd) (fingers nd)) \<subseteq> addresses A s" by (auto simp: known_addresses_def)
qed

text \<open>A set of members that holds the successor of each of them is the whole ring.\<close>

lemma covered_all:
  assumes st: "stable A s" and X: "X \<subseteq> addresses A s" "X \<noteq> {}" and cov: "covered A clean X X s"
  shows "X = addresses A s"
proof -
  let ?id = "\<lambda>a. node_id (the (nodes s a))"
  have sub: "?id ` X \<subseteq> ring_ids A s" by (rule ids_of_addresses [OF X(1)])
  have "\<exists>j \<in> ?id ` X. next_of (ring_ids A s) c j" if "c \<in> ?id ` X" for c
  proof -
    from that X(1) obtain a nd where a: "a \<in> X" "member A s a nd" "c = node_id nd"
      by (fastforce simp: addresses_def member_def subset_iff)
    have nxt: "next_of (ring_ids A s) c (ref_id (successor nd))" and refers: "refers A s (successor nd)"
      using st a known_members(2) [OF st a(2)]
      by (auto simp: stable_def well_placed_def successor_def) (metis list.set_sel(1) list.size(3) zero_neq_numeral)
    have "ref_addr (successor nd) \<in> X" using cov a by (auto simp: covered_def)
    moreover have "?id (ref_addr (successor nd)) = ref_id (successor nd)" using refers by (auto simp: refers_def member_def)
    ultimately show ?thesis using nxt by (metis image_eqI)
  qed
  then have ids: "?id ` X = ring_ids A s"
    using st X(2) by (intro next_closed sub) (auto simp: stable_def)
  have "a \<in> X" if "a \<in> addresses A s" for a
  proof -
    from that obtain nd where nd: "member A s a nd" by (auto simp: addresses_def)
    then have "node_id nd \<in> ?id ` X" using ids by (auto simp: ring_ids_def)
    then obtain b nb where "b \<in> X" "member A s b nb" "node_id nb = node_id nd" using X(1) by (auto simp: addresses_def member_def)
    then show ?thesis using st nd unfolding stable_def by blast
  qed
  then show ?thesis using X(1) by blast
qed

text \<open>
  The interface of what a process clears. \<open>R\<close> relates a state to those that clearing may lead
  to: the ring stays as it is and clean processes stay clean. In a stable ring the clearing of a
  process ends and makes the process clean.
\<close>

locale local_clear =
  fixes A :: "string set" and here :: "nat \<Rightarrow> string \<Rightarrow> ('z net_scheme, int \<times> int) act" and clean :: "chord_node \<Rightarrow> bool"
    and R :: "'z net_scheme \<Rightarrow> 'z net_scheme \<Rightarrow> bool"
  assumes R_later: "R s (later m c s)"
    and R_trans: "R s s' \<Longrightarrow> R s' s'' \<Longrightarrow> R s s''"
    and R_frame: "R s s' \<Longrightarrow> frame s s'"
    and R_clean: "R s s' \<Longrightarrow> nodes s b = Some n \<Longrightarrow> nodes s' b = Some n' \<Longrightarrow> clean n \<Longrightarrow> clean n'"
    and here_ok: "stable A s \<Longrightarrow> 256 \<le> fuel \<Longrightarrow> member A s a nd \<Longrightarrow> \<exists>d s'. here fuel a s = (Inr d, s') \<and> R s s' \<and>
      (\<forall>n. nodes s' a = Some n \<longrightarrow> clean n)"
begin

lemma R_refl: "R s s"
  using R_later [of s 0 0] by (simp add: later_0)

lemma visit_ok:
  assumes st: "stable A s" and net: "perfect s" and fuel: "256 \<le> fuel" and a: "member A s a nd"
  obtains d s' where "visit_peer (here fuel) a s = (Inr (Cleared d (known_addresses (successor nd) (fingers nd))), s')" "R s s'"
    "\<forall>n. nodes s' a = Some n \<longrightarrow> clean n"
proof -
  have "stable A (later 1 0 s)" "member A (later 1 0 s) a nd" using st a by (simp_all add: stable_later)
  from here_ok [OF this(1) fuel this(2)] obtain d s1 where
    run: "here fuel a (later 1 0 s) = (Inr d, s1)" "R (later 1 0 s) s1" and clean: "\<forall>n. nodes s1 a = Some n \<longrightarrow> clean n"
    by auto
  have R: "R s s1" by (rule R_trans [OF R_later run(2)])
  then have fr: "frame s s1" by (rule R_frame)
  obtain n1 where n1: "nodes s1 a = Some n1" "same_place nd n1" by (rule frame_node [OF fr memberD(1) [OF a]])
  have one: "http_attempt a (andthen (here fuel a) (\<lambda>d. ret (Ok d))) s = (Inr (Ok d), s1)"
    using run(1) net memberD(1) [OF a]
    by (simp add: http_attempt_def Let_def perfect_def serve_def later_def act_simps)
  have "fault s1 = fault s" using fr by (simp add: frame_def)
  then have two: "http_attempt a (h_state a) s1 = (Inr (Ok (state n1)), later 1 0 s1)"
    using net n1(1) by (simp add: http_attempt_def Let_def perfect_def serve_def later_def act_simps h_state_def read_node_def on_node_def set_node_def fun_upd_idem)
  have "known_addresses (successor n1) (fingers n1) = known_addresses (successor nd) (fingers nd)"
    using n1(2) by (simp add: same_place_def successor_def)
  then have "visit_peer (here fuel) a s = (Inr (Cleared d (known_addresses (successor nd) (fingers nd))), later 1 0 s1)"
    by (simp add: visit_peer_def run_catch run_andthen one two run_ret state_def)
  with R_trans [OF R R_later] clean show thesis by (intro that [of d "later 1 0 s1"]) auto
qed

text \<open>The visited processes stay clean, and their successors visited or queued.\<close>

lemma covered_visit:
  assumes cov: "covered A clean (set seen) (set seen \<union> set (a # q)) s" and R: "R s s'" and a: "member A s a nd"
    and empty: "[] \<notin> A" and st: "stable A s" and clean: "\<forall>n. nodes s' a = Some n \<longrightarrow> clean n"
    and L: "L = new_addresses (a # seen) (known_addresses (successor nd) (fingers nd))"
  shows "covered A clean (set (a # seen)) (set (a # seen) \<union> set (q @ L)) s'"
  unfolding covered_def
proof (intro ballI allI impI)
  fix b n' assume b: "b \<in> set (a # seen)" and n': "member A s' b n'"
  obtain n where n: "member A s b n" "same_place n' n" using frame_member [OF frame_sym [OF R_frame [OF R]] n'] by blast
  have succ: "successor n' = successor n" using n(2) by (simp add: same_place_def successor_def)
  have "ref_addr (successor n) \<noteq> []"
    using known_members(4) [OF st n(1)] empty by (auto simp: addresses_def member_def)
  then have "b = a \<Longrightarrow> ref_addr (successor n) \<in> set (a # seen) \<union> set L"
    using n(1) a by (auto simp: L new_addresses_def known_addresses_def dest: member_inj)
  moreover have "b \<noteq> a \<Longrightarrow> clean n \<and> ref_addr (successor n) \<in> set seen \<union> set (a # q)"
    using cov n(1) b by (auto simp: covered_def)
  ultimately show "clean n' \<and> ref_addr (successor n') \<in> set (a # seen) \<union> set (q @ L)"
    using clean R_clean [OF R memberD(1) [OF n(1)] memberD(1) [OF n']] n' by (cases "b = a") (auto simp: succ dest!: memberD(1))
qed

lemma walk_ok:
  assumes "stable A s" and "perfect s" and fuel: "256 \<le> fuel" and empty: "[] \<notin> A"
    and "set q \<subseteq> addresses A s" and "set seen \<subseteq> addresses A s"
    and "covered A clean (set seen) (set seen \<union> set q) s"
    and "length q + 9 * card (addresses A s - set seen) \<le> n"
  shows "\<exists>x s' X. walk (here fuel) n seen q d ps s = (Inr x, s') \<and> R s s' \<and> set seen \<subseteq> X \<and> X \<subseteq> addresses A s \<and>
    covered A clean X X s'"
  using assms(1,2,5-)
proof (induction n arbitrary: seen q d ps s)
  case 0
  then show ?case by (intro exI [of _ "(d, ps)"] exI [of _ s] exI [of _ "set seen"]) (simp add: act_simps R_refl)
next
  case (Suc n)
  note prems = Suc.prems
  show ?case
  proof (cases q)
    case Nil
    then show ?thesis
      using prems by (intro exI [of _ "(d, ps)"] exI [of _ s] exI [of _ "set seen"]) (simp add: act_simps R_refl)
  next
    case (Cons a q')
    show ?thesis
    proof (cases "a \<in> set seen")
      case True
      then have "covered A clean (set seen) (set seen \<union> set q') s" using prems(5) Cons by (simp add: insert_absorb)
      from Suc.IH [OF prems(1,2) _ prems(4) this] prems(3,6) Cons show ?thesis using True by simp
    next
      case False
      obtain nd where a: "member A s a nd" using prems(3) Cons by (auto simp: addresses_def)
      obtain d' s1 where run: "visit_peer (here fuel) a s = (Inr (Cleared d' (known_addresses (successor nd) (fingers nd))), s1)"
        and R: "R s s1" and clean: "\<forall>n. nodes s1 a = Some n \<longrightarrow> clean n"
        by (rule visit_ok [OF prems(1,2) fuel a])
      note fr = R_frame [OF R]
      define L where "L = new_addresses (a # seen) (known_addresses (successor nd) (fingers nd))"
      have adr: "addresses A s1 = addresses A s" by (rule addresses_frame [OF fr])
      have "set L \<subseteq> set (known_addresses (successor nd) (fingers nd))"
        "length L \<le> length (known_addresses (successor nd) (fingers nd))"
        by (simp_all add: L_def new_addresses_def)
      then have L: "set L \<subseteq> addresses A s" "length L \<le> 9"
        using known_members(1,2) [OF prems(1) a] by (auto simp: known_addresses_def)
      have "a \<in> addresses A s" using a by (auto simp: addresses_def)
      moreover from this have "card (addresses A s - set (a # seen)) + 1 \<le> card (addresses A s - set seen)"
        using card_less_one [OF addresses_card(1) [OF prems(1)] _ False] by (simp only: list.set)
      ultimately have "length (q' @ L) + 9 * card (addresses A s1 - set (a # seen)) \<le> n" and "set (a # seen) \<subseteq> addresses A s1"
        using prems(4,6) Cons L(2) by (simp_all add: adr)
      moreover have "stable A s1" "perfect s1"
        using frame_stable_imp [OF fr prems(1)] prems(2) fr by (simp_all add: perfect_def frame_def)
      moreover have "set (q' @ L) \<subseteq> addresses A s1" using prems(3) Cons L(1) by (simp add: adr)
      moreover have "covered A clean (set (a # seen)) (set (a # seen) \<union> set (q' @ L)) s1"
        by (rule covered_visit [OF _ R a empty prems(1) clean L_def]) (use prems(5) Cons in simp)
      ultimately obtain x s' X where "walk (here fuel) n (a # seen) (q' @ L) (fst d + fst d', snd d + snd d') (ps @ [(a, Some d')]) s1 = (Inr x, s')"
        "R s1 s'" "set (a # seen) \<subseteq> X" "X \<subseteq> addresses A s" "covered A clean X X s'"
        using Suc.IH [of s1 "q' @ L" "a # seen"] adr by metis
      moreover from this have "R s s'" using R R_trans by blast
      ultimately show ?thesis
        using run False Cons by (intro exI [of _ x] exI [of _ s'] exI [of _ X]) (simp add: act_simps L_def)
    qed
  qed
qed

text \<open>The whole endpoint: afterwards every process of the ring is clean.\<close>

lemma ring_wide_ok:
  assumes st: "stable A s" and net: "perfect s" and fuel: "256 \<le> fuel" and empty: "[] \<notin> A" and me: "member A s me nd"
    and n: "2313 \<le> n"
  obtains x s' where "ring_wide n (here fuel) False me s = (Inr x, s')" "R s s'" "snd x \<noteq> None"
    "\<forall>a nd. member A s' a nd \<longrightarrow> clean nd"
proof -
  obtain d s1 where run: "here fuel me s = (Inr d, s1)" "R s s1" "\<forall>n. nodes s1 me = Some n \<longrightarrow> clean n"
    using here_ok [OF st fuel me] by blast
  note fr = R_frame [OF run(2)]
  obtain n1 where n1: "member A s1 me n1" "same_place nd n1" by (rule frame_member [OF fr me])
  have st1: "stable A s1" "perfect s1"
    using frame_stable_imp [OF fr st] net fr by (simp_all add: perfect_def frame_def)
  have own: "address n1 = me" "ref_addr (successor n1) \<in> addresses A s1"
    "set (known_addresses (successor n1) (fingers n1)) \<subseteq> addresses A s1" "length (fingers n1) = 8"
    using known_members [OF st1(1) n1(1)] by simp_all
  then have "ref_addr (successor n1) \<noteq> []" using empty by (auto simp: addresses_def member_def)
  then have cov: "covered A clean (set [me]) (set [me] \<union> set (first_addresses n1)) s1"
    using run(3) n1(1) by (auto simp: covered_def first_addresses_def dest: memberD(1) member_inj)
  have q: "set (first_addresses n1) \<subseteq> addresses A s1"
    using own by (auto simp: first_addresses_def new_addresses_def known_addresses_def)
  have len: "length (first_addresses n1) \<le> 9"
    using length_filter_le [of "\<lambda>a. a \<noteq> [] \<and> a \<notin> set [address n1]" "List.map finger_addr (fingers n1)"] own(4)
    by (simp add: first_addresses_def new_addresses_def)
  have "card (addresses A s1 - set [me]) \<le> 256"
    using addresses_card [OF st1(1)] by (meson Diff_subset card_mono order_trans)
  then have "length (first_addresses n1) + 9 * card (addresses A s1 - set [me]) \<le> n" using len n by linarith
  moreover have "set [me] \<subseteq> addresses A s1" using n1(1) by (auto simp: addresses_def)
  ultimately obtain x s' X where
    walk: "walk (here fuel) n [me] (first_addresses n1) d [] s1 = (Inr x, s')" "R s1 s'" "set [me] \<subseteq> X" "X \<subseteq> addresses A s1"
      "covered A clean X X s'"
    using walk_ok [OF st1 fuel empty q _ cov, of n d "[]"] by blast
  have adr: "addresses A s' = addresses A s1" by (rule addresses_frame [OF R_frame [OF walk(2)]])
  have "X = addresses A s'"
    by (rule covered_all [OF frame_stable_imp [OF R_frame [OF walk(2)] st1(1)] _ _ walk(5)]) (use walk(3,4) adr in auto)
  then have "\<forall>a nd. member A s' a nd \<longrightarrow> clean nd" using walk(5) by (auto simp: covered_def addresses_def)
  moreover have "ring_wide n (here fuel) False me s = (Inr (fst x, Some (snd x)), s')"
    using run(1) walk(1) memberD(1) [OF n1(1)] own(1)
    by (simp add: ring_wide_def run_andthen run_ret read_node_def on_node_def set_node_def fun_upd_idem split: prod.split)
  ultimately show thesis using R_trans [OF run(2) walk(2)] by (intro that) auto
qed

end

section \<open>Clearing everything\<close>

definition no_tasks :: "chord_node \<Rightarrow> bool" where
  "no_tasks nd \<longleftrightarrow> (\<forall>key. task_key key \<longrightarrow> map_of (data_store nd) key = None)"

lemma try_delete_run:
  assumes "nodes s a = Some nd"
  shows "try_delete a key n s = (Inr (n + 1), set_node a (snd (delete key nd)) s)"
  using assms by (simp add: try_delete_def on_node_def act_simps)

lemma clear_key_run:
  assumes "nodes s a = Some nd"
  shows "\<exists>d'. clear_key a key d s = (Inr d', if task_key key then set_node a (snd (delete key nd)) s else s)"
  using try_delete_run [OF assms] by (auto simp: clear_key_def task_key_def act_simps)

lemma clear_keys_run:
  assumes "nodes s a = Some nd"
  shows "\<exists>d' nd'. for_each keys (clear_key a) d s = (Inr d', set_node a nd' s) \<and> same_place nd nd' \<and>
    (\<forall>k. map_of (data_store nd') k = (if task_key k \<and> k \<in> set keys then None else map_of (data_store nd) k))"
  using assms
proof (induction keys arbitrary: d s nd)
  case Nil
  then show ?case
    by (intro exI [of _ d] exI [of _ nd]) (simp add: act_simps set_node_def fun_upd_idem)
next
  case (Cons key keys)
  let ?nd = "if task_key key then snd (delete key nd) else nd"
  have same: "set_node a nd s = s" using Cons.prems by (simp add: set_node_def fun_upd_idem)
  obtain d1 where d1: "clear_key a key d s = (Inr d1, set_node a ?nd s)"
    using clear_key_run [OF Cons.prems, of key d] same by auto
  obtain d' nd' where rest: "for_each keys (clear_key a) d1 (set_node a ?nd s) = (Inr d', set_node a nd' (set_node a ?nd s))"
    "same_place ?nd nd'"
    "\<forall>k. map_of (data_store nd') k = (if task_key k \<and> k \<in> set keys then None else map_of (data_store ?nd) k)"
    using Cons.IH [of "set_node a ?nd s" ?nd d1] by auto
  have "same_place nd ?nd" using delete_place by simp
  with rest(2) have "same_place nd nd'" by (rule same_place_trans [rotated])
  with d1 rest(1,3) show ?case
    by (intro exI [of _ d'] exI [of _ nd']) (auto simp: act_simps delete_data)
qed

text \<open>The same ring; no task entry appears, and every other entry stays.\<close>

definition wiped :: "'z net_scheme \<Rightarrow> 'z net_scheme \<Rightarrow> bool" where
  "wiped s0 s \<longleftrightarrow> frame s0 s \<and> (\<forall>a n n' key. nodes s0 a = Some n \<longrightarrow> nodes s a = Some n' \<longrightarrow>
     map_of (data_store n') key \<noteq> map_of (data_store n) key \<longrightarrow> task_key key \<and> map_of (data_store n') key = None)"

lemma wiped_trans:
  assumes ab: "wiped a b" and bc: "wiped b c"
  shows "wiped a c"
  unfolding wiped_def
proof (intro conjI allI impI)
  show "frame a c" using ab bc by (auto simp: wiped_def intro: frame_trans)
  fix x n n' key
  assume x: "nodes a x = Some n" "nodes c x = Some n'" "map_of (data_store n') key \<noteq> map_of (data_store n) key"
  obtain m where "nodes b x = Some m" using ab x(1) by (auto simp: wiped_def elim: frame_node)
  with ab bc x show "task_key key" "map_of (data_store n') key = None" unfolding wiped_def by metis+
qed

interpretation reset: local_clear A "\<lambda>_. clear_all_local" no_tasks wiped
  for A
proof
  fix s :: "'z net_scheme" and fuel :: nat and a nd
  assume "member A s a nd"
  then have nd: "nodes s a = Some nd" by (rule memberD)
  obtain d nd' where run: "for_each (dkeys (data_store nd)) (clear_key a) (0, 0) s = (Inr d, set_node a nd' s)" "same_place nd nd'"
    and gone: "\<forall>k. map_of (data_store nd') k = (if task_key k \<and> k \<in> set (dkeys (data_store nd)) then None else map_of (data_store nd) k)"
    using clear_keys_run [OF nd] by blast
  have "k \<notin> set (dkeys (data_store nd)) \<Longrightarrow> map_of (data_store nd) k = None" for k
    by (simp add: dkeys_def map_of_eq_None_iff)
  then have clean: "no_tasks nd'" using gone by (auto simp: no_tasks_def)
  have "clear_all_local a s = (Inr d, set_node a nd' s)"
    using nd run(1) by (simp add: clear_all_local_def run_andthen read_node_def on_node_def set_node_def fun_upd_idem)
  moreover have "wiped s (set_node a nd' s)"
    using frame_set_node [OF nd run(2)] gone nd by (auto simp: wiped_def set_node_def split: if_splits)
  ultimately show "\<exists>d s'. clear_all_local a s = (Inr d, s') \<and> wiped s s' \<and> (\<forall>n. nodes s' a = Some n \<longrightarrow> no_tasks n)"
    using clean by (auto simp: set_node_def)
next
  fix s s' :: "'z net_scheme" and b n n'
  assume "wiped s s'" "nodes s b = Some n" "nodes s' b = Some n'" "no_tasks n"
  then show "no_tasks n'" unfolding wiped_def no_tasks_def by metis
next
  fix s :: "'z net_scheme" and m c
  show "wiped s (later m c s)" by (simp add: wiped_def)
next
  fix s s' s'' :: "'z net_scheme"
  assume "wiped s s'" "wiped s' s''"
  then show "wiped s s''" by (rule wiped_trans)
qed (simp add: wiped_def)

section \<open>Clearing finished tasks\<close>

definition unfinished :: "string \<Rightarrow> chord_node \<Rightarrow> bool" where
  "unfinished key nd \<longleftrightarrow> (startswith key ''result:'' \<longrightarrow>
     (\<forall>v. map_of (data_store nd) key = Some v \<longrightarrow> (\<exists>d. v = JObj d \<and> \<not> finished d)))"

definition only_unfinished :: "chord_node \<Rightarrow> bool" where
  "only_unfinished nd \<longleftrightarrow> (\<forall>key. unfinished key nd)"

text \<open>Result records of unfinished tasks stay, and no record appears or changes.\<close>

definition fewer :: "'z net_scheme \<Rightarrow> 'z net_scheme \<Rightarrow> bool" where
  "fewer s0 s \<longleftrightarrow> (\<forall>a n n' key. nodes s0 a = Some n \<longrightarrow> nodes s a = Some n' \<longrightarrow> startswith key ''result:'' \<longrightarrow>
     map_of (data_store n') key \<noteq> map_of (data_store n) key \<longrightarrow>
     map_of (data_store n') key = None \<and> \<not> (\<exists>d. map_of (data_store n) key = Some (JObj d) \<and> \<not> finished d))"

lemma fewer_refl [simp]: "fewer s s"
  by (simp add: fewer_def)

lemma fewer_unfinished: "fewer s0 s \<Longrightarrow> nodes s0 a = Some n \<Longrightarrow> nodes s a = Some n' \<Longrightarrow> unfinished key n \<Longrightarrow> unfinished key n'"
  unfolding fewer_def unfinished_def by (metis option.discI)

text \<open>A state with the same ring and fewer results.\<close>

definition cleared :: "'z net_scheme \<Rightarrow> 'z net_scheme \<Rightarrow> bool" where
  "cleared s0 s \<longleftrightarrow> frame s0 s \<and> fewer s0 s"

lemma cleared_refl [simp]: "cleared s s"
  by (simp add: cleared_def)

lemma cleared_trans: "cleared a b \<Longrightarrow> cleared b c \<Longrightarrow> cleared a c"
proof -
  assume ab: "cleared a b" and bc: "cleared b c"
  have "fewer a c"
    unfolding fewer_def
  proof (intro allI impI)
    fix x n n' key
    assume x: "nodes a x = Some n" "nodes c x = Some n'" "startswith key ''result:''" "map_of (data_store n') key \<noteq> map_of (data_store n) key"
    from ab x(1) obtain m where "nodes b x = Some m" by (auto simp: cleared_def elim: frame_node)
    with ab bc x show "map_of (data_store n') key = None \<and> \<not> (\<exists>d. map_of (data_store n) key = Some (JObj d) \<and> \<not> finished d)"
      unfolding cleared_def fewer_def by metis
  qed
  with ab bc show ?thesis by (auto simp: cleared_def intro: frame_trans)
qed

interpretation worker_keys: data_invariant "\<lambda>key _. \<not> startswith key ''result:''" "cleared s0"
  for s0 :: "'z net_scheme"
proof
  fix s :: "'z net_scheme" and m c
  assume "cleared s0 s"
  then show "cleared s0 (later m c s)" by (rule cleared_trans) (simp add: cleared_def fewer_def)
next
  fix s :: "'z net_scheme" and a nd key and v :: json
  assume c: "cleared s0 s" and nd: "nodes s a = Some nd" and key: "\<not> startswith key ''result:''"
  have "fewer s (set_node a (snd (put key v nd)) s)" "fewer s (set_node a (snd (delete key nd)) s)"
    using nd key by (auto simp: fewer_def set_node_def put_data delete_data split: if_splits)
  then have "cleared s (set_node a (snd (put key v nd)) s)" "cleared s (set_node a (snd (delete key nd)) s)"
    using nd by (simp_all add: cleared_def frame_set_node put_place delete_place)
  then show "cleared s0 (set_node a (snd (put key v nd)) s)" "cleared s0 (set_node a (snd (delete key nd)) s)"
    using cleared_trans [OF c] by blast+
qed

lemma unassign_ok:
  assumes "serves A s fuel a"
  shows "\<exists>n' s'. unassign fuel a k wid t n s = (Inr n', s') \<and> cleared s s'"
proof (cases "truthy wid \<and> (\<exists>w. wid = JStr w)")
  case True
  then obtain w where w: "wid = JStr w" "truthy wid" by blast
  obtain r s' where run: "remove fuel a k w t s = (r, s')" by fastforce
  have "r \<noteq> Inl OutOfFuel" using totalD [OF ends_remove [OF assms] frame_refl run] by simp
  moreover have "keeps (cleared s) (remove fuel a k w t)" by (rule worker_keys.keeps_remove) simp_all
  from keeps_run [OF this _ run] have "cleared s s'" by simp
  ultimately show ?thesis
    using run w by (cases r) (simp_all add: unassign_def run_catch run_andthen run_ret)
next
  case False
  then show ?thesis
    by (cases wid) (auto simp: unassign_def act_simps)
qed

text \<open>One key: afterwards it holds no record or that of an unfinished task.\<close>

lemma clear_finished_ok:
  assumes serves: "serves A s fuel a"
  shows "\<exists>d' s'. clear_finished fuel a k key d s = (Inr d', s') \<and> cleared s s' \<and> (\<forall>n. nodes s' a = Some n \<longrightarrow> unfinished key n)"
proof -
  obtain nd where nd: "nodes s a = Some nd" using serves by (auto simp: serves_def dest: memberD(1))
  have same: "set_node a nd s = s" using nd by (simp add: set_node_def fun_upd_idem)
  have del: "\<exists>s2. try_delete a key n s1 = (Inr (n + 1), s2) \<and> cleared s s2 \<and> (\<forall>n. nodes s2 a = Some n \<longrightarrow> unfinished key n)"
    if "cleared s s1" and "\<not> (\<exists>d. map_of (data_store nd) key = Some (JObj d) \<and> \<not> finished d)" for s1 n
  proof -
    from that(1) nd obtain n1 where n1: "nodes s1 a = Some n1" by (auto simp: cleared_def elim: frame_node)
    let ?s2 = "set_node a (snd (delete key n1)) s1"
    have "frame s ?s2"
      using that(1) frame_set_node [OF n1 delete_place] by (auto simp: cleared_def intro: frame_trans)
    moreover have "fewer s ?s2"
      using that nd n1 by (auto simp: cleared_def fewer_def set_node_def delete_data)
    ultimately show ?thesis
      using try_delete_run [OF n1] by (auto simp: cleared_def set_node_def unfinished_def delete_data)
  qed
  show ?thesis
  proof (cases "startswith key ''result:'' \<and> \<not> (\<exists>r. get key nd = Some (JObj r) \<and> \<not> finished r)")
    case False
    then show ?thesis
      using nd same by (auto simp: clear_finished_def act_simps read_node_def on_node_def unfinished_def get_def split: option.splits if_splits)
  next
    case True
    show ?thesis
    proof (cases "\<exists>r. get key nd = Some (JObj r)")
      case r: True
      then obtain r where r: "get key nd = Some (JObj r)" "finished r" using True by blast
      obtain n s1 where "unassign fuel a k (dget r ''worker_id'') (drop (length ''result:'') key) (snd d) s = (Inr n, s1)" "cleared s s1"
        using unassign_ok [OF serves] by blast
      moreover have "map_of (data_store nd) key = Some (JObj r)" using r(1) by (auto simp: get_def split: option.splits if_splits)
      ultimately show ?thesis
        using del [of s1 "fst d"] r True nd same
        by (auto simp: clear_finished_def run_andthen run_ret read_node_def on_node_def)
    next
      case False
      then have "\<not> (\<exists>d. map_of (data_store nd) key = Some (JObj d))" by (auto simp: get_def)
      with False del [of s "fst d"] True nd same show ?thesis
        by (auto simp: clear_finished_def run_andthen run_ret read_node_def on_node_def split: option.split json.split)
    qed
  qed
qed

lemma clear_finished_all:
  assumes "serves A s fuel a"
  shows "\<exists>d' s'. for_each keys (clear_finished fuel a k) d s = (Inr d', s') \<and> cleared s s' \<and>
    (\<forall>n. nodes s' a = Some n \<longrightarrow> (\<forall>key \<in> set keys. unfinished key n))"
  using assms
proof (induction keys arbitrary: d s)
  case Nil
  then show ?case by (auto simp: act_simps)
next
  case (Cons key keys)
  obtain d1 s1 where one: "clear_finished fuel a k key d s = (Inr d1, s1)" "cleared s s1"
    "\<forall>n. nodes s1 a = Some n \<longrightarrow> unfinished key n"
    using clear_finished_ok [OF Cons.prems] by blast
  have fr: "frame s s1" using one(2) by (simp add: cleared_def)
  have "serves A s1 fuel a"
    using Cons.prems frame_stable_imp [OF fr] by (auto simp: serves_def elim: frame_member [OF fr])
  from Cons.IH [OF this] obtain d' s' where rest: "for_each keys (clear_finished fuel a k) d1 s1 = (Inr d', s')" "cleared s1 s'"
    "\<forall>n. nodes s' a = Some n \<longrightarrow> (\<forall>key \<in> set keys. unfinished key n)" by blast
  have "unfinished key n" if n: "nodes s' a = Some n" for n
  proof -
    have "frame s1 s'" using rest(2) by (simp add: cleared_def)
    from frame_node [OF frame_sym [OF this] n] obtain n1 where "nodes s1 a = Some n1" by blast
    with one(3) rest(2) n show ?thesis by (auto simp: cleared_def intro: fewer_unfinished)
  qed
  with one rest show ?case
    by (auto simp: act_simps intro: cleared_trans)
qed

interpretation completed: local_clear A "\<lambda>fuel. clear_completed_local fuel k" only_unfinished cleared
  for A k
proof
  fix s :: "'z net_scheme" and fuel :: nat and a nd
  assume st: "stable A s" and fuel: "256 \<le> fuel" and a: "member A s a nd"
  then have "serves A s fuel a" by (auto simp: serves_def)
  from clear_finished_all [OF this, of "dkeys (data_store nd)" k "(0, 0)"] obtain d s' where
    run: "for_each (dkeys (data_store nd)) (clear_finished fuel a k) (0, 0) s = (Inr d, s')" "cleared s s'"
      "\<forall>n. nodes s' a = Some n \<longrightarrow> (\<forall>key \<in> set (dkeys (data_store nd)). unfinished key n)" by blast
  have nd: "nodes s a = Some nd" using a by (rule memberD)
  have "only_unfinished n" if n: "nodes s' a = Some n" for n
    unfolding only_unfinished_def
  proof
    fix key
    show "unfinished key n"
    proof (cases "key \<in> set (dkeys (data_store nd))")
      case True
      then show ?thesis using run(3) n by blast
    next
      case False
      then have "map_of (data_store nd) key = None" by (simp add: dkeys_def map_of_eq_None_iff)
      then have "unfinished key nd" by (simp add: unfinished_def)
      with run(2) nd n show ?thesis by (auto simp: cleared_def intro: fewer_unfinished)
    qed
  qed
  moreover have "clear_completed_local fuel k a s = (Inr d, s')"
    using nd run(1) by (simp add: clear_completed_local_def run_andthen read_node_def on_node_def set_node_def fun_upd_idem)
  ultimately show "\<exists>d s'. clear_completed_local fuel k a s = (Inr d, s') \<and> cleared s s' \<and>
      (\<forall>n. nodes s' a = Some n \<longrightarrow> only_unfinished n)"
    using run(2) by blast
next
  fix s s' :: "'z net_scheme" and b n n'
  assume "cleared s s'" "nodes s b = Some n" "nodes s' b = Some n'" "only_unfinished n"
  then show "only_unfinished n'" unfolding only_unfinished_def cleared_def by (blast intro: fewer_unfinished)
next
  fix s s' s'' :: "'z net_scheme"
  assume "cleared s s'" "cleared s' s''"
  then show "cleared s s''" by (rule cleared_trans)
qed (simp_all add: cleared_def fewer_def)

section \<open>Properties\<close>

text \<open>
  A reset reaches the whole ring: in a stable ring of which no process has an empty address,
  over a network that delivers every request, a reset through any member is answered by 200;
  afterwards no process stores a result record or a list of tasks, and every other entry
  of every process is as it was.
\<close>

theorem reset_all_wipes:
  assumes "stable A s" and "perfect s" and "[] \<notin> A" and "member A s me nd" and "2313 \<le> n"
  shows "\<exists>body s'. api_reset_all n False me s = (Inr (200, body), s') \<and> frame s s' \<and>
    (\<forall>a na na'. member A s a na \<longrightarrow> nodes s' a = Some na' \<longrightarrow>
      (\<forall>key. map_of (data_store na') key = (if task_key key then None else map_of (data_store na) key)))"
proof -
  obtain x s' where run: "ring_wide n clear_all_local False me s = (Inr x, s')" "wiped s s'"
    and peers: "snd x \<noteq> None" and clean: "\<forall>a nd. member A s' a nd \<longrightarrow> no_tasks nd"
    by (rule reset.ring_wide_ok [OF assms(1,2) order_refl assms(3-5)])
  have kept: "map_of (data_store na') key = (if task_key key then None else map_of (data_store na) key)"
    if na: "member A s a na" and na': "nodes s' a = Some na'" for a na na' key
  proof -
    have "no_tasks na'" using clean na na' by (auto simp: member_def)
    moreover have "map_of (data_store na') key \<noteq> map_of (data_store na) key \<longrightarrow> task_key key"
      using run(2) memberD(1) [OF na] na' unfolding wiped_def by blast
    ultimately show ?thesis by (auto simp: no_tasks_def)
  qed
  have "api_reset_all n False me s = (Inr (200, snd (clear_answer x)), s')"
    by (simp add: api_reset_all_def run_catch run_andthen run_ret run(1) clear_answer_def)
  moreover have "frame s s'" using run(2) by (simp add: wiped_def)
  ultimately show ?thesis using kept by blast
qed

text \<open>
  C34. Clearing the finished tasks reaches the whole ring and spares the others: in a stable ring
  of which no process has an empty address, over a network that delivers every request, a request
  through any member is answered by 200; afterwards the result records of every process are
  exactly those it had of tasks that are neither finished nor without a status.
\<close>

theorem clear_completed_spares_unfinished:
  assumes "stable A s" and "perfect s" and "256 \<le> fuel" and "[] \<notin> A" and "member A s me nd" and "2313 \<le> n"
  shows "\<exists>body s'. api_clear_completed_tasks n fuel k False me s = (Inr (200, body), s') \<and> frame s s' \<and>
    (\<forall>a na na' key v. member A s a na \<longrightarrow> nodes s' a = Some na' \<longrightarrow> startswith key ''result:'' \<longrightarrow>
      (map_of (data_store na') key = Some v \<longleftrightarrow>
        map_of (data_store na) key = Some v \<and> (\<exists>d. v = JObj d \<and> \<not> finished d)))"
proof -
  obtain x s' where run: "ring_wide n (clear_completed_local fuel k) False me s = (Inr x, s')" "cleared s s'"
    and peers: "snd x \<noteq> None" and clean: "\<forall>a nd. member A s' a nd \<longrightarrow> only_unfinished nd"
    by (rule completed.ring_wide_ok [OF assms])
  have kept: "map_of (data_store na') key = Some v \<longleftrightarrow> map_of (data_store na) key = Some v \<and> (\<exists>d. v = JObj d \<and> \<not> finished d)"
    if na: "member A s a na" and na': "nodes s' a = Some na'" and key: "startswith key ''result:''" for a na na' key v
  proof -
    have "unfinished key na'" using clean na na' by (auto simp: member_def only_unfinished_def)
    moreover have "map_of (data_store na') key = map_of (data_store na) key \<or>
        map_of (data_store na') key = None \<and> \<not> (\<exists>d. map_of (data_store na) key = Some (JObj d) \<and> \<not> finished d)"
      using run(2) memberD(1) [OF na] na' key unfolding cleared_def fewer_def by blast
    ultimately show ?thesis using key by (auto simp: unfinished_def)
  qed
  have "api_clear_completed_tasks n fuel k False me s = (Inr (200, snd (clear_answer x)), s')"
    by (simp add: api_clear_completed_tasks_def run_catch run_andthen run_ret run(1) clear_answer_def)
  moreover have "frame s s'" using run(2) by (simp add: cleared_def)
  ultimately show ?thesis using kept by blast
qed

text \<open>
  Two processes; the second holds a finished task, a pending one, a list of tasks and a value
  that is none of these.
\<close>

definition demo_stored :: jdict where
  "demo_stored = [(''result:t'', JObj [(''status'', JStr ''SUCCESS'')]), (''result:u'', JObj [(''status'', JStr ''PENDING'')]),
     (''worker:w'', JObj []), (''note'', JInt 1)]"

definition demo_tasks :: net where
  "demo_tasks = set_node ''b'' (demo100\<lparr>data_store := demo_stored\<rparr>) demo_net"

lemma demo_tasks_ready:
  "stable {''a'', ''b''} demo_tasks" "perfect demo_tasks" "[] \<notin> {''a'', ''b''}" "member {''a'', ''b''} demo_tasks ''a'' demo10"
  "member {''a'', ''b''} demo_tasks ''b'' (demo100\<lparr>data_store := demo_stored\<rparr>)"
proof -
  have "frame demo_net demo_tasks"
    unfolding demo_tasks_def by (rule frame_set_node [of _ _ demo100]) (simp_all add: demo_net_def)
  then have st: "stable UNIV demo_tasks" by (rule frame_stable_imp [OF _ demo_net_stable])
  have "member {''a'', ''b''} demo_tasks = member UNIV demo_tasks"
    by (auto simp: fun_eq_iff member_def demo_tasks_def set_node_def demo_net_def)
  from stable_cong [OF this] st show "stable {''a'', ''b''} demo_tasks" by simp
  show "perfect demo_tasks" "[] \<notin> {''a'', ''b''}" "member {''a'', ''b''} demo_tasks ''a'' demo10"
    "member {''a'', ''b''} demo_tasks ''b'' (demo100\<lparr>data_store := demo_stored\<rparr>)"
    by (simp_all add: perfect_def member_def demo_tasks_def set_node_def demo_net_def)
qed

theorem reset_all_wipes_witness:
  "\<exists>body s' nd'. api_reset_all 2313 False ''a'' demo_tasks = (Inr (200, body), s') \<and> nodes s' ''b'' = Some nd' \<and>
     map_of (data_store nd') ''result:u'' = None \<and> map_of (data_store nd') ''note'' = Some (JInt 1)"
proof -
  obtain body s' where run: "api_reset_all 2313 False ''a'' demo_tasks = (Inr (200, body), s')" "frame demo_tasks s'"
    and kept: "\<forall>a na na'. member {''a'', ''b''} demo_tasks a na \<longrightarrow> nodes s' a = Some na' \<longrightarrow>
      (\<forall>key. map_of (data_store na') key = (if task_key key then None else map_of (data_store na) key))"
    using reset_all_wipes [OF demo_tasks_ready(1-4) order_refl] by blast
  obtain nd' where nd': "nodes s' ''b'' = Some nd'" by (rule frame_node [OF run(2) memberD(1) [OF demo_tasks_ready(5)]])
  have "task_key ''result:u''" "\<not> task_key ''note''" by (simp_all add: task_key_def)
  with kept [rule_format, OF demo_tasks_ready(5) nd', of "''result:u''"] kept [rule_format, OF demo_tasks_ready(5) nd', of "''note''"]
  show ?thesis using run(1) nd' by (simp add: demo_stored_def)
qed

theorem clear_completed_spares_unfinished_witness:
  "\<exists>body s' nd'. api_clear_completed_tasks 2313 256 3 False ''a'' demo_tasks = (Inr (200, body), s') \<and> nodes s' ''b'' = Some nd' \<and>
     map_of (data_store nd') ''result:t'' = None \<and> map_of (data_store nd') ''result:u'' = Some (JObj [(''status'', JStr ''PENDING'')])"
proof -
  obtain body s' where run: "api_clear_completed_tasks 2313 256 3 False ''a'' demo_tasks = (Inr (200, body), s')" "frame demo_tasks s'"
    and kept: "\<forall>a na na' key v. member {''a'', ''b''} demo_tasks a na \<longrightarrow> nodes s' a = Some na' \<longrightarrow> startswith key ''result:'' \<longrightarrow>
      (map_of (data_store na') key = Some v \<longleftrightarrow>
        map_of (data_store na) key = Some v \<and> (\<exists>d. v = JObj d \<and> \<not> finished d))"
    using clear_completed_spares_unfinished [OF demo_tasks_ready(1,2) order_refl demo_tasks_ready(3,4) order_refl] by blast
  obtain nd' where nd': "nodes s' ''b'' = Some nd'" by (rule frame_node [OF run(2) memberD(1) [OF demo_tasks_ready(5)]])
  have keys: "startswith ''result:t'' ''result:''" "startswith ''result:u'' ''result:''" by simp_all
  have "map_of (data_store nd') ''result:t'' \<noteq> Some v" for v
    unfolding kept [rule_format, OF demo_tasks_ready(5) nd' keys(1), of v]
    by (auto simp: demo_stored_def finished_def dget_or_Cons)
  then have "map_of (data_store nd') ''result:t'' = None" by (cases "map_of (data_store nd') ''result:t''") auto
  with kept [rule_format, OF demo_tasks_ready(5) nd' keys(2), of "JObj [(''status'', JStr ''PENDING'')]"]
  show ?thesis using run(1) nd' by (simp add: demo_stored_def finished_def dget_or_Cons)
qed

end
