(* ===== verification/AgentLoop.thy ===== *)
theory AgentLoop
  imports RingWide Agents
begin

text \<open>
  The observer thread of \<open>chord/agent_loop.py\<close>: every round it walks along the successors to
  collect the metrics of the ring, passing over a process that does not answer by way of one
  of its own fingers, and asks for advice on the placement of pending jobs. It changes no
  state. The log is left out; a round returns the advice it logs.
\<close>

section \<open>The walk\<close>

text \<open>\<open>_fetch_with_retry\<close>: \<open>None\<close> for an error status and when no attempt is answered.\<close>

fun fetch_with_retry :: "nat \<Rightarrow> string \<Rightarrow> ('z net_scheme, 'b reply) act \<Rightarrow> ('z net_scheme, 'b option) act" where
  "fetch_with_retry retries a h = catch
     (andthen (http_attempt a h) (\<lambda>r. ret (case r of Ok b \<Rightarrow> Some b | Status _ \<Rightarrow> None)))
     (\<lambda>_. case retries of
        0 \<Rightarrow> ret None
      | Suc n \<Rightarrow> andthen (sleep 100000) (\<lambda>_. fetch_with_retry n a h))"

declare fetch_with_retry.simps [simp del]

text \<open>The first finger that names a node not seen yet.\<close>

definition skip_to :: "int list \<Rightarrow> chord_node \<Rightarrow> nref option" where
  "skip_to seen nd =
     map_option (\<lambda>f. \<lparr>ref_id = finger_id f, ref_addr = finger_addr f\<rparr>)
       (List.find (\<lambda>f. finger_id f \<notin> set seen) (fingers nd))"

text \<open>\<open>n\<close> is what is left of the 1000 steps of the loop; the answer also names the unreachable processes.\<close>

fun ring_walk ::
  "nat \<Rightarrow> string \<Rightarrow> nref \<Rightarrow> int list \<Rightarrow> node_metrics list \<Rightarrow> string list \<Rightarrow> ('z net_scheme, node_metrics list \<times> string list) act" where
  "ring_walk 0 me current seen ms missed = ret (ms, missed)"
| "ring_walk (Suc n) me current seen ms missed =
     (if ref_id current \<in> set seen then ret (ms, missed)
      else
        let a = ref_addr current; seen = ref_id current # seen in
        andthen (fetch_with_retry 1 a (h_metrics a)) (\<lambda>m.
        let ms = (case m of Some x \<Rightarrow> ms @ [x] | None \<Rightarrow> ms) in
        andthen (fetch_with_retry 1 a (h_state a)) (\<lambda>st.
        case st of
          Some x \<Rightarrow> ring_walk n me (st_successor x) seen ms missed
        | None \<Rightarrow>
            andthen (read_node me (skip_to seen)) (\<lambda>f.
            case f of
              Some r \<Rightarrow> ring_walk n me r seen ms (missed @ [a])
            | None \<Rightarrow> ret (ms, missed @ [a])))))"

definition observe_ring :: "string \<Rightarrow> ('z net_scheme, node_metrics list \<times> string list) act" where
  "observe_ring me =
     andthen (read_node me (\<lambda>nd. nd)) (\<lambda>nd.
     ring_walk 1000 me (successor nd) [node_id nd] [metrics nd] [])"

section \<open>A round\<close>

fun is_pending_job :: "string \<times> json \<Rightarrow> bool" where
  "is_pending_job (key, JObj d) \<longleftrightarrow> startswith key ''job:'' \<and> dget d ''status'' = JStr ''pending''"
| "is_pending_job _ \<longleftrightarrow> False"

definition local_pending_jobs :: "chord_node \<Rightarrow> jdict list" where
  "local_pending_jobs nd = List.map (\<lambda>item. dict_of (snd item)) (filter is_pending_job (data_store nd))"

text \<open>The advice on a job, unless asking for it or logging it raises.\<close>

definition advise ::
  "(jdict \<Rightarrow> node_metrics list \<Rightarrow> exn + placement) option \<Rightarrow> node_metrics list \<Rightarrow> jdict \<Rightarrow> placement option" where
  "advise llm snapshot job =
     (case chain (select_placement llm job snapshot) (\<lambda>p. chain (dindex job ''job_id'') (\<lambda>_. Inr p)) of
        Inr p \<Rightarrow> Some p
      | Inl _ \<Rightarrow> None)"

definition agent_tick ::
  "(jdict \<Rightarrow> node_metrics list \<Rightarrow> exn + placement) option \<Rightarrow> string \<Rightarrow> ('z net_scheme, placement option list) act" where
  "agent_tick llm me =
     andthen (observe_ring me) (\<lambda>(snapshot, missed).
     if snapshot = [] then ret []
     else
       andthen (read_node me local_pending_jobs) (\<lambda>pending.
       if pending \<noteq> [] \<and> 1 < length snapshot
       then ret (List.map (advise llm snapshot) (take 3 pending))
       else ret []))"

text \<open>A turn of the loop of \<open>run\<close>: the round, whatever it raises, and the pause.\<close>

definition agent_turn ::
  "(jdict \<Rightarrow> node_metrics list \<Rightarrow> exn + placement) option \<Rightarrow> int \<Rightarrow> string \<Rightarrow> ('z net_scheme, unit) act" where
  "agent_turn llm interval me =
     andthen (catch (andthen (agent_tick llm me) (\<lambda>_. ret ())) (\<lambda>_. ret ())) (\<lambda>_. sleep interval)"

section \<open>The walk in a stable ring\<close>

lemma fetch_perfect:
  assumes "perfect s" and "h (later 1 0 s) = (Inr (Ok b), later 1 0 s)" and "nodes s a \<noteq> None"
  shows "fetch_with_retry n a h s = (Inr (Some b), later 1 0 s)"
  using assms by (auto simp: fetch_with_retry.simps http_attempt_def Let_def perfect_def serve_def later_def act_simps)

lemma fetch_member:
  assumes "perfect s" and "nodes s a = Some nd"
  shows "fetch_with_retry n a (h_metrics a) s = (Inr (Some (metrics nd)), later 1 0 s)"
    "fetch_with_retry n a (h_state a) s = (Inr (Some (state nd)), later 1 0 s)"
proof -
  have "h_metrics a (later 1 0 s) = (Inr (Ok (metrics nd)), later 1 0 s)" "h_state a (later 1 0 s) = (Inr (Ok (state nd)), later 1 0 s)"
    using assms(2) by (simp_all add: h_metrics_def h_state_def read_node_def on_node_def set_node_def later_def fun_upd_idem)
  with assms show "fetch_with_retry n a (h_metrics a) s = (Inr (Some (metrics nd)), later 1 0 s)"
    "fetch_with_retry n a (h_state a) s = (Inr (Some (state nd)), later 1 0 s)"
    by (simp_all add: fetch_perfect)
qed

lemma metrics_node_id: "m_node_id (metrics n) = node_id n"
  by (simp add: metrics_def)

lemma perfect_later [simp]: "perfect (later m c s) = perfect s"
  by (simp add: perfect_def later_def)

text \<open>The walk in progress: what it has seen, newest first, and where it is.\<close>

definition on_the_way :: "string set \<Rightarrow> 'z net_scheme \<Rightarrow> int list \<Rightarrow> node_metrics list \<Rightarrow> nref \<Rightarrow> bool" where
  "on_the_way A s seen ms current \<longleftrightarrow>
     seen \<noteq> [] \<and> distinct seen \<and> set seen \<subseteq> ring_ids A s \<and> List.map m_node_id ms = rev seen \<and>
     (\<forall>m \<in> set ms. \<exists>a n. member A s a n \<and> m = metrics n) \<and>
     refers A s current \<and> next_of (ring_ids A s) (hd seen) (ref_id current) \<and>
     (\<forall>x \<in> set (tl seen). \<exists>j \<in> set seen. next_of (ring_ids A s) x j)"

lemma on_the_way_length:
  assumes "stable A s" and "on_the_way A s seen ms current"
  shows "length seen \<le> 256"
proof -
  have "ring_ids A s \<subseteq> {0..<256}" using assms(1) by (auto simp: stable_def ids_set_def is_id_def ring_size_256)
  then have "set seen \<subseteq> {0..<256}" using assms(2) by (auto simp: on_the_way_def)
  then have "card (set seen) \<le> card {0..<256 :: int}" by (intro card_mono) auto
  then show ?thesis using assms(2) by (simp add: on_the_way_def distinct_card)
qed

lemma on_the_way_later [simp]: "on_the_way A (later m c s) seen ms current = on_the_way A s seen ms current"
  by (simp add: on_the_way_def)

lemma on_the_way_step:
  assumes st: "stable A s" and way: "on_the_way A s seen ms current" and new: "ref_id current \<notin> set seen"
    and nd: "member A s (ref_addr current) nd"
  shows "on_the_way A s (ref_id current # seen) (ms @ [metrics nd]) (successor nd)"
proof -
  have id: "node_id nd = ref_id current" using way nd by (auto simp: on_the_way_def refers_def dest: member_inj)
  have ids: "ref_id current \<in> ring_ids A s" using nd id [symmetric] unfolding ring_ids_def by blast
  have wp: "well_placed A s (ref_addr current) nd" using st nd by (auto simp: stable_def)
  then have "fingers nd \<noteq> []" by (auto simp: well_placed_def M_def)
  then have succ: "refers A s (successor nd)" "next_of (ring_ids A s) (ref_id current) (ref_id (successor nd))"
    using wp id by (auto simp: well_placed_def successor_def) 
  have "\<forall>x \<in> set seen. \<exists>j \<in> set (ref_id current # seen). next_of (ring_ids A s) x j"
    using way by (cases seen) (auto simp: on_the_way_def)
  moreover have "\<exists>a n. member A s a n \<and> metrics nd = metrics n" using nd by blast
  ultimately show ?thesis using way new ids succ id unfolding on_the_way_def by (simp add: metrics_node_id)
qed

lemma walk_complete:
  assumes "stable A s" and "perfect s" and "on_the_way A s seen ms current" and "257 \<le> n + length seen"
  shows "\<exists>m. ring_walk n me current seen ms un s = (Inr (ms @ m, un), later (2 * length m) 0 s) \<and>
    distinct (List.map m_node_id (ms @ m)) \<and> m_node_id ` set (ms @ m) = ring_ids A s \<and>
    (\<forall>x \<in> set (ms @ m). \<exists>a n. member A s a n \<and> x = metrics n)"
  using assms
proof (induction n arbitrary: seen ms current s)
  case 0
  then show ?case using on_the_way_length [OF "0.prems"(1,3)] by simp
next
  case (Suc n)
  note way = Suc.prems(3)
  show ?case
  proof (cases "ref_id current \<in> set seen")
    case True
    have "set seen = ring_ids A s"
    proof (rule next_closed)
      show "ids_set (ring_ids A s)" using Suc.prems(1) by (simp add: stable_def)
      show "set seen \<subseteq> ring_ids A s" "set seen \<noteq> {}" using way by (simp_all add: on_the_way_def)
      fix c assume "c \<in> set seen"
      then show "\<exists>j \<in> set seen. next_of (ring_ids A s) c j"
        using way True by (cases seen) (auto simp: on_the_way_def)
    qed
    moreover have "m_node_id ` set ms = set seen" "distinct (List.map m_node_id ms)"
      using way by (simp_all add: on_the_way_def flip: set_map)
    ultimately show ?thesis using True way by (intro exI [of _ "[]"]) (simp add: act_simps later_0 on_the_way_def)
  next
    case False
    obtain nd where nd: "member A s (ref_addr current) nd" using way by (auto simp: on_the_way_def refers_def)
    have up: "nodes s (ref_addr current) = Some nd" using nd by (rule memberD)
    let ?s = "later 1 0 (later 1 0 s)"
    have "on_the_way A ?s (ref_id current # seen) (ms @ [metrics nd]) (successor nd)"
      using on_the_way_step [OF Suc.prems(1) way False nd] by simp
    from Suc.IH [OF _ _ this] Suc.prems obtain m where
      m: "ring_walk n me (successor nd) (ref_id current # seen) (ms @ [metrics nd]) un ?s =
          (Inr ((ms @ [metrics nd]) @ m, un), later (2 * length m) 0 ?s)"
        "distinct (List.map m_node_id ((ms @ [metrics nd]) @ m))" "m_node_id ` set ((ms @ [metrics nd]) @ m) = ring_ids A s"
        "\<forall>x \<in> set ((ms @ [metrics nd]) @ m). \<exists>a n. member A s a n \<and> x = metrics n"
      by (auto simp del: later_later)
    have "ring_walk (Suc n) me current seen ms un s =
        ring_walk n me (st_successor (state nd)) (ref_id current # seen) (ms @ [metrics nd]) un ?s"
      using False Suc.prems(2) up by (simp add: Let_def run_andthen fetch_member del: later_later)
    with m show ?thesis by (intro exI [of _ "metrics nd # m"]) (simp add: state_def)
  qed
qed

section \<open>Properties\<close>

text \<open>
  C36. The observer sees the whole ring: in a stable ring over a network that delivers every
  request, the walk from any member ends within its 1000 steps with the metrics of every
  member, each exactly once, finds no process unreachable, and leaves the ring as it is.
\<close>

theorem observe_ring_complete:
  assumes st: "stable A s" and net: "perfect s" and me: "member A s me nd"
  shows "\<exists>ms c. observe_ring me s = (Inr (ms, []), later c 0 s) \<and> distinct (List.map m_node_id ms) \<and>
    m_node_id ` set ms = ring_ids A s \<and> (\<forall>x \<in> set ms. \<exists>a n. member A s a n \<and> x = metrics n)"
proof -
  have wp: "well_placed A s me nd" using st me by (auto simp: stable_def)
  then have "fingers nd \<noteq> []" by (auto simp: well_placed_def M_def)
  then have succ: "refers A s (successor nd)" "next_of (ring_ids A s) (node_id nd) (ref_id (successor nd))"
    using wp by (auto simp: well_placed_def successor_def)
  have id: "node_id nd \<in> ring_ids A s" using me unfolding ring_ids_def by blast
  have "\<exists>a n. member A s a n \<and> metrics nd = metrics n" using me by blast
  with succ id have way: "on_the_way A s [node_id nd] [metrics nd] (successor nd)"
    by (simp add: on_the_way_def metrics_node_id)
  have "257 \<le> 1000 + length [node_id nd]" by simp
  from walk_complete [OF st net way this, of me "[]"] obtain m where
    m: "ring_walk 1000 me (successor nd) [node_id nd] [metrics nd] [] s = (Inr ([metrics nd] @ m, []), later (2 * length m) 0 s)"
      "distinct (List.map m_node_id ([metrics nd] @ m))" "m_node_id ` set ([metrics nd] @ m) = ring_ids A s"
      "\<forall>x \<in> set ([metrics nd] @ m). \<exists>a n. member A s a n \<and> x = metrics n" by blast
  have "observe_ring me s = (Inr ([metrics nd] @ m, []), later (2 * length m) 0 s)"
    using m(1) memberD [OF me] by (simp add: observe_ring_def run_andthen read_node_def on_node_def set_node_def fun_upd_idem)
  with m(2-) show ?thesis by blast
qed

theorem observe_ring_complete_witness:
  "\<exists>ms c. observe_ring ''a'' demo_tasks = (Inr (ms, []), later c 0 demo_tasks) \<and> m_node_id ` set ms = {10, 100}"
proof -
  have mem: "member {''a'', ''b''} demo_tasks a n \<longleftrightarrow>
      a = ''a'' \<and> n = demo10 \<or> a = ''b'' \<and> n = demo100\<lparr>data_store := demo_stored\<rparr>" for a n
    by (auto simp: member_def demo_tasks_def set_node_def demo_net_def)
  have "ring_ids {''a'', ''b''} demo_tasks = {node_id demo10, node_id (demo100\<lparr>data_store := demo_stored\<rparr>)}"
    unfolding ring_ids_def mem by blast
  then have ids: "ring_ids {''a'', ''b''} demo_tasks = {10, 100}" by (simp add: demo10_def demo100_def)
  show ?thesis
    using observe_ring_complete [OF demo_tasks_ready(1,2,4)] unfolding ids by (elim exE conjE) (intro exI conjI)
qed

end
