(* ===== verification/Json.thy ===== *)
theory Json
  imports Python
begin

text \<open>
  JSON text, the part of the standard module \<open>json\<close> that \<open>api/grpc_server.py\<close> uses:
  \<open>json.dumps(v)\<close> with its default arguments and \<open>json.loads(text)\<close>, where \<open>None\<close> stands for a
  \<open>JSONDecodeError\<close>. A character is one of the first 256 code points, so an escape that
  names a later one is not accepted; neither are the numbers \<open>NaN\<close> and \<open>Infinity\<close>. \<open>fuel\<close> bounds
  the calls of the parser that are open at once; twice the length of the text is always enough
  (\<open>scan_enough\<close>).
\<close>

section \<open>Writing\<close>

definition QUOTE :: char where "QUOTE = CHR 0x22"
definition BACKSLASH :: char where "BACKSLASH = CHR 0x5C"

definition hex_digit :: "nat \<Rightarrow> char" where
  "hex_digit n = (if n < 10 then digit n else char_of (87 + n))"

text \<open>The characters with an escape of one letter.\<close>

definition short_escapes :: "(char \<times> char) list" where
  "short_escapes = [(QUOTE, QUOTE), (BACKSLASH, BACKSLASH), (CHR 0x0A, CHR ''n''), (CHR 0x0D, CHR ''r''), (CHR 0x09, CHR ''t''),
     (CHR 0x0C, CHR ''f''), (CHR 0x08, CHR ''b'')]"

definition escape :: "char \<Rightarrow> string" where
  "escape c =
     (case map_of short_escapes c of
        Some e \<Rightarrow> [BACKSLASH, e]
      | None \<Rightarrow>
          let n = of_char c :: nat in
          if 32 \<le> n \<and> n \<le> 126 then [c]
          else BACKSLASH # ''u00'' @ [hex_digit (n div 16), hex_digit (n mod 16)])"

definition quoted :: "string \<Rightarrow> string" where
  "quoted s = QUOTE # concat (List.map escape s) @ [QUOTE]"

fun dumps :: "json \<Rightarrow> string"
  and dump_items :: "json list \<Rightarrow> string"
  and dump_members :: "jdict \<Rightarrow> string" where
  "dumps JNull = ''null''"
| "dumps (JBool b) = (if b then ''true'' else ''false'')"
| "dumps (JInt n) = show_int n"
| "dumps (JFloat q) = show_value (JFloat q)"
| "dumps (JStr s) = quoted s"
| "dumps (JList xs) = ''['' @ dump_items xs @ '']''"
| "dumps (JObj d) = ''{'' @ dump_members d @ ''}''"
| "dump_items [] = []"
| "dump_items [x] = dumps x"
| "dump_items (x # y # xs) = dumps x @ '', '' @ dump_items (y # xs)"
| "dump_members [] = []"
| "dump_members [(k, v)] = quoted k @ '': '' @ dumps v"
| "dump_members ((k, v) # p # d) = quoted k @ '': '' @ dumps v @ '', '' @ dump_members (p # d)"

section \<open>Reading\<close>

definition json_space :: "char \<Rightarrow> bool" where
  "json_space c \<longleftrightarrow> c \<in> {CHR '' '', CHR 0x09, CHR 0x0A, CHR 0x0D}"

definition skip :: "string \<Rightarrow> string" where
  "skip = dropWhile json_space"

text \<open>The rest of a text that starts with the character.\<close>

definition eat :: "char \<Rightarrow> string \<Rightarrow> string option" where
  "eat c s = (case s of [] \<Rightarrow> None | x # t \<Rightarrow> if x = c then Some t else None)"

definition hex_value :: "char \<Rightarrow> nat option" where
  "hex_value c =
     (let n = of_char c :: nat in
      if 48 \<le> n \<and> n \<le> 57 then Some (n - 48)
      else if 97 \<le> n \<and> n \<le> 102 then Some (n - 87)
      else if 65 \<le> n \<and> n \<le> 70 then Some (n - 55)
      else None)"

fun hex4 :: "string \<Rightarrow> (char \<times> string) option" where
  "hex4 (a # b # c # d # r) =
     (case List.those [hex_value a, hex_value b, hex_value c, hex_value d] of
        Some [w, x, y, z] \<Rightarrow>
          let n = ((w * 16 + x) * 16 + y) * 16 + z in if n < 256 then Some (char_of n, r) else None
      | _ \<Rightarrow> None)"
| "hex4 _ = None"

definition long_escapes :: "(char \<times> char) list" where
  "long_escapes = (CHR ''/'', CHR ''/'') # List.map prod.swap short_escapes"

text \<open>What follows a backslash; \<open>None\<close> for an unknown escape.\<close>

definition unescape :: "string \<Rightarrow> (char \<times> string) option" where
  "unescape s =
     (case s of
        [] \<Rightarrow> None
      | e # r \<Rightarrow> if e = CHR ''u'' then hex4 r else map_option (\<lambda>c. (c, r)) (map_of long_escapes e))"

lemma unescape_shorter: "unescape s = Some (c, r) \<Longrightarrow> length r < length s"
  by (auto simp: unescape_def Let_def split: list.splits if_splits option.splits elim!: hex4.elims)

text \<open>The rest of a string literal after its opening quote.\<close>

function literal :: "string \<Rightarrow> string \<Rightarrow> (string \<times> string) option" where
  "literal acc [] = None"
| "literal acc (c # s) =
     (if c = QUOTE then Some (acc, s)
      else if c = BACKSLASH then
        (case unescape s of None \<Rightarrow> None | Some (x, r) \<Rightarrow> literal (acc @ [x]) r)
      else if of_char c < (32 :: nat) then None
      else literal (acc @ [c]) s)"
  by pat_completeness auto
termination
  by (relation "measure (\<lambda>(acc, s). length s)") (auto dest: unescape_shorter)

definition is_digit :: "char \<Rightarrow> bool" where
  "is_digit c \<longleftrightarrow> digit_value c \<noteq> None"

definition digits :: "string \<Rightarrow> string \<times> string" where
  "digits s = (takeWhile is_digit s, dropWhile is_digit s)"

text \<open>\<open>(-?(?:0|[1-9][0-9]*))(\.[0-9]+)?([eE][-+]?[0-9]+)?\<close>, each part with what follows it.\<close>

definition scan_int :: "string \<Rightarrow> string \<times> string" where
  "scan_int s =
     (let (sign, r) = (case eat (CHR ''-'') s of Some t \<Rightarrow> (''-'', t) | None \<Rightarrow> ([], s));
          (ds, r') = (case eat (CHR ''0'') r of Some t \<Rightarrow> (''0'', t) | None \<Rightarrow> digits r)
      in if ds = [] then ([], s) else (sign @ ds, r'))"

definition scan_fraction :: "string \<Rightarrow> string \<times> string" where
  "scan_fraction s =
     (case eat (CHR ''.'') s of
        Some t \<Rightarrow> if fst (digits t) = [] then ([], s) else (CHR ''.'' # fst (digits t), snd (digits t))
      | None \<Rightarrow> ([], s))"

definition scan_exponent :: "string \<Rightarrow> string \<times> string" where
  "scan_exponent s =
     (if s = [] \<or> hd s \<notin> {CHR ''e'', CHR ''E''} then ([], s)
      else
        let (sign, r) = (if tl s \<noteq> [] \<and> hd (tl s) \<in> {CHR ''-'', CHR ''+''} then ([hd (tl s)], tl (tl s)) else ([], tl s))
        in if fst (digits r) = [] then ([], s) else (hd s # sign @ fst (digits r), snd (digits r)))"

definition number :: "string \<Rightarrow> (json \<times> string) option" where
  "number s =
     (let (i, r1) = scan_int s; (f, r2) = scan_fraction r1; (e, r3) = scan_exponent r2 in
      if i = [] then None
      else if f = [] \<and> e = [] then
        (case int_of_string i of Inr n \<Rightarrow> Some (JInt n, r3) | Inl _ \<Rightarrow> None)
      else map_option (\<lambda>q. (JFloat q, r3)) (float_text (i @ f @ e)))"

definition json_constant :: "string \<Rightarrow> (json \<times> string) option" where
  "json_constant s =
     (if prefix ''null'' s then Some (JNull, drop 4 s)
      else if prefix ''true'' s then Some (JBool True, drop 4 s)
      else if prefix ''false'' s then Some (JBool False, drop 5 s)
      else None)"

fun scan_value :: "nat \<Rightarrow> string \<Rightarrow> (json \<times> string) option"
  and items :: "nat \<Rightarrow> json list \<Rightarrow> string \<Rightarrow> (json \<times> string) option"
  and members :: "nat \<Rightarrow> jdict \<Rightarrow> string \<Rightarrow> (json \<times> string) option" where
  "scan_value 0 s = None"
| "scan_value (Suc n) [] = None"
| "scan_value (Suc n) (c # s) =
     (if c = QUOTE then map_option (\<lambda>(x, r). (JStr x, r)) (literal [] s)
      else if c = CHR ''['' then
        (case eat (CHR '']'') (skip s) of Some r \<Rightarrow> Some (JList [], r) | None \<Rightarrow> items n [] (skip s))
      else if c = CHR ''{'' then
        (case eat (CHR ''}'') (skip s) of Some r \<Rightarrow> Some (JObj [], r) | None \<Rightarrow> members n [] (skip s))
      else case json_constant (c # s) of Some x \<Rightarrow> Some x | None \<Rightarrow> number (c # s))"
| "items 0 acc s = None"
| "items (Suc n) acc s =
     (case scan_value n s of
        None \<Rightarrow> None
      | Some (v, r) \<Rightarrow>
          (case eat (CHR '','') (skip r) of
             Some t \<Rightarrow> items n (acc @ [v]) (skip t)
           | None \<Rightarrow> map_option (\<lambda>t. (JList (acc @ [v]), t)) (eat (CHR '']'') (skip r))))"
| "members 0 acc s = None"
| "members (Suc n) acc s =
     (case Option.bind (eat QUOTE s) (literal []) of
        None \<Rightarrow> None
      | Some (k, r) \<Rightarrow>
          (case Option.bind (eat (CHR '':'') (skip r)) (\<lambda>t. scan_value n (skip t)) of
             None \<Rightarrow> None
           | Some (v, r') \<Rightarrow>
               (case eat (CHR '','') (skip r') of
                  Some t \<Rightarrow> members n (dset k v acc) (skip t)
                | None \<Rightarrow> map_option (\<lambda>t. (JObj (dset k v acc), t)) (eat (CHR ''}'') (skip r')))))"

definition loads :: "string \<Rightarrow> json option" where
  "loads s =
     (case scan_value (2 * length s) (skip s) of
        Some (v, r) \<Rightarrow> if skip r = [] then Some v else None
      | None \<Rightarrow> None)"

section \<open>Reading what was written\<close>

subsection \<open>Strings\<close>

lemma eat_simps [simp]: "eat c [] = None" "eat c (x # t) = (if x = c then Some t else None)"
  by (simp_all add: eat_def)

lemma hex_inverse: "n < 16 \<Longrightarrow> hex_value (hex_digit n) = Some n"
  by (auto simp: hex_value_def hex_digit_def digit_def)

lemma hex4_two:
  assumes "a < 16" and "b < 16"
  shows "hex4 (CHR ''0'' # CHR ''0'' # hex_digit a # hex_digit b # r) = Some (char_of (a * 16 + b), r)"
proof -
  have "a * 16 + b < 256" using assms by simp
  moreover have "hex_value (CHR ''0'') = Some 0" by (simp add: hex_value_def)
  ultimately show ?thesis using assms by (simp add: hex_inverse Let_def)
qed

lemma literal_escape [simp]: "literal acc (escape c @ r) = literal (acc @ [c]) r"
proof (cases "map_of short_escapes c")
  case (Some e)
  then have "(c, e) \<in> set short_escapes" by (rule map_of_SomeD)
  then show ?thesis
    by (auto simp: short_escapes_def escape_def QUOTE_def BACKSLASH_def unescape_def long_escapes_def)
next
  case None
  then have c: "c \<noteq> QUOTE" "c \<noteq> BACKSLASH" by (auto simp: short_escapes_def split: if_splits)
  let ?n = "of_char c :: nat"
  have "?n < 256" by simp
  then have "?n div 16 < 16" by (intro less_mult_imp_div_less) simp
  moreover have "?n mod 16 < 16" "?n div 16 * 16 + ?n mod 16 = ?n" by simp_all
  ultimately have "hex4 (CHR ''0'' # CHR ''0'' # hex_digit (?n div 16) # hex_digit (?n mod 16) # r) = Some (c, r)"
    using hex4_two [of "?n div 16" "?n mod 16" r] by simp
  with None c show ?thesis
    by (auto simp: escape_def Let_def unescape_def BACKSLASH_def QUOTE_def)
qed

lemma literal_quoted: "literal acc (concat (List.map escape s) @ QUOTE # r) = Some (acc @ s, r)"
  by (induction s arbitrary: acc) simp_all

subsection \<open>Integers\<close>

definition ends :: "string \<Rightarrow> bool" where
  "ends r \<longleftrightarrow> r = [] \<or> hd r \<in> {CHR '','', CHR '']'', CHR ''}''}"

lemma digit_value_digit: "d < 10 \<Longrightarrow> digit_value (digit d) = Some d"
  by (simp add: digit_value_def digit_def)

lemma is_digit_digit: "d < 10 \<Longrightarrow> is_digit (digit d)"
  by (simp add: is_digit_def digit_value_digit)

lemma show_nat_digits: "\<forall>c \<in> set (show_nat n). is_digit c"
  by (induction n rule: show_nat.induct) (subst show_nat.simps, simp add: is_digit_digit)

lemma show_nat_hd: "n \<noteq> 0 \<Longrightarrow> hd (show_nat n) \<noteq> CHR ''0''"
proof (induction n rule: show_nat.induct)
  case (1 n)
  have zero: "CHR ''0'' = digit 0" by (simp add: digit_def char_of_def bit_simps)
  show ?case
  proof (cases "n < 10")
    case True
    with 1 show ?thesis using digit_inj [of n 0] by (subst show_nat.simps) (auto simp: zero)
  next
    case False
    with 1 show ?thesis by (subst show_nat.simps) (simp add: show_nat_nonempty)
  qed
qed

lemma digits_value_snoc: "d < 10 \<Longrightarrow> digits_value acc s = Some m \<Longrightarrow> digits_value acc (s @ [digit d]) = Some (10 * m + d)"
  by (induction acc s rule: digits_value.induct)
    (auto simp: digit_value_digit split: option.splits if_splits list.splits)

lemma unsigned_show_nat: "unsigned_value (show_nat n) = Some n"
proof (induction n rule: show_nat.induct)
  case (1 n)
  show ?case
  proof (cases "n < 10")
    case True
    then show ?thesis by (subst show_nat.simps) (simp add: digit_value_digit)
  next
    case False
    obtain c cs where c: "show_nat (n div 10) = c # cs" using show_nat_nonempty by (cases "show_nat (n div 10)") auto
    with 1 [OF False] obtain d where d: "digit_value c = Some d" "digits_value d cs = Some (n div 10)"
      by (auto split: option.splits)
    have "unsigned_value (show_nat n) = digits_value d (cs @ [digit (n mod 10)])"
      using False c d(1) by (subst show_nat.simps) simp
    also have "\<dots> = Some (10 * (n div 10) + n mod 10)" by (rule digits_value_snoc [OF _ d(2)]) simp
    finally show ?thesis by simp
  qed
qed

lemma strip_id: "s \<noteq> [] \<Longrightarrow> \<not> is_space (hd s) \<Longrightarrow> \<not> is_space (last s) \<Longrightarrow> strip s = s"
  by (simp add: strip_def dropWhile_hd hd_rev)

lemma digit_not_space: "is_digit c \<Longrightarrow> \<not> is_space c"
  by (auto simp: is_digit_def digit_value_def is_space_def Let_def split: if_splits)

lemma strip_show_int: "strip (show_int n) = show_int n"
proof -
  have "\<not> is_space c" if "c = CHR ''-'' \<or> is_digit c" for c
    using that digit_not_space by (auto simp: is_space_def)
  moreover have "\<forall>c \<in> set (show_int n). c = CHR ''-'' \<or> is_digit c"
    using show_nat_digits by (auto simp: show_int_def)
  moreover have "show_int n \<noteq> []" by (simp add: show_int_def show_nat_nonempty)
  ultimately show ?thesis by (intro strip_id) auto
qed

lemma no_sign: "is_digit c \<Longrightarrow> (case c # cs of CHR ''-'' # ds \<Rightarrow> f ds | CHR ''+'' # ds \<Rightarrow> g ds | _ \<Rightarrow> h) = h"
  by (simp split: char.split bool.split) (auto simp: is_digit_def digit_value_def)

lemma int_of_digits:
  assumes "is_digit c" and "strip t = c # cs" and "unsigned_value (c # cs) = Some n"
  shows "int_of_string t = Inr (int n)"
  unfolding int_of_string_def Let_def assms(2) no_sign [OF assms(1)] assms(3) by simp

text \<open>Every integer is read back from its text.\<close>

lemma int_of_show_int: "int_of_string (show_int n) = Inr n"
proof (cases "n < 0")
  case True
  then show ?thesis unfolding int_of_string_def strip_show_int by (simp add: show_int_def unsigned_show_nat)
next
  case False
  obtain c cs where c: "show_nat (nat n) = c # cs" using show_nat_nonempty by (cases "show_nat (nat n)") auto
  have "is_digit c" using show_nat_digits [of "nat n"] c by simp
  moreover have "strip (show_int n) = c # cs" using False c strip_show_int [of n] by (simp add: show_int_def)
  moreover have "unsigned_value (c # cs) = Some (nat n)" using unsigned_show_nat [of "nat n"] c by simp
  ultimately have "int_of_string (show_int n) = Inr (int (nat n))" by (intro int_of_digits)
  with False show ?thesis by simp
qed

lemma digits_append:
  "\<forall>c \<in> set s. is_digit c \<Longrightarrow> r = [] \<or> \<not> is_digit (hd r) \<Longrightarrow> digits (s @ r) = (s, r)"
  by (simp add: digits_def takeWhile_eq_all_conv dropWhile_hd) (cases r; simp)

lemma ends_stops:
  assumes "ends r"
  shows "r = [] \<or> \<not> is_digit (hd r)" "scan_fraction r = ([], r)" "scan_exponent r = ([], r)"
  using assms by (auto simp: ends_def scan_fraction_def scan_exponent_def is_digit_def digit_value_def eat_def split: list.split)

lemma scan_nat:
  assumes "ends r"
  shows "(case eat (CHR ''0'') (show_nat n @ r) of Some t \<Rightarrow> (''0'', t) | None \<Rightarrow> digits (show_nat n @ r)) = (show_nat n, r)"
proof (cases "n = 0")
  case True
  then show ?thesis by (simp add: show_nat.simps [of 0] digit_def char_of_def bit_simps)
next
  case False
  have "digits (show_nat n @ r) = (show_nat n, r)"
    using ends_stops(1) [OF assms] show_nat_digits by (intro digits_append) auto
  with show_nat_hd [OF False] show_nat_nonempty [of n] show ?thesis by (cases "show_nat n") auto
qed

lemma eat_minus_nat: "eat (CHR ''-'') (show_nat n @ r) = None"
  using show_nat_digits [of n] show_nat_nonempty [of n]
  by (cases "show_nat n") (auto simp: is_digit_def digit_value_def)

lemma scan_int_show_int: "ends r \<Longrightarrow> scan_int (show_int n @ r) = (show_int n, r)"
  by (simp add: scan_int_def show_int_def scan_nat eat_minus_nat show_nat_nonempty)

lemma number_show_int: "ends r \<Longrightarrow> number (show_int n @ r) = Some (JInt n, r)"
  by (simp add: number_def scan_int_show_int ends_stops int_of_show_int) (simp add: show_int_def show_nat_nonempty)

subsection \<open>Values\<close>

text \<open>A value without fractions whose dictionaries have distinct keys.\<close>

fun plain :: "json \<Rightarrow> bool"
  and plain_items :: "json list \<Rightarrow> bool"
  and plain_members :: "jdict \<Rightarrow> bool" where
  "plain (JFloat q) \<longleftrightarrow> False"
| "plain (JList xs) \<longleftrightarrow> plain_items xs"
| "plain (JObj d) \<longleftrightarrow> wf_dict d \<and> plain_members d"
| "plain _ \<longleftrightarrow> True"
| "plain_items [] \<longleftrightarrow> True"
| "plain_items (x # xs) \<longleftrightarrow> plain x \<and> plain_items xs"
| "plain_members [] \<longleftrightarrow> True"
| "plain_members ((k, v) # d) \<longleftrightarrow> plain v \<and> plain_members d"

text \<open>No text of a value starts with a blank or a closing bracket.\<close>

definition opens :: "string \<Rightarrow> bool" where
  "opens s \<longleftrightarrow> s \<noteq> [] \<and> \<not> json_space (hd s) \<and> hd s \<noteq> CHR '']'' \<and> hd s \<noteq> CHR ''}''"

lemma opens_append: "opens s \<Longrightarrow> opens (s @ t)"
  by (simp add: opens_def)

lemma opens_skip: "opens s \<Longrightarrow> skip s = s"
  by (simp add: opens_def skip_def dropWhile_hd)

lemma opens_eat: "opens s \<Longrightarrow> eat (CHR '']'') s = None" "opens s \<Longrightarrow> eat (CHR ''}'') s = None"
  by (auto simp: opens_def eat_def split: list.split)

lemma show_nat_hd_digit: "is_digit (hd (show_nat n))"
  using show_nat_digits show_nat_nonempty hd_in_set by blast

lemma show_int_hd: "show_int n \<noteq> [] \<and> (hd (show_int n) = CHR ''-'' \<or> is_digit (hd (show_int n)))"
  by (simp add: show_int_def show_nat_nonempty show_nat_hd_digit)

lemma not_digits:
  "is_digit c \<Longrightarrow> c \<notin> {CHR '' '', CHR 0x09, CHR 0x0A, CHR 0x0D, CHR '']'', CHR ''}'', QUOTE, CHR ''['', CHR ''{'', CHR ''n'', CHR ''t'', CHR ''f''}"
  by (simp add: is_digit_def digit_value_def QUOTE_def Let_def split: if_splits) (intro conjI notI; simp)

lemma opens_dumps: "plain v \<Longrightarrow> opens (dumps v)"
proof (cases v)
  case (JInt n)
  have "opens (show_int n)"
    using show_int_hd [of n] not_digits [of "hd (show_int n)"] unfolding opens_def json_space_def by (elim conjE disjE) simp_all
  with JInt show ?thesis by simp
qed (simp_all add: opens_def json_space_def quoted_def QUOTE_def)

lemma opens_quoted: "opens (quoted k)"
  by (simp add: opens_def quoted_def QUOTE_def json_space_def)

lemma opens_items: "plain_items xs \<Longrightarrow> xs \<noteq> [] \<Longrightarrow> opens (dump_items xs)"
  by (cases xs rule: dump_items.cases) (auto intro: opens_append opens_dumps)

lemma opens_members: "d \<noteq> [] \<Longrightarrow> opens (dump_members d)"
  by (cases d rule: dump_members.cases) (auto intro: opens_append opens_quoted)

lemma skip_close [simp]: "skip (CHR '']'' # r) = CHR '']'' # r" "skip (CHR ''}'' # r) = CHR ''}'' # r"
    "skip (CHR '','' # r) = CHR '','' # r" "skip (CHR '':'' # r) = CHR '':'' # r" "skip (CHR '' '' # r) = skip r" "skip [] = []"
  by (simp_all add: skip_def json_space_def)

lemma eat_quoted [simp]: "Option.bind (eat QUOTE (quoted k @ r)) (literal []) = Some (k, r)"
  using literal_quoted [of "[]" k r] by (simp add: quoted_def)

lemma dset_new: "k \<notin> set (dkeys d) \<Longrightarrow> dset k v d = d @ [(k, v)]"
  by (induction d) (auto simp: dkeys_def)

lemma scan_number:
  assumes "ends r" and "0 < n"
  shows "scan_value n (show_int i @ r) = Some (JInt i, r)"
proof -
  obtain c cs where c: "show_int i = c # cs" "c = CHR ''-'' \<or> is_digit c" using show_int_hd [of i] by (cases "show_int i") auto
  then have "c \<notin> {QUOTE, CHR ''['', CHR ''{'', CHR ''n'', CHR ''t'', CHR ''f''}"
    using not_digits [of c] by (elim disjE) (simp_all add: QUOTE_def)
  with c number_show_int [OF assms(1), of i] assms(2) show ?thesis by (cases n) (auto simp: json_constant_def)
qed

lemma read_back:
  "plain v \<Longrightarrow> length (dumps v) \<le> n \<Longrightarrow> ends r \<Longrightarrow> scan_value n (dumps v @ r) = Some (v, r)"
  "plain_items xs \<Longrightarrow> xs \<noteq> [] \<Longrightarrow> length (dump_items xs) < m \<Longrightarrow>
    items m acc (dump_items xs @ '']'' @ r) = Some (JList (acc @ xs), r)"
  "plain_members d \<Longrightarrow> d \<noteq> [] \<Longrightarrow> wf_dict (bcc @ d) \<Longrightarrow> length (dump_members d) < m \<Longrightarrow>
    members m bcc (dump_members d @ ''}'' @ r) = Some (JObj (bcc @ d), r)"
proof (induction v and xs and d arbitrary: n r and m acc r and m bcc r rule: dumps_dump_items_dump_members.induct)
  case 1
  then show ?case by (cases n) (simp_all add: json_constant_def QUOTE_def)
next
  case (2 b)
  then show ?case by (cases n) (auto simp: json_constant_def QUOTE_def split: if_splits)
next
  case (3 i)
  then have "0 < n" using show_int_hd [of i] by (cases n) simp_all
  with 3 show ?case by (simp add: scan_number)
next
  case (5 s)
  then show ?case using literal_quoted [of "[]" s r] by (cases n) (simp_all add: quoted_def)
next
  case (6 xs)
  then obtain n' where n: "n = Suc n'" by (cases n) auto
  show ?case
  proof (cases "xs = []")
    case True
    then show ?thesis by (simp add: n QUOTE_def)
  next
    case False
    then have "opens (dump_items xs @ '']'' @ r)" using 6 by (simp add: opens_items opens_append)
    with False 6 show ?thesis by (simp add: n QUOTE_def opens_skip opens_eat)
  qed
next
  case (7 d)
  then obtain n' where n: "n = Suc n'" by (cases n) auto
  show ?case
  proof (cases "d = []")
    case True
    then show ?thesis by (simp add: n QUOTE_def)
  next
    case False
    then have "opens (dump_members d @ ''}'' @ r)" by (simp add: opens_members opens_append)
    with False 7 show ?thesis by (simp add: n QUOTE_def opens_skip opens_eat)
  qed
next
  case (9 v)
  then obtain m' where m: "m = Suc m'" by (cases m) auto
  with 9 show ?case by (simp add: ends_def)
next
  case (10 v w vs)
  then obtain m' where m: "m = Suc m'" by (cases m) auto
  have "opens (dump_items (w # vs) @ '']'' @ r)" using 10 by (intro opens_append opens_items) simp_all
  with 10 m show ?case by (simp add: ends_def opens_skip)
next
  case (12 k v)
  then obtain m' where m: "m = Suc m'" by (cases m) auto
  have "dset k v bcc = bcc @ [(k, v)]" using 12 by (intro dset_new) (auto simp: wf_dict_def dkeys_def)
  moreover have "skip (dumps v @ ''}'' @ r) = dumps v @ ''}'' @ r"
    using 12 by (intro opens_skip opens_append opens_dumps) simp
  ultimately show ?case using 12 m by (simp add: ends_def)
next
  case (13 k v p d)
  then obtain m' where m: "m = Suc m'" by (cases m) auto
  have "dset k v bcc = bcc @ [(k, v)]" using 13 by (intro dset_new) (auto simp: wf_dict_def dkeys_def)
  moreover have "skip (dumps v @ t) = dumps v @ t" for t
    using 13 by (intro opens_skip opens_append opens_dumps) simp
  moreover have "skip (dump_members (p # d) @ ''}'' @ r) = dump_members (p # d) @ ''}'' @ r"
    by (intro opens_skip opens_append opens_members) simp
  ultimately show ?case using 13 m by (simp add: ends_def)
qed (simp_all)

text \<open>The text of a value is read back as the value.\<close>

lemma loads_dumps: "plain v \<Longrightarrow> loads (dumps v) = Some v"
  using read_back(1) [of v "2 * length (dumps v)" "[]"]
  by (simp add: loads_def opens_skip opens_dumps ends_def)

subsection \<open>The fuel\<close>

lemma eat_shorter: "eat c s = Some t \<Longrightarrow> length t < length s"
  by (auto simp: eat_def split: list.splits if_splits)

lemma skip_shorter: "length (skip s) \<le> length s"
  by (simp add: skip_def length_dropWhile_le)

lemma literal_shorter: "literal acc s = Some (x, r) \<Longrightarrow> length r < length s"
  by (induction acc s rule: literal.induct)
    (fastforce split: if_splits option.splits dest: unescape_shorter)+

text \<open>A part of the text, unless it is empty, with what follows it.\<close>

definition taken :: "string \<times> string \<Rightarrow> string \<Rightarrow> bool" where
  "taken p s \<longleftrightarrow> length (snd p) \<le> length s \<and> (fst p \<noteq> [] \<longrightarrow> length (snd p) < length s)"

lemma taken_digits: "taken (digits s) s"
  by (cases s) (auto simp: taken_def digits_def length_dropWhile_le less_Suc_eq_le intro: le_SucI)

lemma taken_scan_int: "taken (scan_int s) s"
proof -
  have nat: "taken (case eat (CHR ''0'') r of Some t \<Rightarrow> (''0'', t) | None \<Rightarrow> digits r) r" for r
    using taken_digits eat_shorter by (fastforce simp: taken_def split: option.split)
  show ?thesis
  proof (cases "eat (CHR ''-'') s")
    case None
    with nat [of s] show ?thesis by (auto simp: scan_int_def taken_def split: prod.splits)
  next
    case (Some t)
    with nat [of t] eat_shorter [OF Some] show ?thesis by (auto simp: scan_int_def taken_def split: prod.splits)
  qed
qed

lemma taken_scan_fraction: "taken (scan_fraction s) s"
proof (cases "eat (CHR ''.'') s")
  case None
  then show ?thesis by (simp add: scan_fraction_def taken_def)
next
  case (Some t)
  with taken_digits [of t] eat_shorter [OF Some] show ?thesis by (auto simp: scan_fraction_def taken_def)
qed

lemma taken_scan_exponent: "taken (scan_exponent s) s"
proof -
  have "length (snd (digits (tl (tl s)))) \<le> length s - 2" "length (snd (digits (tl s))) \<le> length s - 1"
    using taken_digits [of "tl (tl s)"] taken_digits [of "tl s"] by (simp_all add: taken_def numeral_2_eq_2)
  then show ?thesis by (cases s) (auto simp: scan_exponent_def taken_def Let_def)
qed

lemma number_shorter: "number s = Some (v, r) \<Longrightarrow> length r < length s"
  using taken_scan_int [of s] taken_scan_fraction [of "snd (scan_int s)"]
    taken_scan_exponent [of "snd (scan_fraction (snd (scan_int s)))"]
  by (auto simp: number_def taken_def Let_def split: prod.splits if_splits sum.splits)

lemma json_constant_shorter: "json_constant s = Some (v, r) \<Longrightarrow> length r < length s"
  by (auto simp: json_constant_def split: if_splits dest!: prefix_length_le)

lemma eat_skip_shorter: "eat c (skip s) = Some t \<Longrightarrow> length t < length s"
  using eat_shorter [of c "skip s" t] skip_shorter [of s] by simp

lemma consumes:
  "scan_value n s = Some (v, r) \<Longrightarrow> length r < length s"
  "items m acc t = Some (v, r) \<Longrightarrow> length r < length t"
  "members m bcc t = Some (v, r) \<Longrightarrow> length r < length t"
proof (induction n s and m acc t and m bcc t arbitrary: v r and v r and v r rule: scan_value_items_members.induct)
  case (3 n c s)
  consider "c = QUOTE" | "c = CHR ''[''" "c \<noteq> QUOTE" | "c = CHR ''{''" "c \<noteq> CHR ''[''" "c \<noteq> QUOTE"
    | "c \<noteq> CHR ''{''" "c \<noteq> CHR ''[''" "c \<noteq> QUOTE" by blast
  then show ?case
  proof cases
    case 1
    with 3(3) show ?thesis using literal_shorter by fastforce
  next
    case 2
    with 3 skip_shorter [of s] show ?thesis by (fastforce split: option.splits dest: eat_skip_shorter)
  next
    case 3
    with "3.IH"(2) "3.prems" skip_shorter [of s] show ?thesis by (fastforce split: option.splits dest: eat_skip_shorter)
  next
    case 4
    with "3.prems" show ?thesis by (auto split: option.splits dest: json_constant_shorter number_shorter)
  qed
next
  case (5 n acc s)
  then obtain w t where w: "scan_value n s = Some (w, t)" by (auto split: option.splits)
  with 5 have t: "length t < length s" by blast
  show ?case
  proof (cases "eat (CHR '','') (skip t)")
    case None
    with 5 w t show ?thesis by (auto dest: eat_skip_shorter)
  next
    case (Some u)
    with "5.IH"(2) [OF w refl Some] "5.prems" w have "length r < length (skip u)" by simp
    with t eat_skip_shorter [OF Some] skip_shorter [of u] show ?thesis by simp
  qed
next
  case (7 n acc s)
  then obtain k q where k: "Option.bind (eat QUOTE s) (literal []) = Some (k, q)" by (auto split: option.splits)
  then have q: "length q < length s" by (auto simp: bind_eq_Some_conv dest!: eat_shorter literal_shorter)
  from 7 k obtain w t where w: "Option.bind (eat (CHR '':'') (skip q)) (\<lambda>t. scan_value n (skip t)) = Some (w, t)"
    by (auto split: option.splits)
  then obtain u where u: "eat (CHR '':'') (skip q) = Some u" "scan_value n (skip u) = Some (w, t)" by (auto simp: bind_eq_Some_conv)
  have t: "length t < length q"
    using "7.IH"(1) [OF k refl, of u w t] u eat_skip_shorter [OF u(1)] skip_shorter [of u] by simp
  show ?case
  proof (cases "eat (CHR '','') (skip t)")
    case None
    with 7 k w t q show ?thesis by (auto dest: eat_skip_shorter)
  next
    case (Some x)
    with "7.IH"(2) [OF k refl w refl Some] "7.prems" k w have "length r < length (skip x)" by simp
    with t q eat_skip_shorter [OF Some] skip_shorter [of x] show ?thesis by simp
  qed
qed simp_all

text \<open>More fuel than twice the length of the text changes nothing.\<close>

lemma one_more:
  "2 * length s \<le> n \<Longrightarrow> scan_value (Suc n) s = scan_value n s"
  "2 * length t + 1 \<le> m \<Longrightarrow> items (Suc m) acc t = items m acc t"
  "2 * length t + 1 \<le> m \<Longrightarrow> members (Suc m) bcc t = members m bcc t"
proof (induction n s and m acc t and m bcc t rule: scan_value_items_members.induct)
  case (3 n c s)
  have "2 * length (skip s) + 1 \<le> n" using 3(3) skip_shorter [of s] by simp
  with "3.IH" show ?case by (simp add: scan_value.simps(3) split: option.split)
next
  case (5 n acc s)
  then have same: "scan_value (Suc n) s = scan_value n s" by simp
  have rest: "items (Suc n) (acc @ [w]) (skip u) = items n (acc @ [w]) (skip u)"
    if "scan_value n s = Some (w, t)" "eat (CHR '','') (skip t) = Some u" for w t u
  proof -
    have "2 * length (skip u) + 1 \<le> n"
      using consumes(1) [OF that(1)] eat_skip_shorter [OF that(2)] skip_shorter [of u] 5(3) by simp
    then show ?thesis using "5.IH"(2) [OF that(1) refl that(2)] by simp
  qed
  show ?case unfolding items.simps(2) [of "Suc n" acc s] items.simps(2) [of n acc s] same
    by (auto simp: rest simp del: items.simps split: option.split)
next
  case (7 n acc s)
  have same: "Option.bind (eat (CHR '':'') (skip q)) (\<lambda>t. scan_value (Suc n) (skip t)) =
      Option.bind (eat (CHR '':'') (skip q)) (\<lambda>t. scan_value n (skip t))"
    if "Option.bind (eat QUOTE s) (literal []) = Some (k, q)" for k q
  proof (cases "eat (CHR '':'') (skip q)")
    case (Some u)
    have "length q < length s" using that by (auto simp: bind_eq_Some_conv dest!: eat_shorter literal_shorter)
    then have "2 * length (skip u) \<le> n" using eat_skip_shorter [OF Some] skip_shorter [of u] 7(3) by simp
    with Some show ?thesis using "7.IH"(1) [OF that refl, of u] by simp
  qed simp
  have rest: "members (Suc n) (dset k w acc) (skip x) = members n (dset k w acc) (skip x)"
    if k: "Option.bind (eat QUOTE s) (literal []) = Some (k, q)"
      and w: "Option.bind (eat (CHR '':'') (skip q)) (\<lambda>t. scan_value n (skip t)) = Some (w, t)"
      and x: "eat (CHR '','') (skip t) = Some x" for k q w t x
  proof -
    obtain u where u: "eat (CHR '':'') (skip q) = Some u" "scan_value n (skip u) = Some (w, t)" using w by (auto simp: bind_eq_Some_conv)
    have "length q < length s" using k by (auto simp: bind_eq_Some_conv dest!: eat_shorter literal_shorter)
    then have "2 * length (skip x) + 1 \<le> n"
      using eat_skip_shorter [OF u(1)] skip_shorter [of u] consumes(1) [OF u(2)] eat_skip_shorter [OF x] skip_shorter [of x] 7(3) by simp
    then show ?thesis using "7.IH"(2) [OF k refl w refl x] by simp
  qed
  show ?case unfolding members.simps(2) [of "Suc n" acc s] members.simps(2) [of n acc s]
    by (auto simp: same rest simp del: members.simps scan_value.simps split: option.split)
qed simp_all

lemma scan_enough: "2 * length s \<le> n \<Longrightarrow> scan_value n s = scan_value (2 * length s) s"
  by (induction n rule: dec_induct) (simp_all add: one_more(1))

end
