(* ===== verification/GrpcServer.thy ===== *)
theory GrpcServer
  imports TaskService Json
begin

text \<open>
  The gRPC service of \<open>api/grpc_server.py\<close> over the task service. The messages of
  \<open>api/task_service.proto\<close> are records; an unset text is empty and an unset number 0, as in
  protocol buffers, whose constructors raise \<open>ValueError\<close> for an integer out of range and
  \<open>TypeError\<close> for a value of another type. A reply is a message or the status code that the
  handler sets; an exception that a handler does not catch leaves it. The server object and its
  threads are the gRPC library's.
\<close>

section \<open>Messages\<close>

record task_msg =
  m_schema_version :: string
  m_task_id :: string
  m_job_id :: string
  m_type :: string
  m_payload_json :: string
  m_priority :: int
  m_status :: string
  m_result_json :: string
  m_error_json :: string
  m_created_at :: string
  m_updated_at :: string
  m_version :: int
  m_deleted :: bool
  m_primary_node :: "nref option"
  m_replica_nodes :: "nref list"
  m_replication_factor :: int

definition int_field :: "nat \<Rightarrow> int \<Rightarrow> exn + int" where
  "int_field w n = (if - (2 ^ (w - 1)) \<le> n \<and> n < 2 ^ (w - 1) then Inr n else Inl (ValueError ''Value out of range''))"

fun message_text :: "json \<Rightarrow> exn + string" where
  "message_text (JStr s) = Inr s"
| "message_text JNull = Inr []"
| "message_text _ = Inl (TypeError ''bad argument type for built-in operation'')"

definition json_dumps :: "json \<Rightarrow> string" where
  "json_dumps v = (if v = JNull then [] else dumps v)"

definition json_loads :: "string \<Rightarrow> json option" where
  "json_loads text = (if text = [] then Some JNull else loads text)"

definition node_ref_from_dict :: "json \<Rightarrow> exn + nref option" where
  "node_ref_from_dict v =
     (if \<not> truthy v then Inr None
      else case v of
        JObj d \<Rightarrow>
          chain (py_int (dget_or (JInt 0) d ''id'')) (\<lambda>i.
          chain (int_field 32 i) (\<lambda>i.
          chain (message_text (dget_or (JStr []) d ''address'')) (\<lambda>a.
          Inr (Some \<lparr>ref_id = i, ref_addr = a\<rparr>))))
      | _ \<Rightarrow> Inl (AttributeError ''get''))"

text \<open>What a \<open>for\<close> loop over the value goes through.\<close>

fun iterated :: "json \<Rightarrow> exn + json list" where
  "iterated (JList xs) = Inr xs"
| "iterated (JStr s) = Inr (List.map (\<lambda>c. JStr [c]) s)"
| "iterated (JObj d) = Inr (List.map JStr (dkeys d))"
| "iterated _ = Inl (TypeError ''object is not iterable'')"

fun node_refs :: "json list \<Rightarrow> exn + nref list" where
  "node_refs [] = Inr []"
| "node_refs (v # vs) =
     chain (node_ref_from_dict v) (\<lambda>r.
     chain (node_refs vs) (\<lambda>rs.
     Inr (case r of Some x \<Rightarrow> x # rs | None \<Rightarrow> rs)))"

definition task_record_to_proto :: "json \<Rightarrow> exn + task_msg" where
  "task_record_to_proto rec =
     (let d = dict_of rec; text = (\<lambda>f. message_text (dget_or (JStr []) d f)) in
     chain (case dget_or (JObj []) d ''placement'' of JObj p \<Rightarrow> Inr p | _ \<Rightarrow> Inl (AttributeError ''get'')) (\<lambda>placement.
     chain (node_ref_from_dict (dget placement ''primary_node'')) (\<lambda>primary.
     chain (iterated (dget_or (JList []) placement ''replica_nodes'')) (\<lambda>rs.
     chain (node_refs rs) (\<lambda>replicas.
     chain (text ''task_id'') (\<lambda>task_id.
     chain (text ''job_id'') (\<lambda>job_id.
     chain (text ''type'') (\<lambda>type.
     chain (chain (py_int (dget_or (JInt 0) d ''priority'')) (int_field 32)) (\<lambda>priority.
     chain (text ''status'') (\<lambda>status.
     chain (text ''created_at'') (\<lambda>created.
     chain (text ''updated_at'') (\<lambda>updated.
     chain (chain (py_int (dget_or (JInt 0) d ''version'')) (int_field 64)) (\<lambda>version.
     chain (chain (py_int (dget_or (JInt 1) placement ''replication_factor'')) (int_field 32)) (\<lambda>factor.
     Inr \<lparr>m_schema_version = show_value (dget_or (JStr []) d ''schema_version''), m_task_id = task_id, m_job_id = job_id,
       m_type = type, m_payload_json = json_dumps (dget d ''payload''), m_priority = priority, m_status = status,
       m_result_json = json_dumps (dget d ''result''), m_error_json = json_dumps (dget d ''error''),
       m_created_at = created, m_updated_at = updated, m_version = version,
       m_deleted = truthy (dget_or (JBool False) d ''deleted''), m_primary_node = primary, m_replica_nodes = replicas,
       m_replication_factor = factor\<rparr>))))))))))))))"

definition set_node_msg :: "nref option \<Rightarrow> nref" where
  "set_node_msg r = (case r of Some x \<Rightarrow> x | None \<Rightarrow> \<lparr>ref_id = 0, ref_addr = []\<rparr>)"

text \<open>\<open>None\<close> when one of the nested texts is not JSON.\<close>

definition task_record_from_proto :: "task_msg \<Rightarrow> exn + json option" where
  "task_record_from_proto m =
     chain (if m_schema_version m = [] then Inr 1 else int_of_string (m_schema_version m)) (\<lambda>schema_version.
     Inr (case (json_loads (m_payload_json m), json_loads (m_result_json m), json_loads (m_error_json m)) of
       (Some payload, Some result, Some error) \<Rightarrow> Some (JObj
         [(''schema_version'', JInt schema_version),
          (''kind'', JStr ''task''),
          (''task_id'', JStr (m_task_id m)),
          (''job_id'', JStr (m_job_id m)),
          (''type'', JStr (m_type m)),
          (''payload'', payload),
          (''priority'', JInt (m_priority m)),
          (''status'', JStr (m_status m)),
          (''result'', result),
          (''error'', error),
          (''created_at'', JStr (m_created_at m)),
          (''updated_at'', JStr (m_updated_at m)),
          (''version'', JInt (m_version m)),
          (''deleted'', JBool (m_deleted m)),
          (''placement'', JObj
            [(''primary_node'', ref_json (set_node_msg (m_primary_node m))),
             (''replication_factor'', JInt (m_replication_factor m)),
             (''replica_nodes'', JList (List.map ref_json (m_replica_nodes m)))])])
     | _ \<Rightarrow> None))"

section \<open>The task service\<close>

datatype code = INVALID_ARGUMENT | ALREADY_EXISTS | NOT_FOUND | INTERNAL

datatype 'a grpc_reply = Response 'a | Code code

text \<open>The \<open>except\<close> clauses of a handler.\<close>

definition excepting :: "(exn \<Rightarrow> code option) \<Rightarrow> ('s, 'a grpc_reply) act \<Rightarrow> ('s, 'a grpc_reply) act" where
  "excepting clauses m = catch m (\<lambda>e. case clauses e of Some c \<Rightarrow> ret (Code c) | None \<Rightarrow> throw e)"

fun invalid :: "exn \<Rightarrow> code option" where
  "invalid (TaskValidationError _) = Some INVALID_ARGUMENT"
| "invalid _ = None"

fun invalid_or_conflict :: "exn \<Rightarrow> code option" where
  "invalid_or_conflict (TaskConflictError _) = Some ALREADY_EXISTS"
| "invalid_or_conflict e = invalid e"

fun invalid_or_missing :: "exn \<Rightarrow> code option" where
  "invalid_or_missing (TaskNotFoundError _) = Some NOT_FOUND"
| "invalid_or_missing e = invalid e"

definition replication_state :: "storage_result \<Rightarrow> string" where
  "replication_state r = (if sr_complete r then ''COMPLETE'' else ''DEGRADED'')"

record register_request =
  rq_task_id :: string
  rq_job_id :: string
  rq_type :: string
  rq_payload_json :: string
  rq_priority :: int

record register_response =
  rs_task :: task_msg
  rs_task_key :: string
  rs_replication_state :: string

definition register_payload :: "register_request \<Rightarrow> json \<Rightarrow> jdict" where
  "register_payload rq payload =
     [(''task_id'', py_or (JStr (rq_task_id rq)) JNull),
      (''job_id'', JStr (rq_job_id rq)),
      (''type'', JStr (rq_type rq)),
      (''payload'', py_or payload (JObj [])),
      (''priority'', JInt (rq_priority rq))]"

definition RegisterTask ::
  "nat \<Rightarrow> string \<Rightarrow> int \<Rightarrow> string \<Rightarrow> register_request \<Rightarrow> ('z net_scheme, register_response grpc_reply) act" where
  "RegisterTask fuel me k generated rq = excepting invalid_or_conflict
     (case json_loads (rq_payload_json rq) of
        None \<Rightarrow> ret (Code INVALID_ARGUMENT)
      | Some payload \<Rightarrow>
          andthen (register_task fuel me k generated (JObj (register_payload rq payload))) (\<lambda>r.
          andthen (lift (task_record_to_proto (tr_task r))) (\<lambda>m.
          ret (Response \<lparr>rs_task = m, rs_task_key = tr_key r, rs_replication_state = replication_state (tr_storage r)\<rparr>))))"

definition GetTask :: "nat \<Rightarrow> string \<Rightarrow> int \<Rightarrow> string \<Rightarrow> bool \<Rightarrow> ('z net_scheme, task_msg grpc_reply) act" where
  "GetTask fuel me k task_id allow_replica_read = excepting invalid
     (andthen (get_task fuel me k (JStr task_id) allow_replica_read) (\<lambda>t.
      case t of
        None \<Rightarrow> ret (Code NOT_FOUND)
      | Some task \<Rightarrow> andthen (lift (task_record_to_proto task)) (\<lambda>m. ret (Response m))))"

record deregister_response =
  ds_task_id :: string
  ds_task_key :: string
  ds_hard_delete :: bool
  ds_replication_state :: string

text \<open>The result of a soft deletion names no \<open>task_id\<close>, so the one of the request stands in.\<close>

definition DeregisterTask :: "nat \<Rightarrow> string \<Rightarrow> int \<Rightarrow> string \<Rightarrow> bool \<Rightarrow> ('z net_scheme, deregister_response grpc_reply) act" where
  "DeregisterTask fuel me k task_id hard_delete = excepting invalid_or_missing
     (andthen (deregister_task fuel me k (JStr task_id) hard_delete) (\<lambda>r.
      ret (Response \<lparr>ds_task_id = task_id, ds_task_key = tr_key r, ds_hard_delete = hard_delete,
        ds_replication_state = replication_state (tr_storage r)\<rparr>)))"

fun to_protos :: "json list \<Rightarrow> exn + task_msg list" where
  "to_protos [] = Inr []"
| "to_protos (t # ts) = chain (task_record_to_proto t) (\<lambda>m. chain (to_protos ts) (\<lambda>ms. Inr (m # ms)))"

text \<open>An empty text asks for every job or status, a limit that is not positive for at most 100 tasks.\<close>

definition QueryTasks :: "string \<Rightarrow> string \<Rightarrow> string \<Rightarrow> bool \<Rightarrow> int \<Rightarrow> ('z net_scheme, task_msg list) act" where
  "QueryTasks me job_id status include_deleted limit =
     andthen (read_node me (query_local_tasks (if job_id = [] then None else Some job_id)
         (if status = [] then None else Some status) include_deleted (if 0 < limit then limit else 100))) (\<lambda>tasks.
     lift (to_protos tasks))"

record owner_response =
  ow_task_id :: string
  ow_task_key :: string
  ow_primary :: "nref option"
  ow_replicas :: "nref list"

definition LookupTaskOwner :: "nat \<Rightarrow> string \<Rightarrow> int \<Rightarrow> string \<Rightarrow> ('z net_scheme, owner_response grpc_reply) act" where
  "LookupTaskOwner fuel me k task_id = excepting invalid
     (andthen (lookup_owner fuel me k (JStr task_id)) (\<lambda>r.
      andthen (lift (node_ref_from_dict (ref_json (oi_primary r)))) (\<lambda>primary.
      andthen (lift (node_refs (List.map ref_json (oi_replicas r)))) (\<lambda>replicas.
      ret (Response \<lparr>ow_task_id = task_id, ow_task_key = oi_key r, ow_primary = primary, ow_replicas = replicas\<rparr>)))))"

record node_info =
  ni_node_id :: int
  ni_address :: string
  ni_successor :: "nref option"
  ni_predecessor :: "nref option"
  ni_data_keys :: "string list"

definition GetNodeInfo :: "string \<Rightarrow> string \<Rightarrow> ('z net_scheme, node_info grpc_reply) act" where
  "GetNodeInfo me addr = excepting (\<lambda>_. Some INTERNAL)
     (andthen (get_node_state me (if addr = [] then None else Some addr)) (\<lambda>st.
      andthen (lift (int_field 32 (st_node_id st))) (\<lambda>node_id.
      andthen (lift (node_ref_from_dict (ref_json (st_successor st)))) (\<lambda>succ.
      andthen (lift (case st_predecessor st of None \<Rightarrow> Inr None | Some p \<Rightarrow> node_ref_from_dict (ref_json p))) (\<lambda>pred.
      ret (Response \<lparr>ni_node_id = node_id, ni_address = st_address st, ni_successor = succ, ni_predecessor = pred,
        ni_data_keys = st_data_keys st\<rparr>))))))"

definition ReplicateTask :: "string \<Rightarrow> string \<Rightarrow> task_msg \<Rightarrow> ('z net_scheme, string grpc_reply) act" where
  "ReplicateTask me task_key task = excepting invalid
     (andthen (lift (task_record_from_proto task)) (\<lambda>r.
      case r of
        None \<Rightarrow> ret (Code INVALID_ARGUMENT)
      | Some rec \<Rightarrow> andthen (store_replica_local me task_key rec) (\<lambda>_. ret (Response task_key))))"

section \<open>Records that fit a message\<close>

definition in_width :: "nat \<Rightarrow> int \<Rightarrow> bool" where
  "in_width w n \<longleftrightarrow> - (2 ^ (w - 1)) \<le> n \<and> n < 2 ^ (w - 1)"

lemma int_field_ok: "in_width w n \<Longrightarrow> int_field w n = Inr n"
  by (simp add: int_field_def in_width_def)

definition wire_record ::
  "string \<Rightarrow> string \<Rightarrow> string \<Rightarrow> json \<Rightarrow> int \<Rightarrow> string \<Rightarrow> json \<Rightarrow> json \<Rightarrow> string \<Rightarrow> string \<Rightarrow> int \<Rightarrow> bool \<Rightarrow> nref \<Rightarrow> int \<Rightarrow> nref list \<Rightarrow> json" where
  "wire_record task_id job_id type payload priority status result error created updated version deleted primary factor replicas =
     JObj
       [(''schema_version'', JInt 1), (''kind'', JStr ''task''), (''task_id'', JStr task_id), (''job_id'', JStr job_id),
        (''type'', JStr type), (''payload'', payload), (''priority'', JInt priority), (''status'', JStr status),
        (''result'', result), (''error'', error), (''created_at'', JStr created), (''updated_at'', JStr updated),
        (''version'', JInt version), (''deleted'', JBool deleted),
        (''placement'', JObj
          [(''primary_node'', ref_json primary), (''replication_factor'', JInt factor),
           (''replica_nodes'', JList (List.map ref_json replicas))])]"

text \<open>
  A record with the fields that \<open>create_task_record\<close> gives it, whose numbers fit the message and
  whose nested values have no fractions.
\<close>

definition fits :: "json \<Rightarrow> bool" where
  "fits rec \<longleftrightarrow>
     (\<exists>tid job ty pay prio st res err cr up ver del prim rf reps.
        rec = wire_record tid job ty pay prio st res err cr up ver del prim rf reps \<and>
        plain pay \<and> plain res \<and> plain err \<and> in_width 32 prio \<and> in_width 64 ver \<and> in_width 32 rf \<and>
        (\<forall>r \<in> set (prim # reps). in_width 32 (ref_id r)))"

lemma json_round_trip: "plain v \<Longrightarrow> json_loads (json_dumps v) = Some v"
  using opens_dumps [of v] loads_dumps [of v] by (auto simp: json_loads_def json_dumps_def opens_def)

lemma node_ref_round_trip: "in_width 32 (ref_id r) \<Longrightarrow> node_ref_from_dict (ref_json r) = Inr (Some r)"
  by (simp add: node_ref_from_dict_def ref_json_def dget_or_Cons int_field_ok)

lemma node_refs_round_trip: "\<forall>r \<in> set rs. in_width 32 (ref_id r) \<Longrightarrow> node_refs (List.map ref_json rs) = Inr rs"
  by (induction rs) (simp_all add: node_ref_round_trip)

text \<open>
  The message of a task record carries the whole record: a record with the fields that
  \<open>create_task_record\<close> gives it, numbers that fit the fields and nested values without fractions
  is turned into a message without an exception, and the message back into the same record,
  through the JSON text of its payload, result and error.
\<close>

theorem proto_round_trip:
  assumes "fits rec"
  shows "\<exists>m. task_record_to_proto rec = Inr m \<and> task_record_from_proto m = Inr (Some rec)"
proof -
  obtain tid job ty pay prio st res err cr up ver del prim rf reps where
    rec: "rec = wire_record tid job ty pay prio st res err cr up ver del prim rf reps"
    and plain: "plain pay" "plain res" "plain err" and width: "in_width 32 prio" "in_width 64 ver" "in_width 32 rf"
    "in_width 32 (ref_id prim)" "\<forall>r \<in> set reps. in_width 32 (ref_id r)"
    using assms by (auto simp: fits_def)
  have "int_of_string (show_int 1) = Inr 1" "show_int 1 \<noteq> []" using int_of_show_int show_int_hd by blast+
  then show ?thesis
    by (simp add: rec wire_record_def task_record_to_proto_def task_record_from_proto_def dget_or_Cons width plain
        node_ref_round_trip node_refs_round_trip int_field_ok json_round_trip set_node_msg_def Let_def)
qed

lemma create_wire:
  assumes "create_task_record now g (JObj (register_payload rq p)) (ref_json r) k (JStr i) = Inr rec"
    and "is_nonblank (JStr i)" and "is_nonblank (JStr (rq_job_id rq))" and "is_nonblank (JStr (rq_type rq))"
  shows "rec = wire_record (strip i) (strip (rq_job_id rq)) (strip (rq_type rq)) (py_or p (JObj [])) (rq_priority rq)
    ''REGISTERED'' JNull JNull (utc_now_iso now) (utc_now_iso now) 1 False r (max 1 k) []"
proof -
  have "i \<noteq> []" using assms(2) by (auto simp: strip_def)
  with assms show ?thesis
    by (simp add: create_task_record_def register_payload_def wire_record_def dget_or_Cons dkeys_def py_or_def chain_eq_Inr
        Let_def TASK_STATUSES_def TASK_SCHEMA_VERSION_def TASK_KIND_def split: if_splits)
qed

lemma set_replica_nodes_wire:
  assumes "set_replica_nodes now (wire_record tid job ty pay prio st res err cr up ver del prim rf rs0) (List.map ref_json rs) = Inr rec"
  shows "rec = wire_record tid job ty pay prio st res err cr (utc_now_iso now) (ver + 1) del prim rf rs"
  using assms
  by (simp add: set_replica_nodes_def wire_record_def dindex_def bump_def chain_eq_Inr Let_def dget_or_Cons)

lemma stable_in_width: "stable A s \<Longrightarrow> refers A s r \<Longrightarrow> in_width 32 (ref_id r)"
  using stable_is_id [of A s r] by (simp add: is_id_def ring_size_256 in_width_def)

text \<open>What is registered for a request.\<close>

lemma registered_wire:
  assumes st: "stable A s" and reg: "registered_as A s k g (register_payload rq p) rec"
    and g: "is_nonblank (JStr g)" and job: "is_nonblank (JStr (rq_job_id rq))" "is_nonblank (JStr (rq_type rq))"
  obtains cr up r rs where "rec = wire_record (strip g) (strip (rq_job_id rq)) (strip (rq_type rq)) (py_or p (JObj []))
      (rq_priority rq) ''REGISTERED'' JNull JNull cr up 2 False r (max 1 k) rs" "\<forall>q \<in> set (r # rs). in_width 32 (ref_id q)"
proof -
  obtain now now' r rs rec0 where r: "refers A s r" "\<forall>q \<in> set rs. refers A s q"
    and rec0: "create_task_record now g (JObj (register_payload rq p)) (ref_json r) k (JStr (strip g)) = Inr rec0"
    and rec: "set_replica_nodes now' rec0 (List.map ref_json rs) = Inr rec"
    using reg unfolding registered_as_def by blast
  have "is_nonblank (JStr (strip g))" using g by simp
  from rec [unfolded create_wire [OF rec0 this job], THEN set_replica_nodes_wire] show thesis
    using stable_in_width [OF st] r by (intro that) auto
qed

lemma wire_to_proto:
  assumes "plain pay" "plain res" "plain err" "in_width 32 prio" "in_width 64 ver" "in_width 32 rf" "\<forall>q \<in> set (r # rs). in_width 32 (ref_id q)"
  shows "task_record_to_proto (wire_record tid job ty pay prio st res err cr up ver del r rf rs) = Inr
    \<lparr>m_schema_version = show_int 1, m_task_id = tid, m_job_id = job, m_type = ty, m_payload_json = json_dumps pay,
     m_priority = prio, m_status = st, m_result_json = json_dumps res, m_error_json = json_dumps err, m_created_at = cr,
     m_updated_at = up, m_version = ver, m_deleted = del, m_primary_node = Some r, m_replica_nodes = rs,
     m_replication_factor = rf\<rparr>"
  using assms
  by (simp add: wire_record_def task_record_to_proto_def dget_or_Cons node_ref_round_trip node_refs_round_trip int_field_ok Let_def)

section \<open>Registering and reading\<close>

lemma register_payload_acceptable:
  assumes "rq_task_id rq = []" and "is_nonblank (JStr (rq_job_id rq))" and "is_nonblank (JStr (rq_type rq))"
  shows "acceptable (register_payload rq p)"
  using assms by (simp add: acceptable_def register_payload_def dget_or_Cons dkeys_def py_or_def TASK_STATUSES_def)

text \<open>
  The same message up to the text of its payload, which is read as the same JSON value but for the
  order of the keys of dictionaries.
\<close>

definition same_payload :: "string \<Rightarrow> string \<Rightarrow> bool" where
  "same_payload text text' \<longleftrightarrow>
     (case (json_loads text, json_loads text') of (Some v, Some w) \<Rightarrow> same_json v w | _ \<Rightarrow> False)"

definition same_task :: "task_msg \<Rightarrow> task_msg \<Rightarrow> bool" where
  "same_task m m' \<longleftrightarrow> m\<lparr>m_payload_json := []\<rparr> = m'\<lparr>m_payload_json := []\<rparr> \<and>
     same_payload (m_payload_json m) (m_payload_json m')"


text \<open>A request whose payload is the text \<open>{"n": [1, -20]}\<close> with a blank too many.\<close>

definition demo_request :: register_request where
  "demo_request = \<lparr>rq_task_id = [], rq_job_id = '' j '', rq_type = ''t'',
     rq_payload_json = CHR ''{'' # QUOTE # ''n'' @ QUOTE # '':  [1, -20]}'', rq_priority = 5\<rparr>"


definition demo_record :: json where
  "demo_record = wire_record ''t1'' ''j'' ''t'' (JObj [(''n'', JInt 1)]) 5 ''COMPLETED'' (JStr [QUOTE]) JNull ''then'' ''now'' 7 False
     \<lparr>ref_id = 10, ref_addr = ''a''\<rparr> 2 [\<lparr>ref_id = 100, ref_addr = ''b''\<rparr>]"

theorem proto_round_trip_witness:
  "\<exists>m. task_record_to_proto demo_record = Inr m \<and> task_record_from_proto m = Inr (Some demo_record)"
proof -
  have "fits demo_record"
    unfolding fits_def demo_record_def
    by (intro exI conjI, rule refl) (simp_all add: wf_dict_def dkeys_def in_width_def)
  then show ?thesis by (rule proto_round_trip)
qed

end
