(* ===== verification/Simulator.thy ===== *)
theory Simulator
  imports Python
begin

text \<open>
  The simulator's nodes and the stand-ins around them, \<open>simulator/virtual_node.py\<close> and
  \<open>simulator/stubs.py\<close>. A float is the rational it stands for, without rounding. The time is an
  argument; \<open>random.choice\<close> is a parameter that maps the length of the list to an index.
\<close>

section \<open>Virtual nodes\<close>

datatype NodeState = HEALTHY | FAILED | RECOVERING

record NodeProfile =
  cpu_capacity :: rat
  memory_capacity :: rat
  disk_capacity :: rat
  network_latency_ms :: rat

definition make_profile :: "rat \<Rightarrow> rat \<Rightarrow> rat \<Rightarrow> rat \<Rightarrow> exn + NodeProfile" where
  "make_profile cpu memory disk latency =
     (if cpu \<le> 0 then Inl (ValueError ''cpu_capacity must be > 0'')
      else if memory \<le> 0 then Inl (ValueError ''memory_capacity must be > 0'')
      else if disk \<le> 0 then Inl (ValueError ''disk_capacity must be > 0'')
      else if latency < 0 then Inl (ValueError ''network_latency_ms must be >= 0'')
      else Inr \<lparr>cpu_capacity = cpu, memory_capacity = memory, disk_capacity = disk, network_latency_ms = latency\<rparr>)"

record queued_task =
  q_task_id :: string
  q_cpu_required :: rat
  q_memory_required :: rat
  q_submitted_at :: rat

record VirtualNode =
  v_node_id :: int
  v_profile :: NodeProfile
  v_state :: NodeState
  v_failed_at :: "rat option"
  cpu_load :: rat
  memory_load :: rat
  task_queue :: "queued_task list"
  tasks_executed :: int
  tasks_failed :: int
  v_created_at :: rat

definition new_node :: "rat \<Rightarrow> int \<Rightarrow> NodeProfile \<Rightarrow> VirtualNode" where
  "new_node now i profile =
     \<lparr>v_node_id = i, v_profile = profile, v_state = HEALTHY, v_failed_at = None, cpu_load = 0, memory_load = 0,
      task_queue = [], tasks_executed = 0, tasks_failed = 0, v_created_at = now\<rparr>"

definition fail :: "rat \<Rightarrow> VirtualNode \<Rightarrow> VirtualNode" where
  "fail now n = n\<lparr>v_state := FAILED, v_failed_at := Some now\<rparr>"

definition recover :: "VirtualNode \<Rightarrow> VirtualNode" where
  "recover n = n\<lparr>v_state := HEALTHY, v_failed_at := None\<rparr>"

definition is_healthy :: "VirtualNode \<Rightarrow> bool" where
  "is_healthy n \<longleftrightarrow> v_state n = HEALTHY"

definition get_cpu_utilization :: "VirtualNode \<Rightarrow> rat" where
  "get_cpu_utilization n = cpu_load n / cpu_capacity (v_profile n) * 100"

definition get_memory_utilization :: "VirtualNode \<Rightarrow> rat" where
  "get_memory_utilization n = memory_load n / memory_capacity (v_profile n) * 100"

definition submit_task :: "rat \<Rightarrow> string \<Rightarrow> rat \<Rightarrow> rat \<Rightarrow> VirtualNode \<Rightarrow> bool \<times> VirtualNode" where
  "submit_task now tid cpu memory n =
     (if cpu_load n + cpu > cpu_capacity (v_profile n) then (False, n)
      else if memory_load n + memory > memory_capacity (v_profile n) then (False, n)
      else (True, n\<lparr>
        task_queue := task_queue n @
          [\<lparr>q_task_id = tid, q_cpu_required = cpu, q_memory_required = memory, q_submitted_at = now\<rparr>],
        cpu_load := cpu_load n + cpu,
        memory_load := memory_load n + memory\<rparr>))"

text \<open>The first task of that name leaves the queue.\<close>

definition complete_task :: "string \<Rightarrow> VirtualNode \<Rightarrow> VirtualNode" where
  "complete_task tid n =
     (case List.find (\<lambda>t. q_task_id t = tid) (task_queue n) of
        None \<Rightarrow> n
      | Some t \<Rightarrow> n\<lparr>
          cpu_load := cpu_load n - q_cpu_required t,
          memory_load := memory_load n - q_memory_required t,
          task_queue := remove1 t (task_queue n),
          tasks_executed := tasks_executed n + 1\<rparr>)"

section \<open>The stand-in for the service layer\<close>

record node_entry =
  e_cpu_capacity :: rat
  e_memory_capacity :: rat
  e_disk_capacity :: rat
  e_is_healthy :: bool

record StubServiceLayer =
  tasks_registry :: "(string \<times> jdict) list"
  nodes_registry :: "(int \<times> node_entry) list"

definition empty_service :: StubServiceLayer where
  "empty_service = \<lparr>tasks_registry = [], nodes_registry = []\<rparr>"

definition register_node :: "int \<Rightarrow> VirtualNode \<Rightarrow> StubServiceLayer \<Rightarrow> StubServiceLayer" where
  "register_node i n s = s\<lparr>nodes_registry := AList.update i
     \<lparr>e_cpu_capacity = cpu_capacity (v_profile n), e_memory_capacity = memory_capacity (v_profile n),
      e_disk_capacity = disk_capacity (v_profile n), e_is_healthy = is_healthy n\<rparr> (nodes_registry s)\<rparr>"

definition deregister_node :: "int \<Rightarrow> StubServiceLayer \<Rightarrow> StubServiceLayer" where
  "deregister_node i s = s\<lparr>nodes_registry := AList.delete i (nodes_registry s)\<rparr>"

definition put_task :: "string \<Rightarrow> jdict \<Rightarrow> StubServiceLayer \<Rightarrow> StubServiceLayer" where
  "put_task tid metadata s = s\<lparr>tasks_registry := AList.update tid metadata (tasks_registry s)\<rparr>"

definition get_task :: "string \<Rightarrow> StubServiceLayer \<Rightarrow> jdict option" where
  "get_task tid s = map_of (tasks_registry s) tid"

definition get_all_nodes :: "StubServiceLayer \<Rightarrow> int list" where
  "get_all_nodes s = List.map fst (nodes_registry s)"

definition get_node_info :: "int \<Rightarrow> StubServiceLayer \<Rightarrow> node_entry option" where
  "get_node_info i s = map_of (nodes_registry s) i"

section \<open>The stand-in for the placement agent\<close>

definition STRATEGIES :: "string list" where
  "STRATEGIES = [''random'', ''round_robin'', ''least_loaded'']"

record StubPlacementAgent =
  strategy :: string
  round_robin_index :: nat

definition make_agent :: "string \<Rightarrow> exn + StubPlacementAgent" where
  "make_agent name =
     (if name \<notin> set STRATEGIES then Inl (ValueError ''Unknown strategy'')
      else Inr \<lparr>strategy = name, round_robin_index = 0\<rparr>)"

text \<open>\<open>min(nodes, key=lambda n: n.get_cpu_utilization())\<close>\<close>

fun min_utilization :: "VirtualNode \<Rightarrow> VirtualNode list \<Rightarrow> VirtualNode" where
  "min_utilization best [] = best"
| "min_utilization best (n # ns) =
     min_utilization (if get_cpu_utilization n < get_cpu_utilization best then n else best) ns"

definition fits_on :: "rat \<Rightarrow> rat \<Rightarrow> VirtualNode \<Rightarrow> bool" where
  "fits_on cpu memory n \<longleftrightarrow>
     cpu_load n + cpu \<le> cpu_capacity (v_profile n) \<and> memory_load n + memory \<le> memory_capacity (v_profile n)"

definition select_placement ::
  "(nat \<Rightarrow> nat) \<Rightarrow> VirtualNode list \<Rightarrow> rat \<Rightarrow> rat \<Rightarrow> StubPlacementAgent \<Rightarrow> int option \<times> StubPlacementAgent" where
  "select_placement choice nodes cpu memory agent =
     (let healthy = filter is_healthy nodes; capable = filter (fits_on cpu memory) healthy in
      if healthy = [] then (None, agent)
      else if capable = [] then (None, agent)
      else if strategy agent = ''random'' then (Some (v_node_id (capable ! choice (length capable))), agent)
      else if strategy agent = ''round_robin'' then
        (Some (v_node_id (capable ! (round_robin_index agent mod length capable))),
         agent\<lparr>round_robin_index := round_robin_index agent + 1\<rparr>)
      else if strategy agent = ''least_loaded'' then (Some (v_node_id (min_utilization (hd capable) (tl capable))), agent)
      else (Some (v_node_id (capable ! choice (length capable))), agent))"

definition decide_replication :: "string \<Rightarrow> int" where
  "decide_replication priority =
     (case map_of [(''low'', 1), (''medium'', 2), (''high'', 3)] priority of Some r \<Rightarrow> r | None \<Rightarrow> 1)"

definition decide_recovery :: "VirtualNode list \<Rightarrow> int option" where
  "decide_recovery nodes =
     (case filter is_healthy nodes of
        [] \<Rightarrow> None
      | n # ns \<Rightarrow> Some (v_node_id (min_utilization n ns)))"

section \<open>Accounting\<close>

text \<open>The load of a node is what its queued tasks require, and the node can bear it.\<close>

definition accounted :: "VirtualNode \<Rightarrow> bool" where
  "accounted n \<longleftrightarrow>
     cpu_load n = sum_list (List.map q_cpu_required (task_queue n)) \<and>
     memory_load n = sum_list (List.map q_memory_required (task_queue n)) \<and>
     cpu_load n \<le> cpu_capacity (v_profile n) \<and> memory_load n \<le> memory_capacity (v_profile n) \<and>
     (\<forall>t \<in> set (task_queue n). 0 \<le> q_cpu_required t \<and> 0 \<le> q_memory_required t)"

lemma accounted_new:
  "make_profile cpu memory disk latency = Inr p \<Longrightarrow> accounted (new_node now i p)"
  by (auto simp: make_profile_def accounted_def new_node_def split: if_splits)

lemma accounted_fail [simp]: "accounted (fail now n) = accounted n"
  by (simp add: accounted_def fail_def)

lemma accounted_recover [simp]: "accounted (recover n) = accounted n"
  by (simp add: accounted_def recover_def)

lemma accounted_submit:
  "accounted n \<Longrightarrow> 0 \<le> cpu \<Longrightarrow> 0 \<le> memory \<Longrightarrow> accounted (snd (submit_task now tid cpu memory n))"
  by (auto simp: accounted_def submit_task_def)

lemma find_member: "List.find P xs = Some x \<Longrightarrow> x \<in> set xs \<and> P x"
  by (metis find_Some_iff nth_mem)

lemma sum_list_remove1:
  fixes f :: "'a \<Rightarrow> rat"
  shows "x \<in> set xs \<Longrightarrow> sum_list (List.map f (remove1 x xs)) = sum_list (List.map f xs) - f x"
  by (induction xs) auto

lemma accounted_complete: "accounted n \<Longrightarrow> accounted (complete_task tid n)"
proof (cases "List.find (\<lambda>t. q_task_id t = tid) (task_queue n)")
  case None
  then show "accounted n \<Longrightarrow> ?thesis" by (simp add: complete_task_def)
next
  case (Some t)
  assume n: "accounted n"
  have t: "t \<in> set (task_queue n)" using find_member [OF Some] by blast
  then have "cpu_load n - q_cpu_required t \<le> cpu_load n" "memory_load n - q_memory_required t \<le> memory_load n"
    using n by (auto simp: accounted_def)
  then have "cpu_load n - q_cpu_required t \<le> cpu_capacity (v_profile n)"
    "memory_load n - q_memory_required t \<le> memory_capacity (v_profile n)"
    using n by (auto simp: accounted_def intro: order_trans)
  moreover have "\<forall>t' \<in> set (remove1 t (task_queue n)). 0 \<le> q_cpu_required t' \<and> 0 \<le> q_memory_required t'"
    using n set_remove1_subset by (fastforce simp: accounted_def)
  ultimately show ?thesis
    using n Some t by (simp add: accounted_def complete_task_def sum_list_remove1)
qed

text \<open>A task that is submitted and completed leaves the node as it was, but for the counter.\<close>

lemma complete_submit:
  assumes "submit_task now tid cpu memory n = (True, n')" and "\<forall>t \<in> set (task_queue n). q_task_id t \<noteq> tid"
  shows "complete_task tid n' = n\<lparr>tasks_executed := tasks_executed n + 1\<rparr>"
proof -
  let ?t = "\<lparr>q_task_id = tid, q_cpu_required = cpu, q_memory_required = memory, q_submitted_at = now\<rparr>"
  have "List.find (\<lambda>t. q_task_id t = tid) (q @ [?t]) = Some ?t" if "\<forall>t \<in> set q. q_task_id t \<noteq> tid" for q
    using that by (induction q) auto
  from this [OF assms(2)] have "List.find (\<lambda>t. q_task_id t = tid) (task_queue n @ [?t]) = Some ?t" .
  moreover have "?t \<notin> set (task_queue n)" using assms(2) by auto
  ultimately show ?thesis
    using assms(1) by (auto simp: submit_task_def complete_task_def remove1_append split: if_splits)
qed

section \<open>Placement\<close>

lemma min_utilization_member: "min_utilization b ns \<in> set (b # ns)"
  by (induction ns arbitrary: b) (auto split: if_splits)

lemma min_utilization_least: "n \<in> set (b # ns) \<Longrightarrow> get_cpu_utilization (min_utilization b ns) \<le> get_cpu_utilization n"
proof (induction ns arbitrary: b n)
  case (Cons m ns)
  let ?c = "if get_cpu_utilization m < get_cpu_utilization b then m else b"
  have "get_cpu_utilization (min_utilization ?c ns) \<le> get_cpu_utilization ?c" by (rule Cons.IH) simp
  moreover have "n \<in> set ns \<Longrightarrow> get_cpu_utilization (min_utilization ?c ns) \<le> get_cpu_utilization n"
    by (rule Cons.IH) simp
  moreover have "get_cpu_utilization ?c \<le> get_cpu_utilization b" "get_cpu_utilization ?c \<le> get_cpu_utilization m" by auto
  ultimately show ?case using Cons.prems by (auto simp del: if_split_asm if_split intro: order_trans)
qed simp

end
