(* ===== verification/SimMetrics.thy ===== *)
theory SimMetrics
  imports Simulator
begin

text \<open>
  The metrics of simulation runs, \<open>simulator/metrics.py\<close>. A summary is a record; a section the
  code leaves out is \<open>None\<close>. The collector's active run is the identifier of a run it stores,
  since both always name the same object.
\<close>

section \<open>One run\<close>

record PlacementMetric =
  p_job_id :: string
  p_placement_time_ms :: rat
  p_selected_node_id :: int
  p_cpu_required :: rat
  p_memory_required :: rat
  p_success :: bool
  p_reason :: "string option"

record ExecutionMetric =
  x_job_id :: string
  x_node_id :: int
  x_execution_time_ms :: rat
  x_cpu_utilized :: rat
  x_memory_utilized :: rat

record RecoveryMetric =
  r_fault_id :: string
  r_failed_node_id :: int
  r_time_to_recovery_start_ms :: rat
  r_recovery_duration_ms :: "rat option"
  r_recovery_success :: bool

record RunMetrics =
  run_id :: string
  run_strategy :: string
  num_nodes :: int
  num_jobs :: int
  placements :: "PlacementMetric list"
  executions :: "ExecutionMetric list"
  recoveries :: "RecoveryMetric list"
  start_time :: rat
  end_time :: "rat option"

definition add_placement :: "PlacementMetric \<Rightarrow> RunMetrics \<Rightarrow> RunMetrics" where
  "add_placement m r = r\<lparr>placements := placements r @ [m]\<rparr>"

definition add_execution :: "ExecutionMetric \<Rightarrow> RunMetrics \<Rightarrow> RunMetrics" where
  "add_execution m r = r\<lparr>executions := executions r @ [m]\<rparr>"

definition add_recovery :: "RecoveryMetric \<Rightarrow> RunMetrics \<Rightarrow> RunMetrics" where
  "add_recovery m r = r\<lparr>recoveries := recoveries r @ [m]\<rparr>"

definition finalize :: "rat \<Rightarrow> RunMetrics \<Rightarrow> RunMetrics" where
  "finalize now r = r\<lparr>end_time := Some now\<rparr>"

section \<open>Summaries\<close>

text \<open>\<open>statistics.mean\<close>, \<open>min\<close> and \<open>max\<close> of a list that is not empty.\<close>

definition mean :: "rat list \<Rightarrow> rat" where
  "mean xs = sum_list xs / of_nat (length xs)"

definition least :: "rat list \<Rightarrow> rat" where
  "least xs = fold min (tl xs) (hd xs)"

definition greatest :: "rat list \<Rightarrow> rat" where
  "greatest xs = fold max (tl xs) (hd xs)"

record placement_summary =
  ps_total :: nat
  ps_successful :: nat
  ps_failed :: nat
  ps_success_rate :: rat
  ps_avg_time :: rat
  ps_max_time :: rat
  ps_min_time :: rat

record execution_summary =
  es_total :: nat
  es_avg_time :: rat
  es_min_time :: rat
  es_max_time :: rat
  es_avg_cpu :: rat
  es_avg_memory :: rat

record recovery_summary =
  rs_total_faults :: nat
  rs_successful :: nat
  rs_avg_start :: rat
  rs_avg_duration :: "rat option"

record run_summary =
  sm_run_id :: string
  sm_strategy :: string
  sm_num_nodes :: int
  sm_num_jobs :: int
  sm_runtime :: "rat option"
  sm_placement :: "placement_summary option"
  sm_execution :: "execution_summary option"
  sm_recovery :: "recovery_summary option"

definition placement_section :: "PlacementMetric list \<Rightarrow> placement_summary option" where
  "placement_section ps =
     (if ps = [] then None
      else
        let times = List.map p_placement_time_ms ps; successful = length (filter p_success ps) in
        Some \<lparr>ps_total = length ps, ps_successful = successful, ps_failed = length ps - successful,
          ps_success_rate = of_nat successful / of_nat (length ps) * 100,
          ps_avg_time = mean times, ps_max_time = greatest times, ps_min_time = least times\<rparr>)"

definition execution_section :: "ExecutionMetric list \<Rightarrow> execution_summary option" where
  "execution_section xs =
     (if xs = [] then None
      else
        let times = List.map x_execution_time_ms xs in
        Some \<lparr>es_total = length xs, es_avg_time = mean times, es_min_time = least times, es_max_time = greatest times,
          es_avg_cpu = mean (List.map x_cpu_utilized xs), es_avg_memory = mean (List.map x_memory_utilized xs)\<rparr>)"

definition recovery_section :: "RecoveryMetric list \<Rightarrow> recovery_summary option" where
  "recovery_section rs =
     (if rs = [] then None
      else
        let times = List.map_filter r_recovery_duration_ms rs in
        Some \<lparr>rs_total_faults = length rs, rs_successful = length (filter r_recovery_success rs),
          rs_avg_start = mean (List.map r_time_to_recovery_start_ms rs),
          rs_avg_duration = (if times = [] then None else Some (mean times))\<rparr>)"

definition get_summary :: "RunMetrics \<Rightarrow> run_summary" where
  "get_summary r =
     \<lparr>sm_run_id = run_id r, sm_strategy = run_strategy r, sm_num_nodes = num_nodes r, sm_num_jobs = num_jobs r,
      sm_runtime = (case end_time r of Some t \<Rightarrow> if t = 0 then None else Some (t - start_time r) | None \<Rightarrow> None),
      sm_placement = placement_section (placements r), sm_execution = execution_section (executions r),
      sm_recovery = recovery_section (recoveries r)\<rparr>"

section \<open>The collector\<close>

record MetricsCollector =
  runs :: "(string \<times> RunMetrics) list"
  active_run :: "string option"

definition empty_collector :: MetricsCollector where
  "empty_collector = \<lparr>runs = [], active_run = None\<rparr>"

definition start_run :: "rat \<Rightarrow> string \<Rightarrow> string \<Rightarrow> int \<Rightarrow> int \<Rightarrow> MetricsCollector \<Rightarrow> MetricsCollector" where
  "start_run now rid strat nodes jobs c =
     c\<lparr>runs := AList.update rid
         \<lparr>run_id = rid, run_strategy = strat, num_nodes = nodes, num_jobs = jobs, placements = [], executions = [],
          recoveries = [], start_time = now, end_time = None\<rparr> (runs c),
       active_run := Some rid\<rparr>"

text \<open>Changes the run of that name.\<close>

definition change_run :: "string \<Rightarrow> (RunMetrics \<Rightarrow> RunMetrics) \<Rightarrow> MetricsCollector \<Rightarrow> MetricsCollector" where
  "change_run rid f c = (case map_of (runs c) rid of
      None \<Rightarrow> c | Some r \<Rightarrow> c\<lparr>runs := AList.update rid (f r) (runs c)\<rparr>)"

text \<open>No identifier (or an empty one) means the active run.\<close>

definition end_run :: "rat \<Rightarrow> string option \<Rightarrow> MetricsCollector \<Rightarrow> MetricsCollector" where
  "end_run now rid c =
     (case (if rid = None \<or> rid = Some [] then active_run c else rid) of
        None \<Rightarrow> c
      | Some r \<Rightarrow> if map_of (runs c) r = None then c else (change_run r (finalize now) c)\<lparr>active_run := None\<rparr>)"

text \<open>The three methods that record a metric in the active run, if there is one.\<close>

definition record_in_active :: "(RunMetrics \<Rightarrow> RunMetrics) \<Rightarrow> MetricsCollector \<Rightarrow> MetricsCollector" where
  "record_in_active f c = (case active_run c of None \<Rightarrow> c | Some rid \<Rightarrow> change_run rid f c)"

definition record_placement ::
  "string \<Rightarrow> rat \<Rightarrow> int \<Rightarrow> rat \<Rightarrow> rat \<Rightarrow> bool \<Rightarrow> string option \<Rightarrow> MetricsCollector \<Rightarrow> MetricsCollector" where
  "record_placement job ms node cpu memory success reason =
     record_in_active (add_placement \<lparr>p_job_id = job, p_placement_time_ms = ms, p_selected_node_id = node,
       p_cpu_required = cpu, p_memory_required = memory, p_success = success, p_reason = reason\<rparr>)"

definition record_execution :: "string \<Rightarrow> int \<Rightarrow> rat \<Rightarrow> rat \<Rightarrow> rat \<Rightarrow> MetricsCollector \<Rightarrow> MetricsCollector" where
  "record_execution job node ms cpu memory =
     record_in_active (add_execution \<lparr>x_job_id = job, x_node_id = node, x_execution_time_ms = ms,
       x_cpu_utilized = cpu, x_memory_utilized = memory\<rparr>)"

definition record_recovery :: "string \<Rightarrow> int \<Rightarrow> rat \<Rightarrow> rat option \<Rightarrow> bool \<Rightarrow> MetricsCollector \<Rightarrow> MetricsCollector" where
  "record_recovery fault node start duration success =
     record_in_active (add_recovery \<lparr>r_fault_id = fault, r_failed_node_id = node, r_time_to_recovery_start_ms = start,
       r_recovery_duration_ms = duration, r_recovery_success = success\<rparr>)"

definition get_run_summary :: "string \<Rightarrow> MetricsCollector \<Rightarrow> run_summary option" where
  "get_run_summary rid c = map_option get_summary (map_of (runs c) rid)"

section \<open>Comparison of strategies\<close>

text \<open>\<open>round(q, 2)\<close>\<close>

definition round2 :: "rat \<Rightarrow> rat" where
  "round2 q = of_int (round_half_even (q * 100)) / 100"

record strategy_summary =
  c_runs :: nat
  c_avg_placement_success_rate :: rat
  c_avg_execution_time_ms :: "rat option"
  c_avg_recovery_time_ms :: "rat option"

fun add_summary :: "run_summary \<Rightarrow> (string \<times> run_summary list) list \<Rightarrow> (string \<times> run_summary list) list" where
  "add_summary s groups = AList.update (sm_strategy s)
     ((case map_of groups (sm_strategy s) of Some ss \<Rightarrow> ss | None \<Rightarrow> []) @ [s]) groups"

definition mean_or_0 :: "rat list \<Rightarrow> rat" where
  "mean_or_0 xs = (if xs = [] then 0 else mean xs)"

definition rounded :: "rat \<Rightarrow> rat option" where
  "rounded q = (if q = 0 then None else Some (round2 q))"

text \<open>A run without a placement counts with the rate 0; a recovery time that is missing or 0 does not count.\<close>

definition compare_group :: "run_summary list \<Rightarrow> strategy_summary" where
  "compare_group ss =
     \<lparr>c_runs = length ss,
      c_avg_placement_success_rate = round2 (mean_or_0 (List.map (\<lambda>s.
        case sm_placement s of Some p \<Rightarrow> ps_success_rate p | None \<Rightarrow> 0) ss)),
      c_avg_execution_time_ms = rounded (mean_or_0 (List.map es_avg_time (List.map_filter sm_execution ss))),
      c_avg_recovery_time_ms = rounded (mean_or_0 (filter (\<lambda>q. q \<noteq> 0)
        (List.map_filter (\<lambda>s. Option.bind (sm_recovery s) rs_avg_duration) ss)))\<rparr>"

definition compare_strategies :: "MetricsCollector \<Rightarrow> (string \<times> strategy_summary) list" where
  "compare_strategies c =
     List.map (\<lambda>(name, ss). (name, compare_group ss)) (fold add_summary (List.map (get_summary \<circ> snd) (runs c)) [])"

section \<open>Bounds of a summary\<close>

lemma fold_min_start: "fold min xs a \<le> a" for a :: rat
proof (induction xs arbitrary: a)
  case (Cons x xs)
  show ?case using Cons [of "min x a"] by simp
qed simp

lemma fold_min_le: "x \<in> set xs \<Longrightarrow> fold min xs a \<le> x" for a :: rat
proof (induction xs arbitrary: a)
  case (Cons y ys)
  then show ?case using fold_min_start [of ys "min y a"] by (auto simp: min.coboundedI1)
qed simp

lemma least_le: "x \<in> set xs \<Longrightarrow> least xs \<le> x"
  by (cases xs) (auto simp: least_def fold_min_le fold_min_start)

lemma fold_max_start: "a \<le> fold max xs a" for a :: rat
proof (induction xs arbitrary: a)
  case (Cons x xs)
  show ?case using Cons [of "max x a"] by simp
qed simp

lemma fold_max_ge: "x \<in> set xs \<Longrightarrow> x \<le> fold max xs a" for a :: rat
proof (induction xs arbitrary: a)
  case (Cons y ys)
  then show ?case using fold_max_start [of "max y a" ys] by (auto simp: max.coboundedI1)
qed simp

lemma greatest_ge: "x \<in> set xs \<Longrightarrow> x \<le> greatest xs"
  by (cases xs) (auto simp: greatest_def fold_max_ge fold_max_start)

lemma sum_list_bounds:
  fixes a b :: rat
  assumes "\<forall>x \<in> set xs. a \<le> x \<and> x \<le> b"
  shows "of_nat (length xs) * a \<le> sum_list xs \<and> sum_list xs \<le> of_nat (length xs) * b"
  using assms by (induction xs) (auto simp: algebra_simps)

lemma mean_between: "xs \<noteq> [] \<Longrightarrow> least xs \<le> mean xs \<and> mean xs \<le> greatest xs"
  using sum_list_bounds [of xs "least xs" "greatest xs"]
  by (auto simp: mean_def least_le greatest_ge field_simps)

text \<open>
  The figures of a placement section hang together: the counts add up, the rate is a percentage,
  and the average lies between the extremes.
\<close>

theorem placement_section_bounds:
  assumes "placement_section ps = Some q"
  shows "ps_successful q + ps_failed q = ps_total q \<and> 0 \<le> ps_success_rate q \<and> ps_success_rate q \<le> 100 \<and>
    ps_min_time q \<le> ps_avg_time q \<and> ps_avg_time q \<le> ps_max_time q"
proof -
  have ne: "ps \<noteq> []" using assms by (auto simp: placement_section_def split: if_splits)
  have "length (filter p_success ps) \<le> length ps" by simp
  then have "(of_nat (length (filter p_success ps)) :: rat) \<le> of_nat (length ps)" using of_nat_le_iff by blast
  moreover have "(0 :: rat) < of_nat (length ps)" using ne by simp
  ultimately have "of_nat (length (filter p_success ps)) / of_nat (length ps) * 100 \<le> (100 :: rat)"
    by (simp add: divide_le_eq)
  with assms ne mean_between [of "List.map p_placement_time_ms ps"] show ?thesis
    by (auto simp: placement_section_def Let_def)
qed

theorem placement_section_bounds_witness:
  "\<exists>q. placement_section [\<lparr>p_job_id = ''a'', p_placement_time_ms = 1, p_selected_node_id = 0, p_cpu_required = 1,
      p_memory_required = 1, p_success = True, p_reason = None\<rparr>] = Some q \<and> ps_success_rate q \<le> 100"
proof -
  obtain q where q: "placement_section [\<lparr>p_job_id = ''a'', p_placement_time_ms = 1, p_selected_node_id = 0, p_cpu_required = 1,
      p_memory_required = 1, p_success = True, p_reason = None\<rparr>] = Some q"
    by (simp add: placement_section_def Let_def)
  with placement_section_bounds [OF q] show ?thesis by blast
qed

end
