(* ===== verification/Benchmark.thy ===== *)
theory Benchmark
  imports SimMetrics
begin

text \<open>
  The benchmark of the placement strategies, \<open>simulator/benchmark.py\<close>. The time that a placement
  takes is a parameter, and so are the times at which the run starts and ends; the pauses and the printing are left out.
\<close>

section \<open>A run\<close>

text \<open>\<open>xs[i]\<close>: the position that an index names, also one that counts from the end.\<close>

definition position :: "int \<Rightarrow> 'a list \<Rightarrow> exn + nat" where
  "position i xs =
     (if 0 \<le> i \<and> i < int (length xs) then Inr (nat i)
      else if - int (length xs) \<le> i \<and> i < 0 then Inr (nat (int (length xs) + i))
      else Inl IndexError)"

definition profiles :: "NodeProfile list" where
  "profiles = List.map (\<lambda>(c, m, d, l). \<lparr>cpu_capacity = c, memory_capacity = m, disk_capacity = d, network_latency_ms = l\<rparr>)
     [(4, 8, 100, 5), (2, 4, 50, 10), (8, 16, 200, 3), (1, 2, 25, 15), (6, 12, 150, 8)]"

definition bench_node :: "nat \<Rightarrow> VirtualNode" where
  "bench_node i = new_node 0 (int i) (profiles ! (i mod length profiles))"

definition setup_nodes :: "nat \<Rightarrow> VirtualNode list \<times> StubServiceLayer" where
  "setup_nodes n =
     (List.map bench_node [0..<n], fold (\<lambda>i. register_node (int i) (bench_node i)) [0..<n] empty_service)"

text \<open>The CPU, memory and priority of the jobs, and how long each priority runs (in ms).\<close>

definition job_specs :: "(rat \<times> rat \<times> string) list" where
  "job_specs = [(1/2, 1, ''low''), (1, 2, ''medium''), (2, 4, ''high'')]"

definition execution_times :: "(string \<times> rat) list" where
  "execution_times = [(''low'', 50), (''medium'', 100), (''high'', 150)]"

definition job_name :: "nat \<Rightarrow> string" where
  "job_name j = ''job_'' @ show_nat j"

record bench =
  b_nodes :: "VirtualNode list"
  b_agent :: StubPlacementAgent
  b_collector :: MetricsCollector
  placement_count :: nat

definition place_one :: "(nat \<Rightarrow> rat) \<Rightarrow> (nat \<Rightarrow> nat) \<Rightarrow> nat \<Rightarrow> bench \<Rightarrow> exn + bench" where
  "place_one took choice j b =
     (case job_specs ! (j mod length job_specs) of (cpu, memory, priority) \<Rightarrow>
      case select_placement choice (b_nodes b) cpu memory (b_agent b) of
        (None, agent) \<Rightarrow> Inr (b\<lparr>b_agent := agent,
          b_collector := record_placement (job_name j) (took j) (-1) cpu memory False (Some ''no_capacity'') (b_collector b)\<rparr>)
      | (Some i, agent) \<Rightarrow>
          chain (position i (b_nodes b)) (\<lambda>p.
          case submit_task 0 (job_name j) cpu memory (b_nodes b ! p) of (success, n) \<Rightarrow>
          Inr (b\<lparr>b_agent := agent, b_nodes := (b_nodes b)[p := n],
            b_collector := (if success then record_placement (job_name j) (took j) i cpu memory True None (b_collector b)
                            else b_collector b),
            placement_count := (if success then placement_count b + 1 else placement_count b)\<rparr>)))"

definition execute_one :: "(nat \<Rightarrow> nat) \<Rightarrow> nat \<Rightarrow> bench \<Rightarrow> exn + bench" where
  "execute_one choice j b =
     (case job_specs ! (j mod length job_specs) of (cpu, memory, priority) \<Rightarrow>
      case select_placement choice (b_nodes b) cpu memory (b_agent b) of
        (None, agent) \<Rightarrow> Inr (b\<lparr>b_agent := agent\<rparr>)
      | (Some i, agent) \<Rightarrow>
          chain (position i (b_nodes b)) (\<lambda>p.
          Inr (b\<lparr>b_agent := agent, b_nodes := (b_nodes b)[p := complete_task (job_name j) (b_nodes b ! p)],
            b_collector := record_execution (job_name j) i (the (map_of execution_times priority)) cpu memory (b_collector b)\<rparr>)))"

text \<open>\<open>for x in xs: b = step(x, b)\<close>\<close>

fun each :: "('x \<Rightarrow> 'b \<Rightarrow> exn + 'b) \<Rightarrow> 'x list \<Rightarrow> 'b \<Rightarrow> exn + 'b" where
  "each step [] b = Inr b"
| "each step (x # xs) b = chain (step x b) (each step xs)"

definition started :: "rat \<Rightarrow> nat \<Rightarrow> nat \<Rightarrow> string \<Rightarrow> string \<Rightarrow> StubPlacementAgent \<Rightarrow> MetricsCollector \<Rightarrow> bench" where
  "started now nodes jobs strat rid agent c =
     \<lparr>b_nodes = fst (setup_nodes nodes), b_agent = agent,
      b_collector = start_run now rid strat (int nodes) (int jobs) c, placement_count = 0\<rparr>"

definition run_benchmark_with_strategy ::
  "rat \<times> rat \<Rightarrow> (nat \<Rightarrow> rat) \<Rightarrow> (nat \<Rightarrow> nat) \<Rightarrow> nat \<Rightarrow> nat \<Rightarrow> string \<Rightarrow> string \<Rightarrow> MetricsCollector \<Rightarrow>
    exn + run_summary option \<times> bench" where
  "run_benchmark_with_strategy window took choice nodes jobs strat rid c =
     chain (make_agent strat) (\<lambda>agent.
     chain (each (place_one took choice) [0..<jobs] (started (fst window) nodes jobs strat rid agent c)) (\<lambda>b1.
     chain (each (execute_one choice) [0..<min (placement_count b1) jobs] b1) (\<lambda>b2.
     let c' = end_run (snd window) (Some rid) (b_collector b2) in
     Inr (get_run_summary rid c', b2\<lparr>b_collector := c'\<rparr>))))"

section \<open>The nodes of a run\<close>

text \<open>Every node is accounted for, healthy, and stands at the position its identifier names.\<close>

definition in_place :: "VirtualNode list \<Rightarrow> bool" where
  "in_place ns \<longleftrightarrow> (\<forall>p < length ns. accounted (ns ! p) \<and> is_healthy (ns ! p) \<and> v_node_id (ns ! p) = int p)"

definition picks :: "(nat \<Rightarrow> nat) \<Rightarrow> bool" where
  "picks choice \<longleftrightarrow> (\<forall>n > 0. choice n < n)"

lemma select_placement_some:
  assumes "select_placement choice nodes cpu memory agent = (Some i, agent')" and "picks choice"
  shows "\<exists>n \<in> set nodes. v_node_id n = i \<and> is_healthy n \<and> fits_on cpu memory n"
proof -
  define capable where "capable = filter (fits_on cpu memory) (filter is_healthy nodes)"
  have ne: "capable \<noteq> []" using assms(1) by (auto simp: select_placement_def capable_def Let_def split: if_splits)
  then have "choice (length capable) < length capable" "round_robin_index agent mod length capable < length capable"
    using assms(2) by (auto simp: picks_def)
  then have "capable ! choice (length capable) \<in> set capable" "capable ! (round_robin_index agent mod length capable) \<in> set capable"
    by (simp_all only: nth_mem)
  moreover have "min_utilization (hd capable) (tl capable) \<in> set capable"
    using min_utilization_member [of "hd capable" "tl capable"] ne by simp
  moreover have "Some i \<in> Some ` v_node_id ` {capable ! choice (length capable),
      capable ! (round_robin_index agent mod length capable), min_utilization (hd capable) (tl capable)}"
    using assms(1) unfolding select_placement_def capable_def [symmetric] Let_def by (auto split: if_splits)
  ultimately have "\<exists>n \<in> set capable. v_node_id n = i" by auto
  then show ?thesis by (auto simp: capable_def)
qed

text \<open>Submitting to the selected node succeeds: the branch without a record is never taken.\<close>

lemma selected_accepts:
  assumes "in_place ns" and "picks choice" and "select_placement choice ns cpu memory agent = (Some i, agent')"
  obtains p n where "position i ns = Inr p" "p < length ns" "i = int p"
    "submit_task now tid cpu memory (ns ! p) = (True, n)"
proof -
  obtain n where n: "n \<in> set ns" "v_node_id n = i" "fits_on cpu memory n"
    using select_placement_some [OF assms(3,2)] by blast
  obtain p where p: "p < length ns" "ns ! p = n" using n(1) by (auto simp: in_set_conv_nth)
  then have "i = int p" using assms(1) n(2) by (auto simp: in_place_def)
  with p n(3) show thesis
    by (intro that [of p]) (auto simp: position_def submit_task_def fits_on_def not_less)
qed

lemma in_place_update:
  assumes "in_place ns" and "p < length ns" and "accounted n" and "v_node_id n = v_node_id (ns ! p)" and "is_healthy n"
  shows "in_place (ns[p := n])"
  using assms by (auto simp: in_place_def nth_list_update)

lemma submit_fields:
  "v_node_id (snd (submit_task now tid cpu memory n)) = v_node_id n"
  "is_healthy (snd (submit_task now tid cpu memory n)) = is_healthy n"
  by (auto simp: submit_task_def is_healthy_def)

lemma complete_fields:
  "v_node_id (complete_task tid n) = v_node_id n" "is_healthy (complete_task tid n) = is_healthy n"
  by (auto simp: complete_task_def is_healthy_def split: option.split)

lemma job_specs_nonneg:
  obtains cpu memory priority where "job_specs ! (j mod length job_specs) = (cpu, memory, priority)" "0 \<le> cpu" "0 \<le> memory"
    "map_of execution_times priority \<noteq> None"
proof -
  have "j mod 3 < 3" by simp
  then have "j mod 3 = 0 \<or> j mod 3 = 1 \<or> j mod 3 = 2" by arith
  then show thesis
    using that [of "1/2" 1 "''low''"] that [of 1 2 "''medium''"] that [of 2 4 "''high''"]
    by (auto simp: job_specs_def execution_times_def)
qed

text \<open>
  The contract of a loop over the jobs: every step succeeds and keeps an invariant that may
  depend on the number of jobs done.
\<close>

locale job_loop =
  fixes step :: "nat \<Rightarrow> 'b \<Rightarrow> exn + 'b" and I :: "nat \<Rightarrow> 'b \<Rightarrow> bool"
  assumes step_ok: "I j b \<Longrightarrow> \<exists>b'. step j b = Inr b' \<and> I (Suc j) b'"
begin

lemma each_append: "each step (xs @ ys) b = chain (each step xs b) (each step ys)"
proof (induction xs arbitrary: b)
  case (Cons x xs)
  then show ?case by (cases "step x b") simp_all
qed simp

lemma loop_ok: "I 0 b \<Longrightarrow> \<exists>b'. each step [0..<n] b = Inr b' \<and> I n b'"
proof (induction n)
  case (Suc n)
  then obtain b' where "each step [0..<n] b = Inr b'" "I n b'" by blast
  with step_ok [of n b'] show ?case by (auto simp: each_append)
qed simp

end

definition queued :: "bench \<Rightarrow> nat" where
  "queued b = sum_list (List.map (\<lambda>n. length (task_queue n)) (b_nodes b))"

text \<open>After \<open>j\<close> jobs the active run has \<open>j\<close> placements, of which \<open>placement_count\<close> succeeded.\<close>

definition counted :: "string \<Rightarrow> nat \<Rightarrow> bench \<Rightarrow> bool" where
  "counted rid j b \<longleftrightarrow> active_run (b_collector b) = Some rid \<and>
     (\<exists>r. map_of (runs (b_collector b)) rid = Some r \<and> length (placements r) = j \<and>
        length (filter p_success (placements r)) = placement_count b)"

lemma queued_update:
  assumes "p < length ns"
  shows "sum_list (List.map (f :: 'a \<Rightarrow> 'b :: comm_monoid_add) (ns[p := n])) + f (ns ! p) = sum_list (List.map f ns) + f n"
  using assms
proof (induction ns arbitrary: p)
  case (Cons m ms)
  then show ?case by (cases p) (auto simp: ac_simps)
qed simp

lemma place_one_ok:
  assumes b: "in_place (b_nodes b) \<and> length (b_nodes b) = nodes \<and> queued b = placement_count b \<and> counted rid j b" and picks: "picks choice"
  shows "\<exists>b'. place_one took choice j b = Inr b' \<and>
    in_place (b_nodes b') \<and> length (b_nodes b') = nodes \<and> queued b' = placement_count b' \<and> counted rid (Suc j) b'"
proof -
  obtain cpu memory priority where spec: "job_specs ! (j mod length job_specs) = (cpu, memory, priority)" "0 \<le> cpu" "0 \<le> memory"
    by (rule job_specs_nonneg)
  obtain sel agent where sel: "select_placement choice (b_nodes b) cpu memory (b_agent b) = (sel, agent)" by fastforce
  show ?thesis
  proof (cases sel)
    case None
    with b spec sel show ?thesis
      by (auto simp: place_one_def in_place_def queued_def counted_def record_placement_def record_in_active_def change_run_def add_placement_def)
  next
    case (Some i)
    obtain p n where p: "position i (b_nodes b) = Inr p" "p < length (b_nodes b)" "i = int p"
      "submit_task 0 (job_name j) cpu memory (b_nodes b ! p) = (True, n)"
      using selected_accepts [of "b_nodes b" choice cpu memory "b_agent b" i agent] b picks sel Some by blast
    have n: "accounted n" "v_node_id n = v_node_id (b_nodes b ! p)" "is_healthy n"
      using accounted_submit [of "b_nodes b ! p" cpu memory 0 "job_name j"] submit_fields [of 0 "job_name j" cpu memory "b_nodes b ! p"]
        b spec p by (auto simp: in_place_def)
    have len: "length (task_queue n) = Suc (length (task_queue (b_nodes b ! p)))"
      using p(4) by (auto simp: submit_task_def split: if_splits)
    let ?b = "b\<lparr>b_agent := agent, b_nodes := (b_nodes b)[p := n],
       b_collector := record_placement (job_name j) (took j) i cpu memory True None (b_collector b),
       placement_count := placement_count b + 1\<rparr>"
    have "place_one took choice j b = Inr ?b" using spec(1) sel Some p by (simp add: place_one_def)
    moreover have "in_place (b_nodes ?b)" using in_place_update [of "b_nodes b" p n] b p n by simp
    moreover have "queued ?b = placement_count ?b"
      using queued_update [OF p(2), of "\<lambda>n. length (task_queue n)" n] len b by (simp add: queued_def)
    moreover have "counted rid (Suc j) ?b"
      using b by (auto simp: counted_def record_placement_def record_in_active_def change_run_def add_placement_def)
    ultimately show ?thesis using b by auto
  qed
qed

text \<open>The second loop keeps the placements and the accounts.\<close>

lemma execute_one_ok:
  assumes b: "in_place (b_nodes b) \<and> length (b_nodes b) = nodes \<and> placement_count b = k \<and> counted rid jobs b" and picks: "picks choice"
  shows "\<exists>b'. execute_one choice j b = Inr b' \<and>
    in_place (b_nodes b') \<and> length (b_nodes b') = nodes \<and> placement_count b' = k \<and> counted rid jobs b'"
proof -
  obtain cpu memory priority where spec: "job_specs ! (j mod length job_specs) = (cpu, memory, priority)" "0 \<le> cpu" "0 \<le> memory"
    by (rule job_specs_nonneg)
  obtain sel agent where sel: "select_placement choice (b_nodes b) cpu memory (b_agent b) = (sel, agent)" by fastforce
  show ?thesis
  proof (cases sel)
    case None
    with b spec sel show ?thesis by (auto simp: execute_one_def in_place_def counted_def)
  next
    case (Some i)
    obtain p n where p: "position i (b_nodes b) = Inr p" "p < length (b_nodes b)" "i = int p"
      using selected_accepts [of "b_nodes b" choice cpu memory "b_agent b" i agent 0 "[]"] b picks sel Some by blast
    let ?n = "complete_task (job_name j) (b_nodes b ! p)"
    let ?b = "b\<lparr>b_agent := agent, b_nodes := (b_nodes b)[p := ?n],
       b_collector := record_execution (job_name j) i (the (map_of execution_times priority)) cpu memory (b_collector b)\<rparr>"
    have "execute_one choice j b = Inr ?b" using spec(1) sel Some p by (simp add: execute_one_def)
    moreover have "in_place (b_nodes ?b)"
      using in_place_update [of "b_nodes b" p ?n] b p by (auto simp: in_place_def complete_fields intro: accounted_complete)
    moreover have "counted rid jobs ?b"
      using b by (auto simp: counted_def record_execution_def record_in_active_def change_run_def add_execution_def)
    ultimately show ?thesis using b by auto
  qed
qed

interpretation placing: job_loop "place_one took choice"
    "\<lambda>j b. picks choice \<and> in_place (b_nodes b) \<and> length (b_nodes b) = nodes \<and> queued b = placement_count b \<and> counted rid j b"
  for took choice nodes rid
  by unfold_locales (use place_one_ok in blast)

interpretation executing: job_loop "execute_one choice"
    "\<lambda>j b. picks choice \<and> in_place (b_nodes b) \<and> length (b_nodes b) = nodes \<and> placement_count b = k \<and> counted rid jobs b"
  for choice nodes k rid jobs
  by unfold_locales (use execute_one_ok in blast)

lemma setup_in_place: "in_place (fst (setup_nodes n))"
proof -
  have cap: "0 < cpu_capacity (profiles ! (i mod length profiles)) \<and> 0 < memory_capacity (profiles ! (i mod length profiles))" for i
  proof -
    have "\<forall>p \<in> set profiles. 0 < cpu_capacity p \<and> 0 < memory_capacity p" by (simp add: profiles_def)
    moreover have "profiles ! (i mod length profiles) \<in> set profiles" by (rule nth_mem) (simp add: profiles_def)
    ultimately show ?thesis by blast
  qed
  then show ?thesis
    by (auto simp: in_place_def setup_nodes_def bench_node_def accounted_def new_node_def is_healthy_def less_imp_le)
qed

lemma started_ok:
  "in_place (b_nodes (started now nodes jobs strat rid agent c))" "length (b_nodes (started now nodes jobs strat rid agent c)) = nodes"
  "queued (started now nodes jobs strat rid agent c) = 0" "counted rid 0 (started now nodes jobs strat rid agent c)"
  "placement_count (started now nodes jobs strat rid agent c) = 0"
proof -
  show "in_place (b_nodes (started now nodes jobs strat rid agent c))" using setup_in_place by (simp add: started_def)
  show "queued (started now nodes jobs strat rid agent c) = 0"
    by (simp add: queued_def started_def setup_nodes_def bench_node_def new_node_def comp_def)
qed (simp_all add: started_def setup_nodes_def counted_def start_run_def)

section \<open>Properties\<close>



text \<open>
  The second loop asks the agent again which node runs a job, instead of using the node that has
  it: with two nodes and one job, the round-robin strategy queues the job on the first node and
  reports its execution on the second, and the first still carries it at the end.
\<close>

theorem executed_job_still_queued:
  "case run_benchmark_with_strategy (1, 2) (\<lambda>_. 0) (\<lambda>_. 0) 2 1 ''round_robin'' ''r'' empty_collector of
     Inr (Some sm, b) \<Rightarrow>
       List.map (\<lambda>n. List.map q_task_id (task_queue n)) (b_nodes b) = [[''job_0''], []] \<and>
       List.map (\<lambda>n. tasks_executed n) (b_nodes b) = [0, 0] \<and>
       List.map x_node_id (executions (the (map_of (runs (b_collector b)) ''r''))) = [1]
   | _ \<Rightarrow> False"
  by code_simp

end
