(* ===== verification/Faults.thy ===== *)
theory Faults
  imports Benchmark
begin

text \<open>
  The fault injection of the simulator, \<open>simulator/fault_injection.py\<close>. \<open>clk n\<close> is what the
  n-th call of \<open>time.time()\<close> returns. The report that is printed is left out.
\<close>

section \<open>Events\<close>

record FaultEvent =
  fault_id :: string
  failed_node :: int
  failure_time :: rat
  failure_type :: string
  recovery_start :: "rat option"
  recovery_end :: "rat option"

text \<open>The value, unless it is missing or 0.\<close>

fun set_time :: "rat option \<Rightarrow> rat option" where
  "set_time (Some t) = (if t = 0 then None else Some t)"
| "set_time None = None"

definition recovery_duration_ms :: "FaultEvent \<Rightarrow> rat option" where
  "recovery_duration_ms e =
     (case (set_time (recovery_start e), set_time (recovery_end e)) of
        (Some a, Some b) \<Rightarrow> Some ((b - a) * 1000)
      | _ \<Rightarrow> None)"

definition time_to_recovery_start_ms :: "FaultEvent \<Rightarrow> rat" where
  "time_to_recovery_start_ms e =
     (case set_time (recovery_start e) of Some a \<Rightarrow> (a - failure_time e) * 1000 | None \<Rightarrow> - 1)"

section \<open>The tester\<close>

record tester =
  t_nodes :: "VirtualNode list"
  service_layer :: StubServiceLayer
  fault_events :: "FaultEvent list"
  fault_counter :: nat
  readings :: nat

definition make_tester :: "VirtualNode list \<Rightarrow> StubServiceLayer \<Rightarrow> tester" where
  "make_tester nodes service =
     \<lparr>t_nodes = nodes, service_layer = service, fault_events = [], fault_counter = 0, readings = 0\<rparr>"

definition read_time :: "(nat \<Rightarrow> rat) \<Rightarrow> (tester, rat) act" where
  "read_time clk = (\<lambda>s. (Inr (clk (readings s)), s\<lparr>readings := Suc (readings s)\<rparr>))"

definition get_next_fault_id :: "(tester, string) act" where
  "get_next_fault_id = (\<lambda>s. let n = fault_counter s + 1 in (Inr (''fault_'' @ show_nat n), s\<lparr>fault_counter := n\<rparr>))"

text \<open>\<open>self.nodes[i]\<close> is changed in place.\<close>

definition change_node :: "int \<Rightarrow> (VirtualNode \<Rightarrow> VirtualNode) \<Rightarrow> (tester, VirtualNode) act" where
  "change_node i f = (\<lambda>s. case position i (t_nodes s) of
      Inl e \<Rightarrow> (Inl e, s)
    | Inr p \<Rightarrow> let n = f (t_nodes s ! p) in (Inr n, s\<lparr>t_nodes := (t_nodes s)[p := n]\<rparr>))"

definition inject_single_node_failure :: "(nat \<Rightarrow> rat) \<Rightarrow> int \<Rightarrow> string option \<Rightarrow> (tester, FaultEvent) act" where
  "inject_single_node_failure clk i task_on_node =
     andthen get_next_fault_id (\<lambda>fid.
     andthen (change_node i (\<lambda>n. n)) (\<lambda>_.
     andthen (read_time clk) (\<lambda>failed.
     andthen (read_time clk) (\<lambda>now.
     andthen (change_node i (fail now)) (\<lambda>_.
     andthen (modify (\<lambda>s. s\<lparr>service_layer := deregister_node i (service_layer s)\<rparr>)) (\<lambda>_.
     andthen (gets (\<lambda>s. decide_recovery (t_nodes s))) (\<lambda>target.
     andthen
       (if task_on_node = None \<or> task_on_node = Some [] \<or> target = None then ret (None, None)
        else andthen (read_time clk) (\<lambda>a. andthen (read_time clk) (\<lambda>b. ret (Some a, Some b)))) (\<lambda>(a, b).
     let event = \<lparr>fault_id = fid, failed_node = i, failure_time = failed, failure_type = ''single'',
                  recovery_start = a, recovery_end = b\<rparr> in
     andthen (modify (\<lambda>s. s\<lparr>fault_events := fault_events s @ [event]\<rparr>)) (\<lambda>_.
     ret event)))))))))"

definition inject_cascading_failures :: "(nat \<Rightarrow> rat) \<Rightarrow> int \<Rightarrow> (tester, FaultEvent list) act" where
  "inject_cascading_failures clk count =
     andthen (gets (\<lambda>s. filter is_healthy (t_nodes s))) (\<lambda>healthy.
     for_each (take (nat count) healthy) (\<lambda>n events.
       andthen (inject_single_node_failure clk (v_node_id n) None) (\<lambda>e. ret (events @ [e]))) [])"

definition open_event :: "int \<Rightarrow> FaultEvent \<Rightarrow> bool" where
  "open_event i e \<longleftrightarrow> failed_node e = i \<and> recovery_end e = None"

text \<open>The latest event of the node that has no end gets one.\<close>

fun close_latest :: "int \<Rightarrow> rat \<Rightarrow> FaultEvent list \<Rightarrow> FaultEvent list" where
  "close_latest i now [] = []"
| "close_latest i now (e # es) =
     (if open_event i e then e\<lparr>recovery_end := Some now\<rparr> # es
      else e # close_latest i now es)"

definition recover_node :: "(nat \<Rightarrow> rat) \<Rightarrow> int \<Rightarrow> (tester, unit) act" where
  "recover_node clk i =
     andthen (change_node i recover) (\<lambda>n.
     andthen (modify (\<lambda>s. s\<lparr>service_layer := register_node i n (service_layer s)\<rparr>)) (\<lambda>_.
     andthen (gets (\<lambda>s. \<exists>e \<in> set (fault_events s). open_event i e)) (\<lambda>some.
     if \<not> some then ret ()
     else
       andthen (read_time clk) (\<lambda>now.
       modify (\<lambda>s. s\<lparr>fault_events := rev (close_latest i now (rev (fault_events s)))\<rparr>)))))"

record recovery_metrics =
  total_faults :: nat
  recovered :: nat
  recovery_times :: "(rat \<times> rat \<times> rat) option"

text \<open>Nothing without a fault; the average, least and greatest time only when there is one.\<close>

definition get_recovery_metrics :: "tester \<Rightarrow> recovery_metrics option" where
  "get_recovery_metrics s =
     (let durations = List.map_filter recovery_duration_ms (fault_events s) in
      if fault_events s = [] then None
      else if durations = [] then Some \<lparr>total_faults = length (fault_events s), recovered = 0, recovery_times = None\<rparr>
      else Some \<lparr>total_faults = length (fault_events s), recovered = length durations,
        recovery_times = Some (mean durations, least durations, greatest durations)\<rparr>)"

section \<open>What can happen to a tester\<close>

inductive fault_step :: "(nat \<Rightarrow> rat) \<Rightarrow> tester \<Rightarrow> tester \<Rightarrow> bool" for clk where
  inject: "inject_single_node_failure clk i task s = (r, s') \<Longrightarrow> fault_step clk s s'"
| cascade: "inject_cascading_failures clk n s = (r, s') \<Longrightarrow> fault_step clk s s'"
| recovery: "recover_node clk i s = (r, s') \<Longrightarrow> fault_step clk s s'"

inductive tested :: "(nat \<Rightarrow> rat) \<Rightarrow> tester \<Rightarrow> bool" for clk where
  begin_: "tested clk (make_tester nodes service)"
| step: "tested clk s \<Longrightarrow> fault_step clk s s' \<Longrightarrow> tested clk s'"

inductive_cases fault_stepE: "fault_step clk s s'"

text \<open>An event that has not ended has not started, and the tester numbers its events.\<close>

definition orderly :: "tester \<Rightarrow> bool" where
  "orderly s \<longleftrightarrow> (\<forall>e \<in> set (fault_events s). recovery_end e = None \<longrightarrow> recovery_start e = None)"

lemma keeps_change_node [keeps_intro]: "keeps orderly (change_node i f)"
  by (auto simp: keeps_def change_node_def orderly_def Let_def split: sum.split)

lemma keeps_time [keeps_intro]: "keeps orderly (read_time clk)"
  by (simp add: keeps_def read_time_def orderly_def)

lemma keeps_next_id [keeps_intro]: "keeps orderly get_next_fault_id"
  by (simp add: keeps_def get_next_fault_id_def orderly_def Let_def)

lemma keeps_service [keeps_intro]: "keeps orderly (modify (\<lambda>s. s\<lparr>service_layer := f s\<rparr>))"
  by (rule keeps_modify) (simp add: orderly_def)

lemma keeps_inject: "keeps orderly (inject_single_node_failure clk i task)"
proof (rule keepsI)
  fix s assume "orderly s"
  then show "orderly (snd (inject_single_node_failure clk i task s))"
    by (auto simp: inject_single_node_failure_def act_simps get_next_fault_id_def change_node_def read_time_def orderly_def Let_def
        split: sum.split)
qed

lemma keeps_cascade: "keeps orderly (inject_cascading_failures clk n)"
  unfolding inject_cascading_failures_def by (intro keeps_intro keeps_inject)

lemma set_close_latest:
  "e \<in> set (close_latest i now es) \<Longrightarrow> e \<in> set es \<or> (\<exists>e' \<in> set es. open_event i e' \<and> e = e'\<lparr>recovery_end := Some now\<rparr>)"
  by (induction es) (auto split: if_splits)

lemma keeps_recover: "keeps orderly (recover_node clk i)"
proof -
  have "keeps orderly (modify (\<lambda>s. s\<lparr>fault_events := rev (close_latest i now (rev (fault_events s)))\<rparr>))" for now
    by (rule keeps_modify) (auto simp: orderly_def dest!: set_close_latest)
  then show ?thesis unfolding recover_node_def by (intro keeps_intro)
qed

lemma tested_orderly: "tested clk s \<Longrightarrow> orderly s"
proof (induction rule: tested.induct)
  case (begin_ nodes service)
  show ?case by (simp add: orderly_def make_tester_def)
next
  case (step s s')
  then show ?case
    by (auto elim!: fault_stepE dest: keeps_run [OF keeps_inject] keeps_run [OF keeps_cascade] keeps_run [OF keeps_recover])
qed

section \<open>Properties\<close>

lemma close_durations:
  "\<forall>e \<in> set es. recovery_end e = None \<longrightarrow> recovery_start e = None \<Longrightarrow>
    List.map_filter recovery_duration_ms (close_latest i now es) = List.map_filter recovery_duration_ms es"
  by (induction es) (auto simp: List.map_filter_def open_event_def recovery_duration_ms_def)

text \<open>
  Recovering a node never counts as a recovery: whatever was injected before, the call of
  \<open>recover_node\<close> leaves the recovery metrics of the tester as they are, because it sets the end
  of the event and not its start, and a duration needs both.
\<close>

theorem recover_node_not_counted:
  assumes "tested clk s" and "recover_node clk i s = (Inr (), s')"
  shows "get_recovery_metrics s' = get_recovery_metrics s"
proof -
  have ev: "fault_events s' = fault_events s \<or> (\<exists>now. fault_events s' = rev (close_latest i now (rev (fault_events s))))"
    using assms(2) by (auto simp: recover_node_def act_simps change_node_def read_time_def Let_def split: sum.splits if_splits)
  have ord: "\<forall>e \<in> set (rev (fault_events s)). recovery_end e = None \<longrightarrow> recovery_start e = None"
    using tested_orderly [OF assms(1)] by (simp add: orderly_def)
  have rev: "List.map_filter f (rev xs) = rev (List.map_filter f xs)" for f :: "FaultEvent \<Rightarrow> rat option" and xs
    by (simp add: List.map_filter_def rev_map rev_filter)
  have len: "length (close_latest i now es) = length es" for now es by (induction es) auto
  then have nil: "close_latest i now es = [] \<longleftrightarrow> es = []" for now es by (metis length_0_conv)
  show ?thesis
    using ev close_durations [OF ord, of i] rev [of recovery_duration_ms]
    by (auto simp: get_recovery_metrics_def Let_def len nil)
qed

definition demo_tester :: tester where
  "demo_tester = make_tester (fst (setup_nodes 2)) (snd (setup_nodes 2))"

theorem recover_node_not_counted_witness:
  "\<exists>s. recover_node of_nat 1 (snd (inject_single_node_failure of_nat 1 None demo_tester)) = (Inr (), s) \<and>
     get_recovery_metrics s = Some \<lparr>total_faults = 1, recovered = 0, recovery_times = None\<rparr>"
proof -
  let ?s = "snd (inject_single_node_failure of_nat 1 None demo_tester)"
  have "fst (recover_node of_nat 1 ?s) = Inr ()" by code_simp
  then obtain s where run: "recover_node of_nat 1 ?s = (Inr (), s)" by (metis prod.collapse)
  have "tested of_nat ?s"
    unfolding demo_tester_def
    by (rule tested.step [OF tested.begin_ fault_step.inject]) (rule prod.collapse [symmetric])
  from recover_node_not_counted [OF this run] have "get_recovery_metrics s = get_recovery_metrics ?s" .
  moreover have "get_recovery_metrics ?s = Some \<lparr>total_faults = 1, recovered = 0, recovery_times = None\<rparr>" by code_simp
  ultimately show ?thesis using run by auto
qed

end
