(* ===== verification/Regex.thy ===== *)
theory Regex
  imports Json
begin

text \<open>
  The regular expressions of the module \<open>re\<close>, as far as \<open>chord/conversation_agent.py\<close> uses them:
  characters, runs of characters of a class, sequences, alternatives, optional parts and word
  boundaries. An expression is tried from a position of the text; the ends of its matches are
  listed in the order in which the backtracking matcher of \<open>re\<close> tries them, so the first one is
  the match. \<open>runs_spans\<close> says that the list holds all matches and no others. A character is one of
  the first 256 code points.
\<close>

section \<open>Classes of characters\<close>

text \<open>\<open>str.lower()\<close>, \<open>\w\<close> and \<open>\s\<close>\<close>

definition lower_char :: "char \<Rightarrow> char" where
  "lower_char c =
     (let n = of_char c :: nat in
      if (65 \<le> n \<and> n \<le> 90) \<or> (192 \<le> n \<and> n \<le> 222 \<and> n \<noteq> 215) then char_of (n + 32) else c)"

definition lower :: "string \<Rightarrow> string" where
  "lower s = List.map lower_char s"

definition is_word :: "char \<Rightarrow> bool" where
  "is_word c \<longleftrightarrow>
     (let n = of_char c :: nat in
      (48 \<le> n \<and> n \<le> 57) \<or> (65 \<le> n \<and> n \<le> 90) \<or> n = 95 \<or> (97 \<le> n \<and> n \<le> 122) \<or>
      n \<in> {170, 178, 179, 181, 185, 186, 188, 189, 190} \<or> (192 \<le> n \<and> n \<noteq> 215 \<and> n \<noteq> 247))"

section \<open>Expressions\<close>

datatype rx =
    Empty
  | Sat "char \<Rightarrow> bool"
  | Some_of "char \<Rightarrow> bool"
  | Any_of "char \<Rightarrow> bool"
  | Boundary
  | Sequence rx rx
  | Either rx rx
  | Maybe rx

text \<open>A text, in any case of letters; a list of parts; a choice; words with blanks between them.\<close>

definition lit :: "string \<Rightarrow> rx" where
  "lit t = foldr (\<lambda>c. Sequence (Sat (\<lambda>x. lower_char x = c))) t Empty"

definition parts :: "rx list \<Rightarrow> rx" where
  "parts rs = foldr Sequence rs Empty"

fun alts :: "rx list \<Rightarrow> rx" where
  "alts [] = Sat (\<lambda>_. False)"
| "alts [r] = r"
| "alts (r # r' # rs) = Either r (alts (r' # rs))"

abbreviation blanks :: rx where
  "blanks \<equiv> Some_of is_space"

fun phrase :: "string list \<Rightarrow> rx" where
  "phrase [] = Empty"
| "phrase [w] = lit w"
| "phrase (w # w' # ws) = parts [lit w, blanks, phrase (w' # ws)]"

section \<open>Matching\<close>

definition word_at :: "string \<Rightarrow> nat \<Rightarrow> bool" where
  "word_at s i \<longleftrightarrow> i < length s \<and> is_word (s ! i)"

definition boundary_at :: "string \<Rightarrow> nat \<Rightarrow> bool" where
  "boundary_at s i \<longleftrightarrow> word_at s i \<noteq> (0 < i \<and> word_at s (i - 1))"

definition run_length :: "(char \<Rightarrow> bool) \<Rightarrow> string \<Rightarrow> nat \<Rightarrow> nat" where
  "run_length p s i = length (takeWhile p (drop i s))"

primrec runs :: "rx \<Rightarrow> string \<Rightarrow> nat \<Rightarrow> nat list" where
  "runs Empty s i = [i]"
| "runs (Sat p) s i = (if i < length s \<and> p (s ! i) then [Suc i] else [])"
| "runs (Some_of p) s i = rev [Suc i ..< Suc (i + run_length p s i)]"
| "runs (Any_of p) s i = rev [i ..< Suc (i + run_length p s i)]"
| "runs Boundary s i = (if boundary_at s i then [i] else [])"
| "runs (Sequence a b) s i = concat (List.map (runs b s) (runs a s i))"
| "runs (Either a b) s i = runs a s i @ runs b s i"
| "runs (Maybe a) s i = runs a s i @ [i]"

text \<open>\<open>re.search(r, s)\<close>: where the first match starts and ends, and its text.\<close>

definition search :: "rx \<Rightarrow> string \<Rightarrow> (nat \<times> nat) option" where
  "search r s =
     (case List.find (\<lambda>i. runs r s i \<noteq> []) [0 ..< Suc (length s)] of
        None \<Rightarrow> None
      | Some i \<Rightarrow> Some (i, hd (runs r s i)))"

definition found :: "rx \<Rightarrow> string \<Rightarrow> bool" where
  "found r s \<longleftrightarrow> search r s \<noteq> None"

definition search_text :: "rx \<Rightarrow> string \<Rightarrow> string option" where
  "search_text r s = map_option (\<lambda>(i, j). take (j - i) (drop i s)) (search r s)"

section \<open>What a match is\<close>

primrec spans :: "rx \<Rightarrow> string \<Rightarrow> nat \<Rightarrow> nat \<Rightarrow> bool" where
  "spans Empty s i j \<longleftrightarrow> j = i"
| "spans (Sat p) s i j \<longleftrightarrow> j = Suc i \<and> i < length s \<and> p (s ! i)"
| "spans (Some_of p) s i j \<longleftrightarrow> i < j \<and> j \<le> length s \<and> (\<forall>k. i \<le> k \<longrightarrow> k < j \<longrightarrow> p (s ! k))"
| "spans (Any_of p) s i j \<longleftrightarrow> j = i \<or> i < j \<and> j \<le> length s \<and> (\<forall>k. i \<le> k \<longrightarrow> k < j \<longrightarrow> p (s ! k))"
| "spans Boundary s i j \<longleftrightarrow> j = i \<and> boundary_at s i"
| "spans (Sequence a b) s i j \<longleftrightarrow> (\<exists>k. spans a s i k \<and> spans b s k j)"
| "spans (Either a b) s i j \<longleftrightarrow> spans a s i j \<or> spans b s i j"
| "spans (Maybe a) s i j \<longleftrightarrow> spans a s i j \<or> j = i"

lemma length_takeWhile_ge: "m \<le> length (takeWhile p xs) \<longleftrightarrow> m \<le> length xs \<and> (\<forall>k < m. p (xs ! k))"
proof
  assume m: "m \<le> length (takeWhile p xs)"
  then have "p (xs ! k)" if "k < m" for k
    using that takeWhile_nth [of k p xs] set_takeWhileD [of "takeWhile p xs ! k" p xs] nth_mem [of k "takeWhile p xs"] by auto
  with m show "m \<le> length xs \<and> (\<forall>k < m. p (xs ! k))" using length_takeWhile_le [of p xs] by auto
next
  assume "m \<le> length xs \<and> (\<forall>k < m. p (xs ! k))"
  then have "take m xs = takeWhile p (take m xs)" "length (take m xs) = m"
    by (auto simp: in_set_conv_nth intro!: takeWhile_eq_all_conv [THEN iffD2, symmetric])
  moreover have "takeWhile p xs = takeWhile p (take m xs @ drop m xs)" by simp
  ultimately show "m \<le> length (takeWhile p xs)"
    by (metis append_take_drop_id in_set_takeD length_append le_add1 set_takeWhileD takeWhile_append2)
qed

lemma run_length_le:
  assumes "i \<le> length s"
  shows "i \<le> j \<Longrightarrow> j \<le> i + run_length p s i \<longleftrightarrow> j \<le> length s \<and> (\<forall>k. i \<le> k \<longrightarrow> k < j \<longrightarrow> p (s ! k))"
proof -
  assume "i \<le> j"
  then have "j \<le> i + run_length p s i \<longleftrightarrow> j - i \<le> length (drop i s) \<and> (\<forall>k < j - i. p (drop i s ! k))"
    unfolding run_length_def length_takeWhile_ge [symmetric] by auto
  also have "(\<forall>k < j - i. p (drop i s ! k)) \<longleftrightarrow> (\<forall>k. i \<le> k \<longrightarrow> k < j \<longrightarrow> p (s ! k))"
    using assms by (auto simp: less_diff_conv2 dest: spec [where x = "_ - i"])
      (metis add.commute le_add_diff_inverse less_diff_conv le_add1)+
  finally show ?thesis using assms \<open>i \<le> j\<close> by auto
qed

lemma spans_bounds: "spans r s i j \<Longrightarrow> i \<le> length s \<Longrightarrow> i \<le> j \<and> j \<le> length s"
  by (induction r arbitrary: i j) (auto, (meson order_trans)+)

theorem runs_spans: "i \<le> length s \<Longrightarrow> j \<in> set (runs r s i) \<longleftrightarrow> spans r s i j"
proof (induction r arbitrary: i j)
  case (Some_of p)
  then show ?case using run_length_le [of i s j p] by auto
next
  case (Any_of p)
  then show ?case using run_length_le [of i s j p] by (auto simp: le_less)
next
  case (Sequence a b)
  then show ?case using spans_bounds [of a s i] by auto
qed auto

text \<open>A search finds a match exactly when there is one, and the leftmost.\<close>

lemma found_spans: "found r s \<longleftrightarrow> (\<exists>i j. i \<le> length s \<and> spans r s i j)"
proof -
  have "found r s \<longleftrightarrow> (\<exists>i \<le> length s. runs r s i \<noteq> [])"
    using find_None_iff [of "\<lambda>i. runs r s i \<noteq> []" "[0 ..< Suc (length s)]"]
    by (auto simp: found_def search_def less_Suc_eq_le simp del: upt_Suc split: option.split)
  also have "\<dots> \<longleftrightarrow> (\<exists>i \<le> length s. \<exists>j. j \<in> set (runs r s i))" by (simp add: ex_in_conv)
  also have "\<dots> \<longleftrightarrow> (\<exists>i j. i \<le> length s \<and> spans r s i j)" using runs_spans by blast
  finally show ?thesis .
qed

lemma search_leftmost:
  assumes "search r s = Some (i, j)"
  shows "spans r s i j" "i \<le> length s" "spans r s i' j' \<Longrightarrow> i \<le> i' \<or> length s < i'"
proof -
  have i: "List.find (\<lambda>i. runs r s i \<noteq> []) [0 ..< Suc (length s)] = Some i" "j = hd (runs r s i)"
    using assms by (auto simp: search_def split: option.splits)
  then obtain k where k: "k < Suc (length s)" "runs r s k \<noteq> []" "i = k" "\<forall>l < k. runs r s l = []"
    unfolding find_Some_iff by (auto simp del: upt_Suc)
  then show len: "i \<le> length s" by simp
  show "spans r s i j" using k i(2) runs_spans [OF len] by (metis hd_in_set)
  assume "spans r s i' j'"
  then show "i \<le> i' \<or> length s < i'" using k runs_spans [of i' s j' r] by (metis leI list.set_cases not_less empty_iff list.set(1))
qed

section \<open>Characters a match needs\<close>

text \<open>Every match of the expression contains a character of the class.\<close>

primrec needs :: "(char \<Rightarrow> bool) \<Rightarrow> rx \<Rightarrow> bool" where
  "needs p Empty \<longleftrightarrow> False"
| "needs p (Sat q) \<longleftrightarrow> (\<forall>c. q c \<longrightarrow> p c)"
| "needs p (Some_of q) \<longleftrightarrow> (\<forall>c. q c \<longrightarrow> p c)"
| "needs p (Any_of q) \<longleftrightarrow> False"
| "needs p Boundary \<longleftrightarrow> False"
| "needs p (Sequence a b) \<longleftrightarrow> needs p a \<or> needs p b"
| "needs p (Either a b) \<longleftrightarrow> needs p a \<and> needs p b"
| "needs p (Maybe a) \<longleftrightarrow> False"

lemma needs_spans:
  "needs p r \<Longrightarrow> spans r s i j \<Longrightarrow> i \<le> length s \<Longrightarrow> \<exists>k. i \<le> k \<and> k < j \<and> p (s ! k)"
proof (induction r arbitrary: i j)
  case (Sequence a b)
  then obtain k where k: "spans a s i k" "spans b s k j" by auto
  note bounds = spans_bounds [OF k(1) Sequence.prems(3)]
  then have "k \<le> j" using spans_bounds [OF k(2)] by simp
  with Sequence k bounds show ?case by (metis le_trans less_le_trans needs.simps(6))
qed auto

lemma needs_found:
  assumes "needs p r" and "\<forall>c \<in> set s. \<not> p c"
  shows "\<not> found r s"
proof
  assume "found r s"
  then obtain i j where ij: "i \<le> length s" "spans r s i j" by (auto simp: found_spans)
  obtain k where k: "i \<le> k" "k < j" "p (s ! k)" using needs_spans [OF assms(1) ij(2,1)] by blast
  moreover have "k < length s" using spans_bounds [OF ij(2,1)] k(2) by simp
  ultimately show False using assms(2) nth_mem by blast
qed

end
