(* ===== verification/Files.thy ===== *)
theory Files
  imports Routed Submission Regex
begin

text \<open>
  The file store of \<open>chord/server.py\<close>, with the client of \<open>chord/dummy_client.py\<close> that asks for
  files: \<open>/request\<close> hashes the name of the file, finds the responsible node and has the file
  served there; the node that serves makes the file up the first time. The state adds the log of
  requests to that of the network, with the lines of the file that keeps it. \<open>randint\<close> is
  \<open>random.randint\<close>; \<open>arrives\<close> is what the HTTP library and the server make of the path of a URL that
  is not quoted; \<open>can_write\<close> says whether the file of the log can be opened.
\<close>

section \<open>Files\<close>

text \<open>\<open>name.rsplit(".", 1)[-1].lower() if "." in name else ""\<close>\<close>

definition extension :: "string \<Rightarrow> string" where
  "extension f =
     (if CHR ''.'' \<in> set f then lower (rev (takeWhile (\<lambda>c. c \<noteq> CHR ''.'') (rev f))) else [])"

definition EXT_LABELS :: "(string \<times> string) list" where
  "EXT_LABELS =
     [(''pdf'', ''document''), (''csv'', ''dataset''), (''bin'', ''binary''), (''yaml'', ''config''),
      (''gz'', ''archive''), (''zip'', ''archive''), (''pptx'', ''slides''), (''png'', ''image''),
      (''jpg'', ''image''), (''mp4'', ''video''), (''tar'', ''archive''), (''md'', ''text''),
      (''sql'', ''database''), (''json'', ''data''), (''txt'', ''text''), (''sh'', ''script''),
      (''parquet'', ''dataset'')]"

definition file_type :: "string \<Rightarrow> string" where
  "file_type f = (case map_of EXT_LABELS (extension f) of Some l \<Rightarrow> l | None \<Rightarrow> ''file'')"

definition FILE_SIZES :: "(string \<times> int \<times> int) list" where
  "FILE_SIZES =
     [(''pdf'', 50000, 5000000), (''csv'', 1000, 500000), (''bin'', 500000, 100000000), (''yaml'', 200, 10000),
      (''gz'', 10000, 200000000), (''zip'', 5000, 500000000), (''pptx'', 100000, 20000000),
      (''png'', 10000, 10000000), (''jpg'', 50000, 8000000), (''mp4'', 1000000, 2000000000),
      (''tar'', 10000, 500000000), (''md'', 500, 50000), (''sql'', 1000, 10000000), (''json'', 200, 5000000),
      (''txt'', 500, 1000000), (''sh'', 100, 50000), (''parquet'', 50000, 500000000)]"

definition size_range :: "string \<Rightarrow> int \<times> int" where
  "size_range f = (case map_of FILE_SIZES (extension f) of Some r \<Rightarrow> r | None \<Rightarrow> (1000, 10000000))"

text \<open>\<open>f"{b:.1f}"\<close> of a number that is not negative.\<close>

definition fixed1 :: "rat \<Rightarrow> string" where
  "fixed1 q = (let n = round_half_even (q * 10) in show_int (n div 10) @ ''.'' @ show_int (n mod 10))"

fun fmt_units :: "rat \<Rightarrow> string list \<Rightarrow> string" where
  "fmt_units b [] = fixed1 b @ '' TB''"
| "fmt_units b (u # us) = (if b < 1024 then fixed1 b @ '' '' @ u else fmt_units (b / 1024) us)"

definition fmt_size :: "int \<Rightarrow> string" where
  "fmt_size b = fmt_units (of_int b) [''B'', ''KB'', ''MB'', ''GB'']"

definition file_key :: "string \<Rightarrow> string" where
  "file_key f = ''file:'' @ f"

definition new_file :: "(int \<Rightarrow> int \<Rightarrow> int) \<Rightarrow> rat \<Rightarrow> string \<Rightarrow> chord_node \<Rightarrow> jdict" where
  "new_file randint now f nd =
     (let size = case_prod randint (size_range f) in
      [(''filename'', JStr f), (''file_type'', JStr (file_type f)), (''size_bytes'', JInt size),
       (''size_human'', JStr (fmt_size size)), (''created_at'', JFloat now), (''serve_count'', JInt 0),
       (''stored_at'', JInt (node_id nd))])"

text \<open>\<open>_ensure_file\<close>: the stored file, whatever is stored, or a new one.\<close>

definition ensure_file :: "(int \<Rightarrow> int \<Rightarrow> int) \<Rightarrow> rat \<Rightarrow> string \<Rightarrow> chord_node \<Rightarrow> json \<times> chord_node" where
  "ensure_file randint now f nd =
     (case get (file_key f) nd of
        Some v \<Rightarrow> (v, nd)
      | None \<Rightarrow> let d = new_file randint now f nd in (JObj d, snd (put (file_key f) (JObj d) nd)))"

section \<open>The endpoints\<close>

text \<open>\<open>/files/<filename>\<close>, POST and GET.\<close>

definition file_put :: "(int \<Rightarrow> int \<Rightarrow> int) \<Rightarrow> string \<Rightarrow> string \<Rightarrow> ('z net_scheme, json reply) act" where
  "file_put randint a f =
     andthen (gets (\<lambda>s. seconds (clock s))) (\<lambda>now.
     andthen (on_node a (ensure_file randint now f)) (\<lambda>content.
     case content of
       JObj d \<Rightarrow>
         andthen (lift (py_add1 (dget_or (JInt 0) d ''serve_count''))) (\<lambda>n.
         let d' = dset ''last_served'' (JFloat now) (dset ''serve_count'' n d) in
         andthen (on_node a (put (file_key f) (JObj d'))) (\<lambda>_. ret (Ok (JObj d'))))
     | _ \<Rightarrow> throw (AttributeError ''get'')))"

definition file_get :: "string \<Rightarrow> string \<Rightarrow> ('z net_scheme, json reply) act" where
  "file_get a f =
     andthen (read_node a (get (file_key f))) (\<lambda>v.
     ret (case v of None \<Rightarrow> Status 404 | Some c \<Rightarrow> Ok c))"

record files = net +
  request_log :: "json list"
  log_lines :: "string list"

definition log_request :: "bool \<Rightarrow> jdict \<Rightarrow> 'z files_scheme \<Rightarrow> 'z files_scheme" where
  "log_request can_write e s =
     (let l = request_log s @ [JObj e] in
      s\<lparr>request_log := if 100 < length l then tl l else l,
        log_lines := if can_write then log_lines s @ [dumps (JObj e)] else log_lines s\<rparr>)"

text \<open>What the process reads of the log when it starts, given the lines of the file.\<close>

definition load_log :: "string list \<Rightarrow> json list" where
  "load_log lines = List.map_filter loads (drop (length lines - 100) lines)"

definition round1 :: "rat \<Rightarrow> rat" where
  "round1 q = of_int (round_half_even (q * 10)) / 10"

definition file_reply :: "string \<Rightarrow> nref \<Rightarrow> string \<Rightarrow> int \<Rightarrow> json \<Rightarrow> jdict" where
  "file_reply f r served_addr hops content =
     [(''ok'', JBool True), (''filename'', JStr f), (''key_id'', JInt (sha1_id f)),
      (''served_by_node'', JInt (ref_id r)), (''served_by_addr'', JStr served_addr), (''hops'', JInt hops),
      (''content'', content)]"

definition log_entry :: "rat \<Rightarrow> string \<Rightarrow> json \<Rightarrow> int \<Rightarrow> nref \<Rightarrow> string \<Rightarrow> int \<Rightarrow> rat \<Rightarrow> jdict" where
  "log_entry now f client own r served_addr hops duration =
     [(''ts'', JFloat now), (''filename'', JStr f), (''file_type'', JStr (file_type f)), (''client'', client),
      (''key_id'', JInt (sha1_id f)), (''routed_from'', JInt own), (''served_by_node'', JInt (ref_id r)),
      (''served_by_addr'', JStr served_addr), (''hops'', JInt hops), (''duration_ms'', JFloat (round1 (duration * 1000)))]"

text \<open>The file served by another process: one HTTP attempt, and an empty object unless it answers.\<close>

definition fetch_file :: "(int \<Rightarrow> int \<Rightarrow> int) \<Rightarrow> (string \<Rightarrow> string) \<Rightarrow> string \<Rightarrow> string \<Rightarrow> ('z net_scheme, json) act" where
  "fetch_file randint arrives a f = catch
     (andthen (http_attempt a (if arrives f = [] then ret (Status 404) else file_put randint a (arrives f))) (\<lambda>r.
      lift (case r of Ok c \<Rightarrow> Inr c | Status _ \<Rightarrow> Inl (ValueError ''not JSON''))))
     (\<lambda>_. ret (JObj []))"

fun filename_of :: "json \<Rightarrow> exn + string" where
  "filename_of (JStr f) = Inr (strip f)"
| "filename_of v = (if truthy v then Inl (AttributeError ''strip'') else Inr [])"

definition handle_request ::
  "(int \<Rightarrow> int \<Rightarrow> int) \<Rightarrow> (string \<Rightarrow> string) \<Rightarrow> bool \<Rightarrow> nat \<Rightarrow> string \<Rightarrow> json \<Rightarrow> ('z files_scheme, jdict reply) act" where
  "handle_request randint arrives can_write fuel me payload =
     andthen (lift (json_body payload)) (\<lambda>b.
     andthen (lift (filename_of (dget b ''filename''))) (\<lambda>f.
     if f = [] then ret (Status 400)
     else
       andthen (gets (\<lambda>s. seconds (clock s))) (\<lambda>t0.
       andthen (find_successor fuel me (sha1_id f)) (\<lambda>r.
       andthen (read_node me (\<lambda>nd. nd)) (\<lambda>nd.
       let here = ref_id r = node_id nd;
           hops = (if here then 1 else 2);
           served_addr = (if here then address nd else ref_addr r) in
       andthen
         (if here then andthen (gets (\<lambda>s. seconds (clock s))) (\<lambda>now. on_node me (ensure_file randint now f))
          else fetch_file randint arrives served_addr f) (\<lambda>content.
       andthen (modify (\<lambda>s. log_request can_write
         (log_entry (seconds (clock s)) f (dget_or (JStr ''unknown'') b ''client'') (node_id nd) r served_addr hops
           (seconds (clock s) - t0)) s)) (\<lambda>_.
       ret (Ok (file_reply f r served_addr hops content)))))))))"

text \<open>The last 30 requests, newest first.\<close>

definition api_requests :: "'z files_scheme \<Rightarrow> json list" where
  "api_requests s = rev (drop (length (request_log s) - 30) (request_log s))"

section \<open>The client\<close>

text \<open>
  A request of the client to the process \<open>a\<close>; \<open>n\<close> is the number of requests it has sent. The
  pause between two requests is drawn by \<open>random.uniform\<close>.
\<close>

definition send_request ::
  "(int \<Rightarrow> int \<Rightarrow> int) \<Rightarrow> (string \<Rightarrow> string) \<Rightarrow> bool \<Rightarrow> nat \<Rightarrow> string \<Rightarrow> string \<Rightarrow> nat \<Rightarrow> ('z files_scheme, nat) act" where
  "send_request randint arrives can_write fuel a f n = catch
     (andthen (http_attempt a (handle_request randint arrives can_write fuel a
        (JObj [(''filename'', JStr f), (''client'', JStr ''dummy'')]))) (\<lambda>r.
      andthen (lift (raise_for_status r)) (\<lambda>_. ret (Suc n))))
     (\<lambda>_. ret n)"

text \<open>One turn of its loop, with the file and the pause that are drawn.\<close>

definition client_turn ::
  "(int \<Rightarrow> int \<Rightarrow> int) \<Rightarrow> (string \<Rightarrow> string) \<Rightarrow> bool \<Rightarrow> nat \<Rightarrow> string \<Rightarrow> string \<Rightarrow> int \<Rightarrow> nat \<Rightarrow> ('z files_scheme, nat) act" where
  "client_turn randint arrives can_write fuel a f pause n =
     andthen (send_request randint arrives can_write fuel a f n) (\<lambda>n'. andthen (sleep pause) (\<lambda>_. ret n'))"

section \<open>Lemmas\<close>

lemma files_later [simp]:
  "request_log (later m c s) = request_log s" "log_lines (later m c s) = log_lines s"
  by (simp_all add: later_def)

lemma log_request_sel [simp]:
  "nodes (log_request w e s) = nodes s" "fault (log_request w e s) = fault s"
  "length (request_log s) \<le> 100 \<Longrightarrow> length (request_log (log_request w e s)) \<le> 100"
  by (auto simp: log_request_def Let_def)

lemma frame_log [simp]: "frame s (log_request w e s)"
  by (simp add: frame_def option.rel_refl)

definition delivering :: "'z net_scheme \<Rightarrow> bool" where
  "delivering s \<longleftrightarrow> (\<forall>n a. fault s n a = Delivered)"

lemma delivering_lossy: "delivering s \<Longrightarrow> lossy s"
  by (auto simp: delivering_def lossy_def)

lemma delivering_frame: "frame s s' \<Longrightarrow> delivering s' = delivering s"
  by (simp add: delivering_def frame_def)

text \<open>What a node stores for a file is a file, with a count that can be raised, or nothing yet.\<close>

definition servable :: "string \<Rightarrow> chord_node \<Rightarrow> bool" where
  "servable f nd \<longleftrightarrow>
     (case get (file_key f) nd of
        None \<Rightarrow> True
      | Some v \<Rightarrow> (\<exists>d n. v = JObj d \<and> dget_or (JInt 0) d ''serve_count'' = JInt n))"

text \<open>The same file: nothing but the count and the time of the last answer may differ.\<close>

definition same_file :: "jdict \<Rightarrow> jdict \<Rightarrow> bool" where
  "same_file d d' \<longleftrightarrow> (\<forall>k. k \<notin> {''serve_count'', ''last_served''} \<longrightarrow> map_of d' k = map_of d k)"

lemma same_file_refl [simp]: "same_file d d"
  by (simp add: same_file_def)

lemma same_file_served [simp]: "same_file d (dset ''last_served'' t (dset ''serve_count'' n d))"
  by (simp add: same_file_def map_of_dset)

lemma get_after_put: "get k (snd (put k' v nd)) = (if k = k' then (if v = JNull then None else Some v) else get k nd)"
  by (simp add: get_def put_def map_of_dset)

lemma ensure_file_run:
  assumes "servable f nd"
  obtains d nd' n where "ensure_file randint now f nd = (JObj d, nd')" "get (file_key f) nd' = Some (JObj d)"
    "dget_or (JInt 0) d ''serve_count'' = JInt n" "same_place nd nd'"
    "get (file_key f) nd = None \<longrightarrow> d = new_file randint now f nd"
    "\<forall>d0. get (file_key f) nd = Some (JObj d0) \<longrightarrow> d = d0"
proof (cases "get (file_key f) nd")
  case None
  let ?d = "new_file randint now f nd"
  have count: "dget_or (JInt 0) ?d ''serve_count'' = JInt 0" by (simp add: new_file_def Let_def dget_or_def)
  show thesis
    by (rule that [of ?d "snd (put (file_key f) (JObj ?d) nd)" 0])
      (simp_all add: None ensure_file_def count get_after_put, simp_all add: Let_def put_def)
next
  case (Some v)
  with assms obtain d n where "v = JObj d" "dget_or (JInt 0) d ''serve_count'' = JInt n" by (auto simp: servable_def)
  with Some show thesis by (intro that [of d nd n]) (simp_all add: ensure_file_def)
qed

text \<open>The node \<open>nd'\<close> after \<open>nd\<close> has served the file as \<open>c\<close>, made up or kept.\<close>

definition served :: "(int \<Rightarrow> int \<Rightarrow> int) \<Rightarrow> string \<Rightarrow> chord_node \<Rightarrow> chord_node \<Rightarrow> jdict \<Rightarrow> bool" where
  "served randint f nd nd' c \<longleftrightarrow>
     same_place nd nd' \<and> get (file_key f) nd' = Some (JObj c) \<and> servable f nd' \<and>
     (case get (file_key f) nd of
        None \<Rightarrow> \<exists>now. same_file (new_file randint now f nd) c
      | Some v \<Rightarrow> \<exists>d. v = JObj d \<and> same_file d c)"

lemma same_place_chain: "same_place a b \<Longrightarrow> same_place b c \<Longrightarrow> same_place a c"
  by (simp add: same_place_def)

lemma ensure_served:
  assumes "servable f nd"
  obtains c nd' where "ensure_file randint now f nd = (JObj c, nd')" "served randint f nd nd' c"
proof -
  obtain d nd' n where d: "ensure_file randint now f nd = (JObj d, nd')" "get (file_key f) nd' = Some (JObj d)"
    "dget_or (JInt 0) d ''serve_count'' = JInt n" "same_place nd nd'"
    "get (file_key f) nd = None \<longrightarrow> d = new_file randint now f nd"
    "\<forall>d0. get (file_key f) nd = Some (JObj d0) \<longrightarrow> d = d0"
    by (rule ensure_file_run [OF assms, of randint now])
  have "served randint f nd nd' d"
  proof (cases "get (file_key f) nd")
    case None
    with d show ?thesis by (auto simp: served_def servable_def intro: exI [of _ now])
  next
    case (Some v)
    with assms obtain d0 where "v = JObj d0" by (auto simp: servable_def)
    with d Some show ?thesis by (simp add: served_def servable_def)
  qed
  with d(1) show thesis by (rule that)
qed

lemma file_put_served:
  assumes "nodes s a = Some nd" and "servable f nd"
  obtains c nd' where "file_put randint a f s = (Inr (Ok (JObj c)), set_node a nd' s)" "served randint f nd nd' c"
proof -
  let ?now = "seconds (clock s)"
  obtain d nd1 where d: "ensure_file randint ?now f nd = (JObj d, nd1)" "served randint f nd nd1 d"
    by (rule ensure_served [OF assms(2)])
  then obtain n where n: "dget_or (JInt 0) d ''serve_count'' = JInt n" by (auto simp: served_def servable_def)
  let ?c = "dset ''last_served'' (JFloat ?now) (dset ''serve_count'' (JInt (n + 1)) d)"
  let ?nd' = "snd (put (file_key f) (JObj ?c) nd1)"
  have run: "file_put randint a f s = (Inr (Ok (JObj ?c)), set_node a ?nd' s)"
    using assms(1) d(1) n by (simp add: file_put_def act_simps Let_def)
  have place: "same_place nd1 ?nd'" by (simp add: put_def)
  have count: "dget_or (JInt 0) ?c ''serve_count'' = JInt (n + 1)" by (simp add: dget_or_def map_of_dset)
  have same: "same_file d' ?c" if "same_file d' d" for d'
    using that same_file_served [of d] by (simp add: same_file_def)
  have "servable f ?nd'" using count by (simp add: servable_def get_after_put)
  moreover have "same_place nd ?nd'" using d(2) place by (auto simp: served_def intro: same_place_chain)
  ultimately have "served randint f nd ?nd' ?c"
    using d(2) same by (simp add: served_def get_after_put split: option.splits) blast+
  with run show thesis by (rule that)
qed

lemma fetch_file_served:
  assumes "delivering s" and "nodes s a = Some nd" and "servable f nd" and "arrives f = f" and "f \<noteq> []"
  obtains c nd' where "fetch_file randint arrives a f s = (Inr (JObj c), set_node a nd' (later 1 0 s))"
    "served randint f nd nd' c"
proof -
  obtain c nd' where "file_put randint a f (later 1 0 s) = (Inr (Ok (JObj c)), set_node a nd' (later 1 0 s))"
    "served randint f nd nd' c"
    by (rule file_put_served [of "later 1 0 s"]) (use assms in auto)
  moreover have "s\<lparr>sent := Suc (sent s)\<rparr> = later 1 0 s" by (simp add: later_def)
  ultimately show thesis
    using assms by (intro that) (simp_all add: fetch_file_def http_attempt_def Let_def delivering_def serve_def act_simps)
qed

text \<open>A request, wherever it is made: the file is served by the responsible node.\<close>

lemma handle_request_served:
  fixes s :: "'z files_scheme"
  assumes st: "stable A s" and net: "delivering s" and me: "member A s me nd" and rt: "routes nd (sha1_id f)" and fuel: "255 \<le> fuel"
    and b: "json_body payload = Inr b" "dget b ''filename'' = JStr f" and f: "strip f = f" "f \<noteq> []" "arrives f = f"
    and r: "responsible A s (sha1_id f) r" "nodes s (ref_addr r) = Some nr" and ok: "servable f nr"
  obtains hops c nr' s' where
    "handle_request randint arrives w fuel me payload s = (Inr (Ok (file_reply f r (ref_addr r) hops (JObj c))), s')"
    "frame s s'" "nodes s' (ref_addr r) = Some nr'" "served randint f nr nr' c"
proof -
  obtain r' m c where look: "find_successor fuel me (sha1_id f) s = (Inr r', later m c s)" "responsible A s (sha1_id f) r'"
    by (rule find_successor_ok [OF st delivering_lossy [OF net] me sha1_id_is_id rt fuel])
  then have r': "r' = r" using responsible_unique [OF st sha1_id_is_id] r(1) by blast
  let ?s1 = "later m c s"
  note run = handle_request_def act_simps b f look(1) r' Let_def memberD(1) [OF me] stable_node(2) [OF st me]
  show thesis
  proof (cases "ref_id r = node_id nd")
    case True
    have here: "ref_addr r = me" using responsible_self [OF st me _ True] r(1) by (simp add: responsible_def)
    then have nr: "nr = nd" using r(2) memberD(1) [OF me] by simp
    obtain d nd' where d: "ensure_file randint (seconds (clock ?s1)) f nd = (JObj d, nd')" "served randint f nd nd' d"
      by (rule ensure_served) (use ok nr in auto)
    have fr: "frame s (set_node me nd' ?s1)"
      using d(2) memberD(1) [OF me] by (intro frame_trans [OF frame_later frame_set_node]) (auto simp: served_def)
    show thesis
      by (rule that [of 1 d "log_request w _ (set_node me nd' ?s1)" nd'])
        (use True here d nr frame_trans [OF fr frame_log] in \<open>simp_all add: run\<close>)
  next
    case False
    obtain d nr' where d: "fetch_file randint arrives (ref_addr r) f ?s1 = (Inr (JObj d), set_node (ref_addr r) nr' (later 1 0 ?s1))"
      "served randint f nr nr' d"
      by (rule fetch_file_served [of ?s1 _ nr f arrives]) (use net r(2) ok f in \<open>auto simp: delivering_def\<close>)
    have fr: "frame s (set_node (ref_addr r) nr' (later 1 0 ?s1))"
      using d(2) r(2) by (intro frame_trans [OF frame_trans [OF frame_later frame_later] frame_set_node]) (auto simp: served_def)
    show thesis
      by (rule that [of 2 d "log_request w _ (set_node (ref_addr r) nr' (later 1 0 ?s1))" nr'])
        (use False d frame_trans [OF fr frame_log] in \<open>simp_all add: run\<close>)
  qed
qed

section \<open>Properties\<close>

definition request_for :: "string \<Rightarrow> json" where
  "request_for f = JObj [(''filename'', JStr f)]"

text \<open>
  A file that nobody stores yet is made up once and served ever after: in a stable ring
  whose network delivers, a request through any member is answered by the node responsible for
  the name with a new file, and every later request, through any member, is answered by the
  same node with the same file (the count of answers and the time of the last one apart). The
  name must be one that a URL carries as it is, and must not hash to the identifier of the member
  that looks it up, unless that member is alone.
\<close>

theorem file_request_stable:
  fixes s :: "'z files_scheme"
  assumes st: "stable A s" and net: "delivering s" and me: "member A s me nd" "routes nd (sha1_id f)" and fuel: "255 \<le> fuel"
    and f: "strip f = f" "f \<noteq> []" "arrives f = f"
    and new: "\<forall>a n. member A s a n \<longrightarrow> get (file_key f) n = None"
  shows "\<exists>r hops c now nr s'. responsible A s (sha1_id f) r \<and> nodes s (ref_addr r) = Some nr \<and>
    handle_request randint arrives w fuel me (request_for f) s = (Inr (Ok (file_reply f r (ref_addr r) hops (JObj c))), s') \<and>
    same_file (new_file randint now f nr) c \<and>
    (\<forall>reader rd. member A s reader rd \<longrightarrow> routes rd (sha1_id f) \<longrightarrow>
      (\<exists>hops' c' s''. handle_request randint arrives w fuel reader (request_for f) s'
           = (Inr (Ok (file_reply f r (ref_addr r) hops' (JObj c'))), s'') \<and> same_file c c'))"
proof -
  have b: "json_body (request_for f) = Inr [(''filename'', JStr f)]" "dget [(''filename'', JStr f)] ''filename'' = JStr f"
    by (simp_all add: request_for_def json_body_def py_or_def dget_or_def)
  obtain r m0 c0 where r: "responsible A s (sha1_id f) r"
    by (rule find_successor_ok [OF st delivering_lossy [OF net] me(1) sha1_id_is_id me(2) fuel])
  then obtain nr where nr: "member A s (ref_addr r) nr" by (auto simp: responsible_def refers_def)
  then have none: "get (file_key f) nr = None" "servable f nr" using new by (auto simp: servable_def)
  obtain hops c nr' s' where first:
    "handle_request randint arrives w fuel me (request_for f) s = (Inr (Ok (file_reply f r (ref_addr r) hops (JObj c))), s')"
    "frame s s'" "nodes s' (ref_addr r) = Some nr'" "served randint f nr nr' c"
    by (rule handle_request_served [where arrives = arrives, OF st net me fuel b f r memberD(1) [OF nr] none(2)])
  have later: "\<exists>hops' c' s''. handle_request randint arrives w fuel reader (request_for f) s'
      = (Inr (Ok (file_reply f r (ref_addr r) hops' (JObj c'))), s'') \<and> same_file c c'"
    if rd: "member A s reader rd" "routes rd (sha1_id f)" for reader rd
  proof -
    obtain rd' where rd': "member A s' reader rd'" "same_place rd rd'" by (rule frame_member [OF first(2) rd(1)])
    have again: "stable A s'" "delivering s'" "routes rd' (sha1_id f)" "responsible A s' (sha1_id f) r" "servable f nr'"
      using frame_stable_imp [OF first(2) st] delivering_frame [OF first(2)] frame_responsible [OF first(2)]
        same_place_routes [OF rd'(2)] net r rd(2) first(4) by (auto simp: served_def)
    obtain hops' c' nr'' s'' where
      "handle_request randint arrives w fuel reader (request_for f) s' = (Inr (Ok (file_reply f r (ref_addr r) hops' (JObj c'))), s'')"
      "served randint f nr' nr'' c'"
      by (rule handle_request_served [where arrives = arrives, OF again(1,2) rd'(1) again(3) fuel b f again(4) first(3) again(5)])
    moreover have "same_file c c'" using calculation(2) first(4) by (simp add: served_def)
    ultimately show ?thesis by blast
  qed
  have made: "\<exists>now. same_file (new_file randint now f nr) c" using first(4) none(1) by (simp add: served_def)
  from made obtain now where "same_file (new_file randint now f nr) c" ..
  with r memberD(1) [OF nr] first(1) later show ?thesis by blast
qed

definition demo_files :: files where
  "demo_files = \<lparr>nodes = [''a'' \<mapsto> demo_one], fault = (\<lambda>n a. Delivered), sent = 0, clock = 0, request_log = [], log_lines = []\<rparr>"

theorem file_request_stable_witness:
  "\<exists>r hops c now s'. handle_request (\<lambda>lo hi. hi) id True 255 ''a'' (request_for ''a.txt'') demo_files
      = (Inr (Ok (file_reply ''a.txt'' r (ref_addr r) hops (JObj c))), s') \<and>
    same_file (new_file (\<lambda>lo hi. hi) now ''a.txt'' demo_one) c \<and>
    (\<exists>hops' c' s''. handle_request (\<lambda>lo hi. hi) id True 255 ''a'' (request_for ''a.txt'') s'
      = (Inr (Ok (file_reply ''a.txt'' r (ref_addr r) hops' (JObj c'))), s'') \<and> same_file c c')"
proof -
  have mem: "member UNIV demo_files a nd \<longleftrightarrow> member UNIV demo_single a nd" for a nd
    by (simp add: member_def demo_files_def demo_single_def)
  then have parts: "stable UNIV demo_files"
    using demo_single_stable by (simp add: stable_def well_placed_def refers_def ring_ids_def)
  have rt: "routes demo_one k" for k by (simp add: routes_def demo_one_succ) (simp add: demo_one_def demo_refs)
  have a: "member UNIV demo_files ''a'' demo_one" by (simp add: mem demo_single_member)
  have net: "delivering demo_files" by (simp add: delivering_def demo_files_def)
  have name: "strip ''a.txt'' = ''a.txt''" "''a.txt'' \<noteq> []" "id ''a.txt'' = ''a.txt''" by code_simp+
  have fuel: "(255 :: nat) \<le> 255" by simp
  have none: "\<forall>a n. member UNIV demo_files a n \<longrightarrow> get (file_key ''a.txt'') n = None"
    by (simp add: mem demo_single_member get_def demo_one_def demo_node_def)
  note served = file_request_stable [where randint = "\<lambda>lo hi. hi" and w = True and arrives = id, OF parts net a rt fuel name none]
  have one: "nodes demo_files (ref_addr r) = Some nr \<Longrightarrow> nr = demo_one" for r nr
    by (simp add: demo_files_def split: if_splits)
  from served show ?thesis using a rt one by blast
qed

end
