(* ===== verification/Operations.thy ===== *)
theory Operations
  imports Workers Files
begin

text \<open>
  The endpoints and threads of \<open>chord/server.py\<close> with which an operator watches and disturbs the
  system: killing a worker, the thread that starts workers when tasks wait and none is live, the
  samples and events of the observability pages, the timeline of the recovery manager, the
  demonstration runs, and a process that leaves or crashes.

  The state adds the samples and the events to that of the frontend. \<open>kill\<close> is \<open>os.kill(pid, 9)\<close>,
  which finds the process or not, or raises; \<open>pgrep\<close> returns the process identifiers that the
  program of that name prints, none when it fails or does not exist; \<open>popen\<close> starts a process.
\<close>

section \<open>State\<close>

record sample =
  sample_ts :: rat
  sample_workers :: worker_counts
  sample_queue :: nat
  sample_success :: nat
  sample_failure :: nat

record obs_event =
  oe_ts :: rat
  oe_kind :: string
  oe_message :: string
  oe_data :: jdict

record console = frontend +
  obs_buffer :: "sample list"
  obs_events :: "obs_event list"

text \<open>\<open>deque(maxlen=n)\<close>\<close>

definition keep_last :: "nat \<Rightarrow> 'a list \<Rightarrow> 'a list" where
  "keep_last n xs = drop (length xs - n) xs"

definition add_obs_event :: "string \<Rightarrow> string \<Rightarrow> jdict \<Rightarrow> ('z console_scheme, unit) act" where
  "add_obs_event kind message data = modify (\<lambda>s.
     s\<lparr>obs_events := keep_last 200 (obs_events s @
         [\<lparr>oe_ts = now_s s, oe_kind = kind, oe_message = message, oe_data = data\<rparr>])\<rparr>)"

section \<open>Samples\<close>

definition result_items :: "chord_node \<Rightarrow> jdict list" where
  "result_items nd = List.map (\<lambda>kv. dict_of (snd kv))
     (filter (\<lambda>kv. startswith (fst kv) ''result:'' \<and> is_dict (snd kv)) (data_store nd))"

definition count_status :: "string \<Rightarrow> chord_node \<Rightarrow> nat" where
  "count_status st nd = length (filter (\<lambda>d. dget d ''status'' = JStr st) (result_items nd))"

definition pending_of :: "string \<Rightarrow> chord_node \<Rightarrow> nat" where
  "pending_of w nd = length (filter (\<lambda>d. dget d ''worker_id'' = JStr w \<and> dget d ''status'' = JStr ''PENDING'') (result_items nd))"

definition no_counts :: worker_counts where
  "no_counts = \<lparr>n_live = 0, n_idle = 0, n_busy = 0, n_dead = 0\<rparr>"

text \<open>A worker last seen at 0 counts as never seen, and the time limit holds even when it is not positive.\<close>

definition sample_worker :: "rat \<Rightarrow> rat \<Rightarrow> chord_node \<Rightarrow> string \<times> rat \<Rightarrow> worker_counts \<Rightarrow> worker_counts" where
  "sample_worker now limit nd wt c =
     (let (w, last) = wt in
      if last = 0 \<or> limit < now - last then c\<lparr>n_dead := Suc (n_dead c)\<rparr>
      else if 0 < pending_of w nd then c\<lparr>n_live := Suc (n_live c), n_busy := Suc (n_busy c)\<rparr>
      else c\<lparr>n_live := Suc (n_live c), n_idle := Suc (n_idle c)\<rparr>)"

definition take_sample :: "rat \<Rightarrow> registry \<Rightarrow> chord_node \<Rightarrow> sample" where
  "take_sample now g nd =
     \<lparr>sample_ts = now, sample_workers = fold (sample_worker now (timeout g) nd) (workers g) no_counts,
      sample_queue = count_status ''PENDING'' nd, sample_success = count_status ''SUCCESS'' nd,
      sample_failure = count_status ''FAILURE'' nd\<rparr>"

definition sample_obs :: "string \<Rightarrow> ('z console_scheme, unit) act" where
  "sample_obs me = ignoring
     (andthen (read_node me (\<lambda>nd. nd)) (\<lambda>nd.
      modify (\<lambda>s. s\<lparr>obs_buffer := keep_last 300 (obs_buffer s @ [take_sample (now_s s) (reg s) nd])\<rparr>)))"

text \<open>A turn of the sampling thread.\<close>

definition obs_turn :: "string \<Rightarrow> ('z console_scheme, unit) act" where
  "obs_turn me = andthen (sample_obs me) (\<lambda>_. sleep 2000000)"

text \<open>\<open>round(q, n)\<close>\<close>

definition round_digits :: "nat \<Rightarrow> rat \<Rightarrow> rat" where
  "round_digits n q = of_int (round_half_even (q * 10 ^ n)) / 10 ^ n"

text \<open>Completions and failures per minute between the first and the last sample, and the last sample.\<close>

definition api_obs_timeseries :: "'z console_scheme \<Rightarrow> sample list \<times> rat \<times> rat \<times> sample option" where
  "api_obs_timeseries s =
     (let series = obs_buffer s;
          rate = (\<lambda>f. if 2 \<le> length series then
                    (of_nat (f (last series)) - of_nat (f (hd series)))
                      / max 1 (sample_ts (last series) - sample_ts (hd series)) * 60
                  else 0)
      in (series, round_digits 2 (rate sample_success), round_digits 2 (rate sample_failure),
          if series = [] then None else Some (last series)))"

definition record_view :: "jdict \<Rightarrow> json" where
  "record_view rec = JObj (List.map (\<lambda>k. (k, dget rec k))
     [''task_type'', ''status'', ''worker_id'', ''assigned_by'', ''created_at'', ''updated_at'', ''result'', ''worker_result''])"

text \<open>The record of a task as this process stores it, with the events about it.\<close>

definition api_obs_trace :: "string \<Rightarrow> string \<Rightarrow> ('z console_scheme, (json \<times> obs_event list) reply) act" where
  "api_obs_trace me t =
     andthen (catch (read_node me (get (''result:'' @ t))) (\<lambda>_. ret None)) (\<lambda>rec.
     case rec of
       Some (JObj d) \<Rightarrow>
         andthen (gets (\<lambda>s. filter (\<lambda>e. dget (oe_data e) ''task_id'' = JStr t) (obs_events s))) (\<lambda>related.
         ret (Ok (record_view d, related)))
     | _ \<Rightarrow> ret (Status 404))"

section \<open>The timeline and the workers\<close>

definition api_events :: "rat \<Rightarrow> 'z cluster_scheme \<Rightarrow> event list \<times> nat" where
  "api_events since s =
     (let es = get_events since s in
      (es, length (filter (\<lambda>e. ev_type e \<in> {''retry'', ''wait_retry'', ''give_up''}) es)))"

record worker_view =
  view_worker :: string
  view_alive :: bool
  view_pending :: int
  view_latency :: rat
  view_rate :: rat
  view_score :: rat

definition live_view :: "registry \<Rightarrow> string \<Rightarrow> worker_view" where
  "live_view g w =
     \<lparr>view_worker = w, view_alive = True,
      view_pending = (case get_metrics w g of Some m \<Rightarrow> pending_tasks m | None \<Rightarrow> 0),
      view_latency = (case get_metrics w g of Some m \<Rightarrow> latency_ms m | None \<Rightarrow> 0),
      view_rate = success_rate (get_stats w g), view_score = score g w\<rparr>"

definition dead_view :: "string \<Rightarrow> worker_view" where
  "dead_view w =
     \<lparr>view_worker = w, view_alive = False, view_pending = 0, view_latency = 0, view_rate = 0, view_score = 0\<rparr>"

definition api_workers_status :: "rat \<Rightarrow> registry \<Rightarrow> worker_view list" where
  "api_workers_status now g =
     (let live = live_workers now g in
      List.map (live_view g) live @
      List.map (\<lambda>(w, _, _). dead_view w) (filter (\<lambda>(w, _, _). w \<notin> set live) (all_workers now g)))"

text \<open>
  \<open>metrics_snapshot\<close> of the registry: a row holds the worker, its counters, and for a live one
  pending tasks, latency and score, for a dead one the time since it was seen. \<open>order\<close> is the
  order in which Python iterates over the set of live workers.
\<close>

record snapshot_row =
  sr_worker :: string
  sr_stats :: worker_stats
  sr_rate :: rat
  sr_live :: "(int \<times> rat \<times> rat) option"
  sr_last_seen :: "rat option"

definition snapshot_live :: "registry \<Rightarrow> string \<Rightarrow> snapshot_row" where
  "snapshot_live g w =
     (let m = (case map_of (metrics_of g) w of Some m \<Rightarrow> m | None \<Rightarrow> default_metrics); st = get_stats w g in
      \<lparr>sr_worker = w, sr_stats = st, sr_rate = round_digits 4 (success_rate st),
       sr_live = Some (pending_tasks m, round_digits 2 (latency_ms m), round_digits 4 (score g w)), sr_last_seen = None\<rparr>)"

definition snapshot_dead :: "rat \<Rightarrow> registry \<Rightarrow> string \<times> rat \<Rightarrow> snapshot_row" where
  "snapshot_dead now g wt =
     (let st = get_stats (fst wt) g in
      \<lparr>sr_worker = fst wt, sr_stats = st, sr_rate = round_digits 4 (success_rate st), sr_live = None,
       sr_last_seen = Some (round_digits 1 (now - snd wt))\<rparr>)"

definition metrics_snapshot :: "(string list \<Rightarrow> string list) \<Rightarrow> rat \<Rightarrow> registry \<Rightarrow> snapshot_row list" where
  "metrics_snapshot order now g =
     (let live = live_workers now g in
      sort_key (\<lambda>r. case sr_live r of Some (_, _, x) \<Rightarrow> - x | None \<Rightarrow> 0) (List.map (snapshot_live g) (order live)) @
      List.map (snapshot_dead now g) (filter (\<lambda>(w, _). w \<notin> set live) (workers g)))"

section \<open>Starting workers when none is live\<close>

definition auto_name :: "nat \<Rightarrow> string" where
  "auto_name n = ''auto'' @ show_nat n"

lemma auto_name_inj: "inj auto_name"
  by (auto simp: inj_def auto_name_def intro: show_nat_inj)

text \<open>\<open>while f"auto{n}" in _worker_pids: n += 1\<close>\<close>

function free_auto :: "string list \<Rightarrow> nat \<Rightarrow> nat" where
  "free_auto existing n = (if auto_name n \<in> set existing then free_auto existing (n + 1) else n)"
  by pat_completeness auto

termination
  by (relation "measure (\<lambda>(existing, n). card (set existing \<inter> auto_name ` {n..}))")
    (use fewer_names [OF auto_name_inj] in auto)

declare free_auto.simps [simp del]

lemma free_auto_new: "auto_name (free_auto existing n) \<notin> set existing"
  by (induction existing n rule: free_auto.induct) (subst free_auto.simps, simp)

text \<open>A turn of the thread.\<close>

definition auto_respawn ::
  "(string \<Rightarrow> ('z console_scheme, int) act) \<Rightarrow> bool \<Rightarrow> string \<Rightarrow> ('z console_scheme, unit) act" where
  "auto_respawn popen autospawn me =
     (if \<not> autospawn then ret ()
      else
        andthen (sleep 5000000) (\<lambda>_.
        ignoring
          (andthen (gets (\<lambda>s. live_workers (now_s s) (reg s))) (\<lambda>live.
           andthen (read_node me (count_status ''PENDING'')) (\<lambda>pending.
           if live \<noteq> [] \<or> pending = 0 then ret ()
           else
             andthen (gets (\<lambda>s. auto_name (free_auto (dkeys (worker_pids s)) 1))) (\<lambda>w.
             andthen (popen w) (\<lambda>pid.
             andthen (modify (\<lambda>s. s\<lparr>worker_pids := dset w pid (worker_pids s)\<rparr>)) (\<lambda>_.
             add_obs_event ''worker_spawned'' (''auto-respawn '' @ w @ '' (rescue '' @ show_nat pending @ '' pending tasks)'')
               [(''worker_id'', JStr w), (''pid'', JInt pid), (''auto'', JBool True)]))))))))"

section \<open>Killing a worker\<close>

text \<open>What is forgotten of a worker that is gone.\<close>

definition forget_worker :: "string \<Rightarrow> 'z console_scheme \<Rightarrow> 'z console_scheme" where
  "forget_worker w s =
     s\<lparr>worker_pids := ddel w (worker_pids s), reg := snd (remove_worker w (reg s)),
       known_workers := filter (\<lambda>x. x \<noteq> w) (known_workers s)\<rparr>"

definition ok_pid :: "int \<Rightarrow> response" where
  "ok_pid pid = (200, JObj [(''ok'', JBool True), (''pid'', JInt pid)])"

text \<open>The answer, and whether the thread that scans for tasks to recover has been started.\<close>

definition kill_pid :: "(int \<Rightarrow> ('z console_scheme, bool) act) \<Rightarrow> string \<Rightarrow> int \<Rightarrow> ('z console_scheme, response \<times> bool) act" where
  "kill_pid kill w pid = catch
     (andthen (kill pid) (\<lambda>found.
      andthen (modify (forget_worker w)) (\<lambda>_.
      if found then
        andthen (modify (\<lambda>s. s\<lparr>last_spawn_trigger := 0\<rparr>)) (\<lambda>_.
        andthen (add_obs_event ''worker_killed'' (''worker '' @ w @ '' stopped (pid '' @ show_int pid @ '')'')
          [(''worker_id'', JStr w), (''pid'', JInt pid)]) (\<lambda>_.
        ret (ok_pid pid, True)))
      else ret ((200, JObj [(''ok'', JBool True), (''note'', JStr ''already dead'')]), False))))
     (\<lambda>_. ret ((500, JObj [(''ok'', JBool False)]), False))"

definition api_kill_worker ::
  "(string \<Rightarrow> ('z console_scheme, int list) act) \<Rightarrow> (int \<Rightarrow> ('z console_scheme, bool) act) \<Rightarrow> string
    \<Rightarrow> ('z console_scheme, response \<times> bool) act" where
  "api_kill_worker pgrep kill w = catch
     (andthen (gets (\<lambda>s. map_of (worker_pids s) w)) (\<lambda>own.
      andthen (if own = None \<or> own = Some 0
               then andthen (pgrep w) (\<lambda>pids. ret (case pids of [] \<Rightarrow> None | p # _ \<Rightarrow> Some p))
               else ret own) (\<lambda>pid.
      if pid = None \<or> pid = Some 0
      then ret ((404, JObj [(''ok'', JBool False), (''error'', JStr (''no process found for worker '' @ w))]), False)
      else kill_pid kill w (the pid))))
     (\<lambda>_. ret ((500, JNull), False))"

text \<open>The handler with the thread it starts, when the thread runs at once.\<close>

definition kill_and_recover ::
  "nat \<Rightarrow> string \<Rightarrow> int \<Rightarrow> ('z console_scheme, json) act option \<Rightarrow> (string list \<Rightarrow> string list)
    \<Rightarrow> (string \<Rightarrow> ('z console_scheme, int list) act) \<Rightarrow> (int \<Rightarrow> ('z console_scheme, bool) act) \<Rightarrow> string
    \<Rightarrow> ('z console_scheme, response) act" where
  "kill_and_recover fuel me k spawn order pgrep kill w =
     andthen (api_kill_worker pgrep kill w) (\<lambda>(answer, started).
     andthen (if started then trigger fuel me k spawn order else ret ()) (\<lambda>_. ret answer))"

text \<open>\<open>/debug/trigger-recovery\<close> scans in the handler.\<close>

definition debug_trigger_recovery ::
  "nat \<Rightarrow> string \<Rightarrow> int \<Rightarrow> ('z cluster_scheme, json) act option \<Rightarrow> (string list \<Rightarrow> string list) \<Rightarrow> ('z cluster_scheme, response) act" where
  "debug_trigger_recovery fuel me k spawn order = catch
     (andthen (trigger fuel me k spawn order) (\<lambda>_.
      andthen (gets now_s) (\<lambda>now. ret (200, JObj [(''ok'', JBool True), (''scanned_at'', JFloat now)]))))
     (\<lambda>_. ret (500, JNull))"

section \<open>Demonstration runs\<close>

text \<open>\<open>f"{idx:03d}"\<close>\<close>

definition demo_id :: "string \<Rightarrow> int \<Rightarrow> nat \<Rightarrow> string" where
  "demo_id name ts idx = name @ ''-'' @ show_int ts @ ''-'' @ pad 3 (int idx)"

definition demo_payload :: "string \<Rightarrow> string \<Rightarrow> json" where
  "demo_payload tid script = JObj
     [(''task_id'', JStr tid),
      (''task_details'', JObj [(''task_type'', JStr ''SCRIPT''), (''path'', JStr []), (''script'', JStr script)])]"

definition demo_script :: "string \<Rightarrow> nat \<Rightarrow> string" where
  "demo_script tid idx =
     (let sleep_s = show_nat ([3, 4, 5, 6, 7] ! ((idx - 1) mod 5)); quote = [CHR 0x22] in
      ''echo '' @ quote @ ''['' @ tid @ ''] starting (sleep '' @ sleep_s @ ''s)'' @ quote @ ''; sleep '' @ sleep_s @ ''; echo '' @
      quote @ ''Welcome to Rakesh Ranjan'' @ [CHR 0x27] @ ''s Distributed Class'' @ quote @ ''; echo '' @
      quote @ ''['' @ tid @ ''] done'' @ quote)"

definition fail_script :: "string \<Rightarrow> string" where
  "fail_script tid =
     (let quote = [CHR 0x22] in ''echo '' @ quote @ ''['' @ tid @ ''] starting (will fail)'' @ quote @ ''; exit 1'')"

text \<open>The background thread: \<open>submit\<close> is the endpoint \<open>/createTask\<close> of the process itself.\<close>

definition submit_demo ::
  "string \<Rightarrow> (json \<Rightarrow> ('z console_scheme, response) act) \<Rightarrow> (nat \<Rightarrow> json) \<Rightarrow> nat \<Rightarrow> ('z console_scheme, unit) act" where
  "submit_demo me submit payload n =
     for_each [1..<n + 1] (\<lambda>idx _.
       andthen (ignoring (andthen (http_attempt me (andthen (submit (payload idx)) (\<lambda>r. ret (Ok r)))) (\<lambda>_. ret ()))) (\<lambda>_.
       sleep 50000)) ()"

text \<open>The number of tasks: \<open>max(1, min(int(body.get("count") or 10), 200))\<close>, and 10 when that raises.\<close>

definition demo_count :: "json \<Rightarrow> nat" where
  "demo_count payload =
     (case chain (json_body payload) (\<lambda>b. py_int (py_or (dget b ''count'') (JInt 10))) of
        Inr n \<Rightarrow> nat (max 1 (min n 200))
      | Inl _ \<Rightarrow> 10)"

text \<open>The handlers: the payloads for the thread, and how many.\<close>

definition api_demo_run :: "json \<Rightarrow> ('z console_scheme, (nat \<Rightarrow> json) \<times> nat) act" where
  "api_demo_run payload =
     andthen (gets (\<lambda>s. trunc (now_s s))) (\<lambda>ts.
     let n = demo_count payload in
     andthen (add_obs_event ''demo_run'' (''launched '' @ show_nat n @ '' demo tasks'') [(''count'', JInt (int n))]) (\<lambda>_.
     ret (\<lambda>idx. let tid = demo_id ''demo'' ts idx in demo_payload tid (demo_script tid idx), n)))"

definition api_demo_fail_all :: "('z console_scheme, (nat \<Rightarrow> json) \<times> nat) act" where
  "api_demo_fail_all =
     andthen (gets (\<lambda>s. trunc (now_s s))) (\<lambda>ts.
     andthen (add_obs_event ''fail_all_demo'' ''launched 15 failing demo tasks'' [(''count'', JInt 15)]) (\<lambda>_.
     ret (\<lambda>idx. let tid = demo_id ''fail'' ts idx in demo_payload tid (fail_script tid), 15)))"

section \<open>A process that ends\<close>

definition exit_process :: "string \<Rightarrow> ('z net_scheme, unit) act" where
  "exit_process me = modify (\<lambda>s. s\<lparr>nodes := (nodes s)(me := None)\<rparr>)"

text \<open>The threads that \<open>/admin/leave\<close> and \<open>/admin/crash\<close> start.\<close>

definition admin_leave :: "string \<Rightarrow> ('z net_scheme, unit) act" where
  "admin_leave me =
     andthen (sleep 300000) (\<lambda>_.
     andthen (ignoring (leave me)) (\<lambda>_.
     andthen (sleep 400000) (\<lambda>_. exit_process me)))"

definition admin_crash :: "string \<Rightarrow> ('z net_scheme, unit) act" where
  "admin_crash me = andthen (sleep 150000) (\<lambda>_. exit_process me)"

section \<open>Properties\<close>

lemma keep_last_length: "length (keep_last n xs) \<le> n"
  by (simp add: keep_last_def)

text \<open>
  What a sample counts adds up: every worker the registry knows is live or dead, every live one
  idle or busy.
\<close>

lemma fold_sample_worker:
  "n_live (fold (sample_worker now limit nd) ws c) + n_dead (fold (sample_worker now limit nd) ws c)
     = n_live c + n_dead c + length ws"
  "n_live c = n_idle c + n_busy c \<Longrightarrow>
   n_live (fold (sample_worker now limit nd) ws c)
     = n_idle (fold (sample_worker now limit nd) ws c) + n_busy (fold (sample_worker now limit nd) ws c)"
  by (induction ws arbitrary: c) (auto simp: sample_worker_def Let_def split: prod.splits)

lemma sample_counts:
  fixes now g nd
  defines "c \<equiv> sample_workers (take_sample now g nd)"
  shows "n_live c + n_dead c = length (workers g) \<and> n_live c = n_idle c + n_busy c"
  using fold_sample_worker(1) [of now "timeout g" nd "workers g" no_counts] fold_sample_worker(2) [of no_counts]
  by (simp add: c_def take_sample_def) (simp add: no_counts_def)

text \<open>
  A worker that was killed is gone: when the endpoint answers with success, the registry lists
  the live workers without it and all others as before, its process identifier is forgotten,
  and it is no longer known as announced, so that a later worker of the same name is announced.
\<close>

lemma fst_ddel: "List.map fst (filter P (ddel w ws)) = filter (\<lambda>x. x \<noteq> w) (List.map fst (filter P ws))"
  by (induction ws) auto

lemma dkeys_ddel: "dkeys (ddel w ws) = filter (\<lambda>x. x \<noteq> w) (dkeys ws)"
  using fst_ddel [of "\<lambda>_. True"] by (simp add: dkeys_def)

lemma forgotten:
  "live_workers now (reg (forget_worker w s)) = filter (\<lambda>x. x \<noteq> w) (live_workers now (reg s))"
  "w \<notin> set (dkeys (worker_pids (forget_worker w s)))" "w \<notin> set (known_workers (forget_worker w s))"
proof -
  show "live_workers now (reg (forget_worker w s)) = filter (\<lambda>x. x \<noteq> w) (live_workers now (reg s))"
    by (simp add: live_workers_def forget_worker_def remove_worker_def filter_sort fst_ddel dkeys_ddel)
  show "w \<notin> set (dkeys (worker_pids (forget_worker w s)))" by (simp add: forget_worker_def dkeys_ddel)
  show "w \<notin> set (known_workers (forget_worker w s))" by (simp add: forget_worker_def)
qed

lemma kill_pid_done:
  assumes "kill_pid kill w pid s = (Inr ((200, b), scanning), s')"
  obtains found s1 where "kill pid s = (Inr found, s1)" "reg s' = reg (forget_worker w s1)"
    "worker_pids s' = worker_pids (forget_worker w s1)" "known_workers s' = known_workers (forget_worker w s1)"
    "scanning \<longrightarrow> last_spawn_trigger s' = 0"
  using assms
  by (cases "kill pid s")
    (auto simp: kill_pid_def andthen_def catch_def modify_def add_obs_event_def ret_def ok_pid_def split: sum.splits if_splits)

theorem killed_worker_gone:
  assumes run: "api_kill_worker pgrep kill w s = (Inr ((200, b), scanning), s')"
    and os: "\<And>g. keeps (\<lambda>s. reg s = g) (pgrep w)" "\<And>g pid. keeps (\<lambda>s. reg s = g) (kill pid)"
  shows "live_workers now (reg s') = filter (\<lambda>x. x \<noteq> w) (live_workers now (reg s)) \<and>
    w \<notin> set (dkeys (worker_pids s')) \<and> w \<notin> set (known_workers s') \<and> (scanning \<longrightarrow> last_spawn_trigger s' = 0)"
proof -
  obtain pid s0 where kill: "kill_pid kill w pid s0 = (Inr ((200, b), scanning), s')" and same: "reg s0 = reg s"
    using run keepsD [OF os(1), of s "reg s"]
    by (auto simp: api_kill_worker_def andthen_def catch_def gets_def ret_def split: sum.splits if_splits prod.splits)
  obtain found s1 where s1: "kill pid s0 = (Inr found, s1)" "reg s' = reg (forget_worker w s1)"
    "worker_pids s' = worker_pids (forget_worker w s1)" "known_workers s' = known_workers (forget_worker w s1)"
    "scanning \<longrightarrow> last_spawn_trigger s' = 0"
    by (rule kill_pid_done [OF kill])
  have "reg s1 = reg s" using keepsD [OF os(2) [of "reg s" pid], of s0] s1(1) same by simp
  with s1 forgotten show ?thesis by (metis forgotten(1))
qed

text \<open>
  The thread that starts workers has no pause for a started worker to report: as long as no
  heartbeat arrives, every turn of it starts one more worker. After \<open>n\<close> turns there are \<open>n\<close> new
  processes, under names that are all different.
\<close>

lemma auto_respawn_run:
  assumes "nodes s me = Some nd" and "workers (reg s) = []" and "0 < count_status ''PENDING'' nd"
    and popen: "\<And>w s. popen w s = (Inr (pid w), s)"
  obtains w s' where "auto_respawn popen True me s = (Inr (), s')" "w \<notin> set (dkeys (worker_pids s))"
    "worker_pids s' = dset w (pid w) (worker_pids s)" "nodes s' = nodes s" "reg s' = reg s"
proof -
  let ?w = "auto_name (free_auto (dkeys (worker_pids s)) 1)"
  have none: "live_workers now (reg s) = []" for now using assms(2) by (simp add: live_workers_def dkeys_def)
  have "\<exists>s'. auto_respawn popen True me s = (Inr (), s') \<and> worker_pids s' = dset ?w (pid ?w) (worker_pids s) \<and>
      nodes s' = nodes s \<and> reg s' = reg s"
    using assms(1,3) by (simp add: auto_respawn_def ignoring_def act_simps sleep_def popen none add_obs_event_def)
  then obtain s' where "auto_respawn popen True me s = (Inr (), s')" "worker_pids s' = dset ?w (pid ?w) (worker_pids s)"
    "nodes s' = nodes s" "reg s' = reg s" by blast
  with free_auto_new show thesis by (intro that [of s' ?w])
qed

theorem respawn_every_turn:
  fixes s :: "'z console_scheme"
  assumes "nodes s me = Some nd" and "workers (reg s) = []" and "0 < count_status ''PENDING'' nd"
    and popen: "\<And>w s. popen w s = (Inr (pid w), s)"
    and "distinct (dkeys (worker_pids s))"
  shows "\<exists>s'. for_each (replicate n ()) (\<lambda>_ _. auto_respawn popen True me) () s = (Inr (), s') \<and>
    length (worker_pids s') = length (worker_pids s) + n \<and> distinct (dkeys (worker_pids s'))"
  using assms(1-3,5)
proof (induction n arbitrary: s)
  case 0
  then show ?case by (simp add: act_simps)
next
  case (Suc n)
  obtain w s1 where one: "auto_respawn popen True me s = (Inr (), s1)" "w \<notin> set (dkeys (worker_pids s))"
    "worker_pids s1 = dset w (pid w) (worker_pids s)" "nodes s1 = nodes s" "reg s1 = reg s"
    by (rule auto_respawn_run [OF Suc.prems(1-3) popen])
  have pids: "worker_pids s1 = worker_pids s @ [(w, pid w)]" using one(2,3) by (simp add: dset_new)
  have d1: "distinct (dkeys (worker_pids s1))" unfolding pids using Suc.prems(4) one(2) by (simp add: dkeys_def)
  obtain s' where "for_each (replicate n ()) (\<lambda>_ _. auto_respawn popen True me) () s1 = (Inr (), s')"
    "length (worker_pids s') = length (worker_pids s1) + n" "distinct (dkeys (worker_pids s'))"
    using Suc.IH [of s1] Suc.prems(1-3) one(4,5) d1 by auto
  with one(1) pids show ?case by (simp add: act_simps)
qed

text \<open>A process with a pending task and no workers, and one with a live worker that it started.\<close>

definition demo_console :: "registry \<Rightarrow> int dict \<Rightarrow> console" where
  "demo_console g pids = frontend.extend (demo_office\<lparr>reg := g, worker_pids := pids\<rparr>) \<lparr>obs_buffer = [], obs_events = []\<rparr>"

lemma demo_console_node:
  "nodes (demo_console g pids) ''a'' = nodes demo_office ''a''" "reg (demo_console g pids) = g"
  "worker_pids (demo_console g pids) = pids"
  by (simp_all add: demo_console_def frontend.defs)

lemma respawn_every_turn_witness:
  "\<exists>s'. for_each (replicate 3 ()) (\<lambda>_ _. auto_respawn (\<lambda>w. ret 7) True ''a'') () (demo_console (init_registry 10) []) = (Inr (), s') \<and>
    length (worker_pids s') = 3 \<and> distinct (dkeys (worker_pids s'))"
proof -
  obtain nd where nd: "nodes demo_office ''a'' = Some nd" "0 < count_status ''PENDING'' nd"
    by (simp add: demo_office_def count_status_def result_items_def demo_task_def dget_or_Cons)
  show ?thesis
    using respawn_every_turn [of "demo_console (init_registry 10) []" "''a''" nd "\<lambda>w. ret 7" "\<lambda>w. 7" 3] nd
    by (simp add: demo_console_node init_registry_def act_simps dkeys_def)
qed

lemma killed_worker_gone_witness:
  "\<exists>b s'. api_kill_worker (\<lambda>w. ret []) (\<lambda>pid. ret True) ''x''
      (demo_console ((init_registry 0)\<lparr>workers := [(''x'', 0), (''y'', 0)]\<rparr>) [(''x'', 7)]) = (Inr ((200, b), True), s') \<and>
    live_workers 5 (reg s') = [''y''] \<and> last_spawn_trigger s' = 0"
proof -
  let ?s = "demo_console ((init_registry 0)\<lparr>workers := [(''x'', 0), (''y'', 0)]\<rparr>) [(''x'', 7)]"
  obtain b s' where run: "api_kill_worker (\<lambda>w. ret []) (\<lambda>pid. ret True) ''x'' ?s = (Inr ((200, b), True), s')"
    by (simp add: api_kill_worker_def kill_pid_def act_simps demo_console_node ok_pid_def add_obs_event_def)
  have os: "keeps (\<lambda>s :: console. reg s = g) (ret x)" for g and x :: 'c by (simp add: keeps_ret)
  have "live_workers 5 (reg ?s) = [''x'', ''y'']"
    by (simp add: demo_console_node live_workers_def init_registry_def dkeys_def)
  then show ?thesis
    using killed_worker_gone [OF run os os, of 5] run by auto
qed

end
