(* ===== verification/DhtView.thy ===== *)
theory DhtView
  imports Workers
begin

text \<open>
  \<open>/api/dht/contents\<close> of \<open>chord/server.py\<close>: the two tables, results (HT1) and assignments (HT2), as one
  process shows them, with the keys of all processes it reaches along the successors, and the
  removal of finished tasks that are still assigned. The answer is kept for a second. \<open>fromiso\<close> is
  \<open>datetime.fromisoformat(text).timestamp()\<close>, \<open>None\<close> when it raises.
\<close>

section \<open>The answer\<close>

record ht1_row =
  h1_key :: string
  h1_record :: jdict
  h1_created :: "int option"
  h1_updated :: "int option"
  h1_duration :: "rat option"
  h1_owner :: "int option"
  h1_replicas :: "int list"

record ht2_row =
  h2_key :: string
  h2_tasks :: "json list"
  h2_owner :: "int option"
  h2_replicas :: "int list"

record node_row =
  nr_id :: int
  nr_address :: string
  nr_ht1 :: nat
  nr_ht2 :: nat
  nr_total :: nat

record contents =
  c_nodes :: "node_row list"
  c_ht1 :: "ht1_row list"
  c_ht2 :: "ht2_row list"
  c_this :: int

record dht = net +
  dht_payload :: "contents option"
  dht_expires :: rat

definition h1_task :: "ht1_row \<Rightarrow> string" where
  "h1_task r = drop (length ''result:'') (h1_key r)"

definition h2_worker :: "ht2_row \<Rightarrow> string" where
  "h2_worker r = drop (length ''worker:'') (h2_key r)"

section \<open>The walk along the successors\<close>

text \<open>The states by identifier; a process that does not answer with success ends the walk.\<close>

fun collect_states :: "nat \<Rightarrow> nref \<Rightarrow> (int \<times> node_state) list \<Rightarrow> ('z net_scheme, (int \<times> node_state) list) act" where
  "collect_states 0 cur seen = ret seen"
| "collect_states (Suc guard) cur seen =
     (if ref_id cur \<in> set (List.map fst seen) then ret seen
      else
        andthen (catch
          (andthen (http_attempt (ref_addr cur) (h_state (ref_addr cur))) (\<lambda>r.
           ret (case r of Ok st \<Rightarrow> Some st | Status _ \<Rightarrow> None)))
          (\<lambda>_. ret None)) (\<lambda>st.
        case st of
          None \<Rightarrow> ret seen
        | Some st \<Rightarrow> collect_states guard (st_successor st) (AList.update (st_node_id st) st seen)))"

text \<open>The two processes after the primary in the order of the identifiers.\<close>

definition replicas_for :: "int list \<Rightarrow> int \<Rightarrow> int list" where
  "replicas_for ids primary =
     (let n = length ids; i = length (takeWhile (\<lambda>x. x \<noteq> primary) ids) in
      if n \<le> 1 \<or> i = n then []
      else take (n - 1) [ids ! ((i + 1) mod n), ids ! ((i + 2) mod n)])"

section \<open>Rows\<close>

definition epoch_ms :: "(string \<Rightarrow> rat option) \<Rightarrow> json \<Rightarrow> int option" where
  "epoch_ms fromiso x =
     (case num_of x of
        Some q \<Rightarrow> Some (if q < 10 ^ 12 then trunc (q * 1000) else trunc q)
      | None \<Rightarrow>
          (case x of
             JStr (c # cs) \<Rightarrow>
               map_option (\<lambda>q. trunc (q * 1000))
                 (fromiso (concat (List.map (\<lambda>d. if d = CHR ''Z'' then ''+00:00'' else [d]) (c # cs))))
           | _ \<Rightarrow> None))"

definition round3 :: "rat \<Rightarrow> rat" where
  "round3 q = of_int (round_half_even (q * 1000)) / 1000"

text \<open>A row of HT1, unless none of the fields that matter is set.\<close>

definition result_row ::
  "(string \<Rightarrow> rat option) \<Rightarrow> string \<Rightarrow> json option \<Rightarrow> int option \<Rightarrow> int list \<Rightarrow> ht1_row option" where
  "result_row fromiso key value owner reps =
     (let v = (case value of Some (JObj d) \<Rightarrow> d | _ \<Rightarrow> []);
          created = epoch_ms fromiso (dget v ''created_at''); updated = epoch_ms fromiso (dget v ''updated_at'') in
      if \<forall>k \<in> set [''status'', ''worker_id'', ''result'', ''task_type'']. dget v k = JNull then None
      else Some
        \<lparr>h1_key = key, h1_record = List.map (\<lambda>k. (k, dget v k)) [''task_type'', ''status'', ''worker_id'', ''result''],
         h1_created = created, h1_updated = updated,
         h1_duration = (case (created, updated) of (Some c, Some u) \<Rightarrow> Some (round3 (of_int (u - c) / 1000)) | _ \<Rightarrow> None),
         h1_owner = owner, h1_replicas = reps\<rparr>)"

definition listed_tasks :: "json option \<Rightarrow> exn + json list" where
  "listed_tasks value =
     (case value of
        Some (JObj d) \<Rightarrow> py_list (py_or (dget d ''tasks'') (JList []))
      | Some (JList xs) \<Rightarrow> Inr xs
      | _ \<Rightarrow> Inr [])"

text \<open>One key: its owner is looked up over the ring, its value in the store of this process.\<close>

definition add_key ::
  "(string \<Rightarrow> rat option) \<Rightarrow> nat \<Rightarrow> string \<Rightarrow> int list \<Rightarrow> string \<Rightarrow> ht1_row list \<times> ht2_row list
    \<Rightarrow> ('z net_scheme, ht1_row list \<times> ht2_row list) act" where
  "add_key fromiso fuel me ids key rows =
     andthen (catch (andthen (find_successor fuel me (sha1_id key)) (\<lambda>r. ret (Some (ref_id r)))) (\<lambda>_. ret None)) (\<lambda>owner.
     let reps = (case owner of Some p \<Rightarrow> replicas_for ids p | None \<Rightarrow> []) in
     andthen (catch (read_node me (get key)) (\<lambda>_. ret None)) (\<lambda>value.
     if startswith key ''result:'' then
       ret (case result_row fromiso key value owner reps of
              Some r \<Rightarrow> (fst rows @ [r], snd rows)
            | None \<Rightarrow> rows)
     else if startswith key ''worker:'' then
       andthen (lift (listed_tasks value)) (\<lambda>tasks.
       ret (fst rows, snd rows @ [\<lparr>h2_key = key, h2_tasks = tasks, h2_owner = owner, h2_replicas = reps\<rparr>]))
     else ret rows))"

section \<open>Finished tasks that are still assigned\<close>

fun stuck_tasks :: "string list \<Rightarrow> json list \<Rightarrow> exn + string list" where
  "stuck_tasks finished [] = Inr []"
| "stuck_tasks finished (t # ts) =
     chain (in_str_set t finished) (\<lambda>b.
     chain (stuck_tasks finished ts) (\<lambda>rest.
     Inr (if b then str_of t # rest else rest)))"

definition heal_row :: "nat \<Rightarrow> string \<Rightarrow> int \<Rightarrow> string list \<Rightarrow> ht2_row \<Rightarrow> ('z net_scheme, ht2_row) act" where
  "heal_row fuel me k finished row =
     andthen (lift (stuck_tasks finished (h2_tasks row))) (\<lambda>stuck.
     andthen (for_each stuck (\<lambda>t _. ignoring (andthen (remove fuel me k (h2_worker row) t) (\<lambda>_. ret ()))) ()) (\<lambda>_.
     ret (row\<lparr>h2_tasks := filter (\<lambda>t. t \<notin> JStr ` set finished) (h2_tasks row)\<rparr>)))"

definition finished_tasks :: "ht1_row list \<Rightarrow> string list" where
  "finished_tasks rows = List.map h1_task (filter (\<lambda>r. dget (h1_record r) ''status'' = JStr ''SUCCESS'') rows)"

definition heal ::
  "nat \<Rightarrow> string \<Rightarrow> int \<Rightarrow> ht1_row list \<Rightarrow> ht2_row list \<Rightarrow> ('z net_scheme, ht2_row list) act" where
  "heal fuel me k h1 h2 =
     (if finished_tasks h1 = [] then ret h2
      else for_each h2 (\<lambda>row done. andthen (heal_row fuel me k (finished_tasks h1) row) (\<lambda>r. ret (done @ [r]))) [])"

section \<open>The endpoint\<close>

definition node_row_of :: "node_state \<Rightarrow> node_row" where
  "node_row_of st =
     \<lparr>nr_id = st_node_id st, nr_address = st_address st,
      nr_ht1 = length (filter (\<lambda>k. startswith k ''result:'') (st_data_keys st)),
      nr_ht2 = length (filter (\<lambda>k. startswith k ''worker:'') (st_data_keys st)), nr_total = length (st_data_keys st)\<rparr>"

definition fresh_contents ::
  "(string \<Rightarrow> rat option) \<Rightarrow> nat \<Rightarrow> string \<Rightarrow> int \<Rightarrow> ('z net_scheme, contents) act" where
  "fresh_contents fromiso fuel me k =
     andthen (read_node me (\<lambda>nd. nd)) (\<lambda>nd.
     andthen (collect_states 64 (successor nd) [(node_id nd, state nd)]) (\<lambda>seen.
     let ordered = sort_key st_node_id (List.map snd seen); ids = List.map st_node_id ordered in
     andthen (for_each (sort (remdups (concat (List.map st_data_keys ordered)))) (add_key fromiso fuel me ids) ([], [])) (\<lambda>(h1, h2).
     andthen (heal fuel me k h1 h2) (\<lambda>h2.
     ret \<lparr>c_nodes = List.map node_row_of ordered, c_ht1 = h1, c_ht2 = h2, c_this = node_id nd\<rparr>))))"

definition api_dht_contents ::
  "(string \<Rightarrow> rat option) \<Rightarrow> nat \<Rightarrow> string \<Rightarrow> int \<Rightarrow> ('z dht_scheme, contents) act" where
  "api_dht_contents fromiso fuel me k =
     andthen (gets (\<lambda>s. if seconds (clock s) < dht_expires s then dht_payload s else None)) (\<lambda>cached.
     case cached of
       Some c \<Rightarrow> ret c
     | None \<Rightarrow>
         andthen (fresh_contents fromiso fuel me k) (\<lambda>c.
         andthen (modify (\<lambda>s. s\<lparr>dht_payload := Some c, dht_expires := seconds (clock s) + 1\<rparr>)) (\<lambda>_. ret c)))"

section \<open>Lemmas\<close>

lemma timeless_nodes: "timeless (\<lambda>t. nodes t = N)"
  by (simp add: timeless_def)

lemma result_row_local:
  assumes "result_row fromiso key value owner reps = Some r"
  shows "h1_key r = key \<and> (\<exists>d. value = Some (JObj d))"
proof (cases "\<exists>d. value = Some (JObj d)")
  case True
  with assms show ?thesis by (auto simp: result_row_def Let_def simp del: list.set split: if_splits)
next
  case False
  then have "(case value of Some (JObj d) \<Rightarrow> d | _ \<Rightarrow> []) = []" by (auto split: option.split json.split)
  with assms show ?thesis by (simp add: result_row_def Let_def dget_or_def)
qed

lemma in_str_set_Inr: "in_str_set v S = Inr b \<Longrightarrow> b = (v \<in> JStr ` set S)"
  by (cases v) auto

lemma stuck_tasks_set: "stuck_tasks finished ts = Inr xs \<Longrightarrow> JStr ` set xs = set ts \<inter> JStr ` set finished"
proof (induction ts arbitrary: xs)
  case Nil
  then show ?case by simp
next
  case (Cons t ts)
  then obtain b rest where b: "in_str_set t finished = Inr b" "stuck_tasks finished ts = Inr rest"
    and xs: "xs = (if b then str_of t # rest else rest)"
    by (auto simp: chain_eq_Inr)
  from in_str_set_Inr [OF b(1)] Cons.IH [OF b(2)] xs show ?case by (cases b) auto
qed

lemma keeps_collect_states: "timeless P \<Longrightarrow> keeps P (collect_states n cur seen)"
proof (induction n arbitrary: cur seen)
  case 0
  then show ?case by (simp add: keeps_ret)
next
  case (Suc n)
  then show ?case by (auto simp: h_state_def intro!: keeps_intro keeps_http_attempt)
qed

text \<open>The rows of HT1 show what this process stores.\<close>

definition shown_locally :: "chord_node \<Rightarrow> ht1_row list \<times> ht2_row list \<Rightarrow> bool" where
  "shown_locally nd rows \<longleftrightarrow> (\<forall>r \<in> set (fst rows). \<exists>d. get (h1_key r) nd = Some (JObj d))"

lemma triple_add_key:
  assumes "nodes s me = Some nd" and "shown_locally nd rows"
  shows "triple (\<lambda>t. nodes t = nodes s) (add_key fromiso fuel me ids key rows) (shown_locally nd)"
  unfolding add_key_def Let_def
proof (rule triple_after)
  fix owner
  have read: "triple (\<lambda>t. nodes t = nodes s) (catch (read_node me (get key)) (\<lambda>_. ret None)) (\<lambda>v. v = None \<or> v = get key nd)"
    using assms(1) by (intro triple_intro) auto
  show "triple (\<lambda>t. nodes t = nodes s)
     (andthen (catch (read_node me (get key)) (\<lambda>_. ret None)) (\<lambda>value.
        if startswith key ''result:'' then
          ret (case result_row fromiso key value owner (case owner of None \<Rightarrow> [] | Some p \<Rightarrow> replicas_for ids p) of
                 None \<Rightarrow> rows
               | Some r \<Rightarrow> (fst rows @ [r], snd rows))
        else if startswith key ''worker:'' then
          andthen (lift (listed_tasks value)) (\<lambda>tasks.
          ret (fst rows, snd rows @ [\<lparr>h2_key = key, h2_tasks = tasks, h2_owner = owner,
                h2_replicas = (case owner of None \<Rightarrow> [] | Some p \<Rightarrow> replicas_for ids p)\<rparr>]))
        else ret rows)) (shown_locally nd)"
    by (rule triple_andthen [OF read])
      (use assms(2) in \<open>auto intro!: triple_if triple_ret triple_after [OF keeps_lift] simp: shown_locally_def
        dest!: result_row_local split: option.splits\<close>)
qed (intro keeps_intro timeless_nodes)

lemma heal_row_run:
  "triple (\<lambda>_. True) (heal_row fuel me k finished row) (\<lambda>r. h2_key r = h2_key row \<and>
     set (h2_tasks r) = set (h2_tasks row) - JStr ` set finished)"
  unfolding heal_row_def
  by (auto intro!: triple_intro triple_after [OF keepsI] simp: triple_gets)

lemma heal_clean:
  "triple (\<lambda>_. True) (heal fuel me k h1 h2) (\<lambda>rows. List.map h2_key rows = List.map h2_key h2 \<and>
     (\<forall>r \<in> set rows. \<forall>t \<in> set (finished_tasks h1). JStr t \<notin> set (h2_tasks r)))"
proof (cases "finished_tasks h1 = []")
  case True
  then show ?thesis by (simp add: heal_def triple_ret)
next
  case False
  let ?I = "\<lambda>ys rows. List.map h2_key rows = List.map h2_key ys \<and>
     (\<forall>r \<in> set rows. \<forall>t \<in> set (finished_tasks h1). JStr t \<notin> set (h2_tasks r))"
  have "triple (\<lambda>_. True) (for_each h2 (\<lambda>row rows. andthen (heal_row fuel me k (finished_tasks h1) row) (\<lambda>r. ret (rows @ [r]))) [])
      (?I ([] @ h2))"
    by (rule triple_for_each) (auto intro!: triple_andthen [OF heal_row_run] triple_ret)
  with False show ?thesis by (simp add: heal_def)
qed

section \<open>Properties\<close>

text \<open>
  What the view shows, whatever the network does: a row of HT1 only for a record that this
  process stores itself, although the keys of all processes are listed, and no assignment of HT2
  that names a task shown as finished.
\<close>

theorem dht_contents_view:
  assumes run: "api_dht_contents fromiso fuel me k s = (Inr c, s')" and new: "dht_payload s = None"
    and nd: "nodes s me = Some nd"
  shows "(\<forall>r \<in> set (c_ht1 c). \<exists>d. get (h1_key r) nd = Some (JObj d)) \<and>
    (\<forall>r \<in> set (c_ht2 c). \<forall>t \<in> set (finished_tasks (c_ht1 c)). JStr t \<notin> set (h2_tasks r))"
proof -
  let ?Q = "\<lambda>c. (\<forall>r \<in> set (c_ht1 c). \<exists>d. get (h1_key r) nd = Some (JObj d)) \<and>
    (\<forall>r \<in> set (c_ht2 c). \<forall>t \<in> set (finished_tasks (c_ht1 c)). JStr t \<notin> set (h2_tasks r))"
  obtain s1 where fresh: "fresh_contents fromiso fuel me k s = (Inr c, s1)"
    using run new by (auto simp: api_dht_contents_def act_simps andthen_def modify_def split: sum.splits prod.splits if_splits)
  obtain seen s2 where walk: "collect_states 64 (successor nd) [(node_id nd, state nd)] s = (Inr seen, s2)"
    using fresh nd by (auto simp: fresh_contents_def act_simps andthen_def split: sum.splits prod.splits)
  then have s2: "nodes s2 = nodes s" using keepsD [OF keeps_collect_states [OF timeless_nodes [of "nodes s"]], of s] by (metis snd_conv)
  let ?ordered = "sort_key st_node_id (List.map snd seen)"
  let ?keys = "sort (remdups (concat (List.map st_data_keys ?ordered)))"
  let ?ids = "List.map st_node_id ?ordered"
  obtain h1 h2 s3 where rows: "for_each ?keys (add_key fromiso fuel me ?ids) ([], []) s2 = (Inr (h1, h2), s3)"
    using fresh nd walk by (auto simp: fresh_contents_def act_simps andthen_def Let_def split: sum.splits prod.splits)
  have "triple (\<lambda>t. nodes t = nodes s) (for_each ?keys (add_key fromiso fuel me ?ids) ([], [])) (shown_locally nd)"
    by (rule triple_for_each [where I = "\<lambda>ys. shown_locally nd" and ys = "[]" and xs = ?keys, simplified])
      (auto intro: triple_add_key nd simp: shown_locally_def)
  from tripleD [OF this s2 rows] have here: "shown_locally nd (h1, h2)" by simp
  obtain h2' s4 where heal: "heal fuel me k h1 h2 s3 = (Inr h2', s4)" and c: "c_ht1 c = h1" "c_ht2 c = h2'"
    using fresh nd walk rows by (auto simp: fresh_contents_def act_simps andthen_def Let_def split: sum.splits prod.splits)
  from tripleD [OF heal_clean TrueI heal] here c show ?thesis by (simp add: shown_locally_def)
qed

text \<open>A process that is alone, with a finished task and a worker that has another one.\<close>

definition demo_keeper :: chord_node where
  "demo_keeper = demo_one\<lparr>data_store :=
     [(''worker:w'', JObj [(''tasks'', JList [JStr ''u''])]), (''result:t'', JObj [(''status'', JStr ''SUCCESS'')])]\<rparr>"

definition demo_dht :: dht where
  "demo_dht = \<lparr>nodes = [''a'' \<mapsto> demo_keeper], fault = (\<lambda>n a. Delivered), sent = 0, clock = 0,
     dht_payload = None, dht_expires = 0\<rparr>"

lemma dht_contents_view_witness:
  "\<exists>c s'. api_dht_contents (\<lambda>_. None) 256 ''a'' 3 demo_dht = (Inr c, s') \<and> List.map h1_key (c_ht1 c) = [''result:t''] \<and>
    (\<forall>r \<in> set (c_ht1 c). \<exists>d. get (h1_key r) demo_keeper = Some (JObj d))"
proof -
  have node: "nodes demo_dht ''a'' = Some demo_keeper" by (simp add: demo_dht_def)
  have succ: "successor demo_keeper = ref10" "node_id demo_keeper = 10"
    using demo_one_succ by (simp_all add: demo_keeper_def successor_def demo_one_def demo_node_def)
  have look: "find_successor 256 ''a'' (sha1_id key) demo_dht = (Inr ref10, demo_dht)" for key
    using find_successor_here [of UNIV demo_dht "''a''" demo_keeper] by (simp add: member_def node succ in_range_def ref10_def)
  have walk: "collect_states 64 ref10 [(10, state demo_keeper)] demo_dht = (Inr [(10, state demo_keeper)], demo_dht)"
  proof -
    have "collect_states (Suc 63) ref10 [(10, state demo_keeper)] demo_dht = (Inr [(10, state demo_keeper)], demo_dht)"
      by (simp only: collect_states.simps) (simp add: ref10_def act_simps)
    then show ?thesis by simp
  qed
  have ids: "st_node_id (state demo_keeper) = 10" by (simp add: state_def succ)
  have keys: "sort (remdups (st_data_keys (state demo_keeper))) = [''result:t'', ''worker:w'']" by code_simp
  have get: "get ''result:t'' demo_keeper = Some (JObj [(''status'', JStr ''SUCCESS'')])"
    "get ''worker:w'' demo_keeper = Some (JObj [(''tasks'', JList [JStr ''u''])])"
    by (simp_all add: demo_keeper_def get_def)
  have row: "add_key (\<lambda>_. None) 256 ''a'' [10] key rows demo_dht =
      (if startswith key ''result:'' then
         ret (case result_row (\<lambda>_. None) key (get key demo_keeper) (Some 10) (replicas_for [10] 10) of
                Some r \<Rightarrow> (fst rows @ [r], snd rows) | None \<Rightarrow> rows)
       else if startswith key ''worker:'' then
         andthen (lift (listed_tasks (get key demo_keeper))) (\<lambda>tasks. ret (fst rows, snd rows @
           [\<lparr>h2_key = key, h2_tasks = tasks, h2_owner = Some 10, h2_replicas = replicas_for [10] 10\<rparr>]))
       else ret rows) demo_dht" for key rows
    by (simp add: add_key_def act_simps look node ref10_def)
  obtain r where r: "result_row (\<lambda>_. None) ''result:t'' (get ''result:t'' demo_keeper) (Some 10) (replicas_for [10] 10) = Some r"
    "h1_key r = ''result:t''" "dget (h1_record r) ''status'' = JStr ''SUCCESS''"
    by (simp add: get result_row_def Let_def dget_or_def)
  have stuck: "stuck_tasks [''t''] [JStr ''u''] = Inr []" by simp
  have fin: "finished_tasks [r] = [''t'']" by (simp add: finished_tasks_def h1_task_def r)
  let ?w = "\<lparr>h2_key = ''worker:w'', h2_tasks = [JStr ''u''], h2_owner = Some 10, h2_replicas = replicas_for [10] 10\<rparr>"
  have rows: "for_each [''result:t'', ''worker:w''] (add_key (\<lambda>_. None) 256 ''a'' [10]) ([], []) demo_dht = (Inr ([r], [?w]), demo_dht)"
    using r(1) by (simp add: act_simps row get(2) listed_tasks_def py_or_def dget_or_def)
  have heal: "heal 256 ''a'' 3 [r] [?w] demo_dht = (Inr [?w], demo_dht)"
    by (simp add: heal_def fin heal_row_def act_simps)
  have fresh: "fresh_contents (\<lambda>_. None) 256 ''a'' 3 demo_dht =
      (Inr \<lparr>c_nodes = [node_row_of (state demo_keeper)], c_ht1 = [r], c_ht2 = [?w], c_this = 10\<rparr>, demo_dht)"
    using walk rows heal keys by (simp add: fresh_contents_def run_andthen run_read_node run_ret node succ Let_def ids del: for_each.simps)
  have none: "dht_payload demo_dht = None" by (simp add: demo_dht_def)
  then obtain s' where "api_dht_contents (\<lambda>_. None) 256 ''a'' 3 demo_dht =
      (Inr \<lparr>c_nodes = [node_row_of (state demo_keeper)], c_ht1 = [r], c_ht2 = [?w], c_this = 10\<rparr>, s')"
    using fresh by (simp add: api_dht_contents_def act_simps)
  with dht_contents_view [OF this none node] r(2) show ?thesis by auto
qed

end
