(* ===== verification/Conversation.thy ===== *)
theory Conversation
  imports Regex Submission
begin

text \<open>
  The conversational front end, \<open>chord/conversation_agent.py\<close>: the agent that follows a script, with
  its state kept in the history of the conversation, and the agent that has a hosted language model
  call the same tools. Both reach the endpoints of a node over HTTP. The HTTP library, the threads it starts
  and the texts of exceptions are the record \<open>web\<close>; the language model is the parameter \<open>create\<close>. The symbols beyond the first 256 code points that the fixed texts
  contain are written as the bytes of their UTF-8 form. Log lines are left out.
\<close>

section \<open>Values\<close>

text \<open>\<open>repr(v)\<close> and \<open>str(v)\<close>\<close>

definition repr_char :: "char \<Rightarrow> char \<Rightarrow> string" where
  "repr_char quote c =
     (let n = of_char c :: nat in
      if c = quote \<or> c = BACKSLASH then [BACKSLASH, c]
      else if n = 9 then [BACKSLASH, CHR ''t'']
      else if n = 10 then [BACKSLASH, CHR ''n'']
      else if n = 13 then [BACKSLASH, CHR ''r'']
      else if n < 32 \<or> (127 \<le> n \<and> n \<le> 160) \<or> n = 173 then
        [BACKSLASH, CHR ''x'', hex_digit (n div 16), hex_digit (n mod 16)]
      else [c])"

definition repr_string :: "string \<Rightarrow> string" where
  "repr_string s =
     (let quote = (if CHR 0x27 \<in> set s \<and> QUOTE \<notin> set s then QUOTE else CHR 0x27)
      in quote # concat (List.map (repr_char quote) s) @ [quote])"

fun joined :: "string \<Rightarrow> string list \<Rightarrow> string" where
  "joined sep [] = []"
| "joined sep [s] = s"
| "joined sep (s # t # ts) = s @ sep @ joined sep (t # ts)"

fun py_repr :: "json \<Rightarrow> string" where
  "py_repr (JStr s) = repr_string s"
| "py_repr (JList xs) = ''['' @ joined '', '' (List.map py_repr xs) @ '']''"
| "py_repr (JObj d) = ''{'' @ joined '', '' (List.map (\<lambda>(k, v). repr_string k @ '': '' @ py_repr v) d) @ ''}''"
| "py_repr v = show_value v"

definition py_str :: "json \<Rightarrow> string" where
  "py_str v = (case v of JStr s \<Rightarrow> s | _ \<Rightarrow> py_repr v)"

text \<open>\<open>v.get(k, default)\<close>, \<open>dict(v)\<close> for what the agent itself stores, \<open>len(v)\<close>, \<open>', '.join(v)\<close>\<close>

definition get_of :: "json \<Rightarrow> json \<Rightarrow> string \<Rightarrow> exn + json" where
  "get_of dflt v k = (case v of JObj d \<Rightarrow> Inr (dget_or dflt d k) | _ \<Rightarrow> Inl (AttributeError ''get''))"

definition as_dict :: "json \<Rightarrow> exn + jdict" where
  "as_dict v = (case v of JObj d \<Rightarrow> Inr d | _ \<Rightarrow> Inl (TypeError ''cannot convert to a dictionary''))"

fun py_len :: "json \<Rightarrow> exn + nat" where
  "py_len (JStr s) = Inr (length s)"
| "py_len (JList xs) = Inr (length xs)"
| "py_len (JObj d) = Inr (length d)"
| "py_len _ = Inl (TypeError ''object has no len()'')"

fun strings_of :: "json list \<Rightarrow> exn + string list" where
  "strings_of [] = Inr []"
| "strings_of (JStr s # vs) = chain (strings_of vs) (\<lambda>ss. Inr (s # ss))"
| "strings_of _ = Inl (TypeError ''sequence item: expected str instance'')"

fun py_join :: "string \<Rightarrow> json \<Rightarrow> exn + string" where
  "py_join sep (JList vs) = chain (strings_of vs) (\<lambda>ss. Inr (joined sep ss))"
| "py_join sep (JStr s) = Inr (joined sep (List.map (\<lambda>c. [c]) s))"
| "py_join sep (JObj d) = Inr (joined sep (dkeys d))"
| "py_join sep _ = Inl (TypeError ''can only join an iterable'')"

section \<open>Symbols\<close>

definition utf8 :: "nat list \<Rightarrow> string" where
  "utf8 = List.map char_of"

definition NL :: string where "NL = [CHR 0x0A]"
definition CHECK :: string where "CHECK = utf8 [0xE2, 0x9C, 0x93]"
definition CROSS :: string where "CROSS = utf8 [0xE2, 0x9C, 0x97]"
definition STOPWATCH :: string where "STOPWATCH = utf8 [0xE2, 0x8F, 0xB1]"
definition HOURGLASS :: string where "HOURGLASS = utf8 [0xE2, 0x8F, 0xB3]"
definition QUESTION :: string where "QUESTION = utf8 [0xE2, 0x9D, 0x93]"
definition WARNING :: string where "WARNING = utf8 [0xE2, 0x9A, 0xA0, 0xEF, 0xB8, 0x8F]"
definition ELLIPSIS :: string where "ELLIPSIS = utf8 [0xE2, 0x80, 0xA6]"
definition EM_DASH :: string where "EM_DASH = utf8 [0xE2, 0x80, 0x94]"
definition EN_DASH :: string where "EN_DASH = utf8 [0xE2, 0x80, 0x93]"
definition DOT :: string where "DOT = utf8 [0xC2, 0xB7]"
definition ARROW :: string where "ARROW = utf8 [0xE2, 0x86, 0x92]"
definition BULLET :: string where "BULLET = utf8 [0xE2, 0x80, 0xA2]"
definition CLIPBOARD :: string where "CLIPBOARD = utf8 [0xF0, 0x9F, 0x93, 0x8B]"
definition TEST_TUBE :: string where "TEST_TUBE = utf8 [0xF0, 0x9F, 0xA7, 0xAA]"
definition CHECK_BOX :: string where "CHECK_BOX = utf8 [0xE2, 0x9C, 0x85]"
definition CROSS_MARK :: string where "CROSS_MARK = utf8 [0xE2, 0x9D, 0x8C]"

section \<open>The network\<close>

text \<open>
  A GET request with the parameters and the timeout, a POST request with a JSON body; each gives
  the status code and the JSON of the answer, or raises. \<open>start_thread\<close> hands an action to a new
  thread, \<open>pause\<close> sleeps for some microseconds, \<open>fresh_hex\<close> is \<open>uuid.uuid4().hex[:12]\<close>, \<open>error_text\<close> is \<open>str(exc)\<close>.
\<close>

record 's web =
  web_get :: "string \<Rightarrow> (string \<times> int) list \<Rightarrow> int \<Rightarrow> ('s, response) act"
  web_post :: "string \<Rightarrow> json \<Rightarrow> int \<Rightarrow> ('s, response) act"
  start_thread :: "('s, unit) act \<Rightarrow> ('s, unit) act"
  pause :: "int \<Rightarrow> ('s, unit) act"
  fresh_hex :: "('s, string) act"
  error_text :: "exn \<Rightarrow> string"

definition base_url :: "string \<Rightarrow> string" where
  "base_url url = rev (dropWhile (\<lambda>c. c = CHR ''/'') (rev url))"

definition http_get :: "'s web \<Rightarrow> string \<Rightarrow> string \<Rightarrow> (string \<times> int) list \<Rightarrow> int \<Rightarrow> ('s, json) act" where
  "http_get w base path params secs =
     catch (andthen (web_get w (base @ path) params secs) (\<lambda>r. ret (snd r)))
       (\<lambda>e. ret (JObj [(''error'', JStr (error_text w e))]))"

section \<open>The history\<close>

text \<open>What one turn of the conversation returns.\<close>

record chat_turn =
  turn_reply :: string
  turn_history :: "json list"
  turn_action :: json

definition return_turn :: "json list \<Rightarrow> json \<Rightarrow> string \<Rightarrow> json \<Rightarrow> json \<Rightarrow> chat_turn" where
  "return_turn history user_msg reply st action =
     \<lparr>turn_reply = reply,
      turn_history = history @
        [JObj [(''role'', JStr ''user''), (''content'', user_msg)],
         JObj [(''role'', JStr ''assistant''),
               (''content'', JList [JObj [(''type'', JStr ''text''), (''text'', JStr reply)],
                                   JObj [(''type'', JStr ''scripted_state''), (''state'', st)]])]],
      turn_action = action\<rparr>"

fun state_block :: "json list \<Rightarrow> json option" where
  "state_block [] = None"
| "state_block (b # bs) =
     (if is_dict b \<and> dget (dict_of b) ''type'' = JStr ''scripted_state'' then Some (dget (dict_of b) ''state'')
      else state_block bs)"

fun read_newest :: "json list \<Rightarrow> exn + json" where
  "read_newest [] = Inr JNull"
| "read_newest (m # ms) =
     chain (get_of JNull m ''role'') (\<lambda>role.
       if role \<noteq> JStr ''assistant'' then read_newest ms
       else case dget (dict_of m) ''content'' of
              JList bs \<Rightarrow> (case state_block bs of Some st \<Rightarrow> Inr st | None \<Rightarrow> read_newest ms)
            | _ \<Rightarrow> read_newest ms)"

definition read_state :: "json list \<Rightarrow> exn + json" where
  "read_state history = read_newest (rev history)"

text \<open>The state that a turn stores is the one that the next turn reads.\<close>

lemma read_return [simp]: "read_state (turn_history (return_turn h m r st a)) = Inr st"
  by (simp add: return_turn_def read_state_def get_of_def dget_or_def)

lemma turn_return [simp]:
  "turn_reply (return_turn h m r st a) = r" "turn_action (return_turn h m r st a) = a"
  by (simp_all add: return_turn_def)

section \<open>Questions about a task\<close>

subsection \<open>The patterns\<close>

definition optional_is :: rx where
  "optional_is = Maybe (alts [parts [blanks, lit ''is''], parts [Any_of is_space, lit [CHR 0x27], lit ''s'']])"

definition RE_WAIT :: rx where
  "RE_WAIT = parts [Boundary, alts [
     parts [lit ''wait'', blanks, alts [lit ''for'', lit ''until'', lit ''till'', lit ''on'']],
     phrase [''let'', ''me'', ''know''],
     phrase [''tell'', ''me'', ''when''],
     phrase [''notify'', ''me''],
     parts [lit ''when'', blanks, alts [lit ''it'', phrase [''the'', ''task''], phrase [''that'', ''task'']], optional_is, blanks,
            alts [lit ''done'', lit ''finished'', lit ''complete'', lit ''completes'', lit ''ready'']],
     parts [lit ''when'', blanks, alts [lit ''it'', phrase [''the'', ''task''], lit ''that''], optional_is, blanks, lit ''done'']],
   Boundary]"

definition task_word :: rx where
  "task_word = parts [lit ''task_'', Some_of is_word]"

definition RE_STATUS :: rx where
  "RE_STATUS = parts [Boundary, alts [
     lit ''status'',
     parts [lit ''is'', blanks, alts [lit ''it'', lit ''that'', phrase [''the'', ''task''], task_word], blanks,
            alts [lit ''done'', lit ''finished'', lit ''ready'', lit ''complete'']],
     parts [lit ''did'', blanks, alts [lit ''it'', task_word], blanks,
            alts [lit ''finish'', lit ''complete'', lit ''work'', lit ''run'']],
     parts [phrase [''check'', ''on''], blanks, alts [lit ''it'', lit ''that'', phrase [''the'', ''task'']]],
     parts [phrase [''see'', ''if''], blanks, alts [lit ''it'', lit ''that''], blanks, Maybe (parts [lit ''is'', blanks]), lit ''done'']],
   Boundary]"

definition RE_SHOW_FULL :: rx where
  "RE_SHOW_FULL = parts [Boundary, lit ''show'', blanks, Maybe (parts [lit ''me'', blanks]), Maybe (parts [lit ''the'', blanks]),
     lit ''full'', blanks, alts [lit ''output'', lit ''stdout'', lit ''stderr'', lit ''result'']]"

definition RE_TASK_ID :: rx where
  "RE_TASK_ID = parts [Boundary, task_word, Boundary]"

subsection \<open>The answer in words\<close>

definition STDOUT_TRUNCATE_CHARS :: nat where "STDOUT_TRUNCATE_CHARS = 500"
definition WAIT_FOR_STATUS_DEFAULT_S :: int where "WAIT_FOR_STATUS_DEFAULT_S = 120"
definition WAIT_FOR_STATUS_MAX_S :: int where "WAIT_FOR_STATUS_MAX_S = 120"

definition truncate_text :: "json \<Rightarrow> nat \<Rightarrow> exn + json" where
  "truncate_text text n =
     (if \<not> truthy text then Inr (JStr ''(empty)'')
      else chain (py_len text) (\<lambda>l.
        if l \<le> n then Inr text
        else case text of
               JStr s \<Rightarrow> Inr (JStr (take n s @ ELLIPSIS))
             | _ \<Rightarrow> Inl (TypeError ''slice'')))"

text \<open>An output as it is shown, and the note that it was cut.\<close>

definition shown_output :: "bool \<Rightarrow> string \<Rightarrow> json \<Rightarrow> exn + string" where
  "shown_output full note out =
     (if full then Inr (py_str out)
      else
        chain (truncate_text out STDOUT_TRUNCATE_CHARS) (\<lambda>text.
        chain (py_len out) (\<lambda>l.
          Inr (py_str text @ (if STDOUT_TRUNCATE_CHARS < l then note else [])))))"

definition task_quoted :: "json \<Rightarrow> string" where
  "task_quoted t = ''`'' @ py_str t @ ''`''"

definition success_reply :: "json \<Rightarrow> json \<Rightarrow> bool \<Rightarrow> exn + string" where
  "success_reply t result full =
     chain (get_of (JStr []) result ''stdout'') (\<lambda>out.
     chain (get_of JNull result ''duration_ms'') (\<lambda>duration.
     chain (shown_output full ''  (output truncated, ask 'show me the full output' for the rest)'' (py_or out (JStr []))) (\<lambda>text.
       Inr (CHECK @ '' Task '' @ task_quoted t @ '' completed successfully'' @
            (if duration = JNull then [] else '' in '' @ py_str duration @ ''ms'') @ ''.'' @ NL @
            ''Output:'' @ NL @ text @ NL @ ''  Anything else I can help with?''))))"

definition failure_reply :: "json \<Rightarrow> json \<Rightarrow> bool \<Rightarrow> exn + string" where
  "failure_reply t result full =
     chain (get_of JNull result ''timed_out'') (\<lambda>timed_out.
     chain (get_of JNull result ''exit_code'') (\<lambda>exit_code.
     let out = py_or (py_or (dget (dict_of result) ''stderr'') (dget (dict_of result) ''stdout'')) (JStr []) in
     chain (shown_output full ''  (truncated, ask 'show me the full output' for the rest)'' out) (\<lambda>text.
       Inr ((if truthy timed_out then
               STOPWATCH @ '' Task '' @ task_quoted t @ '' ran longer than the allowed time and was stopped.'' @ NL @ ''stderr:''
             else
               CROSS @ '' Task '' @ task_quoted t @ '' failed (exit code '' @ py_str exit_code @ '').'' @ NL @ ''Error:'') @
            NL @ text @ NL @ ''  Want me to show the full error output?''))))"

definition format_status_reply :: "json \<Rightarrow> json \<Rightarrow> bool \<Rightarrow> bool \<Rightarrow> exn + string" where
  "format_status_reply t ans full after_wait =
     (if \<not> is_dict ans then
        Inr (QUESTION @ '' Couldn't read status for '' @ py_str t @ '' '' @ EM_DASH @ '' server returned '' @ py_repr ans @ ''.'')
      else
        let b = dict_of ans; failed = dget b ''error_code''; outcome = dget b ''status''; res = py_or (dget b ''result'') (JObj []) in
        if failed = JStr ''TASK_NOT_FOUND'' then
          Inr (QUESTION @ '' I don't have a record of task '' @ task_quoted t @ ''. Did you mean a different ID?'')
        else if truthy failed then
          Inr (WARNING @ '' Server error checking '' @ task_quoted t @ '': '' @ py_str (py_or (dget b ''message'') ans))
        else if outcome = JStr ''PENDING'' then
          Inr (HOURGLASS @ '' Task '' @ task_quoted t @ '' is still running'' @
               (if after_wait then '' (no change after the wait window)'' else []) @ ''.'' @ NL @
               ''   Want me to wait for it to finish?'')
        else if outcome = JStr ''SUCCESS'' then success_reply t res full
        else if outcome = JStr ''FAILURE'' then failure_reply t res full
        else Inr (QUESTION @ '' Task '' @ task_quoted t @ '' has an unrecognised status: '' @ py_repr outcome))"

subsection \<open>The question\<close>

text \<open>Which task is meant: the one named, else the last one submitted, else the user is asked.\<close>

definition resolve_task_id :: "string option \<Rightarrow> json \<Rightarrow> exn + (json + string)" where
  "resolve_task_id explicit st =
     (case explicit of
        Some t \<Rightarrow> Inr (Inl (JStr t))
      | None \<Rightarrow>
          chain (get_of JNull st ''last_task_id'') (\<lambda>recent.
            if truthy recent then Inr (Inl recent) else Inr (Inr ''Which task ID would you like me to check?'')))"

definition is_status_intent :: "string \<Rightarrow> bool" where
  "is_status_intent msg \<longleftrightarrow>
     found RE_SHOW_FULL msg \<or> found RE_WAIT msg \<or> found RE_STATUS msg \<or> found RE_TASK_ID msg"

definition ask_status :: "'s web \<Rightarrow> string \<Rightarrow> string \<Rightarrow> json \<Rightarrow> ('s, string \<times> json) act" where
  "ask_status w base msg t =
     (if found RE_WAIT msg then
        andthen (http_get w base (''/getStatus/'' @ py_str t) [(''wait'', WAIT_FOR_STATUS_DEFAULT_S)] (WAIT_FOR_STATUS_DEFAULT_S + 10)) (\<lambda>result.
        andthen (lift (format_status_reply t result False True)) (\<lambda>reply.
          ret (reply, JObj [(''type'', JStr ''wait_for_status''),
                 (''input'', JObj [(''task_id'', t), (''max_wait_seconds'', JInt WAIT_FOR_STATUS_DEFAULT_S)]),
                 (''result'', result)])))
      else
        andthen (http_get w base (''/getStatus/'' @ py_str t) [] 5) (\<lambda>result.
        andthen (lift (format_status_reply t result (found RE_SHOW_FULL msg) False)) (\<lambda>reply.
          ret (reply, JObj [(''type'', JStr ''get_status''), (''input'', JObj [(''task_id'', t)]), (''result'', result)]))))"

definition try_status_intent :: "'s web \<Rightarrow> string \<Rightarrow> string \<Rightarrow> json \<Rightarrow> ('s, (string \<times> json) option) act" where
  "try_status_intent w base msg st =
     (if \<not> is_status_intent msg then ret None
      else
        andthen (lift (resolve_task_id (search_text RE_TASK_ID msg) st)) (\<lambda>r.
        case r of
          Inl t \<Rightarrow> andthen (ask_status w base msg t) (\<lambda>answer. ret (Some answer))
        | Inr question \<Rightarrow> ret (Some (question, JNull))))"

section \<open>The list of tasks\<close>

definition LIST_KEYWORDS :: "string list" where
  "LIST_KEYWORDS =
     [''list tasks'', ''list task'', ''list all tasks'', ''show tasks'', ''show all tasks'', ''my tasks'', ''what tasks'',
      ''tasks list'', ''all tasks'']"

definition is_list_intent :: "string \<Rightarrow> bool" where
  "is_list_intent msg \<longleftrightarrow>
     (let s = lower (strip msg) in
      s \<noteq> [] \<and> ((\<exists>k \<in> set LIST_KEYWORDS. sublist k s) \<or> s \<in> set [''list'', ''tasks'', ''ls'']))"

text \<open>The rows with their status: one of the three, or another.\<close>

definition BUCKETS :: "string list" where
  "BUCKETS = [''PENDING'', ''SUCCESS'', ''FAILURE'']"

fun sort_rows :: "json list \<Rightarrow> exn + (json \<times> jdict) list" where
  "sort_rows [] = Inr []"
| "sort_rows (r # rs) =
     chain (get_of JNull r ''status'') (\<lambda>found.
     let st = py_or found (JStr ''?'') in
     chain (in_str_set st BUCKETS) (\<lambda>_.
     chain (sort_rows rs) (\<lambda>rest.
       Inr ((st, dict_of r) # rest))))"

definition rows_of :: "json \<Rightarrow> exn + json list" where
  "rows_of v =
     (case v of
        JList rows \<Rightarrow> Inr rows
      | JObj d \<Rightarrow> Inl (AttributeError ''get'')
      | JStr s \<Rightarrow> Inl (AttributeError ''get'')
      | _ \<Rightarrow> Inl (TypeError ''not iterable''))"

definition fmt_row :: "jdict \<Rightarrow> string" where
  "fmt_row r =
     (let owner = dget r ''owner'' in
      ''  '' @ DOT @ '' '' @ py_str (py_or (dget r ''task_id'') (JStr ''?'')) @ ''   '' @ ARROW @ '' worker '' @
      py_str (py_or (dget r ''worker_id'') (JStr ''?'')) @ ''   (owner '' @
      (if owner = JNull then EM_DASH else ''N'' @ py_str owner) @ '')'')"

definition SHOW_LIMIT :: nat where "SHOW_LIMIT = 30"

definition bucket :: "string \<Rightarrow> (json \<times> jdict) list \<Rightarrow> jdict list" where
  "bucket st rows = List.map snd (filter (\<lambda>r. fst r = JStr st) rows)"

definition bucket_lines :: "string \<Rightarrow> string \<Rightarrow> (json \<times> jdict) list \<Rightarrow> string list" where
  "bucket_lines icon st rows =
     (let g = bucket st rows in
      if g = [] then []
      else (icon @ '' '' @ st @ ''  ('' @ show_nat (length g) @ '')'') # List.map fmt_row (take SHOW_LIMIT g) @
        (if SHOW_LIMIT < length g then [''  '' @ ELLIPSIS @ ''and '' @ show_nat (length g - SHOW_LIMIT) @ '' more''] else []) @ [[]])"

definition list_reply :: "(json \<times> jdict) list \<Rightarrow> string" where
  "list_reply rows =
     (let count = (\<lambda>st. show_nat (length (bucket st rows)));
          other = List.map snd (filter (\<lambda>r. fst r \<notin> JStr ` set BUCKETS) rows);
          sep = ''  '' @ DOT @ ''  ''
      in joined NL
           ([CLIPBOARD @ '' Tasks in the ring: total '' @ show_nat (length rows) @ sep @ HOURGLASS @ '' '' @ count ''PENDING'' @
             sep @ CHECK_BOX @ '' '' @ count ''SUCCESS'' @ sep @ CROSS_MARK @ '' '' @ count ''FAILURE'', []] @
            bucket_lines HOURGLASS ''PENDING'' rows @ bucket_lines CROSS_MARK ''FAILURE'' rows @
            bucket_lines CHECK_BOX ''SUCCESS'' rows @
            (if other = [] then []
             else (''Other  ('' @ show_nat (length other) @ '')'') # List.map fmt_row (take SHOW_LIMIT other)) @
            [''Ask me 'status of <task_id>' for full details on any task.'']))"

definition list_action :: "(json \<times> jdict) list \<Rightarrow> json" where
  "list_action rows =
     (let count = (\<lambda>st. JInt (int (length (bucket st rows)))) in
      JObj [(''type'', JStr ''list_tasks''),
            (''result'', JObj [(''total'', JInt (int (length rows))), (''pending'', count ''PENDING''),
                               (''success'', count ''SUCCESS''), (''failure'', count ''FAILURE'')])])"

definition list_tasks :: "'s web \<Rightarrow> string \<Rightarrow> ('s, string \<times> json) act" where
  "list_tasks w base =
     andthen (catch (andthen (web_get w (base @ ''/api/dht/contents'') [] 5) (\<lambda>r. ret (Inr (snd r))))
        (\<lambda>e. ret (Inl (''Couldn't load tasks: '' @ error_text w e)))) (\<lambda>r.
     case r of
       Inl failure \<Rightarrow> ret (failure, JNull)
     | Inr d \<Rightarrow>
         andthen (lift (get_of JNull d ''ht1'')) (\<lambda>ht1.
         if \<not> truthy ht1 then ret (''No tasks have been registered yet. Try 'demo 10' to fire a batch.'', JNull)
         else
           andthen (lift (chain (rows_of ht1) sort_rows)) (\<lambda>rows.
             ret (list_reply rows, list_action rows))))"

section \<open>Demonstrations\<close>

definition RE_NUM_TASKS :: rx where
  "RE_NUM_TASKS = parts [Boundary, Some_of is_digit, Any_of is_space, lit ''task'', Maybe (lit ''s''), Boundary]"

definition parse_demo_intent :: "string \<Rightarrow> int option" where
  "parse_demo_intent msg =
     (let s = lower (strip msg) in
      if s = [] \<or> (\<not> sublist ''demo'' s \<and> \<not> found RE_NUM_TASKS s) then None
      else
        let n = (case Option.bind (search_text (Some_of is_digit) s) unsigned_value of Some n \<Rightarrow> int n | None \<Rightarrow> 10)
        in Some (max 1 (min n 100)))"

definition WELCOME :: string where
  "WELCOME = ''Welcome to Rakesh Ranjan's Distributed Class''"

definition task_payload :: "string \<Rightarrow> json \<Rightarrow> json \<Rightarrow> json \<Rightarrow> jdict" where
  "task_payload t ty path script =
     [(''task_id'', JStr t), (''task_details'', JObj [(''task_type'', ty), (''path'', path), (''script'', script)])]"

definition chat_demo_task :: "int \<Rightarrow> nat \<Rightarrow> json" where
  "chat_demo_task ts idx =
     (let pause_s = show_nat ([3, 4, 5, 6, 7] ! ((idx - 1) mod 5));
          t = ''chat-demo-'' @ show_int ts @ ''-'' @ pad 3 (int idx);
          say = (\<lambda>text. ''echo '' @ [QUOTE] @ text @ [QUOTE])
      in JObj (task_payload t (JStr ''SCRIPT'') (JStr [])
           (JStr (say (''['' @ t @ ''] starting (sleep '' @ pause_s @ ''s)'') @ ''; sleep '' @ pause_s @ ''; '' @
                  say WELCOME @ ''; '' @ say (''['' @ t @ ''] done'')))))"

definition background_submit :: "'s web \<Rightarrow> string \<Rightarrow> int \<Rightarrow> nat \<Rightarrow> ('s, unit) act" where
  "background_submit w base ts n =
     for_each [1 ..< Suc n] (\<lambda>idx _.
       andthen (catch (andthen (web_post w (base @ ''/createTask'') (chat_demo_task ts idx) 5) (\<lambda>_. ret ())) (\<lambda>_. ret ())) (\<lambda>_.
         pause w 50000)) ()"

definition demo_reply :: "int \<Rightarrow> string" where
  "demo_reply n = joined NL
     [TEST_TUBE @ '' Demo: launching '' @ show_int n @ '' tasks in the background (sleeps rotate 3'' @ EN_DASH @ ''7 s).'',
      [],
      ''Tasks are being submitted right now '' @ EM_DASH @ '' refresh the dashboard:'',
      ''  '' @ BULLET @ '' Queue chip should climb, then drain back to 0 as workers finish.'',
      ''  '' @ BULLET @ '' DHT Store '' @ ARROW @ '' HT1 fills with PENDING '' @ ARROW @ '' SUCCESS rows.'',
      ''  '' @ BULLET @ '' Workers panel '' @ ARROW @ '' BEST CHOICE badge hops as load shifts.'',
      [],
      ''Each task will print: '' @ [QUOTE] @ WELCOME @ [QUOTE],
      ''Ask me '' @ [QUOTE] @ ''status of <task_id>'' @ [QUOTE] @ '' once you spot one you want to inspect.'']"

text \<open>\<open>now\<close> is \<open>time.time()\<close> in microseconds.\<close>

definition run_demo :: "'s web \<Rightarrow> string \<Rightarrow> int \<Rightarrow> int \<Rightarrow> ('s, string \<times> json) act" where
  "run_demo w base now n =
     (let ts = now div 1000000 in
      andthen (start_thread w (background_submit w base ts (nat n))) (\<lambda>_.
        ret (demo_reply n,
          JObj [(''type'', JStr ''run_demo''), (''input'', JObj [(''count'', JInt n)]),
                (''result'', JObj [(''submitted_async'', JBool True), (''ts'', JInt ts)])])))"

section \<open>The script\<close>

text \<open>The task is submitted; a bad answer counts as an error like a request that fails.\<close>

definition submitted_reply :: "response \<Rightarrow> exn + string" where
  "submitted_reply r =
     chain (get_of JNull (snd r) ''message'') (\<lambda>message.
     let b = dict_of (snd r) in
     if fst r \<in> {200, 201} \<and> message \<in> {JStr ''Task accepted'', JStr ''Task already exists''} then
       chain (dindex b ''task_id'') (\<lambda>t.
       chain (dindex b ''worker_id'') (\<lambda>worker.
       chain (dindex b ''assigned_by'') (\<lambda>assigned_by.
         Inr (CHECK @ '' '' @ (if message = JStr ''Task accepted'' then ''Task accepted'' else ''Task already existed'') @
              ''. ID: '' @ py_str t @ '', assigned to '' @ py_str worker @ '' (by '' @ py_str assigned_by @ '').''))))
     else Inr (''Task rejected: '' @ py_str (py_or (dget b ''reason'') (snd r))))"

definition new_task_id :: "'s web \<Rightarrow> ('s, string) act" where
  "new_task_id w = andthen (fresh_hex w) (\<lambda>h. ret (''task_'' @ h))"

definition submission :: "string \<Rightarrow> jdict \<Rightarrow> string option \<Rightarrow> json" where
  "submission t answers worker_id =
     JObj (task_payload t (dget answers ''task_type'') (dget_or (JStr []) answers ''path'')
             (dget_or (JStr []) answers ''script'') @
           (case worker_id of Some (c # cs) \<Rightarrow> [(''worker_id'', JStr (c # cs))] | _ \<Rightarrow> []))"

definition send_task :: "'s web \<Rightarrow> string \<Rightarrow> jdict \<Rightarrow> string option \<Rightarrow> ('s, string \<times> json) act" where
  "send_task w base answers worker_id =
     andthen (new_task_id w) (\<lambda>t.
      let payload = submission t answers worker_id in
      catch
        (andthen (web_post w (base @ ''/createTask'') payload 5) (\<lambda>r.
         andthen (lift (submitted_reply r)) (\<lambda>text.
           ret (text, JObj [(''type'', JStr ''create_task''), (''input'', payload), (''result'', snd r)]))))
        (\<lambda>e. ret (''Error submitting task: '' @ error_text w e, JNull)))"

definition script_state :: "string \<Rightarrow> jdict \<Rightarrow> json" where
  "script_state step answers = JObj [(''step'', JStr step), (''data'', JObj answers)]"

text \<open>The action, if any, is the one that \<open>send_task\<close> made.\<close>

definition post_submit_state :: "json \<Rightarrow> json" where
  "post_submit_state action =
     (let recent =
        (if truthy action then
           py_or (dget (dict_of (py_or (dget (dict_of action) ''input'') (JObj []))) ''task_id'')
                 (dget (dict_of (py_or (dget (dict_of action) ''result'') (JObj []))) ''task_id'')
         else JNull)
      in JObj [(''step'', JStr ''DONE''), (''data'', JObj []), (''last_task_id'', recent)])"

definition GREETING :: string where
  "GREETING = ''Hi! Would you like to execute a [1] Script or [2] Binary?''"

definition init_step :: "string \<Rightarrow> json \<Rightarrow> jdict \<Rightarrow> string \<times> json" where
  "init_step msg st answers =
     (let low = lower msg in
      if low \<in> {''2'', ''binary''} \<or> sublist ''binary'' low then
        (''Got it '' @ EM_DASH @ '' BINARY. What is the binary path?'',
         script_state ''ASK_PATH'' (dset ''task_type'' (JStr ''BINARY'') answers))
      else if low \<in> {''1'', ''script''} \<or> sublist ''script'' low then
        (''Got it '' @ EM_DASH @ '' SCRIPT. Paste the script body, or provide a path.'',
         script_state ''ASK_PATH'' (dset ''task_type'' (JStr ''SCRIPT'') answers))
      else (GREETING, st))"

definition looks_like_path :: "string \<Rightarrow> bool" where
  "looks_like_path msg \<longleftrightarrow>
     (startswith msg ''/'' \<or> startswith msg ''./'') \<and> CHR '' '' \<notin> set msg \<and> CHR 0x0A \<notin> set msg"

definition path_step :: "string \<Rightarrow> jdict \<Rightarrow> string \<times> json" where
  "path_step msg answers =
     (let (path, script) =
        (if dget answers ''task_type'' = JStr ''SCRIPT'' then if looks_like_path msg then (msg, []) else ([], msg)
         else (msg, []))
      in (''Would you like to [1] Pick a specific worker, or [2] Let the system auto-assign one?'',
          script_state ''ASK_WORKER'' (dset ''script'' (JStr script) (dset ''path'' (JStr path) answers))))"

definition submit_step :: "'s web \<Rightarrow> string \<Rightarrow> jdict \<Rightarrow> string option \<Rightarrow> ('s, string \<times> json \<times> json) act" where
  "submit_step w base answers worker_id =
     andthen (send_task w base answers worker_id) (\<lambda>(text, action). ret (text, post_submit_state action, action))"

definition ask_worker_step :: "'s web \<Rightarrow> string \<Rightarrow> string \<Rightarrow> json \<Rightarrow> jdict \<Rightarrow> ('s, string \<times> json \<times> json) act" where
  "ask_worker_step w base msg st answers =
     (let low = lower msg in
      if low \<in> {''1'', ''pick''} \<or> sublist ''pick'' low then
        andthen (http_get w base ''/workers/live'' [] 5) (\<lambda>r.
        andthen (lift (get_of (JList []) r ''live_workers'')) (\<lambda>live.
        if \<not> truthy live then
          ret (''There are no live workers right now. Reply 'auto' to use auto-assignment, or seed a worker via /workers/heartbeat first.'',
               st, JNull)
        else
          andthen (lift (py_join '', '' live)) (\<lambda>names.
            ret (''Live workers: '' @ names @ ''. Which one?'', script_state ''ASK_WORKER_ID'' answers, JNull))))
      else submit_step w base answers None)"

definition done_step :: "string \<Rightarrow> json \<Rightarrow> string \<times> json" where
  "done_step msg st =
     (if sublist ''run a task'' (lower msg) \<or> sublist ''new task'' (lower msg) then
        (''Sure! Would you like to execute a [1] Script or [2] Binary?'', script_state ''INIT'' [])
      else (''Anything else? Say 'I want to run a task' to start over, or ask 'status of <task_id>'.'', st))"

text \<open>The step of the script: the answer, the new state and the action.\<close>

definition next_step :: "'s web \<Rightarrow> string \<Rightarrow> string \<Rightarrow> json \<Rightarrow> ('s, string \<times> json \<times> json) act" where
  "next_step w base msg st =
     andthen (lift (get_of (JStr ''INIT'') st ''step'')) (\<lambda>step.
     andthen (lift (chain (get_of JNull st ''data'') (\<lambda>d. as_dict (py_or d (JObj []))))) (\<lambda>answers.
     let quiet = (\<lambda>(text, st'). ret (text, st', JNull)) in
     if step = JStr ''INIT'' then quiet (init_step msg st answers)
     else if step = JStr ''ASK_PATH'' then quiet (path_step msg answers)
     else if step = JStr ''ASK_WORKER'' then ask_worker_step w base msg st answers
     else if step = JStr ''ASK_WORKER_ID'' then submit_step w base answers (Some (strip msg))
     else if step = JStr ''DONE'' then quiet (done_step msg st)
     else quiet (GREETING, script_state ''INIT'' [])))"

text \<open>A demonstration is started only when a kind of task has been chosen.\<close>

definition demo_step :: "'s web \<Rightarrow> string \<Rightarrow> int \<Rightarrow> json \<Rightarrow> int \<Rightarrow> ('s, string \<times> json \<times> json) act" where
  "demo_step w base now st n =
     andthen (lift (get_of JNull st ''data'')) (\<lambda>d.
     andthen (lift (get_of JNull (py_or d (JObj [])) ''task_type'')) (\<lambda>ty.
     if \<not> truthy ty then
       ret (''Pick a task type first: reply [1] Script or [2] Binary, then say 'demo 10' (or any count up to 100) to fire a batch.'',
            st, JNull)
     else andthen (run_demo w base now n) (\<lambda>(text, action). ret (text, script_state ''DONE'' [], action))))"

definition chat_text :: "json \<Rightarrow> exn + string" where
  "chat_text message =
     (case py_or message (JStr []) of JStr t \<Rightarrow> Inr (strip t) | _ \<Rightarrow> Inl (AttributeError ''strip''))"

definition scripted_chat :: "'s web \<Rightarrow> string \<Rightarrow> int \<Rightarrow> json list \<Rightarrow> json \<Rightarrow> ('s, chat_turn) act" where
  "scripted_chat w base now history message =
     andthen (lift (chat_text message)) (\<lambda>msg.
     andthen (lift (read_state history)) (\<lambda>stored.
     let st = py_or stored (script_state ''INIT'' []);
         answer = (\<lambda>(text, st', action). ret (return_turn history message text st' action)) in
     andthen (try_status_intent w base msg st) (\<lambda>intent.
     case intent of
       Some (text, action) \<Rightarrow> answer (text, st, action)
     | None \<Rightarrow>
         if is_list_intent msg then andthen (list_tasks w base) (\<lambda>(text, action). answer (text, st, action))
         else
           (case parse_demo_intent msg of
              Some n \<Rightarrow> andthen (demo_step w base now st n) answer
            | None \<Rightarrow> andthen (next_step w base msg st) answer))))"

section \<open>The agent with a language model\<close>

text \<open>
  The blocks of a message of the model: a text, the call of a tool, or another kind, given by its
  type, if any, and what its \<open>model_dump\<close> returns, if it has one.
\<close>

datatype block =
    Text_block string
  | Tool_use string string json
  | Other_block "string option" "json option"

fun block_to_dict :: "block \<Rightarrow> json" where
  "block_to_dict (Text_block t) = JObj [(''type'', JStr ''text''), (''text'', JStr t)]"
| "block_to_dict (Tool_use i n v) = JObj [(''type'', JStr ''tool_use''), (''id'', JStr i), (''name'', JStr n), (''input'', v)]"
| "block_to_dict (Other_block ty (Some v)) = v"
| "block_to_dict (Other_block ty None) =
     JObj [(''type'', case ty of Some (c # cs) \<Rightarrow> JStr (c # cs) | _ \<Rightarrow> JStr ''unknown'')]"

fun text_parts :: "json list \<Rightarrow> exn + string" where
  "text_parts [] = Inr []"
| "text_parts (b # bs) =
     (if is_dict b \<and> dget (dict_of b) ''type'' = JStr ''text'' then
        (case dget_or (JStr []) (dict_of b) ''text'' of
           JStr t \<Rightarrow> chain (text_parts bs) (\<lambda>rest. Inr (t @ rest))
         | _ \<Rightarrow> Inl (TypeError ''sequence item: expected str instance''))
      else text_parts bs)"

fun extract_text :: "json \<Rightarrow> exn + string" where
  "extract_text (JStr s) = Inr s"
| "extract_text (JList bs) = chain (text_parts bs) (\<lambda>t. Inr (strip t))"
| "extract_text (JObj d) = Inr []"
| "extract_text v = (if truthy v then Inl (TypeError ''not iterable'') else Inr [])"

definition tool_payload :: "json \<Rightarrow> jdict \<Rightarrow> json" where
  "tool_payload t args =
     JObj ([(''task_id'', t),
            (''task_details'', JObj [(''task_type'', dget args ''task_type''), (''path'', dget_or (JStr []) args ''path''),
                                     (''script'', dget_or (JStr []) args ''script'')])] @
           (if truthy (dget args ''worker_id'') then [(''worker_id'', dget args ''worker_id'')] else []))"

definition task_id_required :: json where
  "task_id_required = JObj [(''error'', JStr ''task_id required'')]"

definition wait_seconds :: "json \<Rightarrow> exn + int" where
  "wait_seconds v =
     chain (py_int (py_or v (JInt WAIT_FOR_STATUS_DEFAULT_S))) (\<lambda>n. Inr (max 1 (min WAIT_FOR_STATUS_MAX_S n)))"

definition execute_tool :: "'s web \<Rightarrow> string \<Rightarrow> string \<Rightarrow> json \<Rightarrow> ('s, json) act" where
  "execute_tool w base tool args =
     (let fetch = (\<lambda>path params secs. andthen (web_get w (base @ path) params secs) (\<lambda>r. ret (snd r))) in
      catch
        (if tool = ''list_live_workers'' then fetch ''/workers/live'' [] 5
         else if tool = ''create_task'' then
           andthen (lift (get_of JNull args ''task_id'')) (\<lambda>given.
           andthen (if truthy given then ret given else andthen (new_task_id w) (\<lambda>t. ret (JStr t))) (\<lambda>t.
           andthen (web_post w (base @ ''/createTask'') (tool_payload t (dict_of args)) 5) (\<lambda>r. ret (snd r))))
         else if tool = ''get_status'' then
           andthen (lift (get_of JNull args ''task_id'')) (\<lambda>t.
             if \<not> truthy t then ret task_id_required else fetch (''/getStatus/'' @ py_str t) [] 10)
         else if tool = ''wait_for_status'' then
           andthen (lift (get_of JNull args ''task_id'')) (\<lambda>t.
             if \<not> truthy t then ret task_id_required
             else
               andthen (lift (wait_seconds (dget (dict_of args) ''max_wait_seconds''))) (\<lambda>n.
                 fetch (''/getStatus/'' @ py_str t) [(''wait'', n)] (n + 10)))
         else ret (JObj [(''error'', JStr (''unknown tool: '' @ tool))]))
        (\<lambda>e. ret (JObj [(''error'', JStr (error_text w e))])))"

text \<open>One block of the model's turn: the results so far and the last action.\<close>

definition run_block ::
  "'s web \<Rightarrow> string \<Rightarrow> block \<Rightarrow> json list \<times> json \<Rightarrow> ('s, json list \<times> json) act" where
  "run_block w base b acc =
     (case b of
        Tool_use i tool v \<Rightarrow>
          andthen (execute_tool w base tool (py_or v (JObj []))) (\<lambda>result.
            ret (fst acc @ [JObj [(''type'', JStr ''tool_result''), (''tool_use_id'', JStr i), (''content'', JStr (dumps result))]],
                 if tool \<in> {''create_task'', ''get_status'', ''wait_for_status''} then
                   JObj [(''type'', JStr tool), (''input'', v), (''result'', result)]
                 else snd acc))
      | _ \<Rightarrow> ret acc)"

definition message_of :: "string \<Rightarrow> json \<Rightarrow> json" where
  "message_of role v = JObj [(''role'', JStr role), (''content'', v)]"

text \<open>\<open>create messages\<close> asks the model: why it stopped, and its blocks.\<close>

fun tool_loop ::
  "'s web \<Rightarrow> string \<Rightarrow> (json list \<Rightarrow> ('s, string \<times> block list) act) \<Rightarrow> nat \<Rightarrow> json list \<Rightarrow> json
    \<Rightarrow> ('s, json list \<times> json) act" where
  "tool_loop w base create 0 messages prior = ret (messages, prior)"
| "tool_loop w base create (Suc n) messages prior =
     andthen (create messages) (\<lambda>(stop_reason, blocks).
     let said = messages @ [message_of ''assistant'' (JList (List.map block_to_dict blocks))] in
     if stop_reason \<noteq> ''tool_use'' then ret (said, prior)
     else
       andthen (for_each blocks (run_block w base) ([], prior)) (\<lambda>(results, latest).
         tool_loop w base create n (said @ [message_of ''user'' (JList results)]) latest))"

definition MAX_TOOL_ITERATIONS :: nat where "MAX_TOOL_ITERATIONS = 6"

text \<open>\<open>key\<close> is the API key, if any.\<close>

definition hosted_chat ::
  "'s web \<Rightarrow> string \<Rightarrow> (json list \<Rightarrow> ('s, string \<times> block list) act) \<Rightarrow> string option \<Rightarrow> json list \<Rightarrow> json
    \<Rightarrow> ('s, chat_turn) act" where
  "hosted_chat w base create key history message =
     (if key \<in> {None, Some []} then throw (RuntimeError ''ANTHROPIC_API_KEY not configured'')
      else
        andthen (tool_loop w base create MAX_TOOL_ITERATIONS (history @ [message_of ''user'' message]) JNull)
          (\<lambda>(messages, action).
        let newest = dict_of (last messages) in
        andthen (lift (if dget newest ''role'' = JStr ''assistant'' then extract_text (dget newest ''content'') else Inr [])) (\<lambda>text.
          ret \<lparr>turn_reply = text, turn_history = messages, turn_action = action\<rparr>)))"

section \<open>The endpoint\<close>

datatype agent_kind = Scripted | Hosted string

text \<open>The scripted agent is used when the mode says so, in lower case, or there is no key.\<close>

definition choose_agent :: "string option \<Rightarrow> string option \<Rightarrow> string option \<Rightarrow> agent_kind" where
  "choose_agent mode agent_key env_key =
     (let key = (if agent_key \<in> {None, Some []} then env_key else agent_key) in
      case key of
        Some (c # cs) \<Rightarrow> if map_option lower mode = Some ''scripted'' then Scripted else Hosted (c # cs)
      | _ \<Rightarrow> Scripted)"

definition turn_json :: "chat_turn \<Rightarrow> json" where
  "turn_json t = JObj [(''reply'', JStr (turn_reply t)), (''history'', JList (turn_history t)), (''action'', turn_action t)]"

definition chat_failed :: "string \<Rightarrow> json" where
  "chat_failed text = JObj [(''ok'', JBool False), (''error'', JStr text)]"

definition agent_chat ::
  "'s web \<Rightarrow> string \<Rightarrow> agent_kind \<Rightarrow> int \<Rightarrow> (json list \<Rightarrow> ('s, string \<times> block list) act) \<Rightarrow> json
    \<Rightarrow> ('s, response) act" where
  "agent_chat w addr kind now create payload = endpoint
     (andthen (lift (json_body payload)) (\<lambda>b.
      let message = dget b ''message''; history = py_or (dget b ''history'') (JList []);
          base = base_url (''http://'' @ addr) in
      if \<not> truthy message then ret (422, chat_failed ''message required'')
      else
        (case history of
           JList h \<Rightarrow>
             catch
               (andthen (case kind of
                    Scripted \<Rightarrow> scripted_chat w base now h message
                  | Hosted key \<Rightarrow> hosted_chat w base create (Some key) h message) (\<lambda>t.
                ret (200, turn_json t)))
               (\<lambda>e. case e of
                  RuntimeError _ \<Rightarrow> ret (503, chat_failed (error_text w e))
                | _ \<Rightarrow> ret (500, chat_failed (error_text w e)))
         | _ \<Rightarrow> ret (422, chat_failed ''history must be an array''))))"

end
