(* ===== verification/ChatRuns.thy ===== *)
theory ChatRuns
  imports Conversation
begin

text \<open>
  Conversations: what the agent stores of the answers it was given, which tasks it can submit, a
  whole conversation from the first word to the question for the result, and two ways in which the
  agent takes an answer for something else.
\<close>

section \<open>Words that are no questions\<close>

lemma blank_needed: "needs is_space RE_WAIT" "needs is_space RE_SHOW_FULL"
  by (simp_all add: RE_WAIT_def RE_SHOW_FULL_def parts_def lit_def)

lemma lower_low: "lower_char x = CHR ''_'' \<longleftrightarrow> x = CHR ''_''"
proof -
  have eq: "c = CHR ''_'' \<longleftrightarrow> (of_char c :: nat) = 95" for c
    using of_char_eq_iff [of c "CHR ''_''", where 'a = nat] by simp
  have "of_char x < (256 :: nat)" by simp
  then show ?thesis unfolding eq by (auto simp: lower_char_def Let_def)
qed

lemma underscore_needed: "needs (\<lambda>c. c = CHR ''_'') RE_TASK_ID"
  by (simp add: RE_TASK_ID_def task_word_def parts_def lit_def lower_low)

lemma status_needed: "x \<in> set ''status'' \<Longrightarrow> needs (\<lambda>c. is_space c \<or> lower_char c = x) RE_STATUS"
  by (auto simp: RE_STATUS_def task_word_def parts_def lit_def)

lemma digit_needed: "needs is_digit RE_NUM_TASKS"
  by (simp add: RE_NUM_TASKS_def parts_def lit_def)

text \<open>One word without an underscore, and without a letter of \<open>status\<close>, is no question.\<close>

lemma no_question:
  assumes "\<forall>c \<in> set s. \<not> is_space c \<and> c \<noteq> CHR ''_'' \<and> lower_char c \<noteq> x" and "x \<in> set ''status''"
  shows "\<not> is_status_intent s"
proof -
  have "\<not> found RE_WAIT s" by (rule needs_found [OF blank_needed(1)]) (use assms(1) in simp)
  moreover have "\<not> found RE_SHOW_FULL s" by (rule needs_found [OF blank_needed(2)]) (use assms(1) in simp)
  moreover have "\<not> found RE_TASK_ID s" by (rule needs_found [OF underscore_needed]) (use assms(1) in simp)
  moreover have "\<not> found RE_STATUS s" by (rule needs_found [OF status_needed [OF assms(2)]]) (use assms(1) in simp)
  ultimately show ?thesis by (simp add: is_status_intent_def)
qed

text \<open>What the script understands as an answer to its own questions.\<close>

definition plain_answer :: "string \<Rightarrow> bool" where
  "plain_answer s \<longleftrightarrow> strip s = s \<and> \<not> is_status_intent s \<and> \<not> is_list_intent s \<and> parse_demo_intent s = None"

lemma plain_words: "plain_answer ''script''" "plain_answer ''auto''"
proof -
  have "\<not> is_status_intent ''script''" by (rule no_question [of _ "CHR ''u''"]) (simp_all, code_simp)
  moreover have "\<not> is_status_intent ''auto''" by (rule no_question [of _ "CHR ''s''"]) (simp_all, code_simp)
  moreover have "\<not> found RE_NUM_TASKS ''script''" "\<not> found RE_NUM_TASKS ''auto''"
    by (rule needs_found [OF digit_needed]; code_simp)+
  moreover have "strip ''script'' = ''script''" "strip ''auto'' = ''auto''" "lower ''script'' = ''script''" "lower ''auto'' = ''auto''"
    "\<not> sublist ''demo'' ''script''" "\<not> sublist ''demo'' ''auto''"
    by code_simp+
  moreover have "\<not> is_list_intent ''script''" "\<not> is_list_intent ''auto''" by code_simp+
  ultimately show "plain_answer ''script''" "plain_answer ''auto''"
    by (simp_all add: plain_answer_def parse_demo_intent_def)
qed

text \<open>Such an answer goes to the current step of the script.\<close>

lemma plain_chat:
  assumes "plain_answer m" and "read_state h = Inr v" and "st = py_or v (script_state ''INIT'' [])"
  shows "scripted_chat w base now h (JStr m) =
    andthen (next_step w base m st) (\<lambda>(text, st', action). ret (return_turn h (JStr m) text st' action))"
  using assms
  by (auto simp: fun_eq_iff scripted_chat_def plain_answer_def chat_text_def py_or_def try_status_intent_def act_simps Let_def)

section \<open>What can be submitted\<close>

definition typed :: "jdict \<Rightarrow> bool" where
  "typed a \<longleftrightarrow> dget a ''task_type'' \<in> {JStr ''SCRIPT'', JStr ''BINARY''}"

definition answered :: "jdict \<Rightarrow> bool" where
  "answered a \<longleftrightarrow> typed a \<and>
     (\<exists>path script. map_of a ''path'' = Some (JStr path) \<and> map_of a ''script'' = Some (JStr script) \<and> (path = []) \<noteq> (script = []))"

text \<open>The states of the script.\<close>

definition STEPS :: "string list" where
  "STEPS = [''INIT'', ''ASK_PATH'', ''ASK_WORKER'', ''ASK_WORKER_ID'', ''DONE'']"

definition fits :: "string \<Rightarrow> jdict \<Rightarrow> bool" where
  "fits step a \<longleftrightarrow> step \<in> set STEPS \<and> (step = ''ASK_PATH'' \<longrightarrow> typed a) \<and>
     (step \<in> {''ASK_WORKER'', ''ASK_WORKER_ID''} \<longrightarrow> answered a)"

definition good_state :: "json \<Rightarrow> bool" where
  "good_state st \<longleftrightarrow>
     (\<exists>d step a. st = JObj d \<and> map_of d ''step'' = Some (JStr step) \<and> map_of d ''data'' = Some (JObj a) \<and> fits step a)"

text \<open>A submission that names the kind of task and gives a path or a script, not both.\<close>

definition complete_submission :: "json \<Rightarrow> bool" where
  "complete_submission v \<longleftrightarrow>
     (\<exists>t details. dget (dict_of v) ''task_id'' = JStr t \<and> t \<noteq> [] \<and> dget (dict_of v) ''task_details'' = JObj details \<and> answered details)"

text \<open>A predicate that the network keeps, as long as only such tasks are submitted.\<close>

definition obeys :: "('s \<Rightarrow> bool) \<Rightarrow> 's web \<Rightarrow> string \<Rightarrow> bool" where
  "obeys P w base \<longleftrightarrow>
     (\<forall>url ps n. keeps P (web_get w url ps n)) \<and>
     (\<forall>v n. complete_submission v \<longrightarrow> keeps P (web_post w (base @ ''/createTask'') v n)) \<and>
     (\<forall>m. keeps P m \<longrightarrow> keeps P (start_thread w m)) \<and> (\<forall>n. keeps P (pause w n)) \<and> keeps P (fresh_hex w)"

text \<open>The histories of conversations in which no message is blank.\<close>

inductive talks :: "'s web \<Rightarrow> string \<Rightarrow> json list \<Rightarrow> bool" for w base where
  start: "talks w base []"
| turn: "talks w base h \<Longrightarrow> chat_text m \<noteq> Inr [] \<Longrightarrow> scripted_chat w base now h m s = (Inr t, s') \<Longrightarrow> talks w base (turn_history t)"

lemma good_stateI:
  "map_of d ''step'' = Some (JStr step) \<Longrightarrow> map_of d ''data'' = Some (JObj a) \<Longrightarrow> fits step a \<Longrightarrow> good_state (JObj d)"
  by (auto simp: good_state_def)

lemma fits_intro:
  "fits ''INIT'' a" "fits ''DONE'' a" "typed a \<Longrightarrow> fits ''ASK_PATH'' a" "answered a \<Longrightarrow> fits ''ASK_WORKER'' a"
  "answered a \<Longrightarrow> fits ''ASK_WORKER_ID'' a"
  by (simp_all add: fits_def STEPS_def)

lemma good_script: "fits step a \<Longrightarrow> good_state (script_state step a)"
  unfolding script_state_def by (rule good_stateI [of _ step a]) simp_all

lemma good_post: "good_state (post_submit_state action)"
  unfolding post_submit_state_def Let_def by (rule good_stateI [of _ "''DONE''" "[]"]) (simp_all add: fits_intro)

lemma good_truthy: "good_state st \<Longrightarrow> truthy st"
  by (auto simp: good_state_def)

lemma good_init: "good_state st \<Longrightarrow> good_state (snd (init_step m st a))"
  by (auto simp: init_step_def Let_def typed_def intro!: good_script fits_intro)

lemma good_path: "typed a \<Longrightarrow> m \<noteq> [] \<Longrightarrow> good_state (snd (path_step m a))"
  by (auto simp: path_step_def Let_def typed_def answered_def dget_or_def intro!: good_script fits_intro split: if_splits)

lemma good_done: "good_state st \<Longrightarrow> good_state (snd (done_step m st))"
  by (auto simp: done_step_def intro!: good_script fits_intro)

text \<open>An action that returns good states.\<close>

definition gives :: "('a \<Rightarrow> bool) \<Rightarrow> ('s, 'a) act \<Rightarrow> bool" where
  "gives Q m \<longleftrightarrow> (\<forall>s x s'. m s = (Inr x, s') \<longrightarrow> Q x)"

lemma givesD: "gives Q m \<Longrightarrow> m s = (Inr x, s') \<Longrightarrow> Q x"
  by (auto simp: gives_def)

lemma gives_ret: "Q x \<Longrightarrow> gives Q (ret x)"
  by (simp add: gives_def act_simps)

lemma gives_andthen: "(\<And>x. gives Q (k x)) \<Longrightarrow> gives Q (andthen m k)"
  by (fastforce simp: gives_def act_simps split: prod.splits sum.splits)

lemma gives_andthen_lift: "(\<And>x. r = Inr x \<Longrightarrow> gives Q (k x)) \<Longrightarrow> gives Q (andthen (lift r) k)"
  by (cases r) (auto simp: gives_def act_simps)

lemma gives_if: "(b \<Longrightarrow> gives Q m) \<Longrightarrow> (\<not> b \<Longrightarrow> gives Q m') \<Longrightarrow> gives Q (if b then m else m')"
  by simp

lemmas gives_intro = gives_ret gives_andthen gives_if

lemma submit_gives: "gives (\<lambda>x. good_state (fst (snd x))) (submit_step w base a who)"
  unfolding submit_step_def split_def by (intro gives_intro) (simp add: good_post)

lemma worker_gives: "good_state st \<Longrightarrow> answered a \<Longrightarrow> gives (\<lambda>x. good_state (fst (snd x))) (ask_worker_step w base m st a)"
  unfolding ask_worker_step_def Let_def by (intro gives_intro submit_gives) (simp_all add: good_script fits_intro)

lemma good_fields:
  assumes "good_state st"
  obtains step a where "get_of (JStr ''INIT'') st ''step'' = Inr (JStr step)"
    "chain (get_of JNull st ''data'') (\<lambda>d. as_dict (py_or d (JObj []))) = Inr a"
    "fits step a"
proof -
  obtain d step a where "st = JObj d" "map_of d ''step'' = Some (JStr step)" "map_of d ''data'' = Some (JObj a)" "fits step a"
    using assms unfolding good_state_def by blast
  then show thesis by (intro that [of step a]) (auto simp: get_of_def dget_or_def py_or_def as_dict_def)
qed

subsection \<open>The states of a conversation\<close>

lemma next_gives:
  assumes "good_state st" and "m \<noteq> []"
  shows "gives (\<lambda>x. good_state (fst (snd x))) (next_step w base m st)"
proof -
  obtain step a where f: "get_of (JStr ''INIT'') st ''step'' = Inr (JStr step)"
    "chain (get_of JNull st ''data'') (\<lambda>d. as_dict (py_or d (JObj []))) = Inr a" "fits step a"
    by (rule good_fields [OF assms(1)])
  have quiet: "good_state (snd q) \<Longrightarrow> gives (\<lambda>x. good_state (fst (snd x))) (case q of (text, st') \<Rightarrow> ret (text, st', JNull))" for q
    by (auto intro: gives_ret split: prod.split)
  show ?thesis
    unfolding next_step_def Let_def f(1,2)
    using f(3) assms
    by (intro gives_andthen_lift gives_if quiet submit_gives worker_gives good_init good_path good_done)
      (auto simp: fits_def intro!: good_script fits_intro)
qed

lemma demo_gives: "good_state st \<Longrightarrow> gives (\<lambda>x. good_state (fst (snd x))) (demo_step w base now st n)"
  unfolding demo_step_def split_def by (intro gives_intro) (auto intro: good_script fits_intro)

definition resumes :: "chat_turn \<Rightarrow> bool" where
  "resumes t \<longleftrightarrow> (\<exists>st. read_state (turn_history t) = Inr st \<and> good_state st)"

lemma gives_turn:
  "gives (\<lambda>x. good_state (fst (snd x))) m \<Longrightarrow>
     gives resumes (andthen m (\<lambda>(text, st', action). ret (return_turn h msg text st' action)))"
  unfolding gives_def resumes_def by (fastforce simp: act_simps split: prod.splits sum.splits)

lemma chat_gives:
  assumes "read_state h = Inr v" and "good_state (py_or v (script_state ''INIT'' []))" and "chat_text m \<noteq> Inr []"
  shows "gives resumes (scripted_chat w base now h m)"
proof -
  have same: "gives resumes (andthen act (\<lambda>(text, action). ret (return_turn h m text (py_or v (script_state ''INIT'' [])) action)))"
    for act
    using assms(2) unfolding split_def by (intro gives_intro) (auto simp: resumes_def)
  show ?thesis
    unfolding scripted_chat_def assms(1) Let_def
    using assms(2,3) gives_turn [OF next_gives] gives_turn [OF demo_gives] same
    by (intro gives_andthen_lift gives_andthen) (auto intro!: gives_ret simp: resumes_def split: option.splits)
qed

lemma talks_state:
  "talks w base h \<Longrightarrow> \<exists>v. read_state h = Inr v \<and> good_state (py_or v (script_state ''INIT'' []))"
proof (induction rule: talks.induct)
  case start
  show ?case by (simp add: read_state_def py_or_def good_script fits_intro)
next
  case (turn h m now s t s')
  then obtain v where "read_state h = Inr v" "good_state (py_or v (script_state ''INIT'' []))" by blast
  then have "gives resumes (scripted_chat w base now h m)" using turn.hyps(2) by (rule chat_gives)
  then have "resumes t" using turn.hyps(3) by (rule givesD)
  then show ?case by (auto simp: resumes_def py_or_def good_truthy)
qed

subsection \<open>The submissions\<close>

lemma obeysD:
  assumes "obeys P w base"
  shows "keeps P (web_get w url ps n)" "complete_submission v \<Longrightarrow> keeps P (web_post w (base @ ''/createTask'') v n)"
    "keeps P m \<Longrightarrow> keeps P (start_thread w m)" "keeps P (pause w n)" "keeps P (fresh_hex w)"
  using assms by (simp_all add: obeys_def)

lemma keeps_http_get: "obeys P w base \<Longrightarrow> keeps P (http_get w base path ps n)"
  unfolding http_get_def by (intro keeps_intro obeysD)

lemma keeps_new_task_id:
  "keeps P (fresh_hex w) \<Longrightarrow> (\<And>h. keeps P (k (''task_'' @ h))) \<Longrightarrow> keeps P (andthen (new_task_id w) k)"
  unfolding new_task_id_def by (fastforce simp: keeps_def act_simps split: prod.splits sum.splits)

lemma answered_submission:
  assumes "answered a" and "t \<noteq> []"
  shows "complete_submission (submission t a who)"
proof -
  obtain path script where a: "typed a" "map_of a ''path'' = Some (JStr path)" "map_of a ''script'' = Some (JStr script)" "(path = []) \<noteq> (script = [])"
    using assms(1) by (auto simp: answered_def)
  then have "answered [(''task_type'', dget a ''task_type''), (''path'', JStr path), (''script'', JStr script)]"
    by (simp add: answered_def typed_def dget_or_Cons)
  with a assms(2) show ?thesis
    by (simp add: complete_submission_def submission_def task_payload_def dget_or_Cons dget_or_def)
qed

lemma demo_submission: "complete_submission (chat_demo_task ts idx)"
  by (simp add: complete_submission_def chat_demo_task_def task_payload_def dget_or_Cons answered_def typed_def Let_def)

lemma keeps_submit: "obeys P w base \<Longrightarrow> answered a \<Longrightarrow> keeps P (submit_step w base a who)"
  unfolding submit_step_def send_task_def split_def Let_def
  by (intro keeps_intro keeps_new_task_id obeysD answered_submission) simp_all

lemma keeps_background: "obeys P w base \<Longrightarrow> keeps P (background_submit w base ts n)"
  unfolding background_submit_def by (intro keeps_intro obeysD demo_submission)

lemma keeps_demo_step: "obeys P w base \<Longrightarrow> keeps P (demo_step w base now st n)"
  unfolding demo_step_def run_demo_def split_def by (intro keeps_intro obeysD keeps_background)

lemma keeps_worker: "obeys P w base \<Longrightarrow> answered a \<Longrightarrow> keeps P (ask_worker_step w base m st a)"
  unfolding ask_worker_step_def Let_def by (intro keeps_intro keeps_http_get keeps_submit)

lemma keeps_list: "obeys P w base \<Longrightarrow> keeps P (list_tasks w base)"
  unfolding list_tasks_def by (intro keeps_intro obeysD)

lemma keeps_status: "obeys P w base \<Longrightarrow> keeps P (try_status_intent w base m st)"
  unfolding try_status_intent_def ask_status_def by (intro keeps_intro keeps_http_get)

lemma keeps_next:
  assumes "obeys P w base" and "good_state st"
  shows "keeps P (next_step w base m st)"
proof -
  obtain step a where f: "get_of (JStr ''INIT'') st ''step'' = Inr (JStr step)"
    "chain (get_of JNull st ''data'') (\<lambda>d. as_dict (py_or d (JObj []))) = Inr a" "fits step a"
    by (rule good_fields [OF assms(2)])
  have lift: "keeps P (k x) \<Longrightarrow> keeps P (andthen (lift (Inr x)) k)" for k :: "'x \<Rightarrow> ('a, 'y) act" and x
    by (auto simp: keeps_def act_simps)
  show ?thesis
    unfolding next_step_def Let_def split_def f(1,2)
    using f(3) assms(1)
    by (intro lift keeps_if keeps_ret keeps_submit keeps_worker) (auto simp: fits_def)
qed

section \<open>A whole conversation\<close>

definition script_answers :: "string \<Rightarrow> jdict" where
  "script_answers script = dset ''script'' (JStr script) (dset ''path'' (JStr []) (dset ''task_type'' (JStr ''SCRIPT'') []))"

lemma chat_quiet:
  assumes "plain_answer m" and "read_state h = Inr v" and "st = py_or v (script_state ''INIT'' [])"
    and "next_step w base m st s = (Inr (text, st', action), s')"
  shows "scripted_chat w base now h (JStr m) s = (Inr (return_turn h (JStr m) text st' action), s')"
  using assms(4) by (simp add: plain_chat [OF assms(1-3)] act_simps)

lemma script_state_fields [simp]:
  "get_of v (script_state step a) ''step'' = Inr (JStr step)" "get_of v (script_state step a) ''data'' = Inr (JObj a)"
  "truthy (script_state step a)"
  by (simp_all add: script_state_def get_of_def dget_or_Cons)

lemma next_script: "\<exists>text. next_step w base ''script'' (script_state ''INIT'' []) s =
    (Inr (text, script_state ''ASK_PATH'' (dset ''task_type'' (JStr ''SCRIPT'') []), JNull), s)"
proof -
  have "lower ''script'' = ''script''" "\<not> sublist ''binary'' ''script''" by code_simp+
  then show ?thesis by (simp add: next_step_def act_simps py_or_def as_dict_def init_step_def Let_def)
qed

lemma next_body:
  assumes "\<not> looks_like_path scr"
  shows "\<exists>text. next_step w base scr (script_state ''ASK_PATH'' (dset ''task_type'' (JStr ''SCRIPT'') [])) s =
    (Inr (text, script_state ''ASK_WORKER'' (script_answers scr), JNull), s)"
  using assms by (simp add: next_step_def act_simps py_or_def as_dict_def path_step_def Let_def script_answers_def dget_or_def)

lemma next_auto: "next_step w base ''auto'' (script_state ''ASK_WORKER'' (script_answers scr)) =
    submit_step w base (script_answers scr) None"
proof -
  have "lower ''auto'' = ''auto''" "\<not> sublist ''pick'' ''auto''" by code_simp+
  then show ?thesis
    by (simp add: fun_eq_iff next_step_def act_simps py_or_def as_dict_def ask_worker_step_def Let_def script_answers_def)
qed

lemma send_run:
  assumes "fresh_hex w s = (Inr h, s1)" and "submission (''task_'' @ h) a who = payload"
    and "web_post w (base @ ''/createTask'') payload 5 s1 = (Inr r, s2)" and "submitted_reply r = Inr text"
  shows "submit_step w base a who s =
    (let action = JObj [(''type'', JStr ''create_task''), (''input'', payload), (''result'', snd r)]
     in (Inr (text, post_submit_state action, action), s2))"
  using assms by (simp add: submit_step_def send_task_def new_task_id_def act_simps Let_def)

text \<open>The question for the result of the last task.\<close>

lemma status_run:
  assumes "strip q = q" and "found RE_STATUS q" and "\<not> found RE_WAIT q" and "\<not> found RE_TASK_ID q"
    and "read_state h = Inr (post_submit_state action)" and "dget (dict_of (post_submit_state action)) ''last_task_id'' = JStr t" and "t \<noteq> []"
    and "web_get w (base @ ''/getStatus/'' @ t) [] 5 s = (Inr r, s')"
    and "format_status_reply (JStr t) (snd r) (found RE_SHOW_FULL q) False = Inr text"
  shows "\<exists>turn. scripted_chat w base now h (JStr q) s = (Inr turn, s') \<and> turn_reply turn = text"
proof -
  have "get_of JNull (post_submit_state action) ''last_task_id'' = Inr (JStr t)"
    using assms(6) by (simp add: post_submit_state_def get_of_def)
  moreover have "search_text RE_TASK_ID q = None" using assms(4) unfolding found_def search_text_def by (cases "search RE_TASK_ID q") simp_all
  moreover obtain act where "ask_status w base q (JStr t) s = (Inr (text, act), s')"
    using assms(3,8,9) by (simp add: ask_status_def http_get_def py_str_def act_simps)
  ultimately have "try_status_intent w base q (post_submit_state action) s = (Inr (Some (text, act)), s')"
    using assms(2,7) by (simp add: try_status_intent_def is_status_intent_def resolve_task_id_def act_simps)
  moreover have "chat_text (JStr q) = Inr q" using assms(1) by (auto simp: chat_text_def py_or_def)
  moreover have "py_or (post_submit_state action) v = post_submit_state action" for v
    by (simp add: py_or_def good_truthy [OF good_post])
  ultimately show ?thesis using assms(5) by (simp add: scripted_chat_def act_simps Let_def)
qed

text \<open>
  C38. A conversation with the scripted agent runs a task: after \<open>script\<close>, the text of a script that
  is not taken for a question or a path, and \<open>auto\<close>, the agent submits once, that script, under a
  new identifier; asked for the status, it asks the node for exactly that task and answers what
  it got.
\<close>

theorem script_conversation:
  assumes scr: "plain_answer scr" "\<not> looks_like_path scr"
    and hex: "fresh_hex w s = (Inr h, s1)"
    and post: "web_post w (base @ ''/createTask'')
        (JObj (task_payload (''task_'' @ h) (JStr ''SCRIPT'') (JStr []) (JStr scr))) 5 s1 = (Inr r, s2)"
      "submitted_reply r = Inr text"
    and question: "strip q = q" "found RE_STATUS q" "\<not> found RE_WAIT q" "\<not> found RE_TASK_ID q"
    and got: "web_get w (base @ ''/getStatus/task_'' @ h) [] 5 s2 = (Inr answer, s3)"
      "format_status_reply (JStr (''task_'' @ h)) (snd answer) (found RE_SHOW_FULL q) False = Inr shown"
  shows "\<exists>t1 t2 t3 t4. scripted_chat w base now [] (JStr ''script'') s = (Inr t1, s) \<and>
    scripted_chat w base now (turn_history t1) (JStr scr) s = (Inr t2, s) \<and>
    scripted_chat w base now (turn_history t2) (JStr ''auto'') s = (Inr t3, s2) \<and> turn_reply t3 = text \<and>
    scripted_chat w base now (turn_history t3) (JStr q) s2 = (Inr t4, s3) \<and> turn_reply t4 = shown"
proof -
  let ?payload = "JObj (task_payload (''task_'' @ h) (JStr ''SCRIPT'') (JStr []) (JStr scr))"
  have payload: "submission (''task_'' @ h) (script_answers scr) None = ?payload"
    by (simp add: submission_def script_answers_def dget_or_Cons)
  let ?action = "JObj [(''type'', JStr ''create_task''), (''input'', ?payload), (''result'', snd r)]"
  have "read_state [] = Inr JNull" by (simp add: read_state_def)
  then obtain t1 where t1: "scripted_chat w base now [] (JStr ''script'') s = (Inr t1, s)"
    "read_state (turn_history t1) = Inr (script_state ''ASK_PATH'' (dset ''task_type'' (JStr ''SCRIPT'') []))"
    using chat_quiet [OF plain_words(1), of "[]"] next_script [of w base s] by (fastforce simp: py_or_def)
  then obtain t2 where t2: "scripted_chat w base now (turn_history t1) (JStr scr) s = (Inr t2, s)"
    "read_state (turn_history t2) = Inr (script_state ''ASK_WORKER'' (script_answers scr))"
    using chat_quiet [OF scr(1) t1(2)] next_body [OF scr(2), of w base s] by (fastforce simp: py_or_def)
  have "next_step w base ''auto'' (script_state ''ASK_WORKER'' (script_answers scr)) s =
      (Inr (text, post_submit_state ?action, ?action), s2)"
    unfolding next_auto send_run [OF hex payload post] Let_def ..
  then obtain t3 where t3: "scripted_chat w base now (turn_history t2) (JStr ''auto'') s = (Inr t3, s2)" "turn_reply t3 = text"
    "read_state (turn_history t3) = Inr (post_submit_state ?action)"
    using chat_quiet [OF plain_words(2) t2(2)] by (fastforce simp: py_or_def)
  have "dget (dict_of (post_submit_state ?action)) ''last_task_id'' = JStr (''task_'' @ h)"
    by (simp add: post_submit_state_def task_payload_def py_or_def dget_or_Cons)
  from status_run [OF question t3(3) this _ _ got(2)] got(1)
  show ?thesis using t1(1) t2(1) t3(1,2) by fastforce
qed

text \<open>A network that keeps the submissions it gets and accepts them all.\<close>

definition log_web :: "json list web" where
  "log_web = \<lparr>
     web_get = (\<lambda>url ps n s. (Inr (200, JObj [(''status'', JStr ''PENDING'')]), s)),
     web_post = (\<lambda>url v n s. (Inr (201, JObj [(''message'', JStr ''Task accepted''), (''task_id'', dget (dict_of v) ''task_id''),
                                           (''worker_id'', JStr ''w1''), (''assigned_by'', JStr ''frontend'')]), s @ [v])),
     start_thread = (\<lambda>m s. (Inr (), snd (m s))),
     pause = (\<lambda>n s. (Inr (), s)),
     fresh_hex = (\<lambda>s. (Inr ''5f2c'', s)),
     error_text = (\<lambda>e. ''error'')\<rparr>"

lemma plain_make: "plain_answer ''make''" "\<not> looks_like_path ''make''"
proof -
  have "\<not> is_status_intent ''make''" by (rule no_question [of _ "CHR ''u''"]) (simp_all, code_simp)
  moreover have "\<not> found RE_NUM_TASKS ''make''" by (rule needs_found [OF digit_needed]; code_simp)
  moreover have "strip ''make'' = ''make''" "lower ''make'' = ''make''" "\<not> sublist ''demo'' ''make''" "\<not> is_list_intent ''make''"
    by code_simp+
  ultimately show "plain_answer ''make''" by (simp add: plain_answer_def parse_demo_intent_def)
  show "\<not> looks_like_path ''make''" by code_simp
qed

lemma status_question:
  "strip ''status'' = ''status''" "found RE_STATUS ''status''" "\<not> found RE_WAIT ''status''" "\<not> found RE_TASK_ID ''status''"
proof -
  show "strip ''status'' = ''status''" by code_simp
  have "spans (lit ''status'') ''status'' 0 6" by (simp add: lit_def, code_simp)
  moreover have "boundary_at ''status'' 0" "boundary_at ''status'' 6" by code_simp+
  ultimately have "spans RE_STATUS ''status'' 0 6" unfolding RE_STATUS_def parts_def by simp
  then show "found RE_STATUS ''status''" by (auto simp: found_spans intro: exI [of _ 0])
  show "\<not> found RE_WAIT ''status''" by (rule needs_found [OF blank_needed(1)]; code_simp)
  show "\<not> found RE_TASK_ID ''status''" by (rule needs_found [OF underscore_needed]; code_simp)
qed

theorem script_conversation_witness:
  "\<exists>h t posts t'. scripted_chat log_web ''http://a'' 7 h (JStr ''auto'') [] = (Inr t, posts) \<and>
     scripted_chat log_web ''http://a'' 7 (turn_history t) (JStr ''status'') posts = (Inr t', posts)"
proof -
  let ?t = "''task_'' @ ''5f2c''"
  let ?r = "(201 :: int, JObj [(''message'', JStr ''Task accepted''), (''task_id'', JStr ?t), (''worker_id'', JStr ''w1''),
     (''assigned_by'', JStr ''frontend'')])"
  let ?v = "JObj (task_payload ?t (JStr ''SCRIPT'') (JStr []) (JStr ''make''))"
  let ?a = "(200 :: int, JObj [(''status'', JStr ''PENDING'')])"
  have hex: "fresh_hex log_web [] = (Inr ''5f2c'', [])" by (simp add: log_web_def)
  have post: "web_post log_web (''http://a'' @ ''/createTask'') ?v 5 [] = (Inr ?r, [?v])"
    by (simp add: log_web_def task_payload_def dget_or_Cons)
  obtain said where r: "submitted_reply ?r = Inr said" by (simp add: submitted_reply_def get_of_def dget_or_Cons dindex_def)
  have got: "web_get log_web (''http://a'' @ ''/getStatus/task_'' @ ''5f2c'') [] 5 [?v] = (Inr ?a, [?v])" by (simp add: log_web_def)
  obtain shown where a: "format_status_reply (JStr ?t) (snd ?a) (found RE_SHOW_FULL ''status'') False = Inr shown"
    by (simp add: format_status_reply_def dget_or_Cons)
  from script_conversation [OF plain_make hex post r status_question got a, of 7] show ?thesis by blast
qed


section \<open>Answers taken for something else\<close>

text \<open>A demonstration is of one to a hundred tasks.\<close>

lemma demo_count:
  assumes "sublist ''demo'' (lower (strip m))"
  obtains n where "parse_demo_intent m = Some (int n)" "1 \<le> n" "n \<le> 100"
proof -
  have "lower (strip m) \<noteq> []" using assms by (metis list.distinct(1) sublist_Nil_right)
  with assms obtain k where k: "parse_demo_intent m = Some (max 1 (min k 100))"
    unfolding parse_demo_intent_def Let_def by simp
  then show thesis by (intro that [of "nat (max 1 (min k 100))"]) auto
qed

text \<open>
  C40. The questions about tasks are looked for before the script. When the agent has asked for the
  body of a script, a text without blanks around it that contains the word \<open>demo\<close>, and is taken
  neither for a question about the status nor for one for the list of tasks, starts a batch of 1 to
  100 demonstration tasks, and the conversation about the script is over; a text in which the
  pattern for the status matches (it has the word \<open>status\<close>, for example) and that has no word like the
  identifier of a task is answered by asking for that identifier. Neither text is kept.
\<close>

theorem script_misread:
  assumes state: "read_state h = Inr (script_state ''ASK_PATH'' a)" and typed: "typed a" and scr: "strip scr = scr"
    and threads: "\<And>n. start_thread w (background_submit w base (now div 1000000) n) s = (Inr (), s' n)"
  shows "(\<not> is_status_intent scr \<and> \<not> is_list_intent scr \<and> sublist ''demo'' (lower scr) \<longrightarrow>
      (\<exists>n t. 1 \<le> n \<and> n \<le> 100 \<and> scripted_chat w base now h (JStr scr) s = (Inr t, s' n) \<and>
        read_state (turn_history t) = Inr (script_state ''DONE'' []))) \<and>
    (found RE_STATUS scr \<and> \<not> found RE_TASK_ID scr \<longrightarrow>
      (\<exists>t. scripted_chat w base now h (JStr scr) s = (Inr t, s) \<and> turn_reply t = ''Which task ID would you like me to check?'' \<and>
        read_state (turn_history t) = Inr (script_state ''ASK_PATH'' a)))"
proof -
  have m: "chat_text (JStr scr) = Inr scr" using scr by (auto simp: chat_text_def py_or_def)
  have kept: "py_or (script_state ''ASK_PATH'' a) v = script_state ''ASK_PATH'' a" for v by (simp add: py_or_def)
  have "\<exists>n t. 1 \<le> n \<and> n \<le> 100 \<and> scripted_chat w base now h (JStr scr) s = (Inr t, s' n) \<and>
      read_state (turn_history t) = Inr (script_state ''DONE'' [])"
    if "\<not> is_status_intent scr" "\<not> is_list_intent scr" "sublist ''demo'' (lower scr)"
  proof -
    have "sublist ''demo'' (lower (strip scr))" using that(3) scr by simp
    then obtain n where n: "parse_demo_intent scr = Some (int n)" "1 \<le> n" "n \<le> 100" by (rule demo_count)
    have "truthy (dget a ''task_type'')" "py_or (JObj a) (JObj []) = JObj a"
      "get_of JNull (JObj a) ''task_type'' = Inr (dget a ''task_type'')"
      using typed by (auto simp: typed_def py_or_def get_of_def)
    then have "\<exists>act text. demo_step w base now (script_state ''ASK_PATH'' a) (int n) s = (Inr (text, script_state ''DONE'' [], act), s' n)"
      using threads [of n] by (auto simp: demo_step_def run_demo_def act_simps Let_def)
    then have "\<exists>t. scripted_chat w base now h (JStr scr) s = (Inr t, s' n) \<and> read_state (turn_history t) = Inr (script_state ''DONE'' [])"
      using that(1,2) n(1) state m kept by (auto simp: scripted_chat_def try_status_intent_def act_simps Let_def)
    with n(2,3) show ?thesis by blast
  qed
  moreover have "\<exists>t. scripted_chat w base now h (JStr scr) s = (Inr t, s) \<and> turn_reply t = ''Which task ID would you like me to check?'' \<and>
      read_state (turn_history t) = Inr (script_state ''ASK_PATH'' a)"
    if "found RE_STATUS scr" "\<not> found RE_TASK_ID scr"
  proof -
    have "get_of JNull (script_state ''ASK_PATH'' a) ''last_task_id'' = Inr JNull"
      by (simp add: script_state_def get_of_def dget_or_Cons)
    moreover have "search_text RE_TASK_ID scr = None"
      using that(2) unfolding found_def search_text_def by (cases "search RE_TASK_ID scr") simp_all
    ultimately show ?thesis
      using that(1) state m kept
      by (auto simp: scripted_chat_def try_status_intent_def is_status_intent_def resolve_task_id_def act_simps Let_def)
  qed
  ultimately show ?thesis by blast
qed

text \<open>
  C39. In every conversation with the scripted agent in which no message so far was blank, only
  complete tasks are submitted: of one of the two kinds, with an identifier, and with either a path
  or the text of a script, one of them and not both. So a predicate of the network that the reads
  and such submissions keep is kept by each turn.
\<close>

theorem conversation_submissions_complete:
  assumes "talks w base h" and "obeys P w base"
  shows "keeps P (scripted_chat w base now h m)"
proof -
  obtain v where v: "read_state h = Inr v" "good_state (py_or v (script_state ''INIT'' []))"
    using talks_state [OF assms(1)] by blast
  have given: "keeps P (k v) \<Longrightarrow> keeps P (andthen (lift (Inr v)) k)" for k :: "json \<Rightarrow> ('a, chat_turn) act"
    by (simp add: keeps_def act_simps)
  show ?thesis
    unfolding scripted_chat_def v(1) Let_def split_def
    by (intro keeps_andthen keeps_lift given keeps_option keeps_if keeps_ret keeps_status keeps_list keeps_demo_step keeps_next
        assms(2) v(2))
qed

text \<open>A blank message is taken for the answer all the same: the task then has neither path nor script.\<close>

lemma blank_answer_kept:
  "typed a \<Longrightarrow> \<exists>text b. path_step [] a = (text, script_state ''ASK_WORKER'' b) \<and>
     map_of b ''path'' = Some (JStr []) \<and> map_of b ''script'' = Some (JStr [])"
  by (auto simp: path_step_def Let_def looks_like_path_def)

theorem script_misread_witness:
  "\<exists>n t. 1 \<le> n \<and> n \<le> 100 \<and>
     scripted_chat log_web ''http://a'' 7 (turn_history (return_turn [] (JStr ''script'') [] (script_state ''ASK_PATH'' [(''task_type'', JStr ''SCRIPT'')]) JNull))
       (JStr ''demo'') [] = (Inr t, snd (background_submit log_web ''http://a'' 0 n [])) \<and>
     read_state (turn_history t) = Inr (script_state ''DONE'' [])"
proof -
  have "\<not> is_status_intent ''demo''" by (rule no_question [of _ "CHR ''u''"]) (simp_all, code_simp)
  moreover have "strip ''demo'' = ''demo''" "lower ''demo'' = ''demo''" "\<not> is_list_intent ''demo''" "sublist ''demo'' ''demo''" by code_simp+
  ultimately show ?thesis
    using script_misread [of _ "[(''task_type'', JStr ''SCRIPT'')]" "''demo''" log_web "''http://a''" 7 "[]"
        "\<lambda>n. snd (background_submit log_web ''http://a'' 0 n [])", OF read_return]
    by (simp add: typed_def dget_or_Cons) (simp add: log_web_def)
qed

theorem conversation_submissions_complete_witness:
  "\<exists>h. h \<noteq> [] \<and> keeps (\<lambda>posts. \<forall>v \<in> set posts. complete_submission v) (scripted_chat log_web ''http://a'' 7 h (JStr ''demo''))"
proof -
  let ?P = "\<lambda>posts. \<forall>v \<in> set posts. complete_submission v"
  have "keeps ?P (start_thread log_web m)" if "keeps ?P m" for m
    using that by (auto simp: keeps_def log_web_def)
  then have "obeys ?P log_web ''http://a''" by (auto simp: obeys_def keeps_def log_web_def)
  moreover obtain said where "next_step log_web ''http://a'' ''script'' (script_state ''INIT'' []) [] =
      (Inr (said, script_state ''ASK_PATH'' (dset ''task_type'' (JStr ''SCRIPT'') []), JNull), [])"
    using next_script [of log_web "''http://a''" "[]"] by blast
  then have "scripted_chat log_web ''http://a'' 7 [] (JStr ''script'') [] =
      (Inr (return_turn [] (JStr ''script'') said (script_state ''ASK_PATH'' (dset ''task_type'' (JStr ''SCRIPT'') [])) JNull), [])"
    by (intro chat_quiet [OF plain_words(1), of "[]" JNull]) (simp_all add: read_state_def py_or_def)
  then have "talks log_web ''http://a''
      (turn_history (return_turn [] (JStr ''script'') said (script_state ''ASK_PATH'' (dset ''task_type'' (JStr ''SCRIPT'') [])) JNull))"
    by (rule talks.turn [OF talks.start, of "JStr ''script''", rotated]) (use plain_words(1) in \<open>auto simp: plain_answer_def chat_text_def py_or_def\<close>)
  ultimately show ?thesis
    using conversation_submissions_complete by (fastforce simp: return_turn_def)
qed

text \<open>
  The agent looks for an error code that the endpoint for the status never sends: a task that the
  node does not know is reported as one with a status that is not recognised.
\<close>

theorem unknown_task_misreported:
  assumes "get_status fuel me k t s = (Inr (404, v), s')"
  shows "format_status_reply (JStr t) v full after_wait =
    Inr (QUESTION @ '' Task '' @ task_quoted (JStr t) @ '' has an unrecognised status: None'')"
proof -
  have "v = JObj [(''error'', JStr ''task not found''), (''task_id'', JStr t)]"
    using assms
    by (auto simp: get_status_def endpoint_def status_answer_def act_simps chain_def split: prod.splits sum.splits option.splits if_splits)
  then show ?thesis by (simp add: format_status_reply_def dget_or_Cons Let_def)
qed

section \<open>The agent with a language model\<close>

fun tool_ids :: "block list \<Rightarrow> json list" where
  "tool_ids [] = []"
| "tool_ids (Tool_use i n v # bs) = JStr i # tool_ids bs"
| "tool_ids (b # bs) = tool_ids bs"

text \<open>Every call of a tool gets its result, in the order of the calls.\<close>

lemma every_tool_answered:
  "for_each bs (run_block w base) acc s = (Inr acc', s') \<Longrightarrow>
     List.map (\<lambda>r. dget (dict_of r) ''tool_use_id'') (fst acc') =
     List.map (\<lambda>r. dget (dict_of r) ''tool_use_id'') (fst acc) @ tool_ids bs"
proof (induction bs arbitrary: acc s)
  case Nil
  then show ?case by (simp add: act_simps)
next
  case (Cons b bs)
  then obtain acc1 s1 where one: "run_block w base b acc s = (Inr acc1, s1)" "for_each bs (run_block w base) acc1 s1 = (Inr acc', s')"
    by (auto simp: act_simps split: prod.splits sum.splits)
  have "List.map (\<lambda>r. dget (dict_of r) ''tool_use_id'') (fst acc1) =
      List.map (\<lambda>r. dget (dict_of r) ''tool_use_id'') (fst acc) @ tool_ids [b]"
    using one(1) by (cases b) (auto simp: run_block_def act_simps dget_or_Cons split: prod.splits sum.splits)
  then show ?case using Cons.IH [OF one(2)] by (cases b) simp_all
qed

text \<open>A tool never raises: its failure is the result that the model sees.\<close>

lemma tool_never_raises: "execute_tool w base tool args s = (Inl e, s') \<Longrightarrow> e = OutOfFuel"
  by (auto simp: execute_tool_def catch_def ret_def Let_def split: prod.splits sum.splits if_splits)

text \<open>
  The rounds are bounded. When the model still asks for tools in the last of them, the last
  message is the results, and the answer to the user is empty.
\<close>

lemma tool_loop_length:
  "tool_loop w base create n ms prior s = (Inr (ms', action), s') \<Longrightarrow> length ms' \<le> length ms + 2 * n"
proof (induction n arbitrary: ms prior s)
  case 0
  then show ?case by (simp add: act_simps)
next
  case (Suc n)
  then show ?case
    by (fastforce simp: act_simps Let_def split: prod.splits sum.splits if_splits)
qed

lemma tool_loop_exhausted:
  assumes "\<And>ms s stop bs s'. create ms s = (Inr (stop, bs), s') \<Longrightarrow> stop = ''tool_use''"
  shows "tool_loop w base create n ms prior s = (Inr (ms', action), s') \<Longrightarrow> dget (dict_of (last ms)) ''role'' = JStr ''user'' \<Longrightarrow>
    dget (dict_of (last ms')) ''role'' = JStr ''user''"
proof (induction n arbitrary: ms prior s)
  case 0
  then show ?case by (simp add: act_simps)
next
  case (Suc n)
  obtain stop bs s1 where c: "create ms s = (Inr (stop, bs), s1)"
    using Suc.prems(1) by (auto simp: act_simps split: prod.splits sum.splits)
  then have "stop = ''tool_use''" by (rule assms)
  with c Suc.prems(1) obtain ms1 prior1 s2 where "tool_loop w base create n ms1 prior1 s2 = (Inr (ms', action), s')"
    "dget (dict_of (last ms1)) ''role'' = JStr ''user''"
    by (auto simp: act_simps Let_def message_of_def dget_or_Cons split: prod.splits sum.splits)
  then show ?case by (rule Suc.IH)
qed

theorem empty_answer:
  assumes "\<And>ms s stop bs s'. create ms s = (Inr (stop, bs), s') \<Longrightarrow> stop = ''tool_use''"
    and "hosted_chat w base create key h m s = (Inr t, s')"
  shows "turn_reply t = [] \<and> length (turn_history t) \<le> length h + 13"
proof -
  obtain ms action s1 where loop:
    "tool_loop w base create MAX_TOOL_ITERATIONS (h @ [message_of ''user'' m]) JNull s = (Inr (ms, action), s1)"
    "turn_history t = ms"
    "lift (if dget (dict_of (last ms)) ''role'' = JStr ''assistant'' then extract_text (dget (dict_of (last ms)) ''content'') else Inr []) s1 =
       (Inr (turn_reply t), s')"
    using assms(2) by (auto simp: hosted_chat_def act_simps Let_def split: if_splits prod.splits sum.splits)
  have "dget (dict_of (last ms)) ''role'' = JStr ''user''"
    using tool_loop_exhausted [OF assms(1) loop(1)] by (simp add: message_of_def dget_or_Cons)
  then have "turn_reply t = []" using loop(3) by (simp add: act_simps)
  moreover have "length ms \<le> length h + 13"
    using tool_loop_length [OF loop(1)] by (simp add: MAX_TOOL_ITERATIONS_def)
  ultimately show ?thesis using loop(2) by simp
qed

end
