(* ===== verification/RingViews.thy ===== *)
theory RingViews
  imports AgentLoop Jobs Files
begin

text \<open>
  What \<open>chord/server.py\<close> shows of the ring: the map of all processes, the numbers of processes as
  one process estimates them, the jobs, the snapshot of the metrics, and the port for one more
  process. Every request to another process is one HTTP attempt; a process that does not answer
  is passed over. \<open>n\<close> bounds the addresses taken from the queue of a walk.
\<close>

section \<open>The map of the ring\<close>

type_synonym ring_node = "node_state \<times> node_metrics option"

text \<open>The state of a process and its metrics; a failure of the second request is ignored.\<close>

definition look_at :: "string \<Rightarrow> string \<Rightarrow> ('z net_scheme, ring_node option) act" where
  "look_at own a =
     (if a = own then read_node a (\<lambda>nd. Some (state nd, Some (metrics nd)))
      else catch
        (andthen (http_attempt a (h_state a)) (\<lambda>st.
         case st of
           Status _ \<Rightarrow> ret None
         | Ok x \<Rightarrow>
             andthen (catch (andthen (http_attempt a (h_metrics a)) (\<lambda>m.
                 ret (case m of Ok y \<Rightarrow> Some y | Status _ \<Rightarrow> None)))
               (\<lambda>_. ret None)) (\<lambda>m.
             ret (Some (x, m)))))
        (\<lambda>_. ret None))"

fun map_walk :: "nat \<Rightarrow> string \<Rightarrow> string list \<Rightarrow> string list \<Rightarrow> ring_node list \<Rightarrow> ('z net_scheme, ring_node list) act" where
  "map_walk n own visited [] views = ret views"
| "map_walk 0 own visited (a # q) views = throw OutOfFuel"
| "map_walk (Suc n) own visited (a # q) views =
     (if a \<in> set visited then map_walk n own visited q views
      else
        andthen (look_at own a) (\<lambda>v.
        case v of
          None \<Rightarrow> map_walk n own (a # visited) q views
        | Some (st, m) \<Rightarrow>
            if st_node_id st \<in> set (List.map (\<lambda>f. st_node_id (fst f)) views) then map_walk n own (a # visited) q views
            else map_walk n own (a # visited)
                   (q @ new_addresses (a # visited) (known_addresses (st_successor st) (st_fingers st))) (views @ [(st, m)])))"

definition api_ring :: "nat \<Rightarrow> string \<Rightarrow> ('z net_scheme, ring_node list \<times> int) act" where
  "api_ring n me =
     andthen (read_node me (\<lambda>nd. (address nd, node_id nd))) (\<lambda>(own, i).
     andthen (map_walk n own [] [own] []) (\<lambda>views. ret (views, i)))"

section \<open>Estimates\<close>

definition ring_size_estimate :: "chord_node \<Rightarrow> nat" where
  "ring_size_estimate nd = length (filter (\<lambda>f. finger_id f \<noteq> node_id nd) (fingers nd)) + 1"

record node_status =
  ns_node_id :: int
  ns_address :: string
  ns_successor :: nref
  ns_predecessor :: "nref option"
  ns_metrics :: "int \<times> int \<times> int"
  ns_ring_size :: nat

definition api_status :: "chord_node \<Rightarrow> node_status" where
  "api_status nd =
     (let m = metrics nd in
      \<lparr>ns_node_id = node_id nd, ns_address = address nd, ns_successor = successor nd, ns_predecessor = predecessor nd,
       ns_metrics = (m_queue_depth m, m_jobs_completed m, m_jobs_failed m), ns_ring_size = ring_size_estimate nd\<rparr>)"

definition api_nodes_count :: "chord_node \<Rightarrow> nat" where
  "api_nodes_count nd = length (remdups (node_id nd # List.map finger_id (fingers nd)))"

section \<open>Jobs\<close>

definition api_jobs_local :: "string \<Rightarrow> ('z net_scheme, jdict list) act" where
  "api_jobs_local a = read_node a (jobs_with None)"

text \<open>Equality of keys of a Python dictionary, and \<open>d[k] = v\<close>.\<close>

definition same_key :: "json \<Rightarrow> json \<Rightarrow> bool" where
  "same_key a b \<longleftrightarrow> a = b \<or> (num_of a \<noteq> None \<and> num_of a = num_of b)"

fun put_job :: "json \<Rightarrow> jdict \<Rightarrow> (json \<times> jdict) list \<Rightarrow> (json \<times> jdict) list" where
  "put_job k j [] = [(k, j)]"
| "put_job k j ((k', j') # rest) = (if same_key k k' then (k', j) # rest else (k', j') # put_job k j rest)"

text \<open>The jobs of one process; one whose identifier cannot be a key ends the loop over them.\<close>

fun add_jobs :: "jdict list \<Rightarrow> (json \<times> jdict) list \<Rightarrow> (json \<times> jdict) list" where
  "add_jobs [] views = views"
| "add_jobs (j # js) views =
     (let jid = dget j ''job_id'' in
      if \<not> truthy jid \<or> truthy (dget j ''replica_of'') then add_jobs js views
      else if is_list jid \<or> is_dict jid then views
      else add_jobs js (put_job jid j views))"

text \<open>The addresses are a set: \<open>order\<close> is the order in which Python iterates over it.\<close>

definition api_jobs :: "(string list \<Rightarrow> string list) \<Rightarrow> string \<Rightarrow> ('z net_scheme, jdict list) act" where
  "api_jobs order me =
     andthen (read_node me (\<lambda>nd. (address nd, remdups (address nd # new_addresses [] (List.map finger_addr (fingers nd)))))) (\<lambda>(own, addrs).
     andthen (for_each (order addrs) (\<lambda>a views.
       catch
         (if a = own then andthen (api_jobs_local a) (\<lambda>js. ret (add_jobs js views))
          else andthen (http_attempt a (andthen (api_jobs_local a) (\<lambda>js. ret (Ok js)))) (\<lambda>r.
               ret (case r of Ok js \<Rightarrow> add_jobs js views | Status _ \<Rightarrow> views)))
         (\<lambda>_. ret views)) []) (\<lambda>views.
     andthen (lift (newest_first (List.map snd views))) (\<lambda>js. ret (take 60 js))))"

section \<open>The snapshot of the metrics\<close>

text \<open>After a new process the walk goes on with a finger of this process, the first that is new.\<close>

definition next_finger :: "int list \<Rightarrow> string list \<Rightarrow> chord_node \<Rightarrow> string list" where
  "next_finger seen visited nd =
     (case List.find (\<lambda>f. finger_id f \<notin> set seen \<and> finger_addr f \<noteq> [] \<and> finger_addr f \<notin> set visited) (fingers nd) of
        Some f \<Rightarrow> [finger_addr f]
      | None \<Rightarrow> [])"

definition fetch_metrics :: "string \<Rightarrow> string \<Rightarrow> ('z net_scheme, node_metrics option) act" where
  "fetch_metrics own a =
     (if a = own then read_node a (\<lambda>nd. Some (metrics nd))
      else catch (andthen (http_attempt a (h_metrics a)) (\<lambda>r. ret (case r of Ok m \<Rightarrow> Some m | Status _ \<Rightarrow> None)))
        (\<lambda>_. ret None))"

fun load_walk :: "nat \<Rightarrow> string \<Rightarrow> string list \<Rightarrow> string list \<Rightarrow> node_metrics list \<Rightarrow> ('z net_scheme, node_metrics list) act" where
  "load_walk n own visited [] ms = ret ms"
| "load_walk 0 own visited (a # q) ms = throw OutOfFuel"
| "load_walk (Suc n) own visited (a # q) ms =
     (if a \<in> set visited then load_walk n own visited q ms
      else
        andthen (fetch_metrics own a) (\<lambda>m.
        case m of
          None \<Rightarrow> load_walk n own (a # visited) q ms
        | Some x \<Rightarrow>
            if m_node_id x \<in> set (List.map m_node_id ms) then load_walk n own (a # visited) q ms
            else
              andthen (read_node own (next_finger (List.map m_node_id (ms @ [x])) (a # visited))) (\<lambda>new.
              load_walk n own (a # visited) (q @ new) (ms @ [x]))))"

record ring_load =
  rl_req_per_min :: nat
  rl_avg_hops :: rat
  rl_hop_dist :: "nat dict"
  rl_loads :: "(int \<times> int) list"
  rl_total :: nat
  rl_completed :: int
  rl_failed :: int
  rl_running :: int
  rl_size :: nat

definition hops_of :: "json \<Rightarrow> rat" where
  "hops_of r = (case num_of (dget_or (JInt 1) (dict_of r) ''hops'') of Some q \<Rightarrow> q | None \<Rightarrow> 0)"

definition ts_of :: "json \<Rightarrow> rat" where
  "ts_of r = (case num_of (dget (dict_of r) ''ts'') of Some q \<Rightarrow> q | None \<Rightarrow> 0)"

text \<open>How many requests took how many hops; the log holds the entries that requests for files wrote.\<close>

definition count_hops :: "json list \<Rightarrow> nat dict" where
  "count_hops reqs = fold (\<lambda>r d.
     let h = show_value (dget_or (JInt 1) (dict_of r) ''hops'') in
     dset h (Suc (case map_of d h of Some c \<Rightarrow> c | None \<Rightarrow> 0)) d) reqs []"

definition ring_snapshot :: "nat \<Rightarrow> string \<Rightarrow> ('z files_scheme, ring_load) act" where
  "ring_snapshot n me =
     andthen (gets (\<lambda>s. (seconds (clock s), request_log s))) (\<lambda>(now, reqs).
     andthen (read_node me address) (\<lambda>own.
     andthen (load_walk n own [] [own] []) (\<lambda>ms.
     let recent = drop (length reqs - 30) reqs in
     ret \<lparr>rl_req_per_min = length (filter (\<lambda>r. now - ts_of r < 60) reqs),
          rl_avg_hops = (if recent = [] then 0
            else of_int (round_half_even (sum_list (List.map hops_of recent) / of_nat (length recent) * 100)) / 100),
          rl_hop_dist = count_hops reqs,
          rl_loads = List.map (\<lambda>m. (m_node_id m, m_queue_depth m)) ms, rl_total = length reqs,
          rl_completed = sum_list (List.map m_jobs_completed ms), rl_failed = sum_list (List.map m_jobs_failed ms),
          rl_running = sum_list (List.map m_queue_depth ms), rl_size = length ms\<rparr>)))"

section \<open>The map is complete\<close>

definition view_of :: "'z net_scheme \<Rightarrow> string \<Rightarrow> ring_node" where
  "view_of s a = (state (the (nodes s a)), Some (metrics (the (nodes s a))))"

lemma view_of_later [simp]: "view_of (later m c s) = view_of s"
  by (simp add: view_of_def fun_eq_iff)

lemma addresses_later [simp]: "addresses A (later m c s) = addresses A s"
  by (simp add: addresses_frame)

lemma covered_later [simp]: "covered A clean X Y (later m c s) = covered A clean X Y s"
  by (simp add: covered_def)

lemma http_perfect:
  assumes "perfect s" and "nodes s a \<noteq> None" and "h (later 1 0 s) = (Inr r, later 1 0 s)"
  shows "http_attempt a h s = (Inr r, later 1 0 s)"
  using assms by (auto simp: http_attempt_def Let_def perfect_def serve_def later_def act_simps)

lemma look_at_run:
  assumes net: "perfect s" and nd: "nodes s a = Some nd"
  obtains m where "look_at own a s = (Inr (Some (view_of s a)), later m 0 s)"
proof (cases "a = own")
  case True
  with nd show thesis by (intro that [of 0]) (simp add: look_at_def act_simps view_of_def later_0)
next
  case False
  have "http_attempt a (h_state a) s = (Inr (Ok (state nd)), later 1 0 s)"
    by (rule http_perfect) (use net nd in \<open>simp_all add: h_state_def act_simps\<close>)
  moreover have "http_attempt a (h_metrics a) (later 1 0 s) = (Inr (Ok (metrics nd)), later 1 0 (later 1 0 s))"
    by (rule http_perfect) (use net nd in \<open>simp_all add: h_metrics_def act_simps\<close>)
  ultimately show thesis
    using False nd by (intro that [of 2]) (simp add: look_at_def act_simps view_of_def numeral_2_eq_2)
qed

text \<open>
  The walk in progress: every process visited is shown, newest last, and its successor visited or
  queued; \<open>room\<close> is what the rest of the walk can take from the queue.
\<close>

definition mapping_on :: "string set \<Rightarrow> 'z net_scheme \<Rightarrow> string list \<Rightarrow> string list \<Rightarrow> bool" where
  "mapping_on A s visited q \<longleftrightarrow>
     distinct visited \<and> set visited \<subseteq> addresses A s \<and> set q \<subseteq> addresses A s \<and>
     covered A (\<lambda>_. True) (set visited) (set visited \<union> set q) s"

definition room :: "string set \<Rightarrow> 'z net_scheme \<Rightarrow> string list \<Rightarrow> string list \<Rightarrow> nat" where
  "room A s visited q = length q + 9 * card (addresses A s - set visited)"

lemma mapping_step:
  assumes st: "stable A s" and empty: "[] \<notin> A" and on: "mapping_on A s visited (a # q)" and new: "a \<notin> set visited"
    and a: "member A s a nd" and L: "L = new_addresses (a # visited) (known_addresses (successor nd) (fingers nd))"
  shows "mapping_on A s (a # visited) (q @ L)" "room A s (a # visited) (q @ L) < room A s visited (a # q)"
proof -
  have known: "set (known_addresses (successor nd) (fingers nd)) \<subseteq> addresses A s" "length (fingers nd) = 8"
    "ref_addr (successor nd) \<in> addresses A s"
    using known_members [OF st a] by simp_all
  have "set L \<subseteq> set (known_addresses (successor nd) (fingers nd))"
    "length L \<le> length (known_addresses (successor nd) (fingers nd))"
    by (simp_all add: L new_addresses_def)
  then have L9: "set L \<subseteq> addresses A s" "length L \<le> 9"
    using known(1,2) by (auto simp: known_addresses_def)
  have "ref_addr (successor nd) \<noteq> []" using known(3) empty by (auto simp: addresses_def member_def)
  then have succ: "ref_addr (successor nd) \<in> set (a # visited) \<union> set L"
    by (auto simp: L new_addresses_def known_addresses_def)
  have "covered A (\<lambda>_. True) (set (a # visited)) (set (a # visited) \<union> set (q @ L)) s"
    unfolding covered_def
  proof (intro ballI allI impI conjI TrueI)
    fix b n assume b: "b \<in> set (a # visited)" and n: "member A s b n"
    show "ref_addr (successor n) \<in> set (a # visited) \<union> set (q @ L)"
    proof (cases "b = a")
      case True
      with succ n a show ?thesis by (auto dest: member_inj)
    next
      case False
      with b n on show ?thesis by (auto simp: mapping_on_def covered_def)
    qed
  qed
  moreover have "a \<in> addresses A s" using a by (auto simp: addresses_def)
  ultimately show "mapping_on A s (a # visited) (q @ L)"
    using on new L9(1) by (simp add: mapping_on_def)
  have "card (addresses A s - set (a # visited)) + 1 \<le> card (addresses A s - set visited)"
    using card_less_one [OF addresses_card(1) [OF st] \<open>a \<in> addresses A s\<close> new] by (simp only: list.set)
  then show "room A s (a # visited) (q @ L) < room A s visited (a # q)" using L9(2) by (simp add: room_def)
qed

lemma map_walk_ok:
  assumes "stable A s" and "perfect s" and empty: "[] \<notin> A" and "mapping_on A s visited q" and "room A s visited q \<le> n"
  shows "\<exists>xs m. map_walk n own visited q (List.map (view_of s) (rev visited)) s = (Inr (List.map (view_of s) xs), later m 0 s) \<and>
    distinct xs \<and> set visited \<union> set q \<subseteq> set xs \<and> set xs \<subseteq> addresses A s \<and> covered A (\<lambda>_. True) (set xs) (set xs) s"
  using assms(1,2,4,5)
proof (induction n arbitrary: visited q s)
  case 0
  then show ?case
    by (intro exI [of _ "rev visited"] exI [of _ 0]) (simp add: act_simps room_def mapping_on_def later_0)
next
  case (Suc n)
  note prems = Suc.prems
  show ?case
  proof (cases q)
    case Nil
    then show ?thesis
      using prems by (intro exI [of _ "rev visited"] exI [of _ 0]) (simp add: act_simps mapping_on_def later_0)
  next
    case (Cons a q')
    show ?thesis
    proof (cases "a \<in> set visited")
      case True
      then have "mapping_on A s visited q'" using prems(3) Cons by (simp add: mapping_on_def insert_absorb)
      from Suc.IH [OF prems(1,2) this] prems(4) Cons show ?thesis using True by (fastforce simp: room_def)
    next
      case False
      obtain nd where a: "member A s a nd" using prems(3) Cons by (auto simp: mapping_on_def addresses_def)
      obtain m where look: "look_at own a s = (Inr (Some (view_of s a)), later m 0 s)"
        by (rule look_at_run [OF prems(2) memberD(1) [OF a]])
      have view: "view_of s a = (state nd, Some (metrics nd))" using memberD(1) [OF a] by (simp add: view_of_def)
      let ?L = "new_addresses (a # visited) (known_addresses (successor nd) (fingers nd))"
      have fresh: "node_id nd \<notin> set (List.map (\<lambda>f. st_node_id (fst f)) (List.map (view_of s) (rev visited)))"
      proof
        assume "node_id nd \<in> set (List.map (\<lambda>f. st_node_id (fst f)) (List.map (view_of s) (rev visited)))"
        then obtain b where b: "b \<in> set visited" "node_id nd = node_id (the (nodes s b))"
          by (auto simp: view_of_def state_def)
        then obtain nb where "member A s b nb" using prems(3) by (auto simp: mapping_on_def addresses_def)
        with b a have "b = a" using prems(1) unfolding stable_def by (metis memberD(1) option.sel)
        with b(1) False show False by simp
      qed
      note step = mapping_step [OF prems(1) empty prems(3) [unfolded Cons] False a refl]
      have "mapping_on A (later m 0 s) (a # visited) (q' @ ?L)" "room A (later m 0 s) (a # visited) (q' @ ?L) \<le> n"
        using step prems(4) Cons by (simp_all add: mapping_on_def room_def)
      from Suc.IH [OF _ _ this] prems(1,2) obtain xs m' where
        "map_walk n own (a # visited) (q' @ ?L) (List.map (view_of s) (rev (a # visited))) (later m 0 s)
           = (Inr (List.map (view_of s) xs), later m' 0 (later m 0 s))"
        "distinct xs" "set (a # visited) \<union> set (q' @ ?L) \<subseteq> set xs" "set xs \<subseteq> addresses A s" "covered A (\<lambda>_. True) (set xs) (set xs) s"
        by (auto simp: stable_later)
      with look view fresh False Cons show ?thesis
        by (intro exI [of _ xs] exI [of _ "m + m'"]) (simp add: act_simps state_def add.commute)
    qed
  qed
qed

section \<open>The snapshot sees its own fingers only\<close>

definition near :: "chord_node \<Rightarrow> string set" where
  "near nd = insert (address nd) (finger_addr ` set (fingers nd))"

lemma next_finger_near: "set (next_finger seen visited nd) \<subseteq> near nd"
  by (auto simp: next_finger_def near_def find_Some_iff find_Some_iff2 split: option.splits)

lemma fetch_metrics_nodes:
  assumes "fetch_metrics own a s = (r, s')"
  shows "nodes s' = nodes s"
proof -
  have "keeps (\<lambda>t. nodes t = nodes s) (fetch_metrics own a)"
    unfolding fetch_metrics_def h_metrics_def
    by (auto intro!: keeps_intro simp: keeps_def read_node_def on_node_def set_node_def http_attempt_def Let_def serve_def act_simps
        split: option.splits delivery.splits sum.splits)
  from keepsD [OF this, of s] assms show ?thesis by simp
qed

lemma near_count:
  "set visited \<subseteq> near nd \<Longrightarrow> distinct visited \<Longrightarrow> length ms \<le> length visited \<Longrightarrow> length ms \<le> card (near nd)"
  using card_mono [of "near nd" "set visited"] by (simp add: near_def distinct_card)

lemma load_walk_near:
  assumes "load_walk n (address nd) visited q ms s = (Inr ms', s')" and "nodes s (address nd) = Some nd"
    and "set q \<subseteq> near nd" and "set visited \<subseteq> near nd" and "distinct visited" and "length ms \<le> length visited"
  shows "length ms' \<le> card (near nd)"
  using assms
proof (induction n arbitrary: visited q ms s)
  case 0
  then show ?case using near_count by (cases q) (auto simp: act_simps)
next
  case (Suc n)
  note prems = Suc.prems
  show ?case
  proof (cases q)
    case Nil
    with prems near_count show ?thesis by (auto simp: act_simps)
  next
    case (Cons a q')
    show ?thesis
    proof (cases "a \<in> set visited")
      case True
      with prems Cons show ?thesis by (intro Suc.IH [of visited q' ms s]) auto
    next
      case False
      obtain r s1 where r: "fetch_metrics (address nd) a s = (r, s1)" by force
      then have node: "nodes s1 (address nd) = Some nd" using prems(2) fetch_metrics_nodes by metis
      consider (old) "load_walk n (address nd) (a # visited) q' ms s1 = (Inr ms', s')"
        | (new) x seen where "load_walk n (address nd) (a # visited) (q' @ next_finger seen (a # visited) nd) (ms @ [x]) s1 = (Inr ms', s')"
        using prems(1) Cons False r node by (cases r) (auto simp: run_andthen act_simps split: option.splits if_splits)
      then show ?thesis
      proof cases
        case old
        with prems Cons False node show ?thesis by (intro Suc.IH [of "a # visited" q' ms s1]) auto
      next
        case new
        with prems Cons False node next_finger_near show ?thesis
          by (intro Suc.IH [OF new node]) auto
      qed
    qed
  qed
qed

text \<open>
  The number of processes that the snapshot of the metrics reports is bounded by what one finger
  table names: from any state and over any network, \<open>ring_size\<close> is at most nine, however many
  processes the ring has.
\<close>

theorem snapshot_size_bound:
  assumes "ring_snapshot n me s = (Inr r, s')" and "nodes s me = Some nd" and "address nd = me" and "length (fingers nd) = M"
  shows "rl_size r \<le> 9"
proof -
  obtain ms where walk: "load_walk n me [] [me] [] s = (Inr ms, s')" and r: "rl_size r = length ms"
    using assms(1-3) by (auto simp: ring_snapshot_def act_simps run_andthen Let_def split: sum.splits prod.splits)
  have "card (near nd) \<le> Suc (card (finger_addr ` set (fingers nd)))" by (simp add: near_def card_insert_if)
  also have "\<dots> \<le> Suc (length (fingers nd))" using card_image_le [of "set (fingers nd)"] card_length le_trans by fastforce
  finally have "card (near nd) \<le> 9" using assms(4) by (simp add: M_def)
  moreover have "length ms \<le> card (near nd)"
    using load_walk_near [of n nd "[]" "[me]" "[]" s ms s'] walk assms(2,3) by (simp add: near_def)
  ultimately show ?thesis using r by simp
qed

text \<open>
  The map of the ring is complete: in a stable ring over a network that delivers every
  request, \<open>/api/ring\<close> at any member shows the state and the metrics of every member, each
  exactly once, and the walk ends within 2313 addresses.
\<close>

theorem api_ring_complete:
  assumes st: "stable A s" and net: "perfect s" and empty: "[] \<notin> A" and me: "member A s me nd" and n: "2313 \<le> n"
  shows "\<exists>xs m. api_ring n me s = (Inr (List.map (view_of s) xs, node_id nd), later m 0 s) \<and> distinct xs \<and>
    set xs = addresses A s"
proof -
  have own: "address nd = me" using known_members(3) [OF st me] .
  have on: "mapping_on A s [] [me]" using me by (auto simp: mapping_on_def covered_def addresses_def)
  have "room A s [] [me] \<le> n" using addresses_card(2) [OF st] n by (simp add: room_def)
  from map_walk_ok [OF st net empty on this, of me] obtain xs m where
    run: "map_walk n me [] [me] [] s = (Inr (List.map (view_of s) xs), later m 0 s)"
    and xs: "distinct xs" "set xs \<subseteq> addresses A s" "covered A (\<lambda>_. True) (set xs) (set xs) s" "me \<in> set xs" by auto
  have "set xs = addresses A s" by (intro covered_all [OF st xs(2) _ xs(3)]) (use xs(4) in auto)
  with run xs(1) memberD(1) [OF me] own show ?thesis by (auto simp: api_ring_def act_simps)
qed

theorem api_ring_complete_witness:
  "\<exists>xs m. api_ring 2313 ''a'' demo_tasks = (Inr (List.map (view_of demo_tasks) xs, 10), later m 0 demo_tasks) \<and>
    distinct xs \<and> set xs = {''a'', ''b''}"
proof -
  have "addresses {''a'', ''b''} demo_tasks = {''a'', ''b''}"
    using demo_tasks_ready(4,5) by (auto simp: addresses_def member_def)
  then show ?thesis
    using api_ring_complete [OF demo_tasks_ready(1-4) order_refl] by (simp add: demo10_def)
qed

lemma snapshot_size_bound_witness:
  "\<exists>r s'. ring_snapshot 10 ''a'' demo_files = (Inr r, s') \<and> rl_size r \<le> 9"
proof -
  have node: "nodes demo_files ''a'' = Some demo_one" "address demo_one = ''a''" "length (fingers demo_one) = M"
    by (simp_all add: demo_files_def demo_one_def demo_node_def M_def)
  have "\<exists>ms s'. load_walk 10 ''a'' [] [''a''] [] demo_files = (Inr ms, s')"
  proof -
    have "next_finger [10] [''a''] demo_one = []"
      by code_simp
    then show ?thesis
      using node by (simp add: numeral_eq_Suc act_simps fetch_metrics_def metrics_def demo_one_def demo_node_def)
  qed
  then obtain ms s' where "load_walk 10 ''a'' [] [''a''] [] demo_files = (Inr ms, s')" by blast
  then have "\<exists>r. ring_snapshot 10 ''a'' demo_files = (Inr r, s')"
    using node by (simp add: ring_snapshot_def act_simps Let_def)
  then show ?thesis using snapshot_size_bound [OF _ node] by blast
qed

text \<open>
  The two estimates of the number of processes differ: in a ring of two, \<open>/api/status\<close> counts
  the fingers that name the other process and \<open>/api/nodes/count\<close> the identifiers.
\<close>

lemma estimates_differ: "api_nodes_count demo10 = 2 \<and> ring_size_estimate demo10 = 8"
  by code_simp

end
