(* ===== verification/DecisionLog.thy ===== *)
theory DecisionLog
  imports Agents Conversation
begin

text \<open>
  The agents of \<open>chord/agent.py\<close> as they run: the prompt, the call of the hosted language model with a
  forced tool, the fall-back on the heuristic, and the log of decisions, a file of JSON lines that
  is cut to its newest lines when it has grown too large. The client is a parameter: it maps the
  schema's name and the prompt to the blocks of the answer, or raises. \<open>latency\<close> is the measured
  time, rounded; \<open>can_write\<close> says whether the file can be opened for appending. The state is the file,
  if there is one; \<open>json.dumps\<close> writes ASCII, so a character is a byte.
\<close>

section \<open>Lines\<close>

text \<open>\<open>str.splitlines()\<close> on the first 256 code points\<close>

definition is_break :: "char \<Rightarrow> bool" where
  "is_break c \<longleftrightarrow> (let n = of_char c :: nat in (10 \<le> n \<and> n \<le> 13) \<or> (28 \<le> n \<and> n \<le> 30) \<or> n = 133)"

function split_lines :: "string \<Rightarrow> string \<Rightarrow> string list" where
  "split_lines acc [] = (if acc = [] then [] else [acc])"
| "split_lines acc (c # cs) =
     (if is_break c then
        acc # split_lines [] (case cs of d # ds \<Rightarrow> if c = CHR 0x0D \<and> d = CHR 0x0A then ds else cs | [] \<Rightarrow> cs)
      else split_lines (acc @ [c]) cs)"
  by pat_completeness auto
termination
  by (relation "measure (\<lambda>(acc, s). length s)") (auto split: list.splits)

definition splitlines :: "string \<Rightarrow> string list" where
  "splitlines = split_lines []"

text \<open>\<open>xs[-n:]\<close> for a positive \<open>n\<close>\<close>

definition newest :: "nat \<Rightarrow> 'a list \<Rightarrow> 'a list" where
  "newest n xs = drop (length xs - n) xs"

section \<open>The log\<close>

definition LOG_KEEP_LINES :: nat where "LOG_KEEP_LINES = 5000"

definition rotate_log :: "nat \<Rightarrow> bool \<Rightarrow> string option \<Rightarrow> string option" where
  "rotate_log max_bytes can_write file =
     (case file of
        Some content \<Rightarrow>
          if max_bytes < length content \<and> can_write then
            Some (joined NL (newest LOG_KEEP_LINES (splitlines content)) @ NL)
          else Some content
      | None \<Rightarrow> None)"

definition decision_record :: "rat \<Rightarrow> string \<Rightarrow> string \<Rightarrow> jdict \<Rightarrow> json \<Rightarrow> string \<Rightarrow> rat \<Rightarrow> json" where
  "decision_record now agent tool summary decision strategy latency =
     JObj [(''ts'', JFloat now), (''agent'', JStr agent), (''tool'', JStr tool), (''strategy'', JStr strategy),
           (''inputs_summary'', JObj summary), (''decision'', decision), (''latency_ms'', JFloat latency)]"

definition log_line :: "nat \<Rightarrow> bool \<Rightarrow> json \<Rightarrow> (string option, unit) act" where
  "log_line max_bytes can_write entry = (\<lambda>file.
     let file' = rotate_log max_bytes can_write file in
     if can_write then (Inr (), Some ((case file' of Some content \<Rightarrow> content | None \<Rightarrow> []) @ dumps entry @ NL))
     else (Inl (FatalError ''cannot open the log''), file'))"

section \<open>The language model\<close>

fun tool_input :: "string \<Rightarrow> block list \<Rightarrow> exn + json" where
  "tool_input tool [] = Inl (RuntimeError (''No tool_use block returned for '' @ tool))"
| "tool_input tool (b # bs) =
     (case b of
        Tool_use i n v \<Rightarrow> if n = tool then Inr v else tool_input tool bs
      | _ \<Rightarrow> tool_input tool bs)"

definition llm_call :: "(string \<Rightarrow> string \<Rightarrow> exn + block list) \<Rightarrow> string \<Rightarrow> string \<Rightarrow> exn + json" where
  "llm_call client tool prompt = chain (client tool prompt) (tool_input tool)"

text \<open>\<open>AGENT_STRATEGY\<close>, in lower case; \<open>llm\<close> when it is not set.\<close>

definition STRATEGY :: "string option \<Rightarrow> string" where
  "STRATEGY setting = lower (case setting of Some s \<Rightarrow> s | None \<Rightarrow> ''llm'')"

text \<open>
  The decision and how it was made. Making the prompt is part of what falls back on the heuristic;
  the heuristic itself may raise.
\<close>

definition decide ::
  "(string \<Rightarrow> string \<Rightarrow> exn + block list) option \<Rightarrow> string \<Rightarrow> string \<Rightarrow> exn + string \<Rightarrow> exn + json \<Rightarrow> exn + json \<times> string" where
  "decide client strategy tool prompt heuristic =
     (case client of
        Some ask \<Rightarrow>
          if strategy = ''llm'' then
            (case chain prompt (llm_call ask tool) of
               Inr v \<Rightarrow> Inr (v, strategy)
             | Inl e \<Rightarrow> chain heuristic (\<lambda>v. Inr (v, ''heuristic_fallback'')))
          else chain heuristic (\<lambda>v. Inr (v, ''heuristic''))
      | None \<Rightarrow> chain heuristic (\<lambda>v. Inr (v, ''heuristic'')))"

section \<open>The prompts\<close>

text \<open>\<open>{job['k']}\<close> in an f-string\<close>

definition shown :: "jdict \<Rightarrow> string \<Rightarrow> exn + string" where
  "shown job k = chain (dindex job k) (\<lambda>v. Inr (py_str v))"

definition survivor_row :: "node_metrics \<Rightarrow> string" where
  "survivor_row m =
     ''  node_id='' @ show_int (m_node_id m) @ '' queue_depth='' @ show_int (m_queue_depth m) @ '' failed='' @ show_int (m_jobs_failed m)"

definition placement_row :: "node_metrics \<Rightarrow> string" where
  "placement_row m =
     ''  node_id='' @ show_int (m_node_id m) @ '' address='' @ m_address m @ '' queue_depth='' @ show_int (m_queue_depth m) @
     '' completed='' @ show_int (m_jobs_completed m) @ '' failed='' @ show_int (m_jobs_failed m)"

definition placement_prompt :: "jdict \<Rightarrow> node_metrics list \<Rightarrow> exn + string" where
  "placement_prompt job ms =
     chain (shown job ''type'') (\<lambda>ty.
     chain (shown job ''job_id'') (\<lambda>j.
       Inr (''Job to place: type='' @ ty @ '', id='' @ j @ NL @ NL @
            ''Available nodes:'' @ NL @ joined NL (List.map placement_row ms) @ NL @ NL @
            ''Call select_placement_node with your choice.'')))"

definition replication_prompt :: "jdict \<Rightarrow> node_metrics list \<Rightarrow> int \<Rightarrow> exn + string" where
  "replication_prompt job ms requested =
     chain (shown job ''type'') (\<lambda>ty.
     chain (shown job ''job_id'') (\<lambda>j.
       Inr (''Job: type='' @ ty @ '', id='' @ j @ NL @
            ''Requested replication factor: '' @ show_int requested @ NL @ NL @
            ''Available nodes:'' @ NL @ joined NL (List.map survivor_row ms) @ NL @ NL @
            ''Decide the replication plan. You may adjust the factor based on job type '' @
            ''and node health. Call decide_replication_plan.'')))"

fun job_rows :: "jdict list \<Rightarrow> exn + string list" where
  "job_rows [] = Inr []"
| "job_rows (job # jobs) =
     chain (shown job ''job_id'') (\<lambda>j.
     chain (shown job ''type'') (\<lambda>ty.
     chain (shown job ''status'') (\<lambda>st.
     chain (job_rows jobs) (\<lambda>rows.
       Inr ((''  job_id='' @ j @ '' type='' @ ty @ '' status='' @ st) # rows)))))"

definition recovery_prompt :: "int \<Rightarrow> jdict list \<Rightarrow> node_metrics list \<Rightarrow> exn + string" where
  "recovery_prompt gone jobs survivors =
     chain (job_rows jobs) (\<lambda>rows.
       Inr (''Node '' @ show_int gone @ '' has failed.'' @ NL @ NL @
            ''Orphaned jobs ('' @ show_nat (length jobs) @ ''):'' @ NL @ joined NL rows @ NL @ NL @
            ''Surviving nodes ('' @ show_nat (length survivors) @ ''):'' @ NL @ joined NL (List.map survivor_row survivors) @ NL @ NL @
            ''Reassign each orphaned job. Balance load; do NOT always pick the '' @
            ''Chord successor. Call plan_failure_recovery.''))"

section \<open>The agents\<close>

definition placement_json :: "placement \<Rightarrow> json" where
  "placement_json p = JObj [(''node_id'', JInt (pl_node_id p)), (''reasoning'', JStr (pl_reasoning p))]"

definition plan_json :: "jdict \<Rightarrow> int \<Rightarrow> replication_plan \<Rightarrow> json" where
  "plan_json job requested p =
     JObj [(''primary_node_id'', JInt (primary_node_id p)), (''replica_node_ids'', JList (List.map JInt (replica_node_ids p))),
           (''replication_factor'', JInt (replication_factor p)),
           (''reasoning'', JStr (''Heuristic: factor='' @ show_int (replication_factor p) @ '', '' @
              (if requested < replication_factor p then ''boosted for '' @ str_of (dget job ''type'') else ''as requested'')))]"

definition assignments_json :: "int dict \<Rightarrow> json" where
  "assignments_json d =
     JObj [(''assignments'', JObj (List.map (\<lambda>(j, n). (j, JInt n)) d)),
           (''reasoning'', JStr ''Round-robin across survivors ordered by queue_depth'')]"

text \<open>What is logged of a job: its identifier and its type.\<close>

definition job_summary :: "jdict \<Rightarrow> jdict \<Rightarrow> exn + jdict" where
  "job_summary job rest =
     chain (dindex job ''job_id'') (\<lambda>j. chain (dindex job ''type'') (\<lambda>ty. Inr ([(''job_id'', j), (''job_type'', ty)] @ rest)))"

text \<open>\<open>now\<close> is \<open>time.time()\<close>.\<close>

record surroundings =
  asked :: "(string \<Rightarrow> string \<Rightarrow> exn + block list) option"
  strategy_of :: string
  time_now :: rat
  took_ms :: rat
  log_limit :: nat
  can_append :: bool

definition logged ::
  "surroundings \<Rightarrow> string \<Rightarrow> string \<Rightarrow> exn + json \<times> string \<Rightarrow> exn + jdict \<Rightarrow> (json \<Rightarrow> exn + json) \<Rightarrow> (string option, json) act" where
  "logged env agent tool decided summary view =
     andthen (lift decided) (\<lambda>(v, strategy).
     andthen (lift summary) (\<lambda>inputs.
     andthen (lift (view v)) (\<lambda>decision.
     andthen (log_line (log_limit env) (can_append env) (decision_record (time_now env) agent tool inputs decision strategy (took_ms env))) (\<lambda>_.
       ret v))))"

definition placement_select :: "surroundings \<Rightarrow> jdict \<Rightarrow> node_metrics list \<Rightarrow> (string option, json) act" where
  "placement_select env job ms =
     (if ms = [] then throw (ValueError ''node_metrics is empty'')
      else
        logged env ''PlacementAgent'' ''select_placement_node''
          (decide (asked env) (strategy_of env) ''select_placement_node'' (placement_prompt job ms)
             (Inr (placement_json (placement_heuristic ms))))
          (job_summary job [(''node_count'', JInt (int (length ms)))]) Inr)"

definition replication_agent_plan :: "surroundings \<Rightarrow> jdict \<Rightarrow> node_metrics list \<Rightarrow> int \<Rightarrow> (string option, json) act" where
  "replication_agent_plan env job ms requested =
     (if ms = [] then throw (ValueError ''node_metrics is empty'')
      else
        logged env ''ReplicationAgent'' ''decide_replication_plan''
          (decide (asked env) (strategy_of env) ''decide_replication_plan'' (replication_prompt job ms requested)
             (Inr (plan_json job requested (replication_heuristic job ms requested))))
          (job_summary job [(''requested_replicas'', JInt requested), (''node_count'', JInt (int (length ms)))]) Inr)"

text \<open>Of a recovery only the number of the assignments is logged.\<close>

definition recovery_view :: "json \<Rightarrow> exn + json" where
  "recovery_view v =
     chain (get_of (JObj []) v ''assignments'') (\<lambda>a.
     chain (py_len a) (\<lambda>n.
       Inr (JObj [(''assignment_count'', JInt (int n)), (''reasoning'', dget_or (JStr []) (dict_of v) ''reasoning'')])))"

definition recovery_agent_plan :: "surroundings \<Rightarrow> int \<Rightarrow> jdict list \<Rightarrow> node_metrics list \<Rightarrow> (string option, json) act" where
  "recovery_agent_plan env gone jobs survivors =
     (if jobs = [] then ret (JObj [(''assignments'', JObj []), (''reasoning'', JStr ''No orphaned jobs'')])
      else if survivors = [] then
        ret (JObj [(''assignments'', JObj []), (''reasoning'', JStr (''No surviving nodes '' @ EM_DASH @ '' cannot recover''))])
      else
        logged env ''RecoveryAgent'' ''plan_failure_recovery''
          (decide (asked env) (strategy_of env) ''plan_failure_recovery'' (recovery_prompt gone jobs survivors)
             (chain (recovery_heuristic jobs survivors) (\<lambda>d. Inr (assignments_json d))))
          (Inr [(''failed_node_id'', JInt gone), (''orphaned_count'', JInt (int (length jobs))),
                (''survivor_count'', JInt (int (length survivors)))]) recovery_view)"

section \<open>The file holds whole lines\<close>

definition printable :: "char \<Rightarrow> bool" where
  "printable c \<longleftrightarrow> (let n = of_char c :: nat in 32 \<le> n \<and> n \<le> 126)"

lemma printable_no_break: "printable c \<Longrightarrow> \<not> is_break c"
  by (auto simp: printable_def is_break_def Let_def)

lemma printable_digit: "n < 10 \<Longrightarrow> printable (digit n)"
  by (simp add: printable_def digit_def)

lemma printable_show_nat: "\<forall>c \<in> set (show_nat n). printable c"
  by (induction n rule: show_nat.induct) (subst show_nat.simps, simp add: printable_digit)

lemma printable_show_int: "\<forall>c \<in> set (show_int n). printable c"
  using printable_show_nat by (auto simp: show_int_def printable_def)

lemma printable_fraction: "\<forall>c \<in> set (fraction_digits q). printable c"
proof -
  have "\<forall>c \<in> set (pad w n). printable c" for w n
    using printable_show_int by (auto simp: pad_def Let_def printable_def)
  then show ?thesis by (auto simp: fraction_digits_def Let_def printable_def dest: set_dropWhileD)
qed

lemma printable_float: "\<forall>c \<in> set (show_value (JFloat q)). printable c"
  using printable_show_int printable_fraction by (auto simp: printable_def)

lemma printable_hex: "n < 16 \<Longrightarrow> printable (hex_digit n)"
  by (auto simp: hex_digit_def printable_digit) (simp add: printable_def)

lemma printable_escape: "\<forall>x \<in> set (escape c). printable x"
proof (cases "map_of short_escapes c")
  case None
  have "(of_char c :: nat) < 256" by simp
  then have "(of_char c :: nat) div 16 < 16" by (intro less_mult_imp_div_less) simp
  then show ?thesis
    using None printable_hex [of "of_char c div 16"] printable_hex [of "of_char c mod 16"]
    by (auto simp: escape_def Let_def printable_def BACKSLASH_def)
next
  case (Some e)
  then have "(c, e) \<in> set short_escapes" by (rule map_of_SomeD)
  with Some show ?thesis
    by (auto simp: escape_def short_escapes_def printable_def BACKSLASH_def QUOTE_def)
qed

lemma printable_quoted: "\<forall>c \<in> set (quoted s). printable c"
  using printable_escape by (auto simp: quoted_def) (simp_all add: printable_def QUOTE_def)

lemma printable_dumps:
  "\<forall>c \<in> set (dumps v). printable c"
  "\<forall>c \<in> set (dump_items vs). printable c"
  "\<forall>c \<in> set (dump_members d). printable c"
proof (induction v and vs and d rule: dumps_dump_items_dump_members.induct)
  case (4 q)
  show ?case using printable_float by simp
qed (use printable_show_int printable_quoted in \<open>auto simp: printable_def\<close>)

definition whole_lines :: "string list \<Rightarrow> string" where
  "whole_lines ls = concat (List.map (\<lambda>l. l @ NL) ls)"

definition unbroken :: "string list \<Rightarrow> bool" where
  "unbroken ls \<longleftrightarrow> (\<forall>l \<in> set ls. \<forall>c \<in> set l. \<not> is_break c)"

lemma split_line: "\<forall>c \<in> set l. \<not> is_break c \<Longrightarrow> split_lines acc (l @ NL @ rest) = (acc @ l) # split_lines [] rest"
proof (induction l arbitrary: acc)
  case Nil
  then show ?case by (cases rest) (simp_all add: NL_def is_break_def)
qed simp

lemma splitlines_whole: "unbroken ls \<Longrightarrow> splitlines (whole_lines ls) = ls"
proof (induction ls)
  case Nil
  then show ?case by (simp add: splitlines_def whole_lines_def)
next
  case (Cons l ls)
  then show ?case by (simp add: splitlines_def whole_lines_def unbroken_def split_line)
qed

lemma joined_whole: "ls \<noteq> [] \<Longrightarrow> joined NL ls @ NL = whole_lines ls"
  by (induction NL ls rule: joined.induct) (simp_all add: whole_lines_def)

lemma unbroken_newest: "unbroken ls \<Longrightarrow> unbroken (newest n ls)"
  by (auto simp: unbroken_def newest_def dest: in_set_dropD)

text \<open>
  One decision more: the log stays a sequence of whole lines, the new one last; when the file had
  grown beyond the limit only the newest 5000 of the old ones are kept.
\<close>

theorem log_line_appends:
  assumes "unbroken ls"
  shows "log_line limit True entry (Some (whole_lines ls)) =
    (Inr (), Some (whole_lines ((if limit < length (whole_lines ls) then newest LOG_KEEP_LINES ls else ls) @ [dumps entry])))"
    and "unbroken ((if limit < length (whole_lines ls) then newest LOG_KEEP_LINES ls else ls) @ [dumps entry])"
proof -
  have "newest LOG_KEEP_LINES ls \<noteq> []" if "limit < length (whole_lines ls)"
    using that by (cases ls) (auto simp: newest_def LOG_KEEP_LINES_def whole_lines_def)
  then show "log_line limit True entry (Some (whole_lines ls)) =
    (Inr (), Some (whole_lines ((if limit < length (whole_lines ls) then newest LOG_KEEP_LINES ls else ls) @ [dumps entry])))"
    using joined_whole [of "newest LOG_KEEP_LINES ls"] splitlines_whole [OF assms]
    by (simp add: log_line_def rotate_log_def Let_def whole_lines_def [of "_ @ _"]) (simp add: whole_lines_def)
  have "unbroken [dumps entry]" using printable_dumps(1) printable_no_break by (auto simp: unbroken_def)
  then show "unbroken ((if limit < length (whole_lines ls) then newest LOG_KEEP_LINES ls else ls) @ [dumps entry])"
    using assms unbroken_newest [OF assms] by (auto simp: unbroken_def)
qed

section \<open>The decisions\<close>

text \<open>
  Without a client, and with one whose call raises, the placement is that of the heuristic, and the log
  says which of the two it was. (So the model of the agents in the theory Agents is what these
  agents compute.)
\<close>

theorem placement_falls_back:
  assumes "select_placement None job ms = Inr p" and "can_append env" and "job_summary job [(''node_count'', JInt (int (length ms)))] = Inr inputs"
    and "asked env = None \<or> (\<exists>ask e. asked env = Some ask \<and> strategy_of env = ''llm'' \<and> (\<forall>tool prompt. ask tool prompt = Inl e))"
  shows "\<exists>file'. placement_select env job ms file = (Inr (placement_json p), file') \<and>
    (\<exists>before. file' = Some (before @ dumps (decision_record (time_now env) ''PlacementAgent'' ''select_placement_node'' inputs (placement_json p)
      (if asked env = None then ''heuristic'' else ''heuristic_fallback'') (took_ms env)) @ NL))"
proof -
  have p: "ms \<noteq> []" "p = placement_heuristic ms"
    using assms(1) by (auto simp: select_placement_def consult_def split: if_splits)
  have "decide (asked env) (strategy_of env) ''select_placement_node'' (placement_prompt job ms) (Inr (placement_json p)) =
      Inr (placement_json p, if asked env = None then ''heuristic'' else ''heuristic_fallback'')"
    using assms(4) by (cases "placement_prompt job ms") (auto simp: decide_def llm_call_def)
  then show ?thesis
    using p assms(2,3) by (simp add: placement_select_def logged_def log_line_def act_simps Let_def)
qed

text \<open>A log that cannot be written loses the decision, which was made.\<close>

theorem unwritable_log_loses_decision:
  assumes "\<not> can_append env" and "ms \<noteq> []"
  shows "\<exists>e file'. placement_select env job ms file = (Inl e, file')"
proof -
  obtain r where "decide (asked env) (strategy_of env) ''select_placement_node'' (placement_prompt job ms)
      (Inr (placement_json (placement_heuristic ms))) = r" by blast
  then show ?thesis
    using assms by (cases r) (auto simp: placement_select_def logged_def log_line_def act_simps Let_def split: sum.splits)
qed

end
