(* ===== verification/Activity.thy ===== *)
theory Activity
  imports RingViews DecisionLog
begin

text \<open>
  The feed of a ring's activity: the bounded log of each process, \<open>chord/activity.py\<close>, and the
  endpoints of \<open>chord/server.py\<close> that show it and merge it with those of the peers and with the file
  of the agents' decisions. The state adds to the network the log of every process, by its
  address, and the file. The clock counts microseconds.
\<close>

section \<open>The log of one process\<close>

record feed_net = net +
  feeds :: "string \<Rightarrow> jdict list"
  decision_file :: "string option"

definition MAX_ENTRIES :: nat where "MAX_ENTRIES = 300"

text \<open>\<open>activity.log\<close>: the oldest entry is dropped when the log is full.\<close>

definition activity_log :: "string \<Rightarrow> string \<Rightarrow> string \<Rightarrow> jdict \<Rightarrow> ('z feed_net_scheme, unit) act" where
  "activity_log me event_type msg details = modify (\<lambda>s.
     let entry = [(''ts'', JFloat (seconds (clock s))), (''type'', JStr event_type), (''msg'', JStr msg), (''details'', JObj details)]
     in s\<lparr>feeds := (feeds s)(me := newest MAX_ENTRIES (feeds s me @ [entry]))\<rparr>)"

definition get_entries :: "nat \<Rightarrow> string \<Rightarrow> ('z feed_net_scheme, jdict list) act" where
  "get_entries limit me = gets (\<lambda>s. if limit = 0 then feeds s me else newest limit (feeds s me))"

definition chord_activity_local :: "string \<Rightarrow> ('z feed_net_scheme, jdict list) act" where
  "chord_activity_local me = get_entries 100 me"

section \<open>The merged feed\<close>

text \<open>The entries of the peers; one that does not answer is left out.\<close>

definition peer_entries :: "string \<Rightarrow> string list \<Rightarrow> jdict list \<Rightarrow> ('z feed_net_scheme, jdict list) act" where
  "peer_entries own addrs entries =
     for_each addrs (\<lambda>a acc.
       if a = own then ret acc
       else
         catch (andthen (http_attempt a (andthen (chord_activity_local a) (\<lambda>es. ret (Ok es)))) (\<lambda>r.
             ret (case r of Ok es \<Rightarrow> acc @ es | Status _ \<Rightarrow> acc)))
           (\<lambda>_. ret acc)) entries"

text \<open>A line of the file of decisions as an entry; a line that is no JSON object is skipped.\<close>

definition set_default :: "string \<Rightarrow> json \<Rightarrow> jdict \<Rightarrow> jdict" where
  "set_default k v d = (if k \<in> set (dkeys d) then d else d @ [(k, v)])"

definition decision_entry :: "string \<Rightarrow> jdict option" where
  "decision_entry line =
     (case loads line of
        Some (JObj e) \<Rightarrow>
          let e' = set_default ''type'' (JStr ''agent'') e; sep = '' '' @ DOT @ '' '' in
          Some (set_default ''msg''
            (JStr (py_str (dget_or (JStr ''Agent'') e' ''agent'') @ sep @ py_str (dget_or (JStr []) e' ''tool'') @ sep @
                   py_str (dget_or (JStr []) e' ''strategy''))) e')
      | _ \<Rightarrow> None)"

definition decision_entries :: "string option \<Rightarrow> jdict list" where
  "decision_entries file =
     (case file of
        Some content \<Rightarrow> List.map_filter decision_entry (newest 40 (splitlines (strip content)))
      | None \<Rightarrow> [])"

text \<open>\<open>(round(e.get("ts", 0), 2), e.get("msg", ""))\<close>, which must be a key of a set.\<close>

definition time_of :: "jdict \<Rightarrow> rat" where
  "time_of e = (case num_of (dget_or (JInt 0) e ''ts'') of Some q \<Rightarrow> q | None \<Rightarrow> 0)"

definition round_hundredths :: "rat \<Rightarrow> rat" where
  "round_hundredths q = of_int (round_half_even (q * 100)) / 100"

definition entry_key :: "jdict \<Rightarrow> exn + rat \<times> json" where
  "entry_key e =
     (let msg = dget_or (JStr []) e ''msg'' in
      if num_of (dget_or (JInt 0) e ''ts'') = None then Inl (TypeError ''round'')
      else if is_list msg \<or> is_dict msg then Inl (TypeError ''unhashable'')
      else Inr (round_hundredths (time_of e), msg))"

definition same_entry :: "rat \<times> json \<Rightarrow> rat \<times> json \<Rightarrow> bool" where
  "same_entry a b \<longleftrightarrow> fst a = fst b \<and> same_key (snd a) (snd b)"

fun unique_entries :: "(rat \<times> json) list \<Rightarrow> jdict list \<Rightarrow> exn + jdict list" where
  "unique_entries seen [] = Inr []"
| "unique_entries seen (e # es) =
     chain (entry_key e) (\<lambda>k.
       if \<exists>k' \<in> set seen. same_entry k k' then unique_entries seen es
       else chain (unique_entries (k # seen) es) (\<lambda>rest. Inr (e # rest)))"

definition merged :: "jdict list \<Rightarrow> exn + jdict list" where
  "merged entries = chain (unique_entries [] entries) (\<lambda>es. Inr (newest 150 (sort_key time_of es)))"

text \<open>The addresses are a set: \<open>order\<close> is the order in which Python iterates over it.\<close>

definition api_logs :: "(string list \<Rightarrow> string list) \<Rightarrow> string \<Rightarrow> ('z feed_net_scheme, jdict list) act" where
  "api_logs order me =
     andthen (read_node me (\<lambda>nd. (address nd, remdups (address nd # filter (\<lambda>a. a \<noteq> []) (List.map finger_addr (fingers nd)))))) (\<lambda>(own, addrs).
     andthen (get_entries 100 me) (\<lambda>local.
     andthen (peer_entries own (order addrs) local) (\<lambda>all.
     andthen (gets (\<lambda>s. decision_entries (decision_file s))) (\<lambda>decisions.
       lift (merged (all @ decisions))))))"

section \<open>What the feed shows\<close>

lemma activity_log_bound: "length (feeds (snd (activity_log me ty msg d s)) me) \<le> MAX_ENTRIES"
  by (simp add: activity_log_def act_simps Let_def newest_def MAX_ENTRIES_def)

lemma length_newest: "length (newest n xs) \<le> n"
  by (simp add: newest_def)

lemma unique_keys:
  "unique_entries seen es = Inr us \<Longrightarrow> set us \<subseteq> set es \<and>
     (\<forall>u \<in> set us. \<exists>k. entry_key u = Inr k \<and> (\<forall>k' \<in> set seen. \<not> same_entry k k')) \<and>
     sorted_wrt (\<lambda>a b. \<exists>k k'. entry_key a = Inr k \<and> entry_key b = Inr k' \<and> \<not> same_entry k' k) us"
proof (induction seen es arbitrary: us rule: unique_entries.induct)
  case (1 seen)
  then show ?case by simp
next
  case (2 seen e es)
  then obtain k where k: "entry_key e = Inr k" by (cases "entry_key e") auto
  show ?case
  proof (cases "\<exists>k' \<in> set seen. same_entry k k'")
    case True
    then have "unique_entries seen es = Inr us" using "2.prems" k by simp
    from "2.IH"(1) [OF True this] show ?thesis by auto
  next
    case False
    with "2.prems" k obtain rest where rest: "unique_entries (k # seen) es = Inr rest" "us = e # rest"
      by (cases "unique_entries (k # seen) es") auto
    note ih = "2.IH"(2) [OF False rest(1)]
    have "\<forall>u \<in> set rest. \<exists>k'. entry_key e = Inr k \<and> entry_key u = Inr k' \<and> \<not> same_entry k' k" using ih k by auto
    then have "sorted_wrt (\<lambda>a b. \<exists>k k'. entry_key a = Inr k \<and> entry_key b = Inr k' \<and> \<not> same_entry k' k) (e # rest)"
      using ih unfolding sorted_wrt.simps by blast
    moreover have "\<forall>u \<in> set (e # rest). \<exists>k. entry_key u = Inr k \<and> (\<forall>k' \<in> set seen. \<not> same_entry k k')"
      using ih k False by (auto simp del: split_paired_Ex)
    ultimately show ?thesis unfolding rest(2) using ih by auto
  qed
qed

text \<open>
  The merged feed has at most 150 entries, each from one of its sources, the oldest first, and
  what it leaves out for length is older than what it shows.
\<close>

theorem merged_feed:
  assumes "merged entries = Inr feed"
  shows "length feed \<le> 150 \<and> set feed \<subseteq> set entries \<and> sorted (List.map time_of feed) \<and>
    (\<exists>us hidden. unique_entries [] entries = Inr us \<and> sort_key time_of us = hidden @ feed \<and>
      (\<forall>h \<in> set hidden. \<forall>x \<in> set feed. time_of h \<le> time_of x))"
proof -
  obtain us where us: "unique_entries [] entries = Inr us" "feed = newest 150 (sort_key time_of us)"
    using assms by (auto simp: merged_def chain_eq_Inr)
  let ?hidden = "take (length us - 150) (sort_key time_of us)"
  have split: "sort_key time_of us = ?hidden @ feed" unfolding us(2) newest_def by simp
  have "sorted (List.map time_of (?hidden @ feed))" unfolding split [symmetric] by simp
  then have "sorted (List.map time_of feed)" "\<forall>h \<in> set ?hidden. \<forall>x \<in> set feed. time_of h \<le> time_of x"
    by (simp_all add: sorted_append)
  moreover have "set feed \<subseteq> set entries"
    using unique_keys [OF us(1)] set_drop_subset [of _ "sort_key time_of us"] unfolding us(2) newest_def by fastforce
  moreover have "length feed \<le> 150" unfolding us(2) by (rule length_newest)
  ultimately show ?thesis using us(1) split by blast
qed

end
