(* ===== verification/SimDemo.thy ===== *)
theory SimDemo
  imports Benchmark Faults
begin

text \<open>
  The demonstrations of the simulator, \<open>simulator/demo.py\<close> and \<open>simulator/fault_injection_demo.py\<close>: a run
  that places and executes jobs, and the two scenarios of fault injection. \<open>now\<close> is the time at
  which a job is submitted; the printing and the pauses are left out. Both build the nodes that the
  benchmark builds (\<open>setup_nodes\<close>) and the run draws its jobs from the same list (\<open>job_specs\<close>).
\<close>

section \<open>The run\<close>

record demo_log =
  l_job :: string
  l_node :: int
  l_priority :: string
  l_time_ms :: rat

record demo_state =
  d_nodes :: "VirtualNode list"
  d_service :: StubServiceLayer
  d_agent :: StubPlacementAgent
  d_log :: "demo_log list"

definition demo_setup :: "nat \<Rightarrow> demo_state" where
  "demo_setup n =
     \<lparr>d_nodes = fst (setup_nodes n), d_service = snd (setup_nodes n),
      d_agent = \<lparr>strategy = ''least_loaded'', round_robin_index = 0\<rparr>, d_log = []\<rparr>"

text \<open>The state and the placements, a dictionary from jobs to nodes.\<close>

definition demo_submit :: "(nat \<Rightarrow> rat) \<Rightarrow> nat \<Rightarrow> demo_state \<times> int dict \<Rightarrow> exn + demo_state \<times> int dict" where
  "demo_submit now j acc =
     (case (acc, job_specs ! (j mod length job_specs)) of ((d, placed), (cpu, memory, priority)) \<Rightarrow>
      let d1 = d\<lparr>d_service := put_task (job_name j)
                 [(''cpu_required'', JFloat cpu), (''memory_required'', JFloat memory), (''priority'', JStr priority),
                  (''submitted_at'', JFloat (now j))] (d_service d)\<rparr>
      in case select_placement (\<lambda>_. 0) (d_nodes d1) cpu memory (d_agent d1) of
           (None, agent) \<Rightarrow> Inr (d1\<lparr>d_agent := agent\<rparr>, placed)
         | (Some i, agent) \<Rightarrow>
             chain (position i (d_nodes d1)) (\<lambda>p.
             case submit_task (now j) (job_name j) cpu memory (d_nodes d1 ! p) of (success, n) \<Rightarrow>
               Inr (d1\<lparr>d_agent := agent, d_nodes := (d_nodes d1)[p := n]\<rparr>,
                    if success then dset (job_name j) i placed else placed)))"

definition demo_times :: "(string \<times> rat) list" where
  "demo_times = [(''low'', 1/10), (''medium'', 2/10), (''high'', 3/10)]"

text \<open>\<open>execution_times[priority]\<close>, with the key\<close>

fun find_time :: "json \<Rightarrow> exn + string \<times> rat" where
  "find_time (JStr p) = (case map_of demo_times p of None \<Rightarrow> Inl (KeyError p) | Some t \<Rightarrow> Inr (p, t))"
| "find_time _ = Inl (KeyError [])"

definition demo_execute :: "string \<times> int \<Rightarrow> demo_state \<Rightarrow> exn + demo_state" where
  "demo_execute entry d =
     (case get_task (fst entry) (d_service d) of
        None \<Rightarrow> Inl (AttributeError ''get'')
      | Some m \<Rightarrow>
          chain (find_time (dget_or (JStr ''medium'') m ''priority'')) (\<lambda>(priority, t).
          chain (position (snd entry) (d_nodes d)) (\<lambda>p.
          let n = complete_task (fst entry) (d_nodes d ! p) in
            Inr (d\<lparr>d_nodes := (d_nodes d)[p := n\<lparr>tasks_executed := tasks_executed n + 1\<rparr>],
                   d_log := d_log d @ [\<lparr>l_job = fst entry, l_node = snd entry, l_priority = priority, l_time_ms = t * 1000\<rparr>]\<rparr>))))"

text \<open>What is printed of the log: the number of jobs, the total and the average time.\<close>

definition demo_totals :: "demo_state \<Rightarrow> nat \<times> rat \<times> rat" where
  "demo_totals d =
     (let total = sum_list (List.map l_time_ms (d_log d)) in
      (length (d_log d), total, if d_log d = [] then 0 else total / of_nat (length (d_log d))))"

definition run_demo_scenario :: "(nat \<Rightarrow> rat) \<Rightarrow> nat \<Rightarrow> nat \<Rightarrow> exn + demo_state" where
  "run_demo_scenario now nodes jobs =
     chain (each (demo_submit now) [0..<jobs] (demo_setup nodes, [])) (\<lambda>(d, placed).
       each demo_execute placed d)"

section \<open>What the run executes\<close>

text \<open>A placed job is known to the service, with a priority, and waits on the node it was placed on.\<close>

definition waiting_ids :: "VirtualNode \<Rightarrow> string set" where
  "waiting_ids n = q_task_id ` set (task_queue n)"

definition queued_on :: "VirtualNode list \<Rightarrow> string \<times> int \<Rightarrow> bool" where
  "queued_on ns entry \<longleftrightarrow> (\<exists>p < length ns. snd entry = int p \<and> fst entry \<in> waiting_ids (ns ! p))"

definition prioritised :: "StubServiceLayer \<Rightarrow> string \<Rightarrow> bool" where
  "prioritised service job \<longleftrightarrow>
     (\<exists>m prio t. get_task job service = Some m \<and> find_time (dget_or (JStr ''medium'') m ''priority'') = Inr (prio, t))"

definition awaits_run :: "demo_state \<Rightarrow> string \<times> int \<Rightarrow> bool" where
  "awaits_run d entry \<longleftrightarrow> prioritised (d_service d) (fst entry) \<and> queued_on (d_nodes d) entry"

lemma queued_on_update:
  "queued_on ns e \<Longrightarrow> (fst e \<in> waiting_ids (ns ! p) \<Longrightarrow> fst e \<in> waiting_ids n) \<Longrightarrow> queued_on (ns[p := n]) e"
  unfolding queued_on_def by (metis length_list_update nth_list_update_eq nth_list_update_neq)

definition total_executed :: "demo_state \<Rightarrow> int" where
  "total_executed d = sum_list (List.map tasks_executed (d_nodes d))"

text \<open>While jobs are submitted nothing is executed.\<close>

definition submitting :: "demo_state \<times> int dict \<Rightarrow> bool" where
  "submitting acc \<longleftrightarrow> (case acc of (d, placed) \<Rightarrow>
     in_place (d_nodes d) \<and> total_executed d = 0 \<and> d_log d = [] \<and> wf_dict placed \<and> (\<forall>entry \<in> set placed. awaits_run d entry))"

lemma get_put_task [simp]: "get_task t (put_task t' m s) = (if t = t' then Some m else get_task t s)"
  by (simp add: get_task_def put_task_def update_conv')

lemma complete_queued:
  assumes "tid \<in> waiting_ids n"
  shows "tasks_executed (complete_task tid n) = tasks_executed n + 1"
    and "waiting_ids n - {tid} \<subseteq> waiting_ids (complete_task tid n)"
proof -
  obtain t where t: "List.find (\<lambda>t. q_task_id t = tid) (task_queue n) = Some t" "q_task_id t = tid"
    using assms find_member unfolding waiting_ids_def
    by (cases "List.find (\<lambda>t. q_task_id t = tid) (task_queue n)") (fastforce simp: find_None_iff)+
  then show "tasks_executed (complete_task tid n) = tasks_executed n + 1" by (simp add: complete_task_def)
  have "set (task_queue n) - {t} \<subseteq> set (remove1 t (task_queue n))" by (rule subsetI) (simp add: in_set_remove1)
  then show "waiting_ids n - {tid} \<subseteq> waiting_ids (complete_task tid n)"
    using t unfolding waiting_ids_def complete_task_def by (auto intro!: imageI)
qed

lemma demo_execute_ok:
  assumes "awaits_run d entry" and "\<forall>e \<in> set rest. awaits_run d e \<and> fst e \<noteq> fst entry"
  shows "\<exists>d'. demo_execute entry d = Inr d' \<and> (\<forall>e \<in> set rest. awaits_run d' e) \<and>
    total_executed d' = total_executed d + 2 \<and> length (d_log d') = length (d_log d) + 1"
proof -
  obtain m prio t p where entry: "get_task (fst entry) (d_service d) = Some m"
    "find_time (dget_or (JStr ''medium'') m ''priority'') = Inr (prio, t)"
    "p < length (d_nodes d)" "snd entry = int p" "fst entry \<in> waiting_ids (d_nodes d ! p)"
    using assms(1) by (auto simp: awaits_run_def prioritised_def queued_on_def)
  let ?c = "complete_task (fst entry) (d_nodes d ! p)"
  let ?n = "?c\<lparr>tasks_executed := tasks_executed ?c + 1\<rparr>"
  let ?d = "d\<lparr>d_nodes := (d_nodes d)[p := ?n],
    d_log := d_log d @ [\<lparr>l_job = fst entry, l_node = snd entry, l_priority = prio, l_time_ms = t * 1000\<rparr>]\<rparr>"
  have "demo_execute entry d = Inr ?d" using entry by (simp add: demo_execute_def position_def Let_def)
  moreover have "awaits_run ?d e" if "e \<in> set rest" for e
  proof -
    have "waiting_ids ?n = waiting_ids ?c" by (simp add: waiting_ids_def)
    then have "queued_on ((d_nodes d)[p := ?n]) e"
      using assms(2) that complete_queued(2) [OF entry(5)] by (intro queued_on_update) (auto simp: awaits_run_def)
    then show ?thesis using assms(2) that by (simp add: awaits_run_def)
  qed
  moreover have "total_executed ?d = total_executed d + 2"
    using queued_update [OF entry(3), of tasks_executed ?n] complete_queued(1) [OF entry(5)] by (simp add: total_executed_def)
  ultimately show ?thesis by auto
qed

lemma demo_execution_ok:
  assumes "wf_dict placed" and "\<forall>e \<in> set placed. awaits_run d e"
  shows "\<exists>d'. each demo_execute placed d = Inr d' \<and>
    total_executed d' = total_executed d + 2 * int (length placed) \<and> length (d_log d') = length (d_log d) + length placed"
  using assms
proof (induction placed arbitrary: d)
  case (Cons entry rest)
  have "\<forall>e \<in> set rest. awaits_run d e \<and> fst e \<noteq> fst entry" using Cons.prems by (auto simp: wf_dict_def dkeys_def intro: rev_image_eqI)
  then obtain d' where d': "demo_execute entry d = Inr d'" "\<forall>e \<in> set rest. awaits_run d' e"
    "total_executed d' = total_executed d + 2" "length (d_log d') = length (d_log d) + 1"
    using demo_execute_ok [of d entry rest] Cons.prems(2) by auto
  moreover have "wf_dict rest" using Cons.prems(1) by (simp add: wf_dict_def dkeys_def)
  ultimately show ?case using Cons.IH [of d'] by fastforce
qed simp

lemma update_member: "e \<in> set (AList.update k v al) \<Longrightarrow> e = (k, v) \<or> e \<in> set al"
  by (induction al) (auto split: if_splits)

lemma demo_submit_ok:
  assumes acc: "submitting acc"
  shows "\<exists>acc'. demo_submit now j acc = Inr acc' \<and> submitting acc'"
proof -
  obtain d placed where acc_eq: "acc = (d, placed)" by fastforce
  obtain cpu memory priority where spec: "job_specs ! (j mod length job_specs) = (cpu, memory, priority)" "0 \<le> cpu" "0 \<le> memory"
    "map_of execution_times priority \<noteq> None"
    by (rule job_specs_nonneg)
  then have "map_of demo_times priority \<noteq> None"
    unfolding map_of_eq_None_iff by (simp add: demo_times_def execution_times_def)
  then obtain t where t: "map_of demo_times priority = Some t" by blast
  let ?d = "d\<lparr>d_service := put_task (job_name j)
    [(''cpu_required'', JFloat cpu), (''memory_required'', JFloat memory), (''priority'', JStr priority),
     (''submitted_at'', JFloat (now j))] (d_service d)\<rparr>"
  have known: "awaits_run ?d e" if "awaits_run d e" for e
    using that t by (auto simp: awaits_run_def prioritised_def dget_or_def)
  obtain sel agent where sel: "select_placement (\<lambda>_. 0) (d_nodes d) cpu memory (d_agent d) = (sel, agent)" by fastforce
  show ?thesis
  proof (cases sel)
    case None
    have "demo_submit now j acc = Inr (?d\<lparr>d_agent := agent\<rparr>, placed)" using None spec(1) sel by (simp add: demo_submit_def acc_eq)
    moreover have "submitting (?d\<lparr>d_agent := agent\<rparr>, placed)"
      using acc known by (simp add: submitting_def total_executed_def acc_eq awaits_run_def)
    ultimately show ?thesis by blast
  next
    case (Some i)
    have picks: "picks (\<lambda>_. 0)" by (simp add: picks_def)
    have ns: "in_place (d_nodes d)" using acc by (simp add: submitting_def acc_eq)
    obtain p n where p: "position i (d_nodes d) = Inr p" "p < length (d_nodes d)" "i = int p"
      "submit_task (now j) (job_name j) cpu memory (d_nodes d ! p) = (True, n)"
      using selected_accepts [OF ns picks sel [unfolded Some]] by blast
    have n: "n = snd (submit_task (now j) (job_name j) cpu memory (d_nodes d ! p))" using p(4) by simp
    have queue: "waiting_ids n = insert (job_name j) (waiting_ids (d_nodes d ! p))"
      and executed_n: "tasks_executed n = tasks_executed (d_nodes d ! p)"
      using p(4) by (auto simp: submit_task_def waiting_ids_def split: if_splits)
    let ?d' = "?d\<lparr>d_agent := agent, d_nodes := (d_nodes d)[p := n]\<rparr>"
    have "demo_submit now j acc = Inr (?d', dset (job_name j) i placed)"
      using Some spec(1) sel p by (simp add: demo_submit_def acc_eq)
    moreover have "in_place (d_nodes ?d')"
    proof -
      have "accounted (d_nodes d ! p)" "is_healthy (d_nodes d ! p)" using ns p(2) by (auto simp: in_place_def)
      then have "accounted n" "v_node_id n = v_node_id (d_nodes d ! p)" "is_healthy n"
        using spec(2,3) by (simp_all add: n accounted_submit submit_fields)
      then show ?thesis using in_place_update [OF ns p(2), of n] by simp
    qed
    moreover have "total_executed ?d' = 0"
      using acc queued_update [OF p(2), of tasks_executed n] executed_n by (simp add: submitting_def total_executed_def acc_eq)
    moreover have "awaits_run ?d' (job_name j, i)"
      using t p queue by (auto simp: awaits_run_def prioritised_def queued_on_def dget_or_def)
    moreover have "awaits_run ?d' e" if "awaits_run d e" for e
      using known [OF that] queue by (auto simp: awaits_run_def intro: queued_on_update)
    ultimately show ?thesis
      using acc by (auto simp: submitting_def acc_eq dest!: update_member)
  qed
qed

interpretation submit_jobs: job_loop "demo_submit now" "\<lambda>_. submitting" for now
  by unfold_locales (rule demo_submit_ok)

lemma submitting_setup: "submitting (demo_setup nodes, [])"
  using setup_in_place [of nodes]
  by (simp add: submitting_def demo_setup_def total_executed_def wf_dict_def dkeys_def setup_nodes_def bench_node_def new_node_def comp_def)

text \<open>
  The run comes to its end, and the nodes then report twice as many executed tasks as the log
  has: \<open>complete_task\<close> counts the task, and the run counts it again.
\<close>

theorem demo_counts_twice:
  "\<exists>d. run_demo_scenario now nodes jobs = Inr d \<and> total_executed d = 2 * int (length (d_log d))"
proof -
  obtain d placed where "each (demo_submit now) [0..<jobs] (demo_setup nodes, []) = Inr (d, placed)" and "submitting (d, placed)"
    using submit_jobs.loop_ok [OF submitting_setup, of now jobs nodes] by auto
  then show ?thesis
    using demo_execution_ok [of placed d] by (auto simp: run_demo_scenario_def submitting_def)
qed

section \<open>Fault injection\<close>

definition tester_setup :: "nat \<Rightarrow> tester" where
  "tester_setup n = make_tester (fst (setup_nodes n)) (snd (setup_nodes n))"

text \<open>\<open>self.nodes[i].submit_task(...)\<close>, which reads the time when it accepts the task\<close>

definition submit_on :: "(nat \<Rightarrow> rat) \<Rightarrow> int \<Rightarrow> string \<Rightarrow> (tester, bool) act" where
  "submit_on clk i tid = (\<lambda>s. case position i (t_nodes s) of
      Inl e \<Rightarrow> (Inl e, s)
    | Inr p \<Rightarrow> (case submit_task (clk (readings s)) tid (1/2) 1 (t_nodes s ! p) of (success, n) \<Rightarrow>
        (Inr success, s\<lparr>t_nodes := (t_nodes s)[p := n],
           readings := if success then Suc (readings s) else readings s\<rparr>)))"

definition submit_in_turn :: "(nat \<Rightarrow> rat) \<Rightarrow> string \<Rightarrow> nat \<Rightarrow> nat \<Rightarrow> (tester, unit) act" where
  "submit_in_turn clk name jobs nodes =
     for_each [0..<jobs] (\<lambda>j _.
       if nodes = 0 then throw ZeroDivisionError
       else andthen (submit_on clk (int (j mod nodes)) (name @ show_nat j)) (\<lambda>_. ret ())) ()"

text \<open>\<open>if not node.is_healthy(): self.tester.recover_node(node.node_id)\<close>\<close>

definition recover_if_failed :: "(nat \<Rightarrow> rat) \<Rightarrow> nat \<Rightarrow> (tester, unit) act" where
  "recover_if_failed clk p =
     andthen (gets (\<lambda>s. t_nodes s ! p)) (\<lambda>n. if is_healthy n then ret () else recover_node clk (v_node_id n))"

definition run_single_failure_test :: "(nat \<Rightarrow> rat) \<Rightarrow> nat \<Rightarrow> (tester, recovery_metrics option) act" where
  "run_single_failure_test clk nodes =
     andthen (submit_in_turn clk ''job_'' 8 nodes) (\<lambda>_.
     andthen (inject_single_node_failure clk 1 (Some ''job_1'')) (\<lambda>_.
     andthen (recover_node clk 1) (\<lambda>_.
       gets get_recovery_metrics)))"

definition run_cascading_failure_test :: "(nat \<Rightarrow> rat) \<Rightarrow> nat \<Rightarrow> (tester, recovery_metrics option) act" where
  "run_cascading_failure_test clk nodes =
     andthen (gets (\<lambda>s. length (t_nodes s))) (\<lambda>n.
     andthen (for_each [0..<n] (\<lambda>p _. recover_if_failed clk p) ()) (\<lambda>_.
     andthen (submit_in_turn clk ''job_cascade_'' 10 nodes) (\<lambda>_.
     andthen (inject_cascading_failures clk 3) (\<lambda>events.
     andthen (for_each events (\<lambda>e _. recover_node clk (failed_node e)) ()) (\<lambda>_.
       gets get_recovery_metrics)))))"

definition run_all_tests ::
  "(nat \<Rightarrow> rat) \<Rightarrow> nat \<Rightarrow> (exn + recovery_metrics option \<times> recovery_metrics option) \<times> tester" where
  "run_all_tests clk nodes =
     (andthen (run_single_failure_test clk nodes) (\<lambda>m1.
      andthen (run_cascading_failure_test clk nodes) (\<lambda>m2.
        ret (m1, m2))) (tester_setup nodes))"

end
