(* ===== verification/Spec2Isabelle.thy ===== *)
theory Spec2Isabelle
  imports Workers Watcher TaskRuns AgentLoop GrpcServer Faults Operations DhtView ChatRuns Activity SimDemo
begin

text \<open>
  A model of the distributed task infrastructure in \<open>src/\<close>: a ring of Chord processes that store
  tasks, results and worker assignments, the services on top of it, and the simulator beside it.

  The program. Every process runs one \<open>ChordNode\<close> (\<open>chord/node.py\<close>) behind an HTTP server
  (\<open>chord/server.py\<close>). Nodes find each other by \<open>find_successor\<close>, which recurses through HTTP
  calls (\<open>chord/transport.py\<close>); a maintenance thread stabilizes the ring. On this ring live
  \<^item> the task service (\<open>storage/task_service.py\<close>, also through gRPC, \<open>api/grpc_server.py\<close>), which
    replicates task records along the successors (\<open>storage/replication.py\<close>);
  \<^item> the result records HT1 (\<open>storage/result_service.py\<close>) and the per-worker task lists HT2
    (\<open>storage/worker_assignment.py\<close>), written by the submission endpoints of the frontend, read by
    the task-execution workers (\<open>chord/task_runner.py\<close>) and repaired by the recovery manager
    (\<open>chord/recovery.py\<close>) with the help of the worker registry;
  \<^item> the older job path: jobs are placed by agents (\<open>chord/agent.py\<close>), stored as plain keys,
    claimed by a worker thread in each process (\<open>chord/worker.py\<close>) and taken over by the failure
    watcher when the predecessor disappears.

  Foundations.
  \<^item> Prelude: actions \<open>('s, 'a) act\<close> that change a state and return or raise; \<open>keeps\<close>; retry loops.
  \<^item> Python: JSON values, dictionaries, truth values, strings, integers, times. Json: the text of
    \<open>json.dumps\<close> and \<open>json.loads\<close>. Sha1: the hash of keys. Triples, and the collections
    \<open>act_simps\<close>, \<open>keeps_intro\<close>, \<open>triple_intro\<close>, \<open>fueled_intro\<close>, \<open>total_intro\<close>, \<open>post_intro\<close>: one rule
    per combinator, so that a proof about an operation follows its text.

  The ring (\<open>chord/node.py\<close>, \<open>chord/transport.py\<close>).
  \<^item> Ring: identifiers, \<open>in_range\<close>, the distances \<open>cw\<close> and \<open>dist\<close>. Node: the record \<open>node\<close> and what
    it does alone. Network: the record \<open>net\<close> of running processes with the clock and the fate of
    every HTTP attempt, and the handlers.
  \<^item> Lookup: \<open>find_successor\<close>; it ends, it is right in a stable ring, and it takes at most \<open>M\<close> hops
    when the fingers are right. Maintenance and Churn: \<open>join\<close>, \<open>stabilize\<close>, \<open>notify\<close>, \<open>fix_fingers\<close>,
    \<open>leave\<close>, \<open>check_predecessor\<close>; a stable ring stays stable, a join followed by stabilization and
    a leave give a stable ring again.
  \<^item> Frame: the storage operations do not touch the ring, so the lookups stay right under them.

  Storage.
  \<^item> Schema (\<open>storage/schema.py\<close>): which task records are built and how they change. Replication:
    the writes along the successor chain; the locale \<open>replica_op\<close> is the contract of one replica
    operation, interpreted on the writes and deletions of tasks, results and assignments.
  \<^item> TaskService, GrpcServer: what was registered or updated is read back, through both interfaces.
  \<^item> Results (HT1) and Assignment (HT2), with the locales of Storage: \<open>data_invariant\<close>,
    \<open>keyed_records\<close> and \<open>record_invariant\<close> say once what the services preserve.
  \<^item> Routed: \<open>/put\<close>, \<open>/get\<close> and \<open>/del\<close>. RingWide: the resets that walk over all processes.

  Tasks.
  \<^item> Retry, Registry, Submission, Submit, Workers: the task endpoints of \<open>chord/server.py\<close>;
    acceptance, refusal with rollback, completion, rebalancing.
  \<^item> Recovery, RecoveryInv, RecoveryRun, Liveness: the recovery manager. The locales
    \<open>recovery_invariant\<close> and \<open>recovery_state_invariant\<close> give the bound on attempts and the frame of a
    scan. \<open>crash_recovery\<close> states what one recovery leaves; \<open>trigger_returns\<close> that a scan ends.
  \<^item> TaskRunner, TaskRuns: \<open>chord/task_runner.py\<close> and \<open>chord/executor.py\<close>; a submitted task runs and
    its result is read back; the schedule of the threads is the step relation \<open>runner_step\<close>.

  Jobs.
  \<^item> Agents, AgentLoop: placement, copies, recovery plans, and the observer thread. Jobs,
    Placement: submission of jobs and what is stored where. JobWorker: the worker thread, a step
    relation \<open>worker_step\<close> whose rounds are a scan and then the reaper, interleaved with the pool. Watcher: the failure watcher.

  Around them.
  \<^item> Files: the file store with its log and its client. Operations: killing workers, the thread that
    starts them, samples, events and demonstration runs. RingViews and DhtView: what the
    dashboards compute from the ring and from the two tables.

  The conversation (\<open>chord/conversation_agent.py\<close>, \<open>/agent/chat\<close>).
  \<^item> Regex: the part of \<open>re\<close> that the agent uses, with the proof that the matcher finds all matches and
    no others.
  \<^item> Conversation: the agent that follows a script, with its state in the history, the questions it
    recognises and its answers; the agent that lets a language model call the same tools, in at most
    six rounds.
  \<^item> ChatRuns: a whole conversation from the first word to the question for the result; only complete
    tasks are ever submitted; the texts that the agent takes for something else.

  DecisionLog: the agents of \<open>chord/agent.py\<close> as they run, with prompts, the call of the language
  model, the fall-back and the file of decisions. Activity: the bounded log of each process
  (\<open>chord/activity.py\<close>) and the feed merged from the whole ring.

  The simulator (\<open>simulator/\<close>).
  \<^item> Simulator: virtual nodes with their resource accounts, service layer and placement agent.
    SimMetrics: metrics of a run. Benchmark: one run, with the locale \<open>job_loop\<close> for its two loops.
    Faults: fault injection, a step relation \<open>fault_step\<close>. SimDemo: the two demonstrations.

  Concurrency. A call runs its handler to the end before the caller goes on: the operations of
  different processes are interleaved by explicit sequences of actions, not the instructions
  inside one. The threads of the job worker and of the task-execution worker do interleave: each
  locked section is one step of their relations.

  Bounds. \<open>M = 8\<close>, so a ring has 256 identifiers. \<open>fuel\<close> is the number of nested lookups a
  process may start: 255 is the largest clockwise distance, so 256 is enough in every stable
  ring (\<open>find_successor_ends\<close>). A walk over the ring takes at most 2313 = 9 + 9 * 256 addresses
  from its queue; the observer's walk is bounded by 1000, more than the 256 identifiers it can see.
  The JSON parser needs at most twice the length of the text (\<open>scan_enough\<close>). Running out of fuel
  is the exception \<open>OutOfFuel\<close>, which no handler catches; the theorems named here and the
  \<open>total\<close> triples of Liveness show that it does not happen.

  Parameters. What other programs decide is an argument: the fate of HTTP attempts, \<open>popen\<close> and
  \<open>spawn\<close> (processes), \<open>proc\<close> (subprocesses of a task) and \<open>tempname\<close>, \<open>meanwhile\<close> (other threads
  while a handler sleeps), \<open>inject\<close> (the failure injected by the environment variable), \<open>order\<close>
  (iteration of a Python set), \<open>fresh\<close> and \<open>generated\<close> (uuid), the language model of the agents,
  \<open>choice\<close> and \<open>randint\<close> (random), \<open>took\<close> and \<open>clk\<close> (measured times), \<open>kill\<close> and \<open>pgrep\<close> (processes of
  workers), \<open>arrives\<close> (what is left of a path that is not quoted), \<open>fromiso\<close> (dates), the
  record \<open>web\<close> of Conversation (HTTP requests to a node, threads, uuids, texts of exceptions).

  Not modelled. The prompt of the language model and the schemas of its tools are data for it;
  \<open>chord/metrics_registry.py\<close> only feeds a third-party metrics client; the gRPC
  stubs are generated; static pages and the proxies that add or remove a
  process are left out of \<open>chord/server.py\<close>, and \<open>start_node\<close> only creates threads; the scripts at
  the top of the repository parse arguments and print. Floats are rationals where the simulator computes with them; texts of exceptions and
  log lines are abbreviated or left out.
\<close>

end
